(* ===== verification/Prelude.thy ===== *)
theory Prelude
  imports Main "HOL-Library.Word" "HOL-Library.Signed_Division"
begin

text \<open>
  Shared vocabulary of the development: machine word types, Go panics and errors as values of a
  sum type, decimal text, little-endian digit lists over a word type (used for the four limbs of a
  256-bit integer and for the bytes of the bytecode format), and the generic lemmas
  every component needs.
\<close>

unbundle bit_operations_syntax

type_synonym u8 = "8 word"
type_synonym u16 = "16 word"
type_synonym u32 = "32 word"
type_synonym u64 = "64 word"

named_theorems limb_spec
  \<open>numeric specifications of the carry, borrow and product primitives\<close>

section \<open>Panics and results\<close>

text \<open>The Go run-time panics the modelled code can raise.\<close>

datatype go_panic =
    PIndexOutOfRange
  | PDivideByZero
  | PDivideOverflow
  | PNilPointer
  | PMessage string

text \<open>Sequencing of computations that may fail: the first failure wins.\<close>

fun bindr :: "'e + 'a \<Rightarrow> ('a \<Rightarrow> 'e + 'b) \<Rightarrow> 'e + 'b" where
  "bindr (Inl e) f = Inl e"
| "bindr (Inr a) f = f a"

lemma bindr_Inr_iff [simp]: "bindr m f = Inr b \<longleftrightarrow> (\<exists>a. m = Inr a \<and> f a = Inr b)"
  by (cases m) auto

lemma bindr_Inl_iff: "bindr m f = Inl e \<longleftrightarrow> m = Inl e \<or> (\<exists>a. m = Inr a \<and> f a = Inl e)"
  by (cases m) auto

lemma bindr_cong [fundef_cong]:
  "m = m' \<Longrightarrow> (\<And>a. m' = Inr a \<Longrightarrow> f a = f' a) \<Longrightarrow> bindr m f = bindr m' f'"
  by (cases m') auto

lemma bindr_assoc: "bindr (bindr m f) g = bindr m (\<lambda>x. bindr (f x) g)"
  by (cases m) auto

section \<open>Error values\<close>

text \<open>
  The values of Go's \<^verbatim>\<open>error\<close> the modelled code returns: the two end-of-input errors of
  \<^verbatim>\<open>io\<close>, a message with its arguments (\<^verbatim>\<open>fmt.Errorf\<close>, the arguments left
  unformatted), and a message wrapped around another error (\<^verbatim>\<open>\%w\<close>). A panic that
  leaves a function which returns an \<^verbatim>\<open>error\<close> is kept apart as \<open>Panicked\<close>.
\<close>

datatype err_arg = IArg int | SArg string

datatype go_error =
    ErrEOF
  | ErrUnexpectedEOF
  | Errorf string "err_arg list"
  | Wrapf string go_error
  | Panicked go_panic

text \<open>\<^verbatim>\<open>if err != nil { return ..., fmt.Errorf(msg + ": \%w", err) }\<close>\<close>

fun wrap_error :: "string \<Rightarrow> go_error + 'a \<Rightarrow> go_error + 'a" where
  "wrap_error msg (Inl e) = Inl (Wrapf msg e)"
| "wrap_error msg (Inr a) = Inr a"

lemma wrap_error_Inr_iff [simp]: "wrap_error msg m = Inr a \<longleftrightarrow> m = Inr a"
  by (cases m) auto

text \<open>A check that only fails or passes, and a list of checks in order.\<close>

type_synonym check = "go_error + unit"

definition ensure :: "bool \<Rightarrow> go_error \<Rightarrow> check" where
  "ensure c e = (if c then Inr () else Inl e)"

lemma ensure_Inr_iff [simp]: "ensure c e = Inr u \<longleftrightarrow> c"
  by (simp add: ensure_def)

fun check_all :: "check list \<Rightarrow> check" where
  "check_all [] = Inr ()"
| "check_all (c # cs) = bindr c (\<lambda>_. check_all cs)"

lemma check_all_Inr_iff [simp]: "check_all cs = Inr u \<longleftrightarrow> (\<forall>c \<in> set cs. c = Inr ())"
  by (induction cs) auto

section \<open>Switches\<close>

text \<open>A Go \<^verbatim>\<open>switch\<close> over constants as a table, with the value of its default case.\<close>

fun switch_on :: "'b \<Rightarrow> ('a \<times> 'b) list \<Rightarrow> 'a \<Rightarrow> 'b" where
  "switch_on d [] x = d"
| "switch_on d ((k, v) # kvs) x = (if x = k then v else switch_on d kvs x)"

lemma switch_on_range: "switch_on d kvs x \<noteq> d \<Longrightarrow> (x, switch_on d kvs x) \<in> set kvs"
  by (induction d kvs x rule: switch_on.induct) auto

lemma switch_on_values: "switch_on d kvs x \<in> insert d (snd ` set kvs)"
  by (induction d kvs x rule: switch_on.induct) auto

lemma switch_on_distinct: "distinct (map fst kvs) \<Longrightarrow> (x, v) \<in> set kvs \<Longrightarrow> switch_on d kvs x = v"
  by (induction d kvs x rule: switch_on.induct) force+

section \<open>Decimal text\<close>

text \<open>Go strings are byte strings; a \<open>char\<close> of HOL is a byte.\<close>

definition digit_char :: "nat \<Rightarrow> char" where
  "digit_char d = char_of (48 + d)"

fun decimal :: "nat \<Rightarrow> string" where
  "decimal n = (if n < 10 then [digit_char n] else decimal (n div 10) @ [digit_char (n mod 10)])"

declare decimal.simps [simp del]

definition itoa :: "int \<Rightarrow> string" where
  "itoa i = (if i < 0 then CHR ''-'' # decimal (nat (- i)) else decimal (nat i))"

section \<open>Digit lists\<close>

text \<open>
  \<open>wval\<close> reads a list of words as a number, least significant word first;
  \<open>wdigits k n\<close> writes the low \<open>k\<close> digits of \<open>n\<close>.
\<close>

primrec wval :: "'a::len word list \<Rightarrow> nat" where
  "wval [] = 0"
| "wval (w # ws) = unat w + 2 ^ LENGTH('a) * wval ws"

primrec wdigits :: "nat \<Rightarrow> nat \<Rightarrow> 'a::len word list" where
  "wdigits 0 n = []"
| "wdigits (Suc k) n = word_of_nat n # wdigits k (n div 2 ^ LENGTH('a))"

lemma length_wdigits [simp]: "length (wdigits k n) = k"
  by (induction k arbitrary: n) auto

lemma wval_append:
  "wval (xs @ ys) = wval (xs :: 'a::len word list) + 2 ^ (LENGTH('a) * length xs) * wval ys"
  by (induction xs) (auto simp: power_add algebra_simps)

lemma wval_bound: "wval (ws :: 'a::len word list) < 2 ^ (LENGTH('a) * length ws)"
proof (induction ws)
  case Nil
  then show ?case by simp
next
  case (Cons w ws)
  have w: "unat w < 2 ^ LENGTH('a)" by simp
  from Cons have "Suc (wval ws) \<le> 2 ^ (LENGTH('a) * length ws)" by simp
  then have "2 ^ LENGTH('a) * Suc (wval ws) \<le> 2 ^ LENGTH('a) * 2 ^ (LENGTH('a) * length ws)"
    by (rule mult_le_mono2)
  then have "2 ^ LENGTH('a) + 2 ^ LENGTH('a) * wval ws \<le> 2 ^ (LENGTH('a) * length (w # ws))"
    by (simp add: power_add)
  with w show ?case unfolding wval.simps by linarith
qed

lemma wval_wdigits: "wval (wdigits k n :: 'a::len word list) = n mod 2 ^ (LENGTH('a) * k)"
proof (induction k arbitrary: n)
  case 0
  then show ?case by simp
next
  case (Suc k)
  have "n mod (2 ^ LENGTH('a) * 2 ^ (LENGTH('a) * k))
      = 2 ^ LENGTH('a) * (n div 2 ^ LENGTH('a) mod 2 ^ (LENGTH('a) * k)) + n mod 2 ^ LENGTH('a)"
    by (rule mod_mult2_eq)
  with Suc show ?case
    by (simp add: power_add unat_of_nat take_bit_eq_mod)
qed

lemma wdigits_wval [simp]: "wdigits (length ws) (wval ws) = (ws :: 'a::len word list)"
  by (induction ws) (auto simp: word_of_nat_eq_iff take_bit_eq_mod)

lemma wdigits_wval_length: "length ws = k \<Longrightarrow> wdigits k (wval ws) = (ws :: 'a::len word list)"
  by (metis wdigits_wval)

lemma wval_inject:
  "length xs = length ys \<Longrightarrow> wval xs = wval ys \<longleftrightarrow> xs = (ys :: 'a::len word list)"
  by (metis wdigits_wval)

section \<open>An interface: fixed-width arithmetic\<close>

text \<open>
  What a client may assume of a fixed-width integer type: an injective representation as a
  library word, which addition, subtraction and the constant zero respect. The laws of an
  abelian group and the two wrap-around tests the checked operations rely on follow.
\<close>

locale word_group =
  fixes repr :: "'a \<Rightarrow> 'w::len word"
    and zero :: 'a
    and add :: "'a \<Rightarrow> 'a \<Rightarrow> 'a"
    and sub :: "'a \<Rightarrow> 'a \<Rightarrow> 'a"
  assumes repr_eq_iff: "repr a = repr b \<longleftrightarrow> a = b"
    and repr_zero: "repr zero = 0"
    and repr_add: "repr (add a b) = repr a + repr b"
    and repr_sub: "repr (sub a b) = repr a - repr b"
begin

lemma add_commute: "add a b = add b a"
  unfolding repr_eq_iff [symmetric] repr_add by (rule add.commute)

lemma add_assoc: "add (add a b) c = add a (add b c)"
  unfolding repr_eq_iff [symmetric] repr_add by (rule add.assoc)

lemma add_zero: "add a zero = a"
  unfolding repr_eq_iff [symmetric] repr_add repr_zero by simp

lemma sub_add_cancel: "add (sub a b) b = a"
  unfolding repr_eq_iff [symmetric] repr_add repr_sub by simp

lemma add_sub_cancel: "sub (add a b) b = a"
  unfolding repr_eq_iff [symmetric] repr_add repr_sub by simp

lemma sub_zero_iff: "sub a b = zero \<longleftrightarrow> a = b"
  unfolding repr_eq_iff [symmetric] repr_zero repr_sub by simp

text \<open>A sum wraps around exactly when it is below its first operand.\<close>

lemma add_wraps_iff:
  "unat (repr (add a b)) < unat (repr a) \<longleftrightarrow> 2 ^ LENGTH('w) \<le> unat (repr a) + unat (repr b)"
proof -
  have a: "unat (repr a) < 2 ^ LENGTH('w)" and b: "unat (repr b) < 2 ^ LENGTH('w)" by simp_all
  show ?thesis
  proof (cases "unat (repr a) + unat (repr b) < 2 ^ LENGTH('w)")
    case True
    then show ?thesis by (simp add: repr_add unat_word_ariths)
  next
    case False
    have "unat (repr a) + unat (repr b) - 2 ^ LENGTH('w) < 2 ^ LENGTH('w)" using a b by linarith
    with False have "(unat (repr a) + unat (repr b)) mod 2 ^ LENGTH('w)
        = unat (repr a) + unat (repr b) - 2 ^ LENGTH('w)"
      by (simp add: le_mod_geq)
    then have s: "unat (repr (add a b)) = unat (repr a) + unat (repr b) - 2 ^ LENGTH('w)"
      by (simp add: repr_add unat_word_ariths)
    from False a b show ?thesis unfolding s by linarith
  qed
qed

end

section \<open>Key-value stores\<close>

text \<open>
  What a client of a map relies on: the value last put under a key is the one read, other keys
  keep theirs, and the store stays consistent.
\<close>

locale kv_store =
  fixes get :: "'t \<Rightarrow> 'k \<Rightarrow> 'v" and put :: "'t \<Rightarrow> 'k \<Rightarrow> 'v \<Rightarrow> 't"
    and inv :: "'t \<Rightarrow> bool" and key_ok :: "'k \<Rightarrow> bool"
  assumes inv_put: "inv t \<Longrightarrow> key_ok k \<Longrightarrow> inv (put t k v)"
    and get_put: "inv t \<Longrightarrow> key_ok k \<Longrightarrow> get (put t k v) k' = (if k' = k then v else get t k')"
begin

lemma get_fold_put:
  assumes "inv t" "\<forall>(k, v) \<in> set kvs. key_ok k"
  shows "inv (fold (\<lambda>(k, v) t. put t k v) kvs t) \<and>
    get (fold (\<lambda>(k, v) t. put t k v) kvs t) k = (case map_of (rev kvs) k of None \<Rightarrow> get t k | Some v \<Rightarrow> v)"
  using assms
proof (induction kvs arbitrary: t)
  case (Cons kv kvs)
  obtain x v where kv: "kv = (x, v)" by fastforce
  with Cons.prems have "inv (put t x v)" "get (put t x v) k = (if k = x then v else get t k)"
    by (auto intro: inv_put simp: get_put)
  with Cons.IH [of "put t x v"] Cons.prems show ?case by (auto simp: kv map_add_def split: option.splits)
qed simp

lemma put_commute:
  assumes "inv t" "key_ok k" "key_ok k'" "k \<noteq> k'"
  shows "get (put (put t k v) k' v') x = get (put (put t k' v') k v) x"
  using assms by (simp add: get_put inv_put)

lemma put_overwrite:
  assumes "inv t" "key_ok k" shows "get (put (put t k v) k v') x = get (put t k v') x"
  using assms by (simp add: get_put inv_put)

end

end
