(* ===== verification/Uint256.thy ===== *)
theory Uint256
  imports Prelude
begin

text \<open>
  The 256-bit unsigned integers of the VM (\<^verbatim>\<open>uint256.go\<close>, type \<^verbatim>\<open>LUint256\<close> of
  \<^verbatim>\<open>config.go\<close>): four 64-bit limbs, the primitives of Go's \<^verbatim>\<open>math/bits\<close> the code
  calls, and every operation but division and exponentiation (theory \<open>UintDiv\<close>) and
  text conversion (theory \<open>UintText\<close>). The abstract value of a number is the natural number \<open>val\<close>,
  or the library word \<open>w256\<close>; each operation is related to the operation of the same
  name on these.
\<close>

section \<open>The type\<close>

text \<open>
  \<^verbatim>\<open>type LUint256 struct { lo, ml, mh, hi uint64 }\<close>: an immutable value type, so a
  datatype with one constructor and the field names as selectors.
\<close>

datatype LUint256 = LU256 (lo: u64) (ml: u64) (mh: u64) (hi: u64)

definition LUint256Zero :: LUint256 where
  "LUint256Zero = LU256 0 0 0 0"

definition LUint256One :: LUint256 where
  "LUint256One = LU256 1 0 0 0"

text \<open>The array view \<^verbatim>\<open>[4]uint64{a.lo, a.ml, a.mh, a.hi}\<close> and its inverse.\<close>

definition limbs :: "LUint256 \<Rightarrow> u64 list" where
  "limbs a = [lo a, ml a, mh a, hi a]"

definition of_limbs :: "u64 list \<Rightarrow> LUint256" where
  "of_limbs r = LU256 (r ! 0) (r ! 1) (r ! 2) (r ! 3)"

definition val :: "LUint256 \<Rightarrow> nat" where
  "val a = wval (limbs a)"

definition w256 :: "LUint256 \<Rightarrow> 256 word" where
  "w256 a = word_of_nat (val a)"

definition of_val :: "nat \<Rightarrow> LUint256" where
  "of_val n = of_limbs (wdigits 4 n)"

section \<open>The primitives of math/bits\<close>

text \<open>\<^verbatim>\<open>bits.Add64\<close>, \<^verbatim>\<open>bits.Sub64\<close> (carry and borrow in and out) and \<^verbatim>\<open>bits.Mul64\<close>.\<close>

definition bits_Add64 :: "u64 \<Rightarrow> u64 \<Rightarrow> u64 \<Rightarrow> u64 \<times> u64" where
  "bits_Add64 x y carry =
     (let s = unat x + unat y + unat carry in (word_of_nat s, word_of_nat (s div 2 ^ 64)))"

definition bits_Sub64 :: "u64 \<Rightarrow> u64 \<Rightarrow> u64 \<Rightarrow> u64 \<times> u64" where
  "bits_Sub64 x y borrow =
     (x - y - borrow, if unat x < unat y + unat borrow then 1 else 0)"

definition bits_Mul64 :: "u64 \<Rightarrow> u64 \<Rightarrow> u64 \<times> u64" where
  "bits_Mul64 x y = (let p = unat x * unat y in (word_of_nat (p div 2 ^ 64), word_of_nat p))"

section \<open>Conversions\<close>

definition lu256FromInt :: "int \<Rightarrow> LUint256" where
  "lu256FromInt v = (if v \<le> 0 then LUint256Zero else LU256 (word_of_int v) 0 0 0)"

definition lu256FromInt64 :: "int \<Rightarrow> LUint256" where
  "lu256FromInt64 v = (if v \<le> 0 then LUint256Zero else LU256 (word_of_int v) 0 0 0)"

definition lu256FromUint64 :: "u64 \<Rightarrow> LUint256" where
  "lu256FromUint64 v = LU256 v 0 0 0"

definition lu256ToInt :: "LUint256 \<Rightarrow> int \<times> bool" where
  "lu256ToInt v =
     (if hi v \<noteq> 0 \<or> mh v \<noteq> 0 \<or> ml v \<noteq> 0 then (0, False)
      else if lo v > drop_bit 1 (NOT 0) then (0, False)
      else (uint (lo v), True))"

definition lu256ToInt64 :: "LUint256 \<Rightarrow> int \<times> bool" where
  "lu256ToInt64 v =
     (if hi v \<noteq> 0 \<or> mh v \<noteq> 0 \<or> ml v \<noteq> 0 then (0, False)
      else if lo v > 9223372036854775807 then (0, False)
      else (uint (lo v), True))"

section \<open>Comparison and predicates\<close>

definition lu256Cmp :: "LUint256 \<Rightarrow> LUint256 \<Rightarrow> int" where
  "lu256Cmp a b =
     (if hi a \<noteq> hi b then (if hi a > hi b then 1 else -1)
      else if mh a \<noteq> mh b then (if mh a > mh b then 1 else -1)
      else if ml a \<noteq> ml b then (if ml a > ml b then 1 else -1)
      else if lo a \<noteq> lo b then (if lo a > lo b then 1 else -1)
      else 0)"

definition lu256IsZero :: "LUint256 \<Rightarrow> bool" where
  "lu256IsZero v \<longleftrightarrow> v = LU256 0 0 0 0"

definition lu256IsNeg :: "LUint256 \<Rightarrow> bool" where
  "lu256IsNeg v \<longleftrightarrow> drop_bit 63 (hi v) \<noteq> 0"

definition lu256SCmp :: "LUint256 \<Rightarrow> LUint256 \<Rightarrow> int" where
  "lu256SCmp a b =
     (let aNeg = lu256IsNeg a; bNeg = lu256IsNeg b
      in if aNeg \<noteq> bNeg then (if aNeg then -1 else 1) else lu256Cmp a b)"

definition lu256ToSignedInt :: "LUint256 \<Rightarrow> int \<times> bool" where
  "lu256ToSignedInt v =
     (if drop_bit 63 (hi v) = 0 then lu256ToInt v
      else if hi v \<noteq> NOT 0 \<or> mh v \<noteq> NOT 0 \<or> ml v \<noteq> NOT 0 then (0, False)
      else (sint (lo v), True))"

section \<open>Addition, subtraction, multiplication\<close>

definition lu256Add :: "LUint256 \<Rightarrow> LUint256 \<Rightarrow> LUint256" where
  "lu256Add a b =
     (let (l, c0) = bits_Add64 (lo a) (lo b) 0;
          (m, c1) = bits_Add64 (ml a) (ml b) c0;
          (n, c2) = bits_Add64 (mh a) (mh b) c1;
          (h, _) = bits_Add64 (hi a) (hi b) c2
      in LU256 l m n h)"

definition lu256Sub :: "LUint256 \<Rightarrow> LUint256 \<Rightarrow> LUint256" where
  "lu256Sub a b =
     (let (l, b0) = bits_Sub64 (lo a) (lo b) 0;
          (m, b1) = bits_Sub64 (ml a) (ml b) b0;
          (n, b2) = bits_Sub64 (mh a) (mh b) b1;
          (h, _) = bits_Sub64 (hi a) (hi b) b2
      in LU256 l m n h)"

text \<open>
  The schoolbook product exactly as written: the carry of one addition is the carry-in
  of the next addition \<^emph>\<open>of the same word\<close>, and only the last carry of a word goes
  into the next word.
\<close>

definition lu256Mul :: "LUint256 \<Rightarrow> LUint256 \<Rightarrow> LUint256" where
  "lu256Mul a b =
     (let (h0, r0) = bits_Mul64 (lo a) (lo b);
          (h01, p01) = bits_Mul64 (lo a) (ml b);
          (h10, p10) = bits_Mul64 (ml a) (lo b);
          (r1, c) = bits_Add64 h0 p01 0;
          (r1, c) = bits_Add64 r1 p10 c;
          carry1 = h01 + h10 + c;
          (h02, p02) = bits_Mul64 (lo a) (mh b);
          (h11, p11) = bits_Mul64 (ml a) (ml b);
          (h20, p20) = bits_Mul64 (mh a) (lo b);
          (r2, c) = bits_Add64 carry1 p02 0;
          (r2, c) = bits_Add64 r2 p11 c;
          (r2, c) = bits_Add64 r2 p20 c;
          carry2 = h02 + h11 + h20 + c;
          (_, p03) = bits_Mul64 (lo a) (hi b);
          (_, p12) = bits_Mul64 (ml a) (mh b);
          (_, p21) = bits_Mul64 (mh a) (ml b);
          (_, p30) = bits_Mul64 (hi a) (lo b);
          r3 = carry2 + p03 + p12 + p21 + p30
      in LU256 r0 r1 r2 r3)"

section \<open>Bitwise operations and shifts\<close>

definition lu256Band :: "LUint256 \<Rightarrow> LUint256 \<Rightarrow> LUint256" where
  "lu256Band a b = LU256 (lo a AND lo b) (ml a AND ml b) (mh a AND mh b) (hi a AND hi b)"

definition lu256Bor :: "LUint256 \<Rightarrow> LUint256 \<Rightarrow> LUint256" where
  "lu256Bor a b = LU256 (lo a OR lo b) (ml a OR ml b) (mh a OR mh b) (hi a OR hi b)"

definition lu256Bxor :: "LUint256 \<Rightarrow> LUint256 \<Rightarrow> LUint256" where
  "lu256Bxor a b = LU256 (lo a XOR lo b) (ml a XOR ml b) (mh a XOR mh b) (hi a XOR hi b)"

definition lu256Bnot :: "LUint256 \<Rightarrow> LUint256" where
  "lu256Bnot a = LU256 (NOT (lo a)) (NOT (ml a)) (NOT (mh a)) (NOT (hi a))"

definition lu256ShiftAmount :: "LUint256 \<Rightarrow> nat" where
  "lu256ShiftAmount v =
     (if hi v \<noteq> 0 \<or> mh v \<noteq> 0 \<or> ml v \<noteq> 0 \<or> lo v \<ge> 256 then 256 else unat (lo v))"

definition lu256Shl :: "LUint256 \<Rightarrow> nat \<Rightarrow> LUint256" where
  "lu256Shl a n =
     (if n \<ge> 256 then LU256 0 0 0 0
      else if n = 0 then a
      else
        let words = limbs a;
            wordShift = n div 64;
            bitShift = n mod 64;
            result =
              (if bitShift = 0
               then map (\<lambda>i. if i < wordShift then 0 else words ! (i - wordShift)) [0..<4]
               else map (\<lambda>i. if i < wordShift then 0
                             else if i > wordShift
                             then push_bit bitShift (words ! (i - wordShift))
                                    OR drop_bit (64 - bitShift) (words ! (i - wordShift - 1))
                             else push_bit bitShift (words ! (i - wordShift))) [0..<4])
        in of_limbs result)"

definition lu256Shr :: "LUint256 \<Rightarrow> nat \<Rightarrow> LUint256" where
  "lu256Shr a n =
     (if n \<ge> 256 then LU256 0 0 0 0
      else if n = 0 then a
      else
        let words = limbs a;
            wordShift = n div 64;
            bitShift = n mod 64;
            result =
              (if bitShift = 0
               then map (\<lambda>i. if i < 4 - wordShift then words ! (i + wordShift) else 0) [0..<4]
               else map (\<lambda>i. if \<not> i < 4 - wordShift then 0
                             else if i + wordShift + 1 < 4
                             then drop_bit bitShift (words ! (i + wordShift))
                                    OR push_bit (64 - bitShift) (words ! (i + wordShift + 1))
                             else drop_bit bitShift (words ! (i + wordShift))) [0..<4])
        in of_limbs result)"

section \<open>Masks and N-bit signed primitives\<close>

definition lu256MaskN :: "LUint256 \<Rightarrow> int \<Rightarrow> LUint256" where
  "lu256MaskN a n =
     (if n \<ge> 256 then a
      else if n \<le> 0 then LUint256Zero
      else
        let w = limbs a;
            wordIdx = nat n div 64;
            bitInWord = nat n mod 64;
            w = (if bitInWord \<noteq> 0
                 then w[wordIdx := w ! wordIdx AND (push_bit bitInWord 1 - 1)] else w);
            wordIdx = (if bitInWord \<noteq> 0 then wordIdx + 1 else wordIdx)
        in of_limbs (map (\<lambda>i. if wordIdx \<le> i then 0 else w ! i) [0..<4]))"

text \<open>
  \<^verbatim>\<open>w[n/64] >> uint(n\%64) & 1\<close> with Go's truncating division: an index outside the array
  panics, and a negative remainder is a huge unsigned shift count, which gives 0.
\<close>

definition lu256BitN :: "LUint256 \<Rightarrow> int \<Rightarrow> go_panic + bool" where
  "lu256BitN a n =
     (let w = limbs a; i = n sdiv 64; s = n smod 64
      in if i < 0 \<or> 4 \<le> i then Inl PIndexOutOfRange
         else if s < 0 then Inr False
         else Inr (drop_bit (nat s) (w ! nat i) AND 1 = 1))"

definition lu256NegN :: "LUint256 \<Rightarrow> int \<Rightarrow> LUint256" where
  "lu256NegN a n = lu256MaskN (lu256Sub LUint256Zero a) n"

definition all_ones :: LUint256 where
  "all_ones = LU256 (NOT 0) (NOT 0) (NOT 0) (NOT 0)"

definition lu256SignExtendN :: "LUint256 \<Rightarrow> int \<Rightarrow> go_panic + LUint256" where
  "lu256SignExtendN a n =
     (if n \<ge> 256 then Inr a
      else bindr (lu256BitN a (n - 1)) (\<lambda>s.
        if \<not> s then Inr a
        else let high = lu256Bnot (lu256MaskN all_ones n) in Inr (lu256Bor a high)))"

definition lu256SignedCmpN :: "LUint256 \<Rightarrow> LUint256 \<Rightarrow> int \<Rightarrow> go_panic + int" where
  "lu256SignedCmpN a b n =
     bindr (lu256BitN a (n - 1)) (\<lambda>aNeg.
     bindr (lu256BitN b (n - 1)) (\<lambda>bNeg.
       if aNeg \<noteq> bNeg then Inr (if aNeg then -1 else 1) else Inr (lu256Cmp a b)))"

definition lu256SarN :: "LUint256 \<Rightarrow> nat \<Rightarrow> int \<Rightarrow> go_panic + LUint256" where
  "lu256SarN a shift n =
     bindr (lu256BitN a (n - 1)) (\<lambda>s.
       if \<not> s then Inr (lu256MaskN (lu256Shr a shift) n)
       else if int shift \<ge> n then Inr (lu256MaskN all_ones n)
       else bindr (lu256SignExtendN a n) (\<lambda>e. Inr (lu256MaskN (lu256Shr e shift) n)))"

definition lu256Bit :: "LUint256 \<Rightarrow> nat \<Rightarrow> bool" where
  "lu256Bit v pos =
     (if pos < 64 then drop_bit pos (lo v) AND 1 = 1
      else if pos < 128 then drop_bit (pos - 64) (ml v) AND 1 = 1
      else if pos < 192 then drop_bit (pos - 128) (mh v) AND 1 = 1
      else drop_bit (pos - 192) (hi v) AND 1 = 1)"

section \<open>Byte encodings\<close>

text \<open>\<^verbatim>\<open>binary.BigEndian.PutUint64\<close> of each limb, the most significant limb first.\<close>

definition put_be64 :: "u64 \<Rightarrow> u8 list" where
  "put_be64 w = rev (wdigits 8 (unat w))"

definition lu256ToBytes32BE :: "LUint256 \<Rightarrow> u8 list" where
  "lu256ToBytes32BE v = put_be64 (hi v) @ put_be64 (mh v) @ put_be64 (ml v) @ put_be64 (lo v)"

section \<open>Values of the primitives, addition and subtraction\<close>

lemma unat_u64_less: "unat (x::u64) < 2 ^ 64"
  using unsigned_less [of x] by simp

lemma unat_of_nat_u64: "n < 2 ^ 64 \<Longrightarrow> unat (word_of_nat n :: u64) = n"
  by (simp add: unat_of_nat take_bit_nat_eq_self)

lemma split_nat_u64:
  assumes "n < 2 ^ 64 * 2 ^ 64"
  shows "unat (word_of_nat n :: u64) + 2 ^ 64 * unat (word_of_nat (n div 2 ^ 64) :: u64) = n"
proof -
  have "unat (word_of_nat (n div 2 ^ 64) :: u64) = n div 2 ^ 64"
    using assms by (intro unat_of_nat_u64) (auto simp: less_mult_imp_div_less)
  moreover have "unat (word_of_nat n :: u64) = n mod 2 ^ 64"
    by (simp add: unat_of_nat take_bit_eq_mod)
  ultimately show ?thesis by (metis add.commute div_mult_mod_eq mult.commute)
qed

lemma bits_Add64_spec [limb_spec]:
  "bits_Add64 x y c = (s, d) \<Longrightarrow> unat s + 2 ^ 64 * unat d = unat x + unat y + unat c"
  using unat_u64_less[of x] unat_u64_less[of y] unat_u64_less[of c]
    split_nat_u64 [of "unat x + unat y + unat c"]
  unfolding bits_Add64_def Let_def by auto

lemma bits_Mul64_spec [limb_spec]:
  assumes "bits_Mul64 x y = (h, l)"
  shows "unat l + 2 ^ 64 * unat h = unat x * unat y"
proof -
  have "unat x * unat y < 2 ^ 64 * 2 ^ 64"
    by (rule mult_strict_mono) (use unat_u64_less in auto)
  from split_nat_u64 [OF this] assms show ?thesis
    unfolding bits_Mul64_def Let_def by auto
qed

lemma bits_Sub64_spec [limb_spec]:
  assumes "bits_Sub64 x y b = (s, d)" and "unat b \<le> 1"
  shows "unat s + unat y + unat b = unat x + 2 ^ 64 * unat d \<and> unat d \<le> 1"
proof -
  have b: "int (unat b) \<le> 1" "int (unat b) \<ge> 0" using assms(2) by linarith+
  have lt: "int (unat z) < 2 ^ 64" for z :: u64
    using uint_lt2p [of z] by simp
  note xy = lt [of x] lt [of y] of_nat_0_le_iff [of "unat x"] of_nat_0_le_iff [of "unat y"]
  have s: "int (unat s) = (int (unat x) - int (unat y) - int (unat b)) mod 2 ^ 64"
    using assms(1) by (auto simp: bits_Sub64_def uint_word_ariths mod_diff_left_eq)
  show ?thesis
  proof (cases "unat x < unat y + unat b")
    case True
    have "(int (unat x) - int (unat y) - int (unat b)) mod 2 ^ 64
        = (int (unat x) - int (unat y) - int (unat b) + 2 ^ 64) mod 2 ^ 64"
      by simp
    also have "\<dots> = int (unat x) - int (unat y) - int (unat b) + 2 ^ 64"
      using True b xy by (intro mod_pos_pos_trivial) linarith+
    finally have "int (unat s) + int (unat y) + int (unat b) = int (unat x) + 2 ^ 64" using s by linarith
    then have "int (unat s + unat y + unat b) = int (unat x + 2 ^ 64)"
      by (simp only: of_nat_add of_nat_power of_nat_numeral)
    then have "unat s + unat y + unat b = unat x + 2 ^ 64" by (simp only: of_nat_eq_iff)
    with True assms(1) show ?thesis by (simp add: bits_Sub64_def)
  next
    case False
    have "(int (unat x) - int (unat y) - int (unat b)) mod 2 ^ 64
        = int (unat x) - int (unat y) - int (unat b)"
      using False b xy by (intro mod_pos_pos_trivial) linarith+
    with s have "int (unat s) + int (unat y) + int (unat b) = int (unat x)" by linarith
    then have "unat s + unat y + unat b = unat x" by linarith
    with False assms(1) show ?thesis by (auto simp: bits_Sub64_def)
  qed
qed

lemma val_eq: "val a = unat (lo a) + 2^64 * unat (ml a) + 2^128 * unat (mh a) + 2^192 * unat (hi a)"
  by (simp add: val_def limbs_def)

lemma val_LU256: "val (LU256 a b c d) = unat a + 2^64 * unat b + 2^128 * unat c + 2^192 * unat d"
  by (simp add: val_eq)

lemma val_less: "val a < 2 ^ 256"
  using wval_bound [of "limbs a"] by (simp add: val_def limbs_def)

lemma of_limbs_limbs [simp]: "of_limbs (limbs a) = a"
  by (cases a) (simp add: of_limbs_def limbs_def)

lemma limbs_of_limbs [simp]: "length r = 4 \<Longrightarrow> limbs (of_limbs r) = r"
  by (auto simp: of_limbs_def limbs_def eval_nat_numeral length_Suc_conv)

lemma length_limbs [simp]: "length (limbs a) = 4"
  by (simp add: limbs_def)

lemma val_inject: "val a = val b \<longleftrightarrow> a = b"
  by (metis length_limbs of_limbs_limbs val_def wval_inject)

lemma val_of_limbs: "length r = 4 \<Longrightarrow> val (of_limbs r) = wval r"
  by (simp add: val_def)

lemma val_of_val: "val (of_val n) = n mod 2 ^ 256"
  by (simp add: of_val_def val_of_limbs wval_wdigits)

lemma unat_w256 [simp]: "unat (w256 a) = val a"
  using val_less [of a] by (simp add: w256_def unat_of_nat take_bit_nat_eq_self)

lemma w256_inject: "w256 a = w256 b \<longleftrightarrow> a = b"
  by (metis unat_w256 val_inject)

lemma val_lu256Add: "val (lu256Add a b) = (val a + val b) mod 2 ^ 256"
proof -
  obtain l c0 where 0: "bits_Add64 (lo a) (lo b) 0 = (l, c0)" by fastforce
  obtain m c1 where 1: "bits_Add64 (ml a) (ml b) c0 = (m, c1)" by fastforce
  obtain n c2 where 2: "bits_Add64 (mh a) (mh b) c1 = (n, c2)" by fastforce
  obtain h c3 where 3: "bits_Add64 (hi a) (hi b) c2 = (h, c3)" by fastforce
  have r: "lu256Add a b = LU256 l m n h" using 0 1 2 3 by (simp add: lu256Add_def)
  have "val a + val b = val (lu256Add a b) + 2 ^ 256 * unat c3"
    unfolding r val_LU256 val_eq [of a] val_eq [of b]
    using bits_Add64_spec[OF 0] bits_Add64_spec[OF 1] bits_Add64_spec[OF 2] bits_Add64_spec[OF 3]
    by simp
  then show ?thesis using val_less [of "lu256Add a b"] by simp
qed

lemma val_lu256Sub: "val (lu256Sub a b) = (val a + (2 ^ 256 - val b)) mod 2 ^ 256"
proof -
  obtain l c0 where 0: "bits_Sub64 (lo a) (lo b) 0 = (l, c0)" by fastforce
  obtain m c1 where 1: "bits_Sub64 (ml a) (ml b) c0 = (m, c1)" by fastforce
  obtain n c2 where 2: "bits_Sub64 (mh a) (mh b) c1 = (n, c2)" by fastforce
  obtain h c3 where 3: "bits_Sub64 (hi a) (hi b) c2 = (h, c3)" by fastforce
  have r: "lu256Sub a b = LU256 l m n h" using 0 1 2 3 by (simp add: lu256Sub_def)
  note s0 = bits_Sub64_spec[OF 0, simplified]
  note s1 = bits_Sub64_spec[OF 1] note s2 = bits_Sub64_spec[OF 2] note s3 = bits_Sub64_spec[OF 3]
  have "val (lu256Sub a b) + val b = val a + 2 ^ 256 * unat c3"
    unfolding r val_LU256 val_eq [of a] val_eq [of b]
    using s0 s1 s2 s3 by simp
  moreover have "unat c3 = 0 \<or> unat c3 = 1" using s0 s1 s2 s3 by auto
  ultimately have "val (lu256Sub a b) + 2 ^ 256 = val a + (2 ^ 256 - val b) \<or> val (lu256Sub a b) = val a + (2 ^ 256 - val b)"
    using val_less[of b] by auto
  then show ?thesis using val_less [of "lu256Sub a b"] by (metis mod_add_self2 mod_less)
qed

section \<open>The product and its dropped carries\<close>

text \<open>
  The carries the schoolbook product drops: the intermediate additions of word 1 and word 2
  must not carry, nor may the sum \<open>carry1\<close>.
\<close>

definition mul_carry_free :: "LUint256 \<Rightarrow> LUint256 \<Rightarrow> bool" where
  "mul_carry_free a b \<longleftrightarrow>
     (let (h0, r0) = bits_Mul64 (lo a) (lo b);
          (h01, p01) = bits_Mul64 (lo a) (ml b);
          (h10, p10) = bits_Mul64 (ml a) (lo b);
          (r1, c1) = bits_Add64 h0 p01 0;
          (r1, c2) = bits_Add64 r1 p10 c1;
          carry1 = h01 + h10 + c2;
          (h02, p02) = bits_Mul64 (lo a) (mh b);
          (h11, p11) = bits_Mul64 (ml a) (ml b);
          (r2, c3) = bits_Add64 carry1 p02 0;
          (r2, c4) = bits_Add64 r2 p11 c3
      in c1 = 0 \<and> unat h01 + unat h10 + unat c2 < 2 ^ 64 \<and> c3 = 0 \<and> c4 = 0)"

lemma unat_sum3_u64: "\<exists>k. unat x + unat y + unat z = unat (x + y + z :: u64) + 2 ^ 64 * k"
proof -
  have "unat (x + y + z) = (unat x + unat y + unat z) mod 2 ^ 64"
    by (simp add: unat_word_ariths mod_add_left_eq)
  then show ?thesis by (metis mod_mult_div_eq)
qed

lemma unat_sum5_u64: "\<exists>k. unat x + unat y + unat z + unat v + unat w = unat (x + y + z + v + w :: u64) + 2 ^ 64 * k"
proof -
  have "unat (x + y + z + v + w) = (unat x + unat y + unat z + unat v + unat w) mod 2 ^ 64"
    by (simp add: unat_word_ariths mod_add_left_eq)
  then show ?thesis by (metis mod_mult_div_eq)
qed

lemma unat_sum4_u64: "\<exists>k. unat x + unat y + unat z + unat v = unat (x + y + z + v :: u64) + 2 ^ 64 * k"
  using unat_sum5_u64 [of x y z v 0] by simp

lemma limb_product_expand:
  fixes B :: nat
  shows "(a0 + B * a1 + B^2 * a2 + B^3 * a3) * (b0 + B * b1 + B^2 * b2 + B^3 * b3)
     = a0*b0 + B * (a0*b1 + a1*b0) + B^2 * (a0*b2 + a1*b1 + a2*b0)
       + B^3 * (a0*b3 + a1*b2 + a2*b1 + a3*b0)
       + B^4 * (a1*b3 + a2*b2 + a3*b1 + B * (a2*b3 + a3*b2) + B^2 * (a3*b3))"
  by (simp add: algebra_simps eval_nat_numeral)

lemma val_lu256Mul_err:
  "\<exists>c1 c3 c4 k q. c1 \<le> 1 \<and> c3 \<le> 1 \<and> c4 \<le> 1 \<and> k \<le> 1 \<and>
     (mul_carry_free a b \<longleftrightarrow> c1 = 0 \<and> k = 0 \<and> c3 = 0 \<and> c4 = 0) \<and>
     val a * val b = val (lu256Mul a b) + 2 ^ 64 * ((2 ^ 64 - 1) * c1)
        + 2 ^ 128 * ((2 ^ 64 - 1) * (c3 + c4)) + 2 ^ 192 * k + 2 ^ 256 * q"
proof -
  obtain h0 r0 where m0: "bits_Mul64 (lo a) (lo b) = (h0, r0)" by fastforce
  obtain h01 p01 where m01: "bits_Mul64 (lo a) (ml b) = (h01, p01)" by fastforce
  obtain h10 p10 where m10: "bits_Mul64 (ml a) (lo b) = (h10, p10)" by fastforce
  obtain s1 c1 where a1: "bits_Add64 h0 p01 0 = (s1, c1)" by fastforce
  obtain r1 c2 where a2: "bits_Add64 s1 p10 c1 = (r1, c2)" by fastforce
  define carry1 where "carry1 = h01 + h10 + c2"
  obtain h02 p02 where m02: "bits_Mul64 (lo a) (mh b) = (h02, p02)" by fastforce
  obtain h11 p11 where m11: "bits_Mul64 (ml a) (ml b) = (h11, p11)" by fastforce
  obtain h20 p20 where m20: "bits_Mul64 (mh a) (lo b) = (h20, p20)" by fastforce
  obtain s2 c3 where a3: "bits_Add64 carry1 p02 0 = (s2, c3)" by fastforce
  obtain t2 c4 where a4: "bits_Add64 s2 p11 c3 = (t2, c4)" by fastforce
  obtain r2 c5 where a5: "bits_Add64 t2 p20 c4 = (r2, c5)" by fastforce
  define carry2 where "carry2 = h02 + h11 + h20 + c5"
  obtain h03 p03 where m03: "bits_Mul64 (lo a) (hi b) = (h03, p03)" by fastforce
  obtain h12 p12 where m12: "bits_Mul64 (ml a) (mh b) = (h12, p12)" by fastforce
  obtain h21 p21 where m21: "bits_Mul64 (mh a) (ml b) = (h21, p21)" by fastforce
  obtain h30 p30 where m30: "bits_Mul64 (hi a) (lo b) = (h30, p30)" by fastforce
  define r3 where "r3 = carry2 + p03 + p12 + p21 + p30"
  have mul: "lu256Mul a b = LU256 r0 r1 r2 r3"
    by (simp add: lu256Mul_def m0 m01 m10 a1 a2 carry1_def[symmetric] m02 m11 m20 a3 a4 a5
        carry2_def[symmetric] m03 m12 m21 m30 r3_def[symmetric])
  have free: "mul_carry_free a b \<longleftrightarrow> c1 = 0 \<and> unat h01 + unat h10 + unat c2 < 2 ^ 64 \<and> c3 = 0 \<and> c4 = 0"
    by (simp add: mul_carry_free_def m0 m01 m10 a1 a2 carry1_def[symmetric] m02 m11 a3 a4)
  obtain k where k: "unat h01 + unat h10 + unat c2 = unat carry1 + 2 ^ 64 * k"
    using unat_sum3_u64 carry1_def by blast
  obtain k2 where k2: "unat h02 + unat h11 + unat h20 + unat c5 = unat carry2 + 2 ^ 64 * k2"
    using unat_sum4_u64 carry2_def by blast
  obtain k3 where k3: "unat carry2 + unat p03 + unat p12 + unat p21 + unat p30 = unat r3 + 2 ^ 64 * k3"
    using unat_sum5_u64 r3_def by blast
  note M = m0[THEN bits_Mul64_spec] m01[THEN bits_Mul64_spec] m10[THEN bits_Mul64_spec]
    m02[THEN bits_Mul64_spec] m11[THEN bits_Mul64_spec] m20[THEN bits_Mul64_spec]
    m03[THEN bits_Mul64_spec] m12[THEN bits_Mul64_spec] m21[THEN bits_Mul64_spec] m30[THEN bits_Mul64_spec]
  note A = a1[THEN bits_Add64_spec, simplified] a2[THEN bits_Add64_spec] a3[THEN bits_Add64_spec, simplified]
    a4[THEN bits_Add64_spec] a5[THEN bits_Add64_spec]
  note lt = unat_u64_less
  have c1: "unat c1 \<le> 1" using A(1) lt[of h0] lt[of p01] by simp
  have c2: "unat c2 \<le> 1" using A(2) lt[of s1] lt[of p10] c1 by simp
  have c3: "unat c3 \<le> 1" using A(3) lt[of carry1] lt[of p02] by simp
  have c4: "unat c4 \<le> 1" using A(4) lt[of s2] lt[of p11] c3 by simp
  have k1: "k \<le> 1" using k c2 lt[of h01] lt[of h10] lt[of carry1] by simp
  have knz: "unat h01 + unat h10 + unat c2 < 2 ^ 64 \<longleftrightarrow> k = 0"
    using k lt[of carry1] by (cases k) auto
  let ?R = "unat (ml a) * unat (hi b) + unat (mh a) * unat (mh b) + unat (hi a) * unat (ml b)
      + 2 ^ 64 * (unat (mh a) * unat (hi b) + unat (hi a) * unat (mh b))
      + (2 ^ 64) ^ 2 * (unat (hi a) * unat (hi b))"
  have va: "val x = unat (lo x) + 2^64 * unat (ml x) + (2^64)^2 * unat (mh x) + (2^64)^3 * unat (hi x)" for x
    by (simp add: val_eq)
  have w1: "unat h0 + unat p01 + unat p10 + unat c1 = unat r1 + 2 ^ 64 * unat c2 + 2 ^ 64 * unat c1"
    using A(1,2) by simp
  have w2: "unat h01 + unat h10 + unat c2 + unat p02 + unat p11 + unat p20 + unat c3 + unat c4
      = unat r2 + 2 ^ 64 * unat c5 + 2 ^ 64 * unat c3 + 2 ^ 64 * unat c4 + 2 ^ 64 * k"
    using A(3,4,5) k by simp
  have w3: "unat h02 + unat h11 + unat h20 + unat c5 + unat p03 + unat p12 + unat p21 + unat p30
      = unat r3 + 2 ^ 64 * (k2 + k3)"
    using k2 k3 by simp
  have "val a * val b = val (lu256Mul a b) + 2 ^ 64 * ((2 ^ 64 - 1) * unat c1)
        + 2 ^ 128 * ((2 ^ 64 - 1) * (unat c3 + unat c4)) + 2 ^ 192 * k
        + 2 ^ 256 * (?R + unat h03 + unat h12 + unat h21 + unat h30 + k2 + k3)"
    unfolding mul val_LU256 va [of a] va [of b] limb_product_expand M [symmetric]
    using w1 w2 w3 by simp
  then show ?thesis
    using c1 c3 c4 k1 knz free by (metis unat_eq_zero)
qed

section \<open>When the product is exact; order and conversions\<close>

lemma lu256Mul_exact_iff:
  "val (lu256Mul a b) = val a * val b mod 2 ^ 256 \<longleftrightarrow> mul_carry_free a b"
proof -
  obtain c1 c3 c4 k q where c: "c1 \<le> 1" "c3 \<le> 1" "c4 \<le> 1" "k \<le> 1"
    and free: "mul_carry_free a b \<longleftrightarrow> c1 = 0 \<and> k = 0 \<and> c3 = 0 \<and> c4 = 0"
    and v: "val a * val b = val (lu256Mul a b) + 2 ^ 64 * ((2 ^ 64 - 1) * c1)
        + 2 ^ 128 * ((2 ^ 64 - 1) * (c3 + c4)) + 2 ^ 192 * k + 2 ^ 256 * q"
    using val_lu256Mul_err [of a b] by blast
  define e where "e = 2 ^ 64 * ((2 ^ 64 - 1) * c1) + 2 ^ 128 * ((2 ^ 64 - 1) * (c3 + c4)) + 2 ^ 192 * k"
  have e: "e < 2 ^ 256" using c by (simp add: e_def)
  have e0: "e = 0 \<longleftrightarrow> mul_carry_free a b" by (auto simp: e_def free)
  have "val a * val b = (val (lu256Mul a b) + e) + 2 ^ 256 * q"
    using v by (simp only: e_def add.assoc)
  then have m: "val a * val b mod 2 ^ 256 = (val (lu256Mul a b) + e) mod 2 ^ 256"
    by (simp only: mod_mult_self2)
  have "(val (lu256Mul a b) + e) mod 2 ^ 256 = val (lu256Mul a b) \<longleftrightarrow> e = 0"
  proof (cases "val (lu256Mul a b) + e < 2 ^ 256")
    case True
    then show ?thesis by simp
  next
    case False
    then have "(val (lu256Mul a b) + e) mod 2 ^ 256 = val (lu256Mul a b) + e - 2 ^ 256"
      using e val_less [of "lu256Mul a b"] by (simp add: mod_if)
    then show ?thesis using e False val_less [of "lu256Mul a b"] by auto
  qed
  with m e0 show ?thesis by metis
qed

lemma bits_Mul64_0 [simp]: "bits_Mul64 x 0 = (0, 0)" "bits_Mul64 0 x = (0, 0)"
  by (simp_all add: bits_Mul64_def)

lemma bits_Add64_0 [simp]: "bits_Add64 x 0 0 = (x, 0)" "bits_Add64 0 x 0 = (x, 0)"
  using unat_u64_less [of x] by (simp_all add: bits_Add64_def)

lemma val_limbs_small:
  assumes "val b < 2 ^ 64"
  shows "ml b = 0" "mh b = 0" "hi b = 0"
proof -
  have "unat (ml b) = 0" "unat (mh b) = 0" "unat (hi b) = 0"
    using assms unfolding val_eq by simp_all
  then show "ml b = 0" "mh b = 0" "hi b = 0" by (simp_all only: unat_eq_zero)
qed

lemma mul_carry_free_small:
  assumes "val b < 2 ^ 64"
  shows "mul_carry_free a b"
proof -
  have z: "ml b = 0" "mh b = 0" "hi b = 0"
    using val_limbs_small [OF assms] by auto
  obtain h0 r0 where m0: "bits_Mul64 (lo a) (lo b) = (h0, r0)" by fastforce
  obtain h10 p10 where m10: "bits_Mul64 (ml a) (lo b) = (h10, p10)" by fastforce
  obtain r1 c2 where a2: "bits_Add64 h0 p10 0 = (r1, c2)" by fastforce
  have "unat p10 + 2 ^ 64 * unat h10 = unat (ml a) * unat (lo b)" by (rule bits_Mul64_spec [OF m10])
  moreover have "unat (ml a) * unat (lo b) \<le> (2 ^ 64 - 1) * (2 ^ 64 - 1)"
    using unat_u64_less [of "ml a"] unat_u64_less [of "lo b"] by (intro mult_le_mono) auto
  moreover have "unat c2 \<le> 1"
    using bits_Add64_spec [OF a2] unat_u64_less [of h0] unat_u64_less [of p10] by simp
  ultimately have "unat h10 + unat c2 < 2 ^ 64" by simp
  with z m0 m10 a2 show ?thesis by (simp add: mul_carry_free_def)
qed

lemma val_lu256Mul_small:
  "val b < 2 ^ 64 \<Longrightarrow> val (lu256Mul a b) = val a * val b mod 2 ^ 256"
  using lu256Mul_exact_iff mul_carry_free_small by blast

section \<open>Comparison\<close>

lemma limb_less_iff:
  "unat (x::u64) + 2 ^ 64 * m < unat (y::u64) + 2 ^ 64 * n \<longleftrightarrow> m < n \<or> (m = n \<and> x < y)"
proof (cases m n rule: linorder_cases)
  case less
  then have "2 ^ 64 * (m + 1) \<le> 2 ^ 64 * n" by (intro mult_le_mono2) simp
  with less show ?thesis using unat_u64_less [of x] by (simp add: algebra_simps)
next
  case equal
  then show ?thesis by (simp add: word_less_nat_alt)
next
  case greater
  then have "2 ^ 64 * (n + 1) \<le> 2 ^ 64 * m" by (intro mult_le_mono2) simp
  with greater show ?thesis using unat_u64_less [of y] by (simp add: algebra_simps)
qed

lemma limb_eq_iff:
  "unat (x::u64) + 2 ^ 64 * m = unat (y::u64) + 2 ^ 64 * n \<longleftrightarrow> m = n \<and> x = y"
  using limb_less_iff [of x m y n] limb_less_iff [of y n x m] by (auto simp: not_less_iff_gr_or_eq)

lemma val_less_iff:
  "val a < val b \<longleftrightarrow>
     hi a < hi b \<or> hi a = hi b \<and> (mh a < mh b \<or> mh a = mh b \<and>
       (ml a < ml b \<or> ml a = ml b \<and> lo a < lo b))"
proof -
  have v: "val x = unat (lo x) + 2 ^ 64 * (unat (ml x) + 2 ^ 64 * (unat (mh x) + 2 ^ 64 * unat (hi x)))" for x
    by (simp add: val_eq)
  show ?thesis
    unfolding v limb_less_iff limb_eq_iff word_less_nat_alt [symmetric] word_unat_eq_iff [symmetric] by blast
qed

lemma lu256Cmp_val:
  "lu256Cmp a b = (if val a < val b then -1 else if val a = val b then 0 else 1)"
  unfolding val_less_iff val_inject lu256Cmp_def
  by (cases a; cases b) auto

lemma lu256IsZero_val: "lu256IsZero a \<longleftrightarrow> val a = 0"
  by (cases a) (auto simp: lu256IsZero_def val_eq unat_eq_zero)

lemma val_Zero [simp]: "val LUint256Zero = 0" and val_One [simp]: "val LUint256One = 1"
  by (simp_all add: LUint256Zero_def LUint256One_def val_LU256)

lemma val_lu256FromUint64: "val (lu256FromUint64 v) = unat v"
  by (simp add: lu256FromUint64_def val_LU256)

lemma val_lu256FromInt: "v < 2 ^ 64 \<Longrightarrow> int (val (lu256FromInt v)) = max v 0"
  by (auto simp: lu256FromInt_def val_LU256 uint_word_of_int)

lemma lu256ToInt_val:
  "lu256ToInt a = (if val a < 2 ^ 63 then (int (val a), True) else (0, False))"
proof -
  have m: "drop_bit 1 (NOT 0 :: u64) = 9223372036854775807" by (simp add: mask_eq_exp_minus_1)
  show ?thesis
  proof (cases "hi a \<noteq> 0 \<or> mh a \<noteq> 0 \<or> ml a \<noteq> 0")
    case True
    then have "\<not> val a < 2 ^ 64" using val_limbs_small by blast
    then have "\<not> val a < 2 ^ 63" by simp
    with True show ?thesis by (auto simp: lu256ToInt_def)
  next
    case False
    then have v: "val a = unat (lo a)" by (simp add: val_eq)
    moreover have "lo a > 9223372036854775807 \<longleftrightarrow> \<not> unat (lo a) < 2 ^ 63"
      by (simp add: word_less_nat_alt not_less) arith
    ultimately show ?thesis using False unfolding lu256ToInt_def m v by simp
  qed
qed

lemma lu256ToInt_FromInt: "0 \<le> v \<Longrightarrow> v < 2 ^ 63 \<Longrightarrow> lu256ToInt (lu256FromInt v) = (v, True)"
  using val_lu256FromInt [of v] by (auto simp: lu256ToInt_val)

section \<open>The library's 256-bit words as abstract values\<close>

lemma bit_nat_add_shift:
  assumes "(u::nat) < 2 ^ L"
  shows "bit (u + 2 ^ L * n) i \<longleftrightarrow> (if i < L then bit u i else bit n (i - L))"
proof (cases "i < L")
  case True
  then have "(2::nat) ^ L = 2 ^ i * 2 ^ (L - i)" by (simp flip: power_add)
  then have "(u + 2 ^ L * n) div 2 ^ i = u div 2 ^ i + 2 ^ (L - i) * n"
    by (simp add: mult.assoc)
  moreover have "even ((2::nat) ^ (L - i) * n)" using True by simp
  ultimately show ?thesis using True by (simp add: bit_iff_odd)
next
  case False
  then have "(2::nat) ^ i = 2 ^ L * 2 ^ (i - L)" by (simp flip: power_add)
  then have "(u + 2 ^ L * n) div 2 ^ i = n div 2 ^ (i - L)"
    using assms by (simp add: div_mult2_eq)
  then show ?thesis using False by (simp add: bit_iff_odd)
qed

lemma bit_wval:
  "bit (wval (ws :: 'a::len word list)) i \<longleftrightarrow>
     i div LENGTH('a) < length ws \<and> bit (ws ! (i div LENGTH('a))) (i mod LENGTH('a))"
proof (induction ws arbitrary: i)
  case Nil
  then show ?case by simp
next
  case (Cons w ws)
  have u: "unat w < 2 ^ LENGTH('a)" by simp
  show ?case
  proof (cases "i < LENGTH('a)")
    case True
    then show ?thesis by (simp add: bit_nat_add_shift [OF u] bit_unsigned_iff)
  next
    case False
    then have "i div LENGTH('a) = Suc ((i - LENGTH('a)) div LENGTH('a))"
      and "i mod LENGTH('a) = (i - LENGTH('a)) mod LENGTH('a)"
      by (simp_all add: div_if mod_if)
    with False show ?thesis by (simp add: bit_nat_add_shift [OF u] Cons)
  qed
qed

lemma bit_of_nat_iff_w: "bit (word_of_nat n :: 'a::len word) i \<longleftrightarrow> i < LENGTH('a) \<and> bit n i"
proof -
  have "bit (unat (word_of_nat n :: 'a word)) i \<longleftrightarrow> bit (take_bit LENGTH('a) n) i"
    by (simp only: unat_of_nat take_bit_eq_mod)
  then show ?thesis by (simp add: bit_unsigned_iff bit_take_bit_iff)
qed

lemma bit_w256: "bit (w256 a) i \<longleftrightarrow> i < 256 \<and> bit (limbs a ! (i div 64)) (i mod 64)"
proof -
  have "bit (w256 a) i \<longleftrightarrow> i < 256 \<and> bit (val a) i"
    by (simp add: w256_def bit_of_nat_iff_w)
  then show ?thesis by (auto simp: val_def bit_wval)
qed

lemma w256_eqI: "(\<And>i. i < 256 \<Longrightarrow> bit (w256 a) i \<longleftrightarrow> bit w i) \<Longrightarrow> w256 a = w"
  by (rule bit_word_eqI) simp

lemma limbs_cases: "(i::nat) < 256 \<Longrightarrow> i div 64 = 0 \<or> i div 64 = 1 \<or> i div 64 = 2 \<or> i div 64 = 3"
  by auto

lemma w256_Add: "w256 (lu256Add a b) = w256 a + w256 b"
  by (simp add: word_unat_eq_iff val_lu256Add unat_word_ariths)

lemma w256_Sub: "w256 (lu256Sub a b) = w256 a - w256 b"
proof -
  have "w256 (lu256Sub a b) + w256 b = w256 a"
    using val_less [of b] val_less [of a]
    by (simp add: word_unat_eq_iff val_lu256Sub unat_word_ariths mod_add_left_eq)
  then show ?thesis by (simp add: eq_diff_eq)
qed

lemma w256_Mul: "mul_carry_free a b \<Longrightarrow> w256 (lu256Mul a b) = w256 a * w256 b"
  by (simp add: word_unat_eq_iff unat_word_ariths lu256Mul_exact_iff [THEN iffD2, simplified])

lemma w256_Band: "w256 (lu256Band a b) = w256 a AND w256 b"
  by (rule w256_eqI) (auto simp: bit_w256 lu256Band_def limbs_def bit_and_iff dest!: limbs_cases)

lemma w256_Bor: "w256 (lu256Bor a b) = w256 a OR w256 b"
  by (rule w256_eqI) (auto simp: bit_w256 lu256Bor_def limbs_def bit_or_iff dest!: limbs_cases)

lemma w256_Bxor: "w256 (lu256Bxor a b) = w256 a XOR w256 b"
  by (rule w256_eqI) (auto simp: bit_w256 lu256Bxor_def limbs_def bit_xor_iff dest!: limbs_cases)

lemma w256_Bnot: "w256 (lu256Bnot a) = NOT (w256 a)"
  by (rule w256_eqI) (auto simp: bit_w256 lu256Bnot_def limbs_def bit_not_iff dest!: limbs_cases)

lemma bit_of_limbs:
  "length r = 4 \<Longrightarrow> bit (w256 (of_limbs r)) i \<longleftrightarrow> i < 256 \<and> bit (r ! (i div 64)) (i mod 64)"
  by (simp add: bit_w256)

lemma w256_0 [simp]: "w256 (LU256 0 0 0 0) = 0"
  by (simp add: w256_def val_LU256)

lemma w256_Zero [simp]: "w256 LUint256Zero = 0"
  by (simp add: LUint256Zero_def)

lemma limb_index:
  assumes "(i::nat) < 256" obtains q r where "i = 64 * q + r" "r < 64" "q < 4"
  using assms by (intro that [of "i div 64" "i mod 64"]) auto

lemma bit_w256_limb: "r < 64 \<Longrightarrow> q < 4 \<Longrightarrow> bit (w256 a) (64 * q + r) \<longleftrightarrow> bit (limbs a ! q) r"
  by (simp add: bit_w256)

lemma bit_w256_limb': "r < 64 \<Longrightarrow> bit (w256 a) (64 * q + r) \<longleftrightarrow> q < 4 \<and> bit (limbs a ! q) r"
  by (auto simp: bit_w256)

lemma not_bit_w256 [simp]: "\<not> bit (w256 a) (64 * q + r)" if "q \<ge> 4"
  using that by (simp add: bit_w256)

lemma w256_Shl: "w256 (lu256Shl a n) = push_bit n (w256 a)"
proof -
  consider "n \<ge> 256" | "n = 0" | "0 < n" "n < 256" by linarith
  then show ?thesis
  proof cases
    case 1
    then show ?thesis by (intro bit_word_eqI) (simp add: lu256Shl_def bit_push_bit_iff)
  next
    case 2
    then show ?thesis by (simp add: lu256Shl_def)
  next
    case 3
    define ws bs where "ws = n div 64" and "bs = n mod 64"
    have n: "n = 64 * ws + bs" "bs < 64" "ws < 4" using 3 by (auto simp: ws_def bs_def)
    let ?w = "limbs a"
    have sh: "lu256Shl a n = of_limbs (map (\<lambda>i. if i < ws then 0
        else if bs = 0 then ?w ! (i - ws)
        else if i > ws then push_bit bs (?w ! (i - ws)) OR drop_bit (64 - bs) (?w ! (i - ws - 1))
        else push_bit bs (?w ! (i - ws))) [0..<4])"
      using 3 by (auto simp: lu256Shl_def ws_def bs_def Let_def intro!: arg_cong [where f = of_limbs])
    show ?thesis
    proof (rule w256_eqI)
      fix i :: nat assume i: "i < 256"
      then obtain q r where q: "i = 64 * q + r" "r < 64" "q < 4" by (rule limb_index)
      have lhs: "bit (w256 (lu256Shl a n)) i \<longleftrightarrow> bit (if q < ws then 0
        else if bs = 0 then ?w ! (q - ws)
        else if q > ws then push_bit bs (?w ! (q - ws)) OR drop_bit (64 - bs) (?w ! (q - ws - 1))
        else push_bit bs (?w ! (q - ws))) r"
        using q by (simp add: sh bit_w256_limb)
      show "bit (w256 (lu256Shl a n)) i \<longleftrightarrow> bit (push_bit n (w256 a)) i"
      proof (cases "q < ws \<or> q = ws \<and> r < bs")
        case True
        then have "i < n" using q n by auto
        with True show ?thesis unfolding lhs
          by (auto simp: bit_push_bit_iff)
      next
        case False
        show ?thesis
        proof (cases "bs \<le> r")
          case True
          with False q n have e: "i - n = 64 * (q - ws) + (r - bs)" and "n \<le> i" and le: "ws \<le> q"
            by (auto simp: algebra_simps)
          then have rhs: "bit (push_bit n (w256 a)) i \<longleftrightarrow> bit (?w ! (q - ws)) (r - bs)"
            using i q n by (simp only: bit_push_bit_iff e) (subst bit_w256_limb; simp)
          have z: "bs \<noteq> 0 \<Longrightarrow> \<not> bit (?w ! (q - ws - 1)) (64 - bs + r)"
            using True by (auto dest: bit_imp_le_length)
          show ?thesis unfolding lhs rhs using True le q z
            by (auto simp: bit_push_bit_iff bit_or_iff bit_drop_bit_eq)
        next
          case r: False
          with False have lt: "ws < q" by auto
          with r q n have e: "i - n = 64 * (q - ws - 1) + (64 - bs + r)" and "n \<le> i" by (auto simp: algebra_simps)
          then have rhs: "bit (push_bit n (w256 a)) i \<longleftrightarrow> bit (?w ! (q - ws - 1)) (64 - bs + r)"
            using i q n r by (simp only: bit_push_bit_iff e) (subst bit_w256_limb; simp)
          show ?thesis unfolding lhs rhs using r lt q
            by (auto simp: bit_push_bit_iff bit_or_iff bit_drop_bit_eq)
        qed
      qed
    qed
  qed
qed

lemma w256_Shr: "w256 (lu256Shr a n) = drop_bit n (w256 a)"
proof -
  consider "n \<ge> 256" | "n = 0" | "0 < n" "n < 256" by linarith
  then show ?thesis
  proof cases
    case 1
    then show ?thesis by (intro bit_word_eqI) (simp add: lu256Shr_def bit_drop_bit_eq)
  next
    case 2
    then show ?thesis by (simp add: lu256Shr_def)
  next
    case 3
    define ws bs where "ws = n div 64" and "bs = n mod 64"
    have n: "n = 64 * ws + bs" "bs < 64" "ws < 4" using 3 by (auto simp: ws_def bs_def)
    let ?w = "limbs a"
    have sh: "lu256Shr a n = of_limbs (map (\<lambda>i. if \<not> i < 4 - ws then 0
        else if bs = 0 then ?w ! (i + ws)
        else if i + ws + 1 < 4 then drop_bit bs (?w ! (i + ws)) OR push_bit (64 - bs) (?w ! (i + ws + 1))
        else drop_bit bs (?w ! (i + ws))) [0..<4])"
      using 3 by (auto simp: lu256Shr_def ws_def bs_def Let_def intro!: arg_cong [where f = of_limbs])
    show ?thesis
    proof (rule w256_eqI)
      fix i :: nat assume i: "i < 256"
      then obtain q r where q: "i = 64 * q + r" "r < 64" "q < 4" by (rule limb_index)
      have lhs: "bit (w256 (lu256Shr a n)) i \<longleftrightarrow> bit (if \<not> q < 4 - ws then 0
        else if bs = 0 then ?w ! (q + ws)
        else if q + ws + 1 < 4 then drop_bit bs (?w ! (q + ws)) OR push_bit (64 - bs) (?w ! (q + ws + 1))
        else drop_bit bs (?w ! (q + ws))) r"
        using q by (simp add: sh bit_w256_limb)
      show "bit (w256 (lu256Shr a n)) i \<longleftrightarrow> bit (drop_bit n (w256 a)) i"
      proof (cases "r + bs < 64")
        case True
        have e: "n + i = 64 * (q + ws) + (bs + r)" using q n by simp
        have rhs: "bit (drop_bit n (w256 a)) i \<longleftrightarrow> q + ws < 4 \<and> bit (?w ! (q + ws)) (bs + r)"
          unfolding bit_drop_bit_eq comp_def e using True by (intro bit_w256_limb') simp
        show ?thesis unfolding lhs rhs using True q n
          by (auto simp: bit_push_bit_iff bit_or_iff bit_drop_bit_eq)
      next
        case False
        have e: "n + i = 64 * (q + ws + 1) + (r - (64 - bs))" using q n False by simp
        have rhs: "bit (drop_bit n (w256 a)) i \<longleftrightarrow> q + ws + 1 < 4 \<and> bit (?w ! (q + ws + 1)) (r - (64 - bs))"
          unfolding bit_drop_bit_eq comp_def e using q n by (intro bit_w256_limb') simp
        have z: "\<not> bit (?w ! (q + ws)) (bs + r)" using False by (auto dest: bit_imp_le_length)
        show ?thesis unfolding lhs rhs using False q n z
          by (auto simp: bit_push_bit_iff bit_or_iff bit_drop_bit_eq)
      qed
    qed
  qed
qed

section \<open>Masks, single bits and shift amounts\<close>

lemma and_1_iff: "drop_bit s (w :: u64) AND 1 = 1 \<longleftrightarrow> bit w s"
  by (simp add: and_one_eq bit_iff_odd_drop_bit mod_2_eq_odd)

lemma lu256BitN_bit:
  "0 \<le> n \<Longrightarrow> n < 256 \<Longrightarrow> lu256BitN a n = Inr (bit (w256 a) (nat n))"
proof -
  assume n: "0 \<le> n" "n < 256"
  have d: "n sdiv 64 = n div 64" "n smod 64 = n mod 64"
    using n by (auto simp: signed_divide_int_def signed_modulo_int_def sgn_if minus_div_mult_eq_mod)
  have i: "nat (n div 64) = nat n div 64" "nat (n mod 64) = nat n mod 64"
    using n by (simp_all add: nat_div_distrib nat_mod_distrib)
  show ?thesis
    using n by (auto simp: lu256BitN_def d i Let_def and_1_iff bit_w256)
qed

lemma lu256Bit_bit: "pos < 256 \<Longrightarrow> lu256Bit v pos \<longleftrightarrow> bit (w256 v) pos"
  by (auto simp: lu256Bit_def and_1_iff bit_w256 limbs_def div_if mod_if)

lemma w256_MaskN: "w256 (lu256MaskN a n) = take_bit (nat n) (w256 a)"
proof -
  consider "n \<ge> 256" | "n \<le> 0" | "0 < n" "n < 256" by linarith
  then show ?thesis
  proof cases
    case 1
    then show ?thesis by (intro bit_word_eqI) (auto simp: lu256MaskN_def bit_take_bit_iff)
  next
    case 2
    then show ?thesis by (simp add: lu256MaskN_def)
  next
    case 3
    define wi b where "wi = nat n div 64" and "b = nat n mod 64"
    have n: "nat n = 64 * wi + b" "b < 64" "wi < 4" using 3 by (auto simp: wi_def b_def)
    let ?w = "limbs a"
    let ?r = "\<lambda>q. if b \<noteq> 0 then (if wi + 1 \<le> q then 0 else if q = wi then ?w ! q AND mask b else ?w ! q)
        else if wi \<le> q then 0 else ?w ! q"
    have m: "push_bit b 1 - 1 = (mask b :: u64)"
      by (simp add: mask_eq_exp_minus_1 push_bit_eq_mult)
    have ml: "map (\<lambda>i. if wi + 1 \<le> i then 0 else ?w[wi := ?w ! wi AND mask b] ! i) [0..<4] =
       map (\<lambda>q. if wi + 1 \<le> q then 0 else if q = wi then ?w ! q AND mask b else ?w ! q) [0..<4]"
      using n by (intro map_cong) auto
    have sh: "lu256MaskN a n = of_limbs (map ?r [0..<4])"
    proof (cases "b = 0")
      case True
      with 3 show ?thesis
        unfolding lu256MaskN_def Let_def wi_def [symmetric] b_def [symmetric] by simp
    next
      case False
      have "lu256MaskN a n = of_limbs (map (\<lambda>i. if wi + 1 \<le> i then 0 else ?w[wi := ?w ! wi AND mask b] ! i) [0..<4])"
        unfolding lu256MaskN_def Let_def wi_def [symmetric] b_def [symmetric] m using 3 False by simp
      then show ?thesis unfolding ml using False by simp
    qed
    show ?thesis
    proof (rule w256_eqI)
      fix i :: nat assume "i < 256"
      then obtain q r where q: "i = 64 * q + r" "r < 64" "q < 4" by (rule limb_index)
      have lhs: "bit (w256 (lu256MaskN a n)) i \<longleftrightarrow> bit (?r q) r"
        using q by (simp add: sh bit_w256_limb)
      have rhs: "bit (take_bit (nat n) (w256 a)) i \<longleftrightarrow> i < nat n \<and> bit (?w ! q) r"
        using q by (simp add: bit_take_bit_iff bit_w256_limb)
      have "i < nat n \<longleftrightarrow> q < wi \<or> q = wi \<and> r < b" using q n by auto
      then show "bit (w256 (lu256MaskN a n)) i \<longleftrightarrow> bit (take_bit (nat n) (w256 a)) i"
        unfolding lhs rhs using n by (auto simp: bit_and_iff bit_mask_iff)
    qed
  qed
qed

lemma val_MaskN: "val (lu256MaskN a n) = val a mod 2 ^ nat n"
proof -
  have "unat (w256 (lu256MaskN a n)) = take_bit (nat n) (unat (w256 a))"
    unfolding w256_MaskN by (simp add: unsigned_take_bit_eq)
  then show ?thesis by (simp add: take_bit_eq_mod)
qed

lemma val_lu256Shr: "val (lu256Shr a n) = val a div 2 ^ n"
proof -
  have "unat (w256 (lu256Shr a n)) = drop_bit n (unat (w256 a))"
    unfolding w256_Shr by (simp add: unsigned_drop_bit_eq take_bit_nat_eq_self [OF val_less])
  then show ?thesis by (simp add: drop_bit_eq_div)
qed

lemma val_lu256Shl: "val (lu256Shl a n) = val a * 2 ^ n mod 2 ^ 256"
proof -
  have "unat (w256 (lu256Shl a n)) = take_bit 256 (push_bit n (unat (w256 a)))"
    unfolding w256_Shl by (simp add: unsigned_push_bit_eq)
  then show ?thesis by (simp add: take_bit_eq_mod push_bit_eq_mult)
qed

lemma lu256ShiftAmount_val: "lu256ShiftAmount v = min 256 (val v)"
proof (cases "hi v \<noteq> 0 \<or> mh v \<noteq> 0 \<or> ml v \<noteq> 0")
  case True
  then have "\<not> val v < 2 ^ 64" using val_limbs_small by blast
  then have "min 256 (val v) = 256" by simp
  moreover have "lu256ShiftAmount v = 256" using True unfolding lu256ShiftAmount_def by auto
  ultimately show ?thesis by simp
next
  case False
  then have "val v = unat (lo v)" by (simp add: val_eq)
  with False show ?thesis by (auto simp: lu256ShiftAmount_def word_le_nat_alt)
qed

lemma lu256IsNeg_val: "lu256IsNeg v \<longleftrightarrow> bit (w256 v) 255"
proof -
  have "unat (hi v) div 2 ^ 63 < 2" using unat_u64_less [of "hi v"] by (simp add: less_mult_imp_div_less)
  then have "unat (hi v) div 2 ^ 63 \<noteq> 0 \<longleftrightarrow> odd (unat (hi v) div 2 ^ 63)" by (auto simp: less_2_cases_iff)
  moreover have "bit (hi v) 63 \<longleftrightarrow> odd (unat (hi v) div 2 ^ 63)"
    using bit_unsigned_iff [where ?'a = nat, of "hi v" 63] by (simp add: bit_iff_odd)
  moreover have "drop_bit 63 (hi v) = 0 \<longleftrightarrow> unat (hi v) div 2 ^ 63 = 0"
    by (simp only: unat_eq_zero [symmetric] unsigned_drop_bit_eq) (simp add: drop_bit_eq_div take_bit_nat_eq_self [OF unat_u64_less])
  ultimately show ?thesis by (simp add: lu256IsNeg_def bit_w256 limbs_def)
qed

section \<open>N-bit signed values\<close>

text \<open>
  An \<open>n\<close>-bit signed value is stored in the low \<open>n\<close> bits; \<open>sval n a\<close> is the integer it
  stands for, \<open>fitsN n a\<close> says that no higher bit is set.
\<close>

definition sval :: "nat \<Rightarrow> LUint256 \<Rightarrow> int" where
  "sval n a = (let v = int (val a mod 2 ^ n) in if v < 2 ^ (n - 1) then v else v - 2 ^ n)"

definition fitsN :: "nat \<Rightarrow> LUint256 \<Rightarrow> bool" where
  "fitsN n a \<longleftrightarrow> val a < 2 ^ n"

lemma two_pow_pred: "0 < n \<Longrightarrow> (2::'a::comm_semiring_1) ^ n = 2 * 2 ^ (n - 1)"
  by (cases n) auto

lemma sval_fits: "fitsN n a \<Longrightarrow> sval n a = (if val a < 2 ^ (n - 1) then int (val a) else int (val a) - 2 ^ n)"
proof -
  have "int (val a) < 2 ^ (n - 1) \<longleftrightarrow> val a < 2 ^ (n - 1)"
    by (metis of_nat_less_iff of_nat_numeral of_nat_power)
  then show "fitsN n a \<Longrightarrow> ?thesis" by (simp add: sval_def fitsN_def)
qed

lemma sval_bounds:
  assumes "0 < n" shows "- (2 ^ (n - 1)) \<le> sval n a \<and> sval n a < 2 ^ (n - 1)"
proof -
  have "int (val a mod 2 ^ n) < 2 ^ n" by (metis mod_less_divisor of_nat_less_iff of_nat_numeral of_nat_power zero_less_numeral zero_less_power)
  then show ?thesis using two_pow_pred [OF assms, where 'a = int]
    by (auto simp: sval_def Let_def)
qed

lemma bit_top_val:
  assumes "0 < n" "n \<le> 256" "fitsN n a"
  shows "bit (w256 a) (n - 1) \<longleftrightarrow> 2 ^ (n - 1) \<le> val a"
proof -
  have "bit (w256 a) (n - 1) \<longleftrightarrow> odd (val a div 2 ^ (n - 1))"
    using assms bit_unsigned_iff [where ?'a = nat, of "w256 a" "n - 1"] by (simp add: bit_iff_odd)
  moreover have "val a div 2 ^ (n - 1) < 2"
    using assms two_pow_pred [of n, where 'a = nat] by (simp add: fitsN_def less_mult_imp_div_less mult.commute)
  ultimately have "bit (w256 a) (n - 1) \<longleftrightarrow> val a div 2 ^ (n - 1) \<noteq> 0" by (auto simp: less_2_cases_iff)
  then show ?thesis by (auto simp: div_eq_0_iff not_less)
qed

lemma lu256BitN_top:
  assumes "0 < n" "n \<le> 256" "fitsN n a"
  shows "lu256BitN a (int n - 1) = Inr (sval n a < 0)"
proof -
  have "nat (int n - 1) = n - 1" by linarith
  then have "lu256BitN a (int n - 1) = Inr (2 ^ (n - 1) \<le> val a)"
    using assms bit_top_val [OF assms] by (simp add: lu256BitN_bit)
  moreover have "int (val a) < 2 ^ n"
    using assms(3) unfolding fitsN_def by (metis of_nat_less_iff of_nat_numeral of_nat_power)
  ultimately show ?thesis using sval_fits [OF assms(3)] by auto
qed

lemma val_NegN:
  assumes "0 < n" "n \<le> 256" "fitsN n a"
  shows "val (lu256NegN a (int n)) = (2 ^ n - val a) mod 2 ^ n"
proof -
  have d: "(2::nat) ^ n dvd 2 ^ 256" using assms(2) by (rule le_imp_power_dvd)
  then obtain k where k: "(2::nat) ^ 256 = 2 ^ n * k" by (rule dvdE)
  have "val (lu256NegN a (int n)) = (2 ^ 256 - val a) mod 2 ^ 256 mod 2 ^ n"
    by (simp add: lu256NegN_def val_MaskN val_lu256Sub)
  also have "\<dots> = (2 ^ 256 - val a) mod 2 ^ n" using d by (simp add: mod_mod_cancel)
  also have "2 ^ 256 - val a = (2 ^ n - val a) + 2 ^ n * (k - 1)"
  proof -
    have "k \<noteq> 0" using k by (intro notI) simp
    then have "2 ^ 256 = 2 ^ n + 2 ^ n * (k - 1)" using k by (cases k) auto
    then show ?thesis using assms(3) by (simp add: fitsN_def)
  qed
  also have "\<dots> mod 2 ^ n = (2 ^ n - val a) mod 2 ^ n" by simp
  finally show ?thesis .
qed

lemma cmp_of_neg:
  "lu256Cmp a b = (if int (val a) - k < int (val b) - k then -1 else if int (val a) - k = int (val b) - k then 0 else 1)"
  by (simp add: lu256Cmp_val)

lemma lu256SignedCmpN_sval:
  assumes "0 < n" "n \<le> 256" "fitsN n a" "fitsN n b"
  shows "lu256SignedCmpN a b (int n) =
    Inr (if sval n a < sval n b then -1 else if sval n a = sval n b then 0 else 1)"
proof -
  have "int (val x) < 2 ^ n" if "fitsN n x" for x
    using that unfolding fitsN_def by (metis of_nat_less_iff of_nat_numeral of_nat_power)
  then have e: "sval n x = int (val x) - (if sval n x < 0 then 2 ^ n else 0)" if "fitsN n x" for x
    using that sval_fits [OF that] by (auto split: if_splits)
  consider "sval n a < 0" "sval n b < 0" | "\<not> sval n a < 0" "\<not> sval n b < 0"
    | "(sval n a < 0) \<noteq> (sval n b < 0)" by blast
  then show ?thesis
  proof cases
    case 1
    then have "sval n a = int (val a) - 2 ^ n" "sval n b = int (val b) - 2 ^ n"
      using e [OF assms(3)] e [OF assms(4)] by simp_all
    with 1 assms show ?thesis
      by (simp add: lu256SignedCmpN_def lu256BitN_top cmp_of_neg [of a b "2 ^ n"])
  next
    case 2
    then have "sval n a = int (val a) - 0" "sval n b = int (val b) - 0"
      using e [OF assms(3)] e [OF assms(4)] by simp_all
    with 2 assms show ?thesis
      by (simp add: lu256SignedCmpN_def lu256BitN_top cmp_of_neg [of a b 0])
  next
    case 3
    with assms show ?thesis by (auto simp: lu256SignedCmpN_def lu256BitN_top)
  qed
qed

lemma lu256SCmp_sval:
  "lu256SCmp a b = (if sval 256 a < sval 256 b then -1 else if sval 256 a = sval 256 b then 0 else 1)"
proof -
  have f: "fitsN 256 x" for x using val_less [of x] by (simp add: fitsN_def)
  have t: "lu256IsNeg x \<longleftrightarrow> sval 256 x < 0" for x
    using lu256BitN_top [of 256 x] f [of x] lu256BitN_bit [of 255 x] by (simp add: lu256IsNeg_val)
  show ?thesis
    using lu256SignedCmpN_sval [of 256 a b] f lu256BitN_top [of 256]
    by (simp add: lu256SCmp_def lu256SignedCmpN_def t Let_def split: if_splits)
qed

lemma bit_w256_high: "bit (w256 a) i \<Longrightarrow> 2 ^ i \<le> val a"
proof -
  assume "bit (w256 a) i"
  then have "odd (val a div 2 ^ i)"
    using bit_unsigned_iff [where ?'a = nat, of "w256 a" i] by (simp add: bit_iff_odd)
  then show ?thesis by (cases "val a < 2 ^ i") auto
qed

lemma bit_w256_fits: "fitsN n a \<Longrightarrow> bit (w256 a) i \<Longrightarrow> i < n"
proof -
  assume "fitsN n a" "bit (w256 a) i"
  then have "(2::nat) ^ i < 2 ^ n"
    unfolding fitsN_def using bit_w256_high [of a i] by linarith
  then show ?thesis by simp
qed

lemma w256_all_ones: "w256 all_ones = - 1"
  by (rule w256_eqI) (auto simp: bit_w256 all_ones_def limbs_def dest!: limbs_cases)

lemma val_of_w256: "w256 a = w \<Longrightarrow> val a = unat w"
  by (metis unat_w256)

lemma w256_sign_fill:
  assumes "n \<le> 256" "fitsN n a"
  shows "w256 (lu256Bor a (lu256Bnot (lu256MaskN all_ones (int n)))) = w256 a - 2 ^ n"
proof -
  have dis: "w256 a AND NOT (mask n) = 0"
    using assms by (intro bit_word_eqI)
      (use bit_w256_fits [OF assms(2)] in \<open>auto simp: bit_and_iff bit_not_iff bit_mask_iff\<close>)
  have "w256 (lu256Bor a (lu256Bnot (lu256MaskN all_ones (int n)))) = w256 a OR NOT (mask n)"
    by (simp add: w256_Bor w256_Bnot w256_MaskN w256_all_ones)
  also have "\<dots> = w256 a + NOT (mask n)" using dis by (simp add: disjunctive_add_eq_or)
  also have "NOT (mask n :: 256 word) = - (2 ^ n)" by (simp add: mask_eq_exp_minus_1 not_eq_complement)
  finally show ?thesis by simp
qed

lemma int_pow_less: "a < 2 ^ n \<Longrightarrow> int a < 2 ^ n"
  by (metis of_nat_less_iff of_nat_numeral of_nat_power)

lemma fitsN_256: "fitsN 256 a"
  using val_less [of a] by (simp only: fitsN_def)

lemma val_sign_fill:
  assumes "n \<le> 256" "fitsN n a"
  shows "int (val (lu256Bor a (lu256Bnot (lu256MaskN all_ones (int n))))) = int (val a) - 2 ^ n + 2 ^ 256"
proof -
  let ?r = "lu256Bor a (lu256Bnot (lu256MaskN all_ones (int n)))"
  have "w256 ?r + 2 ^ n = w256 a" using w256_sign_fill [OF assms] by simp
  then have "unat (w256 ?r + 2 ^ n) = val a" by simp
  moreover have "unat (w256 ?r + 2 ^ n) = (val ?r + 2 ^ n) mod 2 ^ 256"
  proof -
    have "w256 ?r + 2 ^ n = word_of_nat (val ?r + 2 ^ n)" by (simp add: w256_def)
    then show ?thesis by (simp only: unat_of_nat) simp
  qed
  ultimately have m: "(val ?r + 2 ^ n) mod 2 ^ 256 = val a" by simp
  have a: "val a < 2 ^ n" using assms(2) by (simp add: fitsN_def)
  have p: "(2::nat) ^ n \<le> 2 ^ 256" using assms(1) by (rule power_increasing) simp
  have "val ?r + 2 ^ n = val a + 2 ^ 256"
  proof (cases "val ?r + 2 ^ n < 2 ^ 256")
    case True
    then show ?thesis using m a by simp
  next
    case False
    then have "(val ?r + 2 ^ n) mod 2 ^ 256 = val ?r + 2 ^ n - 2 ^ 256"
      using val_less [of ?r] p by (subst mod_if) simp
    with m False show ?thesis by simp
  qed
  then have "int (val ?r + 2 ^ n) = int (val a + 2 ^ 256)" by simp
  then show ?thesis by simp
qed

lemma lu256SignExtendN_sval:
  assumes "0 < n" "n \<le> 256" "fitsN n a"
  shows "\<exists>r. lu256SignExtendN a (int n) = Inr r \<and> sval 256 r = sval n a"
proof (cases "n = 256")
  case True
  then show ?thesis by (simp add: lu256SignExtendN_def)
next
  case False
  have n: "n < 256" using False assms(2) by simp
  have lt: "int (val a) < 2 ^ n" using assms(3) int_pow_less by (simp add: fitsN_def)
  have p: "(2::int) ^ n \<le> 2 ^ 255" using n by (intro power_increasing) auto
  have t: "(2::int) ^ n = 2 * 2 ^ (n - 1)" by (rule two_pow_pred [OF assms(1)])
  show ?thesis
  proof (cases "sval n a < 0")
    case True
    let ?r = "lu256Bor a (lu256Bnot (lu256MaskN all_ones (int n)))"
    have r: "lu256SignExtendN a (int n) = Inr ?r"
      using True assms n by (simp add: lu256SignExtendN_def lu256BitN_top)
    have sa: "sval n a = int (val a) - 2 ^ n"
      using sval_fits [OF assms(3)] True by (auto split: if_splits)
    have v: "int (val ?r) = int (val a) - 2 ^ n + 2 ^ 256" by (rule val_sign_fill [OF assms(2,3)])
    have "\<not> int (val ?r) < 2 ^ 255"
      using v p by simp
    then have "\<not> val ?r < 2 ^ 255" using int_pow_less by blast
    then have "sval 256 ?r = int (val ?r) - 2 ^ 256"
      using sval_fits [OF fitsN_256, of ?r] by simp
    with r sa v show ?thesis by auto
  next
    case False
    have r: "lu256SignExtendN a (int n) = Inr a"
      using False assms n by (simp add: lu256SignExtendN_def lu256BitN_top)
    have sa: "sval n a = int (val a)"
      using sval_fits [OF assms(3)] False lt by (auto split: if_splits)
    have "int (val a) < 2 ^ 255" using lt p by linarith
    then have "val a < 2 ^ 255" by (metis of_nat_less_iff of_nat_numeral of_nat_power)
    then have "sval 256 a = int (val a)" using sval_fits [OF fitsN_256, of a] by simp
    with r sa show ?thesis by auto
  qed
qed

lemma fitsN_MaskN: "fitsN n (lu256MaskN a (int n))"
  by (simp add: fitsN_def val_MaskN)

lemma le_div_of_mult_le: "k * b \<le> (a::int) \<Longrightarrow> 0 < b \<Longrightarrow> k \<le> a div b"
  using zdiv_mono1 [of "k * b" a b] by simp

lemma neg_div_pow_bounds:
  assumes "x < 0" "- (2 ^ (n - 1)) \<le> (x::int)"
  shows "- (2 ^ (n - 1)) \<le> x div 2 ^ s \<and> x div 2 ^ s < 0"
proof
  have "x \<le> x div 2 ^ s"
  proof -
    have "x * 2 ^ s \<le> x * 1" using assms(1) by (intro mult_left_mono_neg) auto
    then show ?thesis by (intro le_div_of_mult_le) auto
  qed
  then show "- (2 ^ (n - 1)) \<le> x div 2 ^ s" using assms(2) by simp
  show "x div 2 ^ s < 0" using assms(1) by (simp add: pos_imp_zdiv_neg_iff)
qed

text \<open>
  An arithmetic right shift is the floor of the signed value divided by the power of two,
  exactly when no zero of the 256-bit logical shift reaches the \<open>n\<close> bits that are kept.
\<close>

definition sar_exact :: "nat \<Rightarrow> LUint256 \<Rightarrow> nat \<Rightarrow> bool" where
  "sar_exact n a s \<longleftrightarrow> \<not> sval n a < 0 \<or> n \<le> s \<or> s + n \<le> 256"

lemma lu256SarN_neg:
  assumes n: "0 < n" "n \<le> 256" and f: "fitsN n a" and neg: "sval n a < 0" and s: "s < n"
  shows "\<exists>r. lu256SarN a s (int n) = Inr r \<and> fitsN n r \<and>
    int (val r) = (sval n a div 2 ^ s + 2 ^ (256 - s)) mod 2 ^ n"
proof -
  obtain e where e: "lu256SignExtendN a (int n) = Inr e" "sval 256 e = sval n a"
    using lu256SignExtendN_sval [OF n f] by blast
  let ?r = "lu256MaskN (lu256Shr e s) (int n)"
  have r: "lu256SarN a s (int n) = Inr ?r"
    using neg n f s e by (simp add: lu256SarN_def lu256BitN_top)
  have "sval 256 e < 0" using e neg by simp
  then have ve: "int (val e) = sval n a + 2 ^ 256"
    using sval_fits [OF fitsN_256, of e] e(2) by (auto split: if_splits)
  have "int (val ?r) = int (val e) div 2 ^ s mod 2 ^ n"
    by (simp add: val_MaskN val_lu256Shr zdiv_int zmod_int)
  also have "int (val e) div 2 ^ s = sval n a div 2 ^ s + 2 ^ (256 - s)"
  proof -
    have p: "(2::int) ^ 256 = 2 ^ (256 - s) * 2 ^ s"
      unfolding power_add [symmetric] using s n by simp
    show ?thesis unfolding ve p by simp
  qed
  finally show ?thesis using r fitsN_MaskN by blast
qed

lemma lu256SarN_sval:
  assumes n: "0 < n" "n \<le> 256" and f: "fitsN n a"
  shows "\<exists>r. lu256SarN a s (int n) = Inr r \<and> fitsN n r \<and>
    (sval n r = sval n a div 2 ^ s \<longleftrightarrow> sar_exact n a s)"
proof -
  have t: "(2::int) ^ n = 2 * 2 ^ (n - 1)" by (rule two_pow_pred [OF n(1)])
  consider (pos) "\<not> sval n a < 0" | (big) "sval n a < 0" "n \<le> s" | (neg) "sval n a < 0" "s < n"
    by linarith
  then show ?thesis
  proof cases
    case pos
    let ?r = "lu256MaskN (lu256Shr a s) (int n)"
    have r: "lu256SarN a s (int n) = Inr ?r" using pos n f by (simp add: lu256SarN_def lu256BitN_top)
    have a: "val a < 2 ^ (n - 1)" "sval n a = int (val a)"
      using pos sval_fits [OF f] int_pow_less [of "val a" n] f by (auto simp: fitsN_def split: if_splits)
    have "val a div 2 ^ s \<le> val a" by simp
    then have l: "val a div 2 ^ s < 2 ^ (n - 1)" using a(1) by linarith
    then have "val a div 2 ^ s < 2 ^ n" using two_pow_pred [OF n(1), where 'a = nat] by linarith
    then have v: "val ?r = val a div 2 ^ s" by (simp add: val_MaskN val_lu256Shr)
    have "sval n ?r = int (val a div 2 ^ s)"
      using sval_fits [OF fitsN_MaskN, of n "lu256Shr a s"] l v by simp
    then have "sval n ?r = sval n a div 2 ^ s" by (simp add: a(2) zdiv_int)
    with r pos show ?thesis using fitsN_MaskN by (auto simp: sar_exact_def)
  next
    case big
    let ?r = "lu256MaskN all_ones (int n)"
    have r: "lu256SarN a s (int n) = Inr ?r" using big n f by (simp add: lu256SarN_def lu256BitN_top)
    have "val all_ones = mask 256"
      using w256_all_ones by (subst val_of_w256, assumption) (simp add: unsigned_minus_1_eq_mask)
    then have "val ?r = take_bit n (mask 256)"
      by (simp only: val_MaskN take_bit_eq_mod nat_int)
    also have "\<dots> = mask n" using n by (simp add: min_absorb2)
    finally have v: "val ?r = 2 ^ n - 1" by (simp add: mask_eq_exp_minus_1)
    then have "\<not> val ?r < 2 ^ (n - 1)" using two_pow_pred [OF n(1), where 'a = nat] by simp
    then have "sval n ?r = -1"
      using sval_fits [OF fitsN_MaskN, of n all_ones] v by simp
    moreover have "sval n a div 2 ^ s = -1"
    proof -
      have "- (2 ^ (n - 1)) \<le> sval n a" using sval_bounds [OF n(1), of a] by simp
      moreover have "(2::int) ^ (n - 1) \<le> 2 ^ s" using big by (intro power_increasing) auto
      ultimately have "(- 1) * 2 ^ s \<le> sval n a" by linarith
      then have "- 1 \<le> sval n a div 2 ^ s" by (rule le_div_of_mult_le) simp
      moreover have "sval n a div 2 ^ s < 0" using big by (simp add: pos_imp_zdiv_neg_iff)
      ultimately show ?thesis by linarith
    qed
    ultimately show ?thesis using r fitsN_MaskN big by (auto simp: sar_exact_def)
  next
    case neg
    from lu256SarN_neg [OF n f neg] obtain r where r: "lu256SarN a s (int n) = Inr r" "fitsN n r"
      and v: "int (val r) = (sval n a div 2 ^ s + 2 ^ (256 - s)) mod 2 ^ n" by blast
    let ?q = "sval n a div 2 ^ s"
    have q: "- (2 ^ (n - 1)) \<le> ?q" "?q < 0"
      using neg_div_pow_bounds [OF neg(1), of n s] sval_bounds [OF n(1), of a] by auto
    have "sval n r = ?q \<longleftrightarrow> s + n \<le> 256"
    proof (cases "s + n \<le> 256")
      case True
      have "(2::int) ^ n dvd 2 ^ (256 - s)" using True by (intro le_imp_power_dvd) simp
      then obtain c where c: "(2::int) ^ (256 - s) = 2 ^ n * c" by (rule dvdE)
      have "int (val r) = ?q mod 2 ^ n" unfolding v c by simp
      also have "\<dots> = (?q + 2 ^ n) mod 2 ^ n" by simp
      also have "\<dots> = ?q + 2 ^ n" using q t by (intro mod_pos_pos_trivial) auto
      finally have vr: "int (val r) = ?q + 2 ^ n" .
      then have "\<not> int (val r) < 2 ^ (n - 1)" using q t by simp
      then have "\<not> val r < 2 ^ (n - 1)" using int_pow_less by blast
      then show ?thesis using sval_fits [OF r(2)] vr True by simp
    next
      case False
      have p: "(2::int) ^ (256 - s) \<le> 2 ^ (n - 1)" using False by (intro power_increasing) auto
      have "s \<le> 256 - 1" using neg n by simp
      have "- (2 ^ (256 - s)) \<le> ?q"
      proof -
        have "(- (2 ^ (256 - s))) * 2 ^ s = - (2 ^ 256 :: int)"
          unfolding mult_minus_left power_add [symmetric] using neg n by simp
        also have "\<dots> \<le> sval n a"
        proof -
          have "(2::int) ^ (n - 1) \<le> 2 ^ 256" using n by (intro power_increasing) auto
          then show ?thesis using sval_bounds [OF n(1), of a] by linarith
        qed
        finally show ?thesis by (rule le_div_of_mult_le) simp
      qed
      then have "int (val r) = ?q + 2 ^ (256 - s)"
        unfolding v using q p t by (intro mod_pos_pos_trivial) linarith+
      then have "int (val r) < 2 ^ (n - 1)" using q p by linarith
      then have "val r < 2 ^ (n - 1)" by (metis of_nat_less_iff of_nat_numeral of_nat_power)
      then have "sval n r \<ge> 0" using sval_fits [OF r(2)] by simp
      then show ?thesis using q False by auto
    qed
    with r neg show ?thesis by (auto simp: sar_exact_def)
  qed
qed

section \<open>The contract of the 256-bit type\<close>

interpretation lu: word_group w256 LUint256Zero lu256Add lu256Sub
  by unfold_locales (simp_all add: w256_inject w256_Add w256_Sub)

instantiation LUint256 :: linorder
begin

definition less_eq_LUint256 :: "LUint256 \<Rightarrow> LUint256 \<Rightarrow> bool" where
  "less_eq_LUint256 a b \<longleftrightarrow> lu256Cmp a b \<noteq> 1"

definition less_LUint256 :: "LUint256 \<Rightarrow> LUint256 \<Rightarrow> bool" where
  "less_LUint256 a b \<longleftrightarrow> lu256Cmp a b = -1"

instance
proof
  fix a b c :: LUint256
  show "a < b \<longleftrightarrow> a \<le> b \<and> \<not> b \<le> a"
    by (auto simp: less_eq_LUint256_def less_LUint256_def lu256Cmp_val)
  show "a \<le> a" by (simp add: less_eq_LUint256_def lu256Cmp_val)
  show "a \<le> b \<Longrightarrow> b \<le> c \<Longrightarrow> a \<le> c"
    by (auto simp: less_eq_LUint256_def lu256Cmp_val split: if_splits)
  show "a \<le> b \<Longrightarrow> b \<le> a \<Longrightarrow> a = b"
    by (auto simp: less_eq_LUint256_def lu256Cmp_val val_inject split: if_splits)
  show "a \<le> b \<or> b \<le> a"
    by (auto simp: less_eq_LUint256_def lu256Cmp_val)
qed

end

lemma less_eq_LUint256_val: "a \<le> b \<longleftrightarrow> val a \<le> val b"
  by (auto simp: less_eq_LUint256_def lu256Cmp_val)

lemma less_LUint256_val: "a < b \<longleftrightarrow> val a < val b"
  by (auto simp: less_LUint256_def lu256Cmp_val)

lemmas w256_ops = w256_Add w256_Sub w256_Band w256_Bor w256_Bxor w256_Bnot w256_Shl w256_Shr w256_MaskN

section \<open>Properties\<close>

text \<open>C21: addition, subtraction, the bitwise operations, both shifts by any amount and the
truncation to \<open>n\<close> bits compute, limb by limb, exactly what the 256-bit machine word operation
of that name computes, wrap-around included; and the representation loses nothing.\<close>

theorem uint256_refines_word:
  "w256 (lu256Add a b) = w256 a + w256 b \<and> w256 (lu256Sub a b) = w256 a - w256 b \<and>
   w256 (lu256Band a b) = w256 a AND w256 b \<and> w256 (lu256Bor a b) = w256 a OR w256 b \<and>
   w256 (lu256Bxor a b) = w256 a XOR w256 b \<and> w256 (lu256Bnot a) = NOT (w256 a) \<and>
   w256 (lu256Shl a k) = push_bit k (w256 a) \<and> w256 (lu256Shr a k) = drop_bit k (w256 a) \<and>
   w256 (lu256MaskN a n) = take_bit (nat n) (w256 a) \<and> (w256 a = w256 b \<longleftrightarrow> a = b)"
  by (simp add: w256_ops w256_inject)

text \<open>C22: the schoolbook multiplication is multiplication modulo \<open>2 ^ 256\<close> exactly when none of
the four additions whose carry the code drops, or adds into the word it came from, overflows;
in particular it is exact when the second factor is below \<open>2 ^ 64\<close>, and it is not commutative:
\<open>(2 ^ 64 - 1) * (2 ^ 64 + 2)\<close> and the swapped product differ.\<close>

theorem uint256_mul_exact_iff:
  "(val (lu256Mul a b) = val a * val b mod 2 ^ 256 \<longleftrightarrow> mul_carry_free a b) \<and>
   (2 ^ 64 \<le> val b \<or> mul_carry_free a b) \<and>
   lu256Mul (LU256 18446744073709551615 0 0 0) (LU256 2 1 0 0) \<noteq>
   lu256Mul (LU256 2 1 0 0) (LU256 18446744073709551615 0 0 0)"
proof (intro conjI)
  show "val (lu256Mul a b) = val a * val b mod 2 ^ 256 \<longleftrightarrow> mul_carry_free a b"
    by (rule lu256Mul_exact_iff)
  show "2 ^ 64 \<le> val b \<or> mul_carry_free a b"
    using mul_carry_free_small [of b a] by linarith
  show "lu256Mul (LU256 18446744073709551615 0 0 0) (LU256 2 1 0 0) \<noteq>
      lu256Mul (LU256 2 1 0 0) (LU256 18446744073709551615 0 0 0)"
    by (simp add: lu256Mul_def bits_Mul64_def bits_Add64_def Let_def)
qed

text \<open>The two comparisons are the unsigned and the two's complement order of the 256-bit
values: the sign of the difference, 0 exactly on equal representations.\<close>

theorem uint256_comparisons:
  "lu256Cmp a b = sgn (int (val a) - int (val b)) \<and>
   lu256SCmp a b = sgn (sval 256 a - sval 256 b) \<and>
   (lu256Cmp a b = 0 \<longleftrightarrow> a = b)"
  by (auto simp: lu256Cmp_val lu256SCmp_sval sgn_if val_inject)

text \<open>Sign extension of an \<open>n\<close>-bit value never panics and gives the 256-bit value with the
same signed meaning, for every width from 1 to 256 bits.\<close>

theorem uint256_sign_extend:
  assumes "0 < n" and "n \<le> 256" and "fitsN n a"
  shows "\<exists>r. lu256SignExtendN a (int n) = Inr r \<and> sval 256 r = sval n a"
  by (rule lu256SignExtendN_sval [OF assms])

theorem uint256_sign_extend_witness:
  "\<exists>r. lu256SignExtendN (LU256 200 0 0 0) (int 8) = Inr r \<and> sval 256 r = sval 8 (LU256 200 0 0 0)"
  by (rule uint256_sign_extend) (simp_all add: fitsN_def val_LU256)

text \<open>The arithmetic right shift of an \<open>n\<close>-bit value never panics, gives an \<open>n\<close>-bit value, and
that value is the floor of the signed value divided by \<open>2 ^ s\<close> exactly when the value is not
negative, or \<open>s\<close> is at least \<open>n\<close>, or \<open>s + n\<close> is at most 256: the sign is extended to 256 bits
and the shift behind it is the logical one.\<close>

theorem uint256_sar:
  assumes "0 < n" and "n \<le> 256" and "fitsN n a"
  shows "\<exists>r. lu256SarN a s (int n) = Inr r \<and> fitsN n r \<and>
    (sval n r = sval n a div 2 ^ s \<longleftrightarrow> \<not> sval n a < 0 \<or> n \<le> s \<or> s + n \<le> 256)"
  using lu256SarN_sval [OF assms, of s] unfolding sar_exact_def .

theorem uint256_sar_witness:
  "\<exists>r. lu256SarN (LU256 0 0 0 9223372036854775808) 1 (int 256) = Inr r \<and> fitsN 256 r \<and>
    (sval 256 r = sval 256 (LU256 0 0 0 9223372036854775808) div 2 ^ 1 \<longleftrightarrow>
     \<not> sval 256 (LU256 0 0 0 9223372036854775808) < 0 \<or> (256::nat) \<le> 1 \<or> 1 + 256 \<le> (256::nat))"
  by (rule uint256_sar) (simp_all add: fitsN_256)

end
