(* ===== verification/UintDiv.thy ===== *)
theory UintDiv
  imports Uint256
begin

text \<open>
  Division and exponentiation of 256-bit integers (\<^verbatim>\<open>uint256.go\<close>): \<^verbatim>\<open>lu256DivMod\<close> with
  its single-limb path and Knuth's Algorithm D (\<^verbatim>\<open>u256KnuthD\<close>), the signed division and
  remainder built on it, and square-and-multiply. The arrays of the code are lists of
  limbs; every loop is a fold or a recursive function with the code's bounds. The main
  results: the quotient and remainder are exact whenever no step of Algorithm D meets a
  leading limb equal to the divisor's (\<open>knuth_unsaturated\<close>), which covers one-limb and
  four-limb divisors unconditionally; and a concrete division for which they are wrong.
\<close>

section \<open>Primitives\<close>

definition bits_Div64 :: "u64 \<Rightarrow> u64 \<Rightarrow> u64 \<Rightarrow> go_panic + (u64 \<times> u64)" where
  "bits_Div64 h l y =
     (if y = 0 then Inl PDivideByZero
      else if y \<le> h then Inl PDivideOverflow
      else let n = unat h * 2 ^ 64 + unat l
           in Inr (word_of_nat (n div unat y), word_of_nat (n mod unat y)))"

fun bit_len :: "nat \<Rightarrow> nat" where
  "bit_len n = (if n = 0 then 0 else Suc (bit_len (n div 2)))"

declare bit_len.simps [simp del]

definition bits_LeadingZeros64 :: "u64 \<Rightarrow> nat" where
  "bits_LeadingZeros64 x = 64 - bit_len (unat x)"

definition u256word :: "LUint256 \<Rightarrow> nat \<Rightarrow> u64" where
  "u256word n i = (if i = 0 then lo n else if i = 1 then ml n else if i = 2 then mh n else hi n)"

section \<open>Knuth's Algorithm D\<close>

text \<open>The number of significant limbs of the divisor, and the two normalised arrays.\<close>

definition knuth_dLen :: "LUint256 \<Rightarrow> nat" where
  "knuth_dLen d = (if hi d = 0 then (if mh d = 0 then 2 else 3) else 4)"

definition knuth_shift :: "LUint256 \<Rightarrow> nat" where
  "knuth_shift d = bits_LeadingZeros64 (u256word d (knuth_dLen d - 1))"

definition knuth_dn :: "LUint256 \<Rightarrow> nat \<Rightarrow> nat \<Rightarrow> u64 list" where
  "knuth_dn d dLen shift =
     map (\<lambda>i. if \<not> i < dLen then 0
              else if shift = 0 then u256word d i
              else if i = 0 then push_bit shift (lo d)
              else push_bit shift (u256word d i) OR drop_bit (64 - shift) (u256word d (i - 1)))
       [0..<4]"

definition knuth_un :: "LUint256 \<Rightarrow> nat \<Rightarrow> u64 list" where
  "knuth_un u shift =
     (if shift = 0 then [lo u, ml u, mh u, hi u, 0]
      else [push_bit shift (lo u),
            push_bit shift (ml u) OR drop_bit (64 - shift) (lo u),
            push_bit shift (mh u) OR drop_bit (64 - shift) (ml u),
            push_bit shift (hi u) OR drop_bit (64 - shift) (mh u),
            drop_bit (64 - shift) (hi u)])"

text \<open>
  The first estimate of a quotient digit. When the leading limb is not below the divisor's,
  the code takes the largest digit and the remainder estimate 0.
\<close>

definition knuth_qhat :: "u64 list \<Rightarrow> u64 list \<Rightarrow> nat \<Rightarrow> nat \<Rightarrow> go_panic + (u64 \<times> u64)" where
  "knuth_qhat un dn dLen j =
     (if un ! (j + dLen) \<ge> dn ! (dLen - 1) then Inr (NOT 0, 0)
      else bits_Div64 (un ! (j + dLen)) (un ! (j + dLen - 1)) (dn ! (dLen - 1)))"

text \<open>
  D3, the refinement loop: \<open>v1\<close>, \<open>v2\<close> are the two leading divisor limbs and \<open>u2\<close> is the
  third dividend limb. The digit estimate decreases in every round, so the loop stops.
\<close>

function knuth_refine :: "u64 \<Rightarrow> u64 \<Rightarrow> u64 \<Rightarrow> u64 \<Rightarrow> u64 \<Rightarrow> u64" where
  "knuth_refine v1 v2 u2 qhat rhat =
     (if v2 = 0 then qhat
      else
        let (h, l) = bits_Mul64 qhat v2
        in if h < rhat \<or> (h = rhat \<and> l \<le> u2) then qhat
           else
             let qhat = qhat - 1;
                 (rhat, carry) = bits_Add64 rhat v1 0
             in if carry \<noteq> 0 then qhat else knuth_refine v1 v2 u2 qhat rhat)"
  by pat_completeness auto
termination
proof (relation "measure (\<lambda>(v1, v2, u2, qhat, rhat). unat qhat)", goal_cases)
  case 1
  show ?case by simp
next
  case (2 v1 v2 u2 qhat rhat x h l qhat' y rhat' carry)
  have "qhat \<noteq> 0"
  proof
    assume "qhat = 0"
    then have "h = 0" "l = 0" using 2(2,3) by (auto simp: bits_Mul64_def)
    with 2(4) show False by (auto simp: word_neq_0_conv)
  qed
  then have "unat (qhat - 1) < unat qhat" by (simp add: unat_minus_one unat_gt_0)
  with 2 show ?case by simp
qed

declare knuth_refine.simps [simp del]

text \<open>D4, multiply and subtract; the borrow of a limb is the high product plus the underflow.\<close>

fun knuth_mulsub_body :: "u64 list \<Rightarrow> u64 \<Rightarrow> nat \<Rightarrow> nat \<Rightarrow> u64 list \<times> u64 \<Rightarrow> u64 list \<times> u64" where
  "knuth_mulsub_body dn qhat j i (un, borrow) =
     (let (h, l) = bits_Mul64 qhat (dn ! i);
          (l, carry) = bits_Add64 l borrow 0;
          h = h + carry;
          (w, underflow) = bits_Sub64 (un ! (j + i)) l 0
      in (un[j + i := w], h + underflow))"

definition knuth_mulsub :: "u64 list \<Rightarrow> nat \<Rightarrow> u64 \<Rightarrow> nat \<Rightarrow> u64 list \<Rightarrow> u64 list \<times> u64" where
  "knuth_mulsub dn dLen qhat j un = fold (knuth_mulsub_body dn qhat j) [0..<dLen] (un, 0)"

text \<open>D5, add back.\<close>

fun knuth_addback_body :: "u64 list \<Rightarrow> nat \<Rightarrow> nat \<Rightarrow> u64 list \<times> u64 \<Rightarrow> u64 list \<times> u64" where
  "knuth_addback_body dn j i (un, carry) =
     (let (w, carry) = bits_Add64 (un ! (j + i)) (dn ! i) carry in (un[j + i := w], carry))"

definition knuth_addback :: "u64 list \<Rightarrow> nat \<Rightarrow> nat \<Rightarrow> u64 list \<Rightarrow> u64 list \<times> u64" where
  "knuth_addback dn dLen j un = fold (knuth_addback_body dn j) [0..<dLen] (un, 0)"

text \<open>D4 and D5 with a given digit estimate, then one round of the outer loop.\<close>

definition knuth_subtract :: "u64 list \<Rightarrow> nat \<Rightarrow> nat \<Rightarrow> u64 \<Rightarrow> u64 list \<Rightarrow> u64 list \<times> u64" where
  "knuth_subtract dn dLen j qhat un =
     (let (un, borrow) = knuth_mulsub dn dLen qhat j un;
          (w, overflow) = bits_Sub64 (un ! (j + dLen)) borrow 0;
          un = un[j + dLen := w]
      in if overflow \<noteq> 0
         then let qhat = qhat - 1;
                  (un, carry) = knuth_addback dn dLen j un;
                  (w, _) = bits_Add64 (un ! (j + dLen)) 0 carry
              in (un[j + dLen := w], qhat)
         else (un, qhat))"

definition knuth_step ::
  "u64 list \<Rightarrow> nat \<Rightarrow> nat \<Rightarrow> u64 list \<times> u64 list \<Rightarrow> go_panic + (u64 list \<times> u64 list)" where
  "knuth_step dn dLen j s =
     (case s of (un, q) \<Rightarrow>
        bindr (knuth_qhat un dn dLen j) (\<lambda>(qhat, rhat).
          let qhat = knuth_refine (dn ! (dLen - 1)) (dn ! (dLen - 2)) (un ! (j + dLen - 2)) qhat rhat;
              (un, qhat) = knuth_subtract dn dLen j qhat un
          in Inr (un, q[j := qhat])))"

fun knuth_loop ::
  "u64 list \<Rightarrow> nat \<Rightarrow> nat list \<Rightarrow> u64 list \<times> u64 list \<Rightarrow> go_panic + (u64 list \<times> u64 list)" where
  "knuth_loop dn dLen [] s = Inr s"
| "knuth_loop dn dLen (j # js) s = bindr (knuth_step dn dLen j s) (knuth_loop dn dLen js)"

text \<open>D8, shift the remainder back.\<close>

definition knuth_unnormalize :: "u64 list \<Rightarrow> nat \<Rightarrow> nat \<Rightarrow> u64 list" where
  "knuth_unnormalize un dLen shift =
     map (\<lambda>i. if \<not> i < dLen then 0
              else if shift = 0 then un ! i
              else if i < dLen - 1
              then drop_bit shift (un ! i) OR push_bit (64 - shift) (un ! (i + 1))
              else drop_bit shift (un ! (dLen - 1)))
       [0..<4]"

definition u256KnuthD :: "LUint256 \<Rightarrow> LUint256 \<Rightarrow> go_panic + (LUint256 \<times> LUint256)" where
  "u256KnuthD u d =
     (let dLen = knuth_dLen d;
          shift = knuth_shift d;
          dn = knuth_dn d dLen shift
      in bindr (knuth_loop dn dLen (rev [0..<5 - dLen]) (knuth_un u shift, [0, 0, 0, 0]))
           (\<lambda>(un, q). Inr (of_limbs q, of_limbs (knuth_unnormalize un dLen shift))))"

section \<open>Quotient and remainder\<close>

definition lu256DivMod :: "LUint256 \<Rightarrow> LUint256 \<Rightarrow> go_panic + (LUint256 \<times> LUint256)" where
  "lu256DivMod a b =
     (if lu256IsZero b then Inl (PMessage ''u256: division by zero'')
      else if lu256Cmp a b = -1 then Inr (LUint256Zero, a)
      else if lu256Cmp a b = 0 then Inr (LUint256One, LUint256Zero)
      else if hi b = 0 \<and> mh b = 0 \<and> ml b = 0
      then bindr (bits_Div64 0 (hi a) (lo b)) (\<lambda>(q3, r).
           bindr (bits_Div64 r (mh a) (lo b)) (\<lambda>(q2, r).
           bindr (bits_Div64 r (ml a) (lo b)) (\<lambda>(q1, r).
           bindr (bits_Div64 r (lo a) (lo b)) (\<lambda>(q0, r).
             Inr (LU256 q0 q1 q2 q3, LU256 r 0 0 0)))))
      else u256KnuthD a b)"

definition lu256Div :: "LUint256 \<Rightarrow> LUint256 \<Rightarrow> go_panic + LUint256" where
  "lu256Div a b = bindr (lu256DivMod a b) (\<lambda>(q, _). Inr q)"

definition lu256FloorDiv :: "LUint256 \<Rightarrow> LUint256 \<Rightarrow> go_panic + LUint256" where
  "lu256FloorDiv a b = lu256Div a b"

definition lu256Mod :: "LUint256 \<Rightarrow> LUint256 \<Rightarrow> go_panic + LUint256" where
  "lu256Mod a b = bindr (lu256DivMod a b) (\<lambda>(_, r). Inr r)"

text \<open>Signed division and remainder of \<open>n\<close>-bit values, truncating toward zero.\<close>

definition lu256SignedDivN :: "LUint256 \<Rightarrow> LUint256 \<Rightarrow> int \<Rightarrow> go_panic + LUint256" where
  "lu256SignedDivN a b n =
     bindr (lu256BitN a (n - 1)) (\<lambda>aNeg.
     bindr (lu256BitN b (n - 1)) (\<lambda>bNeg.
       let absA = (if aNeg then lu256NegN a n else a);
           absB = (if bNeg then lu256NegN b n else b)
       in bindr (lu256DivMod absA absB) (\<lambda>(q, _).
            let q = lu256MaskN q n
            in Inr (if aNeg \<noteq> bNeg then lu256NegN q n else q))))"

definition lu256SignedModN :: "LUint256 \<Rightarrow> LUint256 \<Rightarrow> int \<Rightarrow> go_panic + LUint256" where
  "lu256SignedModN a b n =
     bindr (lu256BitN a (n - 1)) (\<lambda>aNeg.
     bindr (lu256BitN b (n - 1)) (\<lambda>bNeg.
       let absA = (if aNeg then lu256NegN a n else a);
           absB = (if bNeg then lu256NegN b n else b)
       in bindr (lu256DivMod absA absB) (\<lambda>(_, r).
            let r = lu256MaskN r n
            in Inr (if aNeg then lu256NegN r n else r))))"

section \<open>Segments of limb lists\<close>

text \<open>The number in the \<open>k\<close> limbs from position \<open>a\<close> on.\<close>

definition seg :: "u64 list \<Rightarrow> nat \<Rightarrow> nat \<Rightarrow> nat" where
  "seg xs a k = wval (take k (drop a xs))"

lemma wval_append_u64: "wval (xs @ ys) = wval xs + (2 ^ 64) ^ length xs * wval (ys :: u64 list)"
  by (simp add: wval_append power_mult)

lemma seg_0 [simp]: "seg xs a 0 = 0"
  by (simp add: seg_def)

lemma seg_add:
  assumes "a + k \<le> length xs" shows "seg xs a (k + m) = seg xs a k + (2 ^ 64) ^ k * seg xs (a + k) m"
proof -
  have "take (k + m) (drop a xs) = take k (drop a xs) @ take m (drop (a + k) xs)"
    by (simp add: take_add add.commute)
  then show ?thesis using assms by (simp add: seg_def wval_append_u64)
qed

lemma seg_one: "a < length xs \<Longrightarrow> seg xs a (Suc 0) = unat (xs ! a)"
  by (simp add: seg_def take_Suc_conv_app_nth)

lemma seg_Suc: "a + k < length xs \<Longrightarrow> seg xs a (Suc k) = seg xs a k + (2 ^ 64) ^ k * unat (xs ! (a + k))"
  using seg_add [of a k xs 1] by (simp add: seg_one)

lemma seg_Suc_first: "a < length xs \<Longrightarrow> seg xs a (Suc k) = unat (xs ! a) + 2 ^ 64 * seg xs (Suc a) k"
  using seg_add [of a "Suc 0" xs k] by (simp add: seg_one)

lemma seg_bound: "seg xs a k < (2 ^ 64) ^ k"
proof -
  have "seg xs a k < 2 ^ (64 * length (take k (drop a xs)))"
    using wval_bound [of "take k (drop a xs)"] by (simp add: seg_def)
  also have "\<dots> \<le> 2 ^ (64 * k)" by (intro power_increasing) auto
  finally show ?thesis by (simp add: power_mult)
qed

lemma seg_update:
  "i < a \<or> a + k \<le> i \<Longrightarrow> seg (xs[i := w]) a k = seg xs a k"
  by (auto simp: seg_def drop_update_swap not_less intro!: arg_cong [where f = wval])

lemma seg_cong: "length ys = length xs \<Longrightarrow> (\<And>i. a \<le> i \<Longrightarrow> i < a + k \<Longrightarrow> ys ! i = xs ! i) \<Longrightarrow> seg ys a k = seg xs a k"
  unfolding seg_def by (intro arg_cong [where f = wval] nth_equalityI) auto

lemma seg_all: "seg xs 0 (length xs) = wval xs"
  by (simp add: seg_def)

section \<open>Multiply and subtract, add back\<close>

text \<open>A step of the code on one limb, as an equation between numbers.\<close>

lemma mulsub_limb:
  assumes "bits_Mul64 q v = (h, l)" "bits_Add64 l b 0 = (l', c)" "bits_Sub64 u l' 0 = (w, d)"
  shows "unat w + unat q * unat v + unat b = unat u + 2 ^ 64 * unat (h + c + d)"
proof -
  note m = bits_Mul64_spec [OF assms(1)] and a = bits_Add64_spec [OF assms(2)] and s = bits_Sub64_spec [OF assms(3)]
  have e: "unat l' + 2 ^ 64 * (unat h + unat c) = unat q * unat v + unat b" using m a by simp
  have w: "unat w + unat l' = unat u + 2 ^ 64 * unat d" "unat d \<le> 1" using s by simp_all
  have "unat q * unat v \<le> (2 ^ 64 - 1) * (2 ^ 64 - 1)"
    by (rule mult_le_mono) (use unat_u64_less [of q] unat_u64_less [of v] in linarith)+
  then have hc: "unat l' + 2 ^ 64 * (unat h + unat c) \<le> (2 ^ 64 - 1) * (2 ^ 64 :: nat)"
    unfolding e using unat_u64_less [of b] by simp
  then have "unat h + unat c \<le> 2 ^ 64 - 1" by simp
  moreover have "unat h + unat c = 2 ^ 64 - 1 \<Longrightarrow> unat d = 0"
  proof -
    assume "unat h + unat c = 2 ^ 64 - 1"
    then have "unat l' = 0" using hc by simp
    then show "unat d = 0" using w unat_u64_less [of w] by simp
  qed
  ultimately have lt: "unat h + unat c + unat d < 2 ^ 64"
    using w(2) by (cases "unat h + unat c = 2 ^ 64 - 1") simp_all
  then have "unat (h + c + d) = unat h + unat c + unat d" by (simp add: unat_word_ariths)
  then show ?thesis using e w(1) by simp
qed

lemma knuth_mulsub_spec:
  assumes "k \<le> length dn" "j + k \<le> length un" "fold (knuth_mulsub_body dn qhat j) [0..<k] (un, 0) = (un', b)"
  shows "length un' = length un \<and> (\<forall>i. i < j \<or> j + k \<le> i \<longrightarrow> un' ! i = un ! i) \<and>
    seg un' j k + unat qhat * seg dn 0 k = seg un j k + (2 ^ 64) ^ k * unat b"
  using assms
proof (induction k arbitrary: un' b)
  case (Suc k)
  obtain un1 b1 where f: "fold (knuth_mulsub_body dn qhat j) [0..<k] (un, 0) = (un1, b1)" by fastforce
  have IH: "length un1 = length un" "\<forall>i. i < j \<or> j + k \<le> i \<longrightarrow> un1 ! i = un ! i"
    "seg un1 j k + unat qhat * seg dn 0 k = seg un j k + (2 ^ 64) ^ k * unat b1"
    using Suc.IH [OF _ _ f] Suc.prems(1,2) by auto
  obtain h l l' c w d where p: "bits_Mul64 qhat (dn ! k) = (h, l)" "bits_Add64 l b1 0 = (l', c)"
    "bits_Sub64 (un1 ! (j + k)) l' 0 = (w, d)" by (metis surj_pair)
  have r: "un' = un1[j + k := w]" "b = h + c + d"
    using Suc.prems(3) f p by (simp_all add: Let_def)
  have e: "unat w + unat qhat * unat (dn ! k) + unat b1 = unat (un ! (j + k)) + 2 ^ 64 * unat b"
    using mulsub_limb [OF p] IH(2) r(2) by simp
  have s: "seg un' j (Suc k) = seg un1 j k + (2 ^ 64) ^ k * unat w"
    using Suc.prems(2) IH(1) by (simp add: r(1) seg_Suc seg_update)
  have sd: "seg dn 0 (Suc k) = seg dn 0 k + (2 ^ 64) ^ k * unat (dn ! k)"
    using Suc.prems(1) by (simp add: seg_Suc)
  have su: "seg un j (Suc k) = seg un j k + (2 ^ 64) ^ k * unat (un ! (j + k))"
    using Suc.prems(2) by (simp add: seg_Suc)
  have "(2 ^ 64) ^ k * unat w + unat qhat * ((2 ^ 64) ^ k * unat (dn ! k)) + (2 ^ 64) ^ k * unat b1 =
      (2 ^ 64) ^ k * unat (un ! (j + k)) + (2 ^ 64) ^ Suc k * unat b"
    using arg_cong [OF e, of "\<lambda>x. (2 ^ 64) ^ k * x"] by (simp only: algebra_simps power_Suc)
  with IH(3) have "seg un' j (Suc k) + unat qhat * seg dn 0 (Suc k) = seg un j (Suc k) + (2 ^ 64) ^ Suc k * unat b"
    unfolding s sd su distrib_left by linarith
  then show ?case using IH(1,2) by (simp add: r(1) nth_list_update)
qed simp

lemma knuth_addback_spec:
  assumes "k \<le> length dn" "j + k \<le> length un" "fold (knuth_addback_body dn j) [0..<k] (un, 0) = (un', c)"
  shows "length un' = length un \<and> (\<forall>i. i < j \<or> j + k \<le> i \<longrightarrow> un' ! i = un ! i) \<and> unat c \<le> 1 \<and>
    seg un' j k + (2 ^ 64) ^ k * unat c = seg un j k + seg dn 0 k"
  using assms
proof (induction k arbitrary: un' c)
  case (Suc k)
  obtain un1 c1 where f: "fold (knuth_addback_body dn j) [0..<k] (un, 0) = (un1, c1)" by fastforce
  have IH: "length un1 = length un" "\<forall>i. i < j \<or> j + k \<le> i \<longrightarrow> un1 ! i = un ! i" "unat c1 \<le> 1"
    "seg un1 j k + (2 ^ 64) ^ k * unat c1 = seg un j k + seg dn 0 k"
    using Suc.IH [OF _ _ f] Suc.prems(1,2) by auto
  obtain w c' where p: "bits_Add64 (un1 ! (j + k)) (dn ! k) c1 = (w, c')" by fastforce
  have r: "un' = un1[j + k := w]" "c = c'" using Suc.prems(3) f p by simp_all
  have e: "unat w + 2 ^ 64 * unat c = unat (un ! (j + k)) + unat (dn ! k) + unat c1"
    using bits_Add64_spec [OF p] IH(2) r(2) by simp
  have "unat c \<le> 1"
    using e IH(3) unat_u64_less [of "un ! (j + k)"] unat_u64_less [of "dn ! k"] by simp
  moreover have "seg un' j (Suc k) = seg un1 j k + (2 ^ 64) ^ k * unat w"
    using Suc.prems(2) IH(1) by (simp add: r(1) seg_Suc seg_update)
  moreover have "seg dn 0 (Suc k) = seg dn 0 k + (2 ^ 64) ^ k * unat (dn ! k)"
    using Suc.prems(1) by (simp add: seg_Suc)
  moreover have "seg un j (Suc k) = seg un j k + (2 ^ 64) ^ k * unat (un ! (j + k))"
    using Suc.prems(2) by (simp add: seg_Suc)
  moreover have "(2 ^ 64) ^ k * unat w + (2 ^ 64) ^ Suc k * unat c =
      (2 ^ 64) ^ k * unat (un ! (j + k)) + (2 ^ 64) ^ k * unat (dn ! k) + (2 ^ 64) ^ k * unat c1"
    using arg_cong [OF e, of "\<lambda>x. (2 ^ 64) ^ k * x"] by (simp only: algebra_simps power_Suc)
  ultimately show ?case using IH(1,2,4) by (simp add: r(1) nth_list_update)
qed simp

lemma knuth_subtract_spec:
  assumes n: "n \<le> length dn" "j + n < length un" and D: "D = seg dn 0 n" "0 < D"
    and W: "W = seg un j (Suc n)" and q: "W div D \<le> unat qhat" "unat qhat \<le> W div D + 1"
    and r: "knuth_subtract dn n j qhat un = (un', q')"
  shows "unat q' = W div D \<and> seg un' j (Suc n) = W mod D \<and> length un' = length un \<and>
    (\<forall>i. i < j \<or> j + n < i \<longrightarrow> un' ! i = un ! i)"
proof -
  let ?B = "(2 ^ 64 :: nat)"
  obtain un1 b where m: "fold (knuth_mulsub_body dn qhat j) [0..<n] (un, 0) = (un1, b)" by fastforce
  have M: "length un1 = length un" "\<forall>i. i < j \<or> j + n \<le> i \<longrightarrow> un1 ! i = un ! i"
    "seg un1 j n + unat qhat * D = seg un j n + ?B ^ n * unat b"
    using knuth_mulsub_spec [OF n(1) _ m] n(2) D(1) by auto
  obtain w ov where s: "bits_Sub64 (un ! (j + n)) b 0 = (w, ov)" by fastforce
  have S: "unat w + unat b = unat (un ! (j + n)) + ?B * unat ov" "unat ov \<le> 1"
    using bits_Sub64_spec [OF s] by simp_all
  let ?un2 = "un1[j + n := w]"
  have un2: "seg ?un2 j (Suc n) = seg un1 j n + ?B ^ n * unat w" "seg ?un2 j n = seg un1 j n"
    using n(2) M(1) by (simp_all add: seg_Suc seg_update)
  have W': "W = seg un j n + ?B ^ n * unat (un ! (j + n))" using n(2) W by (simp add: seg_Suc)
  have "?B ^ n * unat w + ?B ^ n * unat b = ?B ^ n * unat (un ! (j + n)) + ?B ^ Suc n * unat ov"
    using arg_cong [OF S(1), of "\<lambda>x. ?B ^ n * x"] by (simp only: algebra_simps power_Suc)
  with M(3) have total: "seg ?un2 j (Suc n) + unat qhat * D = W + ?B ^ Suc n * unat ov"
    unfolding un2 W' by linarith
  have split: "W = W div D * D + W mod D" by simp
  show ?thesis
  proof (cases "ov = 0")
    case True
    then have e: "seg ?un2 j (Suc n) + unat qhat * D = W" using total by simp
    then have "unat qhat * D \<le> W" by linarith
    then have "unat qhat \<le> W div D" using D(2) by (simp add: less_eq_div_iff_mult_less_eq)
    then have qq: "unat qhat = W div D" using q(1) by simp
    have "un' = ?un2" "q' = qhat"
      using r m s True M(2) by (auto simp: knuth_subtract_def knuth_mulsub_def Let_def)
    moreover have "seg ?un2 j (Suc n) = W mod D" using e split unfolding qq by linarith
    ultimately show ?thesis using qq M(1,2) by (simp add: nth_list_update)
  next
    case False
    then have ov: "unat ov = 1" using S(2) by (metis le_SucE le_zero_eq One_nat_def unat_eq_zero)
    have "seg ?un2 j (Suc n) < ?B ^ Suc n" by (rule seg_bound)
    then have "W < unat qhat * D" using total ov by simp
    then have "W div D < unat qhat" using D(2) by (simp add: div_less_iff_less_mult mult.commute)
    then have qq: "unat qhat = W div D + 1" using q(2) by simp
    then have q1: "unat (qhat - 1) = W div D" using unat_minus_one [of qhat] by (metis add_diff_cancel_right' nat.distinct(1) One_nat_def add_Suc_right unat_0)
    obtain un3 c where a: "fold (knuth_addback_body dn j) [0..<n] (?un2, 0) = (un3, c)" by fastforce
    have A: "length un3 = length un" "\<forall>i. i < j \<or> j + n \<le> i \<longrightarrow> un3 ! i = ?un2 ! i"
      "seg un3 j n + ?B ^ n * unat c = seg ?un2 j n + D"
      using knuth_addback_spec [OF n(1) _ a] n(2) M(1) D(1) by auto
    obtain w' d where s': "bits_Add64 w 0 c = (w', d)" by fastforce
    have S': "unat w' + ?B * unat d = unat w + unat c" using bits_Add64_spec [OF s'] by simp
    let ?un4 = "un3[j + n := w']"
    have un4: "seg ?un4 j (Suc n) = seg un3 j n + ?B ^ n * unat w'"
      using n(2) A(1) by (simp add: seg_Suc seg_update)
    have "?B ^ n * unat w' + ?B ^ Suc n * unat d = ?B ^ n * unat w + ?B ^ n * unat c"
      using arg_cong [OF S', of "\<lambda>x. ?B ^ n * x"] by (simp only: algebra_simps power_Suc)
    then have t: "seg ?un4 j (Suc n) + ?B ^ Suc n * unat d = seg ?un2 j (Suc n) + D"
      unfolding un4 using A(3) un2 by linarith
    have "seg ?un2 j (Suc n) + (W div D * D + D) = W + ?B ^ Suc n" using total ov qq by (simp add: algebra_simps)
    then have t2: "seg ?un4 j (Suc n) + ?B ^ Suc n * unat d = W mod D + ?B ^ Suc n" using t split by linarith
    have "seg ?un4 j (Suc n) < ?B ^ Suc n" by (rule seg_bound)
    moreover have "W mod D < ?B ^ Suc n"
      using mod_less_divisor [OF D(2), of W] seg_bound [of dn 0 n] D(1) by (simp add: power_Suc)
    ultimately have "unat d = 1"
    proof -
      assume a: "seg ?un4 j (Suc n) < ?B ^ Suc n" "W mod D < ?B ^ Suc n"
      have "unat d \<noteq> 0" using t2 a(1) by (intro notI) simp
      moreover have "\<not> 2 \<le> unat d"
      proof
        assume "2 \<le> unat d"
        then have "?B ^ Suc n * 2 \<le> ?B ^ Suc n * unat d" by (rule mult_le_mono2)
        then show False using t2 a(2) by linarith
      qed
      ultimately show ?thesis by simp
    qed
    then have "seg ?un4 j (Suc n) = W mod D" using t2 by simp
    moreover have "un' = ?un4" "q' = qhat - 1"
      using r m s a s' False M(1,2) A(1,2) n(2)
      by (auto simp: knuth_subtract_def knuth_mulsub_def knuth_addback_def Let_def)
    ultimately show ?thesis using q1 M(1,2) A(1,2) by (auto simp: nth_list_update)
  qed
qed

subsection \<open>The digit estimate\<close>

text \<open>
  A dividend \<open>U\<close> and a divisor \<open>D\<close> seen through their leading limbs: \<open>N\<close> is the two
  leading limbs of \<open>U\<close>, \<open>u2\<close> the third, \<open>v1\<close> and \<open>v2\<close> the leading limbs of \<open>D\<close>, \<open>P\<close> the
  weight of what follows.
\<close>

lemma digit_estimate_init:
  fixes U D P N u2 v1 v2 B :: nat
  assumes D: "P * (v2 + B * v1) \<le> D" and U: "U < P * (u2 + B * N + 1)" and u2: "u2 < B" and v1: "0 < v1"
  shows "U div D \<le> N div v1"
proof -
  let ?q = "U div D"
  have "P * B * (?q * v1) \<le> ?q * (P * (v2 + B * v1))" by (simp add: algebra_simps)
  also have "\<dots> \<le> ?q * D" using D by simp
  also have "\<dots> \<le> U" by (simp add: mult.commute)
  also have "\<dots> < P * (u2 + B * N + 1)" by (rule U)
  also have "\<dots> \<le> P * B * (N + 1)"
    using u2 mult_le_mono2 [of "u2 + B * N + 1" "B * N + B" P] by (simp add: algebra_simps)
  finally have "?q * v1 < N + 1" by (metis mult_less_cancel1)
  then show ?thesis using v1 by (simp add: less_eq_div_iff_mult_less_eq)
qed

lemma digit_too_big:
  fixes U D P N u2 v1 v2 B qhat rhat :: nat
  assumes D: "P * (v2 + B * v1) \<le> D" and U: "U < P * (u2 + B * N + 1)"
    and N: "N = qhat * v1 + rhat" and test: "rhat * B + u2 < qhat * v2"
  shows "U div D < qhat"
proof -
  have "u2 + B * N + 1 \<le> qhat * (v2 + B * v1)" using test unfolding N by (simp add: algebra_simps)
  then have "P * (u2 + B * N + 1) \<le> P * (qhat * (v2 + B * v1))" by (rule mult_le_mono2)
  also have "\<dots> = qhat * (P * (v2 + B * v1))" by simp
  also have "\<dots> \<le> qhat * D" using D by simp
  finally have "U < qhat * D" using U by linarith
  then show ?thesis by (simp add: less_mult_imp_div_less)
qed

lemma digit_close:
  fixes U D P N u2 v1 v2 B qhat rhat :: nat
  assumes D: "D < P * (v2 + B * v1 + 1)" "P * B \<le> D" and U: "P * (u2 + B * N) \<le> U"
    and N: "N = qhat * v1 + rhat" and test: "qhat * v2 \<le> rhat * B + u2" and q: "qhat < B"
  shows "qhat \<le> U div D + 1"
proof -
  have "qhat * (v2 + B * v1) \<le> u2 + B * N" using test unfolding N by (simp add: algebra_simps)
  then have "P * (qhat * (v2 + B * v1)) \<le> P * (u2 + B * N)" by (rule mult_le_mono2)
  then have a: "P * (qhat * (v2 + B * v1)) \<le> U" using U by linarith
  have "qhat * D \<le> qhat * (P * (v2 + B * v1 + 1))" using D by simp
  also have "\<dots> = P * (qhat * (v2 + B * v1)) + P * qhat" by (simp add: algebra_simps)
  also have "\<dots> \<le> U + P * qhat" using a by simp
  finally have "qhat * D \<le> U + P * qhat" .
  moreover have "P * qhat \<le> P * B" using q by simp
  ultimately have "qhat * D \<le> U + D" using D by linarith
  moreover have "0 < D" using D q by (cases "D = 0") auto
  ultimately have "qhat \<le> (U + D) div D" by (simp add: less_eq_div_iff_mult_less_eq)
  then show ?thesis using \<open>0 < D\<close> div_add_self2 [of D U] by simp
qed

lemma knuth_refine_correct:
  fixes U D P N :: nat
  assumes D: "P * (unat v2 + 2 ^ 64 * unat v1) \<le> D" "D < P * (unat v2 + 2 ^ 64 * unat v1 + 1)" "P * 2 ^ 64 \<le> D"
    and U: "P * (unat u2 + 2 ^ 64 * N) \<le> U" "U < P * (unat u2 + 2 ^ 64 * N + 1)"
    and N: "N = unat qhat * unat v1 + unat rhat" and q: "U div D \<le> unat qhat"
  shows "U div D \<le> unat (knuth_refine v1 v2 u2 qhat rhat) \<and>
    unat (knuth_refine v1 v2 u2 qhat rhat) \<le> U div D + 1"
  using D U N q
proof (induction v1 v2 u2 qhat rhat rule: knuth_refine.induct)
  case (1 v1 v2 u2 qhat rhat)
  note hyps = "1.prems"
  obtain h l where m: "bits_Mul64 qhat v2 = (h, l)" by fastforce
  note ms = bits_Mul64_spec [OF m]
  obtain rhat' carry where a: "bits_Add64 rhat v1 0 = (rhat', carry)" by fastforce
  note as = bits_Add64_spec [OF a, simplified]
  define stop where "stop \<longleftrightarrow> h < rhat \<or> (h = rhat \<and> l \<le> u2)"
  have unf: "knuth_refine v1 v2 u2 qhat rhat = (if v2 = 0 \<or> stop then qhat
      else if carry \<noteq> 0 then qhat - 1 else knuth_refine v1 v2 u2 (qhat - 1) rhat')"
    by (subst knuth_refine.simps) (simp add: m a stop_def)
  have le: "h < rhat \<or> (h = rhat \<and> l \<le> u2) \<longleftrightarrow> \<not> (unat u2 + 2 ^ 64 * unat rhat < unat l + 2 ^ 64 * unat h)"
    unfolding limb_less_iff word_less_nat_alt word_le_nat_alt word_unat_eq_iff by linarith
  have stop: "stop \<longleftrightarrow> unat qhat * unat v2 \<le> unat rhat * 2 ^ 64 + unat u2"
    unfolding stop_def le ms not_less by (simp only: add.commute mult.commute)
  show ?case
  proof (cases "v2 = 0 \<or> stop")
    case True
    then have "unat qhat * unat v2 \<le> unat rhat * 2 ^ 64 + unat u2" using stop by auto
    from digit_close [OF hyps(2,3,4,6) this unat_u64_less] hyps(7) show ?thesis
      unfolding unf if_P [OF True] by simp
  next
    case False
    then have big: "unat rhat * 2 ^ 64 + unat u2 < unat qhat * unat v2" using stop by simp
    have less: "U div D < unat qhat" by (rule digit_too_big [OF hyps(1,5,6) big])
    then have q1: "unat (qhat - 1) = unat qhat - 1" by (intro unat_minus_one) auto
    have N': "N = unat (qhat - 1) * unat v1 + (unat rhat + unat v1)"
      using hyps(6) less q1 by (cases "unat qhat") auto
    show ?thesis
    proof (cases "carry = 0")
      case True
      then have r: "unat rhat' = unat rhat + unat v1" using as by simp
      have "U div D \<le> unat (qhat - 1)" using less q1 by simp
      moreover have "\<not> (h < rhat \<or> h = rhat \<and> l \<le> u2)" using False by (simp add: stop_def)
      ultimately have "U div D \<le> unat (knuth_refine v1 v2 u2 (qhat - 1) rhat') \<and>
          unat (knuth_refine v1 v2 u2 (qhat - 1) rhat') \<le> U div D + 1"
        using "1.IH" [OF _ m [symmetric] refl _ refl a [symmetric] refl] False True hyps(1-5) N' r by simp
      then show ?thesis unfolding unf if_not_P [OF False] using True by simp
    next
      case c: False
      then have "1 \<le> unat carry" by (simp add: Suc_le_eq unat_gt_0)
      then have "2 ^ 64 * 1 \<le> 2 ^ 64 * unat carry" by (rule mult_le_mono2)
      then have "2 ^ 64 \<le> unat rhat + unat v1" using as by simp
      then have "unat (qhat - 1) * unat v2 \<le> (unat rhat + unat v1) * 2 ^ 64 + unat u2"
        using mult_le_mono [of "unat (qhat - 1)" "2 ^ 64" "unat v2" "2 ^ 64"] unat_u64_less [of "qhat - 1"]
          unat_u64_less [of v2] mult_le_mono1 [of "2 ^ 64" "unat rhat + unat v1" "2 ^ 64"] by linarith
      note close = digit_close [OF hyps(2,3,4) N' this unat_u64_less]
      show ?thesis unfolding unf if_not_P [OF False] if_P [OF c] using close less q1 by linarith
    qed
  qed
qed

section \<open>One step of the division\<close>

lemma bits_Div64_spec:
  assumes "h < y"
  shows "\<exists>q r. bits_Div64 h l y = Inr (q, r) \<and>
    unat q = (unat l + 2 ^ 64 * unat h) div unat y \<and> unat r = (unat l + 2 ^ 64 * unat h) mod unat y"
proof -
  let ?n = "unat l + 2 ^ 64 * unat h"
  have y: "unat h < unat y" using assms by (simp add: word_less_nat_alt)
  then have "0 < unat y" by simp
  have "2 ^ 64 * (unat h + 1) \<le> 2 ^ 64 * unat y" by (intro mult_le_mono2) (use y in simp)
  then have "?n < 2 ^ 64 * unat y" using unat_u64_less [of l] by simp
  then have q: "?n div unat y < 2 ^ 64" using \<open>0 < unat y\<close> by (simp add: div_less_iff_less_mult)
  have r: "?n mod unat y < 2 ^ 64"
    using mod_less_divisor [OF \<open>0 < unat y\<close>, of ?n] unat_u64_less [of y] by linarith
  have "y \<noteq> 0" "\<not> y \<le> h" using assms by auto
  moreover have c: "unat h * 2 ^ 64 + unat l = ?n" by simp
  ultimately show ?thesis unfolding bits_Div64_def Let_def c
    using unat_of_nat_u64 [OF q] unat_of_nat_u64 [OF r] by simp
qed

lemma seg_top:
  assumes "2 \<le> n" "a + n \<le> length xs"
  shows "seg xs a n = seg xs a (n - 2) + (2 ^ 64) ^ (n - 2) * (unat (xs ! (a + n - 2)) + 2 ^ 64 * unat (xs ! (a + n - 1)))"
proof -
  obtain m where m: "n = m + 2" using assms(1) by (metis add.commute le_Suc_ex)
  have "seg xs (a + m) 2 = unat (xs ! (a + m)) + 2 ^ 64 * unat (xs ! Suc (a + m))"
    using assms(2) m seg_Suc_first [of "a + m" xs "Suc 0"] by (simp add: numeral_2_eq_2 seg_one)
  then show ?thesis using seg_add [of a m xs 2] assms(2) by (simp add: m)
qed

lemma knuth_step_spec:
  assumes n: "2 \<le> n" "n \<le> length dn" "j + n < length un" and D: "D = seg dn 0 n" "W = seg un j (Suc n)"
    and unsat: "un ! (j + n) < dn ! (n - 1)"
    and below: "seg un (Suc j) n < D"
  shows "\<exists>un' x. knuth_step dn n j (un, q) = Inr (un', q[j := x]) \<and> unat x = W div D \<and>
    seg un' j (Suc n) = W mod D \<and> length un' = length un \<and> (\<forall>i. i < j \<or> j + n < i \<longrightarrow> un' ! i = un ! i)"
proof -
  let ?P = "(2 ^ 64 :: nat) ^ (n - 2)"
  let ?v1 = "dn ! (n - 1)" and ?v2 = "dn ! (n - 2)" and ?u2 = "un ! (j + n - 2)"
  define N where "N = unat (un ! (j + n - 1)) + 2 ^ 64 * unat (un ! (j + n))"
  have v1: "0 < unat ?v1" using unsat by (metis word_gt_0 not_gr_zero unat_gt_0 word_not_simps(1) word_neq_0_conv)
  obtain q0 r0 where q0: "bits_Div64 (un ! (j + n)) (un ! (j + n - 1)) ?v1 = Inr (q0, r0)"
    "unat q0 = N div unat ?v1" "unat r0 = N mod unat ?v1"
    using bits_Div64_spec [OF unsat] unfolding N_def by blast
  have qhat: "knuth_qhat un dn n j = Inr (q0, r0)"
    unfolding knuth_qhat_def if_not_P [OF unsat [unfolded not_le [symmetric]]] by (rule q0(1))
  have Deq: "D = seg dn 0 (n - 2) + ?P * (unat ?v2 + 2 ^ 64 * unat ?v1)"
    using seg_top [of n 0 dn] n D(1) by simp
  have Dlow: "?P * (unat ?v2 + 2 ^ 64 * unat ?v1) \<le> D" using Deq by simp
  have Dup: "D < ?P * (unat ?v2 + 2 ^ 64 * unat ?v1 + 1)"
    using Deq seg_bound [of dn 0 "n - 2"] by (simp add: algebra_simps)
  have "?P * (2 ^ 64 * 1) \<le> ?P * (unat ?v2 + 2 ^ 64 * unat ?v1)"
    by (intro mult_le_mono2 trans_le_add2 mult_le_mono2) (use v1 in simp)
  from order_trans [OF this Dlow] have DP: "?P * 2 ^ 64 \<le> D" by (simp only: mult_1_right)
  have D0: "0 < D" using DP by (cases "D = 0") auto
  have "seg un j (Suc n) = seg un j (n - 1) + (2 ^ 64) ^ (n - 1) * N"
    using seg_top [of "Suc n" j un] n by (simp add: N_def)
  moreover have "seg un j (n - 1) = seg un j (n - 2) + ?P * unat ?u2"
    using seg_Suc [of j "n - 2" un] n by (simp add: Suc_diff_Suc numeral_2_eq_2)
  moreover have "(2 ^ 64) ^ (n - 1) = ?P * (2 ^ 64 :: nat)"
    using n(1) by (simp add: Suc_diff_Suc numeral_2_eq_2 flip: power_Suc2)
  ultimately have Weq: "W = seg un j (n - 2) + ?P * (unat ?u2 + 2 ^ 64 * N)"
    by (simp add: D(2) algebra_simps)
  have Wlow: "?P * (unat ?u2 + 2 ^ 64 * N) \<le> W" using Weq by simp
  have Wup: "W < ?P * (unat ?u2 + 2 ^ 64 * N + 1)"
    using Weq seg_bound [of un j "n - 2"] by (simp add: algebra_simps)
  have est: "W div D \<le> unat q0"
    unfolding q0(2) by (rule digit_estimate_init [OF Dlow Wup unat_u64_less v1])
  have "N = unat q0 * unat ?v1 + unat r0" unfolding q0(2,3) by simp
  note refine = knuth_refine_correct [OF Dlow Dup DP Wlow Wup this est]
  obtain un' x where s: "knuth_subtract dn n j (knuth_refine ?v1 ?v2 ?u2 q0 r0) un = (un', x)" by fastforce
  from knuth_subtract_spec [OF n(2,3) D(1) D0 D(2) _ _ s] refine
  have "unat x = W div D \<and> seg un' j (Suc n) = W mod D \<and> length un' = length un \<and>
    (\<forall>i. i < j \<or> j + n < i \<longrightarrow> un' ! i = un ! i)" by blast
  moreover have "knuth_step dn n j (un, q) = Inr (un', q[j := x])"
    using qhat s by (simp add: knuth_step_def Let_def)
  ultimately show ?thesis by blast
qed

section \<open>The loop\<close>

text \<open>
  No step of the run meets a leading dividend limb that is not below the divisor's: the branch of
  the code that takes the largest digit for the estimate is never used.
\<close>

fun knuth_unsaturated :: "u64 list \<Rightarrow> nat \<Rightarrow> nat list \<Rightarrow> u64 list \<times> u64 list \<Rightarrow> bool" where
  "knuth_unsaturated dn n [] s = True"
| "knuth_unsaturated dn n (j # js) s =
     (fst s ! (j + n) < dn ! (n - 1) \<and>
      (case knuth_step dn n j s of Inl _ \<Rightarrow> False | Inr s' \<Rightarrow> knuth_unsaturated dn n js s'))"

lemma wval_update:
  "j < length q \<Longrightarrow> q ! j = 0 \<Longrightarrow> wval (q[j := x]) = wval q + (2 ^ 64) ^ j * unat (x :: u64)"
proof (induction q arbitrary: j)
  case (Cons w q)
  show ?case
  proof (cases j)
    case (Suc i)
    then have "wval (q[i := x]) = wval q + (2 ^ 64) ^ i * unat x" using Cons by simp
    then show ?thesis by (simp add: Suc distrib_left)
  qed (use Cons.prems in simp)
qed simp

lemma knuth_loop_spec:
  assumes "2 \<le> n" "n \<le> length dn" "D = seg dn 0 n"
  shows "m + n \<le> 5 \<Longrightarrow> length un = 5 \<Longrightarrow> length q = 4 \<Longrightarrow> seg un m (5 - m) < D \<Longrightarrow> \<forall>i < m. q ! i = 0 \<Longrightarrow>
    knuth_unsaturated dn n (rev [0..<m]) (un, q) \<Longrightarrow>
    \<exists>un' q'. knuth_loop dn n (rev [0..<m]) (un, q) = Inr (un', q') \<and> length un' = 5 \<and> length q' = 4 \<and>
      wval un + D * wval q = wval un' + D * wval q' \<and> wval un' < D"
proof (induction m arbitrary: un q)
  case 0
  then show ?case using seg_all [of un] by simp
next
  case (Suc j)
  let ?B = "(2 ^ 64 :: nat)"
  let ?W = "seg un j (Suc n)"
  have jn: "j + n < 5" using Suc.prems(1) by simp
  have upper: "seg un (Suc j) n < D \<and> seg un (Suc j + n) (4 - j - n) = 0"
  proof -
    have "5 - Suc j = n + (4 - j - n)" using jn by simp
    then have e: "seg un (Suc j) (5 - Suc j) = seg un (Suc j) n + ?B ^ n * seg un (Suc j + n) (4 - j - n)"
      using seg_add [of "Suc j" n un "4 - j - n"] Suc.prems(2) jn by simp
    have "?B ^ n * seg un (Suc j + n) (4 - j - n) < ?B ^ n * 1"
      using Suc.prems(4) e seg_bound [of dn 0 n] assms(3) by linarith
    then have "seg un (Suc j + n) (4 - j - n) = 0" by (simp only: mult_less_cancel1) simp
    with e Suc.prems(4) show ?thesis by simp
  qed
  have unsat: "un ! (j + n) < dn ! (n - 1)" using Suc.prems(6) by simp
  have jl: "j + n < length un" and below: "seg un (Suc j) n < D" using jn Suc.prems(2) upper by simp_all
  from knuth_step_spec [OF assms(1,2) jl assms(3) refl unsat below, of q]
  obtain un1 x where s: "knuth_step dn n j (un, q) = Inr (un1, q[j := x])" "unat x = ?W div D"
    "seg un1 j (Suc n) = ?W mod D" "length un1 = length un" "\<forall>i. i < j \<or> j + n < i \<longrightarrow> un1 ! i = un ! i" by blast
  have five: "5 - j = Suc n + (4 - j - n)" using jn by simp
  have rest: "seg un1 (j + Suc n) (4 - j - n) = 0"
    using upper seg_cong [of un1 un "j + Suc n" "4 - j - n"] s(4,5) by simp
  have un1: "seg un1 j (5 - j) = ?W mod D"
    unfolding five using seg_add [of j "Suc n" un1 "4 - j - n"] s(3,4) Suc.prems(2) jn rest by simp
  have un: "seg un j (5 - j) = ?W"
    unfolding five using seg_add [of j "Suc n" un "4 - j - n"] Suc.prems(2) jn upper by simp
  have low: "seg un1 0 j = seg un 0 j" using s(4,5) by (intro seg_cong) auto
  have vals: "wval xs = seg xs 0 j + ?B ^ j * seg xs j (5 - j)" if "length xs = 5" for xs
    using seg_add [of 0 j xs "5 - j"] seg_all [of xs] that jn by simp
  have "wval un = seg un 0 j + ?B ^ j * (?W div D * D + ?W mod D)"
    using vals [OF Suc.prems(2)] un by simp
  also have "\<dots> = (seg un 0 j + ?B ^ j * (?W mod D)) + ?B ^ j * (?W div D) * D"
    by (simp only: distrib_left add.assoc mult.assoc add.commute)
  also have "seg un 0 j + ?B ^ j * (?W mod D) = wval un1"
    using vals [of un1] s(4) un1 low Suc.prems(2) by simp
  also have "?W div D = unat x" using s(2) by simp
  finally have v: "wval un = wval un1 + ?B ^ j * unat x * D" .
  have q1: "wval (q[j := x]) = wval q + ?B ^ j * unat x"
    using Suc.prems(1,3,5) assms(1) by (intro wval_update) auto
  have "0 < D" using Suc.prems(4) by simp
  then have lt: "seg un1 j (5 - j) < D" unfolding un1 by simp
  have "knuth_unsaturated dn n (rev [0..<j]) (un1, q[j := x])" using Suc.prems(6) s(1) by simp
  from Suc.IH [OF _ _ _ lt _ this] Suc.prems s(4)
  obtain un' q' where r: "knuth_loop dn n (rev [0..<j]) (un1, q[j := x]) = Inr (un', q')" "length un' = 5"
    "length q' = 4" "wval un1 + D * wval (q[j := x]) = wval un' + D * wval q'" "wval un' < D" by auto
  have "wval un + D * wval q = wval un1 + D * wval (q[j := x])"
    unfolding v q1 by (simp add: algebra_simps)
  with r s(1) show ?case by auto
qed

section \<open>Normalisation\<close>

lemma bit_len_bounds: "0 < n \<Longrightarrow> 0 < bit_len n \<and> 2 ^ (bit_len n - 1) \<le> n \<and> n < 2 ^ bit_len n"
proof (induction n rule: bit_len.induct)
  case (1 n)
  show ?case
  proof (cases "n div 2 = 0")
    case True
    then have "n = 1" using "1.prems" by simp
    then show ?thesis by (subst (1 2 3) bit_len.simps) (simp add: bit_len.simps)
  next
    case False
    then have IH: "0 < bit_len (n div 2)" "2 ^ (bit_len (n div 2) - 1) \<le> n div 2" "n div 2 < 2 ^ bit_len (n div 2)"
      using "1.IH" "1.prems" by auto
    have e: "bit_len n = Suc (bit_len (n div 2))" using "1.prems" by (subst bit_len.simps) simp
    have "2 ^ bit_len (n div 2) = 2 * (2 :: nat) ^ (bit_len (n div 2) - 1)"
      using IH(1) by (simp flip: power_Suc)
    then show ?thesis unfolding e using IH(2,3) by simp linarith
  qed
qed

lemma LeadingZeros64_spec:
  assumes "x \<noteq> 0" defines "s \<equiv> bits_LeadingZeros64 x"
  shows "s \<le> 63" "2 ^ 63 \<le> unat x * 2 ^ s" "unat x * 2 ^ s < 2 ^ 64"
proof -
  let ?b = "bit_len (unat x)"
  have x: "0 < unat x" using assms(1) by (simp add: unat_gt_0)
  note b = bit_len_bounds [OF x]
  have "?b \<le> 64"
  proof (rule ccontr)
    assume "\<not> ?b \<le> 64"
    then have "(2 :: nat) ^ 64 \<le> 2 ^ (?b - 1)" by (intro power_increasing) simp_all
    then show False using b unat_u64_less [of x] by linarith
  qed
  then have s: "s = 64 - ?b" "?b + s = 64" by (simp_all add: s_def bits_LeadingZeros64_def)
  then show "s \<le> 63" using b by simp
  have "unat x * 2 ^ s < 2 ^ ?b * 2 ^ s" using b by simp
  then show "unat x * 2 ^ s < 2 ^ 64" unfolding power_add [symmetric] s(2) .
  have "(2 :: nat) ^ (?b - 1) * 2 ^ s \<le> unat x * 2 ^ s" using b by simp
  moreover have "?b - 1 + s = 63" using s(2) b by simp
  ultimately show "2 ^ 63 \<le> unat x * 2 ^ s" unfolding power_add [symmetric] by simp
qed

lemma shl_limb:
  fixes a b :: u64
  assumes "s < 64"
  shows "unat (push_bit s a OR drop_bit (64 - s) b) = unat a * 2 ^ s mod 2 ^ 64 + unat b * 2 ^ s div 2 ^ 64"
proof -
  have "push_bit s a OR drop_bit (64 - s) b = push_bit s a + drop_bit (64 - s) b"
    by (rule disjunctive_add [symmetric]) (auto simp: bit_push_bit_iff bit_drop_bit_eq dest: bit_imp_le_length)
  moreover have p: "unat (push_bit s a) = unat a * 2 ^ s mod 2 ^ 64"
    unfolding unsigned_push_bit_eq by (simp add: push_bit_eq_mult take_bit_eq_mod)
  moreover have d: "unat (drop_bit (64 - s) b) = unat b * 2 ^ s div 2 ^ 64"
  proof -
    have e: "(2 :: nat) ^ 64 = 2 ^ (64 - s) * 2 ^ s" using assms by (simp flip: power_add)
    have "unat (drop_bit (64 - s) b) = unat b div 2 ^ (64 - s)"
      by (subst unat_drop_bit_eq) (rule drop_bit_eq_div)
    also have "\<dots> = unat b * 2 ^ s div (2 ^ (64 - s) * 2 ^ s)" by simp
    finally show ?thesis unfolding e .
  qed
  moreover have "unat a * 2 ^ s mod 2 ^ 64 + unat b * 2 ^ s div 2 ^ 64 < 2 ^ 64"
  proof -
    have e: "(2 :: nat) ^ 64 = 2 ^ s * 2 ^ (64 - s)" using assms by (simp flip: power_add)
    have "unat a * 2 ^ s mod 2 ^ 64 = 2 ^ s * (unat a mod 2 ^ (64 - s))"
      unfolding e by (metis mult.commute mult_mod_right)
    moreover have "2 ^ s * (unat a mod 2 ^ (64 - s) + 1) \<le> 2 ^ s * (2 ^ (64 - s) :: nat)"
      by (intro mult_le_mono2) (simp add: Suc_le_eq)
    moreover have "unat b * 2 ^ s div 2 ^ 64 < 2 ^ s"
    proof -
      have "2 ^ s * unat b < 2 ^ s * (2 ^ 64 :: nat)"
        by (rule mult_strict_left_mono [OF unat_u64_less]) simp
      then show ?thesis by (simp only: mult.commute div_less_iff_less_mult zero_less_power zero_less_numeral)
    qed
    ultimately show ?thesis unfolding e [symmetric] distrib_left by simp
  qed
  ultimately show ?thesis by (simp add: unat_word_ariths)
qed

text \<open>Shifting a row of limbs to the left, and back.\<close>

lemma seg_shl:
  assumes "k \<le> length xs" "k \<le> length ys"
    "\<And>i. i < k \<Longrightarrow> unat (ys ! i) =
      unat (xs ! i) * 2 ^ s mod 2 ^ 64 + (if i = 0 then 0 else unat (xs ! (i - 1)) * 2 ^ s div 2 ^ 64)"
  shows "seg ys 0 k + (2 ^ 64) ^ k * (if k = 0 then 0 else unat (xs ! (k - 1)) * 2 ^ s div 2 ^ 64) = seg xs 0 k * 2 ^ s"
  using assms
proof (induction k)
  case (Suc k)
  let ?B = "(2 ^ 64 :: nat)" and ?x = "unat (xs ! k) * 2 ^ s"
  let ?c = "if k = 0 then 0 else unat (xs ! (k - 1)) * 2 ^ s div 2 ^ 64"
  have IH: "seg ys 0 k + ?B ^ k * ?c = seg xs 0 k * 2 ^ s" using Suc by simp
  have ys: "seg ys 0 (Suc k) = seg ys 0 k + ?B ^ k * (?x mod ?B + ?c)"
    using Suc.prems by (simp add: seg_Suc)
  have xs: "seg xs 0 (Suc k) = seg xs 0 k + ?B ^ k * unat (xs ! k)"
    using Suc.prems by (simp add: seg_Suc)
  have "?B ^ k * (?x mod ?B) + ?B ^ Suc k * (?x div ?B) = ?B ^ k * (?x mod ?B + ?B * (?x div ?B))"
    by (simp only: distrib_left power_Suc mult.assoc mult.left_commute)
  also have "?x mod ?B + ?B * (?x div ?B) = ?x" by (rule mod_mult_div_eq)
  finally have "?B ^ k * (?x mod ?B) + ?B ^ Suc k * (?x div ?B) = ?B ^ k * unat (xs ! k) * 2 ^ s"
    by (simp only: mult.assoc)
  then show ?case unfolding xs ys distrib_left distrib_right using IH by simp
qed simp

lemma seg_shr:
  assumes s: "s \<le> 64"
    and "a + k \<le> length xs" "a + k \<le> length ys"
    "\<And>i. a \<le> i \<Longrightarrow> i < a + k \<Longrightarrow> unat (ys ! i) =
      unat (xs ! i) div 2 ^ s + (if Suc i = a + k then 0 else unat (xs ! Suc i) * 2 ^ (64 - s) mod 2 ^ 64)"
  shows "seg ys a k = seg xs a k div 2 ^ s"
  using assms(2-)
proof (induction k arbitrary: a)
  case (Suc k)
  let ?B = "(2 ^ 64 :: nat)" and ?S = "seg xs (Suc a) k"
  let ?c = "if k = 0 then 0 else unat (xs ! Suc a) * 2 ^ (64 - s) mod 2 ^ 64"
  have e: "?B = 2 ^ s * 2 ^ (64 - s)" using s by (simp flip: power_add)
  have IH: "seg ys (Suc a) k = ?S div 2 ^ s" using Suc.prems by (intro Suc.IH) simp_all
  have "?c = 2 ^ (64 - s) * (?S mod 2 ^ s)"
  proof (cases k)
    case (Suc m)
    have "?S = unat (xs ! Suc a) + ?B * seg xs (Suc (Suc a)) m"
      using Suc Suc.prems(1) by (simp add: seg_Suc_first)
    then have "?S mod 2 ^ s = unat (xs ! Suc a) mod 2 ^ s" unfolding e by (simp only: mult.assoc mod_mult_self2)
    then show ?thesis using Suc unfolding e by (simp add: mult.commute [of "unat (xs ! Suc a)"] mult.commute [of "2 ^ s"] flip: mult_mod_right)
  qed simp
  then have c: "?c + ?B * (?S div 2 ^ s) = 2 ^ (64 - s) * ?S"
    by (simp only: mult.commute [of "2 ^ s"] e mult.assoc flip: distrib_left) (simp only: mult.commute [of _ "2 ^ s"] mod_mult_div_eq)
  have "seg ys a (Suc k) = unat (xs ! a) div 2 ^ s + (?c + ?B * (?S div 2 ^ s))"
    using Suc.prems IH by (simp add: seg_Suc_first)
  also have "\<dots> = (unat (xs ! a) + ?B * ?S) div 2 ^ s"
    unfolding c unfolding e by (simp add: mult.assoc)
  finally show ?case using Suc.prems by (simp add: seg_Suc_first)
qed simp

text \<open>The two arrays of the code hold the divisor and the dividend times \<open>2 ^ shift\<close>.\<close>

lemma u256word_limbs: "i < 4 \<Longrightarrow> u256word d i = limbs d ! i"
  by (auto simp: u256word_def limbs_def less_Suc_eq numeral_eq_Suc)

lemma unat_push_bit_u64: "unat (push_bit s (a :: u64)) = unat a * 2 ^ s mod 2 ^ 64"
  unfolding unsigned_push_bit_eq by (simp add: push_bit_eq_mult take_bit_eq_mod)

lemma knuth_dn_limb:
  assumes "s < 64" "n \<le> 4" "i < n"
  shows "unat (knuth_dn d n s ! i) =
    unat (limbs d ! i) * 2 ^ s mod 2 ^ 64 + (if i = 0 then 0 else unat (limbs d ! (i - 1)) * 2 ^ s div 2 ^ 64)"
proof (cases "s = 0")
  case True
  then show ?thesis
    using assms unat_u64_less [of "limbs d ! i"] unat_u64_less [of "limbs d ! (i - 1)"]
    by (simp add: knuth_dn_def u256word_limbs del: unsigned_less)
next
  case False
  have i: "i < 4" using assms by simp
  show ?thesis
  proof (cases "i = 0")
    case True
    then show ?thesis using assms False unat_push_bit_u64 [of s "lo d"]
      by (simp add: knuth_dn_def limbs_def)
  next
    case i0: False
    have "knuth_dn d n s ! i = push_bit s (limbs d ! i) OR drop_bit (64 - s) (limbs d ! (i - 1))"
      using i i0 assms(3) False by (simp add: knuth_dn_def u256word_limbs)
    then show ?thesis using shl_limb [OF assms(1), of "limbs d ! i" "limbs d ! (i - 1)"] i0 by simp
  qed
qed

lemma shl_zero: "unat (a :: u64) * 2 ^ 0 mod 2 ^ 64 = unat a" "unat a * 2 ^ 0 div 2 ^ 64 = 0"
  using unat_u64_less [of a] by simp_all

lemma knuth_un_limb:
  assumes "s < 64" "i < 4"
  shows "unat (knuth_un u s ! i) =
    unat (limbs u ! i) * 2 ^ s mod 2 ^ 64 + (if i = 0 then 0 else unat (limbs u ! (i - 1)) * 2 ^ s div 2 ^ 64)"
proof (cases "s = 0")
  case True
  have "knuth_un u s = limbs u @ [0]" using True by (simp add: knuth_un_def limbs_def)
  then show ?thesis unfolding True shl_zero using assms(2) by (simp only: nth_append length_limbs) simp
next
  case False
  consider "i = 0" | "i = 1" | "i = 2" | "i = 3" using assms(2) by linarith
  then show ?thesis
    using False unat_push_bit_u64 [of s "lo u"] shl_limb [OF assms(1), of "limbs u ! i" "limbs u ! (i - 1)"]
    by cases (simp_all add: knuth_un_def limbs_def)
qed

lemma knuth_un_top: "s < 64 \<Longrightarrow> unat (knuth_un u s ! 4) = unat (hi u) * 2 ^ s div 2 ^ 64"
proof (cases "s = 0")
  case False
  assume s: "s < 64"
  have e: "(2 :: nat) ^ 64 = 2 ^ (64 - s) * 2 ^ s" using s by (simp flip: power_add)
  have "unat (drop_bit (64 - s) (hi u)) = unat (hi u) div 2 ^ (64 - s)"
    by (subst unat_drop_bit_eq) (rule drop_bit_eq_div)
  also have "\<dots> = unat (hi u) * 2 ^ s div (2 ^ (64 - s) * 2 ^ s)" by simp
  finally show ?thesis unfolding e using False by (simp add: knuth_un_def)
qed (use unat_u64_less [of "hi u"] in \<open>simp add: knuth_un_def\<close>)

lemma length_knuth_un [simp]: "length (knuth_un u s) = 5"
  by (simp add: knuth_un_def)

lemma length_knuth_dn [simp]: "length (knuth_dn d n s) = 4"
  by (simp add: knuth_dn_def)

lemma val_limbs_seg: "val a = seg (limbs a) 0 4"
  using seg_all [of "limbs a"] by (simp add: val_def)

lemma knuth_un_value:
  assumes "s < 64" shows "wval (knuth_un u s) = val u * 2 ^ s"
proof -
  let ?B = "(2 ^ 64 :: nat)" and ?un = "knuth_un u s"
  have "seg ?un 0 4 + ?B ^ 4 * (if (4 :: nat) = 0 then 0 else unat (limbs u ! (4 - 1)) * 2 ^ s div 2 ^ 64) = seg (limbs u) 0 4 * 2 ^ s"
    by (rule seg_shl [of 4 "limbs u" ?un s, OF _ _ knuth_un_limb [OF assms]]) simp_all
  moreover have "wval ?un = seg ?un 0 4 + ?B ^ 4 * unat (?un ! 4)"
    using seg_all [of ?un] seg_Suc [of 0 4 ?un] by simp
  moreover have "limbs u ! (4 - 1) = hi u" by (simp add: limbs_def)
  ultimately show ?thesis unfolding val_limbs_seg using knuth_un_top [OF assms, of u] by simp
qed

lemma knuth_dLen_range: "2 \<le> knuth_dLen d" "knuth_dLen d \<le> 4"
  by (auto simp: knuth_dLen_def)

lemma knuth_dLen_top:
  assumes "ml d \<noteq> 0 \<or> mh d \<noteq> 0 \<or> hi d \<noteq> 0"
  shows "limbs d ! (knuth_dLen d - 1) \<noteq> 0" "val d = seg (limbs d) 0 (knuth_dLen d)"
  using assms by (auto simp: knuth_dLen_def limbs_def val_eq seg_def)

lemma length_knuth_unnormalize [simp]: "length (knuth_unnormalize un n s) = 4"
  by (simp add: knuth_unnormalize_def)

lemma unat_drop_bit_u64: "unat (drop_bit s (a :: u64)) = unat a div 2 ^ s"
  by (subst unat_drop_bit_eq) (rule drop_bit_eq_div)

lemma knuth_unnormalize_limb:
  assumes "s < 64" "n \<le> 4" "i < n"
  shows "unat (knuth_unnormalize un n s ! i) =
    unat (un ! i) div 2 ^ s + (if Suc i = n then 0 else unat (un ! Suc i) * 2 ^ (64 - s) mod 2 ^ 64)"
proof -
  have i: "i < 4" using assms by simp
  consider "s = 0" | "s \<noteq> 0" "Suc i = n" | "s \<noteq> 0" "Suc i < n" using assms(3) by linarith
  then show ?thesis
  proof cases
    case 1
    then show ?thesis using i assms(3) by (simp add: knuth_unnormalize_def)
  next
    case 2
    then have "knuth_unnormalize un n s ! i = drop_bit s (un ! i)"
      using i by (auto simp: knuth_unnormalize_def)
    then show ?thesis using 2 unat_drop_bit_u64 by simp
  next
    case 3
    have "knuth_unnormalize un n s ! i = push_bit (64 - s) (un ! Suc i) OR drop_bit (64 - (64 - s)) (un ! i)"
      using i 3 assms(1) less_diff_conv [of i n 1] by (simp add: knuth_unnormalize_def or.commute)
    then have "unat (knuth_unnormalize un n s ! i) =
        unat (un ! Suc i) * 2 ^ (64 - s) mod 2 ^ 64 + unat (un ! i) * 2 ^ (64 - s) div 2 ^ 64"
      using shl_limb [of "64 - s" "un ! Suc i" "un ! i"] 3(1) assms(1) by simp
    moreover have "unat (un ! i) * 2 ^ (64 - s) div 2 ^ 64 = unat (un ! i) div 2 ^ s"
    proof -
      have e: "(2 :: nat) ^ 64 = 2 ^ s * 2 ^ (64 - s)" using assms(1) by (simp flip: power_add)
      show ?thesis unfolding e by simp
    qed
    ultimately show ?thesis using 3 by simp
  qed
qed

lemma wval_zeros: "wval (replicate k (0 :: u64)) = 0"
  by (induction k) simp_all

lemma knuth_unnormalize_value:
  assumes "s < 64" "2 \<le> n" "n \<le> 4" "length un = 5" "wval un < (2 ^ 64) ^ n"
  shows "wval (knuth_unnormalize un n s) = wval un div 2 ^ s"
proof -
  let ?B = "(2 ^ 64 :: nat)" and ?r = "knuth_unnormalize un n s"
  have "seg ?r 0 n = seg un 0 n div 2 ^ s"
    by (rule seg_shr) (use assms in \<open>simp_all add: knuth_unnormalize_limb del: unsigned_less\<close>)
  moreover have "wval un = seg un 0 n"
  proof -
    have e: "wval un = seg un 0 n + ?B ^ n * seg un n (5 - n)"
      using seg_add [of 0 n un "5 - n"] seg_all [of un] assms(3,4) by simp
    then have "?B ^ n * seg un n (5 - n) < ?B ^ n * 1" using assms(5) by linarith
    then have "seg un n (5 - n) = 0" by (simp only: mult_less_cancel1) simp
    with e show ?thesis by simp
  qed
  moreover have "wval ?r = seg ?r 0 n"
  proof -
    have e: "wval ?r = seg ?r 0 n + ?B ^ n * seg ?r n (4 - n)"
      using seg_add [of 0 n ?r "4 - n"] seg_all [of ?r] assms(3) by simp
    have "drop n ?r = replicate (4 - n) 0"
      using assms(3) by (intro nth_equalityI) (simp_all add: knuth_unnormalize_def)
    then have "seg ?r n (4 - n) = wval (replicate (4 - n) (0 :: u64))" by (simp add: seg_def)
    also have "\<dots> = 0" by (rule wval_zeros)
    finally show ?thesis using e by simp
  qed
  ultimately show ?thesis by simp
qed

text \<open>The normalised divisor: its value, and a leading limb with the top bit set.\<close>

lemma knuth_shift_spec:
  assumes "2 ^ 64 \<le> val d" defines "n \<equiv> knuth_dLen d" and "s \<equiv> knuth_shift d"
  shows "s \<le> 63" "seg (knuth_dn d n s) 0 n = val d * 2 ^ s" "2 ^ 63 \<le> unat (knuth_dn d n s ! (n - 1))"
proof -
  let ?B = "(2 ^ 64 :: nat)"
  have "ml d \<noteq> 0 \<or> mh d \<noteq> 0 \<or> hi d \<noteq> 0"
  proof (rule ccontr)
    assume "\<not> ?thesis"
    then show False using assms(1) unat_u64_less [of "lo d"] by (simp add: val_eq)
  qed
  note top = knuth_dLen_top [OF this, folded n_def]
  have n: "2 \<le> n" "n \<le> 4" unfolding n_def by (rule knuth_dLen_range)+
  have "s = bits_LeadingZeros64 (limbs d ! (n - 1))"
    using n by (simp add: s_def n_def knuth_shift_def u256word_limbs)
  note lz = LeadingZeros64_spec [OF top(1), folded this]
  show s: "s \<le> 63" by (rule lz)
  then have s': "s < 64" by simp
  let ?x = "unat (limbs d ! (n - 1)) * 2 ^ s"
  have m: "?x mod ?B = ?x" "?x div ?B = 0" using lz(3) by (simp_all only: mod_less div_less)
  have "seg (knuth_dn d n s) 0 n + ?B ^ n * (if n = 0 then 0 else ?x div ?B) = seg (limbs d) 0 n * 2 ^ s"
    by (rule seg_shl [OF _ _ knuth_dn_limb [OF s' n(2)]]) (use n in simp_all)
  then show "seg (knuth_dn d n s) 0 n = val d * 2 ^ s" unfolding m top(2) by simp
  have "unat (knuth_dn d n s ! (n - 1)) \<ge> ?x"
    using knuth_dn_limb [OF s' n(2), of "n - 1" d] n m(1) by simp
  with lz(2) show "2 ^ 63 \<le> unat (knuth_dn d n s ! (n - 1))" by linarith
qed

section \<open>The quotient and the remainder\<close>

text \<open>
  The rounds of Algorithm D for a given division none of which meets a leading limb that
  is not below the divisor's: the case in which the code estimates the digit by a division.
\<close>

definition lu256_unsaturated :: "LUint256 \<Rightarrow> LUint256 \<Rightarrow> bool" where
  "lu256_unsaturated u d =
     (let n = knuth_dLen d; s = knuth_shift d
      in knuth_unsaturated (knuth_dn d n s) n (rev [0..<5 - n]) (knuth_un u s, [0, 0, 0, 0]))"

lemma knuth_un_below:
  assumes "2 ^ 64 \<le> val d" defines "n \<equiv> knuth_dLen d" and "s \<equiv> knuth_shift d"
  shows "seg (knuth_un u s) (5 - n) n < val d * 2 ^ s"
proof -
  let ?B = "(2 ^ 64 :: nat)" and ?un = "knuth_un u s" and ?dn = "knuth_dn d n s"
  have n: "2 \<le> n" "n \<le> 4" unfolding n_def by (rule knuth_dLen_range)+
  note sh = knuth_shift_spec [OF assms(1), folded n_def s_def]
  have s64: "s < 64" using sh(1) by simp
  have "wval ?un < ?B ^ 4 * 2 ^ 63"
  proof -
    have "val u * 2 ^ s < ?B ^ 4 * 2 ^ s" using val_less [of u] by simp
    also have "\<dots> \<le> ?B ^ 4 * 2 ^ 63" using sh(1) by (intro mult_le_mono2 power_increasing) simp_all
    finally show ?thesis unfolding knuth_un_value [OF s64] .
  qed
  moreover have "wval ?un = seg ?un 0 (5 - n) + ?B ^ (5 - n) * seg ?un (5 - n) n"
    using seg_add [of 0 "5 - n" ?un n] seg_all [of ?un] n by simp
  ultimately have "?B ^ (5 - n) * seg ?un (5 - n) n < ?B ^ 4 * 2 ^ 63" by linarith
  moreover have "?B ^ 4 = ?B ^ (5 - n) * ?B ^ (n - 1)" using n by (simp only: flip: power_add) simp
  ultimately have "?B ^ (5 - n) * seg ?un (5 - n) n < ?B ^ (5 - n) * (?B ^ (n - 1) * 2 ^ 63)" by (simp only: mult.assoc)
  then have "seg ?un (5 - n) n < ?B ^ (n - 1) * 2 ^ 63" by (simp only: mult_less_cancel1)
  also have "\<dots> \<le> ?B ^ (n - 1) * unat (?dn ! (n - 1))" by (rule mult_le_mono2 [OF sh(3)])
  also have "\<dots> \<le> seg ?dn 0 n" using seg_Suc [of 0 "n - 1" ?dn] n by simp
  finally show ?thesis unfolding sh(2) .
qed

lemma u256KnuthD_spec:
  assumes "2 ^ 64 \<le> val d" "lu256_unsaturated u d"
  shows "\<exists>q r. u256KnuthD u d = Inr (q, r) \<and> val u = val d * val q + val r \<and> val r < val d"
proof -
  define n s where "n = knuth_dLen d" and "s = knuth_shift d"
  let ?B = "(2 ^ 64 :: nat)" and ?dn = "knuth_dn d n s" and ?un = "knuth_un u s"
  have n: "2 \<le> n" "n \<le> 4" unfolding n_def by (rule knuth_dLen_range)+
  note sh = knuth_shift_spec [OF assms(1), folded n_def s_def]
  have s64: "s < 64" using sh(1) by simp
  have unsat: "knuth_unsaturated ?dn n (rev [0..<5 - n]) (?un, [0, 0, 0, 0])"
    using assms(2) unfolding lu256_unsaturated_def Let_def n_def s_def .
  have below: "seg ?un (5 - n) (5 - (5 - n)) < seg ?dn 0 n"
    using knuth_un_below [OF assms(1), of u, folded n_def s_def] n sh(2) by simp
  have zeros: "\<forall>i < 5 - n. [0, 0, 0, 0 :: u64] ! i = 0"
  proof (intro allI impI)
    fix i assume "i < 5 - n"
    then have "i = 0 \<or> i = 1 \<or> i = 2" using n by linarith
    then show "[0, 0, 0, 0 :: u64] ! i = 0" by auto
  qed
  from knuth_loop_spec [OF n(1) _ refl _ _ _ below zeros unsat] n
  obtain un q where r: "knuth_loop ?dn n (rev [0..<5 - n]) (?un, [0, 0, 0, 0]) = Inr (un, q)" "length un = 5"
    "length q = 4" "wval ?un + seg ?dn 0 n * wval [0, 0, 0, 0 :: u64] = wval un + seg ?dn 0 n * wval q"
    "wval un < seg ?dn 0 n" by auto
  have e: "val u * 2 ^ s = wval un + val d * wval q * 2 ^ s" "wval un < val d * 2 ^ s"
    using r(4,5) unfolding sh(2) knuth_un_value [OF s64] by simp_all
  have rem: "wval un div 2 ^ s = val u - val d * wval q" "val d * wval q \<le> val u"
  proof -
    have "val d * wval q * 2 ^ s \<le> val u * 2 ^ s" using e(1) by linarith
    then show "val d * wval q \<le> val u" by simp
    have "wval un = (val u - val d * wval q) * 2 ^ s" using e(1) by (simp add: diff_mult_distrib)
    then show "wval un div 2 ^ s = val u - val d * wval q" by simp
  qed
  have "wval un < ?B ^ n" using r(5) seg_bound [of ?dn 0 n] by linarith
  note un = knuth_unnormalize_value [OF s64 n r(2) this]
  let ?q = "of_limbs q" and ?r = "of_limbs (knuth_unnormalize un n s)"
  have "u256KnuthD u d = Inr (?q, ?r)"
    using r(1) unfolding u256KnuthD_def Let_def n_def s_def by simp
  moreover have "val u = val d * val ?q + val ?r"
    using rem un r(3) by (simp add: val_of_limbs)
  moreover have "val ?r < val d"
  proof -
    have "wval un div 2 ^ s < val d" using e(2) by (simp add: div_less_iff_less_mult)
    then show ?thesis using un by (simp add: val_of_limbs)
  qed
  ultimately show ?thesis by blast
qed

text \<open>The first round of the algorithm is never saturated, so a four-limb divisor never is.\<close>

lemma knuth_un_top_less:
  assumes "s \<le> 63" shows "unat (knuth_un u s ! 4) < 2 ^ 63"
proof -
  have "unat (hi u) * 2 ^ s < 2 ^ 64 * 2 ^ s" by (rule mult_strict_right_mono [OF unat_u64_less]) simp
  also have "\<dots> \<le> 2 ^ 64 * 2 ^ 63" using assms by (intro mult_le_mono2 power_increasing) simp_all
  finally have "unat (hi u) * 2 ^ s < 2 ^ 63 * 2 ^ 64" by simp
  then have "unat (hi u) * 2 ^ s div 2 ^ 64 < 2 ^ 63" by (simp only: div_less_iff_less_mult zero_less_power zero_less_numeral)
  then show ?thesis using knuth_un_top [of s u] assms by simp
qed

lemma knuth_qhat_no_panic: "\<exists>x. knuth_qhat un dn n j = Inr x"
  by (auto simp: knuth_qhat_def bits_Div64_def Let_def not_le)

lemma knuth_step_no_panic: "\<exists>s'. knuth_step dn n j s = Inr s'"
proof -
  obtain un q where s: "s = (un, q)" by fastforce
  obtain qhat rhat where "knuth_qhat un dn n j = Inr (qhat, rhat)" using knuth_qhat_no_panic by (metis surj_pair)
  then show ?thesis unfolding s by (simp add: knuth_step_def Let_def split: prod.split)
qed

lemma knuth_loop_no_panic: "\<exists>s'. knuth_loop dn n js s = Inr s'"
proof (induction js arbitrary: s)
  case (Cons j js)
  then show ?case using knuth_step_no_panic [of dn n j s] by auto
qed simp

lemma u256KnuthD_no_panic: "\<exists>x. u256KnuthD u d = Inr x"
  using knuth_loop_no_panic [of "knuth_dn d (knuth_dLen d) (knuth_shift d)" "knuth_dLen d"
      "rev [0..<5 - knuth_dLen d]" "(knuth_un u (knuth_shift d), [0, 0, 0, 0])"]
  by (auto simp: u256KnuthD_def Let_def)

lemma lu256_unsaturated_four:
  assumes "2 ^ 192 \<le> val d" shows "lu256_unsaturated u d"
proof -
  have "hi d \<noteq> 0"
  proof
    assume "hi d = 0"
    then have "val d < 2 ^ 192"
      using unat_u64_less [of "lo d"] unat_u64_less [of "ml d"] unat_u64_less [of "mh d"] by (simp add: val_eq)
    then show False using assms by simp
  qed
  then have n: "knuth_dLen d = 4" by (simp add: knuth_dLen_def)
  have "2 ^ 64 \<le> val d" using assms by simp
  note sh = knuth_shift_spec [OF this, unfolded n]
  have "knuth_un u (knuth_shift d) ! 4 < knuth_dn d 4 (knuth_shift d) ! 3"
    using knuth_un_top_less [OF sh(1), of u] sh(3) by (simp add: word_less_nat_alt)
  moreover obtain s' where "knuth_step (knuth_dn d 4 (knuth_shift d)) 4 0 (knuth_un u (knuth_shift d), [0, 0, 0, 0]) = Inr s'"
    using knuth_step_no_panic by blast
  ultimately show ?thesis by (simp add: lu256_unsaturated_def n)
qed

definition lu256_div_exact :: "LUint256 \<Rightarrow> LUint256 \<Rightarrow> bool" where
  "lu256_div_exact a b \<longleftrightarrow> val b < 2 ^ 64 \<or> 2 ^ 192 \<le> val b \<or> val a \<le> val b \<or> lu256_unsaturated a b"

text \<open>The path for a divisor of one limb: four divisions of two limbs by one.\<close>

lemma bits_Div64_step:
  assumes "h < y"
  shows "\<exists>q r. bits_Div64 h l y = Inr (q, r) \<and> unat h * 2 ^ 64 + unat l = unat q * unat y + unat r \<and> r < y"
proof -
  from bits_Div64_spec [OF assms, of l] obtain q r where d: "bits_Div64 h l y = Inr (q, r)"
    "unat q = (unat l + 2 ^ 64 * unat h) div unat y" "unat r = (unat l + 2 ^ 64 * unat h) mod unat y" by blast
  then have "unat l + 2 ^ 64 * unat h = unat q * unat y + unat r" by simp
  then have "unat h * 2 ^ 64 + unat l = unat q * unat y + unat r" by simp
  moreover have "0 < unat y" using assms by (simp add: word_less_nat_alt)
  ultimately show ?thesis using d by (auto simp: word_less_nat_alt)
qed

lemma lu256DivMod_one_limb:
  assumes "b = LU256 y 0 0 0" "y \<noteq> 0"
  shows "\<exists>q r. bindr (bits_Div64 0 (hi a) (lo b)) (\<lambda>(q3, r).
           bindr (bits_Div64 r (mh a) (lo b)) (\<lambda>(q2, r).
           bindr (bits_Div64 r (ml a) (lo b)) (\<lambda>(q1, r).
           bindr (bits_Div64 r (lo a) (lo b)) (\<lambda>(q0, r).
             Inr (LU256 q0 q1 q2 q3, LU256 r 0 0 0))))) = Inr (q, r) \<and>
      val a = val b * val q + val r \<and> val r < val b"
proof -
  have y: "0 < y" using assms(2) word_gt_0 by blast
  obtain q3 r3 where d3: "bits_Div64 0 (hi a) y = Inr (q3, r3)"
    and e3: "unat (hi a) = unat q3 * unat y + unat r3" and l3: "r3 < y"
    using bits_Div64_step [OF y, of "hi a"] by auto
  obtain q2 r2 where d2: "bits_Div64 r3 (mh a) y = Inr (q2, r2)"
    and e2: "unat r3 * 2 ^ 64 + unat (mh a) = unat q2 * unat y + unat r2" and l2: "r2 < y"
    using bits_Div64_step [OF l3, of "mh a"] by blast
  obtain q1 r1 where d1: "bits_Div64 r2 (ml a) y = Inr (q1, r1)"
    and e1: "unat r2 * 2 ^ 64 + unat (ml a) = unat q1 * unat y + unat r1" and l1: "r1 < y"
    using bits_Div64_step [OF l2, of "ml a"] by blast
  obtain q0 r0 where d0: "bits_Div64 r1 (lo a) y = Inr (q0, r0)"
    and e0: "unat r1 * 2 ^ 64 + unat (lo a) = unat q0 * unat y + unat r0" and l0: "r0 < y"
    using bits_Div64_step [OF l1, of "lo a"] by blast
  have "val a = val b * val (LU256 q0 q1 q2 q3) + val (LU256 r0 0 0 0)"
    using e3 e2 e1 e0 unfolding val_LU256 assms(1) val_eq [of a] by (simp add: algebra_simps)
  then show ?thesis using d3 d2 d1 d0 l0 by (simp add: assms(1) val_LU256 word_less_nat_alt)
qed

lemma lu256DivMod_cases:
  "val b = 0 \<Longrightarrow> lu256DivMod a b = Inl (PMessage ''u256: division by zero'')"
  "val b \<noteq> 0 \<Longrightarrow> val a < val b \<Longrightarrow> lu256DivMod a b = Inr (LUint256Zero, a)"
  "val b \<noteq> 0 \<Longrightarrow> val a = val b \<Longrightarrow> lu256DivMod a b = Inr (LUint256One, LUint256Zero)"
  by (simp_all add: lu256DivMod_def lu256IsZero_val lu256Cmp_val)

lemma one_limb_iff: "hi b = 0 \<and> mh b = 0 \<and> ml b = 0 \<longleftrightarrow> val b < 2 ^ 64"
proof
  show "hi b = 0 \<and> mh b = 0 \<and> ml b = 0 \<Longrightarrow> val b < 2 ^ 64"
    using unat_u64_less [of "lo b"] by (simp add: val_eq)
  assume "val b < 2 ^ 64"
  then have "unat (hi b) = 0" "unat (mh b) = 0" "unat (ml b) = 0" by (simp_all add: val_eq)
  then show "hi b = 0 \<and> mh b = 0 \<and> ml b = 0" by (simp only: unat_eq_zero simp_thms)
qed

lemma lu256DivMod_knuth:
  assumes "\<not> val a \<le> val b" "\<not> val b < 2 ^ 64"
  shows "lu256DivMod a b = u256KnuthD a b"
proof -
  have "val b \<noteq> 0" "\<not> val a < val b" "val a \<noteq> val b" using assms by auto
  then show ?thesis using assms(2) by (simp only: lu256DivMod_def lu256IsZero_val lu256Cmp_val one_limb_iff) simp
qed

lemma lu256DivMod_divides:
  assumes "val b \<noteq> 0" "lu256_div_exact a b"
  shows "\<exists>q r. lu256DivMod a b = Inr (q, r) \<and> val q = val a div val b \<and> val r = val a mod val b"
proof -
  have "\<exists>q r. lu256DivMod a b = Inr (q, r) \<and> val a = val b * val q + val r \<and> val r < val b"
  proof (cases "val a \<le> val b")
    case True
    then show ?thesis using assms(1) lu256DivMod_cases(2,3) [of b a] by (cases "val a = val b") auto
  next
    case gt: False
    show ?thesis
    proof (cases "val b < 2 ^ 64")
      case True
      then have z: "hi b = 0" "mh b = 0" "ml b = 0" using one_limb_iff [of b] by blast+
      then have b: "b = LU256 (lo b) 0 0 0" by (cases b) simp
      have l: "lo b \<noteq> 0" using assms(1) z by (auto simp: val_eq)
      have "lu256DivMod a b = bindr (bits_Div64 0 (hi a) (lo b)) (\<lambda>(q3, r).
           bindr (bits_Div64 r (mh a) (lo b)) (\<lambda>(q2, r).
           bindr (bits_Div64 r (ml a) (lo b)) (\<lambda>(q1, r).
           bindr (bits_Div64 r (lo a) (lo b)) (\<lambda>(q0, r).
             Inr (LU256 q0 q1 q2 q3, LU256 r 0 0 0)))))"
      proof -
        have "\<not> val a < val b" "val a \<noteq> val b" using gt by auto
        then show ?thesis using True assms(1) by (simp only: lu256DivMod_def lu256IsZero_val lu256Cmp_val one_limb_iff) simp
      qed
      then show ?thesis using lu256DivMod_one_limb [OF b l, of a] by simp
    next
      case False
      then have "lu256_unsaturated a b"
        using assms(2) gt lu256_unsaturated_four unfolding lu256_div_exact_def by auto
      then show ?thesis using u256KnuthD_spec [of b a] False lu256DivMod_knuth [OF gt False] by simp
    qed
  qed
  then obtain q r where r: "lu256DivMod a b = Inr (q, r)" "val a = val b * val q + val r" "val r < val b" by blast
  have "val a div val b = val q" "val a mod val b = val r"
    unfolding r(2) using r(3) by simp_all
  with r(1) show ?thesis by auto
qed

lemma lu256DivMod_total: "val b \<noteq> 0 \<Longrightarrow> \<exists>x. lu256DivMod a b = Inr x"
  using lu256DivMod_divides [of b a] lu256DivMod_knuth [of a b] u256KnuthD_no_panic [of a b]
  unfolding lu256_div_exact_def by (cases "val a \<le> val b \<or> val b < 2 ^ 64") auto

lemma knuth_refine_zero [simp]: "knuth_refine v1 0 u2 qhat rhat = qhat"
  by (subst knuth_refine.simps) simp

definition sat_dividend :: LUint256 where
  "sat_dividend = LU256 0xFFFFFFFFFFFFFFFF 1 0x8000000000000000 0"

definition sat_divisor :: LUint256 where
  "sat_divisor = LU256 2 0x8000000000000000 0 0"

lemmas sat_eval = bits_Mul64_def bits_Add64_def bits_Sub64_def bits_Div64_def word_le_nat_alt word_less_nat_alt

lemma sat_shift: "knuth_dLen sat_divisor = 2" "knuth_shift sat_divisor = 0"
  by (simp_all add: sat_divisor_def knuth_dLen_def knuth_shift_def u256word_def bits_LeadingZeros64_def bit_len.simps)

lemma sat_refine1: "knuth_refine 0x8000000000000000 2 1 1 0 = 0"
  by (simp add: knuth_refine.simps [of _ 2] sat_eval)

lemma sat_refine2: "knuth_refine 0x8000000000000000 2 0xFFFFFFFFFFFFFFFF 0xFFFFFFFFFFFFFFFF 0 = 0xFFFFFFFFFFFFFFFE"
  by (simp add: knuth_refine.simps [of _ 2] sat_eval)

lemma list_update_numeral [simp]: "(x # xs)[numeral v := y] = x # xs[pred_numeral v := y]"
  by (simp add: numeral_eq_Suc)

lemma upt_limbs: "[0..<2] = [0, 1]" "[0..<3] = [0, 1, 2]" "[0..<4] = [0, 1, 2, 3]"
  by (simp_all add: upt_rec)

lemma unat_all_ones: "unat (- 1 :: u64) = 0xFFFFFFFFFFFFFFFF"
  by (simp add: unsigned_minus_1_eq_mask mask_eq_exp_minus_1)

text \<open>A round whose digit is 0 leaves the dividend as it is.\<close>

lemma knuth_mulsub_0: "fold (knuth_mulsub_body dn 0 j) [0..<k] (un, 0) = (un, 0)"
  by (induction k) (simp_all add: bits_Mul64_def bits_Sub64_def)

lemma knuth_subtract_0: "knuth_subtract dn n j 0 un = (un, 0)"
  by (simp add: knuth_subtract_def knuth_mulsub_def knuth_mulsub_0 bits_Sub64_def)

lemma sat_step2: "knuth_step [2, 0x8000000000000000, 0, 0] 2 2 ([0xFFFFFFFFFFFFFFFF, 1, 0x8000000000000000, 0, 0], [0, 0, 0, 0]) =
   Inr ([0xFFFFFFFFFFFFFFFF, 1, 0x8000000000000000, 0, 0], [0, 0, 0, 0])"
proof -
  have "knuth_refine 0x8000000000000000 2 0x8000000000000000 0 0 = 0"
    by (simp add: knuth_refine.simps [of _ 2] sat_eval)
  then show ?thesis by (simp add: knuth_step_def knuth_qhat_def knuth_subtract_0 sat_eval)
qed

lemma sat_step1: "knuth_step [2, 0x8000000000000000, 0, 0] 2 1 ([0xFFFFFFFFFFFFFFFF, 1, 0x8000000000000000, 0, 0], [0, 0, 0, 0]) =
   Inr ([0xFFFFFFFFFFFFFFFF, 1, 0x8000000000000000, 0, 0], [0, 0, 0, 0])"
  by (simp add: knuth_step_def knuth_qhat_def knuth_subtract_0 sat_refine1 [simplified] sat_eval)

lemma sat_subtract: "knuth_subtract [2, 0x8000000000000000, 0, 0] 2 0 0xFFFFFFFFFFFFFFFE [0xFFFFFFFFFFFFFFFF, 1, 0x8000000000000000, 0, 0] =
   ([3, 0, 1, 0, 0], 0xFFFFFFFFFFFFFFFE)"
proof -
  have "knuth_mulsub_body [2, 0x8000000000000000, 0, 0] 0xFFFFFFFFFFFFFFFE 0 0 ([0xFFFFFFFFFFFFFFFF, 1, 0x8000000000000000, 0, 0], 0) =
      ([3, 1, 0x8000000000000000, 0, 0], 1)"
    by (simp add: sat_eval unat_all_ones)
  moreover have "knuth_mulsub_body [2, 0x8000000000000000, 0, 0] 0xFFFFFFFFFFFFFFFE 0 1 ([3, 1, 0x8000000000000000, 0, 0], 1) =
      ([3, 0, 0x8000000000000000, 0, 0], 0x7FFFFFFFFFFFFFFF)"
    by (simp add: sat_eval)
  ultimately show ?thesis by (simp add: knuth_subtract_def knuth_mulsub_def upt_limbs sat_eval del: knuth_mulsub_body.simps)
qed

lemma sat_step0: "knuth_step [2, 0x8000000000000000, 0, 0] 2 0 ([0xFFFFFFFFFFFFFFFF, 1, 0x8000000000000000, 0, 0], [0, 0, 0, 0]) =
   Inr ([3, 0, 1, 0, 0], [0xFFFFFFFFFFFFFFFE, 0, 0, 0])"
proof -
  have "knuth_qhat [0xFFFFFFFFFFFFFFFF, 1, 0x8000000000000000, 0, 0] [2, 0x8000000000000000, 0, 0] 2 0 = Inr (0xFFFFFFFFFFFFFFFF, 0)"
    by (simp add: knuth_qhat_def)
  then show ?thesis by (simp add: knuth_step_def sat_refine2 sat_subtract)
qed

lemma sat_result: "lu256DivMod sat_dividend sat_divisor = Inr (LU256 0xFFFFFFFFFFFFFFFE 0 0 0, LU256 3 0 0 0)"
proof -
  have "\<not> val sat_dividend \<le> val sat_divisor" "\<not> val sat_divisor < 2 ^ 64"
    by (simp_all add: sat_dividend_def sat_divisor_def val_LU256)
  then have "lu256DivMod sat_dividend sat_divisor = u256KnuthD sat_dividend sat_divisor" by (rule lu256DivMod_knuth)
  moreover have "knuth_dn sat_divisor 2 0 = [2, 0x8000000000000000, 0, 0]"
    by (simp add: knuth_dn_def upt_limbs sat_divisor_def u256word_def)
  moreover have "knuth_un sat_dividend 0 = [0xFFFFFFFFFFFFFFFF, 1, 0x8000000000000000, 0, 0]"
    by (simp add: knuth_un_def sat_dividend_def)
  moreover have "knuth_unnormalize [3, 0, 1, 0, 0] 2 0 = [3, 0, 0, 0]"
    by (simp add: knuth_unnormalize_def upt_limbs)
  moreover note sat_step1 [unfolded One_nat_def]
  ultimately show ?thesis
    by (simp add: u256KnuthD_def sat_shift upt_limbs Let_def sat_step2 sat_step0 of_limbs_def)
qed

section \<open>Signed division\<close>

text \<open>The magnitude the code divides: the value, or its two's complement negation.\<close>

definition magnitudeN :: "nat \<Rightarrow> LUint256 \<Rightarrow> LUint256" where
  "magnitudeN n a = (if sval n a < 0 then lu256NegN a (int n) else a)"

lemma int_less_pow: "int x < 2 ^ n \<longleftrightarrow> x < 2 ^ n"
  by (metis of_nat_less_iff of_nat_numeral of_nat_power)

lemma val_magnitudeN:
  assumes "0 < n" "n \<le> 256" "fitsN n a"
  shows "int (val (magnitudeN n a)) = \<bar>sval n a\<bar>"
proof (cases "sval n a < 0")
  case True
  have "val a < 2 ^ n" using assms(3) by (simp add: fitsN_def)
  then have e: "int (2 ^ n - val a) = 2 ^ n - int (val a)" by simp
  have nl: "\<not> val a < 2 ^ (n - 1)"
    using True sval_fits [OF assms(3)] by (cases "val a < 2 ^ (n - 1)") simp_all
  then have s: "sval n a = int (val a) - 2 ^ n" "0 < val a"
    using sval_fits [OF assms(3)] by (simp, cases "val a") simp_all
  then have "(2 ^ n - val a) mod 2 ^ n = 2 ^ n - val a" by simp
  then show ?thesis using True s e val_NegN [OF assms] by (simp add: magnitudeN_def)
next
  case False
  have "val a < 2 ^ (n - 1)"
  proof (rule ccontr)
    assume "\<not> val a < 2 ^ (n - 1)"
    then have "sval n a = int (val a) - 2 ^ n" using sval_fits [OF assms(3)] by simp
    moreover have "int (val a) < 2 ^ n" using assms(3) int_less_pow unfolding fitsN_def by blast
    ultimately show False using False by simp
  qed
  then show ?thesis using False sval_fits [OF assms(3)] by (simp add: magnitudeN_def)
qed

lemma magnitudeN_le: "0 < n \<Longrightarrow> n \<le> 256 \<Longrightarrow> fitsN n a \<Longrightarrow> val (magnitudeN n a) \<le> 2 ^ (n - 1)"
proof -
  assume a: "0 < n" "n \<le> 256" "fitsN n a"
  have "int (val (magnitudeN n a)) \<le> int (2 ^ (n - 1))"
    using sval_bounds [OF a(1), of a] unfolding val_magnitudeN [OF a] by (auto simp: abs_le_iff)
  then show ?thesis by (simp only: of_nat_le_iff)
qed

text \<open>The value with the sign the code gives it, modulo \<open>2 ^ n\<close>.\<close>

lemma signed_result:
  assumes "0 < n" "n \<le> 256" "val q \<le> 2 ^ (n - 1)"
  shows "int (val (if neg then lu256NegN (lu256MaskN q (int n)) (int n) else lu256MaskN q (int n))) =
    (if neg then - int (val q) else int (val q)) mod 2 ^ n"
proof -
  have "0 < (2 :: nat) ^ (n - 1)" by simp
  then have lt: "val q < 2 ^ n" using assms(3) two_pow_pred [OF assms(1), where 'a = nat] by linarith
  have m: "lu256MaskN q (int n) = q" using lt by (simp add: val_MaskN flip: val_inject)
  have "fitsN n q" using lt by (simp add: fitsN_def)
  from val_NegN [OF assms(1,2) this]
  have "int (val (lu256NegN q (int n))) = int (2 ^ n - val q) mod 2 ^ n" by (simp add: zmod_int)
  also have "int (2 ^ n - val q) = 2 ^ n - int (val q)" using lt by simp
  also have "\<dots> mod 2 ^ n = (- int (val q)) mod 2 ^ n" using mod_add_self1 [of "2 ^ n" "- int (val q)"] by simp
  finally show ?thesis unfolding m using lt int_less_pow [of "val q" n] by simp
qed

lemma signed_magnitudes:
  assumes "0 < n" "n \<le> 256" "fitsN n a" "fitsN n b" "val b \<noteq> 0"
    and "lu256_div_exact (magnitudeN n a) (magnitudeN n b)"
  shows "\<exists>q r. lu256DivMod (magnitudeN n a) (magnitudeN n b) = Inr (q, r) \<and>
    int (val q) = \<bar>sval n a\<bar> div \<bar>sval n b\<bar> \<and> int (val r) = \<bar>sval n a\<bar> mod \<bar>sval n b\<bar> \<and>
    val q \<le> 2 ^ (n - 1) \<and> val r \<le> 2 ^ (n - 1)"
proof -
  note ma = val_magnitudeN [OF assms(1,2,3)] and mb = val_magnitudeN [OF assms(1,2,4)]
  have "sval n b \<noteq> 0" using sval_fits [OF assms(4)] assms(4,5) int_less_pow [of "val b" n]
    by (auto simp: fitsN_def split: if_splits)
  then have "val (magnitudeN n b) \<noteq> 0" using mb by (intro notI) simp
  from lu256DivMod_divides [OF this assms(6)] obtain q r where
    d: "lu256DivMod (magnitudeN n a) (magnitudeN n b) = Inr (q, r)"
      "val q = val (magnitudeN n a) div val (magnitudeN n b)" "val r = val (magnitudeN n a) mod val (magnitudeN n b)" by blast
  have "val q \<le> 2 ^ (n - 1)" "val r \<le> 2 ^ (n - 1)"
    using magnitudeN_le [OF assms(1-3)] d(2,3)
    by (auto intro: order_trans [OF div_le_dividend] order_trans [OF mod_less_eq_dividend])
  then show ?thesis using d ma mb by (auto simp: zdiv_int zmod_int)
qed

lemma lu256SignedDivN_sdiv:
  assumes "0 < n" "n \<le> 256" "fitsN n a" "fitsN n b" "val b \<noteq> 0"
    and "lu256_div_exact (magnitudeN n a) (magnitudeN n b)"
  shows "\<exists>q. lu256SignedDivN a b (int n) = Inr q \<and> int (val q) = (sval n a sdiv sval n b) mod 2 ^ n"
proof -
  from signed_magnitudes [OF assms] obtain q r where d:
    "lu256DivMod (magnitudeN n a) (magnitudeN n b) = Inr (q, r)" "int (val q) = \<bar>sval n a\<bar> div \<bar>sval n b\<bar>"
    "val q \<le> 2 ^ (n - 1)" by blast
  let ?neg = "(sval n a < 0) \<noteq> (sval n b < 0)"
  let ?q = "if ?neg then lu256NegN (lu256MaskN q (int n)) (int n) else lu256MaskN q (int n)"
  have "lu256SignedDivN a b (int n) = Inr ?q"
    using d(1) assms by (simp add: lu256SignedDivN_def lu256BitN_top magnitudeN_def)
  moreover have "int (val ?q) = (sval n a sdiv sval n b) mod 2 ^ n"
  proof -
    have "sval n a sdiv sval n b = (if ?neg then - int (val q) else int (val q))"
      by (auto simp: signed_divide_int_def d(2) sgn_if)
    then show ?thesis by (simp only: signed_result [OF assms(1,2) d(3)])
  qed
  ultimately show ?thesis by blast
qed

lemma lu256SignedModN_smod:
  assumes "0 < n" "n \<le> 256" "fitsN n a" "fitsN n b" "val b \<noteq> 0"
    and "lu256_div_exact (magnitudeN n a) (magnitudeN n b)"
  shows "\<exists>r. lu256SignedModN a b (int n) = Inr r \<and> int (val r) = (sval n a smod sval n b) mod 2 ^ n"
proof -
  from signed_magnitudes [OF assms] obtain q r where d:
    "lu256DivMod (magnitudeN n a) (magnitudeN n b) = Inr (q, r)" "int (val r) = \<bar>sval n a\<bar> mod \<bar>sval n b\<bar>"
    "val r \<le> 2 ^ (n - 1)" by blast
  let ?neg = "sval n a < 0"
  let ?r = "if ?neg then lu256NegN (lu256MaskN r (int n)) (int n) else lu256MaskN r (int n)"
  have "lu256SignedModN a b (int n) = Inr ?r"
    using d(1) assms by (simp add: lu256SignedModN_def lu256BitN_top magnitudeN_def)
  moreover have "int (val ?r) = (sval n a smod sval n b) mod 2 ^ n"
  proof -
    have "sval n a smod sval n b = (if ?neg then - int (val r) else int (val r))"
      by (auto simp: signed_modulo_int_def d(2) sgn_if)
    then show ?thesis by (simp only: signed_result [OF assms(1,2) d(3)])
  qed
  ultimately show ?thesis by blast
qed

section \<open>Properties\<close>

text \<open>C33: unsigned division returns the quotient and the remainder whenever the divisor has one
limb or four, or no round of Algorithm D meets a leading limb that is not below the divisor's.\<close>

theorem uint256_divmod_exact:
  assumes "val b \<noteq> 0" and "lu256_div_exact a b"
  shows "\<exists>q r. lu256DivMod a b = Inr (q, r) \<and> val q = val a div val b \<and> val r = val a mod val b"
  by (rule lu256DivMod_divides [OF assms])

theorem uint256_divmod_exact_witness:
  "\<exists>q r. lu256DivMod (LU256 5 4 3 2) (LU256 7 0 0 1) = Inr (q, r) \<and>
    val q = val (LU256 5 4 3 2) div val (LU256 7 0 0 1) \<and> val r = val (LU256 5 4 3 2) mod val (LU256 7 0 0 1)"
  by (rule uint256_divmod_exact) (simp_all add: lu256_div_exact_def val_LU256)

text \<open>Division panics exactly on a zero divisor, with the message of the code; no run of
Algorithm D reaches one of the panics of \<open>bits.Div64\<close>.\<close>

theorem uint256_divmod_panics:
  "lu256DivMod a b = Inl e \<longleftrightarrow> val b = 0 \<and> e = PMessage ''u256: division by zero''"
  using lu256DivMod_cases(1) [of b a] lu256DivMod_total [of b a] by (cases "val b = 0") auto

text \<open>C34: the result of a division with a saturated digit can be wrong: the remainder estimate 0
set with the largest digit makes the refinement loop lower the digit once too often, and
nothing raises it again.\<close>

theorem uint256_divmod_saturated:
  "\<exists>a b q r. lu256DivMod a b = Inr (q, r) \<and> val b \<noteq> 0 \<and> \<not> lu256_div_exact a b \<and>
     val q + 1 = val a div val b \<and> val a \<noteq> val b * val q + val r"
proof (intro exI conjI)
  show "lu256DivMod sat_dividend sat_divisor = Inr (LU256 0xFFFFFFFFFFFFFFFE 0 0 0, LU256 3 0 0 0)" by (rule sat_result)
  show b: "val sat_divisor \<noteq> 0" by (simp add: sat_divisor_def val_LU256)
  show q: "val (LU256 0xFFFFFFFFFFFFFFFE 0 0 0) + 1 = val sat_dividend div val sat_divisor"
    by (simp add: sat_dividend_def sat_divisor_def val_LU256)
  show "\<not> lu256_div_exact sat_dividend sat_divisor"
    using lu256DivMod_divides [OF b, of sat_dividend] sat_result q by auto
  show "val sat_dividend \<noteq> val sat_divisor * val (LU256 0xFFFFFFFFFFFFFFFE 0 0 0) + val (LU256 3 0 0 0)"
    by (simp add: sat_dividend_def sat_divisor_def val_LU256)
qed

lemma narrow_div_exact:
  assumes "0 < n" "n \<le> 64" "fitsN n b"
  shows "lu256_div_exact a (magnitudeN n b)"
proof -
  have "int (val (magnitudeN n b)) \<le> 2 ^ (n - 1)"
    using val_magnitudeN [OF assms(1) _ assms(3)] sval_bounds [OF assms(1), of b] assms(2) by (simp add: abs_le_iff)
  also have "\<dots> \<le> (2 :: int) ^ 63" using assms(2) by (intro power_increasing) auto
  finally show ?thesis by (simp add: lu256_div_exact_def)
qed

text \<open>C35: signed division and remainder of \<open>n\<close>-bit values truncate toward zero, the remainder with
the sign of the dividend, both modulo \<open>2 ^ n\<close> (the least value divided by -1 is itself): for up to 64
bits always, for more whenever the unsigned division of the magnitudes is exact (\<open>lu256_div_exact\<close>): the
magnitude of the divisor has one limb or four, or is not below that of the dividend, or no round of
Algorithm D saturates its estimate. For magnitudes such as those of \<open>uint256_divmod_saturated\<close> the
condition fails, and the signed results are as wrong as the unsigned ones.\<close>

theorem uint256_signed_divmod:
  assumes "0 < n" "n \<le> 256" "fitsN n a" "fitsN n b" "val b \<noteq> 0"
    and "n \<le> 64 \<or> lu256_div_exact (magnitudeN n a) (magnitudeN n b)"
  shows "\<exists>q r. lu256SignedDivN a b (int n) = Inr q \<and> int (val q) = (sval n a sdiv sval n b) mod 2 ^ n \<and>
    lu256SignedModN a b (int n) = Inr r \<and> int (val r) = (sval n a smod sval n b) mod 2 ^ n"
proof -
  have "lu256_div_exact (magnitudeN n a) (magnitudeN n b)" using assms narrow_div_exact by blast
  with assms show ?thesis using lu256SignedDivN_sdiv lu256SignedModN_smod by blast
qed

theorem uint256_signed_divmod_witness:
  "\<exists>q r. lu256SignedDivN (LU256 249 0 0 0) (LU256 2 0 0 0) (int 8) = Inr q \<and>
      int (val q) = (sval 8 (LU256 249 0 0 0) sdiv sval 8 (LU256 2 0 0 0)) mod 2 ^ 8 \<and>
    lu256SignedModN (LU256 249 0 0 0) (LU256 2 0 0 0) (int 8) = Inr r \<and>
      int (val r) = (sval 8 (LU256 249 0 0 0) smod sval 8 (LU256 2 0 0 0)) mod 2 ^ 8"
  by (rule uint256_signed_divmod) (simp_all add: fitsN_def val_LU256)

lemma val_Shr_1 [simp]: "val (lu256Shr e (Suc 0)) = val e div 2"
proof -
  have "val (lu256Shr e (Suc 0)) = unat (w256 (lu256Shr e (Suc 0)))" by simp
  also have "\<dots> = unat (w256 e) div 2 ^ Suc 0"
    unfolding w256_Shr by (subst unat_drop_bit_eq) (rule drop_bit_eq_div)
  finally show ?thesis by simp
qed

lemma lo_odd: "(lo e AND 1 = 1) = odd (val e)"
proof -
  have "(lo e AND 1 = 1) = bit (lo e) 0" by (simp add: and_one_eq bit_0 odd_iff_mod_2_eq_one)
  also have "\<dots> = bit (unat (lo e)) 0" by (simp add: bit_unsigned_iff)
  also have "\<dots> = odd (val e)" by (simp add: bit_0 val_eq)
  finally show ?thesis .
qed

section \<open>Exponentiation\<close>

text \<open>The loop of \<^verbatim>\<open>lu256Pow\<close>; the exponent is halved in every round.\<close>

function lu256Pow_loop :: "LUint256 \<Rightarrow> LUint256 \<Rightarrow> LUint256 \<Rightarrow> LUint256" where
  "lu256Pow_loop result base exp =
     (if lu256IsZero exp then result
      else lu256Pow_loop (if lo exp AND 1 = 1 then lu256Mul result base else result)
             (lu256Mul base base) (lu256Shr exp 1))"
  by pat_completeness auto
termination by (relation "measure (\<lambda>(result, base, exp). val exp)") (simp_all add: lu256IsZero_val)

declare lu256Pow_loop.simps [simp del]

definition lu256Pow :: "LUint256 \<Rightarrow> LUint256 \<Rightarrow> LUint256" where
  "lu256Pow base exp = (if lu256IsZero exp then LUint256One else lu256Pow_loop LUint256One base exp)"

text \<open>Every multiplication of the loop is one that \<open>lu256Mul\<close> does exactly.\<close>

function pow_carry_free :: "LUint256 \<Rightarrow> LUint256 \<Rightarrow> LUint256 \<Rightarrow> bool" where
  "pow_carry_free result base exp \<longleftrightarrow>
     lu256IsZero exp \<or>
     (odd (val exp) \<longrightarrow> mul_carry_free result base) \<and> (1 < val exp \<longrightarrow> mul_carry_free base base) \<and>
     (1 < val exp \<longrightarrow> pow_carry_free (if odd (val exp) then lu256Mul result base else result) (lu256Mul base base) (lu256Shr exp 1))"
  by pat_completeness auto
termination by (relation "measure (\<lambda>(result, base, exp). val exp)") (simp_all add: lu256IsZero_val)

declare pow_carry_free.simps [simp del]

lemma lu256Pow_loop_power:
  "pow_carry_free r b e \<Longrightarrow> val (lu256Pow_loop r b e) = val r * val b ^ val e mod 2 ^ 256"
proof (induction r b e rule: lu256Pow_loop.induct)
  case (1 r b e)
  let ?m = "2 ^ 256 :: nat"
  let ?r = "if odd (val e) then lu256Mul r b else r"
  note free = "1.prems" [unfolded pow_carry_free.simps [of r b e]]
  consider "val e = 0" | "val e = 1" | "1 < val e" by linarith
  then show ?case
  proof cases
    case 1
    then show ?thesis using val_less [of r] by (simp add: lu256Pow_loop.simps [of r b e] lu256IsZero_val)
  next
    case 2
    have z: "lu256IsZero (lu256Shr e 1)" using 2 by (simp add: lu256IsZero_val)
    have "lu256Pow_loop r b e = lu256Mul r b"
      using 2 z lo_odd [of e] lu256Pow_loop.simps [of "lu256Mul r b" "lu256Mul b b" "lu256Shr e 1"]
      by (simp add: lu256Pow_loop.simps [of r b e] lu256IsZero_val)
    then show ?thesis using 2 free lu256Mul_exact_iff [of r b] by (simp add: lu256IsZero_val)
  next
    case 3
    have rv: "val ?r mod ?m = val r * val b ^ (val e mod 2) mod ?m"
      using 3 free lu256Mul_exact_iff [of r b] by (auto simp: lu256IsZero_val odd_iff_mod_2_eq_one)
    have bv: "val (lu256Mul b b) = val b * val b mod ?m"
      using 3 free lu256Mul_exact_iff [of b b] by (simp add: lu256IsZero_val)
    have "val (lu256Pow_loop ?r (lu256Mul b b) (lu256Shr e 1)) = val ?r * val (lu256Mul b b) ^ val (lu256Shr e 1) mod ?m"
      using "1.IH" 3 free lo_odd [of e] by (simp add: lu256IsZero_val)
    also have "\<dots> = (val ?r mod ?m) * ((val b * val b mod ?m) ^ (val e div 2) mod ?m) mod ?m"
      unfolding bv One_nat_def val_Shr_1 by (rule mod_mult_eq [symmetric])
    also have "(val b * val b mod ?m) ^ (val e div 2) mod ?m = (val b * val b) ^ (val e div 2) mod ?m"
      by (rule power_mod)
    also have "(val ?r mod ?m) * ((val b * val b) ^ (val e div 2) mod ?m) mod ?m =
        (val r * val b ^ (val e mod 2) mod ?m) * ((val b * val b) ^ (val e div 2) mod ?m) mod ?m"
      unfolding rv ..
    also have "\<dots> = val r * val b ^ (val e mod 2) * (val b * val b) ^ (val e div 2) mod ?m"
      by (rule mod_mult_eq)
    also have "(val b * val b) ^ (val e div 2) = val b ^ (2 * (val e div 2))"
      by (simp only: power_mult power2_eq_square)
    also have "val r * val b ^ (val e mod 2) * val b ^ (2 * (val e div 2)) = val r * val b ^ val e"
      by (simp only: mult.assoc flip: power_add) simp
    finally show ?thesis using 3 lo_odd [of e] by (simp add: lu256Pow_loop.simps [of r b e] lu256IsZero_val)
  qed
qed

lemma pow_carry_free_one: "val e = 1 \<Longrightarrow> mul_carry_free r b \<Longrightarrow> pow_carry_free r b e"
  by (subst pow_carry_free.simps) simp

lemma pow_carry_free_even:
  "1 < val e \<Longrightarrow> even (val e) \<Longrightarrow> mul_carry_free b b \<Longrightarrow> pow_carry_free r (lu256Mul b b) (lu256Shr e 1) \<Longrightarrow>
    pow_carry_free r b e"
  by (subst pow_carry_free.simps) simp

lemma pow_carry_free_odd:
  "1 < val e \<Longrightarrow> odd (val e) \<Longrightarrow> mul_carry_free r b \<Longrightarrow> mul_carry_free b b \<Longrightarrow>
    pow_carry_free (lu256Mul r b) (lu256Mul b b) (lu256Shr e 1) \<Longrightarrow> pow_carry_free r b e"
  by (subst pow_carry_free.simps) simp

text \<open>Exponentiation by squaring gives the power modulo \<open>2 ^ 256\<close> whenever each of the
multiplications it makes is one that \<open>lu256Mul\<close> does exactly.\<close>

theorem uint256_pow:
  assumes "pow_carry_free LUint256One base exp"
  shows "val (lu256Pow base exp) = val base ^ val exp mod 2 ^ 256"
  using lu256Pow_loop_power [OF assms] by (auto simp: lu256Pow_def lu256IsZero_val)

theorem uint256_pow_witness: "val (lu256Pow (LU256 3 0 0 0) (LU256 5 0 0 0)) = val (LU256 3 0 0 0) ^ 5 mod 2 ^ 256"
proof -
  have m: "val (lu256Mul x y) = val x * val y mod 2 ^ 256" if "val y < 2 ^ 64" for x y
    using that mul_carry_free_small lu256Mul_exact_iff by blast
  have "pow_carry_free LUint256One (LU256 3 0 0 0) (LU256 5 0 0 0)"
    by (rule pow_carry_free_odd [OF _ _ _ _ pow_carry_free_even [OF _ _ _ pow_carry_free_one]])
      (simp_all add: val_LU256 m mul_carry_free_small)
  from uint256_pow [OF this] show ?thesis by (simp add: val_LU256)
qed

end
