(* ===== verification/GoStrings.thy ===== *)
theory GoStrings
  imports Prelude
begin

text \<open>
  The parts of Go's \<^verbatim>\<open>strings\<close> package the modelled code uses, on byte strings:
  \<^verbatim>\<open>HasPrefix\<close>, \<^verbatim>\<open>TrimSpace\<close> (the UTF-8 encodings of Unicode's white space) and
  \<^verbatim>\<open>ToLower\<close> on ASCII letters; the verbs of \<^verbatim>\<open>fmt\<close> and the functions of
  \<^verbatim>\<open>encoding/hex\<close> and \<^verbatim>\<open>unicode/utf8\<close> that occur; the classes of digit characters; and the lemmas that
  strings of digits are left alone by trimming.
\<close>

definition strings_HasPrefix :: "string \<Rightarrow> string \<Rightarrow> bool" where
  "strings_HasPrefix s p \<longleftrightarrow> take (length p) s = p"

text \<open>The white space characters, as the bytes that encode them.\<close>

definition unicode_spaces :: "string list" where
  "unicode_spaces =
     map (\<lambda>c. [c]) [CHR 0x09, CHR 0x0A, CHR 0x0B, CHR 0x0C, CHR 0x0D, CHR 0x20]
     @ map (\<lambda>c. [CHR 0xC2, c]) [CHR 0x85, CHR 0xA0]
     @ [[CHR 0xE1, CHR 0x9A, CHR 0x80], [CHR 0xE2, CHR 0x81, CHR 0x9F], [CHR 0xE3, CHR 0x80, CHR 0x80]]
     @ map (\<lambda>c. [CHR 0xE2, CHR 0x80, c])
         [CHR 0x80, CHR 0x81, CHR 0x82, CHR 0x83, CHR 0x84, CHR 0x85, CHR 0x86, CHR 0x87, CHR 0x88,
          CHR 0x89, CHR 0x8A, CHR 0xA8, CHR 0xA9, CHR 0xAF]"

text \<open>Strip words from the front of a string as long as there is one.\<close>

function strip :: "string list \<Rightarrow> string \<Rightarrow> string" where
  "strip ws s =
     (case find (\<lambda>w. w \<noteq> [] \<and> strings_HasPrefix s w) ws of
        None \<Rightarrow> s
      | Some w \<Rightarrow> strip ws (drop (length w) s))"
  by pat_completeness auto
termination
proof (relation "measure (\<lambda>(ws, s). length s)", goal_cases)
  case 1
  show ?case by simp
next
  case (2 ws s w)
  then have "w \<noteq> []" "strings_HasPrefix s w" by (auto simp: find_Some_iff)
  then have "s \<noteq> []" by (auto simp: strings_HasPrefix_def)
  with \<open>w \<noteq> []\<close> show ?case by simp
qed

declare strip.simps [simp del]

definition strings_TrimSpace :: "string \<Rightarrow> string" where
  "strings_TrimSpace s = rev (strip (map rev unicode_spaces) (rev (strip unicode_spaces s)))"

definition ascii_lower :: "char \<Rightarrow> char" where
  "ascii_lower c =
     (let n = of_char c in if 65 \<le> n \<and> n \<le> (90 :: nat) then char_of (n + 32) else c)"

definition strings_ToLower :: "string \<Rightarrow> string" where
  "strings_ToLower = map ascii_lower"

text \<open>\<^verbatim>\<open>'0' <= ch && ch <= '9'\<close> and the like.\<close>

definition char_between :: "char \<Rightarrow> char \<Rightarrow> char \<Rightarrow> bool" where
  "char_between a b c \<longleftrightarrow> (of_char a :: nat) \<le> of_char c \<and> (of_char c :: nat) \<le> of_char b"

definition is_dec_digit :: "char \<Rightarrow> bool" where
  "is_dec_digit = char_between (CHR ''0'') (CHR ''9'')"

definition is_lower_hex :: "char \<Rightarrow> bool" where
  "is_lower_hex c \<longleftrightarrow> is_dec_digit c \<or> char_between (CHR ''a'') (CHR ''f'') c"

section \<open>Formatting and hexadecimal text\<close>

text \<open>\<^verbatim>\<open>fmt\<close>'s \<^verbatim>\<open>\%02x\<close>, \<^verbatim>\<open>\%04X\<close> and \<^verbatim>\<open>\%c\<close> on the values that occur, and \<^verbatim>\<open>utf8.EncodeRune\<close>.\<close>

definition hex_lower :: "nat \<Rightarrow> char" where
  "hex_lower d = (if d < 10 then char_of (48 + d) else char_of (87 + d))"

definition hex_upper :: "nat \<Rightarrow> char" where
  "hex_upper d = (if d < 10 then char_of (48 + d) else char_of (55 + d))"

definition fmt_02x :: "nat \<Rightarrow> string" where
  "fmt_02x n = [hex_lower (n div 16), hex_lower (n mod 16)]"

definition fmt_04X :: "nat \<Rightarrow> string" where
  "fmt_04X n = [hex_upper (n div 4096), hex_upper (n div 256 mod 16), hex_upper (n div 16 mod 16), hex_upper (n mod 16)]"

definition utf8_EncodeRune :: "nat \<Rightarrow> string" where
  "utf8_EncodeRune r =
     (if r < 128 then [char_of r]
      else if r < 2048 then [char_of (192 + r div 64), char_of (128 + r mod 64)]
      else if r < 65536
      then [char_of (224 + r div 4096), char_of (128 + r div 64 mod 64), char_of (128 + r mod 64)]
      else [char_of (240 + r div 262144), char_of (128 + r div 4096 mod 64),
            char_of (128 + r div 64 mod 64), char_of (128 + r mod 64)])"

definition fmt_c :: "char \<Rightarrow> string" where
  "fmt_c ch = utf8_EncodeRune (of_char ch)"

text \<open>\<^verbatim>\<open>encoding/hex\<close>, with the text of its errors (\<^verbatim>\<open>\%#U\<close> quotes a printable character).\<close>

datatype hex_error = ErrLength | InvalidByteError char

definition hex_value :: "char \<Rightarrow> nat option" where
  "hex_value c =
     (if char_between (CHR ''0'') (CHR ''9'') c then Some (of_char c - 48)
      else if char_between (CHR ''a'') (CHR ''f'') c then Some (of_char c - 87)
      else if char_between (CHR ''A'') (CHR ''F'') c then Some (of_char c - 55)
      else None)"

fun hex_DecodeString :: "string \<Rightarrow> hex_error + string" where
  "hex_DecodeString [] = Inr []"
| "hex_DecodeString [c] = Inl (case hex_value c of None \<Rightarrow> InvalidByteError c | Some _ \<Rightarrow> ErrLength)"
| "hex_DecodeString (p # q # s) =
     (case hex_value p of
        None \<Rightarrow> Inl (InvalidByteError p)
      | Some a \<Rightarrow>
          (case hex_value q of
             None \<Rightarrow> Inl (InvalidByteError q)
           | Some b \<Rightarrow> bindr (hex_DecodeString s) (\<lambda>bs. Inr (char_of (a * 16 + b) # bs))))"

definition hex_EncodeToString :: "string \<Rightarrow> string" where
  "hex_EncodeToString bs = concat (map (\<lambda>c. fmt_02x (of_char c)) bs)"

definition printable :: "nat \<Rightarrow> bool" where
  "printable n \<longleftrightarrow> 32 \<le> n \<and> n \<le> 126 \<or> 161 \<le> n \<and> n \<noteq> 173"

fun hex_error_text :: "hex_error \<Rightarrow> string" where
  "hex_error_text ErrLength = ''encoding/hex: odd length hex string''"
| "hex_error_text (InvalidByteError c) =
     ''encoding/hex: invalid byte: U+'' @ fmt_04X (of_char c) @
     (if printable (of_char c) then '' '' @ [CHR 0x27] @ fmt_c c @ [CHR 0x27] else [])"

section \<open>Strings without white space\<close>

lemma strip_None:
  assumes "\<And>w. w \<in> set ws \<Longrightarrow> w \<noteq> [] \<Longrightarrow> \<not> strings_HasPrefix s w"
  shows "strip ws s = s"
proof -
  have "find (\<lambda>w. w \<noteq> [] \<and> strings_HasPrefix s w) ws = None"
    using assms by (auto simp: find_None_iff)
  then show ?thesis by (subst strip.simps) simp
qed

lemma strip_hd:
  assumes "c \<notin> hd ` set ws" shows "strip ws (c # s) = c # s"
  by (rule strip_None) (use assms in \<open>force simp: strings_HasPrefix_def take_Cons split: nat.splits\<close>)

lemma space_bytes:
  "\<forall>w \<in> set unicode_spaces. hd w \<in> set [CHR 0x09, CHR 0x0A, CHR 0x0B, CHR 0x0C, CHR 0x0D, CHR 0x20,
      CHR 0xC2, CHR 0xE1, CHR 0xE2, CHR 0xE3]"
  "\<forall>w \<in> set (map rev unicode_spaces). of_char (hd w) < (48 :: nat) \<or> (122 :: nat) < of_char (hd w)"
  by (simp_all add: unicode_spaces_def)

text \<open>Digits, letters and anything between them in ASCII are never trimmed.\<close>

lemma TrimSpace_visible:
  assumes "s \<noteq> []" and "48 \<le> (of_char (hd s) :: nat)" "(of_char (hd s) :: nat) \<le> 122"
    and "48 \<le> (of_char (last s) :: nat)" "(of_char (last s) :: nat) \<le> 122"
  shows "strings_TrimSpace s = s"
proof -
  obtain c cs where s: "s = c # cs" using assms(1) by (cases s) auto
  have "c \<notin> hd ` set unicode_spaces" using space_bytes(1) assms(2,3) s by fastforce
  then have l: "strip unicode_spaces s = s" unfolding s by (rule strip_hd)
  obtain d ds where r: "rev s = d # ds" "d = last s" using assms(1) by (cases "rev s") auto
  have "d \<notin> hd ` set (map rev unicode_spaces)" using space_bytes(2) assms(4,5) r(2) by fastforce
  then have "strip (map rev unicode_spaces) (rev s) = rev s" unfolding r(1) by (rule strip_hd)
  then show ?thesis by (simp add: strings_TrimSpace_def l)
qed

lemma ToLower_fixed: "(\<And>c. c \<in> set s \<Longrightarrow> \<not> char_between (CHR ''A'') (CHR ''Z'') c) \<Longrightarrow> strings_ToLower s = s"
  by (auto simp: strings_ToLower_def ascii_lower_def char_between_def Let_def intro!: map_idI)

lemma is_lower_hex_bounds:
  assumes "is_lower_hex c"
  shows "48 \<le> (of_char c :: nat)" "(of_char c :: nat) \<le> 122" "\<not> char_between (CHR ''A'') (CHR ''Z'') c"
  using assms by (auto simp: is_lower_hex_def is_dec_digit_def char_between_def)

end
