(* ===== verification/Values.thy ===== *)
theory Values
  imports Uint256 GoStrings
begin

text \<open>
  The values of the language (\<^verbatim>\<open>value.go\<close>) and agent addresses (\<^verbatim>\<open>agent.go\<close>). Tables,
  functions and user data are references, so their constructors carry an identity. The main
  result: address parsing accepts exactly the strings that are an address after trimming and
  lower-casing, returns that canonical form, and is idempotent.
\<close>

datatype LValueType = LTNil | LTBool | LTUint256 | LTString | LTAgent | LTFunction | LTUserData | LTTable

fun LValueType_String :: "LValueType \<Rightarrow> string" where
  "LValueType_String LTNil = ''nil''"
| "LValueType_String LTBool = ''boolean''"
| "LValueType_String LTUint256 = ''uint256''"
| "LValueType_String LTString = ''string''"
| "LValueType_String LTAgent = ''agent''"
| "LValueType_String LTFunction = ''function''"
| "LValueType_String LTUserData = ''userdata''"
| "LValueType_String LTTable = ''table''"

datatype LValue =
    LNil
  | LBool bool
  | LNum LUint256
  | LString string
  | LAgent string
  | LFunction nat
  | LUserData nat
  | LTable nat

fun LValue_Type :: "LValue \<Rightarrow> LValueType" where
  "LValue_Type LNil = LTNil"
| "LValue_Type (LBool _) = LTBool"
| "LValue_Type (LNum _) = LTUint256"
| "LValue_Type (LString _) = LTString"
| "LValue_Type (LAgent _) = LTAgent"
| "LValue_Type (LFunction _) = LTFunction"
| "LValue_Type (LUserData _) = LTUserData"
| "LValue_Type (LTable _) = LTTable"

definition LVIsFalse :: "LValue \<Rightarrow> bool" where
  "LVIsFalse v \<longleftrightarrow> v = LNil \<or> v = LBool False"

definition LVAsBool :: "LValue \<Rightarrow> bool" where
  "LVAsBool v \<longleftrightarrow> v \<noteq> LNil \<and> v \<noteq> LBool False"

fun LVCanConvToString :: "LValue \<Rightarrow> bool" where
  "LVCanConvToString (LString _) = True"
| "LVCanConvToString (LNum _) = True"
| "LVCanConvToString _ = False"

section \<open>Agent addresses\<close>

text \<open>
  Lower-casing is modelled on ASCII letters. On other text Go's \<^verbatim>\<open>strings.ToLower\<close> may change
  the number of bytes, and no letter outside ASCII becomes a hexadecimal digit or an \<open>x\<close>:
  such text is refused either way, at most with the other one of the last two messages.
\<close>

definition parseAgentString :: "string \<Rightarrow> go_error + string" where
  "parseAgentString raw =
     (let norm = strings_ToLower (strings_TrimSpace raw)
      in if \<not> strings_HasPrefix norm ''0x'' then Inl (Errorf ''expected address with 0x prefix'' [])
         else let hex = drop 2 norm
              in if length hex \<noteq> 64 then Inl (Errorf ''expected address with 64 hex chars'' [])
                 else if list_ex (\<lambda>ch. \<not> is_dec_digit ch \<and> \<not> char_between (CHR ''a'') (CHR ''f'') ch) hex
                 then Inl (Errorf ''invalid address hex string'' [])
                 else Inr (''0x'' @ hex))"

fun parseAgentValue :: "LValue \<Rightarrow> go_error + string" where
  "parseAgentValue (LAgent s) = parseAgentString s"
| "parseAgentValue (LString s) = parseAgentString s"
| "parseAgentValue _ = Inl (Errorf ''expected address string'' [])"

definition canonical_agent :: "string \<Rightarrow> bool" where
  "canonical_agent a \<longleftrightarrow> length a = 66 \<and> take 2 a = ''0x'' \<and> list_all is_lower_hex (drop 2 a)"

lemma parseAgentString_iff:
  "parseAgentString raw = Inr a \<longleftrightarrow> canonical_agent a \<and> strings_ToLower (strings_TrimSpace raw) = a"
proof -
  define norm where "norm = strings_ToLower (strings_TrimSpace raw)"
  have p: "strings_HasPrefix s ''0x'' \<longleftrightarrow> take 2 s = ''0x''" for s
    by (simp add: strings_HasPrefix_def numeral_2_eq_2)
  have split: "take 2 s = ''0x'' \<Longrightarrow> ''0x'' @ drop 2 s = s" for s
    by (metis append_take_drop_id)
  have len: "take 2 s = ''0x'' \<Longrightarrow> length (drop 2 s) = 64 \<longleftrightarrow> length s = 66" for s
    by (drule arg_cong [of _ _ length]) (auto simp: min_def split: if_splits)
  have digits: "list_ex (\<lambda>ch. \<not> is_dec_digit ch \<and> \<not> char_between (CHR ''a'') (CHR ''f'') ch) s
      \<longleftrightarrow> \<not> list_all is_lower_hex s" for s
    by (auto simp: list_ex_iff list_all_iff is_lower_hex_def)
  show ?thesis
  proof (cases "take 2 norm = ''0x'' \<and> length norm = 66 \<and> list_all is_lower_hex (drop 2 norm)")
    case True
    then show ?thesis
      unfolding parseAgentString_def norm_def [symmetric] Let_def canonical_agent_def p digits
      by (simp only: split [of norm] len [of norm] split: if_split) blast
  next
    case False
    then show ?thesis
      unfolding parseAgentString_def norm_def [symmetric] Let_def canonical_agent_def p digits
      using len [of norm] by (auto split: if_splits)
  qed
qed

lemma canonical_agent_normal:
  assumes "canonical_agent a" shows "strings_ToLower (strings_TrimSpace a) = a"
proof -
  from assms have l: "length a = 66" and p: "take 2 a = ''0x''" and h: "list_all is_lower_hex (drop 2 a)"
    by (auto simp: canonical_agent_def)
  have a: "a = ''0x'' @ drop 2 a" using p append_take_drop_id [of 2 a] by simp
  have "drop 2 a \<noteq> []" using l by simp
  then have "last a = last (drop 2 a)" by simp
  moreover have "last (drop 2 a) \<in> set (drop 2 a)" using \<open>drop 2 a \<noteq> []\<close> by (rule last_in_set)
  ultimately have lx: "is_lower_hex (last a)" using h by (simp add: list_all_iff)
  have hd: "hd a = CHR ''0''" by (subst a) simp
  have t: "strings_TrimSpace a = a"
    by (rule TrimSpace_visible) (use l hd is_lower_hex_bounds [OF lx] in auto)
  have "strings_ToLower a = a"
  proof (rule ToLower_fixed)
    fix c
    assume "c \<in> set a"
    then have "c \<in> set (''0x'' @ drop 2 a)" by (subst (asm) a)
    then consider "c = CHR ''0''" | "c = CHR ''x''" | "c \<in> set (drop 2 a)" by auto
    then show "\<not> char_between (CHR ''A'') (CHR ''Z'') c"
      by cases (use h is_lower_hex_bounds(3) in \<open>auto simp: char_between_def list_all_iff\<close>)
  qed
  with t show ?thesis by simp
qed

lemma parseAgentString_canonical: "canonical_agent a \<Longrightarrow> parseAgentString a = Inr a"
  by (simp add: parseAgentString_iff canonical_agent_normal)

section \<open>Properties\<close>

text \<open>An address is accepted exactly when its trimmed, lower-cased text is \<open>0x\<close> followed by 64
hexadecimal digits; the result is that text, and parsing the result, as an agent value or as
a string, gives it back.\<close>

theorem agent_parse_canonical:
  "(parseAgentString raw = Inr a \<longleftrightarrow> canonical_agent a \<and> strings_ToLower (strings_TrimSpace raw) = a) \<and>
   (case parseAgentString raw of Inl _ \<Rightarrow> True
    | Inr c \<Rightarrow> parseAgentValue (LAgent c) = Inr c \<and> parseAgentValue (LString c) = Inr c)"
  using parseAgentString_iff [of raw] parseAgentString_canonical
  by (auto split: sum.splits)

end
