(* ===== verification/UintText.thy ===== *)
theory UintText
  imports UintDiv Values
begin

text \<open>
  Text of 256-bit integers: the parsers \<^verbatim>\<open>parseUint256\<close> and \<^verbatim>\<open>lu256FromHex64\<close>
  (\<^verbatim>\<open>uint256.go\<close>), the number parser with scientific notation (\<^verbatim>\<open>utils.go\<close>) and
  the decimal printer \<^verbatim>\<open>LUint256.String\<close> (\<^verbatim>\<open>value.go\<close>), which cuts the number into
  chunks of 19 digits. The main results: printing gives the decimal text and parsing it gives
  the number back; a literal is read modulo \<open>2 ^ 256\<close>. The integers of \<^verbatim>\<open>math/big\<close> are
  numbers of HOL.
\<close>

section \<open>Parsing\<close>

definition errInvalidNumber :: go_error where
  "errInvalidNumber = Errorf ''invalid number'' []"

definition errNegativeNumber :: go_error where
  "errNegativeNumber = Errorf ''negative numbers are not supported'' []"

definition errNumberOverflow :: go_error where
  "errNumberOverflow = Errorf ''number out of uint256 range'' []"

definition digit_of :: "char \<Rightarrow> nat option" where
  "digit_of ch =
     (if char_between (CHR ''0'') (CHR ''9'') ch then Some (of_char ch - 48)
      else if char_between (CHR ''a'') (CHR ''f'') ch then Some (of_char ch - 97 + 10)
      else if char_between (CHR ''A'') (CHR ''F'') ch then Some (of_char ch - 65 + 10)
      else None)"

fun parse_digits :: "nat \<Rightarrow> LUint256 \<Rightarrow> string \<Rightarrow> go_error + LUint256" where
  "parse_digits base result [] = Inr result"
| "parse_digits base result (ch # s) =
     (case digit_of ch of
        None \<Rightarrow> Inl errInvalidNumber
      | Some digit \<Rightarrow>
          if digit \<ge> base then Inl errInvalidNumber
          else parse_digits base
                 (lu256Add (lu256Mul result (LU256 (word_of_nat base) 0 0 0)) (LU256 (word_of_nat digit) 0 0 0)) s)"

definition parseUint256Base :: "string \<Rightarrow> nat \<Rightarrow> go_error + LUint256" where
  "parseUint256Base number base =
     (let s = (if strings_HasPrefix number ''0x'' \<or> strings_HasPrefix number ''0X'' then drop 2 number else number)
      in if s = [] \<or> hd s = CHR ''-'' then Inl errInvalidNumber
         else parse_digits base LUint256Zero s)"

definition parseUint256 :: "string \<Rightarrow> go_error + LUint256" where
  "parseUint256 number =
     (let s = strings_TrimSpace number
      in if s = [] then Inl errInvalidNumber
         else if strings_HasPrefix s ''0x'' \<or> strings_HasPrefix s ''0X'' then parseUint256Base (drop 2 s) 16
         else if strings_HasPrefix s ''0b'' \<or> strings_HasPrefix s ''0B'' then parseUint256Base (drop 2 s) 2
         else parseUint256Base s 10)"

text \<open>\<^verbatim>\<open>strconv.ParseInt(s, 10, 64)\<close> and \<^verbatim>\<open>strconv.ParseUint(s, 16, 64)\<close>, errors as \<open>None\<close>.\<close>

fun digits_value :: "nat \<Rightarrow> nat \<Rightarrow> string \<Rightarrow> nat option" where
  "digits_value base acc [] = Some acc"
| "digits_value base acc (ch # s) =
     (case digit_of ch of
        None \<Rightarrow> None
      | Some d \<Rightarrow> if d < base then digits_value base (acc * base + d) s else None)"

definition strconv_ParseUint :: "nat \<Rightarrow> string \<Rightarrow> nat option" where
  "strconv_ParseUint base s =
     (if s = [] then None
      else case digits_value base 0 s of
             None \<Rightarrow> None
           | Some n \<Rightarrow> if n < 2 ^ 64 then Some n else None)"

definition strconv_ParseInt10 :: "string \<Rightarrow> int option" where
  "strconv_ParseInt10 s =
     (let neg = (s \<noteq> [] \<and> hd s = CHR ''-'');
          body = (if s \<noteq> [] \<and> (hd s = CHR ''-'' \<or> hd s = CHR ''+'') then tl s else s)
      in case strconv_ParseUint 10 body of
           None \<Rightarrow> None
         | Some n \<Rightarrow> if neg then (if n \<le> 2 ^ 63 then Some (- int n) else None)
                     else (if n < 2 ^ 63 then Some (int n) else None))"

definition lu256ToBig :: "LUint256 \<Rightarrow> int" where
  "lu256ToBig n = int (wval [lo n, ml n, mh n, hi n])"

definition bigToLU256 :: "int \<Rightarrow> go_error + LUint256" where
  "bigToLU256 b =
     (if b < 0 then Inl errNegativeNumber
      else if b \<ge> 2 ^ 256 then Inl errNumberOverflow
      else Inr (LU256 (word_of_int b) (word_of_int (b div 2 ^ 64)) (word_of_int (b div 2 ^ 128)) (word_of_int (b div 2 ^ 192))))"

definition lu256FromHex64 :: "string \<Rightarrow> go_error + LUint256" where
  "lu256FromHex64 s =
     (if length s \<noteq> 64 then Inl (Errorf ''expected 64 hex chars, got %d'' [IArg (int (length s))])
      else case (strconv_ParseUint 16 (take 16 s), strconv_ParseUint 16 (take 16 (drop 16 s)),
                 strconv_ParseUint 16 (take 16 (drop 32 s)), strconv_ParseUint 16 (take 16 (drop 48 s))) of
             (Some h, Some m2, Some m1, Some l) \<Rightarrow>
               Inr (LU256 (word_of_nat l) (word_of_nat m1) (word_of_nat m2) (word_of_nat h))
           | _ \<Rightarrow> Inl (Errorf ''strconv.ParseUint: invalid syntax'' []))"

text \<open>The position of the first \<open>e\<close> or \<open>E\<close>.\<close>

definition exponent_mark :: "string \<Rightarrow> nat option" where
  "exponent_mark s =
     (let k = length (takeWhile (\<lambda>ch. ch \<noteq> CHR ''e'' \<and> ch \<noteq> CHR ''E'') s)
      in if k < length s then Some k else None)"

definition parseNumberTonumber :: "string \<Rightarrow> go_error + LUint256" where
  "parseNumberTonumber number =
     (case parseUint256 number of
        Inr v \<Rightarrow> Inr v
      | Inl err \<Rightarrow>
          let s = strings_TrimSpace number
          in case exponent_mark s of
               None \<Rightarrow> Inl err
             | Some eIdx \<Rightarrow>
                 (case parseUint256 (take eIdx s) of
                    Inl _ \<Rightarrow> Inl err
                  | Inr mantissa \<Rightarrow>
                      (case strconv_ParseInt10 (drop (eIdx + 1) s) of
                         None \<Rightarrow> Inl err
                       | Some exp \<Rightarrow>
                           if exp < 0 then Inl err
                           else bigToLU256 (lu256ToBig mantissa * 10 ^ nat exp))))"

definition parseNumber :: "string \<Rightarrow> go_error + LUint256" where
  "parseNumber number = parseNumberTonumber number"

section \<open>Printing\<close>

definition decimal_chunk :: u64 where
  "decimal_chunk = 10000000000000000000"

text \<open>The chunks, least significant first, in the array of five.\<close>

function string_chunks :: "LUint256 \<Rightarrow> u64 list \<Rightarrow> go_panic + u64 list" where
  "string_chunks v parts =
     (if lu256IsZero v then Inr parts
      else bindr (lu256DivMod v (LU256 decimal_chunk 0 0 0)) (\<lambda>(v', r).
             if \<not> length parts < 5 then Inl PIndexOutOfRange
             else string_chunks v' (parts @ [lo r])))"
  by pat_completeness auto
termination by (relation "measure (\<lambda>(v, parts). 5 - length parts)") auto

declare string_chunks.simps [simp del]

definition fmt_019d :: "nat \<Rightarrow> string" where
  "fmt_019d n = replicate (19 - length (decimal n)) (CHR ''0'') @ decimal n"

definition LUint256_String :: "LUint256 \<Rightarrow> go_panic + string" where
  "LUint256_String nm =
     (if lu256IsZero nm then Inr ''0''
      else bindr (string_chunks nm []) (\<lambda>parts.
             Inr (decimal (unat (last parts)) @ concat (map (\<lambda>p. fmt_019d (unat p)) (rev (butlast parts))))))"

section \<open>Decimal text\<close>

lemma digit_of_digit_char: "d < 10 \<Longrightarrow> digit_of (digit_char d) = Some d"
proof -
  assume d: "d < 10"
  then have "of_char (digit_char d) = (48 + d :: nat)" by (simp add: digit_char_def)
  with d show ?thesis by (simp add: digit_of_def char_between_def)
qed

lemma digits_value_append:
  "digits_value b acc (s @ t) = (case digits_value b acc s of None \<Rightarrow> None | Some n \<Rightarrow> digits_value b n t)"
  by (induction b acc s rule: digits_value.induct) (auto split: option.splits)

text \<open>The decimal text of a number reads back as the number.\<close>

lemma digits_value_decimal: "digits_value 10 0 (decimal n) = Some n"
proof (induction n rule: decimal.induct)
  case (1 n)
  show ?case
  proof (cases "n < 10")
    case True
    then show ?thesis by (simp add: decimal.simps [of n] digit_of_digit_char)
  next
    case False
    then have "digits_value 10 0 (decimal n) = Some (n div 10 * 10 + n mod 10)"
      using "1.IH" by (simp add: decimal.simps [of n] digits_value_append digit_of_digit_char)
    then show ?thesis by simp
  qed
qed

text \<open>The last \<open>k\<close> digits of a number.\<close>

fun low_digits :: "nat \<Rightarrow> nat \<Rightarrow> string" where
  "low_digits 0 n = []"
| "low_digits (Suc k) n = low_digits k (n div 10) @ [digit_char (n mod 10)]"

lemma decimal_split: "10 ^ k \<le> n \<Longrightarrow> decimal n = decimal (n div 10 ^ k) @ low_digits k n"
proof (induction k arbitrary: n)
  case (Suc k)
  then have n: "\<not> n < 10" "10 ^ k \<le> n div 10" by (auto simp: div_le_mono dest: div_le_mono [of _ _ 10])
  have "decimal n = decimal (n div 10) @ [digit_char (n mod 10)]" using n(1) by (subst decimal.simps) simp
  also have "decimal (n div 10) = decimal (n div 10 div 10 ^ k) @ low_digits k (n div 10)" by (rule Suc.IH [OF n(2)])
  finally show ?case by (simp add: div_mult2_eq)
qed simp

lemma digit_char_0 [simp]: "digit_char 0 = CHR ''0''"
  by (simp add: digit_char_def char_of_def bit_Suc_0_iff)

lemma low_digits_0: "low_digits k 0 = replicate k (CHR ''0'')"
proof (induction k)
  case (Suc k)
  then show ?case using Suc by (simp add: replicate_append_same)
qed simp

lemma length_decimal_pos: "0 < length (decimal n)"
  by (subst decimal.simps) simp

lemma low_digits_pad:
  "0 < k \<Longrightarrow> n < 10 ^ k \<Longrightarrow> low_digits k n = replicate (k - length (decimal n)) (CHR ''0'') @ decimal n \<and> length (decimal n) \<le> k"
proof (induction k arbitrary: n)
  case (Suc k)
  show ?case
  proof (cases "n < 10")
    case True
    then have "decimal n = [digit_char n]" by (subst decimal.simps) simp
    then show ?thesis using True by (simp add: low_digits_0)
  next
    case False
    have d: "decimal n = decimal (n div 10) @ [digit_char (n mod 10)]" using False by (subst decimal.simps) simp
    have "0 < k" using False Suc.prems by (cases k) auto
    then have "low_digits k (n div 10) = replicate (k - length (decimal (n div 10))) (CHR ''0'') @ decimal (n div 10) \<and>
        length (decimal (n div 10)) \<le> k"
      using Suc.prems by (intro Suc.IH) auto
    then show ?thesis unfolding d by simp
  qed
qed simp

lemma fmt_019d_low_digits: "m < 10 ^ 19 \<Longrightarrow> fmt_019d m = low_digits 19 m"
  using low_digits_pad [of 19 m] by (simp add: fmt_019d_def)

lemma low_digits_mod: "k \<le> j \<Longrightarrow> low_digits k (n mod 10 ^ j) = low_digits k n"
proof (induction k arbitrary: n j)
  case (Suc k)
  then obtain i where j: "j = Suc i" by (cases j) auto
  have "n mod 10 ^ j mod 10 = n mod 10" unfolding j by (simp add: mod_mod_cancel)
  moreover have "n mod 10 ^ j div 10 = (n div 10) mod 10 ^ i"
    unfolding j by (simp add: mod_mult2_eq)
  ultimately show ?case using Suc j by simp
qed simp

text \<open>The chunks of a number, least significant first.\<close>

fun chunk_digits :: "nat \<Rightarrow> nat list" where
  "chunk_digits n = (if n = 0 then [] else n mod 10 ^ 19 # chunk_digits (n div 10 ^ 19))"

declare chunk_digits.simps [simp del]

lemma length_chunk_digits: "n < (10 ^ 19) ^ k \<Longrightarrow> length (chunk_digits n) \<le> k"
proof (induction k arbitrary: n)
  case (Suc k)
  show ?case
  proof (cases "n = 0")
    case False
    have "n div 10 ^ 19 < (10 ^ 19) ^ k"
      using Suc.prems unfolding power_Suc by (intro less_mult_imp_div_less) (simp only: mult.commute)
    then show ?thesis using Suc.IH False by (subst chunk_digits.simps) simp
  qed (simp add: chunk_digits.simps)
qed (simp add: chunk_digits.simps)

lemma string_chunks_digits:
  assumes "length parts + length (chunk_digits (val v)) \<le> 5"
  shows "string_chunks v parts = Inr (parts @ map word_of_nat (chunk_digits (val v)))"
  using assms
proof (induction v parts rule: string_chunks.induct)
  case (1 v parts)
  show ?case
  proof (cases "val v = 0")
    case True
    then show ?thesis by (simp add: string_chunks.simps [of v] chunk_digits.simps lu256IsZero_val)
  next
    case False
    let ?d = "LU256 decimal_chunk 0 0 0"
    have d: "val ?d = 10 ^ 19" by (simp add: val_LU256 decimal_chunk_def)
    have "lu256_div_exact v ?d" by (simp add: lu256_div_exact_def d)
    then obtain q r where qr: "lu256DivMod v ?d = Inr (q, r)" "val q = val v div 10 ^ 19" "val r = val v mod 10 ^ 19"
      using lu256DivMod_divides [of ?d v] d by auto
    have "val r < 10 ^ 19" unfolding qr(3) by simp
    then have "val r < 2 ^ 64" by simp
    have word_of_nat_unat: "word_of_nat (unat x) = x" for x :: u64 by simp
    have "val r = unat (lo r)" using \<open>val r < 2 ^ 64\<close> one_limb_iff [of r] by (simp add: val_eq)
    then have lo: "lo r = word_of_nat (val v mod 10 ^ 19)" using qr(3) word_of_nat_unat by metis
    have c: "chunk_digits (val v) = val v mod 10 ^ 19 # chunk_digits (val v div 10 ^ 19)"
      using False by (subst chunk_digits.simps) simp
    have l: "length parts < 5" "length (parts @ [lo r]) + length (chunk_digits (val q)) \<le> 5"
      using "1.prems" unfolding c qr(2) by simp_all
    have "string_chunks q (parts @ [lo r]) = Inr ((parts @ [lo r]) @ map word_of_nat (chunk_digits (val q)))"
      using "1.IH" [OF _ qr(1) refl _ l(2)] False l(1) by (simp add: lu256IsZero_val)
    then show ?thesis
      using False l(1) by (subst string_chunks.simps) (simp add: lu256IsZero_val qr(1,2) c lo)
  qed
qed

lemma decimal_chunks:
  assumes "n \<noteq> 0"
  shows "decimal n = decimal (last (chunk_digits n)) @ concat (map fmt_019d (rev (butlast (chunk_digits n))))"
  using assms
proof (induction n rule: chunk_digits.induct)
  case (1 n)
  have c: "chunk_digits n = n mod 10 ^ 19 # chunk_digits (n div 10 ^ 19)" using "1.prems" by (subst chunk_digits.simps) simp
  show ?case
  proof (cases "n div 10 ^ 19 = 0")
    case True
    then have "n mod 10 ^ 19 = n" by simp
    then show ?thesis unfolding c True by (simp add: chunk_digits.simps)
  next
    case False
    have ne: "chunk_digits (n div 10 ^ 19) \<noteq> []" using False by (subst chunk_digits.simps) simp
    have "10 ^ 19 \<le> n" using False by (simp add: div_eq_0_iff)
    then have "decimal n = decimal (n div 10 ^ 19) @ low_digits 19 n" by (rule decimal_split)
    also have "low_digits 19 n = fmt_019d (n mod 10 ^ 19)"
      using fmt_019d_low_digits [of "n mod 10 ^ 19"] low_digits_mod [of 19 19 n] by simp
    finally show ?thesis unfolding c using "1.IH" "1.prems" False ne by simp
  qed
qed

lemma LUint256_String_decimal: "LUint256_String v = Inr (decimal (val v))"
proof (cases "val v = 0")
  case True
  then show ?thesis using True by (simp add: LUint256_String_def lu256IsZero_val decimal.simps)
next
  case False
  have small: "unat (word_of_nat m :: u64) = m" if "m \<in> set (chunk_digits n)" for m n
  proof -
    have "m < 10 ^ 19" using that
      by (induction n rule: chunk_digits.induct) (subst (asm) (2) chunk_digits.simps, auto split: if_splits)
    then have "m < 2 ^ 64" by simp
    then show ?thesis by (rule unat_of_nat_u64)
  qed
  have "val v < (10 ^ 19) ^ 5" using val_less [of v] by simp
  then have "length (chunk_digits (val v)) \<le> 5" by (rule length_chunk_digits)
  then have s: "string_chunks v [] = Inr (map word_of_nat (chunk_digits (val v)))"
    using string_chunks_digits [of "[]" v] by simp
  have ne: "chunk_digits (val v) \<noteq> []" using False by (subst chunk_digits.simps) simp
  have "unat (last (map word_of_nat (chunk_digits (val v))) :: u64) = last (chunk_digits (val v))"
    using small last_in_set [OF ne] by (simp add: last_map [OF ne])
  moreover have "map (\<lambda>p. fmt_019d (unat p)) (rev (butlast (map word_of_nat (chunk_digits (val v)) :: u64 list))) =
      map fmt_019d (rev (butlast (chunk_digits (val v))))"
    using small by (auto simp flip: map_butlast rev_map dest: in_set_butlastD)
  ultimately show ?thesis using False s decimal_chunks [OF False] by (simp add: LUint256_String_def lu256IsZero_val)
qed

section \<open>Reading a numeral\<close>

text \<open>The loop over the digits computes the number of the digits modulo \<open>2 ^ 256\<close>.\<close>

lemma digit_of_less: "digit_of ch = Some d \<Longrightarrow> d < 16"
  by (auto simp: digit_of_def char_between_def split: if_splits)

lemma parse_digits_value:
  assumes "base \<le> 16" "val r = acc mod 2 ^ 256"
  shows "(digits_value base acc s = None \<longrightarrow> parse_digits base r s = Inl errInvalidNumber) \<and>
    (\<forall>n. digits_value base acc s = Some n \<longrightarrow> (\<exists>r'. parse_digits base r s = Inr r' \<and> val r' = n mod 2 ^ 256))"
  using assms(2)
proof (induction s arbitrary: r acc)
  case (Cons ch s)
  show ?case
  proof (cases "\<exists>d. digit_of ch = Some d \<and> d < base")
    case True
    then obtain d where d: "digit_of ch = Some d" "d < base" by blast
    then have d16: "d < 2 ^ 64" "base < 2 ^ 64" using assms(1) by simp_all
    let ?r = "lu256Add (lu256Mul r (LU256 (word_of_nat base) 0 0 0)) (LU256 (word_of_nat d) 0 0 0)"
    have b: "val (LU256 (word_of_nat base) 0 0 0) = base" "val (LU256 (word_of_nat d) 0 0 0) = d"
      using unat_of_nat_u64 [OF d16(2)] unat_of_nat_u64 [OF d16(1)] by (simp_all add: val_LU256)
    have "val (lu256Mul r (LU256 (word_of_nat base) 0 0 0)) = val r * base mod 2 ^ 256"
      using mul_carry_free_small lu256Mul_exact_iff b(1) d16(2) by metis
    then have "val ?r = (val r * base mod 2 ^ 256 + d) mod 2 ^ 256" by (simp add: val_lu256Add b(2))
    also have "\<dots> = (acc * base + d) mod 2 ^ 256"
      unfolding Cons.prems by (simp only: mod_add_left_eq mod_mult_left_eq)
    finally show ?thesis using Cons.IH [of ?r "acc * base + d"] d by simp
  next
    case False
    then show ?thesis by (auto split: option.splits)
  qed
qed simp

lemma decimal_chars: "set (decimal n) \<subseteq> {ch. char_between (CHR ''0'') (CHR ''9'') ch}"
proof (induction n rule: decimal.induct)
  case (1 n)
  have "char_between (CHR ''0'') (CHR ''9'') (digit_char d)" if "d < 10" for d
    using that by (simp add: char_between_def digit_char_def)
  then show ?case using 1 by (subst decimal.simps) auto
qed

lemma decimal_not_prefixed:
  assumes "c \<in> {CHR ''x'', CHR ''X'', CHR ''b'', CHR ''B''}"
  shows "\<not> strings_HasPrefix (decimal n) [CHR ''0'', c]"
proof
  assume "strings_HasPrefix (decimal n) [CHR ''0'', c]"
  then obtain t where "decimal n = [CHR ''0'', c] @ t"
    by (metis append_take_drop_id strings_HasPrefix_def)
  then have "c \<in> set (decimal n)" by simp
  then have "char_between (CHR ''0'') (CHR ''9'') c" using decimal_chars by blast
  then show False using assms by (auto simp: char_between_def)
qed

lemma TrimSpace_decimal: "strings_TrimSpace (decimal n) = decimal n"
proof -
  have ne: "decimal n \<noteq> []" using length_decimal_pos [of n] by (intro notI) simp
  then have "char_between (CHR ''0'') (CHR ''9'') (hd (decimal n))" "char_between (CHR ''0'') (CHR ''9'') (last (decimal n))"
    using decimal_chars [of n] hd_in_set last_in_set by blast+
  with ne show ?thesis by (intro TrimSpace_visible) (simp_all add: char_between_def)
qed

lemma parseUint256_decimal: "\<exists>r. parseUint256 (decimal n) = Inr r \<and> val r = n mod 2 ^ 256"
proof -
  have ne: "decimal n \<noteq> []" "hd (decimal n) \<noteq> CHR ''-''"
  proof -
    show "decimal n \<noteq> []" using length_decimal_pos [of n] by auto
    then have "hd (decimal n) \<in> set (decimal n)" by simp
    then have "char_between (CHR ''0'') (CHR ''9'') (hd (decimal n))" using decimal_chars by blast
    then show "hd (decimal n) \<noteq> CHR ''-''" by (auto simp: char_between_def)
  qed
  have "parseUint256 (decimal n) = parse_digits 10 LUint256Zero (decimal n)"
    using ne by (simp add: parseUint256_def parseUint256Base_def Let_def TrimSpace_decimal decimal_not_prefixed)
  then show ?thesis using parse_digits_value [of 10 LUint256Zero 0 "decimal n"] digits_value_decimal [of n] by simp
qed

section \<open>Properties\<close>

text \<open>Printing a number never panics and gives its decimal text, and parsing that text gives
the number back; the text of any number, however large, parses to its value modulo
\<open>2 ^ 256\<close>: a literal out of range is not an error but wraps around.\<close>

theorem number_text_roundtrip:
  "LUint256_String v = Inr (decimal (val v)) \<and> parseUint256 (decimal (val v)) = Inr v \<and>
   (\<exists>r. parseUint256 (decimal n) = Inr r \<and> val r = n mod 2 ^ 256)"
proof (intro conjI)
  obtain r where r: "parseUint256 (decimal (val v)) = Inr r" "val r = val v mod 2 ^ 256"
    using parseUint256_decimal by blast
  then have "r = v" using val_less [of v] by (simp flip: val_inject)
  with r show "parseUint256 (decimal (val v)) = Inr v" by simp
qed (rule LUint256_String_decimal parseUint256_decimal)+

end
