(* ===== verification/Codecs.thy ===== *)
theory Codecs
  imports Values
begin

text \<open>
  The byte-level primitives of the bytecode format (\<^verbatim>\<open>bytecode.go\<close>: \<^verbatim>\<open>byteReader\<close>,
  \<^verbatim>\<open>writeU8\<close> ... \<^verbatim>\<open>readString\<close>, \<^verbatim>\<open>writeConst\<close>, \<^verbatim>\<open>readConst\<close>) and the
  contract an encoder and its decoder keep (locale \<open>codec\<close>), interpreted on each of them.

  A reader is the list of the bytes not read yet: the \<^verbatim>\<open>byteReader\<close> of the code is an array
  with a position, of which only what lies behind the position is ever looked at. Writers
  return the bytes they append to the buffer.
\<close>

type_synonym reader = "u8 list"
type_synonym 'a decoder = "reader \<Rightarrow> go_error + ('a \<times> reader)"
type_synonym 'a encoder = "'a \<Rightarrow> go_error + u8 list"

definition bytes_of :: "string \<Rightarrow> u8 list" where
  "bytes_of = map (\<lambda>c. word_of_nat (of_char c))"

definition string_of :: "u8 list \<Rightarrow> string" where
  "string_of = map (\<lambda>b. char_of (unat b))"

section \<open>Reading and writing machine integers and strings\<close>

text \<open>\<^verbatim>\<open>io.ReadFull\<close> on a \<^verbatim>\<open>byteReader\<close>.\<close>

definition io_ReadFull :: "nat \<Rightarrow> (u8 list) decoder" where
  "io_ReadFull n r =
     (if n = 0 then Inr ([], r)
      else if r = [] then Inl ErrEOF
      else if length r < n then Inl ErrUnexpectedEOF
      else Inr (take n r, drop n r))"

text \<open>\<^verbatim>\<open>binary.Write\<close> and \<^verbatim>\<open>binary.Read\<close> in big-endian order.\<close>

definition put_be :: "nat \<Rightarrow> 'a::len word \<Rightarrow> u8 list" where
  "put_be k v = rev (wdigits k (unat v))"

definition get_be :: "u8 list \<Rightarrow> 'a::len word" where
  "get_be bs = word_of_nat (wval (rev bs))"

definition writeU8 :: "u8 \<Rightarrow> u8 list" where
  "writeU8 v = [v]"

definition writeU16 :: "u16 \<Rightarrow> u8 list" where
  "writeU16 v = put_be 2 v"

definition writeU32 :: "u32 \<Rightarrow> u8 list" where
  "writeU32 v = put_be 4 v"

text \<open>The argument is the \<^verbatim>\<open>int\<close> of the caller, converted by \<^verbatim>\<open>int32(...)\<close>.\<close>

definition writeI32 :: "int \<Rightarrow> u8 list" where
  "writeI32 v = put_be 4 (word_of_int v :: u32)"

definition writeString :: "string \<Rightarrow> u8 list" where
  "writeString s = writeU32 (word_of_nat (length s)) @ bytes_of s"

definition readU8 :: "u8 decoder" where
  "readU8 r = bindr (io_ReadFull 1 r) (\<lambda>(b, r). Inr (b ! 0, r))"

definition readU16 :: "u16 decoder" where
  "readU16 r = bindr (io_ReadFull 2 r) (\<lambda>(b, r). Inr (get_be b, r))"

definition readU32 :: "u32 decoder" where
  "readU32 r = bindr (io_ReadFull 4 r) (\<lambda>(b, r). Inr (get_be b, r))"

text \<open>The \<^verbatim>\<open>int32\<close> read, as the \<^verbatim>\<open>int\<close> the callers convert it to.\<close>

definition readI32 :: "int decoder" where
  "readI32 r = bindr (io_ReadFull 4 r) (\<lambda>(b, r). Inr (sint (get_be b :: u32), r))"

definition readString :: "string decoder" where
  "readString r =
     bindr (readU32 r) (\<lambda>(n, r).
       if n = 0 then Inr ([], r)
       else if word_of_nat (length r) < n then Inl ErrUnexpectedEOF
       else Inr (string_of (take (unat n) r), drop (unat n) r))"

section \<open>Constants\<close>

definition bcConstNil :: u8 where "bcConstNil = 0"
definition bcConstBool :: u8 where "bcConstBool = 1"
definition bcConstNumber :: u8 where "bcConstNumber = 2"
definition bcConstString :: u8 where "bcConstString = 3"
definition bcConstAgent :: u8 where "bcConstAgent = 4"

definition put_le64 :: "u64 \<Rightarrow> u8 list" where
  "put_le64 v = wdigits 8 (unat v)"

definition get_le64 :: "u8 list \<Rightarrow> u64" where
  "get_le64 bs = word_of_nat (wval bs)"

fun writeConst :: "LValue encoder" where
  "writeConst LNil = Inr (writeU8 bcConstNil)"
| "writeConst (LBool b) = Inr (writeU8 bcConstBool @ writeU8 (if b then 1 else 0))"
| "writeConst (LNum lv) =
     Inr (writeU8 bcConstNumber @ put_le64 (lo lv) @ put_le64 (ml lv) @ put_le64 (mh lv) @ put_le64 (hi lv))"
| "writeConst (LString s) = Inr (writeU8 bcConstString @ writeString s)"
| "writeConst (LAgent s) = Inr (writeU8 bcConstAgent @ writeString s)"
| "writeConst v = Inl (Errorf ''unsupported constant type: %T'' [SArg (LValueType_String (LValue_Type v))])"

definition readConst :: "LValue decoder" where
  "readConst r =
     bindr (readU8 r) (\<lambda>(tag, r).
       if tag = bcConstNil then Inr (LNil, r)
       else if tag = bcConstBool then bindr (readU8 r) (\<lambda>(b, r). Inr (LBool (b \<noteq> 0), r))
       else if tag = bcConstNumber
       then bindr (wrap_error ''truncated number constant'' (io_ReadFull 32 r)) (\<lambda>(buf, r).
              Inr (LNum (LU256 (get_le64 (take 8 buf)) (get_le64 (take 8 (drop 8 buf)))
                (get_le64 (take 8 (drop 16 buf))) (get_le64 (take 8 (drop 24 buf)))), r))
       else if tag = bcConstString then bindr (readString r) (\<lambda>(s, r). Inr (LString s, r))
       else if tag = bcConstAgent
       then bindr (readString r) (\<lambda>(s, r). bindr (parseAgentString s) (\<lambda>addr. Inr (LAgent addr, r)))
       else Inl (Errorf ''unknown constant tag: %d'' [IArg (uint tag)]))"

section \<open>Sequences\<close>

text \<open>A length as \<^verbatim>\<open>uint32\<close>, then the elements; and the loop that reads them back.\<close>

fun write_all :: "'a encoder \<Rightarrow> 'a list encoder" where
  "write_all enc [] = Inr []"
| "write_all enc (x # xs) = bindr (enc x) (\<lambda>b. bindr (write_all enc xs) (\<lambda>bs. Inr (b @ bs)))"

definition write_list :: "'a encoder \<Rightarrow> 'a list encoder" where
  "write_list enc xs =
     bindr (write_all enc xs) (\<lambda>bs. Inr (writeU32 (word_of_nat (length xs)) @ bs))"

fun read_n :: "'a decoder \<Rightarrow> nat \<Rightarrow> 'a list decoder" where
  "read_n dec 0 r = Inr ([], r)"
| "read_n dec (Suc n) r =
     bindr (dec r) (\<lambda>(x, r). bindr (read_n dec n r) (\<lambda>(xs, r). Inr (x # xs, r)))"

definition read_list :: "'a decoder \<Rightarrow> 'a list decoder" where
  "read_list dec r = bindr (readU32 r) (\<lambda>(n, r). read_n dec (unat n) r)"

section \<open>The contract of an encoder and a decoder\<close>

text \<open>A reader that has gone on by at least one byte.\<close>

definition eats :: "reader \<Rightarrow> reader \<Rightarrow> bool" where
  "eats r r' \<longleftrightarrow> (\<exists>p. p \<noteq> [] \<and> r = p @ r')"

lemma eats_trans [trans]: "eats r r1 \<Longrightarrow> eats r1 r2 \<Longrightarrow> eats r r2"
  by (force simp: eats_def)

lemma eats_shorter: "eats r r' \<Longrightarrow> length r' < length r"
  by (auto simp: eats_def)

text \<open>
  \<open>ok\<close> are the values the format can represent. The buffer is shorter than \<open>2 ^ 32\<close> bytes:
  the code compares string lengths after truncating the number of bytes left to 32 bits.
\<close>

locale codec =
  fixes enc :: "'a encoder" and dec :: "'a decoder" and ok :: "'a \<Rightarrow> bool"
  assumes encodes: "ok x \<Longrightarrow> \<exists>bs. enc x = Inr bs"
    and dec_enc: "ok x \<Longrightarrow> enc x = Inr bs \<Longrightarrow> length (bs @ r) < 2 ^ 32 \<Longrightarrow> dec (bs @ r) = Inr (x, r)"
    and consumes: "dec r = Inr (x, r') \<Longrightarrow> eats r r'"
begin

lemma shorter: "dec r = Inr (x, r') \<Longrightarrow> length r' < length r"
  using consumes by (blast intro: eats_shorter)

lemma encodes_all: "list_all ok xs \<Longrightarrow> \<exists>bs. write_all enc xs = Inr bs"
  by (induction xs) (auto dest!: encodes)

lemma read_n_write_all:
  "list_all ok xs \<Longrightarrow> write_all enc xs = Inr bs \<Longrightarrow> length (bs @ r) < 2 ^ 32 \<Longrightarrow>
   read_n dec (length xs) (bs @ r) = Inr (xs, r)"
proof (induction xs arbitrary: bs)
  case Nil
  then show ?case by simp
next
  case (Cons x xs)
  then obtain b bs' where b: "enc x = Inr b" "write_all enc xs = Inr bs'" "bs = b @ bs'" by auto
  have "dec (b @ (bs' @ r)) = Inr (x, bs' @ r)"
    using Cons.prems b by (intro dec_enc) auto
  moreover have "read_n dec (length xs) (bs' @ r) = Inr (xs, r)"
    using Cons.prems b by (intro Cons.IH) auto
  ultimately show ?case using b(3) by simp
qed

lemma read_n_consumes: "read_n dec n r = Inr (xs, r') \<Longrightarrow> length xs = n \<and> (\<exists>p. r = p @ r')"
proof (induction n arbitrary: r xs)
  case 0
  then show ?case by simp
next
  case (Suc n)
  then obtain x r1 ys where x: "dec r = Inr (x, r1)" "read_n dec n r1 = Inr (ys, r')" "xs = x # ys" by auto
  from consumes [OF x(1)] Suc.IH [OF x(2)] x(3) show ?case by (auto simp: eats_def)
qed

text \<open>No value is encoded as nothing, so a list is never longer than its encoding.\<close>

lemma enc_nonempty:
  assumes "ok x" "enc x = Inr bs" "length bs < 2 ^ 32" shows "bs \<noteq> []"
  using consumes [OF dec_enc [OF assms(1,2), of "[]"]] assms(3) by (auto simp: eats_def)

lemma length_write_all:
  "list_all ok xs \<Longrightarrow> write_all enc xs = Inr bs \<Longrightarrow> length bs < 2 ^ 32 \<Longrightarrow> length xs \<le> length bs"
proof (induction xs arbitrary: bs)
  case Nil
  then show ?case by simp
next
  case (Cons x xs)
  then obtain b bs' where b: "enc x = Inr b" "write_all enc xs = Inr bs'" "bs = b @ bs'" by auto
  have "b \<noteq> []" using enc_nonempty [OF _ b(1)] Cons.prems b(3) by auto
  moreover have "length xs \<le> length bs'" using Cons b by auto
  ultimately show ?case using b(3) by (cases b) auto
qed

end

section \<open>The primitives keep the contract\<close>

lemma io_ReadFull_append: "length bs = n \<Longrightarrow> io_ReadFull n (bs @ r) = Inr (bs, r)"
  by (cases bs) (auto simp: io_ReadFull_def)

lemma io_ReadFull_consumes:
  assumes "io_ReadFull n r = Inr (b, r')" shows "length b = n \<and> r = b @ r'"
  using assms by (auto simp: io_ReadFull_def min_def split: if_splits)

lemma length_put_be [simp]: "length (put_be k v) = k"
  by (simp add: put_be_def)

lemma get_be_put_be:
  assumes "8 * k = LENGTH('a::len)" shows "get_be (put_be k (v :: 'a word)) = v"
  using assms unsigned_less [of v] by (simp add: get_be_def put_be_def wval_wdigits)

lemma get_le64_put_le64 [simp]: "get_le64 (put_le64 v) = v"
  using unat_u64_less [of v] by (simp add: get_le64_def put_le64_def wval_wdigits)

lemma length_put_le64 [simp]: "length (put_le64 v) = 8"
  by (simp add: put_le64_def)

lemma string_of_bytes_of [simp]: "string_of (bytes_of s) = s"
proof -
  have "char_of (unat (word_of_nat (of_char c) :: u8)) = c" for c
    by (simp add: unsigned_of_nat take_bit_eq_mod)
  then show ?thesis by (simp add: string_of_def bytes_of_def comp_def)
qed

lemma bytes_of_Nil [simp]: "bytes_of [] = []"
  by (simp add: bytes_of_def)

lemma length_bytes_of [simp]: "length (bytes_of s) = length s"
  by (simp add: bytes_of_def)

lemma readU8_write [simp]: "readU8 (writeU8 v @ r) = Inr (v, r)"
  using io_ReadFull_append [of "[v]" 1 r] by (simp add: readU8_def writeU8_def)

lemma readU16_write [simp]: "readU16 (writeU16 v @ r) = Inr (v, r)"
  by (simp add: readU16_def writeU16_def io_ReadFull_append get_be_put_be)

lemma readU32_write [simp]: "readU32 (writeU32 v @ r) = Inr (v, r)"
  by (simp add: readU32_def writeU32_def io_ReadFull_append get_be_put_be)

lemma readI32_write: "- (2 ^ 31) \<le> i \<Longrightarrow> i < 2 ^ 31 \<Longrightarrow> readI32 (writeI32 i @ r) = Inr (i, r)"
  by (simp add: readI32_def writeI32_def io_ReadFull_append get_be_put_be signed_of_int
      signed_take_bit_int_eq_self)

lemma readU8_consumes: "readU8 r = Inr (x, r') \<Longrightarrow> eats r r'"
  by (auto simp: readU8_def eats_def dest!: io_ReadFull_consumes)

lemma readU16_consumes: "readU16 r = Inr (x, r') \<Longrightarrow> eats r r'"
  by (force simp: readU16_def eats_def dest!: io_ReadFull_consumes)

lemma readU32_consumes: "readU32 r = Inr (x, r') \<Longrightarrow> eats r r'"
  by (force simp: readU32_def eats_def dest!: io_ReadFull_consumes)

lemma readI32_consumes: "readI32 r = Inr (x, r') \<Longrightarrow> eats r r'"
  by (force simp: readI32_def eats_def dest!: io_ReadFull_consumes)

text \<open>Consuming decoders compose.\<close>

lemma consumes_trans: "eats r r1 \<Longrightarrow> \<exists>p. r1 = p @ r2 \<Longrightarrow> eats r r2"
  by (force simp: eats_def)

lemma readString_consumes:
  assumes "readString r = Inr (x, r')" shows "eats r r'"
proof -
  from assms obtain n r1 where n: "readU32 r = Inr (n, r1)" and r: "r' = r1 \<or> r' = drop (unat n) r1"
    by (auto simp: readString_def split: if_splits)
  have "\<exists>p. r1 = p @ r'" using r by (metis append_Nil append_take_drop_id)
  with readU32_consumes [OF n] show ?thesis by (rule consumes_trans)
qed

lemma readString_write:
  assumes "length (writeString s @ r) < 2 ^ 32"
  shows "readString (writeString s @ r) = Inr (s, r)"
proof -
  have l: "4 + length s + length r < 2 ^ 32" using assms by (simp add: writeString_def writeU32_def)
  let ?n = "word_of_nat (length s) :: u32"
  have n: "unat ?n = length s" using l by (simp add: unsigned_of_nat take_bit_eq_mod)
  have m: "unat (word_of_nat (length s + length r) :: u32) = length s + length r"
    using l by (simp add: unsigned_of_nat take_bit_eq_mod del: of_nat_add)
  have "\<not> word_of_nat (length s + length r) < ?n" by (simp only: word_less_nat_alt n m not_add_less1 not_False_eq_True)
  moreover have "?n = 0 \<longleftrightarrow> s = []" using n by (metis length_0_conv unat_eq_zero)
  moreover have "take (length s) (bytes_of s @ r) = bytes_of s" "drop (length s) (bytes_of s @ r) = r"
    by simp_all
  ultimately show ?thesis
    by (auto simp: readString_def writeString_def n simp del: of_nat_add)
qed

text \<open>If the elements keep the contract, so do the lists.\<close>

context codec
begin

lemma list_codec: "codec (write_list enc) (read_list dec) (list_all ok)"
proof
  fix xs
  show "list_all ok xs \<Longrightarrow> \<exists>bs. write_list enc xs = Inr bs"
    using encodes_all [of xs] by (auto simp: write_list_def)
next
  fix xs bs r
  assume ok: "list_all ok xs" and w: "write_list enc xs = Inr bs" and l: "length (bs @ r) < 2 ^ 32"
  from w obtain b where b: "write_all enc xs = Inr b" "bs = writeU32 (word_of_nat (length xs)) @ b"
    by (auto simp: write_list_def)
  have "length xs \<le> length b" using l b(2) by (intro length_write_all [OF ok b(1)]) auto
  then have n: "unat (word_of_nat (length xs) :: u32) = length xs"
    using l b(2) by (simp add: unsigned_of_nat take_bit_eq_mod)
  have "read_n dec (length xs) (b @ r) = Inr (xs, r)"
    using l b(2) by (intro read_n_write_all [OF ok b(1)]) auto
  then show "read_list dec (bs @ r) = Inr (xs, r)" by (simp add: read_list_def b(2) n)
next
  fix r xs r'
  assume "read_list dec r = Inr (xs, r')"
  then obtain n r1 where n: "readU32 r = Inr (n, r1)" "read_n dec (unat n) r1 = Inr (xs, r')"
    by (auto simp: read_list_def)
  have "\<exists>p. r1 = p @ r'" using read_n_consumes [OF n(2)] by blast
  with readU32_consumes [OF n(1)] show "eats r r'" by (rule consumes_trans)
qed

end

interpretation u8c: codec "\<lambda>v. Inr (writeU8 v)" readU8 "\<lambda>_. True"
  by unfold_locales (auto dest: readU8_consumes)

interpretation u32c: codec "\<lambda>v. Inr (writeU32 v)" readU32 "\<lambda>_. True"
  by unfold_locales (auto dest: readU32_consumes)

definition fits_i32 :: "int \<Rightarrow> bool" where
  "fits_i32 i \<longleftrightarrow> - (2 ^ 31) \<le> i \<and> i < 2 ^ 31"

interpretation i32c: codec "\<lambda>v. Inr (writeI32 v)" readI32 fits_i32
  by unfold_locales (auto simp: fits_i32_def readI32_write dest: readI32_consumes)

interpretation strc: codec "\<lambda>s. Inr (writeString s)" readString "\<lambda>_. True"
  by unfold_locales (auto simp: readString_write dest: readString_consumes)

text \<open>The constants the format can hold; an address must be in canonical form.\<close>

fun encodable_const :: "LValue \<Rightarrow> bool" where
  "encodable_const (LAgent a) = canonical_agent a"
| "encodable_const (LFunction _) = False"
| "encodable_const (LUserData _) = False"
| "encodable_const (LTable _) = False"
| "encodable_const _ = True"

lemmas bcConst_defs = bcConstNil_def bcConstBool_def bcConstNumber_def bcConstString_def bcConstAgent_def

lemma readConst_tags:
  "readConst (writeU8 bcConstNil @ r) = Inr (LNil, r)"
  "readConst (writeU8 bcConstBool @ r) = bindr (readU8 r) (\<lambda>(b, r). Inr (LBool (b \<noteq> 0), r))"
  "readConst (writeU8 bcConstNumber @ r) =
     bindr (wrap_error ''truncated number constant'' (io_ReadFull 32 r)) (\<lambda>(buf, r).
       Inr (LNum (LU256 (get_le64 (take 8 buf)) (get_le64 (take 8 (drop 8 buf)))
         (get_le64 (take 8 (drop 16 buf))) (get_le64 (take 8 (drop 24 buf)))), r))"
  "readConst (writeU8 bcConstString @ r) = bindr (readString r) (\<lambda>(s, r). Inr (LString s, r))"
  "readConst (writeU8 bcConstAgent @ r) =
     bindr (readString r) (\<lambda>(s, r). bindr (parseAgentString s) (\<lambda>addr. Inr (LAgent addr, r)))"
  by (simp_all add: readConst_def bcConst_defs)

lemma readConst_write:
  assumes ok: "encodable_const c" and w: "writeConst c = Inr bs" and l: "length (bs @ r) < 2 ^ 32"
  shows "readConst (bs @ r) = Inr (c, r)"
proof (cases c)
  case LNil
  then show ?thesis using w by (auto simp: readConst_tags)
next
  case (LBool b)
  then show ?thesis using w by (auto simp: readConst_tags)
next
  case (LNum lv)
  let ?b = "put_le64 (lo lv) @ put_le64 (ml lv) @ put_le64 (mh lv) @ put_le64 (hi lv)"
  have "io_ReadFull 32 (?b @ r) = Inr (?b, r)" by (rule io_ReadFull_append) simp
  then have "readConst (writeU8 bcConstNumber @ ?b @ r) = Inr (c, r)"
    unfolding readConst_tags LNum by (cases lv) simp
  then show ?thesis using w LNum by auto
next
  case (LString s)
  then have "bs = writeU8 bcConstString @ writeString s" using w by simp
  then show ?thesis using l LString readString_write [of s r] by (simp add: readConst_tags del: bindr_Inr_iff)
next
  case (LAgent s)
  then have "bs = writeU8 bcConstAgent @ writeString s" using w by simp
  then show ?thesis using l ok LAgent readString_write [of s r] parseAgentString_canonical [of s]
    by (simp add: readConst_tags del: bindr_Inr_iff)
qed (use ok in auto)

lemma readConst_consumes:
  assumes "readConst r = Inr (x, r')" shows "eats r r'"
proof -
  from assms obtain tag r1 where t: "readU8 r = Inr (tag, r1)" by (auto simp: readConst_def)
  have "\<exists>p. r1 = p @ r'"
    using assms t
    by (auto simp: readConst_def eats_def split: if_splits
        dest!: readU8_consumes readString_consumes io_ReadFull_consumes)
  with readU8_consumes [OF t] show ?thesis by (rule consumes_trans)
qed

interpretation constc: codec writeConst readConst encodable_const
proof
  fix x
  show "encodable_const x \<Longrightarrow> \<exists>bs. writeConst x = Inr bs" by (cases x) auto
qed (auto simp: readConst_write dest: readConst_consumes)

end
