(* ===== verification/Opcodes.thy ===== *)
theory Opcodes
  imports Prelude
begin

text \<open>
  The instruction set (\<^verbatim>\<open>opcode.go\<close>): the 49 opcodes with their properties table, the
  field layout of a 32-bit instruction (getters, setters, constructors), the register or
  constant operands, and the disassembler line of an instruction. The main results: the
  getters read back what the constructors and setters wrote, every word is rebuilt from its
  fields in each of the three formats, and a setter leaves the other fields alone.
\<close>

section \<open>Opcodes\<close>

text \<open>The \<^verbatim>\<open>iota\<close> constants, in the order of the source; \<open>op_code\<close> is the number.\<close>

datatype opcode =
    OP_MOVE | OP_MOVEN | OP_LOADK | OP_LOADBOOL | OP_LOADNIL | OP_GETUPVAL
  | OP_GETGLOBAL | OP_GETTABLE | OP_GETTABLEKS | OP_SETGLOBAL | OP_SETUPVAL | OP_SETTABLE
  | OP_SETTABLEKS | OP_NEWTABLE | OP_SELF | OP_ADD | OP_SUB | OP_MUL
  | OP_DIV | OP_MOD | OP_POW | OP_UNM | OP_NOT | OP_LEN
  | OP_CONCAT | OP_JMP | OP_EQ | OP_LT | OP_LE | OP_TEST
  | OP_TESTSET | OP_CALL | OP_TAILCALL | OP_RETURN | OP_FORLOOP | OP_FORPREP
  | OP_TFORLOOP | OP_SETLIST | OP_CLOSE | OP_CLOSURE | OP_VARARG | OP_BAND
  | OP_BOR | OP_BXOR | OP_SHL | OP_SHR | OP_IDIV | OP_BNOT
  | OP_NOP

fun op_code :: "opcode \<Rightarrow> int" where
  "op_code OP_MOVE = 0"
| "op_code OP_MOVEN = 1"
| "op_code OP_LOADK = 2"
| "op_code OP_LOADBOOL = 3"
| "op_code OP_LOADNIL = 4"
| "op_code OP_GETUPVAL = 5"
| "op_code OP_GETGLOBAL = 6"
| "op_code OP_GETTABLE = 7"
| "op_code OP_GETTABLEKS = 8"
| "op_code OP_SETGLOBAL = 9"
| "op_code OP_SETUPVAL = 10"
| "op_code OP_SETTABLE = 11"
| "op_code OP_SETTABLEKS = 12"
| "op_code OP_NEWTABLE = 13"
| "op_code OP_SELF = 14"
| "op_code OP_ADD = 15"
| "op_code OP_SUB = 16"
| "op_code OP_MUL = 17"
| "op_code OP_DIV = 18"
| "op_code OP_MOD = 19"
| "op_code OP_POW = 20"
| "op_code OP_UNM = 21"
| "op_code OP_NOT = 22"
| "op_code OP_LEN = 23"
| "op_code OP_CONCAT = 24"
| "op_code OP_JMP = 25"
| "op_code OP_EQ = 26"
| "op_code OP_LT = 27"
| "op_code OP_LE = 28"
| "op_code OP_TEST = 29"
| "op_code OP_TESTSET = 30"
| "op_code OP_CALL = 31"
| "op_code OP_TAILCALL = 32"
| "op_code OP_RETURN = 33"
| "op_code OP_FORLOOP = 34"
| "op_code OP_FORPREP = 35"
| "op_code OP_TFORLOOP = 36"
| "op_code OP_SETLIST = 37"
| "op_code OP_CLOSE = 38"
| "op_code OP_CLOSURE = 39"
| "op_code OP_VARARG = 40"
| "op_code OP_BAND = 41"
| "op_code OP_BOR = 42"
| "op_code OP_BXOR = 43"
| "op_code OP_SHL = 44"
| "op_code OP_SHR = 45"
| "op_code OP_IDIV = 46"
| "op_code OP_BNOT = 47"
| "op_code OP_NOP = 48"

definition all_ops :: "opcode list" where
  "all_ops =
    [OP_MOVE, OP_MOVEN, OP_LOADK, OP_LOADBOOL, OP_LOADNIL, OP_GETUPVAL,
     OP_GETGLOBAL, OP_GETTABLE, OP_GETTABLEKS, OP_SETGLOBAL, OP_SETUPVAL, OP_SETTABLE,
     OP_SETTABLEKS, OP_NEWTABLE, OP_SELF, OP_ADD, OP_SUB, OP_MUL,
     OP_DIV, OP_MOD, OP_POW, OP_UNM, OP_NOT, OP_LEN,
     OP_CONCAT, OP_JMP, OP_EQ, OP_LT, OP_LE, OP_TEST,
     OP_TESTSET, OP_CALL, OP_TAILCALL, OP_RETURN, OP_FORLOOP, OP_FORPREP,
     OP_TFORLOOP, OP_SETLIST, OP_CLOSE, OP_CLOSURE, OP_VARARG, OP_BAND,
     OP_BOR, OP_BXOR, OP_SHL, OP_SHR, OP_IDIV, OP_BNOT,
     OP_NOP]"

definition opCodeMax :: int where
  "opCodeMax = op_code OP_NOP"

text \<open>The opcode of a number, when there is one.\<close>

definition op_at :: "int \<Rightarrow> opcode option" where
  "op_at i = (if 0 \<le> i \<and> i \<le> opCodeMax then Some (all_ops ! nat i) else None)"

datatype opArgMode = opArgModeN | opArgModeU | opArgModeR | opArgModeK

datatype opType = opTypeABC | opTypeABx | opTypeASbx

record opProp =
  prop_Name :: string
  prop_IsTest :: bool
  prop_SetRegA :: bool
  prop_ModeArgB :: opArgMode
  prop_ModeArgC :: opArgMode
  prop_Type :: opType

definition mkProp :: "string \<Rightarrow> bool \<Rightarrow> bool \<Rightarrow> opArgMode \<Rightarrow> opArgMode \<Rightarrow> opType \<Rightarrow> opProp" where
  "mkProp n t s b c ty =
     \<lparr>prop_Name = n, prop_IsTest = t, prop_SetRegA = s, prop_ModeArgB = b, prop_ModeArgC = c,
      prop_Type = ty\<rparr>"

definition opProps :: "opProp list" where
  "opProps =
    [mkProp ''MOVE'' False True opArgModeR opArgModeN opTypeABC,
     mkProp ''MOVEN'' False True opArgModeR opArgModeN opTypeABC,
     mkProp ''LOADK'' False True opArgModeK opArgModeN opTypeABx,
     mkProp ''LOADBOOL'' False True opArgModeU opArgModeU opTypeABC,
     mkProp ''LOADNIL'' False True opArgModeR opArgModeN opTypeABC,
     mkProp ''GETUPVAL'' False True opArgModeU opArgModeN opTypeABC,
     mkProp ''GETGLOBAL'' False True opArgModeK opArgModeN opTypeABx,
     mkProp ''GETTABLE'' False True opArgModeR opArgModeK opTypeABC,
     mkProp ''GETTABLEKS'' False True opArgModeR opArgModeK opTypeABC,
     mkProp ''SETGLOBAL'' False False opArgModeK opArgModeN opTypeABx,
     mkProp ''SETUPVAL'' False False opArgModeU opArgModeN opTypeABC,
     mkProp ''SETTABLE'' False False opArgModeK opArgModeK opTypeABC,
     mkProp ''SETTABLEKS'' False False opArgModeK opArgModeK opTypeABC,
     mkProp ''NEWTABLE'' False True opArgModeU opArgModeU opTypeABC,
     mkProp ''SELF'' False True opArgModeR opArgModeK opTypeABC,
     mkProp ''ADD'' False True opArgModeK opArgModeK opTypeABC,
     mkProp ''SUB'' False True opArgModeK opArgModeK opTypeABC,
     mkProp ''MUL'' False True opArgModeK opArgModeK opTypeABC,
     mkProp ''DIV'' False True opArgModeK opArgModeK opTypeABC,
     mkProp ''MOD'' False True opArgModeK opArgModeK opTypeABC,
     mkProp ''POW'' False True opArgModeK opArgModeK opTypeABC,
     mkProp ''UNM'' False True opArgModeR opArgModeN opTypeABC,
     mkProp ''NOT'' False True opArgModeR opArgModeN opTypeABC,
     mkProp ''LEN'' False True opArgModeR opArgModeN opTypeABC,
     mkProp ''CONCAT'' False True opArgModeR opArgModeR opTypeABC,
     mkProp ''JMP'' False False opArgModeR opArgModeN opTypeASbx,
     mkProp ''EQ'' True False opArgModeK opArgModeK opTypeABC,
     mkProp ''LT'' True False opArgModeK opArgModeK opTypeABC,
     mkProp ''LE'' True False opArgModeK opArgModeK opTypeABC,
     mkProp ''TEST'' True True opArgModeR opArgModeU opTypeABC,
     mkProp ''TESTSET'' True True opArgModeR opArgModeU opTypeABC,
     mkProp ''CALL'' False True opArgModeU opArgModeU opTypeABC,
     mkProp ''TAILCALL'' False True opArgModeU opArgModeU opTypeABC,
     mkProp ''RETURN'' False False opArgModeU opArgModeN opTypeABC,
     mkProp ''FORLOOP'' False True opArgModeR opArgModeN opTypeASbx,
     mkProp ''FORPREP'' False True opArgModeR opArgModeN opTypeASbx,
     mkProp ''TFORLOOP'' True False opArgModeN opArgModeU opTypeABC,
     mkProp ''SETLIST'' False False opArgModeU opArgModeU opTypeABC,
     mkProp ''CLOSE'' False False opArgModeN opArgModeN opTypeABC,
     mkProp ''CLOSURE'' False True opArgModeU opArgModeN opTypeABx,
     mkProp ''VARARG'' False True opArgModeU opArgModeN opTypeABC,
     mkProp ''BAND'' False True opArgModeK opArgModeK opTypeABC,
     mkProp ''BOR'' False True opArgModeK opArgModeK opTypeABC,
     mkProp ''BXOR'' False True opArgModeK opArgModeK opTypeABC,
     mkProp ''SHL'' False True opArgModeK opArgModeK opTypeABC,
     mkProp ''SHR'' False True opArgModeK opArgModeK opTypeABC,
     mkProp ''IDIV'' False True opArgModeK opArgModeK opTypeABC,
     mkProp ''BNOT'' False True opArgModeR opArgModeN opTypeABC,
     mkProp ''NOP'' False False opArgModeR opArgModeN opTypeASbx]"

section \<open>Instruction fields\<close>

definition opInvalidInstruction :: u32 where
  "opInvalidInstruction = NOT 0"

definition opMaxArgsA :: int where "opMaxArgsA = 2 ^ 8 - 1"
definition opMaxArgsB :: int where "opMaxArgsB = 2 ^ 9 - 1"
definition opMaxArgsC :: int where "opMaxArgsC = 2 ^ 9 - 1"
definition opMaxArgBx :: int where "opMaxArgBx = 2 ^ 18 - 1"
definition opMaxArgSbx :: int where "opMaxArgSbx = drop_bit 1 opMaxArgBx"

definition opGetOpCode :: "u32 \<Rightarrow> int" where
  "opGetOpCode inst = uint (drop_bit 26 inst)"

definition opSetOpCode :: "u32 \<Rightarrow> int \<Rightarrow> u32" where
  "opSetOpCode inst opcode = (inst AND 0x3ffffff) OR word_of_int (push_bit 26 opcode)"

definition opGetArgA :: "u32 \<Rightarrow> int" where
  "opGetArgA inst = uint (drop_bit 18 inst) AND 0xff"

definition opSetArgA :: "u32 \<Rightarrow> int \<Rightarrow> u32" where
  "opSetArgA inst arg = (inst AND 0xfc03ffff) OR word_of_int (push_bit 18 (arg AND 0xff))"

definition opGetArgB :: "u32 \<Rightarrow> int" where
  "opGetArgB inst = uint (inst AND 0x1ff)"

definition opSetArgB :: "u32 \<Rightarrow> int \<Rightarrow> u32" where
  "opSetArgB inst arg = (inst AND 0xfffffe00) OR word_of_int (arg AND 0x1ff)"

definition opGetArgC :: "u32 \<Rightarrow> int" where
  "opGetArgC inst = uint (drop_bit 9 inst) AND 0x1ff"

definition opSetArgC :: "u32 \<Rightarrow> int \<Rightarrow> u32" where
  "opSetArgC inst arg = (inst AND 0xfffc01ff) OR word_of_int (push_bit 9 (arg AND 0x1ff))"

definition opGetArgBx :: "u32 \<Rightarrow> int" where
  "opGetArgBx inst = uint (inst AND 0x3ffff)"

definition opSetArgBx :: "u32 \<Rightarrow> int \<Rightarrow> u32" where
  "opSetArgBx inst arg = (inst AND 0xfffc0000) OR word_of_int (arg AND 0x3ffff)"

definition opGetArgSbx :: "u32 \<Rightarrow> int" where
  "opGetArgSbx inst = opGetArgBx inst - opMaxArgSbx"

definition opSetArgSbx :: "u32 \<Rightarrow> int \<Rightarrow> u32" where
  "opSetArgSbx inst arg = opSetArgBx inst (arg + opMaxArgSbx)"

definition opCreateABC :: "int \<Rightarrow> int \<Rightarrow> int \<Rightarrow> int \<Rightarrow> u32" where
  "opCreateABC op a b c = opSetArgC (opSetArgB (opSetArgA (opSetOpCode 0 op) a) b) c"

definition opCreateABx :: "int \<Rightarrow> int \<Rightarrow> int \<Rightarrow> u32" where
  "opCreateABx op a bx = opSetArgBx (opSetArgA (opSetOpCode 0 op) a) bx"

definition opCreateASbx :: "int \<Rightarrow> int \<Rightarrow> int \<Rightarrow> u32" where
  "opCreateASbx op a sbx = opSetArgSbx (opSetArgA (opSetOpCode 0 op) a) sbx"

text \<open>Operands that are a register or a constant.\<close>

definition opBitRk :: int where "opBitRk = push_bit (9 - 1) 1"
definition opMaxIndexRk :: int where "opMaxIndexRk = opBitRk - 1"

definition opIsK :: "int \<Rightarrow> bool" where
  "opIsK value \<longleftrightarrow> value AND opBitRk \<noteq> 0"

definition opIndexK :: "int \<Rightarrow> int" where
  "opIndexK value = value AND NOT opBitRk"

definition opRkAsk :: "int \<Rightarrow> int" where
  "opRkAsk value = value OR opBitRk"

section \<open>Disassembly\<close>

text \<open>The comment of each opcode, then the whole line.\<close>

fun op_comment :: "opcode \<Rightarrow> int \<Rightarrow> int \<Rightarrow> int \<Rightarrow> int \<Rightarrow> int \<Rightarrow> string" where
  "op_comment OP_MOVE a b _ _ _ = concat [''; R('', itoa a, '') := R('', itoa b, '')'']"
| "op_comment OP_MOVEN a b c _ _ = concat [''; R('', itoa a, '') := R('', itoa b, ''); followed by '', itoa c, '' MOVE ops'']"
| "op_comment OP_LOADK a _ _ bx _ = concat [''; R('', itoa a, '') := Kst('', itoa bx, '')'']"
| "op_comment OP_LOADBOOL a b c _ _ = concat [''; R('', itoa a, '') := (Bool)'', itoa b, ''; if ('', itoa c, '') pc++'']"
| "op_comment OP_LOADNIL a b _ _ _ = concat [''; R('', itoa a, '') := ... := R('', itoa b, '') := nil'']"
| "op_comment OP_GETUPVAL a b _ _ _ = concat [''; R('', itoa a, '') := UpValue['', itoa b, '']'']"
| "op_comment OP_GETGLOBAL a _ _ bx _ = concat [''; R('', itoa a, '') := Gbl[Kst('', itoa bx, '')]'']"
| "op_comment OP_GETTABLE a b c _ _ = concat [''; R('', itoa a, '') := R('', itoa b, '')[RK('', itoa c, '')]'']"
| "op_comment OP_GETTABLEKS a b c _ _ = concat [''; R('', itoa a, '') := R('', itoa b, '')[RK('', itoa c, '')] ; RK('', itoa c, '') is constant string'']"
| "op_comment OP_SETGLOBAL a _ _ bx _ = concat [''; Gbl[Kst('', itoa bx, '')] := R('', itoa a, '')'']"
| "op_comment OP_SETUPVAL a b _ _ _ = concat [''; UpValue['', itoa b, ''] := R('', itoa a, '')'']"
| "op_comment OP_SETTABLE a b c _ _ = concat [''; R('', itoa a, '')[RK('', itoa b, '')] := RK('', itoa c, '')'']"
| "op_comment OP_SETTABLEKS a b c _ _ = concat [''; R('', itoa a, '')[RK('', itoa b, '')] := RK('', itoa c, '') ; RK('', itoa b, '') is constant string'']"
| "op_comment OP_NEWTABLE a _ _ _ _ = concat [''; R('', itoa a, '') := {} (size = BC)'']"
| "op_comment OP_SELF a b c _ _ = concat [''; R('', itoa a, ''+1) := R('', itoa b, ''); R('', itoa a, '') := R('', itoa b, '')[RK('', itoa c, '')]'']"
| "op_comment OP_ADD a b c _ _ = concat [''; R('', itoa a, '') := RK('', itoa b, '') + RK('', itoa c, '')'']"
| "op_comment OP_SUB a b c _ _ = concat [''; R('', itoa a, '') := RK('', itoa b, '') - RK('', itoa c, '')'']"
| "op_comment OP_MUL a b c _ _ = concat [''; R('', itoa a, '') := RK('', itoa b, '') * RK('', itoa c, '')'']"
| "op_comment OP_DIV a b c _ _ = concat [''; R('', itoa a, '') := RK('', itoa b, '') / RK('', itoa c, '')'']"
| "op_comment OP_MOD a b c _ _ = concat [''; R('', itoa a, '') := RK('', itoa b, '') % RK('', itoa c, '')'']"
| "op_comment OP_POW a b c _ _ = concat [''; R('', itoa a, '') := RK('', itoa b, '') ^ RK('', itoa c, '')'']"
| "op_comment OP_UNM a b _ _ _ = concat [''; R('', itoa a, '') := -R('', itoa b, '')'']"
| "op_comment OP_NOT a b _ _ _ = concat [''; R('', itoa a, '') := not R('', itoa b, '')'']"
| "op_comment OP_LEN a b _ _ _ = concat [''; R('', itoa a, '') := length of R('', itoa b, '')'']"
| "op_comment OP_CONCAT a b c _ _ = concat [''; R('', itoa a, '') := R('', itoa b, '').. ... ..R('', itoa c, '')'']"
| "op_comment OP_JMP _ _ _ _ sbx = concat [''; pc+='', itoa sbx]"
| "op_comment OP_EQ a b c _ _ = concat [''; if ((RK('', itoa b, '') == RK('', itoa c, '')) ~= '', itoa a, '') then pc++'']"
| "op_comment OP_LT a b c _ _ = concat [''; if ((RK('', itoa b, '') <  RK('', itoa c, '')) ~= '', itoa a, '') then pc++'']"
| "op_comment OP_LE a b c _ _ = concat [''; if ((RK('', itoa b, '') <= RK('', itoa c, '')) ~= '', itoa a, '') then pc++'']"
| "op_comment OP_TEST a _ c _ _ = concat [''; if not (R('', itoa a, '') <=> '', itoa c, '') then pc++'']"
| "op_comment OP_TESTSET a b c _ _ = concat [''; if (R('', itoa b, '') <=> '', itoa c, '') then R('', itoa a, '') := R('', itoa b, '') else pc++'']"
| "op_comment OP_CALL a b c _ _ = concat [''; R('', itoa a, '') ... R('', itoa a, ''+'', itoa c, ''-2) := R('', itoa a, '')(R('', itoa a, ''+1) ... R('', itoa a, ''+'', itoa b, ''-1))'']"
| "op_comment OP_TAILCALL a b _ _ _ = concat [''; return R('', itoa a, '')(R('', itoa a, ''+1) ... R('', itoa a, ''+'', itoa b, ''-1))'']"
| "op_comment OP_RETURN a b _ _ _ = concat [''; return R('', itoa a, '') ... R('', itoa a, ''+'', itoa b, ''-2)'']"
| "op_comment OP_FORLOOP a _ _ _ sbx = concat [''; R('', itoa a, '')+=R('', itoa a, ''+2); if R('', itoa a, '') <?= R('', itoa a, ''+1) then { pc+='', itoa sbx, ''; R('', itoa a, ''+3)=R('', itoa a, '') }'']"
| "op_comment OP_FORPREP a _ _ _ sbx = concat [''; R('', itoa a, '')-=R('', itoa a, ''+2); pc+='', itoa sbx]"
| "op_comment OP_TFORLOOP a _ c _ _ = concat [''; R('', itoa a, ''+3) ... R('', itoa a, ''+3+'', itoa c, '') := R('', itoa a, '')(R('', itoa a, ''+1) R('', itoa a, ''+2)); if R('', itoa a, ''+3) ~= nil then { pc++; R('', itoa a, ''+2)=R('', itoa a, ''+3); }'']"
| "op_comment OP_SETLIST a b c _ _ = concat [''; R('', itoa a, '')[('', itoa c, ''-1)*FPF+i] := R('', itoa a, ''+i) 1 <= i <= '', itoa b]"
| "op_comment OP_CLOSE a _ _ _ _ = concat [''; close all variables in the stack up to (>=) R('', itoa a, '')'']"
| "op_comment OP_CLOSURE a _ _ bx _ = concat [''; R('', itoa a, '') := closure(KPROTO['', itoa bx, ''] R('', itoa a, '') ... R('', itoa a, ''+n))'']"
| "op_comment OP_VARARG a b _ _ _ = concat ['';  R('', itoa a, '') R('', itoa a, ''+1) ... R('', itoa a, ''+'', itoa b, ''-1) = vararg'']"
| "op_comment OP_BAND a b c _ _ = concat [''; R('', itoa a, '') := RK('', itoa b, '') & RK('', itoa c, '')'']"
| "op_comment OP_BOR a b c _ _ = concat [''; R('', itoa a, '') := RK('', itoa b, '') | RK('', itoa c, '')'']"
| "op_comment OP_BXOR a b c _ _ = concat [''; R('', itoa a, '') := RK('', itoa b, '') ~ RK('', itoa c, '')'']"
| "op_comment OP_SHL a b c _ _ = concat [''; R('', itoa a, '') := RK('', itoa b, '') << RK('', itoa c, '')'']"
| "op_comment OP_SHR a b c _ _ = concat [''; R('', itoa a, '') := RK('', itoa b, '') >> RK('', itoa c, '')'']"
| "op_comment OP_IDIV a b c _ _ = concat [''; R('', itoa a, '') := RK('', itoa b, '') // RK('', itoa c, '')'']"
| "op_comment OP_BNOT a b _ _ _ = concat [''; R('', itoa a, '') := ~R('', itoa b, '')'']"
| "op_comment OP_NOP _ _ _ _ _ = []"

definition opToString :: "u32 \<Rightarrow> string" where
  "opToString inst =
     (case op_at (opGetOpCode inst) of
        None \<Rightarrow> []
      | Some op \<Rightarrow>
          let prop = opProps ! nat (opGetOpCode inst);
              a = opGetArgA inst; b = opGetArgB inst; c = opGetArgC inst;
              bx = opGetArgBx inst; sbx = opGetArgSbx inst;
              sep = ''      |  '';
              buf = (case prop_Type prop of
                  opTypeABC \<Rightarrow> concat [prop_Name prop, sep, itoa a, '', '', itoa b, '', '', itoa c]
                | opTypeABx \<Rightarrow> concat [prop_Name prop, sep, itoa a, '', '', itoa bx]
                | opTypeASbx \<Rightarrow> concat [prop_Name prop, sep, itoa a, '', '', itoa sbx])
          in buf @ op_comment op a b c bx sbx)"

section \<open>Bits of the fields\<close>

named_theorems field_bits \<open>the bits of instruction setters and getters\<close>

lemma inst_masks:
  "(0x3ffffff :: u32) = mask 26" "(0xfc03ffff :: u32) = NOT (push_bit 18 (mask 8))"
  "(0xfffffe00 :: u32) = NOT (mask 9)" "(0xfffc01ff :: u32) = NOT (push_bit 9 (mask 9))"
  "(0xfffc0000 :: u32) = NOT (mask 18)" "(0x1ff :: u32) = mask 9" "(0x3ffff :: u32) = mask 18"
  "(0xff :: int) = mask 8" "(0x1ff :: int) = mask 9" "(0x3ffff :: int) = mask 18"
  by (simp_all add: mask_eq_exp_minus_1)

lemma bit_opSetOpCode [field_bits]:
  "bit (opSetOpCode w p) i \<longleftrightarrow> (if i < 26 then bit w i else i < 32 \<and> bit p (i - 26))"
  by (auto simp: opSetOpCode_def inst_masks bit_simps)

lemma bit_opSetArgA [field_bits]:
  "bit (opSetArgA w a) i \<longleftrightarrow> (if 18 \<le> i \<and> i < 26 then bit a (i - 18) else bit w i)"
  by (auto simp: opSetArgA_def inst_masks bit_simps dest: bit_imp_le_length)

lemma bit_opSetArgB [field_bits]:
  "bit (opSetArgB w b) i \<longleftrightarrow> (if i < 9 then bit b i else bit w i)"
  by (auto simp: opSetArgB_def inst_masks bit_simps dest: bit_imp_le_length)

lemma bit_opSetArgC [field_bits]:
  "bit (opSetArgC w c) i \<longleftrightarrow> (if 9 \<le> i \<and> i < 18 then bit c (i - 9) else bit w i)"
  by (auto simp: opSetArgC_def inst_masks bit_simps dest: bit_imp_le_length)

lemma bit_opSetArgBx [field_bits]:
  "bit (opSetArgBx w x) i \<longleftrightarrow> (if i < 18 then bit x i else bit w i)"
  by (auto simp: opSetArgBx_def inst_masks bit_simps dest: bit_imp_le_length)

lemma bit_opGetOpCode [field_bits]: "bit (opGetOpCode w) i \<longleftrightarrow> i < 6 \<and> bit w (i + 26)"
  by (auto simp: opGetOpCode_def bit_simps add.commute dest: bit_imp_le_length)

lemma bit_opGetArgA [field_bits]: "bit (opGetArgA w) i \<longleftrightarrow> i < 8 \<and> bit w (i + 18)"
  by (auto simp: opGetArgA_def inst_masks bit_simps add.commute)

lemma bit_opGetArgB [field_bits]: "bit (opGetArgB w) i \<longleftrightarrow> i < 9 \<and> bit w i"
  by (auto simp: opGetArgB_def inst_masks bit_simps)

lemma bit_opGetArgC [field_bits]: "bit (opGetArgC w) i \<longleftrightarrow> i < 9 \<and> bit w (i + 9)"
  by (auto simp: opGetArgC_def inst_masks bit_simps add.commute)

lemma bit_opGetArgBx [field_bits]: "bit (opGetArgBx w) i \<longleftrightarrow> i < 18 \<and> bit w i"
  by (auto simp: opGetArgBx_def inst_masks bit_simps)

lemma bit_take_bit_int: "bit (take_bit n (k::int)) i \<longleftrightarrow> i < n \<and> bit k i"
  by (simp add: bit_take_bit_iff)

text \<open>A getter reads a field of fixed width, so its value is in range.\<close>

lemma field_range:
  "0 \<le> opGetOpCode w \<and> opGetOpCode w < 64" "0 \<le> opGetArgA w \<and> opGetArgA w \<le> 255"
  "0 \<le> opGetArgB w \<and> opGetArgB w \<le> 511" "0 \<le> opGetArgC w \<and> opGetArgC w \<le> 511"
  "0 \<le> opGetArgBx w \<and> opGetArgBx w \<le> 262143"
proof -
  have r: "0 \<le> x \<and> x < 2 ^ n" if "\<And>i. bit x i \<Longrightarrow> i < n" for x :: int and n
  proof -
    have "x = take_bit n x" by (rule bit_eqI) (auto simp: bit_take_bit_iff dest: that)
    then show ?thesis by (metis take_bit_nonnegative take_bit_int_less_exp)
  qed
  show "0 \<le> opGetOpCode w \<and> opGetOpCode w < 64" using r [of "opGetOpCode w" 6] by (simp add: field_bits)
  show "0 \<le> opGetArgA w \<and> opGetArgA w \<le> 255" using r [of "opGetArgA w" 8] by (simp add: field_bits)
  show "0 \<le> opGetArgB w \<and> opGetArgB w \<le> 511" using r [of "opGetArgB w" 9] by (simp add: field_bits)
  show "0 \<le> opGetArgC w \<and> opGetArgC w \<le> 511" using r [of "opGetArgC w" 9] by (simp add: field_bits)
  show "0 \<le> opGetArgBx w \<and> opGetArgBx w \<le> 262143" using r [of "opGetArgBx w" 18] by (simp add: field_bits)
qed

section \<open>Getters after setters\<close>

lemma get_set_same:
  "opGetOpCode (opSetOpCode w p) = take_bit 6 p"
  "opGetArgA (opSetArgA w a) = take_bit 8 a"
  "opGetArgB (opSetArgB w b) = take_bit 9 b"
  "opGetArgC (opSetArgC w c) = take_bit 9 c"
  "opGetArgBx (opSetArgBx w x) = take_bit 18 x"
  by (rule bit_eqI; auto simp: field_bits bit_take_bit_int)+

lemma get_set_other:
  "opGetOpCode (opSetArgA w a) = opGetOpCode w" "opGetOpCode (opSetArgB w a) = opGetOpCode w"
  "opGetOpCode (opSetArgC w a) = opGetOpCode w" "opGetOpCode (opSetArgBx w a) = opGetOpCode w"
  "opGetArgA (opSetOpCode w a) = opGetArgA w" "opGetArgA (opSetArgB w a) = opGetArgA w"
  "opGetArgA (opSetArgC w a) = opGetArgA w" "opGetArgA (opSetArgBx w a) = opGetArgA w"
  "opGetArgB (opSetOpCode w a) = opGetArgB w" "opGetArgB (opSetArgA w a) = opGetArgB w"
  "opGetArgB (opSetArgC w a) = opGetArgB w"
  "opGetArgC (opSetOpCode w a) = opGetArgC w" "opGetArgC (opSetArgA w a) = opGetArgC w"
  "opGetArgC (opSetArgB w a) = opGetArgC w"
  "opGetArgBx (opSetOpCode w a) = opGetArgBx w" "opGetArgBx (opSetArgA w a) = opGetArgBx w"
  by (rule bit_eqI; auto simp: field_bits)+

lemma get_opCreateABC:
  "opGetOpCode (opCreateABC p a b c) = take_bit 6 p" "opGetArgA (opCreateABC p a b c) = take_bit 8 a"
  "opGetArgB (opCreateABC p a b c) = take_bit 9 b" "opGetArgC (opCreateABC p a b c) = take_bit 9 c"
  by (simp_all add: opCreateABC_def get_set_same get_set_other)

lemma get_opCreateABx:
  "opGetOpCode (opCreateABx p a x) = take_bit 6 p" "opGetArgA (opCreateABx p a x) = take_bit 8 a"
  "opGetArgBx (opCreateABx p a x) = take_bit 18 x"
  by (simp_all add: opCreateABx_def get_set_same get_set_other)

lemma opCreateASbx_ABx: "opCreateASbx p a x = opCreateABx p a (x + opMaxArgSbx)"
  by (simp add: opCreateASbx_def opCreateABx_def opSetArgSbx_def)

text \<open>Every word is rebuilt from its fields.\<close>

lemma opCreateABC_get: "opCreateABC (opGetOpCode w) (opGetArgA w) (opGetArgB w) (opGetArgC w) = w"
  by (rule bit_word_eqI) (auto simp: opCreateABC_def field_bits)

lemma opCreateABx_get: "opCreateABx (opGetOpCode w) (opGetArgA w) (opGetArgBx w) = w"
  by (rule bit_word_eqI) (auto simp: opCreateABx_def field_bits)

lemma opCreateASbx_get: "opCreateASbx (opGetOpCode w) (opGetArgA w) (opGetArgSbx w) = w"
  using opCreateABx_get by (simp add: opCreateASbx_ABx opGetArgSbx_def)

text \<open>Operands.\<close>

lemma opIsK_bit: "opIsK v \<longleftrightarrow> bit v 8"
  by (simp add: opIsK_def opBitRk_def bit_iff_and_push_bit_not_eq_0)

lemma bit_opBitRk: "bit opBitRk n \<longleftrightarrow> n = 8"
  unfolding opBitRk_def bit_push_bit_iff_int by (auto simp: bit_1_iff)

lemma opIndexK_range: "0 \<le> v \<Longrightarrow> v \<le> 511 \<Longrightarrow> opIsK v \<Longrightarrow> 0 \<le> opIndexK v \<and> opIndexK v \<le> 255"
proof -
  assume v: "0 \<le> v" "v \<le> 511"
  then have t: "v = take_bit 9 v" by (simp add: take_bit_int_eq_self)
  have "opIndexK v = take_bit 8 v"
    by (rule bit_eqI, subst t)
      (auto simp: opIndexK_def bit_opBitRk bit_simps less_Suc_eq)
  then show ?thesis using take_bit_int_less_exp [of 8 v] by simp
qed

lemma opRkAsk_opIndexK:
  assumes "0 \<le> v" "v \<le> 255" shows "opIsK (opRkAsk v)" "opIndexK (opRkAsk v) = v"
proof -
  have t: "v = take_bit 8 v" using assms by (simp add: take_bit_int_eq_self)
  show "opIsK (opRkAsk v)" by (auto simp: opIsK_bit opRkAsk_def bit_opBitRk bit_simps)
  show "opIndexK (opRkAsk v) = v"
    by (rule bit_eqI, subst (2) t, subst t) (auto simp: opRkAsk_def opIndexK_def bit_opBitRk bit_simps)
qed

lemma op_code_at:
  "op_at i = Some p \<longleftrightarrow> 0 \<le> i \<and> i \<le> opCodeMax \<and> op_code p = i"
proof
  assume "op_at i = Some p"
  then have r: "0 \<le> i" "i \<le> 48" and p: "p = all_ops ! nat i"
    by (auto simp: op_at_def opCodeMax_def split: if_splits)
  have "\<forall>j < 49. op_code (all_ops ! j) = int j" by code_simp
  then show "0 \<le> i \<and> i \<le> opCodeMax \<and> op_code p = i" using r p by (auto simp: opCodeMax_def)
next
  assume "0 \<le> i \<and> i \<le> opCodeMax \<and> op_code p = i"
  then show "op_at i = Some p"
    by (cases p) (simp_all add: op_at_def opCodeMax_def all_ops_def)
qed

section \<open>Properties\<close>

text \<open>in each of the three formats the getters read back the operands an instruction was
built from, truncated to the width of their fields, and an instruction is rebuilt from its
fields, so that decoding followed by encoding is the identity on all 32-bit words.\<close>

theorem instruction_roundtrip:
  "opGetOpCode (opCreateABC p a b c) = take_bit 6 p \<and> opGetArgA (opCreateABC p a b c) = take_bit 8 a \<and>
   opGetArgB (opCreateABC p a b c) = take_bit 9 b \<and> opGetArgC (opCreateABC p a b c) = take_bit 9 c \<and>
   opGetOpCode (opCreateABx p a x) = take_bit 6 p \<and> opGetArgA (opCreateABx p a x) = take_bit 8 a \<and>
   opGetArgBx (opCreateABx p a x) = take_bit 18 x \<and>
   opGetArgSbx (opCreateASbx p a x) = take_bit 18 (x + opMaxArgSbx) - opMaxArgSbx \<and>
   opCreateABC (opGetOpCode w) (opGetArgA w) (opGetArgB w) (opGetArgC w) = w \<and>
   opCreateABx (opGetOpCode w) (opGetArgA w) (opGetArgBx w) = w \<and>
   opCreateASbx (opGetOpCode w) (opGetArgA w) (opGetArgSbx w) = w"
  by (simp add: get_opCreateABC get_opCreateABx opCreateASbx_ABx opGetArgSbx_def opCreateABC_get
      opCreateABx_get)

end
