(* ===== verification/Protos.thy ===== *)
theory Protos
  imports Values Opcodes
begin

text \<open>
  Function prototypes (\<^verbatim>\<open>function.go\<close>): the compiled form of a function, a tree through its
  nested prototypes, and the two passes over that tree other components share,
  \<^verbatim>\<open>hydrateStringConstants\<close> (\<^verbatim>\<open>ir.go\<close>) and \<^verbatim>\<open>stripFunctionProtoDebug\<close>
  (\<^verbatim>\<open>tol_api.go\<close>).

  The struct is a record of its own fields inside a datatype that adds the nested
  prototypes; a nil pointer is \<open>None\<close>. Nil and empty slices are not told apart, and sharing
  of a prototype between two parents is not represented: no modelled code looks at either.
\<close>

record DbgLocalInfo =
  li_Name :: string
  li_Reg :: int
  li_Attr :: u8
  li_StartPc :: int
  li_EndPc :: int

record DbgCall =
  dc_Name :: string
  dc_Pc :: int

definition VarArgHasArg :: u8 where "VarArgHasArg = 1"
definition VarArgIsVarArg :: u8 where "VarArgIsVarArg = 2"
definition VarArgNeedsArg :: u8 where "VarArgNeedsArg = 4"

record proto_fields =
  SourceName :: string
  LineDefined :: int
  LastLineDefined :: int
  NumUpvalues :: u8
  NumParameters :: u8
  IsVarArg :: u8
  NumUsedRegisters :: u8
  Code :: "u32 list"
  Constants :: "LValue list"
  DbgSourcePositions :: "int list"
  DbgLocals :: "DbgLocalInfo option list"
  DbgCalls :: "DbgCall list"
  DbgUpvalues :: "string list"
  stringConstants :: "string list"

datatype FunctionProto =
  FunctionProto (proto_info: proto_fields) (FunctionPrototypes: "FunctionProto option list")

text \<open>The string of each constant that is one, the empty string for the others.\<close>

fun const_string :: "LValue \<Rightarrow> string" where
  "const_string (LString s) = s"
| "const_string _ = []"

primrec hydrateStringConstants :: "FunctionProto \<Rightarrow> FunctionProto" where
  "hydrateStringConstants (FunctionProto f kids) =
     FunctionProto (f\<lparr>stringConstants := map const_string (Constants f)\<rparr>)
       (map (map_option hydrateStringConstants) kids)"

primrec stripFunctionProtoDebug :: "FunctionProto \<Rightarrow> FunctionProto" where
  "stripFunctionProtoDebug (FunctionProto f kids) =
     FunctionProto
       (f\<lparr>SourceName := [], DbgSourcePositions := [], DbgLocals := [], DbgCalls := [], DbgUpvalues := []\<rparr>)
       (map (map_option stripFunctionProtoDebug) kids)"

text \<open>A predicate on the fields, at every node of the tree; no nested prototype is nil.\<close>

primrec proto_all :: "(proto_fields \<Rightarrow> bool) \<Rightarrow> FunctionProto \<Rightarrow> bool" where
  "proto_all P (FunctionProto f kids) \<longleftrightarrow>
     P f \<and> list_all (\<lambda>k. case k of None \<Rightarrow> False | Some b \<Rightarrow> b) (map (map_option (proto_all P)) kids)"

lemma proto_all_kids:
  "proto_all P (FunctionProto f kids) \<longleftrightarrow> P f \<and> (\<forall>k \<in> set kids. \<exists>p. k = Some p \<and> proto_all P p)"
  by (force simp: list_all_iff split: option.splits)

lemma hydrate_idem [simp]:
  "hydrateStringConstants (hydrateStringConstants p) = hydrateStringConstants p"
proof (induction p)
  case (FunctionProto f kids)
  have "map_option (hydrateStringConstants \<circ> hydrateStringConstants) k = map_option hydrateStringConstants k"
    if "k \<in> set kids" for k
    using FunctionProto that by (cases k) auto
  then show ?case by (simp add: option.map_comp)
qed

lemma proto_all_hydrate:
  assumes "\<And>f ss. P (f\<lparr>stringConstants := ss\<rparr>) \<longleftrightarrow> P f"
  shows "proto_all P (hydrateStringConstants p) \<longleftrightarrow> proto_all P p"
proof (induction p)
  case (FunctionProto f kids)
  have "map_option (proto_all P \<circ> hydrateStringConstants) k = map_option (proto_all P) k"
    if "k \<in> set kids" for k
    using FunctionProto that by (cases k) auto
  then show ?case by (simp add: assms option.map_comp cong: map_cong)
qed

text \<open>The tree without the string cache, which is not part of the format.\<close>

primrec forget_cache :: "FunctionProto \<Rightarrow> FunctionProto" where
  "forget_cache (FunctionProto f kids) =
     FunctionProto (f\<lparr>stringConstants := []\<rparr>) (map (map_option forget_cache) kids)"

lemma hydrate_forget [simp]: "hydrateStringConstants (forget_cache p) = hydrateStringConstants p"
proof (induction p)
  case (FunctionProto f kids)
  have "map_option (hydrateStringConstants \<circ> forget_cache) k = map_option hydrateStringConstants k"
    if "k \<in> set kids" for k
    using FunctionProto that by (cases k) auto
  then show ?case by (simp add: option.map_comp)
qed

end
