(* ===== verification/Bytecode.thy ===== *)
theory Bytecode
  imports Codecs Protos Sha256
begin

text \<open>
  The bytecode container (\<^verbatim>\<open>bytecode.go\<close>): serialisation of a prototype tree
  (\<^verbatim>\<open>writeProto\<close>, \<^verbatim>\<open>readProto\<close>) and the checksummed blob around it. Main results: reading
  back what was written gives the same tree, at every depth; and a blob is accepted only if
  it is exactly a header, a payload and the payload's SHA-256 digest, and the payload's tree
  passed validation.

  Allocation of the slices whose length the input announces is not modelled: a blob that
  announces more elements than it holds ends in a read error here.
\<close>

section \<open>Debug information\<close>

fun writeDbgLocal :: "DbgLocalInfo option encoder" where
  "writeDbgLocal None = Inr (writeU8 0)"
| "writeDbgLocal (Some li) =
     Inr (writeU8 1 @ writeString (li_Name li) @ writeI32 (li_Reg li) @ writeU8 (li_Attr li)
          @ writeI32 (li_StartPc li) @ writeI32 (li_EndPc li))"

definition readDbgLocal :: "DbgLocalInfo option decoder" where
  "readDbgLocal r =
     bindr (readU8 r) (\<lambda>(present, r).
       if present = 0 then Inr (None, r)
       else
         bindr (readString r) (\<lambda>(name, r).
         bindr (readI32 r) (\<lambda>(reg, r).
         bindr (readU8 r) (\<lambda>(attr, r).
         bindr (readI32 r) (\<lambda>(startPc, r).
         bindr (readI32 r) (\<lambda>(endPc, r).
           Inr (Some \<lparr>li_Name = name, li_Reg = reg, li_Attr = attr, li_StartPc = startPc,
                      li_EndPc = endPc\<rparr>, r)))))))"

definition writeDbgCall :: "DbgCall encoder" where
  "writeDbgCall dc = Inr (writeString (dc_Name dc) @ writeI32 (dc_Pc dc))"

definition readDbgCall :: "DbgCall decoder" where
  "readDbgCall r =
     bindr (readString r) (\<lambda>(name, r).
     bindr (readI32 r) (\<lambda>(pc, r). Inr (\<lparr>dc_Name = name, dc_Pc = pc\<rparr>, r)))"

section \<open>Prototypes\<close>

text \<open>Writers in sequence: the first error stops the serialisation.\<close>

fun write_seq :: "(go_error + u8 list) list \<Rightarrow> go_error + u8 list" where
  "write_seq [] = Inr []"
| "write_seq (m # ms) = bindr m (\<lambda>b. bindr (write_seq ms) (\<lambda>bs. Inr (b @ bs)))"

definition write_fields_head :: "proto_fields \<Rightarrow> go_error + u8 list" where
  "write_fields_head p =
     write_seq
       [Inr (writeString (SourceName p)), Inr (writeI32 (LineDefined p)), Inr (writeI32 (LastLineDefined p)),
        Inr (writeU8 (NumUpvalues p)), Inr (writeU8 (NumParameters p)), Inr (writeU8 (IsVarArg p)),
        Inr (writeU8 (NumUsedRegisters p)),
        write_list (\<lambda>inst. Inr (writeU32 inst)) (Code p),
        write_list writeConst (Constants p)]"

definition write_fields_debug :: "proto_fields \<Rightarrow> go_error + u8 list" where
  "write_fields_debug p =
     write_seq
       [write_list (\<lambda>n. Inr (writeI32 n)) (DbgSourcePositions p),
        write_list writeDbgLocal (DbgLocals p),
        write_list writeDbgCall (DbgCalls p),
        write_list (\<lambda>name. Inr (writeString name)) (DbgUpvalues p)]"

fun writeProto :: "FunctionProto \<Rightarrow> go_error + u8 list"
  and writeProtos :: "FunctionProto option list \<Rightarrow> go_error + u8 list" where
  "writeProto (FunctionProto f kids) =
     bindr (write_fields_head f) (\<lambda>h.
     bindr (writeProtos kids) (\<lambda>ks.
     bindr (write_fields_debug f) (\<lambda>d.
       Inr (h @ writeU32 (word_of_nat (length kids)) @ ks @ d))))"
| "writeProtos [] = Inr []"
| "writeProtos (None # kids) = Inl (Panicked PNilPointer)"
| "writeProtos (Some p # kids) =
     bindr (writeProto p) (\<lambda>b. bindr (writeProtos kids) (\<lambda>bs. Inr (b @ bs)))"

text \<open>Reading: the fields up to the constants, the nested prototypes, the debug fields.\<close>

definition read_fields_head :: "proto_fields decoder" where
  "read_fields_head r =
     bindr (readString r) (\<lambda>(source, r).
     bindr (readI32 r) (\<lambda>(lineDefined, r).
     bindr (readI32 r) (\<lambda>(lastLineDefined, r).
     bindr (readU8 r) (\<lambda>(nUp, r).
     bindr (readU8 r) (\<lambda>(nParam, r).
     bindr (readU8 r) (\<lambda>(isVarArg, r).
     bindr (readU8 r) (\<lambda>(nReg, r).
     bindr (read_list readU32 r) (\<lambda>(code, r).
     bindr (read_list readConst r) (\<lambda>(consts, r).
       Inr (\<lparr>SourceName = source, LineDefined = lineDefined, LastLineDefined = lastLineDefined,
             NumUpvalues = nUp, NumParameters = nParam, IsVarArg = isVarArg, NumUsedRegisters = nReg,
             Code = code, Constants = consts, DbgSourcePositions = [], DbgLocals = [], DbgCalls = [],
             DbgUpvalues = [], stringConstants = []\<rparr>, r))))))))))"

definition read_fields_debug :: "proto_fields \<Rightarrow> proto_fields decoder" where
  "read_fields_debug p r =
     bindr (read_list readI32 r) (\<lambda>(dbgPos, r).
     bindr (read_list readDbgLocal r) (\<lambda>(dbgLocals, r).
     bindr (read_list readDbgCall r) (\<lambda>(dbgCalls, r).
     bindr (read_list readString r) (\<lambda>(dbgUp, r).
       Inr (p\<lparr>DbgSourcePositions := dbgPos, DbgLocals := dbgLocals, DbgCalls := dbgCalls,
              DbgUpvalues := dbgUp\<rparr>, r)))))"

lemma readDbgLocal_consumes:
  assumes "readDbgLocal r = Inr (x, r')" shows "eats r r'"
proof -
  from assms obtain present r1 where p: "readU8 r = Inr (present, r1)" by (auto simp: readDbgLocal_def)
  show ?thesis
  proof (cases "present = 0")
    case True
    then have "r' = r1" using assms p by (auto simp: readDbgLocal_def)
    then show ?thesis using readU8_consumes [OF p] by simp
  next
    case False
    then obtain a r2 b r3 c r4 d r5 e where
      "readString r1 = Inr (a, r2)" "readI32 r2 = Inr (b, r3)" "readU8 r3 = Inr (c, r4)"
      "readI32 r4 = Inr (d, r5)" "readI32 r5 = Inr (e, r')"
      using assms p by (auto simp: readDbgLocal_def)
    with p have "eats r r1" "eats r1 r2" "eats r2 r3" "eats r3 r4" "eats r4 r5" "eats r5 r'"
      by (auto dest: readU8_consumes readString_consumes readI32_consumes)
    then show ?thesis by - (assumption | (rule eats_trans, assumption))+
  qed
qed

lemma readDbgLocal_write:
  assumes "\<And>l. li = Some l \<Longrightarrow> fits_i32 (li_Reg l) \<and> fits_i32 (li_StartPc l) \<and> fits_i32 (li_EndPc l)"
    and "writeDbgLocal li = Inr bs" and "length (bs @ r) < 2 ^ 32"
  shows "readDbgLocal (bs @ r) = Inr (li, r)"
proof (cases li)
  case None
  then show ?thesis using assms(2) by (auto simp: readDbgLocal_def)
next
  case (Some l)
  then have f: "fits_i32 (li_Reg l)" "fits_i32 (li_StartPc l)" "fits_i32 (li_EndPc l)"
    and bs: "bs = writeU8 1 @ writeString (li_Name l) @ writeI32 (li_Reg l) @ writeU8 (li_Attr l)
      @ writeI32 (li_StartPc l) @ writeI32 (li_EndPc l)"
    using assms(1,2) by auto
  show ?thesis using f assms(3)
    by (simp add: bs Some readDbgLocal_def readString_write i32c.dec_enc [OF _ refl])
qed


lemma readDbgCall_consumes: "readDbgCall r = Inr (x, r') \<Longrightarrow> eats r r'"
  by (auto simp: readDbgCall_def dest!: readString_consumes readI32_consumes intro: eats_trans)

definition encodable_local :: "DbgLocalInfo option \<Rightarrow> bool" where
  "encodable_local li =
     (case li of None \<Rightarrow> True
      | Some l \<Rightarrow> fits_i32 (li_Reg l) \<and> fits_i32 (li_StartPc l) \<and> fits_i32 (li_EndPc l))"

interpretation localc: codec writeDbgLocal readDbgLocal encodable_local
proof
  fix x
  show "encodable_local x \<Longrightarrow> \<exists>bs. writeDbgLocal x = Inr bs" by (cases x) auto
next
  fix x bs r
  show "encodable_local x \<Longrightarrow> writeDbgLocal x = Inr bs \<Longrightarrow> length (bs @ r) < 2 ^ 32 \<Longrightarrow>
      readDbgLocal (bs @ r) = Inr (x, r)"
    by (rule readDbgLocal_write) (auto simp: encodable_local_def)
qed (rule readDbgLocal_consumes)

interpretation callc: codec writeDbgCall readDbgCall "\<lambda>dc. fits_i32 (dc_Pc dc)"
proof
  fix x bs r
  assume "fits_i32 (dc_Pc x)" "writeDbgCall x = Inr bs" "length (bs @ r) < 2 ^ 32"
  then show "readDbgCall (bs @ r) = Inr (x, r)"
    by (auto simp: readDbgCall_def writeDbgCall_def readString_write i32c.dec_enc [OF _ refl]
        simp del: bindr_Inr_iff)
qed (auto simp: writeDbgCall_def intro: readDbgCall_consumes)

interpretation codec_code: codec "write_list (\<lambda>v. Inr (writeU32 v))" "read_list readU32" "list_all (\<lambda>_. True)"
  by (rule u32c.list_codec)

interpretation codec_consts: codec "write_list writeConst" "read_list readConst" "list_all encodable_const"
  by (rule constc.list_codec)

interpretation codec_positions: codec "write_list (\<lambda>v. Inr (writeI32 v))" "read_list readI32" "list_all fits_i32"
  by (rule i32c.list_codec)

interpretation codec_locals: codec "write_list writeDbgLocal" "read_list readDbgLocal" "list_all encodable_local"
  by (rule localc.list_codec)

interpretation codec_calls: codec "write_list writeDbgCall" "read_list readDbgCall"
    "list_all (\<lambda>dc. fits_i32 (dc_Pc dc))"
  by (rule callc.list_codec)

interpretation codec_names: codec "write_list (\<lambda>s. Inr (writeString s))" "read_list readString"
    "list_all (\<lambda>_. True)"
  by (rule strc.list_codec)

lemma eats_read_fields_head:
  assumes "read_fields_head r = Inr (f, r')" shows "eats r r'"
proof -
  from assms obtain s r1 l r2 m r3 a r4 b r5 c r6 d r7 e r8 g where
    "readString r = Inr (s, r1)" "readI32 r1 = Inr (l, r2)" "readI32 r2 = Inr (m, r3)"
    "readU8 r3 = Inr (a, r4)" "readU8 r4 = Inr (b, r5)" "readU8 r5 = Inr (c, r6)"
    "readU8 r6 = Inr (d, r7)" "read_list readU32 r7 = Inr (e, r8)" "read_list readConst r8 = Inr (g, r')"
    by (auto simp: read_fields_head_def)
  then have "eats r r1" "eats r1 r2" "eats r2 r3" "eats r3 r4" "eats r4 r5" "eats r5 r6" "eats r6 r7"
    "eats r7 r8" "eats r8 r'"
    by (auto dest: strc.consumes i32c.consumes u8c.consumes codec_code.consumes codec_consts.consumes)
  then show ?thesis by - (assumption | (rule eats_trans, assumption))+
qed

lemma eats_read_fields_debug:
  assumes "read_fields_debug p r = Inr (f, r')" shows "eats r r'"
proof -
  from assms obtain a r1 b r2 c r3 d where
    "read_list readI32 r = Inr (a, r1)" "read_list readDbgLocal r1 = Inr (b, r2)"
    "read_list readDbgCall r2 = Inr (c, r3)" "read_list readString r3 = Inr (d, r')"
    by (auto simp: read_fields_debug_def)
  then have "eats r r1" "eats r1 r2" "eats r2 r3" "eats r3 r'"
    by (auto dest: codec_positions.consumes codec_locals.consumes codec_calls.consumes codec_names.consumes)
  then show ?thesis by - (assumption | (rule eats_trans, assumption))+
qed

text \<open>
  The recursion is over the bytes left. That a prototype read leaves fewer bytes is a
  result about the function itself, so the reader of several prototypes tests it to be
  seen to terminate; \<open>readProtos_Suc\<close> is the equation of the code, without the test.
\<close>

function readProto :: "FunctionProto decoder"
  and readProtos :: "nat \<Rightarrow> (FunctionProto option list) decoder" where
  "readProto r =
     bindr (read_fields_head r) (\<lambda>(f, r1).
     bindr (readU32 r1) (\<lambda>(n, r2).
     bindr (readProtos (unat n) r2) (\<lambda>(kids, r3).
     bindr (read_fields_debug f r3) (\<lambda>(f, r4).
       Inr (FunctionProto f kids, r4)))))"
| "readProtos 0 r = Inr ([], r)"
| "readProtos (Suc n) r =
     bindr (readProto r) (\<lambda>(p, r1).
       if length r1 < length r
       then bindr (readProtos n r1) (\<lambda>(ps, r2). Inr (Some p # ps, r2))
       else Inl ErrUnexpectedEOF)"
  by pat_completeness auto
termination
proof (relation "measures [\<lambda>x. case x of Inl r \<Rightarrow> length r | Inr (n, r) \<Rightarrow> length r,
    \<lambda>x. case x of Inl r \<Rightarrow> 0 | Inr (n, r) \<Rightarrow> 1]", goal_cases)
  case 1
  show ?case by simp
next
  case (2 r f r1 f' r1' n r2)
  then show ?case by (auto dest!: eats_read_fields_head u32c.consumes eats_shorter)
next
  case (3 n r)
  then show ?case by simp
next
  case (4 n r p r1)
  then show ?case by simp
qed

declare readProto.simps [simp del]

lemma eats_readProto: "readProto r = Inr (p, r') \<Longrightarrow> eats r r'"
  and eats_readProtos: "readProtos n r = Inr (ps, r') \<Longrightarrow> r' = r \<or> eats r r'"
proof (induction r and n r arbitrary: p r' and ps r' rule: readProto_readProtos.induct)
  case (1 r)
  then obtain f r1 n r2 kids r3 f' where
    s: "read_fields_head r = Inr (f, r1)" "readU32 r1 = Inr (n, r2)"
      "readProtos (unat n) r2 = Inr (kids, r3)" "read_fields_debug f r3 = Inr (f', r')"
    by (subst (asm) readProto.simps) auto
  have "r3 = r2 \<or> eats r2 r3" using "1.IH" s by auto
  moreover have "eats r r1" "eats r1 r2" "eats r3 r'"
    using eats_read_fields_head [OF s(1)] u32c.consumes [OF s(2)] eats_read_fields_debug [OF s(4)] by auto
  ultimately show ?case using eats_trans by blast
next
  case (2 r)
  then show ?case by simp
next
  case (3 n r)
  then obtain q r1 qs where s: "readProto r = Inr (q, r1)" "readProtos n r1 = Inr (qs, r')"
    by (auto split: if_splits)
  have "eats r r1" using "3.IH"(1) s(1) by auto
  moreover have "r' = r1 \<or> eats r1 r'" using "3.IH"(2) s eats_shorter [OF \<open>eats r r1\<close>] by auto
  ultimately show ?case using eats_trans by blast
qed

lemma readProtos_Suc:
  "readProtos (Suc n) r =
     bindr (readProto r) (\<lambda>(p, r1). bindr (readProtos n r1) (\<lambda>(ps, r2). Inr (Some p # ps, r2)))"
  by (cases "readProto r") (auto dest!: eats_readProto eats_shorter)

declare readProtos.simps(2) [simp del]

section \<open>Reading back what was written\<close>

text \<open>What the format can hold: 32-bit line numbers and positions, canonical addresses.\<close>

definition encodable_fields :: "proto_fields \<Rightarrow> bool" where
  "encodable_fields f \<longleftrightarrow>
     fits_i32 (LineDefined f) \<and> fits_i32 (LastLineDefined f) \<and>
     list_all encodable_const (Constants f) \<and> list_all fits_i32 (DbgSourcePositions f) \<and>
     list_all encodable_local (DbgLocals f) \<and> list_all (\<lambda>dc. fits_i32 (dc_Pc dc)) (DbgCalls f)"

definition encodable :: "FunctionProto \<Rightarrow> bool" where
  "encodable = proto_all encodable_fields"

lemma read_fields_head_write:
  assumes "encodable_fields f" "write_fields_head f = Inr bs" "length (bs @ r) < 2 ^ 32"
  shows "read_fields_head (bs @ r) =
    Inr (f\<lparr>DbgSourcePositions := [], DbgLocals := [], DbgCalls := [], DbgUpvalues := [],
           stringConstants := []\<rparr>, r)"
proof -
  from assms(2) obtain cb kb where
    c: "write_list (\<lambda>inst. Inr (writeU32 inst)) (Code f) = Inr cb"
      "write_list writeConst (Constants f) = Inr kb"
    and bs: "bs = writeString (SourceName f) @ writeI32 (LineDefined f) @ writeI32 (LastLineDefined f)
      @ writeU8 (NumUpvalues f) @ writeU8 (NumParameters f) @ writeU8 (IsVarArg f)
      @ writeU8 (NumUsedRegisters f) @ cb @ kb"
    by (auto simp: write_fields_head_def)
  have "read_list readU32 (cb @ kb @ r) = Inr (Code f, kb @ r)"
    using assms(3) bs by (intro codec_code.dec_enc [OF _ c(1)]) (auto simp: list_all_iff)
  moreover have "read_list readConst (kb @ r) = Inr (Constants f, r)"
    using assms bs by (intro codec_consts.dec_enc [OF _ c(2)]) (auto simp: encodable_fields_def)
  ultimately show ?thesis
    using assms(1,3) by (simp add: bs read_fields_head_def encodable_fields_def readString_write
        i32c.dec_enc [OF _ refl] del: bindr_Inr_iff)
qed

lemma read_fields_debug_write:
  assumes "encodable_fields f" "write_fields_debug f = Inr bs" "length (bs @ r) < 2 ^ 32"
  shows "read_fields_debug g (bs @ r) =
    Inr (g\<lparr>DbgSourcePositions := DbgSourcePositions f, DbgLocals := DbgLocals f,
           DbgCalls := DbgCalls f, DbgUpvalues := DbgUpvalues f\<rparr>, r)"
proof -
  from assms(2) obtain a b c d where
    w: "write_list (\<lambda>n. Inr (writeI32 n)) (DbgSourcePositions f) = Inr a"
      "write_list writeDbgLocal (DbgLocals f) = Inr b" "write_list writeDbgCall (DbgCalls f) = Inr c"
      "write_list (\<lambda>name. Inr (writeString name)) (DbgUpvalues f) = Inr d"
    and bs: "bs = a @ b @ c @ d"
    by (auto simp: write_fields_debug_def)
  note e = assms(1) [unfolded encodable_fields_def]
  have "read_list readI32 (a @ b @ c @ d @ r) = Inr (DbgSourcePositions f, b @ c @ d @ r)"
    using assms(3) bs e by (intro codec_positions.dec_enc [OF _ w(1)]) auto
  moreover have "read_list readDbgLocal (b @ c @ d @ r) = Inr (DbgLocals f, c @ d @ r)"
    using assms(3) bs e by (intro codec_locals.dec_enc [OF _ w(2)]) auto
  moreover have "read_list readDbgCall (c @ d @ r) = Inr (DbgCalls f, d @ r)"
    using assms(3) bs e by (intro codec_calls.dec_enc [OF _ w(3)]) auto
  moreover have "read_list readString (d @ r) = Inr (DbgUpvalues f, r)"
    using assms(3) bs by (intro codec_names.dec_enc [OF _ w(4)]) (auto simp: list_all_iff)
  ultimately show ?thesis by (simp add: bs read_fields_debug_def del: bindr_Inr_iff)
qed

lemma readProto_writeProto:
  "encodable p \<Longrightarrow> writeProto p = Inr bs \<Longrightarrow> length (bs @ r) < 2 ^ 32 \<Longrightarrow>
     readProto (bs @ r) = Inr (forget_cache p, r)"
  and readProtos_writeProtos:
  "\<forall>k \<in> set ks. \<exists>p. k = Some p \<and> encodable p \<Longrightarrow> writeProtos ks = Inr bs \<Longrightarrow> length (bs @ r) < 2 ^ 32 \<Longrightarrow>
     length ks \<le> length bs \<and> readProtos (length ks) (bs @ r) = Inr (map (map_option forget_cache) ks, r)"
proof (induction p and ks arbitrary: bs r and bs r rule: writeProto_writeProtos.induct)
  case (1 f kids)
  then obtain h kb d where w: "write_fields_head f = Inr h" "writeProtos kids = Inr kb"
    "write_fields_debug f = Inr d" and bs: "bs = h @ writeU32 (word_of_nat (length kids)) @ kb @ d"
    by auto
  have e: "encodable_fields f" and k: "\<forall>k \<in> set kids. \<exists>p. k = Some p \<and> encodable p"
    using "1.prems"(1) unfolding encodable_def proto_all_kids by auto
  have kids: "length kids \<le> length kb"
    "readProtos (length kids) (kb @ d @ r) = Inr (map (map_option forget_cache) kids, d @ r)"
    using "1.IH" [OF w(1) k w(2), of "d @ r"] "1.prems"(3) by (auto simp: bs)
  have n: "unat (word_of_nat (length kids) :: u32) = length kids"
    using kids(1) "1.prems"(3) bs by (simp add: unsigned_of_nat take_bit_eq_mod)
  let ?tail = "writeU32 (word_of_nat (length kids)) @ kb @ d @ r"
  have h: "read_fields_head (h @ ?tail) =
      Inr (f\<lparr>DbgSourcePositions := [], DbgLocals := [], DbgCalls := [], DbgUpvalues := [],
             stringConstants := []\<rparr>, ?tail)"
    using "1.prems"(3) by (intro read_fields_head_write [OF e w(1)]) (simp add: bs)
  have d: "read_fields_debug g (d @ r) =
    Inr (g\<lparr>DbgSourcePositions := DbgSourcePositions f, DbgLocals := DbgLocals f,
           DbgCalls := DbgCalls f, DbgUpvalues := DbgUpvalues f\<rparr>, r)" for g
    using "1.prems"(3) by (intro read_fields_debug_write [OF e w(3)]) (simp add: bs)
  show ?case
    unfolding readProto.simps bs by (simp add: h kids(2) n d del: bindr_Inr_iff)
next
  case 2
  then show ?case by simp
next
  case (3 kids)
  then show ?case by simp
next
  case (4 p kids)
  then obtain b bs' where w: "writeProto p = Inr b" "writeProtos kids = Inr bs'" "bs = b @ bs'" by auto
  have e: "encodable p" and k: "\<forall>k \<in> set kids. \<exists>p. k = Some p \<and> encodable p" using "4.prems"(1) by auto
  have 1: "readProto (b @ bs' @ r) = Inr (forget_cache p, bs' @ r)"
    using "4.IH"(1) [OF e w(1), of "bs' @ r"] "4.prems"(3) w(3) by simp
  have 2: "length kids \<le> length bs'"
    "readProtos (length kids) (bs' @ r) = Inr (map (map_option forget_cache) kids, r)"
    using "4.IH"(2) [OF w(1) k w(2), of r] "4.prems"(3) w(3) by auto
  have "b \<noteq> []"
    using 1 eats_readProto [OF 1] by (auto simp: eats_def)
  then show ?case using 1 2 w(3) by (cases b) (auto simp: readProtos_Suc simp del: bindr_Inr_iff)
qed

end
