(* ===== verification/Validate.thy ===== *)
theory Validate
  imports Protos
begin

text \<open>
  Validation of decoded prototypes (\<^verbatim>\<open>bytecode.go\<close>, \<^verbatim>\<open>validateDecodedProto\<close> and
  \<^verbatim>\<open>validateDecodedInstruction\<close>): every operand of every instruction is checked against
  the number of registers, constants, upvalues and nested prototypes, jumps against the length
  of the code. The local closures of the code take the prototype and the program counter as
  arguments here; the cases of the \<^verbatim>\<open>switch\<close> are in four groups, in the order of the source.
  An instruction may consume words behind it, whose number is the result.
\<close>

section \<open>Checks of one operand\<close>

definition validateReg :: "proto_fields \<Rightarrow> nat \<Rightarrow> int \<Rightarrow> string \<Rightarrow> check" where
  "validateReg f pc reg what =
     ensure (\<not> (reg < 0 \<or> uint (NumUsedRegisters f) \<le> reg))
       (Errorf ''invalid %s register %d at pc %d'' [SArg what, IArg reg, IArg (int pc)])"

definition validateRegRange :: "proto_fields \<Rightarrow> nat \<Rightarrow> int \<Rightarrow> int \<Rightarrow> string \<Rightarrow> check" where
  "validateRegRange f pc start stop what =
     ensure (\<not> (start < 0 \<or> stop < start \<or> uint (NumUsedRegisters f) \<le> stop))
       (Errorf ''invalid %s register range %d..%d at pc %d''
         [SArg what, IArg start, IArg stop, IArg (int pc)])"

definition validateConst :: "proto_fields \<Rightarrow> nat \<Rightarrow> int \<Rightarrow> string \<Rightarrow> check" where
  "validateConst f pc idx what =
     ensure (\<not> (idx < 0 \<or> int (length (Constants f)) \<le> idx))
       (Errorf ''invalid %s constant index %d at pc %d'' [SArg what, IArg idx, IArg (int pc)])"

fun is_LString :: "LValue \<Rightarrow> bool" where
  "is_LString (LString _) = True"
| "is_LString _ = False"

definition validateStringConst :: "proto_fields \<Rightarrow> nat \<Rightarrow> int \<Rightarrow> string \<Rightarrow> check" where
  "validateStringConst f pc idx what =
     bindr (validateConst f pc idx what) (\<lambda>_.
       ensure (is_LString (Constants f ! nat idx))
         (Errorf ''invalid %s string constant index %d at pc %d'' [SArg what, IArg idx, IArg (int pc)]))"

definition validateUpvalue :: "proto_fields \<Rightarrow> nat \<Rightarrow> int \<Rightarrow> string \<Rightarrow> check" where
  "validateUpvalue f pc idx what =
     ensure (\<not> (idx < 0 \<or> uint (NumUpvalues f) \<le> idx))
       (Errorf ''invalid %s upvalue index %d at pc %d'' [SArg what, IArg idx, IArg (int pc)])"

definition validateRK :: "proto_fields \<Rightarrow> nat \<Rightarrow> int \<Rightarrow> string \<Rightarrow> check" where
  "validateRK f pc arg what =
     (if opIsK arg then validateConst f pc (opIndexK arg) what else validateReg f pc arg what)"

definition validateRKString :: "proto_fields \<Rightarrow> nat \<Rightarrow> int \<Rightarrow> string \<Rightarrow> check" where
  "validateRKString f pc arg what =
     (if \<not> opIsK arg then Inl (Errorf ''%s must use a constant string at pc %d'' [SArg what, IArg (int pc)])
      else validateStringConst f pc (opIndexK arg) what)"

definition validateHasNext :: "proto_fields \<Rightarrow> nat \<Rightarrow> string \<Rightarrow> check" where
  "validateHasNext f pc what =
     ensure (\<not> length (Code f) \<le> pc + 1)
       (Errorf ''%s at pc %d requires a following instruction'' [SArg what, IArg (int pc)])"

definition validateJumpTarget :: "proto_fields \<Rightarrow> nat \<Rightarrow> int \<Rightarrow> string \<Rightarrow> check" where
  "validateJumpTarget f fromPC sbx what =
     (let target = int fromPC + 1 + sbx
      in ensure (\<not> (target < 0 \<or> int (length (Code f)) \<le> target))
           (Errorf ''invalid %s jump target %d at pc %d'' [SArg what, IArg target, IArg (int fromPC)]))"

definition if_needed :: "bool \<Rightarrow> check \<Rightarrow> check" where
  "if_needed b c = (if b then c else Inr ())"

section \<open>The instructions\<close>

text \<open>Moves, loads, globals, upvalues and tables.\<close>

definition validate_data_op :: "proto_fields \<Rightarrow> nat \<Rightarrow> opcode \<Rightarrow> u32 \<Rightarrow> check" where
  "validate_data_op f pc p inst =
     (let A = opGetArgA inst; B = opGetArgB inst; C = opGetArgC inst; Bx = opGetArgBx inst
      in case p of
        OP_MOVE \<Rightarrow> check_all [validateReg f pc A ''MOVE destination'', validateReg f pc B ''MOVE source'']
      | OP_LOADK \<Rightarrow> check_all [validateReg f pc A ''LOADK destination'', validateConst f pc Bx ''LOADK'']
      | OP_LOADBOOL \<Rightarrow>
          check_all [validateReg f pc A ''LOADBOOL destination'',
                     if_needed (C \<noteq> 0) (validateHasNext f pc ''LOADBOOL'')]
      | OP_LOADNIL \<Rightarrow> validateRegRange f pc A B ''LOADNIL''
      | OP_GETUPVAL \<Rightarrow>
          check_all [validateReg f pc A ''GETUPVAL destination'', validateUpvalue f pc B ''GETUPVAL'']
      | OP_GETGLOBAL \<Rightarrow>
          check_all [validateReg f pc A ''GETGLOBAL destination'', validateStringConst f pc Bx ''GETGLOBAL'']
      | OP_GETTABLE \<Rightarrow>
          check_all [validateReg f pc A ''GETTABLE destination'', validateReg f pc B ''GETTABLE base'',
                     validateRK f pc C ''GETTABLE key'']
      | OP_GETTABLEKS \<Rightarrow>
          check_all [validateReg f pc A ''GETTABLEKS destination'', validateReg f pc B ''GETTABLEKS base'',
                     validateRKString f pc C ''GETTABLEKS key'']
      | OP_SETGLOBAL \<Rightarrow>
          check_all [validateReg f pc A ''SETGLOBAL source'', validateStringConst f pc Bx ''SETGLOBAL'']
      | OP_SETUPVAL \<Rightarrow>
          check_all [validateReg f pc A ''SETUPVAL source'', validateUpvalue f pc B ''SETUPVAL'']
      | OP_SETTABLE \<Rightarrow>
          check_all [validateReg f pc A ''SETTABLE base'', validateRK f pc B ''SETTABLE key'',
                     validateRK f pc C ''SETTABLE value'']
      | OP_SETTABLEKS \<Rightarrow>
          check_all [validateReg f pc A ''SETTABLEKS base'', validateRKString f pc B ''SETTABLEKS key'',
                     validateRK f pc C ''SETTABLEKS value'']
      | OP_NEWTABLE \<Rightarrow> validateReg f pc A ''NEWTABLE destination''
      | OP_SELF \<Rightarrow>
          check_all [validateRegRange f pc A (A + 1) ''SELF destination'', validateReg f pc B ''SELF receiver'',
                     validateRKString f pc C ''SELF method'']
      | _ \<Rightarrow> Inr ())"

text \<open>Arithmetic, comparisons, tests and the plain jump.\<close>

definition validate_compute_op :: "proto_fields \<Rightarrow> nat \<Rightarrow> opcode \<Rightarrow> u32 \<Rightarrow> check" where
  "validate_compute_op f pc p inst =
     (let A = opGetArgA inst; B = opGetArgB inst; C = opGetArgC inst; Sbx = opGetArgSbx inst
      in if p \<in> {OP_ADD, OP_SUB, OP_MUL, OP_DIV, OP_MOD, OP_POW, OP_BAND, OP_BOR, OP_BXOR, OP_SHL, OP_SHR, OP_IDIV}
         then check_all [validateReg f pc A ''arithmetic destination'', validateRK f pc B ''arithmetic lhs'',
                         validateRK f pc C ''arithmetic rhs'']
         else if p \<in> {OP_UNM, OP_LEN, OP_BNOT}
         then check_all [validateReg f pc A ''unary destination'', validateRK f pc B ''unary operand'']
         else if p = OP_NOT
         then check_all [validateReg f pc A ''NOT destination'', validateReg f pc B ''NOT source'']
         else if p = OP_CONCAT
         then check_all [validateReg f pc A ''CONCAT destination'', validateRegRange f pc B C ''CONCAT operand'']
         else if p = OP_JMP then validateJumpTarget f pc Sbx ''JMP''
         else if p \<in> {OP_EQ, OP_LT, OP_LE}
         then check_all [validateRK f pc B ''comparison lhs'', validateRK f pc C ''comparison rhs'',
                         validateHasNext f pc (prop_Name (opProps ! nat (op_code p)))]
         else if p = OP_TEST
         then check_all [validateReg f pc A ''TEST source'', validateHasNext f pc ''TEST'']
         else if p = OP_TESTSET
         then check_all [validateReg f pc A ''TESTSET destination'', validateReg f pc B ''TESTSET source'',
                         validateHasNext f pc ''TESTSET'']
         else Inr ())"

text \<open>Calls, returns, the numeric loop and variable arguments.\<close>

definition validate_call_op :: "proto_fields \<Rightarrow> nat \<Rightarrow> opcode \<Rightarrow> u32 \<Rightarrow> check" where
  "validate_call_op f pc p inst =
     (let A = opGetArgA inst; B = opGetArgB inst; C = opGetArgC inst; Sbx = opGetArgSbx inst
      in if p = OP_CALL
         then check_all [validateReg f pc A ''CALL base'',
                         if_needed (B > 0) (validateRegRange f pc A (A + B - 1) ''CALL argument''),
                         if_needed (C > 1) (validateRegRange f pc A (A + C - 2) ''CALL destination'')]
         else if p = OP_TAILCALL
         then check_all [validateReg f pc A ''TAILCALL base'',
                         if_needed (B > 0) (validateRegRange f pc A (A + B - 1) ''TAILCALL argument'')]
         else if p = OP_RETURN
         then check_all [validateReg f pc A ''RETURN base'',
                         if_needed (B > 1) (validateRegRange f pc A (A + B - 2) ''RETURN value'')]
         else if p = OP_FORLOOP
         then check_all [validateRegRange f pc A (A + 3) ''FORLOOP'', validateJumpTarget f pc Sbx ''FORLOOP'']
         else if p = OP_FORPREP
         then check_all [validateRegRange f pc A (A + 2) ''FORPREP'', validateJumpTarget f pc Sbx ''FORPREP'']
         else if p = OP_VARARG
         then check_all [validateReg f pc A ''VARARG destination'',
                         if_needed (B > 1) (validateRegRange f pc A (A + B - 2) ''VARARG destination'')]
         else Inr ())"

text \<open>The instructions that consume words behind them.\<close>

definition validate_MOVEN :: "proto_fields \<Rightarrow> nat \<Rightarrow> u32 \<Rightarrow> go_error + nat" where
  "validate_MOVEN f pc inst =
     (let A = opGetArgA inst; B = opGetArgB inst; n = nat (opGetArgC inst)
      in bindr (check_all [validateReg f pc A ''MOVEN destination'', validateReg f pc B ''MOVEN source'',
                  ensure (\<not> length (Code f) \<le> pc + n)
                    (Errorf ''MOVEN at pc %d missing %d trailing MOVE instruction(s)'' [IArg (int pc), IArg (int n)])])
         (\<lambda>_. bindr (check_all (concat (map (\<lambda>j. let extra = Code f ! (pc + 1 + j)
                    in [ensure (opGetOpCode extra = op_code OP_MOVE)
                          (Errorf ''MOVEN at pc %d expects MOVE at pc %d'' [IArg (int pc), IArg (int (pc + 1 + j))]),
                        validateReg f pc (opGetArgA extra) ''MOVEN trailing destination'',
                        validateReg f pc (opGetArgB extra) ''MOVEN trailing source'']) [0..<n])))
         (\<lambda>_. Inr n)))"

definition validate_TFORLOOP :: "proto_fields \<Rightarrow> nat \<Rightarrow> u32 \<Rightarrow> go_error + nat" where
  "validate_TFORLOOP f pc inst =
     (let A = opGetArgA inst; C = opGetArgC inst
      in bindr (check_all [validateRegRange f pc A (A + 3 + C) ''TFORLOOP'', validateHasNext f pc ''TFORLOOP''])
         (\<lambda>_. let helper = Code f ! (pc + 1)
          in bindr (check_all [ensure (opGetOpCode helper = op_code OP_JMP)
                       (Errorf ''TFORLOOP at pc %d expects JMP helper at pc %d'' [IArg (int pc), IArg (int (pc + 1))]),
                     validateJumpTarget f (pc + 1) (opGetArgSbx helper) ''TFORLOOP helper''])
             (\<lambda>_. Inr 1)))"

definition validate_SETLIST :: "proto_fields \<Rightarrow> nat \<Rightarrow> u32 \<Rightarrow> go_error + nat" where
  "validate_SETLIST f pc inst =
     (let A = opGetArgA inst; B = opGetArgB inst; C = opGetArgC inst
      in bindr (check_all [validateReg f pc A ''SETLIST table'',
                  if_needed (B > 0) (validateRegRange f pc (A + 1) (A + B) ''SETLIST source'')])
         (\<lambda>_. if C = 0 then bindr (validateHasNext f pc ''SETLIST'') (\<lambda>_. Inr 1) else Inr 0))"

definition validate_binding :: "proto_fields \<Rightarrow> nat \<Rightarrow> nat \<Rightarrow> check" where
  "validate_binding f pc j =
     (let extra = Code f ! (pc + 1 + j); op = opGetOpCode extra
      in if op = op_code OP_MOVE then validateReg f pc (opGetArgB extra) ''CLOSURE upvalue source''
         else if op = op_code OP_GETUPVAL
         then validateUpvalue f pc (opGetArgB extra) ''CLOSURE captured upvalue''
         else Inl (Errorf ''invalid CLOSURE upvalue binding opcode %d at pc %d'' [IArg op, IArg (int (pc + 1 + j))]))"

definition validate_CLOSURE ::
  "proto_fields \<Rightarrow> FunctionProto option list \<Rightarrow> nat \<Rightarrow> u32 \<Rightarrow> go_error + nat" where
  "validate_CLOSURE f kids pc inst =
     (let A = opGetArgA inst; Bx = opGetArgBx inst
      in bindr (check_all [validateReg f pc A ''CLOSURE destination'',
                  ensure (\<not> (Bx < 0 \<or> int (length kids) \<le> Bx))
                    (Errorf ''invalid closure prototype index %d at pc %d'' [IArg Bx, IArg (int pc)])])
         (\<lambda>_. case kids ! nat Bx of
            None \<Rightarrow> Inl (Errorf ''nil closure prototype at index %d for pc %d'' [IArg Bx, IArg (int pc)])
          | Some child \<Rightarrow>
              let nup = unat (NumUpvalues (proto_info child))
              in bindr (ensure (\<not> (nup > 0 \<and> length (Code f) \<le> pc + nup))
                         (Errorf ''CLOSURE at pc %d missing %d upvalue binding instruction(s)''
                           [IArg (int pc), IArg (int nup)]))
                 (\<lambda>_. bindr (check_all (map (validate_binding f pc) [0..<nup])) (\<lambda>_. Inr nup))))"

definition data_ops :: "opcode list" where
  "data_ops =
     [OP_MOVE, OP_LOADK, OP_LOADBOOL, OP_LOADNIL, OP_GETUPVAL, OP_GETGLOBAL, OP_GETTABLE, OP_GETTABLEKS,
      OP_SETGLOBAL, OP_SETUPVAL, OP_SETTABLE, OP_SETTABLEKS, OP_NEWTABLE, OP_SELF]"

definition call_ops :: "opcode list" where
  "call_ops = [OP_CALL, OP_TAILCALL, OP_RETURN, OP_FORLOOP, OP_FORPREP, OP_VARARG]"

definition validateDecodedInstruction ::
  "proto_fields \<Rightarrow> FunctionProto option list \<Rightarrow> nat \<Rightarrow> go_error + nat" where
  "validateDecodedInstruction f kids pc =
     (let inst = Code f ! pc
      in case op_at (opGetOpCode inst) of
           None \<Rightarrow> Inl (Errorf ''invalid opcode %d at pc %d'' [IArg (opGetOpCode inst), IArg (int pc)])
         | Some p \<Rightarrow>
             if p = OP_MOVEN then validate_MOVEN f pc inst
             else if p = OP_TFORLOOP then validate_TFORLOOP f pc inst
             else if p = OP_SETLIST then validate_SETLIST f pc inst
             else if p = OP_CLOSURE then validate_CLOSURE f kids pc inst
             else bindr (if p \<in> set data_ops then validate_data_op f pc p inst
                         else if p \<in> set call_ops then validate_call_op f pc p inst
                         else validate_compute_op f pc p inst)
                    (\<lambda>_. Inr 0))"

section \<open>Prototypes\<close>

text \<open>The loop over the code: each instruction says how many words behind it to skip.\<close>

function validate_code :: "proto_fields \<Rightarrow> FunctionProto option list \<Rightarrow> nat \<Rightarrow> check" where
  "validate_code f kids pc =
     (if length (Code f) \<le> pc then Inr ()
      else bindr (validateDecodedInstruction f kids pc)
             (\<lambda>extraConsumed. validate_code f kids (pc + extraConsumed + 1)))"
  by pat_completeness auto
termination by (relation "measure (\<lambda>(f, kids, pc). length (Code f) - pc)") auto

declare validate_code.simps [simp del]

definition validate_locals :: "proto_fields \<Rightarrow> check" where
  "validate_locals f =
     check_all (map (\<lambda>(i, li). case li of None \<Rightarrow> Inr ()
         | Some l \<Rightarrow> ensure (\<not> (li_Reg l < 0 \<or> uint (NumUsedRegisters f) \<le> li_Reg l))
             (Errorf ''invalid debug local register %d at index %d'' [IArg (li_Reg l), IArg (int i)]))
       (enumerate 0 (DbgLocals f)))"

definition validate_node :: "proto_fields \<Rightarrow> FunctionProto option list \<Rightarrow> check" where
  "validate_node f kids =
     check_all
       [ensure (length (stringConstants f) = length (Constants f)) (Errorf ''invalid string constant cache'' []),
        ensure (\<not> uint (NumUsedRegisters f) < uint (NumParameters f))
          (Errorf ''invalid function proto: num parameters %d exceeds registers %d''
            [IArg (uint (NumParameters f)), IArg (uint (NumUsedRegisters f))]),
        validate_locals f,
        validate_code f kids 0]"

fun validateDecodedProto :: "FunctionProto \<Rightarrow> check"
  and validate_children :: "nat \<Rightarrow> FunctionProto option list \<Rightarrow> check" where
  "validateDecodedProto (FunctionProto f kids) =
     bindr (validate_node f kids) (\<lambda>_. validate_children 0 kids)"
| "validate_children i [] = Inr ()"
| "validate_children i (None # kids) = Inl (Errorf ''nil child function proto at index %d'' [IArg (int i)])"
| "validate_children i (Some child # kids) =
     bindr (validateDecodedProto child) (\<lambda>_. validate_children (i + 1) kids)"

section \<open>What a validated instruction may touch\<close>

text \<open>
  The registers an instruction reads or writes, the constants it reads, the constants it needs
  to be strings, the upvalues, and the jump target relative to the instruction, as the VM's
  instruction handlers use their operands.
\<close>

definition rk_regs :: "int \<Rightarrow> int list" where
  "rk_regs v = (if opIsK v then [] else [v])"

definition rk_consts :: "int \<Rightarrow> int list" where
  "rk_consts v = (if opIsK v then [opIndexK v] else [])"

definition binary_ops :: "opcode list" where
  "binary_ops =
     [OP_ADD, OP_SUB, OP_MUL, OP_DIV, OP_MOD, OP_POW, OP_BAND, OP_BOR, OP_BXOR, OP_SHL, OP_SHR, OP_IDIV]"

definition named_registers :: "opcode \<Rightarrow> int \<Rightarrow> int \<Rightarrow> int \<Rightarrow> int list" where
  "named_registers p A B C =
     (if p \<in> {OP_MOVE, OP_MOVEN, OP_NOT} then [A, B]
      else if p \<in> {OP_LOADK, OP_LOADBOOL, OP_GETUPVAL, OP_GETGLOBAL, OP_SETGLOBAL, OP_SETUPVAL,
                   OP_NEWTABLE, OP_TEST, OP_CLOSURE} then [A]
      else if p = OP_LOADNIL then [A..B]
      else if p \<in> {OP_GETTABLE} then [A, B] @ rk_regs C
      else if p = OP_GETTABLEKS then [A, B]
      else if p = OP_SETTABLE then A # rk_regs B @ rk_regs C
      else if p = OP_SETTABLEKS then A # rk_regs C
      else if p = OP_SELF then [A, A + 1, B]
      else if p \<in> set binary_ops then A # rk_regs B @ rk_regs C
      else if p \<in> {OP_UNM, OP_LEN, OP_BNOT} then A # rk_regs B
      else if p = OP_CONCAT then A # [B..C]
      else if p \<in> {OP_EQ, OP_LT, OP_LE} then rk_regs B @ rk_regs C
      else if p = OP_TESTSET then [A, B]
      else if p = OP_CALL then A # [A..A + B - 1] @ [A..A + C - 2]
      else if p = OP_TAILCALL then A # [A..A + B - 1]
      else if p \<in> {OP_RETURN, OP_VARARG} then A # [A..A + B - 2]
      else if p = OP_FORLOOP then [A..A + 3]
      else if p = OP_FORPREP then [A..A + 2]
      else if p = OP_TFORLOOP then [A..A + 3 + C]
      else if p = OP_SETLIST then [A..A + B]
      else [])"

text \<open>A \<open>TFORLOOP\<close> also copies its iterator and the two arguments to the registers it calls it in.\<close>

definition touched :: "opcode \<Rightarrow> int \<Rightarrow> int \<Rightarrow> int \<Rightarrow> int list" where
  "touched p A B C = named_registers p A B C @ (if p = OP_TFORLOOP then [A + 3..A + 5] else [])"

definition touched_regs :: "opcode \<Rightarrow> u32 \<Rightarrow> int list" where
  "touched_regs p w = touched p (opGetArgA w) (opGetArgB w) (opGetArgC w)"

definition touched_consts :: "opcode \<Rightarrow> u32 \<Rightarrow> int list" where
  "touched_consts p w =
     (let B = opGetArgB w; C = opGetArgC w
      in if p \<in> {OP_LOADK, OP_GETGLOBAL, OP_SETGLOBAL} then [opGetArgBx w]
         else if p \<in> {OP_GETTABLE, OP_GETTABLEKS, OP_SELF} then rk_consts C
         else if p \<in> set binary_ops \<union> {OP_SETTABLE, OP_SETTABLEKS, OP_EQ, OP_LT, OP_LE}
         then rk_consts B @ rk_consts C
         else if p \<in> {OP_UNM, OP_LEN, OP_BNOT} then rk_consts B
         else [])"

definition needed_strings :: "opcode \<Rightarrow> u32 \<Rightarrow> int list" where
  "needed_strings p w =
     (if p \<in> {OP_GETGLOBAL, OP_SETGLOBAL} then [opGetArgBx w]
      else if p \<in> {OP_GETTABLEKS, OP_SELF} then [opIndexK (opGetArgC w)]
      else if p = OP_SETTABLEKS then [opIndexK (opGetArgB w)]
      else [])"

definition touched_upvalues :: "opcode \<Rightarrow> u32 \<Rightarrow> int list" where
  "touched_upvalues p w = (if p \<in> {OP_GETUPVAL, OP_SETUPVAL} then [opGetArgB w] else [])"

definition jump_offsets :: "opcode \<Rightarrow> u32 \<Rightarrow> int list" where
  "jump_offsets p w = (if p \<in> {OP_JMP, OP_FORLOOP, OP_FORPREP} then [1 + opGetArgSbx w] else [])"

text \<open>
  The words an instruction consumes behind itself: further moves of a \<open>MOVEN\<close>, the jump of a \<open>TFORLOOP\<close>,
  the data word of a \<open>SETLIST\<close> and the bindings of a \<open>CLOSURE\<close>.
\<close>

definition consumed :: "proto_fields \<Rightarrow> FunctionProto option list \<Rightarrow> opcode \<Rightarrow> u32 \<Rightarrow> nat" where
  "consumed f kids p w =
     (if p = OP_MOVEN then nat (opGetArgC w)
      else if p = OP_TFORLOOP then 1
      else if p = OP_SETLIST then (if opGetArgC w = 0 then 1 else 0)
      else if p = OP_CLOSURE
      then (case kids ! nat (opGetArgBx w) of None \<Rightarrow> 0 | Some child \<Rightarrow> unat (NumUpvalues (proto_info child)))
      else 0)"

definition register_exists :: "proto_fields \<Rightarrow> int \<Rightarrow> bool" where
  "register_exists f r \<longleftrightarrow> 0 \<le> r \<and> r < uint (NumUsedRegisters f)"

definition upvalue_exists :: "proto_fields \<Rightarrow> int \<Rightarrow> bool" where
  "upvalue_exists f u \<longleftrightarrow> 0 \<le> u \<and> u < uint (NumUpvalues f)"

text \<open>What the word \<open>e\<close> at \<open>k\<close> names when \<open>p\<close> consumes it.\<close>

definition consumed_exist :: "proto_fields \<Rightarrow> opcode \<Rightarrow> nat \<Rightarrow> u32 \<Rightarrow> bool" where
  "consumed_exist f p k e \<longleftrightarrow>
     (if p = OP_MOVEN
      then opGetOpCode e = op_code OP_MOVE \<and> register_exists f (opGetArgA e) \<and> register_exists f (opGetArgB e)
      else if p = OP_TFORLOOP
      then opGetOpCode e = op_code OP_JMP \<and> 0 \<le> int k + 1 + opGetArgSbx e \<and> int k + 1 + opGetArgSbx e < int (length (Code f))
      else if p = OP_CLOSURE
      then opGetOpCode e = op_code OP_MOVE \<and> register_exists f (opGetArgB e) \<or>
        opGetOpCode e = op_code OP_GETUPVAL \<and> upvalue_exists f (opGetArgB e)
      else True)"

text \<open>
  Everything the instruction at \<open>pc\<close> uses exists, with one exception: a \<open>TFORLOOP\<close> copies the iterator and its two
  arguments to the three registers from \<open>A + 3\<close> on, but only those up to \<open>A + 3 + C\<close> are checked.
\<close>

definition operands_exist :: "proto_fields \<Rightarrow> FunctionProto option list \<Rightarrow> nat \<Rightarrow> opcode \<Rightarrow> u32 \<Rightarrow> bool" where
  "operands_exist f kids pc p w \<longleftrightarrow>
     (\<forall>r \<in> set (touched_regs p w). register_exists f r \<or>
        p = OP_TFORLOOP \<and> opGetArgA w + 3 + opGetArgC w < r \<and> r \<le> opGetArgA w + 5) \<and>
     (\<forall>k \<in> set (touched_consts p w). 0 \<le> k \<and> k < int (length (Constants f))) \<and>
     (\<forall>k \<in> set (needed_strings p w). \<exists>s. Constants f ! nat k = LString s) \<and>
     (\<forall>u \<in> set (touched_upvalues p w). upvalue_exists f u) \<and>
     (\<forall>d \<in> set (jump_offsets p w). 0 \<le> int pc + d \<and> int pc + d < int (length (Code f))) \<and>
     (p = OP_CLOSURE \<longrightarrow> nat (opGetArgBx w) < length kids \<and> kids ! nat (opGetArgBx w) \<noteq> None) \<and>
     (\<forall>j < consumed f kids p w. pc + 1 + j < length (Code f) \<and> consumed_exist f p (pc + 1 + j) (Code f ! (pc + 1 + j)))"

named_theorems check_simps \<open>what a passed check says\<close>

lemma validateReg_iff [check_simps]:
  "validateReg f pc r what = Inr u \<longleftrightarrow> register_exists f r"
  by (auto simp: validateReg_def register_exists_def)

lemma validateRegRange_iff [check_simps]:
  "validateRegRange f pc a b what = Inr u \<longleftrightarrow> 0 \<le> a \<and> a \<le> b \<and> b < uint (NumUsedRegisters f)"
  by (auto simp: validateRegRange_def)

lemma validateConst_iff [check_simps]:
  "validateConst f pc k what = Inr u \<longleftrightarrow> 0 \<le> k \<and> k < int (length (Constants f))"
  by (auto simp: validateConst_def)

lemma is_LString_iff: "is_LString v \<longleftrightarrow> (\<exists>s. v = LString s)"
  by (cases v) auto

lemma validateStringConst_iff [check_simps]:
  "validateStringConst f pc k what = Inr u \<longleftrightarrow>
     0 \<le> k \<and> k < int (length (Constants f)) \<and> (\<exists>s. Constants f ! nat k = LString s)"
  by (auto simp: validateStringConst_def check_simps is_LString_iff)

lemma validateUpvalue_iff [check_simps]:
  "validateUpvalue f pc k what = Inr u \<longleftrightarrow> upvalue_exists f k"
  by (auto simp: validateUpvalue_def upvalue_exists_def)

lemma validateRK_iff [check_simps]:
  "validateRK f pc v what = Inr u \<longleftrightarrow>
     (\<forall>r \<in> set (rk_regs v). register_exists f r) \<and>
     (\<forall>k \<in> set (rk_consts v). 0 \<le> k \<and> k < int (length (Constants f)))"
  by (simp add: validateRK_def check_simps rk_regs_def rk_consts_def)

lemma validateRKString_iff [check_simps]:
  "validateRKString f pc v what = Inr u \<longleftrightarrow>
     rk_regs v = [] \<and> (\<forall>k \<in> set (rk_consts v). 0 \<le> k \<and> k < int (length (Constants f))) \<and>
     (\<exists>s. Constants f ! nat (opIndexK v) = LString s)"
  by (auto simp: validateRKString_def check_simps rk_regs_def rk_consts_def)

lemma validateHasNext_iff [check_simps]:
  "validateHasNext f pc what = Inr u \<longleftrightarrow> pc + 1 < length (Code f)"
  by (auto simp: validateHasNext_def)

lemma validateJumpTarget_iff [check_simps]:
  "validateJumpTarget f pc d what = Inr u \<longleftrightarrow>
     0 \<le> int pc + (1 + d) \<and> int pc + (1 + d) < int (length (Code f))"
  by (auto simp: validateJumpTarget_def Let_def)

lemma if_needed_iff [check_simps]: "if_needed b c = Inr u \<longleftrightarrow> (b \<longrightarrow> c = Inr ())"
  by (simp add: if_needed_def)

lemmas touch_defs =
  operands_exist_def touched_regs_def touched_def named_registers_def touched_consts_def needed_strings_def touched_upvalues_def
  jump_offsets_def register_exists_def upvalue_exists_def consumed_def Let_def binary_ops_def

lemma validate_data_op_exist:
  assumes "validate_data_op f pc p w = Inr u" "p \<in> set data_ops"
  shows "operands_exist f kids pc p w"
  using assms unfolding validate_data_op_def Let_def
  by (cases p) (auto simp: data_ops_def touch_defs check_simps)

lemma validate_call_op_exist:
  assumes "validate_call_op f pc p w = Inr u" "p \<in> set call_ops"
  shows "operands_exist f kids pc p w"
  using assms unfolding validate_call_op_def Let_def
  by (cases p) (auto simp: call_ops_def touch_defs check_simps)

lemma validate_compute_op_exist:
  assumes "validate_compute_op f pc p w = Inr u" "p \<notin> set data_ops" "p \<notin> set call_ops"
    "p \<notin> {OP_MOVEN, OP_TFORLOOP, OP_SETLIST, OP_CLOSURE}"
  shows "operands_exist f kids pc p w"
  using assms unfolding validate_compute_op_def Let_def
  by (cases p) (auto simp: data_ops_def call_ops_def touch_defs check_simps)


lemma validate_MOVEN_exist:
  assumes "validate_MOVEN f pc w = Inr n"
  shows "operands_exist f kids pc OP_MOVEN w"
  using assms by (auto simp: validate_MOVEN_def consumed_exist_def touch_defs check_simps)

lemma validate_TFORLOOP_exist:
  assumes "validate_TFORLOOP f pc w = Inr n"
  shows "operands_exist f kids pc OP_TFORLOOP w"
  using assms by (auto simp: validate_TFORLOOP_def consumed_exist_def touch_defs check_simps)

lemma validate_SETLIST_exist:
  assumes "validate_SETLIST f pc w = Inr n"
  shows "operands_exist f kids pc OP_SETLIST w"
  using assms field_range(2) [of w]
  by (auto simp: validate_SETLIST_def consumed_exist_def touch_defs check_simps split: if_splits)

lemma validate_binding_exist:
  "validate_binding f pc j = Inr u \<Longrightarrow> consumed_exist f OP_CLOSURE (pc + 1 + j) (Code f ! (pc + 1 + j))"
  by (auto simp: validate_binding_def consumed_exist_def Let_def check_simps split: if_splits)

lemma validate_CLOSURE_exist:
  assumes "validate_CLOSURE f kids pc w = Inr n"
  shows "operands_exist f kids pc OP_CLOSURE w"
  using assms
  by (auto simp: validate_CLOSURE_def touch_defs check_simps simp del: add_Suc add_Suc_right
      split: option.splits dest!: validate_binding_exist)

lemmas validate_special_exist =
  validate_MOVEN_exist validate_TFORLOOP_exist validate_SETLIST_exist validate_CLOSURE_exist

lemma validate_special_extra:
  "validate_MOVEN f pc w = Inr n \<Longrightarrow> pc < length (Code f) \<Longrightarrow> pc + n < length (Code f)"
  "validate_TFORLOOP f pc w = Inr n \<Longrightarrow> pc < length (Code f) \<Longrightarrow> pc + n < length (Code f)"
  "validate_SETLIST f pc w = Inr n \<Longrightarrow> pc < length (Code f) \<Longrightarrow> pc + n < length (Code f)"
  "validate_CLOSURE f kids pc w = Inr n \<Longrightarrow> pc < length (Code f) \<Longrightarrow> pc + n < length (Code f)"
  by (auto simp: validate_MOVEN_def validate_TFORLOOP_def validate_SETLIST_def validate_CLOSURE_def
      Let_def check_simps split: if_splits option.splits)

text \<open>A validated instruction: its opcode exists, its operands exist, and the words it consumes
are inside the code.\<close>

lemma validateDecodedInstruction_sound:
  assumes v: "validateDecodedInstruction f kids pc = Inr n" and pc: "pc < length (Code f)"
  shows "\<exists>p. op_at (opGetOpCode (Code f ! pc)) = Some p \<and> operands_exist f kids pc p (Code f ! pc) \<and>
    pc + n < length (Code f)"
proof -
  let ?w = "Code f ! pc"
  from v obtain p where p: "op_at (opGetOpCode ?w) = Some p"
    by (auto simp: validateDecodedInstruction_def Let_def split: option.splits)
  show ?thesis
  proof (cases "p \<in> {OP_MOVEN, OP_TFORLOOP, OP_SETLIST, OP_CLOSURE}")
    case True
    then show ?thesis
      using v pc p
      by (auto simp: validateDecodedInstruction_def Let_def intro: validate_special_exist validate_special_extra)
  next
    case False
    then have "n = 0" and c: "(if p \<in> set data_ops then validate_data_op f pc p ?w
        else if p \<in> set call_ops then validate_call_op f pc p ?w
        else validate_compute_op f pc p ?w) = Inr ()"
      using v p by (auto simp: validateDecodedInstruction_def Let_def)
    moreover have "operands_exist f kids pc p ?w"
      using c False validate_data_op_exist validate_call_op_exist validate_compute_op_exist
      by (auto split: if_splits)
    ultimately show ?thesis using p pc by simp
  qed
qed

section \<open>Whole prototypes\<close>

text \<open>The program counters at which the validator sees an instruction.\<close>

inductive boundary :: "proto_fields \<Rightarrow> FunctionProto option list \<Rightarrow> nat \<Rightarrow> bool" for f kids where
  boundary_start: "0 < length (Code f) \<Longrightarrow> boundary f kids 0"
| boundary_next: "boundary f kids pc \<Longrightarrow> validateDecodedInstruction f kids pc = Inr n \<Longrightarrow>
    pc + n + 1 < length (Code f) \<Longrightarrow> boundary f kids (pc + n + 1)"

inductive_cases boundaryE: "boundary f kids pc"

lemma boundary_in_code: "boundary f kids pc \<Longrightarrow> pc < length (Code f)"
  by (auto elim: boundaryE)

lemma boundary_validated:
  assumes "boundary f kids pc" "validate_code f kids 0 = Inr ()"
  shows "validate_code f kids pc = Inr () \<and> (\<exists>n. validateDecodedInstruction f kids pc = Inr n)"
  using assms
proof (induction rule: boundary.induct)
  case boundary_start
  then show ?case by (auto simp: validate_code.simps [of f kids 0])
next
  case (boundary_next pc n)
  then have v: "validate_code f kids pc = Inr ()" by simp
  have "pc < length (Code f)" using boundary_next.hyps(1) by (rule boundary_in_code)
  with v have "validate_code f kids (pc + n + 1) = Inr ()"
    using boundary_next.hyps(2) by (auto simp: validate_code.simps [of f kids pc])
  then show ?case using boundary_next.hyps(3) by (auto simp: validate_code.simps [of f kids "Suc (pc + n)"])
qed

text \<open>Every node of the tree satisfies \<open>P\<close>, nested prototypes included.\<close>

primrec every_node :: "(proto_fields \<Rightarrow> FunctionProto option list \<Rightarrow> bool) \<Rightarrow> FunctionProto \<Rightarrow> bool" where
  "every_node P (FunctionProto f kids) \<longleftrightarrow>
     P f kids \<and> list_all (\<lambda>k. case k of None \<Rightarrow> False | Some b \<Rightarrow> b) (map (map_option (every_node P)) kids)"

lemma every_node_kids:
  "every_node P (FunctionProto f kids) \<longleftrightarrow> P f kids \<and> (\<forall>k \<in> set kids. \<exists>p. k = Some p \<and> every_node P p)"
  by (force simp: list_all_iff split: option.splits)

lemma every_node_mono: "every_node P p \<Longrightarrow> (\<And>f kids. P f kids \<Longrightarrow> Q f kids) \<Longrightarrow> every_node Q p"
proof (induction p)
  case (FunctionProto f kids)
  then show ?case unfolding every_node_kids by fastforce
qed

lemma validateDecodedProto_every_node:
  "validateDecodedProto p = Inr () \<longleftrightarrow> every_node (\<lambda>f kids. validate_node f kids = Inr ()) p"
  and validate_children_every_node:
  "validate_children i ks = Inr () \<longleftrightarrow>
     (\<forall>k \<in> set ks. \<exists>p. k = Some p \<and> every_node (\<lambda>f kids. validate_node f kids = Inr ()) p)"
proof (induction p and i ks rule: validateDecodedProto_validate_children.induct)
  case (1 f kids)
  then show ?case by (cases "validate_node f kids") (simp_all add: every_node_kids del: every_node.simps)
qed auto

definition safe_node :: "proto_fields \<Rightarrow> FunctionProto option list \<Rightarrow> bool" where
  "safe_node f kids \<longleftrightarrow>
     uint (NumParameters f) \<le> uint (NumUsedRegisters f) \<and>
     (\<forall>l. Some l \<in> set (DbgLocals f) \<longrightarrow> 0 \<le> li_Reg l \<and> li_Reg l < uint (NumUsedRegisters f)) \<and>
     (\<forall>pc. boundary f kids pc \<longrightarrow>
        (\<exists>p n. op_at (opGetOpCode (Code f ! pc)) = Some p \<and> operands_exist f kids pc p (Code f ! pc) \<and>
           validateDecodedInstruction f kids pc = Inr n \<and> pc + n < length (Code f)))"

lemma validate_node_safe:
  assumes "validate_node f kids = Inr ()" shows "safe_node f kids"
proof -
  from assms have p: "uint (NumParameters f) \<le> uint (NumUsedRegisters f)"
    and l: "validate_locals f = Inr ()" and c: "validate_code f kids 0 = Inr ()"
    by (auto simp: validate_node_def)
  have locals: "0 \<le> li_Reg l \<and> li_Reg l < uint (NumUsedRegisters f)" if "Some l \<in> set (DbgLocals f)" for l
  proof -
    from that obtain i where "i < length (DbgLocals f)" "DbgLocals f ! i = Some l"
      by (auto simp: in_set_conv_nth)
    then have "(i, Some l) \<in> set (enumerate 0 (DbgLocals f))"
      by (auto simp: in_set_enumerate_eq)
    with l show ?thesis by (fastforce simp: validate_locals_def)
  qed
  have "\<exists>p n. op_at (opGetOpCode (Code f ! pc)) = Some p \<and> operands_exist f kids pc p (Code f ! pc) \<and>
      validateDecodedInstruction f kids pc = Inr n \<and> pc + n < length (Code f)"
    if b: "boundary f kids pc" for pc
    using boundary_validated [OF b c] validateDecodedInstruction_sound boundary_in_code [OF b] by blast
  with p locals show ?thesis by (simp add: safe_node_def)
qed


section \<open>Words the validator skips\<close>

text \<open>
  A jump is only checked to stay inside the code. This code jumps to the data word of a
  \<open>SETLIST\<close>, which is skipped by the scan; its opcode field is out of range.
\<close>

definition skipping_code :: "u32 list" where
  "skipping_code =
     [opCreateASbx (op_code OP_JMP) 0 1, opCreateABC (op_code OP_SETLIST) 0 0 0, opInvalidInstruction,
      opCreateABC (op_code OP_RETURN) 0 1 0]"

definition skipping_fields :: proto_fields where
  "skipping_fields =
     \<lparr>SourceName = [], LineDefined = 0, LastLineDefined = 0, NumUpvalues = 0, NumParameters = 0,
      IsVarArg = 0, NumUsedRegisters = 2, Code = skipping_code, Constants = [], DbgSourcePositions = [],
      DbgLocals = [], DbgCalls = [], DbgUpvalues = [], stringConstants = []\<rparr>"

lemma jump_fields:
  "opGetOpCode (opCreateASbx 25 0 1) = 25" "opGetArgSbx (opCreateASbx 25 0 1) = 1"
  by (simp_all add: opCreateASbx_ABx get_opCreateABx opGetArgSbx_def opMaxArgSbx_def opMaxArgBx_def)

lemma op_at_numbers: "op_at 25 = Some OP_JMP" "op_at 37 = Some OP_SETLIST" "op_at 33 = Some OP_RETURN"
  by (simp_all add: op_code_at opCodeMax_def)

lemma skipping_instructions:
  "validateDecodedInstruction skipping_fields [] 0 = Inr 0"
  "validateDecodedInstruction skipping_fields [] 1 = Inr 1"
  "validateDecodedInstruction skipping_fields [] 3 = Inr 0"
  by (simp_all add: validateDecodedInstruction_def skipping_fields_def skipping_code_def jump_fields
      op_at_numbers get_opCreateABC data_ops_def call_ops_def validate_SETLIST_def validate_compute_op_def
      validate_call_op_def validateReg_def validateHasNext_def validateJumpTarget_def if_needed_def
      ensure_def Let_def numeral_3_eq_3)

lemma skipping_validated: "validateDecodedProto (FunctionProto skipping_fields []) = Inr ()"
proof -
  have l: "length (Code skipping_fields) = 4" by (simp add: skipping_fields_def skipping_code_def)
  have "validate_code skipping_fields [] 4 = Inr ()" by (subst validate_code.simps) (simp add: l)
  then have "validate_code skipping_fields [] 3 = Inr ()"
    by (subst validate_code.simps) (simp add: l skipping_instructions)
  then have "validate_code skipping_fields [] 1 = Inr ()"
    by (subst validate_code.simps) (simp add: l skipping_instructions del: One_nat_def)
  then have "validate_code skipping_fields [] 0 = Inr ()"
    by (subst validate_code.simps) (simp add: l skipping_instructions del: One_nat_def)
  then show ?thesis
    by (simp add: validate_node_def skipping_fields_def validate_locals_def)
qed

section \<open>Registers the validator does not check\<close>

text \<open>
  The first instruction of this code is a \<open>TFORLOOP\<close> with no loop variable (\<open>A = 0\<close>, \<open>C = 0\<close>) of a function with
  four registers: the range the validator checks ends at register 3, the call it makes needs registers 3 to 5.
\<close>

definition iterating_code :: "u32 list" where
  "iterating_code =
     [opCreateABC (op_code OP_TFORLOOP) 0 0 0, opCreateASbx (op_code OP_JMP) 0 0, opCreateABC (op_code OP_RETURN) 0 1 0]"

definition iterating_fields :: proto_fields where
  "iterating_fields = skipping_fields \<lparr>NumUsedRegisters := 4, Code := iterating_code\<rparr>"

lemma jump_back_fields:
  "opGetOpCode (opCreateASbx 25 0 0) = 25" "opGetArgSbx (opCreateASbx 25 0 0) = 0" "op_at 36 = Some OP_TFORLOOP"
  by (simp_all add: opCreateASbx_ABx get_opCreateABx opGetArgSbx_def opMaxArgSbx_def opMaxArgBx_def op_code_at
      opCodeMax_def)

lemma iterating_instructions:
  "validateDecodedInstruction iterating_fields [] 0 = Inr 1"
  "validateDecodedInstruction iterating_fields [] 2 = Inr 0"
  by (simp_all add: validateDecodedInstruction_def iterating_fields_def skipping_fields_def iterating_code_def
      jump_back_fields op_at_numbers get_opCreateABC data_ops_def call_ops_def validate_TFORLOOP_def
      validate_call_op_def validateReg_def validateRegRange_def validateHasNext_def validateJumpTarget_def
      if_needed_def ensure_def Let_def)

lemma iterating_validated: "validateDecodedProto (FunctionProto iterating_fields []) = Inr ()"
proof -
  have l: "length (Code iterating_fields) = 3" by (simp add: iterating_fields_def iterating_code_def)
  have "validate_code iterating_fields [] 3 = Inr ()" by (subst validate_code.simps) (simp add: l)
  then have "validate_code iterating_fields [] 2 = Inr ()"
    by (subst validate_code.simps) (simp add: l iterating_instructions flip: numeral_3_eq_3)
  then have "validate_code iterating_fields [] 0 = Inr ()"
    by (subst validate_code.simps) (simp add: l iterating_instructions numeral_2_eq_2 [symmetric] del: One_nat_def)
  then show ?thesis
    by (simp add: validate_node_def iterating_fields_def skipping_fields_def validate_locals_def)
qed

text \<open>Validation accepts an instruction that uses a register the function does not have.\<close>

theorem iterator_registers_unchecked:
  "\<exists>f. validateDecodedProto (FunctionProto f []) = Inr () \<and>
     (\<exists>r \<in> set (touched_regs OP_TFORLOOP (Code f ! 0)).
        opGetOpCode (Code f ! 0) = op_code OP_TFORLOOP \<and> \<not> register_exists f r)"
proof (intro exI conjI bexI)
  show "validateDecodedProto (FunctionProto iterating_fields []) = Inr ()" by (rule iterating_validated)
  show "opGetOpCode (Code iterating_fields ! 0) = op_code OP_TFORLOOP"
    "\<not> register_exists iterating_fields 5" "5 \<in> set (touched_regs OP_TFORLOOP (Code iterating_fields ! 0))"
    by (simp_all add: iterating_fields_def iterating_code_def get_opCreateABC register_exists_def touched_regs_def
        touched_def)
qed

section \<open>Properties\<close>

text \<open>C1: when a prototype tree passes validation, then at every node of the tree the parameters fit
the registers, every named local has a register, and at every instruction the validator's scan
reaches the opcode exists, every register, constant, string constant, upvalue, jump target and
nested prototype the instruction uses exists, the words it consumes lie inside the code, and they
are the moves, jumps and bindings it needs, with registers, upvalues and targets that exist in turn.
The one exception is stated with it: of the three registers a \<open>TFORLOOP\<close> calls its iterator in, those
beyond \<open>A + 3 + C\<close> are not checked (\<open>iterator_registers_unchecked\<close> is a prototype without them).
Registers up to the top, as the open forms of a call or return take them, are known at run time only.\<close>

theorem validation_sound:
  assumes "validateDecodedProto p = Inr ()"
  shows "every_node safe_node p"
proof -
  from assms have "every_node (\<lambda>f kids. validate_node f kids = Inr ()) p"
    by (simp add: validateDecodedProto_every_node)
  then show ?thesis by (rule every_node_mono) (rule validate_node_safe)
qed

theorem validation_sound_witness: "every_node safe_node (FunctionProto skipping_fields [])"
  by (rule validation_sound) (rule skipping_validated)

text \<open>C30: validation does not cover every word a jump can reach. There is a prototype that passes
although its first instruction jumps to a word which the scan never reaches (it is no
instruction boundary) and which is no instruction: its opcode number is beyond the last one.\<close>

theorem validated_jump_into_data:
  "\<exists>f. validateDecodedProto (FunctionProto f []) = Inr () \<and>
     (\<exists>target. opGetOpCode (Code f ! 0) = op_code OP_JMP \<and> int target = 1 + opGetArgSbx (Code f ! 0) \<and>
        target < length (Code f) \<and> \<not> boundary f [] target \<and> op_at (opGetOpCode (Code f ! target)) = None)"
proof (intro exI conjI)
  show "validateDecodedProto (FunctionProto skipping_fields []) = Inr ()" by (rule skipping_validated)
  show "opGetOpCode (Code skipping_fields ! 0) = op_code OP_JMP"
    and "int 2 = 1 + opGetArgSbx (Code skipping_fields ! 0)" and "2 < length (Code skipping_fields)"
    by (simp_all add: skipping_fields_def skipping_code_def jump_fields)
  have "op_at (opGetOpCode opInvalidInstruction) = None"
    by (simp add: opGetOpCode_def opInvalidInstruction_def op_at_def opCodeMax_def mask_eq_exp_minus_1)
  then show "op_at (opGetOpCode (Code skipping_fields ! 2)) = None"
    by (simp add: skipping_fields_def skipping_code_def numeral_2_eq_2)
  have "boundary skipping_fields [] pc \<Longrightarrow> pc \<in> {0, 1, 3}" for pc
  proof (induction rule: boundary.induct)
    case (boundary_next pc n)
    have l: "length (Code skipping_fields) = 4" by (simp add: skipping_fields_def skipping_code_def)
    from boundary_next.IH consider "pc = 0" | "pc = 1" | "pc = 3" by auto
    then show ?case
      by cases (use boundary_next.hyps(2,3) in \<open>simp_all add: skipping_instructions l del: One_nat_def\<close>)
  qed simp
  then show "\<not> boundary skipping_fields [] 2" by force
qed

end
