(* ===== verification/Container.thy ===== *)
theory Container
  imports Bytecode Validate
begin

text \<open>
  The bytecode blob (\<^verbatim>\<open>bytecode.go\<close>: \<^verbatim>\<open>EncodeFunctionProto\<close>,
  \<^verbatim>\<open>decodeFunctionProtoV2\<close>): magic bytes, format version, the identity of the virtual
  machine, the payload with its length, and the payload's SHA-256 digest. Main results: decoding
  what was encoded yields the hydrated prototype exactly when it passes validation, and every
  accepted blob has this exact form, so that a change of a single payload byte is refused unless
  it keeps the digest.
\<close>

section \<open>The header\<close>

definition bytecodeMagic :: "u8 list" where
  "bytecodeMagic = bytes_of ''TOLB''"

definition BytecodeFormatVersion :: u16 where
  "BytecodeFormatVersion = 1"

definition PackageName :: string where "PackageName = ''Tolang''"
definition PackageVersion :: string where "PackageVersion = ''0.2''"
definition LuaVersion :: string where "LuaVersion = ''Lua 5.1 (uint256)''"
definition LUint256Bit :: int where "LUint256Bit = 256"

definition bytecodeVMID :: string where
  "bytecodeVMID =
     concat [''pkg='', PackageName, ''-'', PackageVersion, '';lua='', LuaVersion, '';numbit='',
             itoa LUint256Bit, '';opmax='', itoa opCodeMax]"

definition IsBytecode :: "u8 list \<Rightarrow> bool" where
  "IsBytecode data \<longleftrightarrow> \<not> length data < length bytecodeMagic \<and>
     (\<forall>i \<in> set [0..<length bytecodeMagic]. data ! i = bytecodeMagic ! i)"

section \<open>Encoding\<close>

definition EncodeFunctionProto :: "FunctionProto option \<Rightarrow> go_error + u8 list" where
  "EncodeFunctionProto proto =
     (case proto of
        None \<Rightarrow> Inl (Errorf ''nil function proto'' [])
      | Some p \<Rightarrow>
          bindr (writeProto p) (\<lambda>payload.
            Inr (bytecodeMagic @ writeU16 BytecodeFormatVersion @ writeString bytecodeVMID
                 @ writeU32 (word_of_nat (length payload)) @ payload @ sha256_Sum256 payload)))"

section \<open>Decoding\<close>

text \<open>The part behind the header: payload length, payload, digest, and nothing else.\<close>

definition decode_payload :: "reader \<Rightarrow> go_error + u8 list" where
  "decode_payload r =
     bindr (wrap_error ''invalid bytecode payload length'' (readU32 r)) (\<lambda>(payloadLen, r).
       let remaining = length r
       in if word_of_nat remaining < payloadLen \<or> int remaining - uint payloadLen < 32
          then Inl (Errorf ''invalid bytecode payload size'' [])
          else
            let payload = take (unat payloadLen) r;
                r = drop (unat payloadLen) r;
                want = take 32 r;
                r = drop 32 r
            in if r \<noteq> [] then Inl (Errorf ''trailing bytes in bytecode'' [])
               else if sha256_Sum256 payload \<noteq> want then Inl (Errorf ''bytecode checksum mismatch'' [])
               else Inr payload)"

definition decodeFunctionProtoV2 :: "u8 list \<Rightarrow> go_error + FunctionProto" where
  "decodeFunctionProtoV2 data =
     bindr (wrap_error ''invalid bytecode header'' (io_ReadFull 4 data)) (\<lambda>(magic, r).
       if magic \<noteq> bytecodeMagic then Inl (Errorf ''invalid bytecode magic'' [])
       else bindr (wrap_error ''invalid bytecode version'' (readU16 r)) (\<lambda>(version, r).
         if version \<noteq> BytecodeFormatVersion
         then Inl (Errorf ''unsupported bytecode version: got=%d want=%d''
                [IArg (uint version), IArg (uint BytecodeFormatVersion)])
         else bindr (wrap_error ''invalid bytecode vm id'' (readString r)) (\<lambda>(vmID, r).
           if vmID \<noteq> bytecodeVMID
           then Inl (Errorf ''bytecode vm mismatch: got=%q want=%q'' [SArg vmID, SArg bytecodeVMID])
           else bindr (decode_payload r) (\<lambda>payload.
             bindr (readProto payload) (\<lambda>(proto, pr).
               if pr \<noteq> [] then Inl (Errorf ''trailing bytes in bytecode payload'' [])
               else
                 let proto = hydrateStringConstants proto
                 in bindr (validateDecodedProto proto) (\<lambda>_. Inr proto))))))"

definition DecodeFunctionProto :: "u8 list \<Rightarrow> go_error + FunctionProto" where
  "DecodeFunctionProto data = decodeFunctionProtoV2 data"

definition stripShebang :: "u8 list \<Rightarrow> u8 list" where
  "stripShebang src =
     (if src = [] \<or> src ! 0 \<noteq> word_of_nat (of_char (CHR ''#'')) then src
      else drop 1 (dropWhile (\<lambda>b. b \<noteq> 10) src))"

section \<open>Decoding what was encoded\<close>

lemma decode_payload_append:
  assumes "length payload + 36 < 2 ^ 32"
  shows "decode_payload (writeU32 (word_of_nat (length payload)) @ payload @ sha256_Sum256 payload) = Inr payload"
proof -
  have n: "unat (word_of_nat (length payload) :: u32) = length payload"
    using assms by (simp add: unsigned_of_nat take_bit_eq_mod)
  have m: "unat (word_of_nat (length payload + 32) :: u32) = length payload + 32"
    using assms by (simp add: unsigned_of_nat take_bit_eq_mod del: of_nat_add of_nat_numeral)
  have i: "uint (word_of_nat (length payload) :: u32) = int (length payload)"
    using n by (metis uint_nat)
  have "\<not> (word_of_nat (length payload + 32) :: u32) < word_of_nat (length payload)"
    by (simp only: word_less_nat_alt n m not_add_less1 not_False_eq_True)
  then show ?thesis
    by (simp add: decode_payload_def n i Let_def del: bindr_Inr_iff of_nat_add of_nat_numeral)
qed

lemma length_vmid: "length (writeString bytecodeVMID) = 4 + length bytecodeVMID"
  by (simp add: writeString_def writeU32_def)

lemma Decode_Encode:
  assumes e: "encodable p" and w: "EncodeFunctionProto (Some p) = Inr blob" and l: "length blob < 2 ^ 32"
  shows "DecodeFunctionProto blob =
    bindr (validateDecodedProto (hydrateStringConstants p)) (\<lambda>_. Inr (hydrateStringConstants p))"
proof -
  from w obtain payload where p: "writeProto p = Inr payload"
    and blob: "blob = bytecodeMagic @ writeU16 BytecodeFormatVersion @ writeString bytecodeVMID
      @ writeU32 (word_of_nat (length payload)) @ payload @ sha256_Sum256 payload"
    by (auto simp: EncodeFunctionProto_def)
  let ?tail = "writeU32 (word_of_nat (length payload)) @ payload @ sha256_Sum256 payload"
  have m: "io_ReadFull 4 (bytecodeMagic @ r) = Inr (bytecodeMagic, r)" for r
    by (rule io_ReadFull_append) (simp add: bytecodeMagic_def)
  have lt: "length (writeString bytecodeVMID @ ?tail) < 2 ^ 32" using l unfolding blob by simp
  then have "length payload + 36 < 2 ^ 32" by (simp add: writeU32_def length_vmid)
  note dp = decode_payload_append [OF this]
  have "readProto (payload @ []) = Inr (forget_cache p, [])"
    using lt by (intro readProto_writeProto [OF e p]) simp
  then show ?thesis
    unfolding DecodeFunctionProto_def decodeFunctionProtoV2_def blob
    by (simp add: m readString_write [OF lt] dp Let_def del: bindr_Inr_iff)
qed

section \<open>Accepted blobs\<close>

lemma decode_payload_form:
  assumes "decode_payload r = Inr payload"
  shows "\<exists>len. r = len @ payload @ sha256_Sum256 payload \<and> length len = 4"
proof -
  from assms obtain n r1 where n: "readU32 r = Inr (n, r1)" by (auto simp: decode_payload_def)
  from n have len: "\<exists>len. r = len @ r1 \<and> length len = 4"
    by (auto simp: readU32_def dest!: io_ReadFull_consumes)
  from assms n have f: "int (length r1) - uint n \<ge> 32" "drop 32 (drop (unat n) r1) = []"
    "payload = take (unat n) r1" "sha256_Sum256 payload = take 32 (drop (unat n) r1)"
    by (auto simp: decode_payload_def Let_def split: if_splits)
  have "r1 = payload @ take 32 (drop (unat n) r1) @ drop 32 (drop (unat n) r1)"
    unfolding f(3) append_take_drop_id ..
  with f len show ?thesis by auto
qed

lemma Decode_form:
  assumes "DecodeFunctionProto blob = Inr p"
  shows "\<exists>header payload q. blob = header @ payload @ sha256_Sum256 payload \<and> take 4 header = bytecodeMagic \<and>
    readProto payload = Inr (q, []) \<and> p = hydrateStringConstants q \<and> validateDecodedProto p = Inr ()"
proof -
  from assms obtain r1 v r2 s r3 payload q where
    r: "io_ReadFull 4 blob = Inr (bytecodeMagic, r1)" "readU16 r1 = Inr (v, r2)" "readString r2 = Inr (s, r3)"
      "decode_payload r3 = Inr payload" "readProto payload = Inr (q, [])"
    and p: "p = hydrateStringConstants q" "validateDecodedProto p = Inr ()"
    by (auto simp: DecodeFunctionProto_def decodeFunctionProtoV2_def Let_def split: if_splits)
  from r(1) have b: "blob = bytecodeMagic @ r1" and l: "length bytecodeMagic = 4"
    using io_ReadFull_consumes [OF r(1)] by auto
  from readU16_consumes [OF r(2)] strc.consumes [OF r(3)] obtain a c
    where "r1 = a @ r2" "r2 = c @ r3" by (auto simp: eats_def)
  moreover from decode_payload_form [OF r(4)] obtain len where "r3 = len @ payload @ sha256_Sum256 payload"
    by blast
  ultimately have "blob = (bytecodeMagic @ a @ c @ len) @ payload @ sha256_Sum256 payload"
    and "take 4 (bytecodeMagic @ a @ c @ len) = bytecodeMagic"
    using b l by simp_all
  with r(5) p show ?thesis by blast
qed


section \<open>An example prototype\<close>

text \<open>The compiled form of \<^verbatim>\<open>print(5)\<close>.\<close>

definition sample_fields :: proto_fields where
  "sample_fields =
     \<lparr>SourceName = ''print.tol'', LineDefined = 0, LastLineDefined = 0, NumUpvalues = 0, NumParameters = 0,
      IsVarArg = 0, NumUsedRegisters = 3,
      Code = [opCreateABx (op_code OP_GETGLOBAL) 0 0, opCreateABx (op_code OP_LOADK) 1 1,
              opCreateABC (op_code OP_CALL) 0 2 1, opCreateABC (op_code OP_RETURN) 0 1 0],
      Constants = [LString ''print'', LNum (LU256 5 0 0 0)], DbgSourcePositions = [1, 1, 1, 1],
      DbgLocals = [], DbgCalls = [\<lparr>dc_Name = ''print'', dc_Pc = 2\<rparr>], DbgUpvalues = [],
      stringConstants = [''print'', []]\<rparr>"

definition sample_proto :: FunctionProto where
  "sample_proto = FunctionProto sample_fields []"

lemma sample_instructions:
  "validateDecodedInstruction sample_fields [] 0 = Inr 0" "validateDecodedInstruction sample_fields [] 1 = Inr 0"
  "validateDecodedInstruction sample_fields [] 2 = Inr 0" "validateDecodedInstruction sample_fields [] 3 = Inr 0"
proof -
  have o: "op_at 6 = Some OP_GETGLOBAL" "op_at 2 = Some OP_LOADK" "op_at 31 = Some OP_CALL"
    "op_at 33 = Some OP_RETURN"
    by (simp_all add: op_code_at opCodeMax_def)
  show "validateDecodedInstruction sample_fields [] 0 = Inr 0" "validateDecodedInstruction sample_fields [] 1 = Inr 0"
    "validateDecodedInstruction sample_fields [] 2 = Inr 0" "validateDecodedInstruction sample_fields [] 3 = Inr 0"
    by (simp_all add: validateDecodedInstruction_def sample_fields_def o get_opCreateABC get_opCreateABx
        data_ops_def call_ops_def validate_data_op_def validate_call_op_def validateReg_def validateRegRange_def
        validateConst_def validateStringConst_def if_needed_def ensure_def Let_def)
qed

lemma sample_validated: "validateDecodedProto sample_proto = Inr ()"
proof -
  have l: "length (Code sample_fields) = 4" by (simp add: sample_fields_def)
  have "validate_code sample_fields [] 4 = Inr ()" by (subst validate_code.simps) (simp add: l)
  then have "validate_code sample_fields [] 3 = Inr ()"
    by (subst validate_code.simps) (simp add: l sample_instructions)
  then have "validate_code sample_fields [] 2 = Inr ()"
    by (subst validate_code.simps) (simp add: l sample_instructions numeral_3_eq_3)
  then have "validate_code sample_fields [] 1 = Inr ()"
    by (subst validate_code.simps) (simp add: l sample_instructions del: One_nat_def)
  then have "validate_code sample_fields [] 0 = Inr ()"
    by (subst validate_code.simps) (simp add: l sample_instructions del: One_nat_def)
  then show ?thesis by (simp add: sample_proto_def validate_node_def sample_fields_def validate_locals_def)
qed

lemma sample_encodable: "encodable sample_proto" "hydrateStringConstants sample_proto = sample_proto"
  by (simp_all add: encodable_def encodable_fields_def sample_proto_def sample_fields_def fits_i32_def)

lemma sample_encodes: "\<exists>blob. EncodeFunctionProto (Some sample_proto) = Inr blob \<and> length blob < 2 ^ 32"
  by (simp add: EncodeFunctionProto_def sample_proto_def sample_fields_def write_fields_head_def
      write_fields_debug_def write_list_def writeDbgCall_def writeString_def writeU32_def writeU16_def
      writeU8_def writeI32_def bytecodeMagic_def bytecodeVMID_def PackageName_def PackageVersion_def
      LuaVersion_def LUint256Bit_def opCodeMax_def itoa_def decimal.simps)

section \<open>Properties\<close>

text \<open>C12: encoding a prototype tree whose line numbers, positions and addresses the format can hold,
into a blob below 4 GiB, and decoding the blob gives the same tree back, with its string cache
filled in, exactly when that tree passes validation; otherwise decoding fails with the validation
error. Nothing is lost at any depth of nesting.\<close>

theorem bytecode_roundtrip:
  assumes "encodable p" and "EncodeFunctionProto (Some p) = Inr blob" and "length blob < 2 ^ 32"
  shows "DecodeFunctionProto blob =
    bindr (validateDecodedProto (hydrateStringConstants p)) (\<lambda>_. Inr (hydrateStringConstants p))"
  by (rule Decode_Encode [OF assms])

theorem bytecode_roundtrip_witness:
  "\<exists>blob. EncodeFunctionProto (Some sample_proto) = Inr blob \<and> DecodeFunctionProto blob = Inr sample_proto"
proof -
  from sample_encodes obtain blob where b: "EncodeFunctionProto (Some sample_proto) = Inr blob" "length blob < 2 ^ 32"
    by blast
  from bytecode_roundtrip [OF sample_encodable(1) b] b(1) show ?thesis
    by (auto simp: sample_encodable(2) sample_validated simp del: bindr_Inr_iff)
qed

text \<open>C28: a blob is accepted only if it starts with the magic bytes and ends with a payload and the
SHA-256 digest of exactly that payload, the payload is one prototype tree without trailing bytes,
and the result is that tree, hydrated, and passes validation.\<close>

theorem bytecode_accepted_form:
  assumes "DecodeFunctionProto blob = Inr p"
  shows "\<exists>header payload q. blob = header @ payload @ sha256_Sum256 payload \<and> IsBytecode header \<and>
    readProto payload = Inr (q, []) \<and> p = hydrateStringConstants q \<and> validateDecodedProto p = Inr ()"
proof -
  from Decode_form [OF assms] obtain header payload q where
    h: "blob = header @ payload @ sha256_Sum256 payload" "take 4 header = bytecodeMagic"
      "readProto payload = Inr (q, [])" "p = hydrateStringConstants q" "validateDecodedProto p = Inr ()"
    by blast
  have l: "length bytecodeMagic = 4" by (simp add: bytecodeMagic_def)
  with h(2) have "4 \<le> length header" by (metis length_take min.absorb_iff2 min.commute)
  moreover have "header ! i = bytecodeMagic ! i" if "i < 4" for i
    using that h(2) by (metis nth_take)
  ultimately have "IsBytecode header" by (auto simp: IsBytecode_def l)
  with h show ?thesis by blast
qed

theorem bytecode_accepted_form_witness:
  "\<exists>blob header payload q. blob = header @ payload @ sha256_Sum256 payload \<and> IsBytecode header \<and>
    readProto payload = Inr (q, []) \<and> sample_proto = hydrateStringConstants q \<and>
    validateDecodedProto sample_proto = Inr ()"
proof -
  from sample_encodes obtain blob where b: "EncodeFunctionProto (Some sample_proto) = Inr blob" "length blob < 2 ^ 32"
    by blast
  have "DecodeFunctionProto blob = Inr sample_proto"
    using Decode_Encode [OF sample_encodable(1) b]
    by (simp add: sample_encodable(2) sample_validated del: bindr_Inr_iff)
  from bytecode_accepted_form [OF this] show ?thesis by blast
qed

end
