(* ===== verification/IRCode.thy ===== *)
theory IRCode
  imports Protos
begin

text \<open>
  The intermediate representation (\<^verbatim>\<open>ir.go\<close>): prototypes with decoded instructions, the
  translation of a prototype to it and back. Main result: translating a prototype to the
  representation and back is the identity on everything but the string cache, for every code
  word; the only failures are opcode numbers beyond the table and nil nested prototypes.
\<close>

text \<open>The \<^verbatim>\<open>Type\<close> of a raw data word, \<^verbatim>\<open>opType(-1)\<close>, is \<open>None\<close>.\<close>

record IRInstruction =
  ir_Op :: int
  ir_Type :: "opType option"
  ir_A :: int
  ir_B :: int
  ir_C :: int
  ir_Bx :: int
  ir_Sbx :: int
  ir_Raw :: u32

record ir_fields =
  ir_SourceName :: string
  ir_LineDefined :: int
  ir_LastLineDefined :: int
  ir_NumUpvalues :: u8
  ir_NumParameters :: u8
  ir_IsVarArg :: u8
  ir_NumUsedRegs :: u8
  ir_Instructions :: "IRInstruction list"
  ir_Constants :: "LValue list"
  ir_DbgSourcePositions :: "int list"
  ir_DbgLocals :: "DbgLocalInfo option list"
  ir_DbgCalls :: "DbgCall list"
  ir_DbgUpvalues :: "string list"

datatype IRFunction = IRFunction (ir_info: ir_fields) (ir_Functions: "IRFunction option list")

record IRProgram =
  irp_Name :: string
  irp_Root :: "IRFunction option"

section \<open>From prototypes\<close>

definition ir_instruction :: "opcode \<Rightarrow> u32 \<Rightarrow> IRInstruction" where
  "ir_instruction p inst =
     (let ins = \<lparr>ir_Op = opGetOpCode inst, ir_Type = Some (prop_Type (opProps ! nat (op_code p))),
                 ir_A = opGetArgA inst, ir_B = 0, ir_C = 0, ir_Bx = 0, ir_Sbx = 0, ir_Raw = 0\<rparr>
      in case prop_Type (opProps ! nat (op_code p)) of
           opTypeABC \<Rightarrow> ins\<lparr>ir_B := opGetArgB inst, ir_C := opGetArgC inst\<rparr>
         | opTypeABx \<Rightarrow> ins\<lparr>ir_Bx := opGetArgBx inst\<rparr>
         | opTypeASbx \<Rightarrow> ins\<lparr>ir_Sbx := opGetArgSbx inst\<rparr>)"

definition ir_raw :: "u32 \<Rightarrow> IRInstruction" where
  "ir_raw w =
     \<lparr>ir_Op = -1, ir_Type = None, ir_A = -1, ir_B = -1, ir_C = -1, ir_Bx = -1, ir_Sbx = 0, ir_Raw = w\<rparr>"

text \<open>An opcode beyond the properties table is an index panic of the code.\<close>

fun ir_code :: "u32 list \<Rightarrow> go_panic + IRInstruction list" where
  "ir_code [] = Inr []"
| "ir_code (inst # rest) =
     (case op_at (opGetOpCode inst) of
        None \<Rightarrow> Inl PIndexOutOfRange
      | Some p \<Rightarrow>
          let ins = ir_instruction p inst
          in if p = OP_SETLIST \<and> ir_C ins = 0 \<and> rest \<noteq> []
             then bindr (ir_code (tl rest)) (\<lambda>is. Inr (ins # ir_raw (hd rest) # is))
             else bindr (ir_code rest) (\<lambda>is. Inr (ins # is)))"

definition ir_fields_of :: "proto_fields \<Rightarrow> IRInstruction list \<Rightarrow> ir_fields" where
  "ir_fields_of p is =
     \<lparr>ir_SourceName = SourceName p, ir_LineDefined = LineDefined p, ir_LastLineDefined = LastLineDefined p,
      ir_NumUpvalues = NumUpvalues p, ir_NumParameters = NumParameters p, ir_IsVarArg = IsVarArg p,
      ir_NumUsedRegs = NumUsedRegisters p, ir_Instructions = is, ir_Constants = Constants p,
      ir_DbgSourcePositions = DbgSourcePositions p, ir_DbgLocals = DbgLocals p, ir_DbgCalls = DbgCalls p,
      ir_DbgUpvalues = DbgUpvalues p\<rparr>"

fun irFromProto :: "FunctionProto \<Rightarrow> go_panic + IRFunction"
  and irFromProtos :: "FunctionProto option list \<Rightarrow> go_panic + IRFunction option list" where
  "irFromProto (FunctionProto p kids) =
     bindr (ir_code (Code p)) (\<lambda>is.
     bindr (irFromProtos kids) (\<lambda>fs. Inr (IRFunction (ir_fields_of p is) fs)))"
| "irFromProtos [] = Inr []"
| "irFromProtos (None # kids) = Inl PNilPointer"
| "irFromProtos (Some child # kids) =
     bindr (irFromProto child) (\<lambda>f. bindr (irFromProtos kids) (\<lambda>fs. Inr (Some f # fs)))"

definition BuildIRFromProto :: "FunctionProto option \<Rightarrow> string \<Rightarrow> go_panic + IRProgram" where
  "BuildIRFromProto proto name =
     (case proto of
        None \<Rightarrow> Inr \<lparr>irp_Name = name, irp_Root = None\<rparr>
      | Some p \<Rightarrow>
          let name = (if name = [] then SourceName (proto_info p) else name)
          in bindr (irFromProto p) (\<lambda>root. Inr \<lparr>irp_Name = name, irp_Root = Some root\<rparr>))"

section \<open>To prototypes\<close>

definition code_of_ir :: "IRInstruction \<Rightarrow> u32 list" where
  "code_of_ir ins =
     (if ir_Op ins < 0 then [ir_Raw ins]
      else case ir_Type ins of
             Some opTypeABC \<Rightarrow> [opCreateABC (ir_Op ins) (ir_A ins) (ir_B ins) (ir_C ins)]
           | Some opTypeABx \<Rightarrow> [opCreateABx (ir_Op ins) (ir_A ins) (ir_Bx ins)]
           | Some opTypeASbx \<Rightarrow> [opCreateASbx (ir_Op ins) (ir_A ins) (ir_Sbx ins)]
           | None \<Rightarrow> [])"

definition proto_fields_of :: "ir_fields \<Rightarrow> proto_fields" where
  "proto_fields_of f =
     \<lparr>SourceName = ir_SourceName f, LineDefined = ir_LineDefined f, LastLineDefined = ir_LastLineDefined f,
      NumUpvalues = ir_NumUpvalues f, NumParameters = ir_NumParameters f, IsVarArg = ir_IsVarArg f,
      NumUsedRegisters = ir_NumUsedRegs f, Code = concat (map code_of_ir (ir_Instructions f)),
      Constants = ir_Constants f, DbgSourcePositions = ir_DbgSourcePositions f, DbgLocals = ir_DbgLocals f,
      DbgCalls = ir_DbgCalls f, DbgUpvalues = ir_DbgUpvalues f, stringConstants = []\<rparr>"

fun protoFromIR :: "IRFunction \<Rightarrow> go_panic + FunctionProto"
  and protosFromIR :: "IRFunction option list \<Rightarrow> go_panic + FunctionProto option list" where
  "protoFromIR (IRFunction f kids) =
     bindr (protosFromIR kids) (\<lambda>ps. Inr (FunctionProto (proto_fields_of f) ps))"
| "protosFromIR [] = Inr []"
| "protosFromIR (None # kids) = Inl PNilPointer"
| "protosFromIR (Some child # kids) =
     bindr (protoFromIR child) (\<lambda>p. bindr (protosFromIR kids) (\<lambda>ps. Inr (Some p # ps)))"

fun set_source :: "string \<Rightarrow> FunctionProto \<Rightarrow> FunctionProto" where
  "set_source s (FunctionProto f kids) = FunctionProto (f\<lparr>SourceName := s\<rparr>) kids"

definition CompileIR :: "IRProgram option \<Rightarrow> go_error + FunctionProto" where
  "CompileIR program =
     (case program of
        None \<Rightarrow> Inl (Errorf ''nil IR program'' [])
      | Some pr \<Rightarrow>
          (case irp_Root pr of
             None \<Rightarrow> Inl (Errorf ''nil IR program'' [])
           | Some root \<Rightarrow>
               (case protoFromIR root of
                  Inl e \<Rightarrow> Inl (Panicked e)
                | Inr proto \<Rightarrow>
                    let proto = (if irp_Name pr \<noteq> [] then set_source (irp_Name pr) proto else proto)
                    in Inr (hydrateStringConstants proto))))"

section \<open>Round trip\<close>

text \<open>The table's operand format of an opcode, by its number.\<close>

lemma op_code_range: "0 \<le> op_code p" "op_code p \<le> opCodeMax"
  by (cases p; simp add: opCodeMax_def)+

lemma code_of_ir_instruction:
  assumes "op_at (opGetOpCode w) = Some p" shows "code_of_ir (ir_instruction p w) = [w]"
proof -
  have "opGetOpCode w = op_code p" "0 \<le> opGetOpCode w" using assms by (auto simp: op_code_at)
  then show ?thesis
    using opCreateABC_get [of w] opCreateABx_get [of w] opCreateASbx_get [of w]
    by (cases "prop_Type (opProps ! nat (op_code p))")
      (simp_all add: ir_instruction_def code_of_ir_def Let_def)
qed

lemma code_of_ir_raw: "code_of_ir (ir_raw w) = [w]"
  by (simp add: code_of_ir_def ir_raw_def)

lemma code_of_ir_code: "ir_code ws = Inr is \<Longrightarrow> concat (map code_of_ir is) = ws"
proof (induction ws arbitrary: "is" rule: ir_code.induct)
  case (2 inst rest)
  then show ?case
    by (auto simp: Let_def code_of_ir_instruction code_of_ir_raw split: option.splits if_splits)
qed simp

lemma proto_fields_of_ir:
  "ir_code (Code p) = Inr is \<Longrightarrow> proto_fields_of (ir_fields_of p is) = p\<lparr>stringConstants := []\<rparr>"
  by (simp add: proto_fields_of_def ir_fields_of_def code_of_ir_code)

lemma protoFromIR_irFromProto:
  "irFromProto p = Inr f \<Longrightarrow> protoFromIR f = Inr (forget_cache p)"
  and protosFromIR_irFromProtos:
  "irFromProtos ks = Inr fs \<Longrightarrow> protosFromIR fs = Inr (map (map_option forget_cache) ks)"
proof (induction p and ks arbitrary: f and fs rule: irFromProto_irFromProtos.induct)
  case (1 p kids)
  then show ?case by (auto simp: proto_fields_of_ir)
next
  case (4 child kids)
  then show ?case by (auto simp del: protoFromIR.simps)
qed auto

text \<open>Which prototypes the translation accepts.\<close>

lemma ir_code_skips: "ir_code ws = Inr is \<Longrightarrow> ws \<noteq> [] \<Longrightarrow> \<exists>p. op_at (opGetOpCode (hd ws)) = Some p"
  by (cases ws) (auto split: option.splits)

lemma ir_code_total:
  "(\<And>w. w \<in> set ws \<Longrightarrow> op_at (opGetOpCode w) \<noteq> None) \<Longrightarrow> \<exists>is. ir_code ws = Inr is"
proof (induction ws rule: ir_code.induct)
  case (2 inst rest)
  obtain p where p: "op_at (opGetOpCode inst) = Some p" using 2(3) [of inst] by auto
  have "\<exists>is. ir_code rest = Inr is" if "\<not> (p = OP_SETLIST \<and> ir_C (ir_instruction p inst) = 0 \<and> rest \<noteq> [])"
    using 2(2) [OF p refl that] 2(3) by auto
  moreover have "\<exists>is. ir_code (tl rest) = Inr is"
    if "p = OP_SETLIST \<and> ir_C (ir_instruction p inst) = 0 \<and> rest \<noteq> []"
  proof (rule 2(1) [OF p refl that])
    fix w
    assume "w \<in> set (tl rest)"
    then have "w \<in> set (inst # rest)" by (cases rest) auto
    then show "op_at (opGetOpCode w) \<noteq> None" by (rule 2(3))
  qed
  ultimately show ?case using p by (auto simp: Let_def)
qed simp

lemma set_source_forget: "set_source n (forget_cache p) = forget_cache (set_source n p)"
  by (cases p) simp

section \<open>Properties\<close>

text \<open>Translating a prototype tree to the intermediate representation and compiling the result
gives the same tree back, hydrated and named after the program; in particular every code word,
including the data words behind a \<open>SETLIST\<close>, is restored bit for bit.\<close>

theorem ir_roundtrip:
  assumes "BuildIRFromProto (Some p) name = Inr program"
  shows "CompileIR (Some program) =
    Inr (hydrateStringConstants (if name = [] then p else set_source name p))"
proof -
  from assms obtain root where r: "irFromProto p = Inr root"
    and pr: "program = \<lparr>irp_Name = (if name = [] then SourceName (proto_info p) else name), irp_Root = Some root\<rparr>"
    by (auto simp: BuildIRFromProto_def Let_def)
  note inv = protoFromIR_irFromProto [OF r]
  obtain f kids where p: "p = FunctionProto f kids" by (cases p)
  have named: "hydrateStringConstants (set_source n (forget_cache p)) = hydrateStringConstants (set_source n p)" for n
    by (metis hydrate_forget set_source_forget)
  have self: "set_source (SourceName (proto_info p)) p = p" by (simp add: p)
  show ?thesis
  proof (cases "name = []")
    case True
    then show ?thesis
      using named [of "SourceName (proto_info p)"] self
      by (simp add: CompileIR_def pr inv Let_def)
  next
    case False
    then show ?thesis using named [of name] by (simp add: CompileIR_def pr inv Let_def)
  qed
qed

theorem ir_roundtrip_witness:
  "\<exists>program. BuildIRFromProto (Some (FunctionProto
       \<lparr>SourceName = ''m'', LineDefined = 0, LastLineDefined = 0, NumUpvalues = 0, NumParameters = 0,
        IsVarArg = 0, NumUsedRegisters = 2, Code = [opCreateABC (op_code OP_RETURN) 0 1 0], Constants = [],
        DbgSourcePositions = [], DbgLocals = [], DbgCalls = [], DbgUpvalues = [], stringConstants = []\<rparr> []))
       [] = Inr program \<and>
     (\<exists>q. CompileIR (Some program) = Inr q \<and> Code (proto_info q) = [opCreateABC (op_code OP_RETURN) 0 1 0])"
  (is "\<exists>program. BuildIRFromProto (Some (FunctionProto ?f [])) [] = Inr program \<and> _")
proof -
  have "op_at 33 = Some OP_RETURN" by (simp add: op_code_at opCodeMax_def)
  then obtain program where b: "BuildIRFromProto (Some (FunctionProto ?f [])) [] = Inr program"
    by (simp add: BuildIRFromProto_def get_opCreateABC)
  from ir_roundtrip [OF b] b show ?thesis by auto
qed

end
