(* ===== verification/Tables.thy ===== *)
theory Tables
  imports Values
begin

text \<open>
  Tables (\<^verbatim>\<open>table.go\<close>): an array part for the keys 1 to \<open>n\<close>, a hash part split into string
  keys and other keys, the insertion order of the hash keys with its index map, and the marks of
  an iteration in progress. A nil slice or map of the code is the empty one here: no operation
  tells them apart (\<^verbatim>\<open>keys\<close> and \<^verbatim>\<open>k2i\<close> become nil together, when no key is left). Go maps
  are functions, the mark set is a set. Operations take the table and return it updated, with
  the number of slots touched where the code counts them for gas.
\<close>

record ltable =
  Metatable :: LValue
  tarray :: "LValue list"
  dict :: "LValue \<Rightarrow> LValue option"
  strdict :: "string \<Rightarrow> LValue option"
  tkeys :: "LValue list"
  k2i :: "LValue \<Rightarrow> nat option"
  nextIterated :: "LValue set"

definition MaxArrayIndex :: int where "MaxArrayIndex = 67108864"
definition MaxArrayHoleGrowth :: int where "MaxArrayHoleGrowth = 64"

text \<open>The capacities only pre-allocate.\<close>

definition newLTable :: "int \<Rightarrow> int \<Rightarrow> ltable" where
  "newLTable acap hcap =
     \<lparr>Metatable = LNil, tarray = [], dict = (\<lambda>_. None), strdict = (\<lambda>_. None), tkeys = [],
      k2i = (\<lambda>_. None), nextIterated = {}\<rparr>"

definition numericKeyValue :: "int \<Rightarrow> LValue" where
  "numericKeyValue index = LNum (lu256FromInt index)"

definition isArrayKey :: "LUint256 \<Rightarrow> bool" where
  "isArrayKey v = (let (idx, ok) = lu256ToInt v in ok \<and> idx > 0 \<and> idx < MaxArrayIndex)"

section \<open>The hash part\<close>

definition opt_value :: "LValue option \<Rightarrow> LValue" where
  "opt_value v = (case v of None \<Rightarrow> LNil | Some x \<Rightarrow> x)"

fun RawGetH :: "ltable \<Rightarrow> LValue \<Rightarrow> LValue" where
  "RawGetH tb (LString s) = opt_value (strdict tb s)"
| "RawGetH tb key = opt_value (dict tb key)"

definition RawGetString :: "ltable \<Rightarrow> string \<Rightarrow> LValue" where
  "RawGetString tb key = opt_value (strdict tb key)"

definition shouldKeepStaleNextKey :: "ltable \<Rightarrow> LValue \<Rightarrow> bool" where
  "shouldKeepStaleNextKey tb key \<longleftrightarrow> key \<in> nextIterated tb"

definition removeHashKeyMetadata :: "ltable \<Rightarrow> LValue \<Rightarrow> ltable" where
  "removeHashKeyMetadata tb key =
     (case k2i tb key of
        None \<Rightarrow> tb
      | Some idx \<Rightarrow>
          let ks = take idx (tkeys tb) @ drop (idx + 1) (tkeys tb);
              m = fold (\<lambda>i m. m(ks ! i \<mapsto> i)) [idx..<length ks] ((k2i tb)(key := None))
          in tb\<lparr>tkeys := ks, k2i := (if ks = [] then \<lambda>_. None else m),
                nextIterated := nextIterated tb - {key}\<rparr>)"

text \<open>A key that is new gets the next position in the insertion order.\<close>

definition add_key :: "ltable \<Rightarrow> LValue \<Rightarrow> ltable" where
  "add_key tb key =
     (case k2i tb key of
        Some _ \<Rightarrow> tb
      | None \<Rightarrow> tb\<lparr>k2i := (k2i tb)(key \<mapsto> length (tkeys tb)), tkeys := tkeys tb @ [key]\<rparr>)"

definition drop_key :: "ltable \<Rightarrow> LValue \<Rightarrow> ltable" where
  "drop_key tb key = (if \<not> shouldKeepStaleNextKey tb key then removeHashKeyMetadata tb key else tb)"

definition RawSetString :: "ltable \<Rightarrow> string \<Rightarrow> LValue \<Rightarrow> ltable" where
  "RawSetString tb key value =
     (if value = LNil then drop_key (tb\<lparr>strdict := (strdict tb)(key := None)\<rparr>) (LString key)
      else add_key (tb\<lparr>strdict := (strdict tb)(key \<mapsto> value)\<rparr>) (LString key))"

definition RawSetH :: "ltable \<Rightarrow> LValue \<Rightarrow> LValue \<Rightarrow> ltable" where
  "RawSetH tb key value =
     (case key of
        LString s \<Rightarrow> RawSetString tb s value
      | _ \<Rightarrow>
          if value = LNil then drop_key (tb\<lparr>dict := (dict tb)(key := None)\<rparr>) key
          else add_key (tb\<lparr>dict := (dict tb)(key \<mapsto> value)\<rparr>) key)"

section \<open>The array part\<close>

definition removeNumericHashKey :: "ltable \<Rightarrow> int \<Rightarrow> ltable" where
  "removeNumericHashKey tb index = RawSetH tb (numericKeyValue index) LNil"

definition shouldStoreArrayIndex :: "ltable \<Rightarrow> int \<Rightarrow> bool" where
  "shouldStoreArrayIndex tb index =
     (if index < 1 \<or> index \<ge> MaxArrayIndex then False
      else let alen = int (length (tarray tb))
           in if index \<le> alen then True else index \<le> alen + 1 + MaxArrayHoleGrowth)"

definition migrate_step :: "nat \<Rightarrow> ltable \<Rightarrow> ltable" where
  "migrate_step index tb =
     (if index = 0 \<or> length (tarray tb) < index then tb
      else let key = numericKeyValue (int index); v = RawGetH tb key
           in if v \<noteq> LNil then RawSetH (tb\<lparr>tarray := (tarray tb)[index - 1 := v]\<rparr>) key LNil else tb)"

definition migrateNumericHashRangeToArray :: "ltable \<Rightarrow> nat \<Rightarrow> nat \<Rightarrow> ltable" where
  "migrateNumericHashRangeToArray tb start stop = fold migrate_step [start..<stop + 1] tb"

definition setArrayValueAt :: "ltable \<Rightarrow> int \<Rightarrow> LValue \<Rightarrow> ltable" where
  "setArrayValueAt tb index value =
     (if index < 1 \<or> index \<ge> MaxArrayIndex then RawSetH tb (numericKeyValue index) value
      else
        let alen = length (tarray tb); idx = nat index
        in if value = LNil \<and> idx > alen then RawSetH tb (numericKeyValue index) LNil
           else
             let tb = (if idx > alen
                       then migrateNumericHashRangeToArray
                              (tb\<lparr>tarray := tarray tb @ replicate (idx - alen) LNil\<rparr>) (alen + 1) idx
                       else tb);
                 tb = tb\<lparr>tarray := (tarray tb)[idx - 1 := value]\<rparr>
             in removeNumericHashKey tb index)"

text \<open>From the end: the position of the last element that is not nil, and the slots looked at.\<close>

fun last_nonempty :: "LValue list \<Rightarrow> nat \<Rightarrow> nat \<Rightarrow> nat \<times> nat" where
  "last_nonempty arr 0 cost = (0, cost)"
| "last_nonempty arr (Suc i) cost =
     (if arr ! i \<noteq> LNil then (i + 1, cost + 1) else last_nonempty arr i (cost + 1))"

fun len_scan :: "LValue list \<Rightarrow> nat \<Rightarrow> LValue \<Rightarrow> nat \<Rightarrow> nat \<times> nat" where
  "len_scan arr 0 prev cost = (0, cost)"
| "len_scan arr (Suc i) prev cost =
     (let v = arr ! i
      in if prev = LNil \<and> v \<noteq> LNil then (i + 1, cost + 1) else len_scan arr i v (cost + 1))"

definition LenWithCost :: "ltable \<Rightarrow> nat \<times> nat" where
  "LenWithCost tb = len_scan (tarray tb) (length (tarray tb)) LNil 0"

definition Len :: "ltable \<Rightarrow> nat" where
  "Len tb = fst (LenWithCost tb)"

definition MaxNWithCost :: "ltable \<Rightarrow> nat \<times> nat" where
  "MaxNWithCost tb = last_nonempty (tarray tb) (length (tarray tb)) 0"

definition MaxN :: "ltable \<Rightarrow> nat" where
  "MaxN tb = fst (MaxNWithCost tb)"

text \<open>\<^verbatim>\<open>i\<close> of the code is one less than the position found, so \<open>i + 1\<close> is that position.\<close>

definition Append :: "ltable \<Rightarrow> LValue \<Rightarrow> ltable" where
  "Append tb value =
     (if value = LNil then tb
      else
        let arr = tarray tb
        in if arr = [] \<or> arr ! (length arr - 1) \<noteq> LNil
           then setArrayValueAt tb (int (length arr) + 1) value
           else
             let i1 = fst (last_nonempty arr (length arr - 1) 0)
             in removeNumericHashKey (tb\<lparr>tarray := arr[i1 := value]\<rparr>) (int i1 + 1))"

section \<open>Keyed access\<close>

definition RawSet :: "ltable \<Rightarrow> LValue \<Rightarrow> LValue \<Rightarrow> ltable" where
  "RawSet tb key value =
     (case key of
        LNum v \<Rightarrow>
          if isArrayKey v
          then let (intv, ok) = lu256ToInt v
               in if \<not> ok then RawSetH tb key value
                  else if shouldStoreArrayIndex tb intv then setArrayValueAt tb intv value
                  else RawSetH tb key value
          else RawSetH tb key value
      | LString s \<Rightarrow> RawSetString tb s value
      | _ \<Rightarrow> RawSetH tb key value)"

definition RawSetInt :: "ltable \<Rightarrow> int \<Rightarrow> LValue \<Rightarrow> ltable" where
  "RawSetInt tb key value =
     (if \<not> shouldStoreArrayIndex tb key then RawSetH tb (LNum (lu256FromInt key)) value
      else setArrayValueAt tb key value)"

definition array_get :: "ltable \<Rightarrow> int \<Rightarrow> LValue" where
  "array_get tb index =
     (if index \<ge> 0 \<and> index < int (length (tarray tb)) then tarray tb ! nat index else LNil)"

definition RawGet :: "ltable \<Rightarrow> LValue \<Rightarrow> LValue" where
  "RawGet tb key =
     (case key of
        LNum v \<Rightarrow>
          if isArrayKey v
          then let (intv, ok) = lu256ToInt v
               in if \<not> ok then LNil
                  else let ret = array_get tb (intv - 1)
                       in if ret \<noteq> LNil then ret else RawGetH tb key
          else opt_value (dict tb key)
      | LString s \<Rightarrow> opt_value (strdict tb s)
      | _ \<Rightarrow> opt_value (dict tb key))"

definition RawGetInt :: "ltable \<Rightarrow> int \<Rightarrow> LValue" where
  "RawGetInt tb key =
     (let ret = array_get tb (key - 1)
      in if ret \<noteq> LNil then ret else RawGetH tb (LNum (lu256FromInt key)))"

text \<open>\<^verbatim>\<open>table.insert\<close> and \<^verbatim>\<open>table.remove\<close>.\<close>

definition InsertWithCost :: "ltable \<Rightarrow> int \<Rightarrow> LValue \<Rightarrow> ltable \<times> nat" where
  "InsertWithCost tb i value =
     (if i > int (length (tarray tb)) then (RawSetInt tb i value, 0)
      else if i \<le> 0 then (RawSet tb (LNum (lu256FromInt i)) value, 0)
      else
        let j = nat i - 1; oldLen = length (tarray tb);
            arr = take j (tarray tb) @ value # drop j (tarray tb)
        in (removeNumericHashKey (tb\<lparr>tarray := arr\<rparr>) (int j + 1), oldLen - j))"

definition Insert :: "ltable \<Rightarrow> int \<Rightarrow> LValue \<Rightarrow> ltable" where
  "Insert tb i value = fst (InsertWithCost tb i value)"

definition RemoveWithCost :: "ltable \<Rightarrow> int \<Rightarrow> LValue \<times> nat \<times> ltable" where
  "RemoveWithCost tb pos =
     (let arr = tarray tb; larray = length arr; i = pos - 1
      in if larray = 0 then (LNil, 0, tb)
         else if i \<ge> int larray then (LNil, 0, tb)
         else if i = int larray - 1 \<or> i < 0
         then (arr ! (larray - 1), 0, tb\<lparr>tarray := take (larray - 1) arr\<rparr>)
         else (arr ! nat i, larray - nat i - 1,
               tb\<lparr>tarray := take (nat i) arr @ drop (nat i + 1) arr\<rparr>))"

definition Remove :: "ltable \<Rightarrow> int \<Rightarrow> LValue \<times> ltable" where
  "Remove tb pos = (case RemoveWithCost tb pos of (v, _, tb) \<Rightarrow> (v, tb))"

section \<open>Traversal\<close>

text \<open>The pairs \<^verbatim>\<open>ForEach\<close> hands to a callback that leaves the table alone.\<close>

definition array_entries :: "ltable \<Rightarrow> nat \<Rightarrow> (LValue \<times> LValue) list" where
  "array_entries tb start =
     map (\<lambda>i. (numericKeyValue (int i + 1), tarray tb ! i))
       (filter (\<lambda>i. tarray tb ! i \<noteq> LNil) [start..<length (tarray tb)])"

definition hash_entries :: "ltable \<Rightarrow> LValue list \<Rightarrow> (LValue \<times> LValue) list" where
  "hash_entries tb ks = map (\<lambda>k. (k, RawGetH tb k)) (filter (\<lambda>k. RawGetH tb k \<noteq> LNil) ks)"

definition ForEach :: "ltable \<Rightarrow> (LValue \<times> LValue) list" where
  "ForEach tb = array_entries tb 0 @ hash_entries tb (tkeys tb)"

definition isValidNextKey :: "ltable \<Rightarrow> LValue \<Rightarrow> bool" where
  "isValidNextKey tb key =
     (if key = LNil then True
      else if (case key of
                 LNum kv \<Rightarrow> isArrayKey kv \<and> (let (index, ok) = lu256ToInt kv
                   in ok \<and> index \<ge> 1 \<and> index \<le> int (length (tarray tb)))
               | _ \<Rightarrow> False) then True
      else k2i tb key \<noteq> None)"

definition markNextHashKey :: "ltable \<Rightarrow> LValue \<Rightarrow> ltable" where
  "markNextHashKey tb key = tb\<lparr>nextIterated := insert key (nextIterated tb)\<rparr>"

definition compactNextIterationState :: "ltable \<Rightarrow> nat \<times> ltable" where
  "compactNextIterationState tb =
     (if nextIterated tb = {} then (0, tb)
      else if tkeys tb = [] then (0, tb\<lparr>k2i := (\<lambda>_. None), nextIterated := {}\<rparr>)
      else
        let newKeys = filter (\<lambda>key. RawGetH tb key \<noteq> LNil) (tkeys tb);
            newK2I = fold (\<lambda>i m. m(newKeys ! i \<mapsto> i)) [0..<length newKeys] (\<lambda>_. None)
        in (length (tkeys tb), tb\<lparr>tkeys := newKeys, k2i := newK2I, nextIterated := {}\<rparr>))"

text \<open>The first live key of a list of keys; it is marked.\<close>

fun scan_keys :: "ltable \<Rightarrow> LValue list \<Rightarrow> nat \<Rightarrow> LValue \<times> LValue \<times> nat \<times> ltable" where
  "scan_keys tb [] cost = (LNil, LNil, cost, tb)"
| "scan_keys tb (key # ks) cost =
     (let v = RawGetH tb key
      in if v \<noteq> LNil then (key, v, cost + 1, markNextHashKey tb key) else scan_keys tb ks (cost + 1))"

definition firstHashNext :: "ltable \<Rightarrow> LValue \<times> LValue \<times> nat \<times> ltable" where
  "firstHashNext tb = scan_keys tb (tkeys tb) 0"

text \<open>A key that is not in the index map counts as position 0, the zero value of a Go map.\<close>

definition nextHashAfter :: "ltable \<Rightarrow> LValue \<Rightarrow> LValue \<times> LValue \<times> nat \<times> ltable" where
  "nextHashAfter tb key =
     scan_keys tb (drop ((case k2i tb key of None \<Rightarrow> 0 | Some i \<Rightarrow> i) + 1) (tkeys tb)) 0"

fun scan_array :: "LValue list \<Rightarrow> nat \<Rightarrow> nat \<Rightarrow> (nat \<times> LValue) option \<times> nat" where
  "scan_array [] index cost = (None, cost)"
| "scan_array (v # vs) index cost =
     (if v \<noteq> LNil then (Some (index, v), cost + 1) else scan_array vs (index + 1) (cost + 1))"

definition nextAfterArrayIndex :: "ltable \<Rightarrow> nat \<Rightarrow> LValue \<times> LValue \<times> nat \<times> ltable" where
  "nextAfterArrayIndex tb index =
     (case scan_array (drop index (tarray tb)) index 0 of
        (Some (i, v), cost) \<Rightarrow> (numericKeyValue (int i + 1), v, cost, tb)
      | (None, cost) \<Rightarrow> (case firstHashNext tb of (key, value, hashCost, tb) \<Rightarrow> (key, value, cost + hashCost, tb)))"

definition finish_next :: "LValue \<times> LValue \<times> nat \<times> ltable \<Rightarrow> LValue \<times> LValue \<times> nat \<times> ltable" where
  "finish_next r =
     (case r of (nextKey, nextValue, cost, tb) \<Rightarrow>
        if nextKey = LNil
        then (case compactNextIterationState tb of (c, tb) \<Rightarrow> (LNil, LNil, cost + c, tb))
        else (nextKey, nextValue, cost, tb))"

definition NextWithCost :: "ltable \<Rightarrow> LValue \<Rightarrow> LValue \<times> LValue \<times> nat \<times> ltable" where
  "NextWithCost tb key =
     finish_next
       (if key = LNil then nextAfterArrayIndex tb 0
        else
          case key of
            LNum kv \<Rightarrow>
              (let (index, ok) = lu256ToInt kv
               in if isArrayKey kv \<and> ok \<and> index \<ge> 1 \<and> index \<le> int (length (tarray tb))
                  then nextAfterArrayIndex tb (nat index)
                  else nextHashAfter tb key)
          | _ \<Rightarrow> nextHashAfter tb key)"

definition Next :: "ltable \<Rightarrow> LValue \<Rightarrow> LValue \<times> LValue \<times> ltable" where
  "Next tb key = (case NextWithCost tb key of (k, v, _, tb) \<Rightarrow> (k, v, tb))"

section \<open>Reading after writing\<close>

lemma meta_fields [simp]:
  "dict (removeHashKeyMetadata tb k) = dict tb" "strdict (removeHashKeyMetadata tb k) = strdict tb"
  "tarray (removeHashKeyMetadata tb k) = tarray tb"
  "dict (add_key tb k) = dict tb" "strdict (add_key tb k) = strdict tb" "tarray (add_key tb k) = tarray tb"
  "dict (drop_key tb k) = dict tb" "strdict (drop_key tb k) = strdict tb" "tarray (drop_key tb k) = tarray tb"
  by (simp_all add: removeHashKeyMetadata_def add_key_def drop_key_def Let_def split: option.splits)

text \<open>The hash part depends on the two dictionaries only.\<close>

lemma RawGetH_cong: "dict tb = dict tb' \<Longrightarrow> strdict tb = strdict tb' \<Longrightarrow> RawGetH tb k = RawGetH tb' k"
  by (cases k) auto

lemma RawGetH_meta [simp]:
  "RawGetH (removeHashKeyMetadata tb k) k' = RawGetH tb k'" "RawGetH (add_key tb k) k' = RawGetH tb k'"
  "RawGetH (drop_key tb k) k' = RawGetH tb k'" "RawGetH (tb\<lparr>tarray := arr\<rparr>) k' = RawGetH tb k'"
  "RawGetH (markNextHashKey tb k) k' = RawGetH tb k'"
  by (rule RawGetH_cong; simp add: markNextHashKey_def)+

lemma RawGetH_RawSetString [simp]:
  "RawGetH (RawSetString tb s v) k = (if k = LString s then v else RawGetH tb k)"
  by (cases k) (auto simp: RawSetString_def opt_value_def)

lemma RawGetH_RawSetH [simp]: "RawGetH (RawSetH tb k v) k' = (if k' = k then v else RawGetH tb k')"
  by (cases k; cases k'; simp add: RawSetH_def RawSetString_def opt_value_def)

lemma tarray_RawSetH [simp]: "tarray (RawSetH tb k v) = tarray tb"
  by (cases k) (simp_all add: RawSetH_def RawSetString_def)

text \<open>The keys of the array part.\<close>

definition array_index :: "LValue \<Rightarrow> nat option" where
  "array_index k = (case k of LNum v \<Rightarrow> if isArrayKey v then Some (val v) else None | _ \<Rightarrow> None)"

lemma isArrayKey_val: "isArrayKey v \<longleftrightarrow> 0 < val v \<and> val v < 67108864"
  by (auto simp: isArrayKey_def lu256ToInt_val MaxArrayIndex_def)

lemma lu256FromInt_val: "val v < 2 ^ 63 \<Longrightarrow> lu256FromInt (int (val v)) = v"
  using val_lu256FromInt [of "int (val v)"] by (simp add: val_inject [symmetric])

lemma array_index_Some:
  "array_index k = Some i \<longleftrightarrow> 0 < i \<and> i < 67108864 \<and> k = numericKeyValue (int i)"
proof
  assume "array_index k = Some i"
  then obtain v where v: "k = LNum v" "isArrayKey v" "val v = i"
    by (auto simp: array_index_def split: LValue.splits if_splits)
  then have "lu256FromInt (int i) = v" using lu256FromInt_val [of v] by (simp add: isArrayKey_val)
  with v show "0 < i \<and> i < 67108864 \<and> k = numericKeyValue (int i)"
    by (simp add: isArrayKey_val numericKeyValue_def)
next
  assume r: "0 < i \<and> i < 67108864 \<and> k = numericKeyValue (int i)"
  then have "val (lu256FromInt (int i)) = i" using val_lu256FromInt [of "int i"] by simp
  with r show "array_index k = Some i"
    by (simp add: array_index_def numericKeyValue_def isArrayKey_val)
qed

lemma array_index_numeric: "0 < i \<Longrightarrow> i < 67108864 \<Longrightarrow> array_index (numericKeyValue (int i)) = Some i"
  by (simp add: array_index_Some)

lemma numericKeyValue_inj:
  "0 \<le> i \<Longrightarrow> i < 2 ^ 63 \<Longrightarrow> 0 \<le> j \<Longrightarrow> j < 2 ^ 63 \<Longrightarrow> numericKeyValue i = numericKeyValue j \<longleftrightarrow> i = j"
proof -
  assume r: "0 \<le> i" "i < 2 ^ 63" "0 \<le> j" "j < 2 ^ 63"
  have "(2 :: int) ^ 63 < 2 ^ 64" by simp
  then have "i < 2 ^ 64" "j < 2 ^ 64" using r(2,4) by linarith+
  then have v: "int (val (lu256FromInt i)) = i" "int (val (lu256FromInt j)) = j"
    using val_lu256FromInt [of i] val_lu256FromInt [of j] r(1,3) by (simp_all only: max.absorb1)
  show ?thesis
  proof
    assume "numericKeyValue i = numericKeyValue j"
    then have "lu256FromInt i = lu256FromInt j" by (simp only: numericKeyValue_def LValue.inject)
    then have "int (val (lu256FromInt i)) = int (val (lu256FromInt j))" by (rule arg_cong)
    then show "i = j" unfolding v .
  qed simp
qed

definition array_slot :: "ltable \<Rightarrow> nat \<Rightarrow> LValue" where
  "array_slot tb i = (if 0 < i \<and> i \<le> length (tarray tb) then tarray tb ! (i - 1) else LNil)"

lemma RawGet_alt:
  "RawGet tb k = (case array_index k of
     Some i \<Rightarrow> if array_slot tb i \<noteq> LNil then array_slot tb i else RawGetH tb k
   | None \<Rightarrow> RawGetH tb k)"
proof (cases k)
  case (LNum v)
  show ?thesis
  proof (cases "isArrayKey v")
    case True
    have r: "0 < val v" "val v < 67108864" using True by (auto simp: isArrayKey_val)
    then have "lu256ToInt v = (int (val v), True)" by (simp add: lu256ToInt_val)
    moreover have "array_get tb (int (val v) - 1) = array_slot tb (val v)"
      using r by (auto simp: array_get_def array_slot_def nat_diff_distrib)
    ultimately show ?thesis using True by (simp add: RawGet_def LNum array_index_def)
  next
    case False
    then show ?thesis by (simp add: RawGet_def LNum array_index_def)
  qed
qed (simp_all add: RawGet_def array_index_def)

text \<open>What the array part holds after one element is set, and after the growth before it.\<close>

lemma array_slot_update:
  "0 < i \<Longrightarrow> i \<le> length (tarray tb) \<Longrightarrow>
   array_slot (tb\<lparr>tarray := (tarray tb)[i - 1 := v]\<rparr>) j = (if j = i then v else array_slot tb j)"
  by (auto simp: array_slot_def nth_list_update)

lemma array_slot_RawSetH [simp]: "array_slot (RawSetH tb k v) i = array_slot tb i"
  by (simp add: array_slot_def)

lemma migrate_step_effect:
  assumes "0 < i" "i \<le> length (tarray tb)" "array_slot tb i = LNil"
  defines "v \<equiv> RawGetH tb (numericKeyValue (int i))"
  shows "length (tarray (migrate_step i tb)) = length (tarray tb)"
    and "array_slot (migrate_step i tb) j = (if j = i then v else array_slot tb j)"
    and "RawGetH (migrate_step i tb) k = (if k = numericKeyValue (int i) then LNil else RawGetH tb k)"
  using assms array_slot_update [of i tb v j] by (auto simp: migrate_step_def Let_def)

lemma migrate_effect:
  assumes "0 < a" "b \<le> Suc (length (tarray tb))" "b \<le> 67108864"
    and "\<And>j. a \<le> j \<Longrightarrow> j < b \<Longrightarrow> array_slot tb j = LNil"
  defines "tb' \<equiv> fold migrate_step [a..<b] tb"
  shows "length (tarray tb') = length (tarray tb)"
    and "array_slot tb' j = (if a \<le> j \<and> j < b then RawGetH tb (numericKeyValue (int j)) else array_slot tb j)"
    and "RawGetH tb' k = (if \<exists>j. a \<le> j \<and> j < b \<and> k = numericKeyValue (int j) then LNil else RawGetH tb k)"
  unfolding tb'_def using assms(2-4)
proof (induction b arbitrary: j k)
  case 0
  {
    case 1
    then show ?case by simp
  next
    case 2
    then show ?case by simp
  next
    case 3
    then show ?case by simp
  }
next
  case (Suc b)
  have IH: "length (tarray (fold migrate_step [a..<b] tb)) = length (tarray tb)"
    "array_slot (fold migrate_step [a..<b] tb) j =
      (if a \<le> j \<and> j < b then RawGetH tb (numericKeyValue (int j)) else array_slot tb j)"
    "RawGetH (fold migrate_step [a..<b] tb) k =
      (if \<exists>j. a \<le> j \<and> j < b \<and> k = numericKeyValue (int j) then LNil else RawGetH tb k)"
    if "Suc b \<le> Suc (length (tarray tb))" "Suc b \<le> 67108864"
      "\<And>j. a \<le> j \<Longrightarrow> j < Suc b \<Longrightarrow> array_slot tb j = LNil" for j k
    using Suc.IH that by auto
  {
    case 1
    note h = this
    show ?case
    proof (cases "a \<le> b")
      case True
      let ?m = "fold migrate_step [a..<b] tb"
      have "array_slot ?m b = LNil" using IH(2) [OF h, of b] h(3) [of b] True by simp
      then have "length (tarray (migrate_step b ?m)) = length (tarray ?m)"
        using IH(1) [OF h] True \<open>0 < a\<close> h(1) by (intro migrate_step_effect(1)) auto
      then show ?thesis using IH(1) [OF h] True by simp
    qed simp
  next
    case 2
    note h = this
    show ?case
    proof (cases "a \<le> b")
      case True
      let ?m = "fold migrate_step [a..<b] tb"
      have s: "array_slot ?m b = LNil" using IH(2) [OF h, of b] h(3) [of b] True by simp
      have "RawGetH ?m (numericKeyValue (int b)) = RawGetH tb (numericKeyValue (int b))"
        using IH(3) [OF h, of "numericKeyValue (int b)"] h(2) by (auto simp: numericKeyValue_inj)
      then have "array_slot (migrate_step b ?m) j =
          (if j = b then RawGetH tb (numericKeyValue (int b)) else array_slot ?m j)"
        using IH(1) [OF h] True \<open>0 < a\<close> h(1) s by (subst migrate_step_effect(2)) auto
      then show ?thesis using IH(2) [OF h, of j] True by (auto simp: less_Suc_eq)
    qed auto
  next
    case 3
    note h = this
    show ?case
    proof (cases "a \<le> b")
      case True
      let ?m = "fold migrate_step [a..<b] tb"
      have s: "array_slot ?m b = LNil" using IH(2) [OF h, of b] h(3) [of b] True by simp
      have "RawGetH (migrate_step b ?m) k = (if k = numericKeyValue (int b) then LNil else RawGetH ?m k)"
        using IH(1) [OF h] True \<open>0 < a\<close> h(1) s by (intro migrate_step_effect(3)) auto
      then show ?thesis using IH(3) [OF h, of k] True by (auto simp: less_Suc_eq)
    qed auto
  }
qed


lemma array_slot_grow: "array_slot (tb\<lparr>tarray := tarray tb @ replicate n LNil\<rparr>) j = array_slot tb j"
  by (auto simp: array_slot_def nth_append)

lemma setArrayValueAt_effect:
  fixes tb :: ltable and v :: LValue
  assumes i: "0 < i" "i < 67108864"
  defines "tb' \<equiv> setArrayValueAt tb (int i) v"
  shows "RawGet tb' k = (if k = numericKeyValue (int i) then v else RawGet tb k)"
proof -
  let ?key = "numericKeyValue (int i)"
  have ai: "array_index ?key = Some i" by (rule array_index_numeric [OF i])
  have ni: "\<not> (int i < 1 \<or> MaxArrayIndex \<le> int i)" using i by (simp add: MaxArrayIndex_def)
  consider (nil) "v = LNil" "length (tarray tb) < i" | (inside) "i \<le> length (tarray tb)"
    | (grow) "v \<noteq> LNil" "length (tarray tb) < i" by linarith
  then show ?thesis
  proof cases
    case nil
    then have "tb' = RawSetH tb ?key LNil" using ni by (simp add: tb'_def setArrayValueAt_def Let_def)
    moreover have "array_slot tb i = LNil" using nil by (simp add: array_slot_def)
    ultimately show ?thesis using nil(1) ai
      by (auto simp: RawGet_alt split: option.splits)
  next
    case inside
    let ?u = "tb\<lparr>tarray := (tarray tb)[i - 1 := v]\<rparr>"
    have tb': "tb' = RawSetH ?u ?key LNil"
      using inside ni by (simp add: tb'_def setArrayValueAt_def Let_def removeNumericHashKey_def)
    have s: "array_slot ?u j = (if j = i then v else array_slot tb j)" for j
      using i inside by (intro array_slot_update) auto
    show ?thesis
    proof (cases "array_index k")
      case None
      then have "k \<noteq> ?key" using ai by auto
      then show ?thesis unfolding tb' RawGet_alt None by simp
    next
      case (Some j)
      then have eq: "k = ?key \<longleftrightarrow> j = i" using ai by (auto simp: array_index_Some numericKeyValue_inj)
      show ?thesis
        unfolding tb' RawGet_alt Some option.case array_slot_RawSetH RawGetH_RawSetH s eq by simp
    qed
  next
    case grow
    let ?n = "length (tarray tb)"
    let ?g = "tb\<lparr>tarray := tarray tb @ replicate (i - ?n) LNil\<rparr>"
    let ?m = "fold migrate_step [?n + 1..<i + 1] ?g"
    have sl: "array_slot ?g j = LNil" if "?n + 1 \<le> j" "j < i + 1" for j
      using that unfolding array_slot_grow by (simp add: array_slot_def)
    have b: "i + 1 \<le> Suc (length (tarray ?g))" using grow by simp
    have i': "i + 1 \<le> 67108864" using i by simp
    note m = migrate_effect [of "?n + 1" "i + 1" ?g, OF _ b i' sl]
    let ?u = "?m\<lparr>tarray := (tarray ?m)[i - 1 := v]\<rparr>"
    have tb': "tb' = RawSetH ?u ?key LNil"
      using grow ni by (simp add: tb'_def setArrayValueAt_def Let_def removeNumericHashKey_def
          migrateNumericHashRangeToArray_def)
    have len: "length (tarray ?m) = i" using m(1) grow by simp
    have s: "array_slot ?u j = (if j = i then v
        else if ?n < j \<and> j \<le> i then RawGetH tb (numericKeyValue (int j)) else array_slot tb j)" for j
    proof -
      have "array_slot ?u j = (if j = i then v else array_slot ?m j)"
        by (rule array_slot_update) (use i len in auto)
      then show ?thesis using m(2) [of j] by (auto simp: array_slot_grow)
    qed
    have h: "RawGetH ?u k = (if \<exists>j. ?n + 1 \<le> j \<and> j < i + 1 \<and> k = numericKeyValue (int j)
        then LNil else RawGetH tb k)" for k
      by (simp only: RawGetH_meta m(3))
    show ?thesis
    proof (cases "array_index k")
      case None
      then have "\<not> (\<exists>j. ?n + 1 \<le> j \<and> j < i + 1 \<and> k = numericKeyValue (int j))"
        using array_index_numeric i by fastforce
      moreover have "k \<noteq> ?key" using None ai by auto
      ultimately show ?thesis unfolding tb' RawGet_alt None option.case RawGetH_RawSetH h by auto
    next
      case (Some j)
      then have k: "k = numericKeyValue (int j)" "0 < j" "j < 67108864" by (auto simp: array_index_Some)
      have out: "array_slot tb j = LNil" if "?n < j" using that by (simp add: array_slot_def)
      have eq: "k = ?key \<longleftrightarrow> j = i" using k i by (simp add: numericKeyValue_inj)
      have hk: "RawGetH ?u k = (if ?n < j \<and> j \<le> i then LNil else RawGetH tb k)"
      proof -
        have "(\<exists>j'. ?n + 1 \<le> j' \<and> j' < i + 1 \<and> k = numericKeyValue (int j')) \<longleftrightarrow> ?n < j \<and> j \<le> i"
          using k i by (auto simp: numericKeyValue_inj intro!: exI [of _ j])
        then show ?thesis unfolding h by simp
      qed
      show ?thesis
        unfolding tb' RawGet_alt Some option.case array_slot_RawSetH RawGetH_RawSetH s hk eq
        using out by (auto simp: k)
    qed
  qed
qed

lemma setArrayValueAt_int:
  "0 < x \<Longrightarrow> x < MaxArrayIndex \<Longrightarrow>
   RawGet (setArrayValueAt tb x v) k = (if k = numericKeyValue x then v else RawGet tb k)"
  using setArrayValueAt_effect [of "nat x" tb v k] by (simp add: MaxArrayIndex_def)

lemma RawGet_RawSetH:
  assumes "\<And>i. array_index k = Some i \<Longrightarrow> array_slot tb i = LNil"
  shows "RawGet (RawSetH tb k v) k' = (if k' = k then v else RawGet tb k')"
  using assms by (auto simp: RawGet_alt split: option.splits)

lemma RawGet_RawSet: "RawGet (RawSet tb k v) k' = (if k' = k then v else RawGet tb k')"
proof (cases "array_index k")
  case None
  then have "RawSet tb k v = RawSetH tb k v"
    by (auto simp: array_index_def RawSet_def RawSetH_def split: LValue.splits if_splits)
  then show ?thesis using None RawGet_RawSetH [of k tb v k'] by simp
next
  case (Some i)
  then have i: "0 < i" "i < 67108864" and k: "k = numericKeyValue (int i)" by (auto simp: array_index_Some)
  obtain w where w: "k = LNum w" "isArrayKey w" "val w = i"
    using Some by (auto simp: array_index_def split: LValue.splits if_splits)
  have "lu256ToInt w = (int i, True)" using i w(3) by (simp add: lu256ToInt_val)
  then have r: "RawSet tb k v =
      (if shouldStoreArrayIndex tb (int i) then setArrayValueAt tb (int i) v else RawSetH tb k v)"
    using w by (simp add: RawSet_def)
  show ?thesis
  proof (cases "shouldStoreArrayIndex tb (int i)")
    case True
    then show ?thesis using r setArrayValueAt_effect [OF i, of tb v k'] k by simp
  next
    case False
    then have "array_slot tb i = LNil"
      using i by (auto simp: shouldStoreArrayIndex_def array_slot_def Let_def MaxArrayIndex_def split: if_splits)
    then show ?thesis using r False RawGet_RawSetH [of k tb v k'] Some by simp
  qed
qed

lemma RawGet_newLTable [simp]: "RawGet (newLTable a h) k = LNil"
  by (cases k) (simp_all add: RawGet_alt newLTable_def array_slot_def opt_value_def split: option.splits)

lemma RawSetInt_RawSet:
  assumes "0 \<le> i" "i < 2 ^ 63" shows "RawSetInt tb i v = RawSet tb (numericKeyValue i) v"
proof -
  have v: "val (lu256FromInt i) = nat i" using assms val_lu256FromInt [of i] by simp
  then have "lu256ToInt (lu256FromInt i) = (i, True)" using assms by (simp add: lu256ToInt_val)
  moreover have "isArrayKey (lu256FromInt i) \<longleftrightarrow> 0 < i \<and> i < MaxArrayIndex"
    using assms by (auto simp: isArrayKey_val v MaxArrayIndex_def)
  ultimately show ?thesis
    by (auto simp: RawSetInt_def RawSet_def numericKeyValue_def shouldStoreArrayIndex_def)
qed

lemma RawGetInt_RawGet:
  assumes "0 \<le> i" "i < 67108864" shows "RawGetInt tb i = RawGet tb (numericKeyValue i)"
proof (cases "i = 0")
  case True
  have "array_index (numericKeyValue 0) = None"
    by (simp add: array_index_def numericKeyValue_def isArrayKey_val lu256FromInt_def val_LU256)
  then show ?thesis
    by (simp add: True RawGetInt_def RawGet_alt array_get_def) (simp add: numericKeyValue_def)
next
  case False
  then have a: "array_index (numericKeyValue i) = Some (nat i)"
    using assms array_index_numeric [of "nat i"] by simp
  have "array_get tb (i - 1) = array_slot tb (nat i)"
    using assms False by (auto simp: array_get_def array_slot_def nat_diff_distrib)
  then show ?thesis by (simp add: RawGetInt_def RawGet_alt a) (simp add: numericKeyValue_def)
qed

section \<open>The insertion order of the hash keys\<close>

text \<open>\<open>positions ks\<close> is the index map of a list of distinct keys.\<close>

definition positions :: "LValue list \<Rightarrow> LValue \<Rightarrow> nat option" where
  "positions ks = map_of (zip ks [0..<length ks])"

lemma positions_Some: "distinct ks \<Longrightarrow> positions ks k = Some i \<longleftrightarrow> i < length ks \<and> ks ! i = k"
  unfolding positions_def
  by (subst map_of_eq_Some_iff) (auto simp: in_set_zip)

lemma positions_None: "positions ks k = None \<longleftrightarrow> k \<notin> set ks"
  by (simp add: positions_def)

lemma positions_eqI:
  assumes "distinct ks" "\<And>i. i < length ks \<Longrightarrow> m (ks ! i) = Some i" "\<And>k. k \<notin> set ks \<Longrightarrow> m k = None"
  shows "m = positions ks"
proof
  fix k
  show "m k = positions ks k"
  proof (cases "k \<in> set ks")
    case True
    then obtain i where "i < length ks" "ks ! i = k" by (auto simp: in_set_conv_nth)
    then show ?thesis using assms(1,2) by (metis positions_Some)
  next
    case False
    then show ?thesis using assms(3) positions_None [of ks k] by metis
  qed
qed

lemma positions_Nil: "positions [] = (\<lambda>_. None)"
  by (simp add: positions_def)

text \<open>The loop that renumbers the keys from a position on.\<close>

lemma renumber:
  assumes "distinct ks" "a \<le> b" "b \<le> length ks"
  shows "fold (\<lambda>i m. m(ks ! i \<mapsto> i)) [a..<b] m k =
    (if \<exists>i. a \<le> i \<and> i < b \<and> ks ! i = k then positions ks k else m k)"
  using assms(2,3)
proof (induction b)
  case (Suc b)
  show ?case
  proof (cases "a \<le> b")
    case True
    have p: "positions ks (ks ! b) = Some b" using Suc.prems assms(1) by (simp add: positions_Some)
    show ?thesis using True Suc p by (auto simp: less_Suc_eq)
  qed (use Suc.prems in auto)
qed auto

lemma renumber_all:
  assumes "distinct ks" shows "fold (\<lambda>i m. m(ks ! i \<mapsto> i)) [0..<length ks] (\<lambda>_. None) = positions ks"
proof
  fix k
  show "fold (\<lambda>i m. m(ks ! i \<mapsto> i)) [0..<length ks] (\<lambda>_. None) k = positions ks k"
    using renumber [OF assms, of 0 "length ks" "\<lambda>_. None" k] positions_None [of ks k]
    by (auto simp: in_set_conv_nth)
qed

section \<open>The invariant of a table\<close>

text \<open>
  Every live hash key is in the insertion order, once, at the position the index map says; a
  key that is dead but still listed is marked by an iteration; nil is no key.
\<close>

definition table_inv :: "ltable \<Rightarrow> bool" where
  "table_inv tb \<longleftrightarrow>
     distinct (tkeys tb) \<and> k2i tb = positions (tkeys tb) \<and> nextIterated tb \<subseteq> set (tkeys tb) \<and>
     LNil \<notin> set (tkeys tb) \<and>
     (\<forall>k. k \<noteq> LNil \<longrightarrow> RawGetH tb k \<noteq> LNil \<longrightarrow> k \<in> set (tkeys tb)) \<and>
     (\<forall>k \<in> set (tkeys tb). RawGetH tb k = LNil \<longrightarrow> k \<in> nextIterated tb)"

lemma table_invD:
  assumes "table_inv tb"
  shows "distinct (tkeys tb)" "k2i tb = positions (tkeys tb)" "nextIterated tb \<subseteq> set (tkeys tb)"
    "LNil \<notin> set (tkeys tb)"
    "k \<noteq> LNil \<Longrightarrow> RawGetH tb k \<noteq> LNil \<Longrightarrow> k \<in> set (tkeys tb)"
    "k \<in> set (tkeys tb) \<Longrightarrow> RawGetH tb k = LNil \<Longrightarrow> k \<in> nextIterated tb"
  using assms by (auto simp: table_inv_def)

lemma table_inv_newLTable [simp]: "table_inv (newLTable a h)"
proof -
  have "RawGetH (newLTable a h) k = LNil" for k by (cases k) (simp_all add: newLTable_def opt_value_def)
  then show ?thesis by (simp add: table_inv_def) (simp add: newLTable_def positions_Nil)
qed

lemma table_inv_tarray [simp]: "table_inv (tb\<lparr>tarray := arr\<rparr>) = table_inv tb"
  by (simp add: table_inv_def)

text \<open>What the code does to the list when a key is dropped.\<close>

definition without :: "LValue \<Rightarrow> LValue list \<Rightarrow> LValue list" where
  "without k ks = filter (\<lambda>x. x \<noteq> k) ks"

lemma remove_nth_without:
  assumes "distinct ks" "i < length ks"
  shows "take i ks @ drop (i + 1) ks = without (ks ! i) ks"
proof -
  have s: "ks = take i ks @ ks ! i # drop (i + 1) ks" using assms(2) by (simp add: id_take_nth_drop)
  have "ks ! i \<notin> set (take i ks) \<union> set (drop (i + 1) ks)"
  proof -
    have "distinct (take i ks @ ks ! i # drop (i + 1) ks)" using assms(1) s by metis
    then show ?thesis by simp
  qed
  then have "filter (\<lambda>x. x \<noteq> ks ! i) (take i ks) = take i ks"
    "filter (\<lambda>x. x \<noteq> ks ! i) (drop (i + 1) ks) = drop (i + 1) ks"
    by (auto intro!: filter_True)
  then have "without (ks ! i) (take i ks @ ks ! i # drop (i + 1) ks) = take i ks @ drop (i + 1) ks"
    by (simp add: without_def)
  then show ?thesis using s by metis
qed

lemma removeHashKeyMetadata_fields:
  assumes "distinct (tkeys tb)" "k2i tb = positions (tkeys tb)" "nextIterated tb \<subseteq> set (tkeys tb)"
  shows "tkeys (removeHashKeyMetadata tb k) = without k (tkeys tb)"
    and "k2i (removeHashKeyMetadata tb k) = positions (without k (tkeys tb))"
    and "nextIterated (removeHashKeyMetadata tb k) = nextIterated tb - {k}"
proof -
  let ?ks = "tkeys tb" and ?r = "removeHashKeyMetadata tb k"
  have "tkeys ?r = without k ?ks \<and> k2i ?r = positions (without k ?ks) \<and> nextIterated ?r = nextIterated tb - {k}"
  proof (cases "positions ?ks k")
    case None
    then have "k \<notin> set ?ks" by (simp add: positions_None)
    then have "without k ?ks = ?ks" "nextIterated tb - {k} = nextIterated tb"
      using assms(3) by (auto simp: without_def intro!: filter_True)
    with None assms(2) show ?thesis by (simp add: removeHashKeyMetadata_def)
  next
    case (Some i)
    then have i: "i < length ?ks" "?ks ! i = k" using assms(1) by (auto simp: positions_Some)
    define ks where "ks = take i ?ks @ drop (i + 1) ?ks"
    have ks: "ks = without k ?ks" using remove_nth_without [OF assms(1) i(1)] i(2) by (simp add: ks_def)
    have d: "distinct ks" using assms(1) by (simp add: ks without_def)
    have len: "length ks = length ?ks - 1" using i(1) by (simp add: ks_def)
    have m: "fold (\<lambda>i m. m(ks ! i \<mapsto> i)) [i..<length ks] ((k2i tb)(k := None)) = positions ks"
    proof (rule positions_eqI [OF d])
      fix j
      assume j: "j < length ks"
      have il: "i \<le> length ks" using i(1) len by simp
      note r = renumber [OF d il order.refl, of "(k2i tb)(k := None)" "ks ! j"]
      have pj: "positions ks (ks ! j) = Some j" using j d by (simp add: positions_Some)
      show "fold (\<lambda>i m. m(ks ! i \<mapsto> i)) [i..<length ks] ((k2i tb)(k := None)) (ks ! j) = Some j"
      proof (cases "i \<le> j")
        case True
        then show ?thesis unfolding r pj using j by auto
      next
        case False
        then have e: "ks ! j = ?ks ! j" using i(1) by (simp add: ks_def nth_append)
        have "ks ! j \<in> set ks" using j by simp
        then have "ks ! j \<noteq> k" by (simp add: ks without_def)
        moreover have "positions ?ks (ks ! j) = Some j"
          using e False i(1) assms(1) by (simp add: positions_Some)
        moreover have "\<not> (\<exists>l\<ge>i. l < length ks \<and> ks ! l = ks ! j)"
          using False j d by (auto simp: nth_eq_iff_index_eq)
        ultimately show ?thesis unfolding r using assms(2) by auto
      qed
    next
      fix x
      assume x: "x \<notin> set ks"
      then have "x = k \<or> positions ?ks x = None" by (auto simp: ks without_def positions_None)
      moreover have il: "i \<le> length ks" using i(1) len by simp
      moreover have "\<not> (\<exists>l\<ge>i. l < length ks \<and> ks ! l = x)" using x by auto
      ultimately show "fold (\<lambda>i m. m(ks ! i \<mapsto> i)) [i..<length ks] ((k2i tb)(k := None)) x = None"
        unfolding renumber [OF d il order.refl] using assms(2) by auto
    qed
    have r: "?r = tb\<lparr>tkeys := ks, k2i := (if ks = [] then \<lambda>_. None
          else fold (\<lambda>i m. m(ks ! i \<mapsto> i)) [i..<length ks] ((k2i tb)(k := None))),
        nextIterated := nextIterated tb - {k}\<rparr>"
      unfolding removeHashKeyMetadata_def assms(2) Some option.case Let_def ks_def ..
    show ?thesis unfolding r m by (simp add: ks positions_Nil)
  qed
  then show "tkeys ?r = without k ?ks" "k2i ?r = positions (without k ?ks)"
    "nextIterated ?r = nextIterated tb - {k}" by auto
qed

lemma add_key_fields:
  assumes "distinct (tkeys tb)" "k2i tb = positions (tkeys tb)"
  shows "tkeys (add_key tb k) = (if k \<in> set (tkeys tb) then tkeys tb else tkeys tb @ [k])"
    and "k2i (add_key tb k) = positions (tkeys (add_key tb k))"
    and "nextIterated (add_key tb k) = nextIterated tb"
proof -
  let ?ks = "tkeys tb"
  have "k2i (add_key tb k) = positions (tkeys (add_key tb k))" if "k \<notin> set ?ks"
  proof -
    have n: "k2i tb k = None" using that assms(2) by (simp add: positions_None)
    have "(k2i tb)(k \<mapsto> length ?ks) = positions (?ks @ [k])"
    proof (rule positions_eqI)
      show "distinct (?ks @ [k])" using assms(1) that by simp
    next
      fix i
      assume "i < length (?ks @ [k])"
      then show "((k2i tb)(k \<mapsto> length ?ks)) ((?ks @ [k]) ! i) = Some i"
        using assms that by (auto simp: nth_append less_Suc_eq positions_Some)
    next
      fix x
      assume "x \<notin> set (?ks @ [k])"
      then show "((k2i tb)(k \<mapsto> length ?ks)) x = None" using assms(2) by (simp add: positions_None)
    qed
    then show ?thesis using n by (simp add: add_key_def)
  qed
  then show "k2i (add_key tb k) = positions (tkeys (add_key tb k))"
    using assms(2) by (cases "k \<in> set ?ks") (auto simp: add_key_def positions_None split: option.splits)
  show "tkeys (add_key tb k) = (if k \<in> set ?ks then ?ks else ?ks @ [k])"
    "nextIterated (add_key tb k) = nextIterated tb"
    using assms(2) positions_None [of ?ks k] by (auto simp: add_key_def split: option.splits)
qed


section \<open>Every operation keeps the invariant\<close>

lemma table_inv_drop_key:
  assumes inv: "distinct (tkeys tb)" "k2i tb = positions (tkeys tb)" "nextIterated tb \<subseteq> set (tkeys tb)"
      "LNil \<notin> set (tkeys tb)"
    and live: "\<And>x. x \<noteq> LNil \<Longrightarrow> RawGetH tb x \<noteq> LNil \<Longrightarrow> x \<in> set (tkeys tb)"
    and dead: "\<And>x. x \<in> set (tkeys tb) \<Longrightarrow> x \<noteq> k \<Longrightarrow> RawGetH tb x = LNil \<Longrightarrow> x \<in> nextIterated tb"
    and k: "RawGetH tb k = LNil"
  shows "table_inv (drop_key tb k)"
proof (cases "k \<in> nextIterated tb")
  case True
  then show ?thesis
    using assms by (auto simp: table_inv_def drop_key_def shouldKeepStaleNextKey_def)
next
  case False
  note f = removeHashKeyMetadata_fields [OF inv(1-3), of k]
  have "table_inv (removeHashKeyMetadata tb k)"
    unfolding table_inv_def f RawGetH_meta
    using inv(1,3,4) live dead k by (auto simp: without_def)
  with False show ?thesis by (simp add: drop_key_def shouldKeepStaleNextKey_def)
qed

lemma table_inv_add_key:
  assumes inv: "distinct (tkeys tb)" "k2i tb = positions (tkeys tb)" "nextIterated tb \<subseteq> set (tkeys tb)"
      "LNil \<notin> set (tkeys tb)"
    and live: "\<And>x. x \<noteq> LNil \<Longrightarrow> x \<noteq> k \<Longrightarrow> RawGetH tb x \<noteq> LNil \<Longrightarrow> x \<in> set (tkeys tb)"
    and dead: "\<And>x. x \<in> set (tkeys tb) \<Longrightarrow> RawGetH tb x = LNil \<Longrightarrow> x \<in> nextIterated tb"
    and k: "RawGetH tb k \<noteq> LNil" "k \<noteq> LNil"
  shows "table_inv (add_key tb k)"
proof -
  note f = add_key_fields [OF inv(1,2), of k]
  show ?thesis
    unfolding table_inv_def f(2,3) RawGetH_meta unfolding f(1)
    using inv live dead k by auto
qed

lemma dict_keeps [simp]:
  "tkeys (tb\<lparr>strdict := d\<rparr>) = tkeys tb" "tkeys (tb\<lparr>dict := d'\<rparr>) = tkeys tb"
  by simp_all

lemma RawGetH_dict_update:
  "RawGetH (tb\<lparr>strdict := (strdict tb)(s := v)\<rparr>) k = (if k = LString s then opt_value v else RawGetH tb k)"
  "(\<And>s. key \<noteq> LString s) \<Longrightarrow>
   RawGetH (tb\<lparr>dict := (dict tb)(key := v)\<rparr>) k = (if k = key then opt_value v else RawGetH tb k)"
  by (cases k; auto)+

lemma table_inv_RawSetString:
  assumes "table_inv tb" shows "table_inv (RawSetString tb s v)"
proof (cases "v = LNil")
  case True
  show ?thesis unfolding RawSetString_def True simp_thms if_True
    by (rule table_inv_drop_key) (use table_invD [OF assms] in \<open>auto simp: RawGetH_dict_update opt_value_def split: if_splits\<close>)
next
  case False
  show ?thesis unfolding RawSetString_def using False
    by simp (rule table_inv_add_key,
      use table_invD [OF assms] in \<open>auto simp: RawGetH_dict_update opt_value_def split: if_splits\<close>)
qed

lemma table_inv_RawSetH:
  assumes "table_inv tb" "k \<noteq> LNil" shows "table_inv (RawSetH tb k v)"
proof (cases "\<exists>s. k = LString s")
  case True
  then show ?thesis using table_inv_RawSetString [OF assms(1)] by (auto simp: RawSetH_def)
next
  case False
  then have k: "\<And>s. k \<noteq> LString s" by blast
  have u: "RawSetH tb k v = (if v = LNil then drop_key (tb\<lparr>dict := (dict tb)(k := None)\<rparr>) k
      else add_key (tb\<lparr>dict := (dict tb)(k \<mapsto> v)\<rparr>) k)"
    by (cases k) (use False in \<open>simp_all add: RawSetH_def\<close>)
  show ?thesis
  proof (cases "v = LNil")
    case True
    have "table_inv (drop_key (tb\<lparr>dict := (dict tb)(k := None)\<rparr>) k)"
      by (rule table_inv_drop_key)
        (use table_invD [OF assms(1)] in \<open>auto simp: RawGetH_dict_update(2) [OF k] opt_value_def split: if_splits\<close>)
    then show ?thesis unfolding u using True by simp
  next
    case False
    then have "table_inv (add_key (tb\<lparr>dict := (dict tb)(k \<mapsto> v)\<rparr>) k)"
      by (intro table_inv_add_key)
        (use table_invD [OF assms(1)] assms(2) in
          \<open>auto simp: RawGetH_dict_update(2) [OF k] opt_value_def split: if_splits\<close>)
    with False show ?thesis by (simp add: u)
  qed
qed

lemma numericKeyValue_not_nil [simp]: "numericKeyValue i \<noteq> LNil"
  by (simp add: numericKeyValue_def)

lemma table_inv_migrate:
  "table_inv tb \<Longrightarrow> table_inv (fold migrate_step is tb)"
proof (induction "is" arbitrary: tb)
  case (Cons i "is")
  have "table_inv (migrate_step i tb)"
    using Cons.prems by (simp add: migrate_step_def Let_def table_inv_RawSetH)
  then show ?case using Cons.IH by simp
qed simp

lemma table_inv_setArrayValueAt:
  assumes "table_inv tb" shows "table_inv (setArrayValueAt tb i v)"
  using assms
  by (simp add: setArrayValueAt_def removeNumericHashKey_def Let_def table_inv_RawSetH
      migrateNumericHashRangeToArray_def table_inv_migrate del: upt_Suc)

lemma table_inv_RawSet:
  assumes "table_inv tb" "k \<noteq> LNil" shows "table_inv (RawSet tb k v)"
  using assms
  by (auto simp: RawSet_def table_inv_RawSetH table_inv_RawSetString table_inv_setArrayValueAt
      split: LValue.splits prod.splits)

lemma table_inv_RawSetInt: "table_inv tb \<Longrightarrow> table_inv (RawSetInt tb i v)"
  by (simp add: RawSetInt_def table_inv_RawSetH table_inv_setArrayValueAt)

lemma table_inv_Append: "table_inv tb \<Longrightarrow> table_inv (Append tb v)"
  by (simp add: Append_def Let_def removeNumericHashKey_def table_inv_RawSetH table_inv_setArrayValueAt)

lemma table_inv_InsertWithCost: "table_inv tb \<Longrightarrow> table_inv (fst (InsertWithCost tb i v))"
  by (simp add: InsertWithCost_def Let_def removeNumericHashKey_def table_inv_RawSetH table_inv_RawSetInt
      table_inv_RawSet)

lemma table_inv_RemoveWithCost: "RemoveWithCost tb pos = (v, c, tb') \<Longrightarrow> table_inv tb \<Longrightarrow> table_inv tb'"
  by (auto simp: RemoveWithCost_def Let_def split: if_splits)

lemma table_inv_mark: "table_inv tb \<Longrightarrow> k \<in> set (tkeys tb) \<Longrightarrow> table_inv (markNextHashKey tb k)"
  unfolding table_inv_def RawGetH_meta by (auto simp: markNextHashKey_def)

lemma table_inv_compact:
  assumes "table_inv tb" shows "table_inv (snd (compactNextIterationState tb))"
proof -
  let ?live = "filter (\<lambda>key. RawGetH tb key \<noteq> LNil) (tkeys tb)"
  note i = table_invD [OF assms]
  have d: "distinct ?live" using i(1) by simp
  have g: "RawGetH (tb\<lparr>tkeys := a, k2i := b, nextIterated := c\<rparr>) k = RawGetH tb k"
    "RawGetH (tb\<lparr>k2i := b, nextIterated := c\<rparr>) k = RawGetH tb k" for a b c k
    by (rule RawGetH_cong; simp)+
  show ?thesis
  proof (cases "nextIterated tb = {} \<or> tkeys tb = []")
    case True
    then show ?thesis
      using assms unfolding compactNextIterationState_def table_inv_def
      by (auto simp: g positions_Nil)
  next
    case False
    then show ?thesis
      unfolding compactNextIterationState_def Let_def renumber_all [OF d]
      using i d by (auto simp: table_inv_def g)
  qed
qed

section \<open>Traversal\<close>

text \<open>No key of the array part is live in the hash part as well, and the array is within bounds.\<close>

definition no_shadow :: "ltable \<Rightarrow> bool" where
  "no_shadow tb \<longleftrightarrow> length (tarray tb) < 67108864 \<and>
     (\<forall>i. 0 < i \<longrightarrow> i \<le> length (tarray tb) \<longrightarrow> RawGetH tb (numericKeyValue (int i)) = LNil)"

lemma no_shadowD:
  assumes "no_shadow tb"
  shows "length (tarray tb) < 67108864"
    "0 < i \<Longrightarrow> i \<le> length (tarray tb) \<Longrightarrow> RawGetH tb (numericKeyValue (int i)) = LNil"
  using assms by (auto simp: no_shadow_def)

lemma no_shadow_newLTable [simp]: "no_shadow (newLTable a h)"
  by (simp add: no_shadow_def newLTable_def)

text \<open>A live hash key is no key of the array part.\<close>

lemma live_not_array:
  assumes "no_shadow tb" "RawGetH tb k \<noteq> LNil" "array_index k = Some i"
  shows "length (tarray tb) < i"
  using assms no_shadowD(2) [OF assms(1), of i] by (fastforce simp: array_index_Some)

lemma RawGet_live_hash:
  assumes "no_shadow tb" "RawGetH tb k \<noteq> LNil" shows "RawGet tb k = RawGetH tb k"
  using live_not_array [OF assms] by (auto simp: RawGet_alt array_slot_def split: option.splits)

lemma RawGet_array:
  assumes "no_shadow tb" "i < length (tarray tb)"
  shows "RawGet tb (numericKeyValue (int i + 1)) = tarray tb ! i"
proof -
  have "array_index (numericKeyValue (int (Suc i))) = Some (Suc i)"
    using no_shadowD(1) [OF assms(1)] assms(2) by (intro array_index_numeric) auto
  moreover have "RawGetH tb (numericKeyValue (int (Suc i))) = LNil"
    using assms by (intro no_shadowD(2)) auto
  ultimately show ?thesis
    using assms(2) by (simp add: RawGet_alt array_slot_def add.commute)
qed

text \<open>What \<^verbatim>\<open>ForEach\<close> yields: every key with its value, once.\<close>

lemma ForEach_sound:
  assumes "no_shadow tb" "(k, v) \<in> set (ForEach tb)" shows "v \<noteq> LNil \<and> RawGet tb k = v"
  using assms RawGet_array [OF assms(1)] RawGet_live_hash [OF assms(1)]
  by (auto simp: ForEach_def array_entries_def hash_entries_def)

lemma ForEach_complete:
  assumes "table_inv tb" "no_shadow tb" "k \<noteq> LNil" "RawGet tb k \<noteq> LNil"
  shows "(k, RawGet tb k) \<in> set (ForEach tb)"
proof (cases "RawGetH tb k = LNil")
  case True
  then obtain i where i: "array_index k = Some i" "array_slot tb i \<noteq> LNil" "RawGet tb k = array_slot tb i"
    using assms(4) by (auto simp: RawGet_alt split: option.splits if_splits)
  then have "0 < i" "i \<le> length (tarray tb)" "k = numericKeyValue (int i)"
    by (auto simp: array_slot_def array_index_Some split: if_splits)
  moreover from this have "i - 1 \<in> set (filter (\<lambda>l. tarray tb ! l \<noteq> LNil) [0..<length (tarray tb)])"
    using i(2) by (auto simp: array_slot_def)
  moreover have "numericKeyValue (int (i - 1) + 1) = k" using calculation by simp
  ultimately have "(k, tarray tb ! (i - 1)) \<in> set (array_entries tb 0)"
    unfolding array_entries_def set_map by (metis (mono_tags, lifting) image_eqI)
  moreover have "0 < i" "i \<le> length (tarray tb)" using i(2) by (auto simp: array_slot_def split: if_splits)
  ultimately show ?thesis using i(3) by (simp add: ForEach_def array_slot_def)
next
  case False
  then have "k \<in> set (tkeys tb)" using table_invD(5) [OF assms(1,3)] by simp
  then have "(k, RawGetH tb k) \<in> set (hash_entries tb (tkeys tb))" using False by (auto simp: hash_entries_def)
  with RawGet_live_hash [OF assms(2) False] show ?thesis by (simp add: ForEach_def)
qed

lemma ForEach_distinct:
  assumes "table_inv tb" "no_shadow tb" shows "distinct (map fst (ForEach tb))"
proof -
  let ?n = "length (tarray tb)"
  have n: "?n < 67108864" by (rule no_shadowD(1) [OF assms(2)])
  have inj: "inj_on (\<lambda>i. numericKeyValue (int i + 1)) (set [0..<?n])"
    using n by (auto intro!: inj_onI simp: numericKeyValue_inj)
  have "map fst (array_entries tb 0) = map (\<lambda>i. numericKeyValue (int i + 1)) (filter (\<lambda>i. tarray tb ! i \<noteq> LNil) [0..<?n])"
    by (simp add: array_entries_def comp_def)
  then have 1: "distinct (map fst (array_entries tb 0))"
    using inj by (auto simp: distinct_map intro: inj_on_subset)
  have 2: "distinct (map fst (hash_entries tb (tkeys tb)))"
    using table_invD(1) [OF assms(1)] by (simp add: hash_entries_def comp_def)
  have "fst ` set (array_entries tb 0) \<inter> fst ` set (hash_entries tb (tkeys tb)) = {}"
  proof -
    have "RawGetH tb (numericKeyValue (int i + 1)) = LNil" if "i < ?n" for i
      using no_shadowD(2) [OF assms(2), of "Suc i"] that by (simp add: add.commute)
    then show ?thesis by (auto simp: array_entries_def hash_entries_def)
  qed
  with 1 2 show ?thesis by (simp add: ForEach_def)
qed

text \<open>The scans of \<^verbatim>\<open>Next\<close>.\<close>

lemma hash_entries_simps [simp]:
  "hash_entries tb [] = []"
  "hash_entries tb (k # ks) =
     (if RawGetH tb k = LNil then hash_entries tb ks else (k, RawGetH tb k) # hash_entries tb ks)"
  by (simp_all add: hash_entries_def)

lemma scan_keys_entries:
  "case hash_entries tb ks of
     [] \<Rightarrow> \<exists>c'. scan_keys tb ks c = (LNil, LNil, c', tb)
   | (k, v) # es \<Rightarrow> \<exists>c'. scan_keys tb ks c = (k, v, c', markNextHashKey tb k)"
  by (induction ks arbitrary: c) (auto simp: Let_def split: list.splits)

lemma hash_entries_Cons:
  assumes "hash_entries tb ks = (k, v) # es"
  shows "\<exists>p. p < length ks \<and> ks ! p = k \<and> v = RawGetH tb k \<and> v \<noteq> LNil \<and> es = hash_entries tb (drop (p + 1) ks)"
  using assms
proof (induction ks)
  case (Cons a ks)
  show ?case
  proof (cases "RawGetH tb a = LNil")
    case True
    then obtain p where "p < length ks" "ks ! p = k" "v = RawGetH tb k" "v \<noteq> LNil"
      "es = hash_entries tb (drop (p + 1) ks)"
      using Cons by (auto simp: hash_entries_def)
    then show ?thesis by (intro exI [of _ "Suc p"]) auto
  next
    case False
    then show ?thesis using Cons.prems by (intro exI [of _ 0]) (auto simp: hash_entries_def)
  qed
qed (simp add: hash_entries_def)

lemma scan_array_None:
  "fst (scan_array vs i c) = None \<longleftrightarrow> (\<forall>v \<in> set vs. v = LNil)"
  by (induction vs arbitrary: i c) auto

lemma scan_array_Some:
  "fst (scan_array vs i c) = Some (j, v) \<Longrightarrow>
   i \<le> j \<and> j < i + length vs \<and> vs ! (j - i) = v \<and> v \<noteq> LNil \<and> (\<forall>l. i \<le> l \<longrightarrow> l < j \<longrightarrow> vs ! (l - i) = LNil)"
proof (induction vs arbitrary: i c)
  case (Cons a vs)
  show ?case
  proof (cases "a = LNil")
    case True
    then have "fst (scan_array vs (i + 1) (c + 1)) = Some (j, v)" using Cons.prems by simp
    from Cons.IH [OF this] True show ?thesis
      by (auto simp: nth_Cons' Suc_diff_Suc split: nat.splits)
  next
    case False
    then show ?thesis using Cons.prems by auto
  qed
qed simp

lemma set_drop_nth: "set (drop i xs) = (!) xs ` {i..<length xs}"
proof (cases "i \<le> length xs")
  case True
  then have "drop i xs = map ((!) xs) [i..<length xs]" by (intro nth_equalityI) auto
  then show ?thesis by simp
qed simp

lemma array_entries_Nil: "array_entries tb i = [] \<longleftrightarrow> (\<forall>v \<in> set (drop i (tarray tb)). v = LNil)"
  by (auto simp: array_entries_def filter_empty_conv set_drop_nth)

lemma array_entries_Cons:
  assumes "i \<le> j" "j < length (tarray tb)" "tarray tb ! j \<noteq> LNil" "\<And>l. i \<le> l \<Longrightarrow> l < j \<Longrightarrow> tarray tb ! l = LNil"
  shows "array_entries tb i = (numericKeyValue (int j + 1), tarray tb ! j) # array_entries tb (j + 1)"
proof -
  have "[i..<length (tarray tb)] = [i..<j] @ j # [j + 1..<length (tarray tb)]"
    using assms(1,2) upt_add_eq_append [OF assms(1), of "length (tarray tb) - j"]
    by (simp add: upt_conv_Cons)
  moreover have "filter (\<lambda>l. tarray tb ! l \<noteq> LNil) [i..<j] = []" using assms(4) by (auto simp: filter_empty_conv)
  ultimately show ?thesis using assms(3) by (simp add: array_entries_def)
qed

lemma nextAfterArrayIndex_entries:
  "case array_entries tb i of
     (k, v) # es \<Rightarrow> (\<exists>c j. nextAfterArrayIndex tb i = (k, v, c, tb) \<and> k = numericKeyValue (int j + 1) \<and>
        i \<le> j \<and> j < length (tarray tb) \<and> es = array_entries tb (j + 1))
   | [] \<Rightarrow> (case hash_entries tb (tkeys tb) of
        (k, v) # es \<Rightarrow> (\<exists>c. nextAfterArrayIndex tb i = (k, v, c, markNextHashKey tb k))
      | [] \<Rightarrow> (\<exists>c. nextAfterArrayIndex tb i = (LNil, LNil, c, tb)))"
proof (cases "fst (scan_array (drop i (tarray tb)) i 0)")
  case None
  then have "array_entries tb i = []" by (simp add: scan_array_None array_entries_Nil)
  moreover obtain c where "scan_array (drop i (tarray tb)) i 0 = (None, c)" using None by (metis prod.collapse)
  ultimately show ?thesis
    using scan_keys_entries [of tb "tkeys tb" 0]
    by (fastforce simp: nextAfterArrayIndex_def firstHashNext_def split: list.splits prod.splits)
next
  case (Some jv)
  then obtain j v c where s: "scan_array (drop i (tarray tb)) i 0 = (Some (j, v), c)"
    by (metis prod.collapse)
  then have j: "i \<le> j" "j < i + length (drop i (tarray tb))" "drop i (tarray tb) ! (j - i) = v" "v \<noteq> LNil"
    "\<And>l. i \<le> l \<Longrightarrow> l < j \<Longrightarrow> drop i (tarray tb) ! (l - i) = LNil"
    using scan_array_Some [of "drop i (tarray tb)" i 0 j v] by auto
  then have l: "j < length (tarray tb)" by auto
  have v: "tarray tb ! j = v" using j(1,3) l by simp
  have n: "\<And>l. i \<le> l \<Longrightarrow> l < j \<Longrightarrow> tarray tb ! l = LNil" using j(5) l by simp
  show ?thesis
    using array_entries_Cons [OF j(1) l _ n] v j(1,4) l s
    by (auto simp: nextAfterArrayIndex_def)
qed


text \<open>
  A traversal by \<^verbatim>\<open>Next\<close> whose body clears the visited keys that satisfy \<open>P\<close>; \<open>n\<close> bounds the
  number of calls. It returns the visited pairs and the final table.
\<close>

fun traverse :: "(LValue \<Rightarrow> bool) \<Rightarrow> nat \<Rightarrow> ltable \<Rightarrow> LValue \<Rightarrow> (LValue \<times> LValue) list \<times> ltable" where
  "traverse P 0 tb key = ([], tb)"
| "traverse P (Suc n) tb key =
     (case NextWithCost tb key of (k, v, c, tb) \<Rightarrow>
        if k = LNil then ([], tb)
        else (case traverse P n (if P k then RawSet tb k LNil else tb) k of (es, tb) \<Rightarrow> ((k, v) # es, tb)))"

text \<open>Where a traversal stands, and what is left to visit.\<close>

definition cursor :: "ltable \<Rightarrow> LValue \<Rightarrow> (LValue \<times> LValue) list \<Rightarrow> bool" where
  "cursor tb key es \<longleftrightarrow>
     (\<exists>i \<le> length (tarray tb). key = (if i = 0 then LNil else numericKeyValue (int i)) \<and>
        es = array_entries tb i @ hash_entries tb (tkeys tb)) \<or>
     (\<exists>p < length (tkeys tb). key = tkeys tb ! p \<and> key \<in> nextIterated tb \<and>
        (\<forall>i. array_index key = Some i \<longrightarrow> length (tarray tb) < i) \<and>
        es = hash_entries tb (drop (p + 1) (tkeys tb)))"

lemma NextWithCost_index:
  assumes "0 < i" "i \<le> length (tarray tb)" "i < 67108864"
  shows "NextWithCost tb (numericKeyValue (int i)) = finish_next (nextAfterArrayIndex tb i)"
proof -
  have v: "val (lu256FromInt (int i)) = i" using val_lu256FromInt [of "int i"] assms(3) by simp
  then have "lu256ToInt (lu256FromInt (int i)) = (int i, True)" "isArrayKey (lu256FromInt (int i))"
    using assms(1,3) by (simp_all add: lu256ToInt_val isArrayKey_val)
  then show ?thesis using assms(1,2) by (simp add: NextWithCost_def numericKeyValue_def)
qed

lemma NextWithCost_array:
  assumes "0 < i" "i \<le> length (tarray tb)" "no_shadow tb"
  shows "NextWithCost tb (numericKeyValue (int i)) = finish_next (nextAfterArrayIndex tb i)"
  using assms(1,2) by (rule NextWithCost_index) (use no_shadowD(1) [OF assms(3)] assms(2) in linarith)

lemma NextWithCost_hash:
  assumes "key \<noteq> LNil" "\<And>i. array_index key = Some i \<Longrightarrow> length (tarray tb) < i"
  shows "NextWithCost tb key = finish_next (nextHashAfter tb key)"
proof (cases key)
  case (LNum v)
  have "\<not> (isArrayKey v \<and> snd (lu256ToInt v) \<and> fst (lu256ToInt v) \<ge> 1 \<and> fst (lu256ToInt v) \<le> int (length (tarray tb)))"
  proof
    assume a: "isArrayKey v \<and> snd (lu256ToInt v) \<and> fst (lu256ToInt v) \<ge> 1 \<and> fst (lu256ToInt v) \<le> int (length (tarray tb))"
    then have "array_index key = Some (val v)" by (simp add: LNum array_index_def)
    then show False using a assms(2) by (auto simp: lu256ToInt_val split: if_splits)
  qed
  then show ?thesis by (auto simp: NextWithCost_def LNum split: prod.splits)
qed (use assms in \<open>simp_all add: NextWithCost_def\<close>)

text \<open>One step: the next pair left, and the traversal stands on it.\<close>

lemma step_hash:
  assumes "table_inv tb" "no_shadow tb" and es: "hash_entries tb (drop q (tkeys tb)) = (k, v) # es'"
  shows "cursor (markNextHashKey tb k) k es' \<and> k \<noteq> LNil \<and> k \<in> set (tkeys tb)"
proof -
  from hash_entries_Cons [OF es] obtain p where p: "p < length (drop q (tkeys tb))" "drop q (tkeys tb) ! p = k"
    "v = RawGetH tb k" "v \<noteq> LNil" "es' = hash_entries tb (drop (p + 1) (drop q (tkeys tb)))" by blast
  let ?r = "q + p"
  have r: "?r < length (tkeys tb)" "tkeys tb ! ?r = k" using p(1,2) by auto
  have k: "k \<in> set (tkeys tb)" using r by auto
  have "hash_entries (markNextHashKey tb k) ks = hash_entries tb ks" for ks
    by (induction ks) auto
  then have "es' = hash_entries (markNextHashKey tb k) (drop (?r + 1) (tkeys tb))"
    using p(5) by (simp add: add.commute)
  moreover have "array_index k = Some i \<longrightarrow> length (tarray tb) < i" for i
    using live_not_array [OF assms(2)] p(3,4) by blast
  ultimately have "cursor (markNextHashKey tb k) k es'"
    unfolding cursor_def using r by (intro disjI2 exI [of _ ?r]) (auto simp: markNextHashKey_def)
  with k show ?thesis using table_invD(4) [OF assms(1)] by auto
qed

lemma finish_next_step: "k \<noteq> LNil \<Longrightarrow> finish_next (k, v, c, tb) = (k, v, c, tb)"
  by (simp add: finish_next_def)

lemma finish_next_end: "finish_next (LNil, LNil, c, tb) = (LNil, LNil, c + fst (compactNextIterationState tb),
    snd (compactNextIterationState tb))"
  by (simp add: finish_next_def split: prod.split)

lemma next_step:
  assumes inv: "table_inv tb" "no_shadow tb" and cur: "cursor tb key es"
  shows "case es of
     [] \<Rightarrow> (\<exists>c. NextWithCost tb key = (LNil, LNil, c, snd (compactNextIterationState tb)))
   | (k, v) # es' \<Rightarrow> (\<exists>c tb'. NextWithCost tb key = (k, v, c, tb') \<and> cursor tb' k es' \<and> k \<noteq> LNil \<and>
       (tb' = tb \<or> k \<in> set (tkeys tb) \<and> tb' = markNextHashKey tb k))"
proof -
  from cur consider
    (array) i where "i \<le> length (tarray tb)" "key = (if i = 0 then LNil else numericKeyValue (int i))"
      "es = array_entries tb i @ hash_entries tb (tkeys tb)"
    | (hash) p where "p < length (tkeys tb)" "key = tkeys tb ! p"
      "\<forall>i. array_index key = Some i \<longrightarrow> length (tarray tb) < i"
      "es = hash_entries tb (drop (p + 1) (tkeys tb))"
    unfolding cursor_def by blast
  then show ?thesis
  proof cases
    case array
    have n: "NextWithCost tb key = finish_next (nextAfterArrayIndex tb i)"
      using array(1,2) NextWithCost_array [OF _ _ inv(2)] by (auto simp: NextWithCost_def)
    note a = nextAfterArrayIndex_entries [of tb i]
    show ?thesis
    proof (cases "array_entries tb i")
      case (Cons kv es1)
      obtain k v where kv: "kv = (k, v)" by fastforce
      with a Cons obtain c j where j: "nextAfterArrayIndex tb i = (k, v, c, tb)" "k = numericKeyValue (int (Suc j))"
        "j < length (tarray tb)" "es1 = array_entries tb (Suc j)" by (auto simp: add.commute)
      have "cursor tb k (es1 @ hash_entries tb (tkeys tb))"
        unfolding cursor_def using j by (intro disjI1 exI [of _ "Suc j"]) auto
      then show ?thesis using n j(1,2) array(3) Cons kv by (simp add: finish_next_step)
    next
      case Nil
      then have es: "es = hash_entries tb (tkeys tb)" using array(3) by simp
      show ?thesis
      proof (cases es)
        case Nil
        then show ?thesis using a \<open>array_entries tb i = []\<close> es n by (auto simp: finish_next_end)
      next
        case (Cons kv es')
        obtain k v where kv: "kv = (k, v)" by fastforce
        have "hash_entries tb (drop 0 (tkeys tb)) = (k, v) # es'" using es Cons kv by simp
        note s = step_hash [OF inv this]
        have "\<exists>c. nextAfterArrayIndex tb i = (k, v, c, markNextHashKey tb k)"
          using a Cons kv es \<open>array_entries tb i = []\<close> by auto
        then show ?thesis using n s Cons kv by (auto simp: finish_next_step)
      qed
    qed
  next
    case hash
    have nil: "key \<noteq> LNil" using hash(1,2) table_invD(4) [OF inv(1)] by (metis nth_mem)
    have n: "NextWithCost tb key = finish_next (nextHashAfter tb key)"
      using hash(3) by (intro NextWithCost_hash [OF nil]) auto
    have "k2i tb key = Some p"
      using hash(1,2) table_invD(1,2) [OF inv(1)] by (simp add: positions_Some)
    then have h: "nextHashAfter tb key = scan_keys tb (drop (p + 1) (tkeys tb)) 0"
      by (simp add: nextHashAfter_def)
    show ?thesis
    proof (cases es)
      case Nil
      then show ?thesis
        using scan_keys_entries [of tb "drop (p + 1) (tkeys tb)" 0] hash(4) n h
        by (auto simp: finish_next_end)
    next
      case (Cons kv es')
      obtain k v where kv: "kv = (k, v)" by fastforce
      note s = step_hash [OF inv hash(4) [symmetric, unfolded Cons kv]]
      have "\<exists>c. nextHashAfter tb key = (k, v, c, markNextHashKey tb k)"
        using scan_keys_entries [of tb "drop (p + 1) (tkeys tb)" 0]
        unfolding h hash(4) [symmetric] Cons kv by simp
      then show ?thesis using n s Cons kv by (auto simp: finish_next_step)
    qed
  qed
qed


text \<open>Clearing the visited key moves nothing that is left.\<close>

lemma RawSet_not_array:
  assumes "array_index k = None" shows "RawSet tb k v = RawSetH tb k v"
  using assms by (cases k) (auto simp: array_index_def RawSet_def RawSetH_def split: if_splits)

lemma RawSet_array:
  assumes "array_index k = Some i" shows "RawSet tb k v = RawSetInt tb (int i) v"
proof -
  from assms have i: "i < 67108864" "k = numericKeyValue (int i)" by (auto simp: array_index_Some)
  show ?thesis unfolding i(2) by (rule RawSetInt_RawSet [symmetric]) (use i(1) in auto)
qed

lemma RawSet_nil_hash:
  assumes "\<And>i. array_index k = Some i \<Longrightarrow> length (tarray tb) < i"
  shows "RawSet tb k LNil = RawSetH tb k LNil"
proof (cases "array_index k")
  case None
  then show ?thesis by (rule RawSet_not_array)
next
  case (Some i)
  have l: "length (tarray tb) < i" by (rule assms [OF Some])
  from Some have i: "0 < i" "i < 67108864" "k = numericKeyValue (int i)" by (auto simp: array_index_Some)
  have "setArrayValueAt tb (int i) LNil = RawSetH tb k LNil"
    using l i by (simp add: setArrayValueAt_def Let_def MaxArrayIndex_def)
  then show ?thesis unfolding RawSet_array [OF Some] RawSetInt_def by (simp add: i(3) numericKeyValue_def)
qed

lemma RawSet_nil_array:
  assumes "0 < i" "i \<le> length (tarray tb)" "length (tarray tb) < 67108864"
  shows "RawSet tb (numericKeyValue (int i)) LNil =
    RawSetH (tb\<lparr>tarray := (tarray tb)[i - 1 := LNil]\<rparr>) (numericKeyValue (int i)) LNil"
proof -
  have "RawSetInt tb (int i) LNil = RawSet tb (numericKeyValue (int i)) LNil"
    using assms by (intro RawSetInt_RawSet) auto
  then show ?thesis
    using assms by (simp add: RawSetInt_def shouldStoreArrayIndex_def MaxArrayIndex_def setArrayValueAt_def
        removeNumericHashKey_def Let_def)
qed

lemma dict_update_meta:
  "tkeys (tb\<lparr>dict := d\<rparr>) = tkeys tb \<and> k2i (tb\<lparr>dict := d\<rparr>) = k2i tb \<and> nextIterated (tb\<lparr>dict := d\<rparr>) = nextIterated tb"
  "tkeys (tb\<lparr>strdict := e\<rparr>) = tkeys tb \<and> k2i (tb\<lparr>strdict := e\<rparr>) = k2i tb \<and>
   nextIterated (tb\<lparr>strdict := e\<rparr>) = nextIterated tb"
  by simp_all

lemma tkeys_RawSetH_dead:
  assumes "table_inv tb" "k \<noteq> LNil"
  shows "tkeys (RawSetH tb k LNil) = (if k \<in> nextIterated tb then tkeys tb else without k (tkeys tb))"
    and "nextIterated (RawSetH tb k LNil) = nextIterated tb - (if k \<in> nextIterated tb then {} else {k})"
proof -
  have "\<exists>u. RawSetH tb k LNil = drop_key u k \<and> tkeys u = tkeys tb \<and> k2i u = k2i tb \<and> nextIterated u = nextIterated tb"
  proof (cases k)
    case (LString s)
    then show ?thesis unfolding RawSetH_def RawSetString_def
      by (intro exI [of _ "tb\<lparr>strdict := (strdict tb)(s := None)\<rparr>"]) simp
  qed (unfold RawSetH_def RawSetString_def, (intro exI [of _ "tb\<lparr>dict := (dict tb)(k := None)\<rparr>"], simp)+)
  then obtain u where u: "RawSetH tb k LNil = drop_key u k" "tkeys u = tkeys tb" "k2i u = k2i tb"
    "nextIterated u = nextIterated tb" by blast
  note f = removeHashKeyMetadata_fields [of u k, unfolded u(2-4), OF table_invD(1-3) [OF assms(1)]]
  show "tkeys (RawSetH tb k LNil) = (if k \<in> nextIterated tb then tkeys tb else without k (tkeys tb))"
    "nextIterated (RawSetH tb k LNil) = nextIterated tb - (if k \<in> nextIterated tb then {} else {k})"
    unfolding u(1) drop_key_def shouldKeepStaleNextKey_def u(4) using f u(2,4) by simp_all
qed

lemma hash_entries_without:
  "RawGetH tb k = LNil \<Longrightarrow> hash_entries tb (without k ks) = hash_entries tb ks"
  by (induction ks) (auto simp: without_def)

lemma hash_entries_cong:
  "(\<And>k. k \<in> set ks \<Longrightarrow> RawGetH tb k = RawGetH tb' k) \<Longrightarrow> hash_entries tb ks = hash_entries tb' ks"
  by (induction ks) auto

lemma no_shadow_RawSet_nil:
  assumes "no_shadow tb" shows "no_shadow (RawSet tb k LNil)"
proof -
  have h: "no_shadow (RawSetH (tb\<lparr>tarray := (tarray tb)[i := v]\<rparr>) k LNil)" for i v
    using assms by (auto simp: no_shadow_def)
  show ?thesis
  proof (cases "\<exists>i. array_index k = Some i \<and> i \<le> length (tarray tb)")
    case True
    then obtain i where i: "k = numericKeyValue (int i)" "0 < i" "i \<le> length (tarray tb)"
      by (auto simp: array_index_Some)
    show ?thesis unfolding i(1) RawSet_nil_array [OF i(2,3) no_shadowD(1) [OF assms]]
      using h i(1) by simp
  next
    case False
    then have "RawSet tb k LNil = RawSetH tb k LNil" by (intro RawSet_nil_hash) auto
    then show ?thesis using assms by (auto simp: no_shadow_def)
  qed
qed

lemma cursor_clear:
  assumes inv: "table_inv tb" "no_shadow tb" and cur: "cursor tb k es" and nil: "k \<noteq> LNil"
  shows "cursor (RawSet tb k LNil) k es"
proof -
  from cur nil consider
    (array) i where "0 < i" "i \<le> length (tarray tb)" "k = numericKeyValue (int i)"
      "es = array_entries tb i @ hash_entries tb (tkeys tb)"
    | (hash) p where "p < length (tkeys tb)" "k = tkeys tb ! p" "k \<in> nextIterated tb"
      "\<forall>i. array_index k = Some i \<longrightarrow> length (tarray tb) < i"
      "es = hash_entries tb (drop (p + 1) (tkeys tb))"
    unfolding cursor_def by (auto split: if_splits)
  then show ?thesis
  proof cases
    case array
    let ?u = "tb\<lparr>tarray := (tarray tb)[i - 1 := LNil]\<rparr>"
    let ?t = "RawSetH ?u k LNil"
    have t: "RawSet tb k LNil = ?t"
      unfolding array(3) by (rule RawSet_nil_array [OF array(1,2) no_shadowD(1) [OF inv(2)]])
    have dead: "RawGetH tb k = LNil" unfolding array(3) by (rule no_shadowD(2) [OF inv(2) array(1,2)])
    have g: "RawGetH ?t x = RawGetH tb x" for x using dead by simp
    have "tkeys ?t = (if k \<in> nextIterated tb then tkeys tb else without k (tkeys tb))"
      using tkeys_RawSetH_dead(1) [of ?u k] inv(1) nil by simp
    then have "hash_entries ?t (tkeys ?t) = hash_entries tb (tkeys tb)"
      using hash_entries_cong [of _ ?t tb] g hash_entries_without [OF dead] by auto
    moreover have "array_entries ?t i = array_entries tb i"
    proof -
      have "tarray ?t ! l = tarray tb ! l" if "l \<in> set [i..<length (tarray tb)]" for l
        using that array(1) by auto
      then show ?thesis unfolding array_entries_def by (auto intro!: map_cong filter_cong)
    qed
    ultimately show ?thesis
      unfolding t cursor_def using array by (intro disjI1 exI [of _ i]) auto
  next
    case hash
    let ?t = "RawSetH tb k LNil"
    have t: "RawSet tb k LNil = ?t" using hash(4) by (intro RawSet_nil_hash) auto
    have f: "tkeys ?t = tkeys tb" "nextIterated ?t = nextIterated tb"
      using tkeys_RawSetH_dead [OF inv(1) nil] hash(3) by auto
    have "k \<notin> set (drop (p + 1) (tkeys tb))"
      using hash(1,2) table_invD(1) [OF inv(1)]
      by (auto simp: set_drop_nth nth_eq_iff_index_eq)
    then have "hash_entries ?t (drop (p + 1) (tkeys tb)) = es"
      unfolding hash(5) by (intro hash_entries_cong) auto
    then show ?thesis
      unfolding t cursor_def f using hash(1-4) by (intro disjI2 exI [of _ p]) auto
  qed
qed

lemma no_shadow_mark [simp]: "no_shadow (markNextHashKey tb k) = no_shadow tb"
  by (simp add: no_shadow_def) (simp add: markNextHashKey_def)

lemma tarray_mark [simp]: "tarray (markNextHashKey tb k) = tarray tb"
  by (simp add: markNextHashKey_def)

lemma RawGet_mark [simp]: "RawGet (markNextHashKey tb k) x = RawGet tb x"
  by (auto simp: RawGet_alt array_slot_def split: option.splits)

lemma compact_fields [simp]:
  "RawGetH (snd (compactNextIterationState tb)) x = RawGetH tb x"
  "tarray (snd (compactNextIterationState tb)) = tarray tb"
  by (auto simp: compactNextIterationState_def Let_def intro!: RawGetH_cong)

lemma RawGet_compact [simp]: "RawGet (snd (compactNextIterationState tb)) x = RawGet tb x"
  by (auto simp: RawGet_alt array_slot_def split: option.splits)

lemma traverse_cursor:
  assumes "table_inv tb" "no_shadow tb" "cursor tb key es" "length es < n"
  shows "fst (traverse P n tb key) = es \<and> table_inv (snd (traverse P n tb key)) \<and>
    (\<forall>x. RawGet (snd (traverse P n tb key)) x = (if x \<in> fst ` set es \<and> P x then LNil else RawGet tb x))"
  using assms
proof (induction es arbitrary: n tb key)
  case Nil
  then obtain m where m: "n = Suc m" by (cases n) auto
  from next_step [OF Nil.prems(1-3)] show ?case
    using table_inv_compact [OF Nil.prems(1)] by (auto simp: m)
next
  case (Cons kv es)
  obtain k v where kv: "kv = (k, v)" by fastforce
  from Cons.prems(4) obtain m where m: "n = Suc m" "length es < m" by (cases n) auto
  from next_step [OF Cons.prems(1-3)] obtain c tb' where
    s: "NextWithCost tb key = (k, v, c, tb')" "cursor tb' k es" "k \<noteq> LNil"
      "tb' = tb \<or> k \<in> set (tkeys tb) \<and> tb' = markNextHashKey tb k"
    by (auto simp: kv)
  have i: "table_inv tb'" "no_shadow tb'" and g: "RawGet tb' x = RawGet tb x" for x
    using s(4) Cons.prems(1,2) table_inv_mark by auto
  let ?t = "if P k then RawSet tb' k LNil else tb'"
  have t: "table_inv ?t" "no_shadow ?t" "cursor ?t k es"
    using i s(2,3) table_inv_RawSet no_shadow_RawSet_nil cursor_clear by auto
  note IH = Cons.IH [OF t m(2)]
  have "traverse P n tb key = ((k, v) # fst (traverse P m ?t k), snd (traverse P m ?t k))"
    by (simp add: m s(1,3) split: prod.split)
  then show ?case using IH by (auto simp: kv g RawGet_RawSet)
qed

lemma cursor_start: "cursor tb LNil (ForEach tb)"
  by (auto simp: cursor_def ForEach_def)

section \<open>Tables as maps\<close>

lemma no_shadow_RawSetH:
  assumes "no_shadow tb" "\<And>i. array_index k = Some i \<Longrightarrow> length (tarray tb) < i"
  shows "no_shadow (RawSetH tb k v)"
proof -
  have "k \<noteq> numericKeyValue (int i)" if "0 < i" "i \<le> length (tarray tb)" for i
    using assms(2) [of i] that no_shadowD(1) [OF assms(1)] by (auto simp: array_index_numeric)
  then show ?thesis using assms(1) by (auto simp: no_shadow_def)
qed

lemma no_shadow_setArrayValueAt:
  assumes sh: "no_shadow tb" and i: "0 < i" "i < 67108864"
  shows "no_shadow (setArrayValueAt tb (int i) v)"
proof -
  let ?key = "numericKeyValue (int i)" and ?n = "length (tarray tb)"
  have ni: "\<not> (int i < 1 \<or> MaxArrayIndex \<le> int i)" using i by (simp add: MaxArrayIndex_def)
  consider (nil) "v = LNil" "?n < i" | (inside) "i \<le> ?n" | (grow) "v \<noteq> LNil" "?n < i" by linarith
  then show ?thesis
  proof cases
    case nil
    then have "setArrayValueAt tb (int i) v = RawSetH tb ?key LNil" using ni by (simp add: setArrayValueAt_def Let_def)
    then show ?thesis using sh by (auto simp: no_shadow_def)
  next
    case inside
    then have "setArrayValueAt tb (int i) v = RawSetH (tb\<lparr>tarray := (tarray tb)[i - 1 := v]\<rparr>) ?key LNil"
      using ni by (simp add: setArrayValueAt_def Let_def removeNumericHashKey_def)
    then show ?thesis using sh by (auto simp: no_shadow_def)
  next
    case grow
    let ?g = "tb\<lparr>tarray := tarray tb @ replicate (i - ?n) LNil\<rparr>"
    let ?m = "fold migrate_step [?n + 1..<i + 1] ?g"
    have sl: "array_slot ?g j = LNil" if "?n + 1 \<le> j" "j < i + 1" for j
      using that unfolding array_slot_grow by (simp add: array_slot_def)
    have b: "i + 1 \<le> Suc (length (tarray ?g))" "i + 1 \<le> 67108864" using grow i by simp_all
    note m = migrate_effect [of "?n + 1" "i + 1" ?g, OF _ b sl]
    have tb': "setArrayValueAt tb (int i) v = RawSetH (?m\<lparr>tarray := (tarray ?m)[i - 1 := v]\<rparr>) ?key LNil"
      using grow ni by (simp add: setArrayValueAt_def Let_def removeNumericHashKey_def
          migrateNumericHashRangeToArray_def)
    have len: "length (tarray ?m) = i" using m(1) grow by simp
    have "RawGetH ?m (numericKeyValue (int j)) = LNil" if "0 < j" "j \<le> i" for j
    proof (cases "j \<le> ?n")
      case True
      then show ?thesis using m(3) [of "numericKeyValue (int j)"] no_shadowD(2) [OF sh that(1)] by simp
    next
      case False
      then have "\<exists>j'. ?n + 1 \<le> j' \<and> j' < i + 1 \<and> numericKeyValue (int j) = numericKeyValue (int j')"
        using that by (intro exI [of _ j]) simp
      then show ?thesis using m(3) [of "numericKeyValue (int j)"] by simp
    qed
    then show ?thesis unfolding tb' using len i by (simp add: no_shadow_def del: upt_Suc)
  qed
qed

lemma no_shadow_RawSet:
  assumes "no_shadow tb" shows "no_shadow (RawSet tb k v)"
proof (cases "array_index k")
  case None
  then have "RawSet tb k v = RawSetH tb k v"
    by (auto simp: array_index_def RawSet_def RawSetH_def split: LValue.splits if_splits)
  moreover have "no_shadow (RawSetH tb k v)" by (rule no_shadow_RawSetH [OF assms]) (simp add: None)
  ultimately show ?thesis by simp
next
  case (Some i)
  then have i: "0 < i" "i < 67108864" "k = numericKeyValue (int i)" by (auto simp: array_index_Some)
  show ?thesis
  proof (cases "shouldStoreArrayIndex tb (int i)")
    case True
    then show ?thesis unfolding RawSet_array [OF Some] RawSetInt_def
      using no_shadow_setArrayValueAt [OF assms i(1,2)] by simp
  next
    case False
    then have "length (tarray tb) < i"
      using i by (auto simp: shouldStoreArrayIndex_def MaxArrayIndex_def Let_def split: if_splits)
    then show ?thesis unfolding RawSet_array [OF Some] RawSetInt_def
      using no_shadow_RawSetH [OF assms, of k v] Some False i by (simp add: numericKeyValue_def)
  qed
qed

interpretation tbl: kv_store RawGet RawSet "\<lambda>tb. table_inv tb \<and> no_shadow tb" "\<lambda>k. k \<noteq> LNil"
  by unfold_locales (auto simp: RawGet_RawSet table_inv_RawSet no_shadow_RawSet)

definition table_of :: "int \<Rightarrow> int \<Rightarrow> (LValue \<times> LValue) list \<Rightarrow> ltable" where
  "table_of acap hcap kvs = fold (\<lambda>(k, v) tb. RawSet tb k v) kvs (newLTable acap hcap)"

lemma table_of_facts:
  assumes "\<forall>(k, v) \<in> set kvs. k \<noteq> LNil"
  shows "table_inv (table_of acap hcap kvs)" "no_shadow (table_of acap hcap kvs)"
    "RawGet (table_of acap hcap kvs) k = (case map_of (rev kvs) k of None \<Rightarrow> LNil | Some v \<Rightarrow> v)"
  using tbl.get_fold_put [of "newLTable acap hcap" kvs k] assms
  by (simp_all add: table_of_def cong: option.case_cong)

text \<open>C36: A table is a map. After any sequence of assignments \<^verbatim>\<open>t[k] = v\<close> (\<^verbatim>\<open>RawSet\<close>) to a new
  table, with whatever growth of the array part and migration of hash keys they cause, reading a
  key gives the value assigned to it last, and nil when there was none; and the key list, the
  index map, the iteration marks and the two parts are consistent.
\<close>

theorem table_refines_map:
  assumes "\<forall>(k, v) \<in> set kvs. k \<noteq> LNil"
  shows "(\<forall>k. RawGet (table_of acap hcap kvs) k =
      (case map_of (rev kvs) k of None \<Rightarrow> LNil | Some v \<Rightarrow> v)) \<and>
    table_inv (table_of acap hcap kvs) \<and> no_shadow (table_of acap hcap kvs)"
  using table_of_facts [OF assms] by simp

lemma table_refines_map_witness:
  "RawGet (table_of 0 0 [(LString ''a'', LBool True), (numericKeyValue 1, LString ''b''), (LString ''a'', LBool False)])
     (LString ''a'') = LBool False"
  using table_refines_map [of "[(LString ''a'', LBool True), (numericKeyValue 1, LString ''b''), (LString ''a'', LBool False)]" 0 0]
  by (simp add: numericKeyValue_def)

text \<open>\<^verbatim>\<open>ForEach\<close> of a table built by assignments yields every key that has a value exactly
  once, with the value that reading the key gives, and nothing else.
\<close>

theorem ForEach_exact:
  assumes "\<forall>(k, v) \<in> set kvs. k \<noteq> LNil"
  shows "distinct (map fst (ForEach (table_of acap hcap kvs))) \<and>
    set (ForEach (table_of acap hcap kvs)) =
      {(k, v). k \<noteq> LNil \<and> v \<noteq> LNil \<and> map_of (rev kvs) k = Some v}"
proof -
  let ?t = "table_of acap hcap kvs"
  have g: "table_inv ?t" "no_shadow ?t"
    "\<And>k. RawGet ?t k = (case map_of (rev kvs) k of None \<Rightarrow> LNil | Some v \<Rightarrow> v)"
    by (rule table_of_facts [OF assms])+
  have "k \<noteq> LNil" if "(k, v) \<in> set (ForEach ?t)" for k v
    using that table_invD(4) [OF g(1)]
    by (auto simp: ForEach_def array_entries_def hash_entries_def numericKeyValue_def)
  then have "set (ForEach ?t) = {(k, v). k \<noteq> LNil \<and> v \<noteq> LNil \<and> RawGet ?t k = v}"
    using ForEach_sound [OF g(2)] ForEach_complete [OF g(1,2)] by auto
  then show ?thesis using ForEach_distinct [OF g(1,2)] by (auto simp: g(3) split: option.splits)
qed

lemma ForEach_exact_witness:
  "(LString ''a'', LBool False) \<in> set (ForEach (table_of 0 0
     [(LString ''a'', LBool True), (LString ''b'', LNil), (LString ''a'', LBool False)]))"
  using ForEach_exact [of "[(LString ''a'', LBool True), (LString ''b'', LNil), (LString ''a'', LBool False)]" 0 0]
  by simp

text \<open>C37: Traversal with \<^verbatim>\<open>next\<close> (\<^verbatim>\<open>NextWithCost\<close>) of a table in which no key is both in the array
  and in the hash part (\<open>no_shadow\<close>, which assignments keep but \<^verbatim>\<open>table.insert\<close> may break) is
  \<^verbatim>\<open>ForEach\<close>, also when the loop body assigns nil to some of the keys it visits (those that
  satisfy \<open>P\<close>): it visits the entries the table had at the start, in that order, and stops after as
  many steps; afterwards exactly the cleared keys read as nil, and the bookkeeping is consistent.
\<close>

theorem next_traversal:
  assumes "table_inv tb" "no_shadow tb" "length (ForEach tb) < n"
  shows "fst (traverse P n tb LNil) = ForEach tb \<and> table_inv (snd (traverse P n tb LNil)) \<and>
    (\<forall>x. RawGet (snd (traverse P n tb LNil)) x =
      (if x \<in> fst ` set (ForEach tb) \<and> P x then LNil else RawGet tb x))"
  by (rule traverse_cursor [OF assms(1,2) cursor_start assms(3)])

lemma next_traversal_witness:
  "fst (traverse (\<lambda>k. True) 3 (table_of 0 0 [(LString ''a'', LBool True), (LString ''b'', LNil)]) LNil) =
     ForEach (table_of 0 0 [(LString ''a'', LBool True), (LString ''b'', LNil)])"
proof -
  let ?kvs = "[(LString ''a'', LBool True), (LString ''b'', LNil)]"
  have i: "table_inv (table_of 0 0 ?kvs)" "no_shadow (table_of 0 0 ?kvs)"
    by (rule table_of_facts; simp)+
  have "length (ForEach (table_of 0 0 ?kvs)) < 3"
    by (simp add: table_of_def ForEach_def array_entries_def hash_entries_def RawSet_def RawSetString_def
        add_key_def drop_key_def removeHashKeyMetadata_def newLTable_def shouldKeepStaleNextKey_def opt_value_def)
  from next_traversal [OF i this] show ?thesis by simp
qed

section \<open>A key in both parts\<close>

text \<open>
  \<^verbatim>\<open>t[N] = v\<close> puts a key \<open>N > 65\<close> of an empty table in the hash part. Insertions at the front lengthen
  the array part without moving it: the \<open>N\<close>-th one gives the array an index \<open>N\<close> of its own.
\<close>

definition shadowed_table :: "nat \<Rightarrow> LValue \<Rightarrow> LValue \<Rightarrow> nat \<Rightarrow> ltable" where
  "shadowed_table N v w n = ((\<lambda>tb. Insert tb 1 w) ^^ n) (RawSet (newLTable 0 0) (numericKeyValue (int N)) v)"

text \<open>The one live hash key of these tables, whatever a traversal has marked.\<close>

definition one_hash_key :: "ltable \<Rightarrow> LValue \<Rightarrow> LValue \<Rightarrow> bool" where
  "one_hash_key tb k v \<longleftrightarrow> dict tb = (\<lambda>_. None)(k \<mapsto> v) \<and> tkeys tb = [k] \<and> k2i tb = (\<lambda>_. None)(k \<mapsto> 0)"

lemma removeNumericHashKey_other:
  assumes "one_hash_key tb k v" "k \<noteq> numericKeyValue i"
  shows "removeNumericHashKey tb i = tb"
proof -
  have "(dict tb)(numericKeyValue i := None) = dict tb" "k2i tb (numericKeyValue i) = None"
    using assms by (auto simp: one_hash_key_def fun_eq_iff)
  then show ?thesis
    by (simp add: removeNumericHashKey_def RawSetH_def numericKeyValue_def drop_key_def removeHashKeyMetadata_def)
qed

lemma shadowed_start:
  assumes "66 \<le> N" "N < 67108864" "v \<noteq> LNil"
  shows "one_hash_key (shadowed_table N v w 0) (numericKeyValue (int N)) v \<and> tarray (shadowed_table N v w 0) = []"
proof -
  have "val (lu256FromInt (int N)) = N" using val_lu256FromInt [of "int N"] assms(2) by simp
  then have "lu256ToInt (lu256FromInt (int N)) = (int N, True)" "isArrayKey (lu256FromInt (int N))"
    using assms(1,2) by (simp_all add: lu256ToInt_val isArrayKey_val)
  then have "RawSet (newLTable 0 0) (numericKeyValue (int N)) v = RawSetH (newLTable 0 0) (numericKeyValue (int N)) v"
    using assms(1) by (simp add: RawSet_def numericKeyValue_def shouldStoreArrayIndex_def newLTable_def
        MaxArrayHoleGrowth_def)
  then show ?thesis
    using assms(3) by (simp add: shadowed_table_def one_hash_key_def RawSetH_def numericKeyValue_def add_key_def newLTable_def)
qed

lemma Insert_front:
  assumes "one_hash_key tb k v" "k \<noteq> numericKeyValue 1" "w \<noteq> LNil"
  shows "one_hash_key (Insert tb 1 w) k v \<and> tarray (Insert tb 1 w) = w # tarray tb"
proof (cases "tarray tb = []")
  case True
  have r: "RawGetH tb (numericKeyValue 1) = LNil"
    using assms(1,2) by (auto simp: one_hash_key_def numericKeyValue_def opt_value_def)
  have o: "one_hash_key (tb\<lparr>tarray := a\<rparr>) k v" for a using assms(1) by (simp add: one_hash_key_def)
  have "removeNumericHashKey (tb\<lparr>tarray := [w]\<rparr>) 1 = tb\<lparr>tarray := [w]\<rparr>"
    by (rule removeNumericHashKey_other [OF o assms(2)])
  moreover have "migrateNumericHashRangeToArray (tb\<lparr>tarray := [LNil]\<rparr>) 1 1 = tb\<lparr>tarray := [LNil]\<rparr>"
    using r by (simp add: migrateNumericHashRangeToArray_def migrate_step_def numericKeyValue_def)
  ultimately show ?thesis
    using True assms(3) o [of "[w]"]
    by (simp add: Insert_def InsertWithCost_def RawSetInt_def shouldStoreArrayIndex_def MaxArrayIndex_def
        MaxArrayHoleGrowth_def setArrayValueAt_def)
next
  case False
  have o: "one_hash_key (tb\<lparr>tarray := w # tarray tb\<rparr>) k v" using assms(1) by (simp add: one_hash_key_def)
  then have "removeNumericHashKey (tb\<lparr>tarray := w # tarray tb\<rparr>) 1 = tb\<lparr>tarray := w # tarray tb\<rparr>"
    using assms(2) by (rule removeNumericHashKey_other)
  then show ?thesis using False o by (cases "tarray tb") (simp_all add: Insert_def InsertWithCost_def)
qed

lemma shadowed_table_facts:
  assumes "66 \<le> N" "N < 67108864" "v \<noteq> LNil" "w \<noteq> LNil"
  shows "one_hash_key (shadowed_table N v w n) (numericKeyValue (int N)) v \<and>
    tarray (shadowed_table N v w n) = replicate n w"
proof (induction n)
  case 0
  then show ?case using shadowed_start [OF assms(1-3)] by simp
next
  case (Suc n)
  have "numericKeyValue (int N) \<noteq> numericKeyValue (int 1)"
    using assms(1,2) by (subst numericKeyValue_inj) simp_all
  moreover have "shadowed_table N v w (Suc n) = Insert (shadowed_table N v w n) 1 w" by (simp add: shadowed_table_def)
  ultimately show ?case using Insert_front [of "shadowed_table N v w n" "numericKeyValue (int N)" v w] Suc assms(4) by simp
qed

lemma traverse_read:
  assumes "NextWithCost tb key = (k, v, c, tb')" "k \<noteq> LNil"
  shows "fst (traverse (\<lambda>k. False) (Suc n) tb key) = (k, v) # fst (traverse (\<lambda>k. False) n tb' k)"
  using assms by (simp split: prod.splits)

text \<open>From the last array index a traversal goes to the hash key, which is that index again.\<close>

lemma shadowed_last:
  assumes "one_hash_key tb (numericKeyValue (int N)) v" "tarray tb = replicate N w" "0 < N" "N < 67108864" "v \<noteq> LNil"
  shows "fst (traverse (\<lambda>k. False) n tb (numericKeyValue (int N))) = replicate n (numericKeyValue (int N), v)"
  using assms(1,2)
proof (induction n arbitrary: tb)
  case (Suc n)
  let ?k = "numericKeyValue (int N)"
  have "RawGetH tb ?k = v" using Suc.prems(1) by (simp add: one_hash_key_def numericKeyValue_def opt_value_def)
  then have "NextWithCost tb ?k = (?k, v, 1, markNextHashKey tb ?k)"
    using NextWithCost_index [of N tb] Suc.prems assms(3-5)
    by (simp add: nextAfterArrayIndex_def firstHashNext_def one_hash_key_def finish_next_def numericKeyValue_def)
  moreover have "fst (traverse (\<lambda>k. False) n (markNextHashKey tb ?k) ?k) = replicate n (?k, v)"
    using Suc.prems by (intro Suc.IH) (simp_all add: one_hash_key_def markNextHashKey_def)
  ultimately show ?case using traverse_read [of tb ?k ?k v 1] by (simp add: numericKeyValue_def)
qed simp

lemma shadowed_walk:
  assumes "one_hash_key tb (numericKeyValue (int N)) v" "tarray tb = replicate N w" "0 < N" "N < 67108864" "v \<noteq> LNil" "w \<noteq> LNil"
  shows "j \<le> N \<Longrightarrow> fst (traverse (\<lambda>k. False) (j + n) tb (if N - j = 0 then LNil else numericKeyValue (int (N - j)))) =
    map (\<lambda>i. (numericKeyValue (int i + 1), w)) [N - j..<N] @ replicate n (numericKeyValue (int N), v)"
proof (induction j)
  case 0
  then show ?case using shadowed_last [OF assms(1-5), of n] assms(3) by simp
next
  case (Suc j)
  define i where "i = N - Suc j"
  have i: "i < N" "N - j = Suc i" using Suc.prems by (simp_all add: i_def)
  have "drop i (tarray tb) = w # replicate (N - Suc i) w"
    using i(1) assms(2) by (simp flip: replicate_Suc add: Suc_diff_Suc)
  then have "nextAfterArrayIndex tb i = (numericKeyValue (int i + 1), w, 1, tb)"
    using assms(6) by (simp add: nextAfterArrayIndex_def)
  then have "finish_next (nextAfterArrayIndex tb i) = (numericKeyValue (int (Suc i)), w, 1, tb)"
    by (simp add: finish_next_def numericKeyValue_def add.commute)
  then have "NextWithCost tb (if i = 0 then LNil else numericKeyValue (int i)) = (numericKeyValue (int (Suc i)), w, 1, tb)"
    using NextWithCost_index [of i tb] i(1) assms(2,4) by (cases "i = 0") (simp_all add: NextWithCost_def)
  then have "fst (traverse (\<lambda>k. False) (Suc (j + n)) tb (if i = 0 then LNil else numericKeyValue (int i))) =
      (numericKeyValue (int (Suc i)), w) # fst (traverse (\<lambda>k. False) (j + n) tb (numericKeyValue (int (Suc i))))"
    by (rule traverse_read) (simp add: numericKeyValue_def)
  moreover have "fst (traverse (\<lambda>k. False) (j + n) tb (numericKeyValue (int (Suc i)))) =
      map (\<lambda>i. (numericKeyValue (int i + 1), w)) [Suc i..<N] @ replicate n (numericKeyValue (int N), v)"
    using Suc.IH Suc.prems i(2) by simp
  ultimately show ?case
    using i(1) by (cases "i = 0") (simp_all add: i_def [symmetric] upt_conv_Cons add.commute del: traverse.simps)
qed

text \<open>C38: an endless traversal. In an empty table let \<open>t[N] = v\<close> for some \<open>N > 65\<close> and insert \<open>w\<close> at the
  front \<open>N\<close> times. Then \<open>N\<close> is both an array index and a hash key, and \<^verbatim>\<open>next\<close>, which looks for a number in
  the array part first, returns to the start of the hash part after it: a traversal yields the \<open>N\<close> array
  entries, then the pair \<open>(N, v)\<close> for as long as it goes on, however many calls \<open>n\<close> are made.
\<close>

theorem shadowed_traversal_endless:
  assumes "66 \<le> N" "N < 67108864" "v \<noteq> LNil" "w \<noteq> LNil"
  shows "fst (traverse (\<lambda>k. False) (N + n) (shadowed_table N v w N) LNil) =
    map (\<lambda>i. (numericKeyValue (int i + 1), w)) [0..<N] @ replicate n (numericKeyValue (int N), v)"
  using shadowed_walk [of "shadowed_table N v w N" N v w N n] shadowed_table_facts [OF assms, of N] assms by simp

theorem shadowed_traversal_endless_witness:
  "fst (traverse (\<lambda>k. False) (66 + 1000) (shadowed_table 66 (LBool True) (LBool False) 66) LNil) =
    map (\<lambda>i. (numericKeyValue (int i + 1), LBool False)) [0..<66] @ replicate 1000 (numericKeyValue 66, LBool True)"
  using shadowed_traversal_endless [of 66 "LBool True" "LBool False" 1000] by simp

section \<open>Sequences\<close>

lemma last_nonempty_spec:
  "last_nonempty arr n c = (m, c') \<Longrightarrow>
   m \<le> n \<and> (m = 0 \<or> arr ! (m - 1) \<noteq> LNil) \<and> (\<forall>i. m \<le> i \<longrightarrow> i < n \<longrightarrow> arr ! i = LNil) \<and>
   c' = c + (if m = 0 then n else n - m + 1)"
proof (induction n arbitrary: c)
  case (Suc n)
  show ?case
  proof (cases "arr ! n = LNil")
    case True
    with Suc.prems Suc.IH [of "c + 1"] show ?thesis by (auto simp: less_Suc_eq Suc_diff_le)
  qed (use Suc.prems in auto)
qed auto

lemma len_scan_last: "len_scan arr n LNil c = last_nonempty arr n c"
  by (induction n arbitrary: c) (auto simp: Let_def)

lemma setArrayValueAt_grow:
  assumes i: "length (tarray tb) < i" "i < 67108864" and v: "v \<noteq> LNil"
  shows "length (tarray (setArrayValueAt tb (int i) v)) = i"
    "tarray (setArrayValueAt tb (int i) v) ! (i - 1) = v"
    "RawGetH (setArrayValueAt tb (int i) v) k =
      (if \<exists>j. length (tarray tb) < j \<and> j \<le> i \<and> k = numericKeyValue (int j) then LNil else RawGetH tb k)"
proof -
  let ?key = "numericKeyValue (int i)" and ?n = "length (tarray tb)"
  let ?g = "tb\<lparr>tarray := tarray tb @ replicate (i - ?n) LNil\<rparr>"
  let ?m = "fold migrate_step [?n + 1..<i + 1] ?g"
  have sl: "array_slot ?g j = LNil" if "?n + 1 \<le> j" "j < i + 1" for j
    using that unfolding array_slot_grow by (simp add: array_slot_def)
  have b: "i + 1 \<le> Suc (length (tarray ?g))" "i + 1 \<le> 67108864" using i by simp_all
  note m = migrate_effect [of "?n + 1" "i + 1" ?g, OF _ b sl]
  have tb': "setArrayValueAt tb (int i) v = RawSetH (?m\<lparr>tarray := (tarray ?m)[i - 1 := v]\<rparr>) ?key LNil"
    using i v by (simp add: setArrayValueAt_def Let_def removeNumericHashKey_def MaxArrayIndex_def
        migrateNumericHashRangeToArray_def)
  have len: "length (tarray ?m) = i" using m(1) i by simp
  then show "length (tarray (setArrayValueAt tb (int i) v)) = i"
    "tarray (setArrayValueAt tb (int i) v) ! (i - 1) = v"
    unfolding tb' using i by (simp_all del: upt_Suc)
  show "RawGetH (setArrayValueAt tb (int i) v) k =
      (if \<exists>j. ?n < j \<and> j \<le> i \<and> k = numericKeyValue (int j) then LNil else RawGetH tb k)"
  proof -
    have "?key = k \<Longrightarrow> \<exists>j. ?n < j \<and> j \<le> i \<and> k = numericKeyValue (int j)" using i(1) by blast
    moreover have "(\<exists>j. ?n + 1 \<le> j \<and> j < i + 1 \<and> k = numericKeyValue (int j)) \<longleftrightarrow>
        (\<exists>j. ?n < j \<and> j \<le> i \<and> k = numericKeyValue (int j))" by (simp add: Suc_le_eq less_Suc_eq_le)
    ultimately show ?thesis unfolding tb' using m(3) [of k] by (simp del: upt_Suc) auto
  qed
qed

definition insert_at :: "nat \<Rightarrow> 'a \<Rightarrow> 'a list \<Rightarrow> 'a list" where
  "insert_at j x xs = take j xs @ x # drop j xs"

text \<open>The length operator and \<^verbatim>\<open>table.maxn\<close> (\<^verbatim>\<open>LenWithCost\<close>, \<^verbatim>\<open>MaxNWithCost\<close>) are two loops with
  one result: the position of the last element of the array part that is not nil (0 if there is
  none), for a cost of one per slot looked at.
\<close>

theorem Len_is_MaxN:
  "LenWithCost tb = MaxNWithCost tb \<and> Len tb \<le> length (tarray tb) \<and>
   (Len tb = 0 \<or> tarray tb ! (Len tb - 1) \<noteq> LNil) \<and>
   (\<forall>i < length (tarray tb). Len tb \<le> i \<longrightarrow> tarray tb ! i = LNil) \<and>
   snd (LenWithCost tb) = length (tarray tb) - Len tb + (if Len tb = 0 then 0 else 1)"
proof -
  obtain m c where l: "last_nonempty (tarray tb) (length (tarray tb)) 0 = (m, c)" by fastforce
  from last_nonempty_spec [OF l] show ?thesis
    by (auto simp: Len_def LenWithCost_def MaxNWithCost_def len_scan_last l)
qed

lemma Len_is_MaxN_witness:
  "Len (newLTable 0 0) = 0"
  using Len_is_MaxN [of "newLTable 0 0"] by (simp add: newLTable_def)

text \<open>\<^verbatim>\<open>table.insert\<close> and \<^verbatim>\<open>table.remove\<close> inside the array part are the list operations: inserting
  at position \<open>i\<close> shifts the elements from \<open>i\<close> on up by one, reports as many moved elements, and,
  when the hash part has no value under the next index, leaves the two parts without a common key;
  removing at \<open>i\<close> again returns the inserted value, reports the same cost, and every key reads as
  it did before.
\<close>

theorem insert_then_remove:
  assumes "no_shadow tb" "1 \<le> i" "i \<le> length (tarray tb)" "length (tarray tb) + 1 < 67108864"
    and "RawGetH tb (numericKeyValue (int (length (tarray tb)) + 1)) = LNil"
  shows "\<exists>tb1 tb2. InsertWithCost tb (int i) v = (tb1, length (tarray tb) - i + 1) \<and> no_shadow tb1 \<and>
      tarray tb1 = insert_at (i - 1) v (tarray tb) \<and>
      RemoveWithCost tb1 (int i) = (v, length (tarray tb) - i + 1, tb2) \<and>
      (\<forall>k. RawGet tb2 k = RawGet tb k)"
proof -
  define n where "n = length (tarray tb)"
  let ?arr = "insert_at (i - 1) v (tarray tb)"
  let ?tb1 = "RawSetH (tb\<lparr>tarray := ?arr\<rparr>) (numericKeyValue (int i)) LNil"
  let ?tb2 = "RawSetH tb (numericKeyValue (int i)) LNil"
  have len: "length ?arr = Suc n" using assms(2,3) by (simp add: insert_at_def n_def)
  have 1: "InsertWithCost tb (int i) v = (?tb1, n - i + 1)"
    using assms(2,3) by (simp add: InsertWithCost_def insert_at_def removeNumericHashKey_def n_def Let_def)
  have "RawGetH tb (numericKeyValue (int j)) = LNil" if "0 < j" "j \<le> Suc n" for j
    using that no_shadowD(2) [OF assms(1), of j] assms(5)
    by (cases "j = Suc n") (auto simp: n_def add.commute)
  then have 2: "no_shadow ?tb1" using len assms(4) by (simp add: no_shadow_def n_def)
  have d: "take (i - 1) ?arr @ drop i ?arr = tarray tb" "?arr ! (i - 1) = v"
  proof -
    have "i - 1 < length (tarray tb)" "\<not> length (tarray tb) \<le> i - 1" using assms(2,3) by linarith+
    then show "take (i - 1) ?arr @ drop i ?arr = tarray tb" "?arr ! (i - 1) = v"
      using assms(2) by (simp_all add: insert_at_def nth_append min_def)
  qed
  have 3: "RemoveWithCost ?tb1 (int i) = (v, n - i + 1, tarray_update (\<lambda>_. tarray tb) ?tb1)"
    using assms(2,3) d len unfolding n_def
    by (simp add: RemoveWithCost_def Let_def nat_diff_distrib Suc_diff_le) (simp add: insert_at_def)
  have "RawGetH tb (numericKeyValue (int i)) = LNil"
    using no_shadowD(2) [OF assms(1), of i] assms(2,3) by simp
  then have "RawGet (tarray_update (\<lambda>_. tarray tb) ?tb1) k = RawGet tb k" for k
    by (auto simp: RawGet_alt array_slot_def split: option.splits)
  with 1 2 3 show ?thesis by (auto simp: n_def)
qed

lemma insert_then_remove_witness:
  "\<exists>tb1 tb2. InsertWithCost ((newLTable 0 0)\<lparr>tarray := [LBool True]\<rparr>) (int 1) LNil = (tb1, 1) \<and>
     no_shadow tb1 \<and> tarray tb1 = [LNil, LBool True] \<and> RemoveWithCost tb1 (int 1) = (LNil, 1, tb2)"
proof -
  let ?t = "(newLTable 0 0)\<lparr>tarray := [LBool True]\<rparr>"
  have h: "RawGetH (newLTable 0 0) k = LNil" for k by (cases k) (simp_all add: newLTable_def opt_value_def)
  have "no_shadow ?t" by (simp add: no_shadow_def h)
  from insert_then_remove [OF this, of 1 LNil] show ?thesis by (auto simp: h insert_at_def)
qed

text \<open>A hash key one past the array part: key 66 is set first (too far for the array), then key 65.\<close>

definition tail_in_hash :: ltable where
  "tail_in_hash = table_of 0 0 [(numericKeyValue 66, LString ''x''), (numericKeyValue 65, LString ''y'')]"

lemma tail_in_hash_facts:
  "length (tarray tail_in_hash) = 65" "tarray tail_in_hash ! 64 = LString ''y''"
  "RawGetH tail_in_hash (numericKeyValue 66) = LString ''x''"
  "table_inv tail_in_hash" "no_shadow tail_in_hash"
proof -
  let ?a = "RawSet (newLTable 0 0) (numericKeyValue (int 66)) (LString ''x'')"
  have ai: "array_index (numericKeyValue (int 65)) = Some 65" "array_index (numericKeyValue (int 66)) = Some 66"
    by (rule array_index_numeric; simp)+
  have a: "?a = RawSetH (newLTable 0 0) (numericKeyValue (int 66)) (LString ''x'')"
    unfolding RawSet_array [OF ai(2)]
    by (simp add: RawSetInt_def shouldStoreArrayIndex_def MaxArrayHoleGrowth_def newLTable_def numericKeyValue_def)
  then have ta: "tarray ?a = []" by (simp add: newLTable_def)
  then have t: "tail_in_hash = setArrayValueAt ?a (int 65) (LString ''y'')"
    unfolding tail_in_hash_def table_of_def using RawSet_array [OF ai(1), of ?a]
    by (simp add: RawSetInt_def shouldStoreArrayIndex_def MaxArrayHoleGrowth_def MaxArrayIndex_def)
  note g = setArrayValueAt_grow [of ?a 65 "LString ''y''", folded t, unfolded ta]
  show "length (tarray tail_in_hash) = 65" "tarray tail_in_hash ! 64 = LString ''y''"
    using g(1,2) by simp_all
  have "\<not> (\<exists>j. 0 < j \<and> j \<le> 65 \<and> numericKeyValue 66 = numericKeyValue (int j))"
  proof
    assume "\<exists>j. 0 < j \<and> j \<le> 65 \<and> numericKeyValue 66 = numericKeyValue (int j)"
    then obtain j where j: "0 < j" "j \<le> 65" "numericKeyValue (int 66) = numericKeyValue (int j)" by auto
    then have "66 = j" using ai(2) array_index_numeric [of j] by simp
    with j show False by simp
  qed
  then show "RawGetH tail_in_hash (numericKeyValue 66) = LString ''x''"
    using g(3) [of "numericKeyValue 66"] a by simp
  show "table_inv tail_in_hash" "no_shadow tail_in_hash"
    unfolding tail_in_hash_def by (rule table_of_facts; simp add: numericKeyValue_def)+
qed

text \<open>The length is not always a border: the array part may end right before a key that lives in
  the hash part. Then the length is 65 while key 66 has a value, appending at the end overwrites
  that value, and inserting in the array part moves an element onto a key that the hash part still
  has, so that \<^verbatim>\<open>ForEach\<close> yields the key twice.
\<close>

theorem length_ignores_hash:
  "Len tail_in_hash = 65 \<and> RawGet tail_in_hash (numericKeyValue 66) = LString ''x'' \<and>
   RawGet (Append tail_in_hash v) (numericKeyValue 66) = (if v = LNil then LString ''x'' else v) \<and>
   (let tb = Insert tail_in_hash 1 v
    in (numericKeyValue 66, LString ''y'') \<in> set (ForEach tb) \<and> (numericKeyValue 66, LString ''x'') \<in> set (ForEach tb))"
proof (intro conjI)
  note f = tail_in_hash_facts
  let ?t = tail_in_hash
  have ai: "array_index (numericKeyValue 66) = Some 66" using array_index_numeric [of 66] by simp
  have ne: "tarray ?t \<noteq> []" using f(1) by auto
  have "last_nonempty (tarray ?t) 65 0 = (65, 1)"
    using f(2) last_nonempty.simps(2) [of "tarray ?t" 64 0] by simp
  then show "Len ?t = 65" using f(1) by (simp add: Len_def LenWithCost_def len_scan_last)
  show "RawGet ?t (numericKeyValue 66) = LString ''x''"
    using RawGet_live_hash [OF f(5), of "numericKeyValue 66"] f(3) by simp
  then show "RawGet (Append ?t v) (numericKeyValue 66) = (if v = LNil then LString ''x'' else v)"
    using f(1,2) ne setArrayValueAt_effect [of 66 ?t v "numericKeyValue 66"] by (simp add: Append_def)
  define arr where "arr = insert_at 0 v (tarray ?t)"
  have ins: "Insert ?t 1 v = RawSetH (?t\<lparr>tarray := arr\<rparr>) (numericKeyValue 1) LNil"
    using f(1) by (simp add: Insert_def InsertWithCost_def Let_def removeNumericHashKey_def arr_def insert_at_def)
  have len: "length arr = 66" "arr ! 65 = LString ''y''" using f(1,2) by (simp_all add: arr_def insert_at_def)
  have k: "numericKeyValue 66 \<noteq> numericKeyValue 1" using ai array_index_numeric [of 1] by auto
  have "65 \<in> set (filter (\<lambda>i. arr ! i \<noteq> LNil) [0..<length arr])" using len by simp
  then have "(numericKeyValue 66, LString ''y'') \<in> set (array_entries (Insert ?t 1 v) 0)"
    unfolding ins array_entries_def set_map by (intro image_eqI [of _ _ 65]) (use len in auto)
  moreover have "numericKeyValue 66 \<in> set (tkeys (Insert ?t 1 v))"
  proof -
    have "table_inv (Insert ?t 1 v)" unfolding Insert_def by (rule table_inv_InsertWithCost [OF f(4)])
    moreover have "RawGetH (Insert ?t 1 v) (numericKeyValue 66) \<noteq> LNil" using f(3) k by (simp add: ins)
    ultimately show ?thesis using table_invD(5) [of _ "numericKeyValue 66"] by (simp add: numericKeyValue_def)
  qed
  ultimately show "let tb = Insert ?t 1 v in (numericKeyValue 66, LString ''y'') \<in> set (ForEach tb) \<and>
      (numericKeyValue 66, LString ''x'') \<in> set (ForEach tb)"
    using f(3) k by (auto simp: ForEach_def hash_entries_def ins Let_def)
qed

end
