(* ===== verification/Tokens.thy ===== *)
theory Tokens
  imports GoStrings
begin

text \<open>
  The tokens of the TOL source language (\<^verbatim>\<open>tol/lexer/token.go\<close>): the token types, an integer
  enumeration as in the code, their printed names, the table of keywords and reserved words, and
  the multipliers of the denomination suffixes. The theorems: which printed names are spellings,
  and that the keyword table and the printed names agree except for the token types the code
  forgot to print.
\<close>

type_synonym token_type = nat

named_theorems token_types \<open>the numbers of the token types\<close>

definition TokenIllegal :: token_type where [token_types]: "TokenIllegal = 0"
definition TokenEOF :: token_type where [token_types]: "TokenEOF = 1"
definition TokenIdent :: token_type where [token_types]: "TokenIdent = 2"
definition TokenNumber :: token_type where [token_types]: "TokenNumber = 3"
definition TokenString :: token_type where [token_types]: "TokenString = 4"
definition TokenHexString :: token_type where [token_types]: "TokenHexString = 5"
definition TokenLParen :: token_type where [token_types]: "TokenLParen = 6"
definition TokenRParen :: token_type where [token_types]: "TokenRParen = 7"
definition TokenLBrace :: token_type where [token_types]: "TokenLBrace = 8"
definition TokenRBrace :: token_type where [token_types]: "TokenRBrace = 9"
definition TokenLBracket :: token_type where [token_types]: "TokenLBracket = 10"
definition TokenRBracket :: token_type where [token_types]: "TokenRBracket = 11"
definition TokenColon :: token_type where [token_types]: "TokenColon = 12"
definition TokenSemicolon :: token_type where [token_types]: "TokenSemicolon = 13"
definition TokenComma :: token_type where [token_types]: "TokenComma = 14"
definition TokenDot :: token_type where [token_types]: "TokenDot = 15"
definition TokenArrow :: token_type where [token_types]: "TokenArrow = 16"
definition TokenFatArrow :: token_type where [token_types]: "TokenFatArrow = 17"
definition TokenAssign :: token_type where [token_types]: "TokenAssign = 18"
definition TokenEq :: token_type where [token_types]: "TokenEq = 19"
definition TokenNe :: token_type where [token_types]: "TokenNe = 20"
definition TokenLT :: token_type where [token_types]: "TokenLT = 21"
definition TokenLE :: token_type where [token_types]: "TokenLE = 22"
definition TokenGT :: token_type where [token_types]: "TokenGT = 23"
definition TokenGE :: token_type where [token_types]: "TokenGE = 24"
definition TokenBang :: token_type where [token_types]: "TokenBang = 25"
definition TokenAndAnd :: token_type where [token_types]: "TokenAndAnd = 26"
definition TokenOrOr :: token_type where [token_types]: "TokenOrOr = 27"
definition TokenPlus :: token_type where [token_types]: "TokenPlus = 28"
definition TokenMinus :: token_type where [token_types]: "TokenMinus = 29"
definition TokenStar :: token_type where [token_types]: "TokenStar = 30"
definition TokenPow :: token_type where [token_types]: "TokenPow = 31"
definition TokenSlash :: token_type where [token_types]: "TokenSlash = 32"
definition TokenPercent :: token_type where [token_types]: "TokenPercent = 33"
definition TokenAt :: token_type where [token_types]: "TokenAt = 34"
definition TokenBitAnd :: token_type where [token_types]: "TokenBitAnd = 35"
definition TokenBitOr :: token_type where [token_types]: "TokenBitOr = 36"
definition TokenBitXor :: token_type where [token_types]: "TokenBitXor = 37"
definition TokenBitNot :: token_type where [token_types]: "TokenBitNot = 38"
definition TokenShl :: token_type where [token_types]: "TokenShl = 39"
definition TokenSar :: token_type where [token_types]: "TokenSar = 40"
definition TokenPlusAssign :: token_type where [token_types]: "TokenPlusAssign = 41"
definition TokenMinusAssign :: token_type where [token_types]: "TokenMinusAssign = 42"
definition TokenMulAssign :: token_type where [token_types]: "TokenMulAssign = 43"
definition TokenDivAssign :: token_type where [token_types]: "TokenDivAssign = 44"
definition TokenModAssign :: token_type where [token_types]: "TokenModAssign = 45"
definition TokenAndAssign :: token_type where [token_types]: "TokenAndAssign = 46"
definition TokenOrAssign :: token_type where [token_types]: "TokenOrAssign = 47"
definition TokenXorAssign :: token_type where [token_types]: "TokenXorAssign = 48"
definition TokenShlAssign :: token_type where [token_types]: "TokenShlAssign = 49"
definition TokenSarAssign :: token_type where [token_types]: "TokenSarAssign = 50"
definition TokenPlusPlus :: token_type where [token_types]: "TokenPlusPlus = 51"
definition TokenMinusMinus :: token_type where [token_types]: "TokenMinusMinus = 52"
definition TokenKwImport :: token_type where [token_types]: "TokenKwImport = 53"
definition TokenKwContract :: token_type where [token_types]: "TokenKwContract = 54"
definition TokenKwInterface :: token_type where [token_types]: "TokenKwInterface = 55"
definition TokenKwLibrary :: token_type where [token_types]: "TokenKwLibrary = 56"
definition TokenKwImmutable :: token_type where [token_types]: "TokenKwImmutable = 57"
definition TokenKwEvent :: token_type where [token_types]: "TokenKwEvent = 58"
definition TokenKwFunction :: token_type where [token_types]: "TokenKwFunction = 59"
definition TokenKwReturns :: token_type where [token_types]: "TokenKwReturns = 60"
definition TokenKwMapping :: token_type where [token_types]: "TokenKwMapping = 61"
definition TokenKwType :: token_type where [token_types]: "TokenKwType = 62"
definition TokenKwAs :: token_type where [token_types]: "TokenKwAs = 63"
definition TokenKwPragma :: token_type where [token_types]: "TokenKwPragma = 64"
definition TokenKwPackage :: token_type where [token_types]: "TokenKwPackage = 65"
definition TokenKwTransient :: token_type where [token_types]: "TokenKwTransient = 66"
definition TokenKwStruct :: token_type where [token_types]: "TokenKwStruct = 67"
definition TokenReserved :: token_type where [token_types]: "TokenReserved = 68"
definition TokenKwConstructor :: token_type where [token_types]: "TokenKwConstructor = 69"
definition TokenKwFallback :: token_type where [token_types]: "TokenKwFallback = 70"
definition TokenKwError :: token_type where [token_types]: "TokenKwError = 71"
definition TokenKwEnum :: token_type where [token_types]: "TokenKwEnum = 72"
definition TokenKwModifier :: token_type where [token_types]: "TokenKwModifier = 73"
definition TokenKwLet :: token_type where [token_types]: "TokenKwLet = 74"
definition TokenKwSet :: token_type where [token_types]: "TokenKwSet = 75"
definition TokenKwIf :: token_type where [token_types]: "TokenKwIf = 76"
definition TokenKwElse :: token_type where [token_types]: "TokenKwElse = 77"
definition TokenKwDo :: token_type where [token_types]: "TokenKwDo = 78"
definition TokenKwWhile :: token_type where [token_types]: "TokenKwWhile = 79"
definition TokenKwFor :: token_type where [token_types]: "TokenKwFor = 80"
definition TokenKwBreak :: token_type where [token_types]: "TokenKwBreak = 81"
definition TokenKwContinue :: token_type where [token_types]: "TokenKwContinue = 82"
definition TokenKwReturn :: token_type where [token_types]: "TokenKwReturn = 83"
definition TokenKwRequire :: token_type where [token_types]: "TokenKwRequire = 84"
definition TokenKwAssert :: token_type where [token_types]: "TokenKwAssert = 85"
definition TokenKwRevert :: token_type where [token_types]: "TokenKwRevert = 86"
definition TokenKwEmit :: token_type where [token_types]: "TokenKwEmit = 87"
definition TokenKwTest :: token_type where [token_types]: "TokenKwTest = 88"
definition TokenKwConstant :: token_type where [token_types]: "TokenKwConstant = 89"
definition TokenQuestion :: token_type where [token_types]: "TokenQuestion = 90"
definition TokenDocComment :: token_type where [token_types]: "TokenDocComment = 91"
definition TokenSubDenom :: token_type where [token_types]: "TokenSubDenom = 92"
definition TokenShr :: token_type where [token_types]: "TokenShr = 93"
definition TokenShrAssign :: token_type where [token_types]: "TokenShrAssign = 94"
definition TokenKwTry :: token_type where [token_types]: "TokenKwTry = 95"
definition TokenKwCatch :: token_type where [token_types]: "TokenKwCatch = 96"
definition TokenKwAbstract :: token_type where [token_types]: "TokenKwAbstract = 97"
definition TokenKwAnonymous :: token_type where [token_types]: "TokenKwAnonymous = 98"
definition TokenKwAgent :: token_type where [token_types]: "TokenKwAgent = 99"
definition TokenKwBool :: token_type where [token_types]: "TokenKwBool = 100"
definition TokenKwCalldata :: token_type where [token_types]: "TokenKwCalldata = 101"
definition TokenKwDelete :: token_type where [token_types]: "TokenKwDelete = 102"
definition TokenKwExternal :: token_type where [token_types]: "TokenKwExternal = 103"
definition TokenKwFalse :: token_type where [token_types]: "TokenKwFalse = 104"
definition TokenKwGlobal :: token_type where [token_types]: "TokenKwGlobal = 105"
definition TokenKwIndexed :: token_type where [token_types]: "TokenKwIndexed = 106"
definition TokenKwInternal :: token_type where [token_types]: "TokenKwInternal = 107"
definition TokenKwIs :: token_type where [token_types]: "TokenKwIs = 108"
definition TokenKwMemory :: token_type where [token_types]: "TokenKwMemory = 109"
definition TokenKwNew :: token_type where [token_types]: "TokenKwNew = 110"
definition TokenKwDeploy :: token_type where [token_types]: "TokenKwDeploy = 111"
definition TokenKwOverride :: token_type where [token_types]: "TokenKwOverride = 112"
definition TokenKwPayable :: token_type where [token_types]: "TokenKwPayable = 113"
definition TokenKwPrivate :: token_type where [token_types]: "TokenKwPrivate = 114"
definition TokenKwPublic :: token_type where [token_types]: "TokenKwPublic = 115"
definition TokenKwPure :: token_type where [token_types]: "TokenKwPure = 116"
definition TokenKwReceive :: token_type where [token_types]: "TokenKwReceive = 117"
definition TokenKwStorage :: token_type where [token_types]: "TokenKwStorage = 118"
definition TokenKwString :: token_type where [token_types]: "TokenKwString = 119"
definition TokenKwTrue :: token_type where [token_types]: "TokenKwTrue = 120"
definition TokenKwUnchecked :: token_type where [token_types]: "TokenKwUnchecked = 121"
definition TokenKwUno :: token_type where [token_types]: "TokenKwUno = 122"
definition TokenKwUsing :: token_type where [token_types]: "TokenKwUsing = 123"
definition TokenKwView :: token_type where [token_types]: "TokenKwView = 124"
definition TokenKwVirtual :: token_type where [token_types]: "TokenKwVirtual = 125"
definition TokenUnicodeString :: token_type where [token_types]: "TokenUnicodeString = 126"

text \<open>The cases of \<^verbatim>\<open>Type.String\<close>; any other type prints as \<^verbatim>\<open>UNKNOWN\<close>.\<close>

definition symbol_names :: "(token_type \<times> string) list" where
  "symbol_names =
    [(TokenIllegal, ''ILLEGAL''), (TokenEOF, ''EOF''), (TokenIdent, ''IDENT''),
     (TokenNumber, ''NUMBER''), (TokenString, ''STRING''), (TokenHexString, ''HEX_STRING''),
     (TokenLParen, ''(''), (TokenRParen, '')''), (TokenLBrace, ''{''), (TokenRBrace, ''}''),
     (TokenLBracket, ''[''), (TokenRBracket, '']''), (TokenColon, '':''), (TokenSemicolon, '';''),
     (TokenComma, '',''), (TokenDot, ''.''), (TokenArrow, ''->''), (TokenFatArrow, ''=>''),
     (TokenAssign, ''=''), (TokenEq, ''==''), (TokenNe, ''!=''), (TokenLT, ''<''), (TokenLE, ''<=''),
     (TokenGT, ''>''), (TokenGE, ''>=''), (TokenBang, ''!''), (TokenAndAnd, ''&&''),
     (TokenOrOr, ''||''), (TokenPlus, ''+''), (TokenMinus, ''-''), (TokenStar, ''*''),
     (TokenPow, ''**''), (TokenSlash, ''/''), (TokenPercent, ''%''), (TokenAt, ''@''),
     (TokenBitAnd, ''&''), (TokenBitOr, ''|''), (TokenBitXor, ''^''), (TokenBitNot, ''~''),
     (TokenShl, ''<<''), (TokenSar, ''>>''), (TokenShr, ''>>>''), (TokenPlusAssign, ''+=''),
     (TokenMinusAssign, ''-=''), (TokenMulAssign, ''*=''), (TokenDivAssign, ''/=''),
     (TokenModAssign, ''%=''), (TokenAndAssign, ''&=''), (TokenOrAssign, ''|=''),
     (TokenXorAssign, ''^=''), (TokenShlAssign, ''<<=''), (TokenSarAssign, ''>>=''),
     (TokenShrAssign, ''>>>=''), (TokenPlusPlus, ''++''), (TokenMinusMinus, ''--'')]"

definition word_names :: "(token_type \<times> string) list" where
  "word_names =
    [(TokenKwImport, ''import''), (TokenKwContract, ''contract''), (TokenKwInterface, ''interface''),
     (TokenKwLibrary, ''library''), (TokenKwImmutable, ''immutable''), (TokenKwEvent, ''event''),
     (TokenKwFunction, ''function''), (TokenKwReturns, ''returns''), (TokenKwMapping, ''mapping''),
     (TokenKwType, ''type''), (TokenKwAs, ''as''), (TokenKwPragma, ''pragma''),
     (TokenKwPackage, ''package''), (TokenKwTransient, ''transient''), (TokenKwStruct, ''struct''),
     (TokenReserved, ''RESERVED''), (TokenKwConstructor, ''constructor''),
     (TokenKwFallback, ''fallback''), (TokenKwError, ''error''), (TokenKwEnum, ''enum''),
     (TokenKwModifier, ''modifier''), (TokenKwTest, ''test''), (TokenKwConstant, ''constant''),
     (TokenQuestion, ''?''), (TokenDocComment, ''DOC_COMMENT''), (TokenSubDenom, ''SUBDENOM''),
     (TokenKwTry, ''try''), (TokenKwCatch, ''catch''), (TokenKwAbstract, ''abstract''),
     (TokenKwAnonymous, ''anonymous''), (TokenKwAgent, ''agent''), (TokenKwBool, ''bool''),
     (TokenKwCalldata, ''calldata''), (TokenKwDelete, ''delete''), (TokenKwExternal, ''external''),
     (TokenKwFalse, ''false''), (TokenKwGlobal, ''global''), (TokenKwIndexed, ''indexed''),
     (TokenKwInternal, ''internal''), (TokenKwIs, ''is''), (TokenKwMemory, ''memory''),
     (TokenKwNew, ''new''), (TokenKwDeploy, ''deploy''), (TokenKwOverride, ''override''),
     (TokenKwPayable, ''payable''), (TokenKwPrivate, ''private''), (TokenKwPublic, ''public''),
     (TokenKwPure, ''pure''), (TokenKwReceive, ''receive''), (TokenKwStorage, ''storage''),
     (TokenKwString, ''string''), (TokenKwTrue, ''true''), (TokenKwUnchecked, ''unchecked''),
     (TokenKwUno, ''uno''), (TokenKwUsing, ''using''), (TokenKwView, ''view''),
     (TokenKwVirtual, ''virtual''), (TokenUnicodeString, ''UNICODE_STRING'')]"

definition Type_String :: "token_type \<Rightarrow> string" where
  "Type_String t = switch_on ''UNKNOWN'' (symbol_names @ word_names) t"

record Position =
  Offset :: int
  Line :: int
  Column :: int

record Token =
  Type :: token_type
  Literal :: string
  Start :: Position
  End :: Position

definition sub_denominations :: "(string \<times> string) list" where
  "sub_denominations =
    [(''tomi'', ''1''), (''gtomi'', ''1000000000''), (''tos'', ''1000000000000000000''),
     (''seconds'', ''1''), (''minutes'', ''60''), (''hours'', ''3600''), (''days'', ''86400''),
     (''weeks'', ''604800''), (''years'', ''31536000'')]"

definition SubDenomMultiplier :: "string \<Rightarrow> string" where
  "SubDenomMultiplier lit = switch_on [] sub_denominations lit"

text \<open>The cases of \<^verbatim>\<open>keywordType\<close>, in order.\<close>

definition keyword_table :: "(string \<times> token_type) list" where
  "keyword_table =
    [(''import'', TokenKwImport), (''contract'', TokenKwContract), (''interface'', TokenKwInterface),
     (''library'', TokenKwLibrary), (''immutable'', TokenKwImmutable), (''event'', TokenKwEvent),
     (''function'', TokenKwFunction), (''returns'', TokenKwReturns), (''mapping'', TokenKwMapping),
     (''type'', TokenKwType), (''as'', TokenKwAs), (''pragma'', TokenKwPragma),
     (''package'', TokenKwPackage), (''transient'', TokenKwTransient), (''struct'', TokenKwStruct),
     (''constructor'', TokenKwConstructor), (''fallback'', TokenKwFallback), (''error'', TokenKwError),
     (''enum'', TokenKwEnum), (''modifier'', TokenKwModifier), (''test'', TokenKwTest),
     (''constant'', TokenKwConstant), (''let'', TokenKwLet), (''set'', TokenKwSet), (''if'', TokenKwIf),
     (''else'', TokenKwElse), (''do'', TokenKwDo), (''while'', TokenKwWhile), (''for'', TokenKwFor),
     (''break'', TokenKwBreak), (''continue'', TokenKwContinue), (''return'', TokenKwReturn),
     (''require'', TokenKwRequire), (''assert'', TokenKwAssert), (''revert'', TokenKwRevert),
     (''emit'', TokenKwEmit), (''tomi'', TokenSubDenom), (''gtomi'', TokenSubDenom),
     (''seconds'', TokenSubDenom), (''minutes'', TokenSubDenom), (''hours'', TokenSubDenom),
     (''days'', TokenSubDenom), (''weeks'', TokenSubDenom), (''years'', TokenSubDenom),
     (''try'', TokenKwTry), (''catch'', TokenKwCatch), (''abstract'', TokenKwAbstract),
     (''anonymous'', TokenKwAnonymous), (''bool'', TokenKwBool), (''calldata'', TokenKwCalldata),
     (''delete'', TokenKwDelete), (''external'', TokenKwExternal), (''false'', TokenKwFalse),
     (''global'', TokenKwGlobal), (''indexed'', TokenKwIndexed), (''internal'', TokenKwInternal),
     (''is'', TokenKwIs), (''memory'', TokenKwMemory), (''new'', TokenKwNew),
     (''deploy'', TokenKwDeploy), (''override'', TokenKwOverride), (''payable'', TokenKwPayable),
     (''private'', TokenKwPrivate), (''public'', TokenKwPublic), (''pure'', TokenKwPure),
     (''receive'', TokenKwReceive), (''storage'', TokenKwStorage), (''string'', TokenKwString),
     (''true'', TokenKwTrue), (''unchecked'', TokenKwUnchecked), (''uno'', TokenKwUno),
     (''using'', TokenKwUsing), (''view'', TokenKwView), (''virtual'', TokenKwVirtual),
     (''byte'', TokenReserved), (''case'', TokenReserved), (''default'', TokenReserved),
     (''final'', TokenReserved), (''implements'', TokenReserved), (''in'', TokenReserved),
     (''match'', TokenReserved), (''null'', TokenReserved), (''sizeof'', TokenReserved),
     (''static'', TokenReserved), (''switch'', TokenReserved), (''typedef'', TokenReserved),
     (''typeof'', TokenReserved), (''var'', TokenReserved), (''async'', TokenReserved),
     (''await'', TokenReserved), (''spawn'', TokenReserved), (''intent'', TokenReserved),
     (''attest'', TokenReserved), (''stream'', TokenReserved)]"

definition keywordType :: "string \<Rightarrow> token_type" where
  "keywordType lit = switch_on TokenIdent keyword_table lit"

section \<open>Keywords and printed names\<close>

text \<open>The keywords whose token types the code does not print.\<close>

definition unprinted :: "string list" where
  "unprinted =
     [''let'', ''set'', ''if'', ''else'', ''do'', ''while'', ''for'', ''break'', ''continue'', ''return'',
      ''require'', ''assert'', ''revert'', ''emit'']"

text \<open>Tables are compared by their pairs; the numbers of the types matter only for distinctness.\<close>

lemma names_distinct: "distinct (map fst (symbol_names @ word_names))"
proof -
  have "map fst (symbol_names @ word_names) = map fst symbol_names @ map fst word_names" by simp
  also have "distinct \<dots>" unfolding symbol_names_def word_names_def list.map fst_conv
    by (simp add: token_types)
  finally show ?thesis .
qed

lemma Type_String_word: "(t, w) \<in> set word_names \<Longrightarrow> Type_String t = w"
  unfolding Type_String_def by (rule switch_on_distinct [OF names_distinct]) simp

lemma keyword_names_listed:
  "\<forall>(w, t) \<in> set keyword_table. t = TokenReserved \<or> t = TokenSubDenom \<or> w \<in> set unprinted \<or> (t, w) \<in> set word_names"
  unfolding keyword_table_def word_names_def unprinted_def by simp

lemma unprinted_types:
  "\<forall>(w, t) \<in> set keyword_table. w \<in> set unprinted \<longrightarrow> t \<notin> fst ` set (symbol_names @ word_names)"
proof -
  have u: "\<forall>(w, t) \<in> set keyword_table. w \<in> set unprinted \<longrightarrow> TokenKwLet \<le> t \<and> t \<le> TokenKwEmit"
    unfolding keyword_table_def unprinted_def by (simp add: token_types)
  have "list_all (\<lambda>t. t < TokenKwLet \<or> TokenKwEmit < t) (map fst symbol_names @ map fst word_names)"
    unfolding symbol_names_def word_names_def list.map fst_conv by (simp add: token_types)
  then have n: "\<forall>t \<in> fst ` set (symbol_names @ word_names). t < TokenKwLet \<or> TokenKwEmit < t"
    by (simp add: list_all_iff image_Un)
  have "t \<notin> fst ` set (symbol_names @ word_names)" if "(w, t) \<in> set keyword_table" "w \<in> set unprinted" for w t
  proof
    assume "t \<in> fst ` set (symbol_names @ word_names)"
    with n have "t < TokenKwLet \<or> TokenKwEmit < t" by blast
    moreover have "TokenKwLet \<le> t \<and> t \<le> TokenKwEmit" using u that by blast
    ultimately show False by simp
  qed
  then show ?thesis by blast
qed

lemma switch_on_default: "x \<notin> fst ` set kvs \<Longrightarrow> switch_on d kvs x = d"
  by (induction d kvs x rule: switch_on.induct) auto

text \<open>The keyword table against the printed names. No word is listed twice, so each listed word
  has its listed type; a keyword's token type prints as the keyword itself, except for fourteen
  keywords, \<^verbatim>\<open>let\<close> to \<^verbatim>\<open>emit\<close>, whose types print as \<^verbatim>\<open>UNKNOWN\<close>; and the denomination suffixes are
  the words that have a multiplier, without \<^verbatim>\<open>tos\<close>, which is lexed as an identifier.
\<close>

theorem keyword_names:
  "(\<forall>(w, t) \<in> set keyword_table. keywordType w = t \<and>
      (t = TokenReserved \<or> t = TokenSubDenom \<or>
       Type_String t = (if w \<in> set unprinted then ''UNKNOWN'' else w))) \<and>
   (\<forall>lit. keywordType lit = TokenSubDenom \<longleftrightarrow> SubDenomMultiplier lit \<noteq> [] \<and> lit \<noteq> ''tos'')"
proof (intro conjI)
  have d: "distinct (map fst keyword_table)" by (simp add: keyword_table_def)
  have k: "keywordType w = t" if "(w, t) \<in> set keyword_table" for w t
    unfolding keywordType_def by (rule switch_on_distinct [OF d that])
  have "Type_String t = (if w \<in> set unprinted then ''UNKNOWN'' else w)"
    if "(w, t) \<in> set keyword_table" "t \<noteq> TokenReserved" "t \<noteq> TokenSubDenom" for w t
  proof (cases "w \<in> set unprinted")
    case True
    then have "t \<notin> fst ` set (symbol_names @ word_names)" using that(1) unprinted_types by blast
    from switch_on_default [OF this] True show ?thesis by (simp only: Type_String_def if_True)
  next
    case False
    then have "(t, w) \<in> set word_names" using that keyword_names_listed by blast
    then show ?thesis using False Type_String_word by simp
  qed
  with k show "\<forall>(w, t) \<in> set keyword_table. keywordType w = t \<and>
      (t = TokenReserved \<or> t = TokenSubDenom \<or>
       Type_String t = (if w \<in> set unprinted then ''UNKNOWN'' else w))" by blast
  have s: "keywordType lit = TokenSubDenom \<longleftrightarrow> (lit, TokenSubDenom) \<in> set keyword_table" for lit
  proof
    assume a: "keywordType lit = TokenSubDenom"
    then show "(lit, TokenSubDenom) \<in> set keyword_table"
      using switch_on_range [of TokenIdent keyword_table lit] by (simp add: keywordType_def token_types)
  qed (rule k)
  have "(lit, TokenSubDenom) \<in> set keyword_table \<longleftrightarrow>
      lit \<in> {''tomi'', ''gtomi'', ''seconds'', ''minutes'', ''hours'', ''days'', ''weeks'', ''years''}" for lit
    by (auto simp: keyword_table_def token_types)
  moreover have "SubDenomMultiplier lit \<noteq> [] \<longleftrightarrow> lit \<in> {''tomi'', ''gtomi'', ''tos'', ''seconds'', ''minutes'',
      ''hours'', ''days'', ''weeks'', ''years''}" for lit
    by (simp add: SubDenomMultiplier_def sub_denominations_def)
  ultimately show "\<forall>lit. keywordType lit = TokenSubDenom \<longleftrightarrow> SubDenomMultiplier lit \<noteq> [] \<and> lit \<noteq> ''tos''"
    unfolding s by auto
qed

lemma keyword_names_witness: "keywordType ''days'' = TokenSubDenom"
proof -
  have "SubDenomMultiplier ''days'' \<noteq> []" by (simp add: SubDenomMultiplier_def sub_denominations_def)
  with keyword_names show ?thesis by blast
qed

end
