(* ===== verification/Lexer.thy ===== *)
theory Lexer
  imports Tokens
begin

text \<open>
  The TOL lexer (\<^verbatim>\<open>tol/lexer/lexer.go\<close>). The state is the source with a byte index and the
  line and column counters; every operation moves it by \<open>advance\<close> only. A read past the end
  of the source is a panic of the model. Loops are recursive functions that consume the source.
\<close>

record lexer =
  lsrc :: string
  lidx :: nat
  lline :: int
  lcol :: int

definition New :: "string \<Rightarrow> lexer" where
  "New s = \<lparr>lsrc = s, lidx = 0, lline = 1, lcol = 1\<rparr>"

section \<open>Characters\<close>

abbreviation newline :: char where "newline \<equiv> CHR 0x0A"
abbreviation backslash :: char where "backslash \<equiv> CHR 0x5C"
abbreviation double_quote :: char where "double_quote \<equiv> CHR 0x22"
abbreviation single_quote :: char where "single_quote \<equiv> CHR 0x27"

definition isSpace :: "char \<Rightarrow> bool" where
  "isSpace ch \<longleftrightarrow> ch = CHR '' '' \<or> ch = CHR 0x09 \<or> ch = newline \<or> ch = CHR 0x0D"

definition isDigit :: "char \<Rightarrow> bool" where
  "isDigit ch \<longleftrightarrow> char_between (CHR ''0'') (CHR ''9'') ch"

definition isHexDigit :: "char \<Rightarrow> bool" where
  "isHexDigit ch \<longleftrightarrow> char_between (CHR ''0'') (CHR ''9'') ch \<or> char_between (CHR ''a'') (CHR ''f'') ch \<or>
     char_between (CHR ''A'') (CHR ''F'') ch"

definition isIdentStart :: "char \<Rightarrow> bool" where
  "isIdentStart ch \<longleftrightarrow> char_between (CHR ''a'') (CHR ''z'') ch \<or> char_between (CHR ''A'') (CHR ''Z'') ch \<or>
     ch = CHR ''_'' \<or> ch = CHR ''$''"

definition isIdentPart :: "char \<Rightarrow> bool" where
  "isIdentPart ch \<longleftrightarrow> isIdentStart ch \<or> isDigit ch"

definition hexVal :: "char \<Rightarrow> int" where
  "hexVal ch =
     (if char_between (CHR ''0'') (CHR ''9'') ch then of_char ch - 48
      else if char_between (CHR ''a'') (CHR ''f'') ch then of_char ch - 97 + 10
      else if char_between (CHR ''A'') (CHR ''F'') ch then of_char ch - 65 + 10
      else -1)"

section \<open>Reading the source\<close>

definition eof :: "lexer \<Rightarrow> bool" where
  "eof l \<longleftrightarrow> lidx l \<ge> length (lsrc l)"

definition peek :: "lexer \<Rightarrow> go_panic + char" where
  "peek l = (if lidx l < length (lsrc l) then Inr (lsrc l ! lidx l) else Inl PIndexOutOfRange)"

text \<open>\<^verbatim>\<open>peek\<close> behind a check of \<^verbatim>\<open>eof\<close>.\<close>

definition cur :: "lexer \<Rightarrow> char option" where
  "cur l = (if eof l then None else Some (lsrc l ! lidx l))"

definition peekN :: "lexer \<Rightarrow> nat \<Rightarrow> char" where
  "peekN l n = (if lidx l + n \<ge> length (lsrc l) then CHR 0x00 else lsrc l ! (lidx l + n))"

definition advance :: "lexer \<Rightarrow> lexer" where
  "advance l =
     (if eof l then l
      else if lsrc l ! lidx l = newline then l\<lparr>lidx := lidx l + 1, lline := lline l + 1, lcol := 1\<rparr>
      else l\<lparr>lidx := lidx l + 1, lcol := lcol l + 1\<rparr>)"

definition pos :: "lexer \<Rightarrow> Position" where
  "pos l = \<lparr>Offset = int (lidx l), Line = lline l, Column = lcol l\<rparr>"

definition lastPos :: "lexer \<Rightarrow> Position" where
  "lastPos l =
     (if lcol l \<le> 1 then \<lparr>Offset = int (lidx l), Line = lline l - 1, Column = 1\<rparr>
      else \<lparr>Offset = int (lidx l), Line = lline l, Column = lcol l - 1\<rparr>)"

text \<open>\<^verbatim>\<open>l.src[a:b]\<close>\<close>

definition slice :: "string \<Rightarrow> nat \<Rightarrow> nat \<Rightarrow> string" where
  "slice s a b = take (b - a) (drop a s)"

section \<open>Loops over the source\<close>

text \<open>
  Each loop below runs while the source lasts, so what is left of the source bounds it.
\<close>

definition left :: "lexer \<Rightarrow> nat" where
  "left l = length (lsrc l) - lidx l"

lemma left_advance [simp]: "left (advance l) = left l - 1"
  by (auto simp: left_def advance_def eof_def)

lemma left_cur: "cur l = Some ch \<Longrightarrow> 0 < left l"
  by (auto simp: cur_def eof_def left_def split: if_splits)

lemma left_advance_cur: "cur l = Some ch \<Longrightarrow> left (advance l) < left l"
  using left_cur [of l ch] by simp

text \<open>\<^verbatim>\<open>for !l.eof() && P(l.peek()) { l.advance() }\<close>\<close>

function skip_while :: "(char \<Rightarrow> bool) \<Rightarrow> lexer \<Rightarrow> lexer" where
  "skip_while P l =
     (case cur l of
        None \<Rightarrow> l
      | Some ch \<Rightarrow> if P ch then skip_while P (advance l) else l)"
  by pat_completeness auto
termination by (relation "measure (left \<circ> snd)") (auto dest: left_advance_cur)

text \<open>The body of a block comment, up to and with its end.\<close>

function skip_block :: "lexer \<Rightarrow> lexer" where
  "skip_block l =
     (case cur l of
        None \<Rightarrow> l
      | Some ch \<Rightarrow>
          if ch = CHR ''*'' \<and> peekN l 1 = CHR ''/'' then advance (advance l) else skip_block (advance l))"
  by pat_completeness auto
termination by (relation "measure left") (auto dest: left_advance_cur)

text \<open>Digits with underscores between them, the underscores dropped.\<close>

function read_separated :: "(char \<Rightarrow> bool) \<Rightarrow> lexer \<Rightarrow> string \<Rightarrow> string \<times> lexer" where
  "read_separated P l buf =
     (case cur l of
        None \<Rightarrow> (buf, l)
      | Some ch \<Rightarrow>
          if P ch \<or> ch = CHR ''_''
          then read_separated P (advance l) (if ch \<noteq> CHR ''_'' then buf @ [ch] else buf)
          else (buf, l))"
  by pat_completeness auto
termination by (relation "measure (\<lambda>(P, l, buf). left l)") (auto dest: left_advance_cur)

declare skip_while.simps [simp del] skip_block.simps [simp del] read_separated.simps [simp del]

lemma left_skip_while: "left (skip_while P l) \<le> left l"
proof (induction P l rule: skip_while.induct)
  case (1 P l)
  show ?case
  proof (cases "cur l")
    case (Some ch)
    with 1 show ?thesis
      by (subst skip_while.simps) (auto intro: le_trans)
  qed (subst skip_while.simps, simp)
qed

lemma left_skip_block: "left (skip_block l) \<le> left l"
proof (induction l rule: skip_block.induct)
  case (1 l)
  show ?case
  proof (cases "cur l")
    case (Some ch)
    with 1 show ?thesis
      by (subst skip_block.simps) (auto intro: le_trans)
  qed (subst skip_block.simps, simp)
qed

lemma skip_while_Some: "cur l = Some ch \<Longrightarrow> P ch \<Longrightarrow> skip_while P l = skip_while P (advance l)"
  by (subst skip_while.simps) simp

lemma left_skip_while_less:
  assumes "cur l = Some ch" "P ch" shows "left (skip_while P l) < left l"
  using left_skip_while [of P "advance l"] left_advance_cur [OF assms(1)]
  by (simp add: skip_while_Some [where P = P, OF assms])

section \<open>White space and comments\<close>

function skipSpaceAndOrdinaryComments :: "lexer \<Rightarrow> lexer" where
  "skipSpaceAndOrdinaryComments l =
     (case cur l of
        None \<Rightarrow> l
      | Some ch \<Rightarrow>
          if isSpace ch then skipSpaceAndOrdinaryComments (advance l)
          else if ch = CHR ''/'' \<and> peekN l 1 = CHR ''/'' \<and> peekN l 2 \<noteq> CHR ''/''
          then skipSpaceAndOrdinaryComments (skip_while (\<lambda>c. c \<noteq> newline) l)
          else if ch = CHR ''/'' \<and> peekN l 1 = CHR ''*'' \<and> peekN l 2 \<noteq> CHR ''*''
          then skipSpaceAndOrdinaryComments (skip_block (advance (advance l)))
          else l)"
  by pat_completeness auto
termination
proof (relation "measure left", goal_cases)
  case 1
  show ?case by simp
next
  case (2 l ch)
  then show ?case using left_advance_cur [of l ch] by simp
next
  case (3 l ch)
  then show ?case using left_skip_while_less [of l ch "\<lambda>c. c \<noteq> newline"] by simp
next
  case (4 l ch)
  then show ?case using left_skip_block [of "advance (advance l)"] left_cur [of l ch] by simp
qed

declare skipSpaceAndOrdinaryComments.simps [simp del]

text \<open>Consecutive lines of a \<^verbatim>\<open>///\<close> comment; \<open>blanks\<close> is the look-ahead over horizontal space.\<close>

definition blanks :: "string \<Rightarrow> nat \<Rightarrow> nat" where
  "blanks s i = i + length (takeWhile (\<lambda>c. c = CHR '' '' \<or> c = CHR 0x09) (drop i s))"

definition consume_newline :: "lexer \<Rightarrow> string \<Rightarrow> string \<times> lexer" where
  "consume_newline l buf =
     (case cur l of
        None \<Rightarrow> (buf, l)
      | Some ch \<Rightarrow> if ch = newline then (buf @ [newline], advance l) else (buf, l))"

definition next_line_is_doc :: "lexer \<Rightarrow> bool" where
  "next_line_is_doc l =
     (let i = blanks (lsrc l) (lidx l)
      in i + 2 < length (lsrc l) \<and> lsrc l ! i = CHR ''/'' \<and> lsrc l ! (i + 1) = CHR ''/'' \<and>
         lsrc l ! (i + 2) = CHR ''/'')"

lemma left_funpow_advance: "left ((advance ^^ n) l) = left l - n"
  by (induction n) auto

lemma cur_skip_while: "cur (skip_while P l) = Some ch \<Longrightarrow> \<not> P ch"
proof (induction P l rule: skip_while.induct)
  case (1 P l)
  show ?case
  proof (cases "cur l")
    case None
    with "1.prems" show ?thesis by (subst (asm) skip_while.simps) simp
  next
    case (Some c)
    with 1 show ?thesis by (subst (asm) skip_while.simps) (auto split: if_splits)
  qed
qed

lemma left_consume_newline:
  assumes "consume_newline (skip_while (\<lambda>c. c \<noteq> newline) l) buf = (buf', l')" "0 < left l'"
  shows "left l' < left l"
proof -
  let ?l = "skip_while (\<lambda>c. c \<noteq> newline) l"
  have "left ?l \<le> left l" by (rule left_skip_while)
  moreover have "cur ?l = Some ch \<Longrightarrow> ch = newline" for ch using cur_skip_while [of _ l ch] by blast
  moreover have "cur ?l = None \<Longrightarrow> left ?l = 0" by (auto simp: cur_def eof_def left_def split: if_splits)
  ultimately show ?thesis
    using assms left_cur [of ?l] by (auto simp: consume_newline_def split: option.splits)
qed

function read_doc_lines :: "lexer \<Rightarrow> string \<Rightarrow> string \<times> lexer" where
  "read_doc_lines l buf =
     (let l1 = skip_while (\<lambda>c. c \<noteq> newline) l;
          (buf, l2) = consume_newline l1 (buf @ slice (lsrc l) (lidx l) (lidx l1))
      in if next_line_is_doc l2
         then read_doc_lines ((advance ^^ (blanks (lsrc l2) (lidx l2) - lidx l2)) l2) buf
         else (buf, l2))"
  by pat_completeness auto
termination
proof (relation "measure (left \<circ> fst)", goal_cases)
  case 1
  show ?case by simp
next
  case (2 l buf l1 p buf' l2)
  then have "0 < left l2"
    by (auto simp: next_line_is_doc_def left_def Let_def blanks_def)
  with 2 left_consume_newline [of l _ buf' l2] have "left l2 < left l" by simp
  then show ?case by (simp add: left_funpow_advance)
qed

declare read_doc_lines.simps [simp del]

definition mk_token :: "token_type \<Rightarrow> string \<Rightarrow> Position \<Rightarrow> lexer \<Rightarrow> Token \<times> lexer" where
  "mk_token ty lit start l = (\<lparr>Type = ty, Literal = lit, Start = start, End = lastPos l\<rparr>, l)"

definition readTripleSlashDoc :: "Position \<Rightarrow> lexer \<Rightarrow> Token \<times> lexer" where
  "readTripleSlashDoc start l =
     (let (buf, l) = read_doc_lines l [] in mk_token TokenDocComment buf start l)"

definition readBlockDoc :: "Position \<Rightarrow> lexer \<Rightarrow> Token \<times> lexer" where
  "readBlockDoc start l =
     (let l' = skip_block (advance (advance l))
      in mk_token TokenDocComment (slice (lsrc l) (lidx l) (lidx l')) start l')"

section \<open>Words and numbers\<close>

definition readIdent :: "lexer \<Rightarrow> string \<times> lexer" where
  "readIdent l = (let l' = skip_while isIdentPart l in (slice (lsrc l) (lidx l) (lidx l'), l'))"

function readDecimal :: "lexer \<Rightarrow> string \<Rightarrow> bool \<Rightarrow> string \<times> lexer" where
  "readDecimal l buf hasDot =
     (case cur l of
        None \<Rightarrow> (buf, l)
      | Some ch \<Rightarrow>
          if isDigit ch then readDecimal (advance l) (buf @ [ch]) hasDot
          else if ch = CHR ''_'' \<and> \<not> hasDot then readDecimal (advance l) buf hasDot
          else if ch = CHR ''.'' then readDecimal (advance l) (buf @ [ch]) True
          else if (ch = CHR ''e'' \<or> ch = CHR ''E'') \<and> \<not> hasDot \<and> length buf > 0
          then read_separated isDigit (advance l) (buf @ [ch])
          else (buf, l))"
  by pat_completeness auto
termination by (relation "measure (\<lambda>(l, buf, hasDot). left l)") (auto dest: left_advance_cur)

declare readDecimal.simps [simp del]

definition readNumber :: "lexer \<Rightarrow> go_panic + (string \<times> lexer)" where
  "readNumber l =
     bindr (peek l) (\<lambda>ch.
       if ch = CHR ''0'' \<and> lidx l + 1 < length (lsrc l) \<and>
          (lsrc l ! (lidx l + 1) = CHR ''x'' \<or> lsrc l ! (lidx l + 1) = CHR ''X'')
       then let l1 = advance (advance l);
                prefix = slice (lsrc l) (lidx l) (lidx l1);
                (hexBuf, l2) = read_separated isHexDigit l1 []
            in Inr (prefix @ hexBuf, l2)
       else Inr (readDecimal l [] False))"

definition isIntWidth :: "string \<Rightarrow> bool" where
  "isIntWidth s =
     (if length s = 0 \<or> length s > 3 then False
      else if list_ex (\<lambda>c. \<not> char_between (CHR ''0'') (CHR ''9'') c) s then False
      else let n = foldl (\<lambda>n c. n * 10 + (of_char c - 48)) (0 :: int) s
           in n \<ge> 8 \<and> n \<le> 256 \<and> n mod 8 = 0)"

definition normalizeTypeAlias :: "string \<Rightarrow> string" where
  "normalizeTypeAlias lit =
     (if lit = ''uint'' then ''u256''
      else if lit = ''int'' then ''i256''
      else if strings_HasPrefix lit ''uint'' \<and> isIntWidth (drop 4 lit) then ''u'' @ drop 4 lit
      else if strings_HasPrefix lit ''int'' \<and> isIntWidth (drop 3 lit) then ''i'' @ drop 3 lit
      else lit)"

section \<open>Strings\<close>

definition readTwoHex :: "lexer \<Rightarrow> (nat \<times> nat) option \<times> lexer" where
  "readTwoHex l =
     (case cur l of
        None \<Rightarrow> (None, l)
      | Some ch \<Rightarrow>
          let h1 = hexVal ch
          in if h1 < 0 then (None, l)
             else
               let l = advance l
               in (case cur l of
                     None \<Rightarrow> (None, l)
                   | Some ch \<Rightarrow>
                       let h2 = hexVal ch
                       in if h2 < 0 then (None, l) else (Some (nat h1, nat h2), advance l)))"

text \<open>\<open>n\<close> more digits to read, \<open>r\<close> the value so far; four digits stay below \<open>2 ^ 16\<close>.\<close>

fun read_hex :: "nat \<Rightarrow> nat \<Rightarrow> lexer \<Rightarrow> nat option \<times> lexer" where
  "read_hex 0 r l = (Some r, l)"
| "read_hex (Suc n) r l =
     (case cur l of
        None \<Rightarrow> (None, l)
      | Some ch \<Rightarrow>
          let v = hexVal ch
          in if v < 0 then (None, l) else read_hex n (r * 16 + nat v) (advance l))"

definition readFourHex :: "lexer \<Rightarrow> nat option \<times> lexer" where
  "readFourHex l = read_hex 4 0 l"

text \<open>
  An escape sequence after its backslash: the bytes to append to the normalised literal, or an
  error message.
\<close>

definition read_escape :: "char \<Rightarrow> lexer \<Rightarrow> (string + string) \<times> lexer" where
  "read_escape quote l =
     (case cur l of
        None \<Rightarrow> (Inl ''unterminated escape sequence in string literal'', l)
      | Some esc \<Rightarrow>
          let l = advance l
          in if esc = CHR ''n'' then (Inr [backslash, CHR ''n''], l)
             else if esc = CHR ''r'' then (Inr [backslash, CHR ''r''], l)
             else if esc = CHR ''t'' then (Inr [backslash, CHR ''t''], l)
             else if esc = backslash then (Inr [backslash, backslash], l)
             else if esc = single_quote
             then (Inr (if quote = double_quote then [single_quote] else [backslash, single_quote]), l)
             else if esc = double_quote then (Inr [backslash, double_quote], l)
             else if esc = CHR ''0'' then (Inr (backslash # ''x00''), l)
             else if esc = CHR ''x''
             then (case readTwoHex l of
                     (None, l) \<Rightarrow> (Inl (''invalid '' @ [backslash] @ ''x escape: expected two hex digits''), l)
                   | (Some (h1, h2), l) \<Rightarrow> (Inr ([backslash, CHR ''x''] @ fmt_02x (h1 * 16 + h2)), l))
             else if esc = CHR ''u''
             then (case readFourHex l of
                     (None, l) \<Rightarrow> (Inl (''invalid '' @ [backslash] @ ''u escape: expected four hex digits''), l)
                   | (Some r, l) \<Rightarrow>
                       if r > 0x10FFFF \<or> (r \<ge> 0xD800 \<and> r \<le> 0xDFFF)
                       then (Inl (''invalid Unicode code point U+'' @ fmt_04X r @ '' in '' @ [backslash] @ ''u escape''), l)
                       else (Inr (utf8_EncodeRune r), l))
             else if esc = newline then (Inr [], l)
             else if esc = CHR 0x0D
             then (Inr [], (case cur l of
                              None \<Rightarrow> l
                            | Some ch \<Rightarrow> if ch = newline then advance l else l))
             else (Inl (''unknown escape sequence '' @ [single_quote, backslash] @ fmt_c esc @ [single_quote] @
                        '' in string literal''), l))"

section \<open>Literals\<close>

text \<open>Every loop leaves no more of the source than it found.\<close>

lemma left_readTwoHex: "readTwoHex l = (r, l') \<Longrightarrow> left l' \<le> left l"
  by (auto simp: readTwoHex_def Let_def split: option.splits if_splits)

lemma left_read_hex: "read_hex n r l = (v, l') \<Longrightarrow> left l' \<le> left l"
proof (induction n r l rule: read_hex.induct)
  case (2 n r l)
  then show ?case by (fastforce simp: Let_def split: option.splits if_splits)
qed simp

lemma left_read_escape: "read_escape quote l = (r, l') \<Longrightarrow> left l' \<le> left l"
  using left_read_hex [of 4 0] left_readTwoHex
  by (fastforce simp: read_escape_def readFourHex_def Let_def split: option.splits if_splits prod.splits)

function read_string_body :: "char \<Rightarrow> lexer \<Rightarrow> string \<Rightarrow> (string + string) \<times> lexer" where
  "read_string_body quote l buf =
     (case cur l of
        None \<Rightarrow> (Inl ''unterminated string literal'', l)
      | Some ch \<Rightarrow>
          if ch = quote then (Inr (buf @ [quote]), advance l)
          else if ch = newline \<or> ch = CHR 0x0D
          then (Inl ''unterminated string literal: unescaped newline'', l)
          else if ch \<noteq> backslash then read_string_body quote (advance l) (buf @ [ch])
          else (case read_escape quote (advance l) of
                  (Inl e, l) \<Rightarrow> (Inl e, l)
                | (Inr s, l) \<Rightarrow> read_string_body quote l (buf @ s)))"
  by pat_completeness auto
termination
proof (relation "measure (\<lambda>(quote, l, buf). left l)", goal_cases)
  case 1
  show ?case by simp
next
  case (2 quote l buf ch)
  then show ?case using left_advance_cur [of l ch] by simp
next
  case (3 quote l buf ch r l' s)
  then have "read_escape quote (advance l) = (Inr s, l')" by simp
  then show ?case using left_read_escape [of quote "advance l"] left_advance_cur [of l ch] 3(1) by fastforce
qed

definition readString_lit :: "char \<Rightarrow> lexer \<Rightarrow> (string + string) \<times> lexer" where
  "readString_lit quote l = read_string_body quote (advance l) [quote]"

function read_hex_body :: "char \<Rightarrow> lexer \<Rightarrow> string \<Rightarrow> nat \<Rightarrow> (string + string) \<times> lexer" where
  "read_hex_body quote l content hexCount =
     (case cur l of
        None \<Rightarrow> (Inr content, l)
      | Some ch \<Rightarrow>
          if ch = quote then (Inr content, advance l)
          else if ch = CHR ''_''
          then if content = [] \<and> hexCount = 0
               then (Inl ''hex string literal: leading underscore separator'', advance l)
               else if hexCount = 0
               then (Inl ''hex string literal: consecutive underscores'', advance l)
               else if hexCount \<noteq> 2
               then (Inl ''hex string literal: underscore must appear between byte pairs'', advance l)
               else if cur (advance l) = Some quote
               then (Inl ''hex string literal: trailing underscore separator'', advance l)
               else read_hex_body quote (advance l) content 0
          else if isHexDigit ch then read_hex_body quote (advance l) (content @ [ch]) (hexCount + 1)
          else (Inl (''invalid character '' @ [single_quote] @ fmt_c ch @ [single_quote] @ '' in hex string literal''),
                advance l))"
  by pat_completeness auto
termination by (relation "measure (\<lambda>(quote, l, content, hexCount). left l)") (auto dest: left_advance_cur)

declare read_string_body.simps [simp del] read_hex_body.simps [simp del]

definition hex_content :: "string \<Rightarrow> string + string" where
  "hex_content raw =
     (if length raw mod 2 \<noteq> 0
      then Inl (''hex string literal has odd number of hex digits ('' @ itoa (int (length raw)) @ ''); must be even'')
      else if length raw > 0
      then (case hex_DecodeString raw of
              Inl e \<Rightarrow> Inl (''invalid hex string literal: '' @ hex_error_text e)
            | Inr _ \<Rightarrow> Inr (strings_ToLower raw))
      else Inr (strings_ToLower raw))"

definition readHexString :: "char \<Rightarrow> lexer \<Rightarrow> (string + string) \<times> lexer" where
  "readHexString quote l =
     (case read_hex_body quote (advance l) [] 0 of
        (Inl e, l) \<Rightarrow> (Inl e, l)
      | (Inr raw, l) \<Rightarrow> (hex_content raw, l))"

section \<open>The next token\<close>

text \<open>
  The cases of the character switch: the number of characters to take, the token type and its
  literal, from the next character and the ones after it (0 past the end).
\<close>

definition bracket_token :: "char \<Rightarrow> (nat \<times> token_type \<times> string) option" where
  "bracket_token ch =
     (if ch = CHR ''('' then Some (1, TokenLParen, ''('')
      else if ch = CHR '')'' then Some (1, TokenRParen, '')'')
      else if ch = CHR ''{'' then Some (1, TokenLBrace, ''{'')
      else if ch = CHR ''}'' then Some (1, TokenRBrace, ''}'')
      else if ch = CHR ''['' then Some (1, TokenLBracket, ''['')
      else if ch = CHR '']'' then Some (1, TokenRBracket, '']'')
      else if ch = CHR '':'' then Some (1, TokenColon, '':'')
      else if ch = CHR '';'' then Some (1, TokenSemicolon, '';'')
      else if ch = CHR '','' then Some (1, TokenComma, '','')
      else if ch = CHR ''.'' then Some (1, TokenDot, ''.'')
      else None)"

definition equality_token :: "char \<Rightarrow> char \<Rightarrow> (nat \<times> token_type \<times> string) option" where
  "equality_token ch c1 =
     (if ch = CHR ''-'' then
        if c1 = CHR ''>'' then Some (2, TokenArrow, ''->'')
        else if c1 = CHR ''-'' then Some (2, TokenMinusMinus, ''--'')
        else if c1 = CHR ''='' then Some (2, TokenMinusAssign, ''-='')
        else Some (1, TokenMinus, ''-'')
      else if ch = CHR ''='' then
        if c1 = CHR ''>'' then Some (2, TokenFatArrow, ''=>'')
        else if c1 = CHR ''='' then Some (2, TokenEq, ''=='')
        else Some (1, TokenAssign, ''='')
      else if ch = CHR ''!'' then
        if c1 = CHR ''='' then Some (2, TokenNe, ''!='')
        else Some (1, TokenBang, ''!'')
      else None)"

definition shift_token :: "char \<Rightarrow> char \<Rightarrow> char \<Rightarrow> char \<Rightarrow> (nat \<times> token_type \<times> string) option" where
  "shift_token ch c1 c2 c3 =
     (if ch = CHR ''<'' then
        if c1 = CHR ''<'' then
          if c2 = CHR ''='' then Some (3, TokenShlAssign, ''<<='')
          else Some (2, TokenShl, ''<<'')
        else if c1 = CHR ''='' then Some (2, TokenLE, ''<='')
        else Some (1, TokenLT, ''<'')
      else if ch = CHR ''>'' then
        if c1 = CHR ''>'' then
          if c2 = CHR ''>'' then
            if c3 = CHR ''='' then Some (4, TokenShrAssign, ''>>>='')
            else Some (3, TokenShr, ''>>>'')
          else if c2 = CHR ''='' then Some (3, TokenSarAssign, ''>>='')
          else Some (2, TokenSar, ''>>'')
        else if c1 = CHR ''='' then Some (2, TokenGE, ''>='')
        else Some (1, TokenGT, ''>'')
      else None)"

definition logic_token :: "char \<Rightarrow> char \<Rightarrow> (nat \<times> token_type \<times> string) option" where
  "logic_token ch c1 =
     (if ch = CHR ''&'' then
        if c1 = CHR ''&'' then Some (2, TokenAndAnd, ''&&'')
        else if c1 = CHR ''='' then Some (2, TokenAndAssign, ''&='')
        else Some (1, TokenBitAnd, ''&'')
      else if ch = CHR ''|'' then
        if c1 = CHR ''|'' then Some (2, TokenOrOr, ''||'')
        else if c1 = CHR ''='' then Some (2, TokenOrAssign, ''|='')
        else Some (1, TokenBitOr, ''|'')
      else if ch = CHR ''^'' then
        if c1 = CHR ''='' then Some (2, TokenXorAssign, ''^='')
        else Some (1, TokenBitXor, ''^'')
      else if ch = CHR ''~'' then Some (1, TokenBitNot, ''~'')
      else None)"

definition arith_token :: "char \<Rightarrow> char \<Rightarrow> (nat \<times> token_type \<times> string) option" where
  "arith_token ch c1 =
     (if ch = CHR ''+'' then
        if c1 = CHR ''+'' then Some (2, TokenPlusPlus, ''++'')
        else if c1 = CHR ''='' then Some (2, TokenPlusAssign, ''+='')
        else Some (1, TokenPlus, ''+'')
      else if ch = CHR ''*'' then
        if c1 = CHR ''*'' then Some (2, TokenPow, ''**'')
        else if c1 = CHR ''='' then Some (2, TokenMulAssign, ''*='')
        else Some (1, TokenStar, ''*'')
      else if ch = CHR ''/'' then
        if c1 = CHR ''='' then Some (2, TokenDivAssign, ''/='')
        else Some (1, TokenSlash, ''/'')
      else if ch = CHR ''%'' then
        if c1 = CHR ''='' then Some (2, TokenModAssign, ''%='')
        else Some (1, TokenPercent, ''%'')
      else if ch = CHR ''@'' then Some (1, TokenAt, ''@'')
      else if ch = CHR ''?'' then Some (1, TokenQuestion, ''?'')
      else None)"

definition or_else :: "'a option \<Rightarrow> 'a option \<Rightarrow> 'a option" where
  "or_else a b = (case a of None \<Rightarrow> b | Some x \<Rightarrow> Some x)"

definition symbol_token :: "char \<Rightarrow> char \<Rightarrow> char \<Rightarrow> char \<Rightarrow> (nat \<times> token_type \<times> string) option" where
  "symbol_token ch c1 c2 c3 =
     or_else (bracket_token ch) (or_else (equality_token ch c1) (or_else (shift_token ch c1 c2 c3)
       (or_else (logic_token ch c1) (arith_token ch c1))))"

definition literal_token :: "token_type \<Rightarrow> Position \<Rightarrow> (string + string) \<times> lexer \<Rightarrow> Token \<times> lexer" where
  "literal_token ty start r =
     (case r of
        (Inl lexErr, l) \<Rightarrow> mk_token TokenIllegal lexErr start l
      | (Inr lit, l) \<Rightarrow> mk_token ty lit start l)"

definition word_token :: "Position \<Rightarrow> lexer \<Rightarrow> Token \<times> lexer" where
  "word_token start l =
     (let (lit, l) = readIdent l; canonical = normalizeTypeAlias lit
      in if canonical \<noteq> lit
         then mk_token TokenIllegal
                (''Solidity type alias '' @ [single_quote] @ lit @ [single_quote] @ '' is not allowed; use '' @
                 [single_quote] @ canonical @ [single_quote]) start l
         else
           case cur l of
             None \<Rightarrow> mk_token (keywordType lit) lit start l
           | Some quote \<Rightarrow>
               if lit = ''hex'' \<and> (quote = double_quote \<or> quote = single_quote)
               then literal_token TokenHexString start (readHexString quote l)
               else if lit = ''unicode'' \<and> (quote = double_quote \<or> quote = single_quote)
               then literal_token TokenUnicodeString start (readString_lit quote l)
               else mk_token (keywordType lit) lit start l)"

definition number_token :: "Position \<Rightarrow> lexer \<Rightarrow> go_panic + (Token \<times> lexer)" where
  "number_token start l =
     bindr (readNumber l) (\<lambda>(lit, l).
       Inr (if length lit \<ge> 2 \<and> lit ! 0 = CHR ''0'' \<and> char_between (CHR ''0'') (CHR ''9'') (lit ! 1)
            then mk_token TokenIllegal (''octal literal not allowed: '' @ lit) start l
            else mk_token TokenNumber lit start l))"

definition other_token :: "char \<Rightarrow> Position \<Rightarrow> lexer \<Rightarrow> go_panic + (Token \<times> lexer)" where
  "other_token ch start l =
     (if ch = double_quote \<or> ch = single_quote then Inr (literal_token TokenString start (readString_lit ch l))
      else if isIdentStart ch then Inr (word_token start l)
      else if isDigit ch then number_token start l
      else Inr (mk_token TokenIllegal [ch] start (advance l)))"

definition Next_token :: "lexer \<Rightarrow> go_panic + (Token \<times> lexer)" where
  "Next_token l =
     (let l = skipSpaceAndOrdinaryComments l; start = pos l
      in case cur l of
           None \<Rightarrow> Inr (\<lparr>Type = TokenEOF, Literal = [], Start = start, End = start\<rparr>, l)
         | Some ch \<Rightarrow>
             if ch = CHR ''/'' \<and> peekN l 1 = CHR ''/'' \<and> peekN l 2 = CHR ''/''
             then Inr (readTripleSlashDoc start l)
             else if ch = CHR ''/'' \<and> peekN l 1 = CHR ''*'' \<and> peekN l 2 = CHR ''*''
             then Inr (readBlockDoc start l)
             else (case symbol_token ch (peekN l 1) (peekN l 2) (peekN l 3) of
                     Some (n, ty, lit) \<Rightarrow> Inr (mk_token ty lit start ((advance ^^ n) l))
                   | None \<Rightarrow> other_token ch start l))"

section \<open>How the lexer moves\<close>

text \<open>Every function of the lexer only advances; \<open>moves\<close> collects the proofs.\<close>

named_theorems moves_intros \<open>each operation only advances the lexer\<close>

definition moves :: "lexer \<Rightarrow> lexer \<Rightarrow> bool" where
  "moves l l' \<longleftrightarrow> (\<exists>n \<le> left l. l' = (advance ^^ n) l)"

lemma advance_eof: "left l = 0 \<Longrightarrow> advance l = l"
  by (simp add: advance_def eof_def left_def)

lemma moves_refl [simp, moves_intros]: "moves l l"
  unfolding moves_def by (rule exI [of _ 0]) simp

lemma moves_trans [trans]:
  assumes "moves l l'" "moves l' l''" shows "moves l l''"
proof -
  from assms obtain n m where n: "n \<le> left l" "l' = (advance ^^ n) l"
    and m: "m \<le> left l'" "l'' = (advance ^^ m) l'" by (auto simp: moves_def)
  then have "m + n \<le> left l" "l'' = (advance ^^ (m + n)) l"
    by (simp_all add: left_funpow_advance funpow_add)
  then show ?thesis unfolding moves_def by blast
qed

lemma moves_advance [moves_intros]: "moves l (advance l)"
proof (cases "left l = 0")
  case False
  then show ?thesis unfolding moves_def by (intro exI [of _ 1]) simp
qed (simp add: advance_eof)

lemma moves_advance_trans: "moves (advance l) l' \<Longrightarrow> moves l l'"
  by (rule moves_trans [OF moves_advance])

lemma moves_funpow [moves_intros]: "moves l ((advance ^^ n) l)"
  by (induction n) (auto intro: moves_trans [OF _ moves_advance])

lemma advance_facts [simp]:
  "lsrc (advance l) = lsrc l" "lidx (advance l) = (if lidx l < length (lsrc l) then lidx l + 1 else lidx l)"
  by (simp_all add: advance_def eof_def)

lemma funpow_advance:
  "lsrc ((advance ^^ n) l) = lsrc l" "n \<le> left l \<Longrightarrow> lidx ((advance ^^ n) l) = lidx l + n"
  by (induction n) (auto simp: left_def)

lemma moves_facts:
  assumes "moves l l'"
  shows "lsrc l' = lsrc l" "lidx l \<le> lidx l'" "left l' \<le> left l"
    "lidx l \<le> length (lsrc l) \<Longrightarrow> lidx l' \<le> length (lsrc l)"
    "left l' < left l \<Longrightarrow> lidx l < lidx l'"
  using assms by (auto simp: moves_def funpow_advance left_funpow_advance) (auto simp: left_def)

lemma moves_skip_while [moves_intros]: "moves l (skip_while P l)"
proof (induction P l rule: skip_while.induct)
  case (1 P l)
  then show ?case
    by (subst skip_while.simps) (auto split: option.split intro: moves_advance_trans)
qed

lemma moves_skip_block [moves_intros]: "moves l (skip_block l)"
proof (induction l rule: skip_block.induct)
  case (1 l)
  then show ?case
    by (subst skip_block.simps) (auto split: option.split intro: moves_advance_trans moves_advance)
qed

lemma moves_read_separated [moves_intros]: "read_separated P l buf = (s, l') \<Longrightarrow> moves l l'"
proof (induction P l buf rule: read_separated.induct)
  case (1 P l buf)
  from "1.prems" [unfolded read_separated.simps [of P l buf]] "1.IH" show ?case
    by (auto split: option.splits if_splits intro: moves_advance_trans)
qed

lemma moves_skipSpace [moves_intros]: "moves l (skipSpaceAndOrdinaryComments l)"
proof (induction l rule: skipSpaceAndOrdinaryComments.induct)
  case (1 l)
  note IH = "1.IH"
  show ?case
  proof (cases "cur l")
    case None
    then show ?thesis by (subst skipSpaceAndOrdinaryComments.simps) simp
  next
    case (Some ch)
    have b: "moves l (skip_block (advance (advance l)))"
      by (rule moves_advance_trans, rule moves_advance_trans, rule moves_skip_block)
    note unf = skipSpaceAndOrdinaryComments.simps [of l, unfolded Some option.case]
    consider "isSpace ch"
      | "\<not> isSpace ch" "ch = CHR ''/'' \<and> peekN l 1 = CHR ''/'' \<and> peekN l 2 \<noteq> CHR ''/''"
      | "\<not> isSpace ch" "\<not> (ch = CHR ''/'' \<and> peekN l 1 = CHR ''/'' \<and> peekN l 2 \<noteq> CHR ''/'')"
        "ch = CHR ''/'' \<and> peekN l 1 = CHR ''*'' \<and> peekN l 2 \<noteq> CHR ''*''"
      | "\<not> isSpace ch" "\<not> (ch = CHR ''/'' \<and> peekN l 1 = CHR ''/'' \<and> peekN l 2 \<noteq> CHR ''/'')"
        "\<not> (ch = CHR ''/'' \<and> peekN l 1 = CHR ''*'' \<and> peekN l 2 \<noteq> CHR ''*'')" by blast
    then show ?thesis
    proof cases
      case 1
      show ?thesis unfolding unf if_P [OF 1] by (rule moves_advance_trans [OF IH(1) [OF Some 1]])
    next
      case 2
      show ?thesis unfolding unf if_not_P [OF 2(1)] if_P [OF 2(2)]
        by (rule moves_trans [OF moves_skip_while IH(2) [OF Some 2]])
    next
      case 3
      show ?thesis unfolding unf if_not_P [OF 3(1)] if_not_P [OF 3(2)] if_P [OF 3(3)]
        by (rule moves_trans [OF b IH(3) [OF Some 3]])
    next
      case 4
      show ?thesis unfolding unf if_not_P [OF 4(1)] if_not_P [OF 4(2)] if_not_P [OF 4(3)] by (rule moves_refl)
    qed
  qed
qed

lemma moves_read_doc_lines_first:
  "read_doc_lines l buf = (s, l') \<Longrightarrow> moves (skip_while (\<lambda>c. c \<noteq> newline) l) l'"
proof (induction l buf arbitrary: s l' rule: read_doc_lines.induct)
  case (1 l buf)
  let ?l1 = "skip_while (\<lambda>c. c \<noteq> newline) l"
  obtain b l2 where c: "consume_newline ?l1 (buf @ slice (lsrc l) (lidx l) (lidx ?l1)) = (b, l2)" by fastforce
  then have m: "moves ?l1 l2"
    by (auto simp: consume_newline_def intro: moves_advance split: option.splits if_splits)
  show ?case
  proof (cases "next_line_is_doc l2")
    case True
    let ?l3 = "(advance ^^ (blanks (lsrc l2) (lidx l2) - lidx l2)) l2"
    have "read_doc_lines ?l3 b = (s, l')"
      using "1.prems" c True by (subst (asm) read_doc_lines.simps) (simp add: Let_def)
    from "1.IH" [OF refl refl c [symmetric] True this] show ?thesis
      by (blast intro: moves_trans [OF m] moves_trans [OF moves_funpow] moves_trans [OF moves_skip_while])
  next
    case False
    then show ?thesis using "1.prems" c m by (subst (asm) read_doc_lines.simps) (simp add: Let_def)
  qed
qed

lemma moves_read_doc_lines [moves_intros]: "read_doc_lines l buf = (s, l') \<Longrightarrow> moves l l'"
  by (rule moves_trans [OF moves_skip_while moves_read_doc_lines_first])

lemma moves_readIdent [moves_intros]: "readIdent l = (s, l') \<Longrightarrow> moves l l'"
  by (auto simp: readIdent_def Let_def intro: moves_skip_while)

lemma moves_readDecimal [moves_intros]: "readDecimal l buf d = (s, l') \<Longrightarrow> moves l l'"
proof (induction l buf d rule: readDecimal.induct)
  case (1 l buf d)
  from "1.prems" [unfolded readDecimal.simps [of l buf d]] "1.IH" show ?case
    by (auto split: option.splits if_splits intro: moves_advance_trans moves_read_separated)
qed

lemma moves_readNumber [moves_intros]: "readNumber l = Inr (s, l') \<Longrightarrow> moves l l'"
  by (auto simp: readNumber_def Let_def split: if_splits prod.splits
      intro: moves_advance_trans moves_read_separated moves_readDecimal)

lemma moves_readTwoHex [moves_intros]: "readTwoHex l = (r, l') \<Longrightarrow> moves l l'"
  by (auto simp: readTwoHex_def Let_def split: option.splits if_splits intro: moves_advance_trans moves_advance)

lemma moves_read_hex [moves_intros]: "read_hex n r l = (v, l') \<Longrightarrow> moves l l'"
proof (induction n r l rule: read_hex.induct)
  case (2 n r l)
  then show ?case by (auto simp: Let_def split: option.splits if_splits intro: moves_advance_trans)
qed simp

lemma moves_read_escape [moves_intros]: "read_escape quote l = (r, l') \<Longrightarrow> moves l l'"
  by (auto simp: read_escape_def readFourHex_def Let_def split: option.splits if_splits prod.splits
      intro: moves_advance_trans moves_advance moves_readTwoHex moves_read_hex)

lemma moves_read_string_body [moves_intros]: "read_string_body quote l buf = (r, l') \<Longrightarrow> moves l l'"
proof (induction quote l buf rule: read_string_body.induct)
  case (1 quote l buf)
  show ?case
  proof (cases "cur l")
    case None
    with "1.prems" show ?thesis by (subst (asm) read_string_body.simps) simp
  next
    case (Some ch)
    obtain e l2 where e: "read_escape quote (advance l) = (e, l2)" by fastforce
    have m: "moves l l2" by (rule moves_advance_trans [OF moves_read_escape [OF e]])
    show ?thesis
      using "1.prems" [unfolded read_string_body.simps [of quote l buf]] Some 1(1) [OF Some]
        1(2) [OF Some _ _ _ e [symmetric]] e m
      by (auto split: if_splits sum.splits intro: moves_advance moves_advance_trans moves_trans [OF m])
  qed
qed

lemma moves_readString_lit [moves_intros]: "readString_lit quote l = (r, l') \<Longrightarrow> moves l l'"
  by (auto simp: readString_lit_def intro: moves_advance_trans moves_read_string_body)

lemma moves_read_hex_body [moves_intros]: "read_hex_body quote l content n = (r, l') \<Longrightarrow> moves l l'"
proof (induction quote l content n rule: read_hex_body.induct)
  case (1 quote l content n)
  from "1.prems" [unfolded read_hex_body.simps [of quote l content n]] "1.IH" show ?case
    by (auto split: option.splits if_splits intro: moves_advance moves_advance_trans)
qed

lemma moves_readHexString [moves_intros]: "readHexString quote l = (r, l') \<Longrightarrow> moves l l'"
  by (auto simp: readHexString_def split: prod.splits sum.splits intro: moves_advance_trans moves_read_hex_body)

section \<open>Positions\<close>

text \<open>The line and the column of a byte offset, counted from the source.\<close>

definition line_at :: "string \<Rightarrow> nat \<Rightarrow> int" where
  "line_at s i = 1 + int (count_list (take i s) newline)"

definition col_at :: "string \<Rightarrow> nat \<Rightarrow> int" where
  "col_at s i = 1 + int (length (takeWhile (\<lambda>c. c \<noteq> newline) (rev (take i s))))"

definition position_at :: "string \<Rightarrow> nat \<Rightarrow> Position" where
  "position_at s i = \<lparr>Offset = int i, Line = line_at s i, Column = col_at s i\<rparr>"

text \<open>The end of a token: the offset after its last character, with the line and column of that
  character, except that a final newline is given column 1.\<close>

definition end_at :: "string \<Rightarrow> nat \<Rightarrow> Position" where
  "end_at s i =
     \<lparr>Offset = int i, Line = line_at s (i - 1), Column = (if s ! (i - 1) = newline then 1 else col_at s (i - 1))\<rparr>"

definition lexer_ok :: "lexer \<Rightarrow> bool" where
  "lexer_ok l \<longleftrightarrow> lidx l \<le> length (lsrc l) \<and> lline l = line_at (lsrc l) (lidx l) \<and> lcol l = col_at (lsrc l) (lidx l)"

lemma lexer_ok_New [simp]: "lexer_ok (New s)"
  by (simp add: lexer_ok_def New_def line_at_def col_at_def)

lemma line_col_Suc:
  assumes "i < length s"
  shows "line_at s (Suc i) = (if s ! i = newline then line_at s i + 1 else line_at s i)"
    "col_at s (Suc i) = (if s ! i = newline then 1 else col_at s i + 1)"
  using assms by (auto simp: line_at_def col_at_def take_Suc_conv_app_nth)

lemma lexer_ok_advance [simp]: "lexer_ok l \<Longrightarrow> lexer_ok (advance l)"
  by (auto simp: lexer_ok_def advance_def eof_def line_col_Suc)

lemma lexer_ok_moves:
  assumes "moves l l'" "lexer_ok l" shows "lexer_ok l'"
proof -
  have "lexer_ok ((advance ^^ n) l)" for n using assms(2) by (induction n) auto
  then show ?thesis using assms(1) by (auto simp: moves_def)
qed

lemma col_at_1: "0 < i \<Longrightarrow> i \<le> length s \<Longrightarrow> col_at s i \<le> 1 \<longleftrightarrow> s ! (i - 1) = newline"
  using line_col_Suc(2) [of "i - 1" s] by (auto simp: col_at_def)

lemma pos_ok: "lexer_ok l \<Longrightarrow> pos l = position_at (lsrc l) (lidx l)"
  by (simp add: pos_def position_at_def lexer_ok_def)

lemma lastPos_ok:
  assumes "lexer_ok l" "0 < lidx l" shows "lastPos l = end_at (lsrc l) (lidx l)"
  using assms line_col_Suc [of "lidx l - 1" "lsrc l"] col_at_1 [of "lidx l" "lsrc l"]
  by (auto simp: lastPos_def end_at_def lexer_ok_def)

section \<open>One token\<close>

text \<open>
  What \<^verbatim>\<open>Next\<close> returns from the start \<open>a\<close> of the token to the end \<open>b\<close>: the types below carry
  their source text, a number its text without underscores.
\<close>

definition computed_types :: "token_type set" where
  "computed_types =
     {TokenIllegal, TokenEOF, TokenNumber, TokenString, TokenHexString, TokenUnicodeString, TokenDocComment}"

definition literal_ok :: "string \<Rightarrow> Token \<Rightarrow> nat \<Rightarrow> nat \<Rightarrow> bool" where
  "literal_ok s t a b \<longleftrightarrow>
     (Type t \<notin> computed_types \<longrightarrow> Literal t = slice s a b) \<and>
     (Type t = TokenNumber \<longrightarrow> Literal t = filter (\<lambda>c. c \<noteq> CHR ''_'') (slice s a b))"

definition token_span :: "string \<Rightarrow> Token \<Rightarrow> nat \<Rightarrow> nat \<Rightarrow> bool" where
  "token_span s t a b \<longleftrightarrow>
     a < b \<and> b \<le> length s \<and> Type t \<noteq> TokenEOF \<and> Start t = position_at s a \<and> End t = end_at s b \<and> literal_ok s t a b"

lemma slice_append: "a \<le> b \<Longrightarrow> b \<le> c \<Longrightarrow> slice s a b @ slice s b c = slice s a c"
proof -
  assume "a \<le> b" "b \<le> c"
  then obtain m n where "b = a + m" "c = a + m + n" by (metis le_Suc_ex)
  then show ?thesis by (simp add: slice_def take_add add.commute [of a])
qed

lemma slice_nth: "i < length s \<Longrightarrow> slice s i (Suc i) = [s ! i]"
  by (simp add: slice_def take_Suc_conv_app_nth)

lemma slice_one: "cur l = Some ch \<Longrightarrow> slice (lsrc l) (lidx l) (lidx l + 1) = [ch]"
  by (simp add: cur_def eof_def slice_def take_Suc_conv_app_nth split: if_splits)

lemma slice_step:
  assumes "cur l = Some ch" "moves (advance l) l'"
  shows "slice (lsrc l) (lidx l) (lidx l') = ch # slice (lsrc l) (lidx l + 1) (lidx l')"
proof -
  have "lidx l < length (lsrc l)" using assms(1) by (simp add: cur_def eof_def split: if_splits)
  then have "lidx l + 1 \<le> lidx l'" using moves_facts(2) [OF assms(2)] by simp
  then have "slice (lsrc l) (lidx l) (lidx l') =
      slice (lsrc l) (lidx l) (lidx l + 1) @ slice (lsrc l) (lidx l + 1) (lidx l')"
    by (intro slice_append [symmetric]) auto
  then show ?thesis by (simp only: slice_one [OF assms(1)] append_Cons append_Nil)
qed

lemma cur_lt: "cur l = Some ch \<Longrightarrow> lidx l < length (lsrc l)"
  by (simp add: cur_def eof_def split: if_splits)

lemma slice_empty [simp]: "slice s a a = []"
  by (simp add: slice_def)

text \<open>Numbers keep every character of the source but the underscores.\<close>

abbreviation no_underscore :: "string \<Rightarrow> string" where
  "no_underscore \<equiv> filter (\<lambda>c. c \<noteq> CHR ''_'')"

lemma read_separated_literal:
  "read_separated P l buf = (s, l') \<Longrightarrow> s = buf @ no_underscore (slice (lsrc l) (lidx l) (lidx l'))"
proof (induction P l buf arbitrary: s l' rule: read_separated.induct)
  case (1 P l buf)
  note prem = "1.prems" [unfolded read_separated.simps [of P l buf]]
  show ?case
  proof (cases "\<exists>ch. cur l = Some ch \<and> (P ch \<or> ch = CHR ''_'')")
    case True
    then obtain ch where ch: "cur l = Some ch" "P ch \<or> ch = CHR ''_''" by blast
    let ?buf = "if ch \<noteq> CHR ''_'' then buf @ [ch] else buf"
    have r: "read_separated P (advance l) ?buf = (s, l')" using prem ch by simp
    show ?thesis
      unfolding "1.IH" [OF ch r] slice_step [OF ch(1) moves_read_separated [OF r]]
      using cur_lt [OF ch(1)] by simp
  next
    case False
    then show ?thesis using prem by (auto split: option.splits if_splits)
  qed
qed

lemma readDecimal_literal:
  "readDecimal l buf d = (s, l') \<Longrightarrow> s = buf @ no_underscore (slice (lsrc l) (lidx l) (lidx l'))"
proof (induction l buf d arbitrary: s l' rule: readDecimal.induct)
  case (1 l buf d)
  note prem = "1.prems" [unfolded readDecimal.simps [of l buf d]]
  show ?case
  proof (cases "cur l")
    case None
    then show ?thesis using prem by simp
  next
    case (Some ch)
    note st = slice_step [OF Some] and lt = cur_lt [OF Some]
    have u: "\<not> isDigit (CHR ''_'')" by (simp add: isDigit_def char_between_def)
    consider "isDigit ch" | "\<not> isDigit ch" "ch = CHR ''_'' \<and> \<not> d"
      | "\<not> isDigit ch" "\<not> (ch = CHR ''_'' \<and> \<not> d)" "ch = CHR ''.''"
      | "\<not> isDigit ch" "\<not> (ch = CHR ''_'' \<and> \<not> d)" "ch \<noteq> CHR ''.''"
        "(ch = CHR ''e'' \<or> ch = CHR ''E'') \<and> \<not> d \<and> length buf > 0"
      | "\<not> isDigit ch" "\<not> (ch = CHR ''_'' \<and> \<not> d)" "ch \<noteq> CHR ''.''"
        "\<not> ((ch = CHR ''e'' \<or> ch = CHR ''E'') \<and> \<not> d \<and> length buf > 0)" by blast
    then show ?thesis
    proof cases
      case 1
      then have r: "readDecimal (advance l) (buf @ [ch]) d = (s, l')" using prem Some by simp
      show ?thesis unfolding "1.IH"(1) [OF Some 1 r] st [OF moves_readDecimal [OF r]]
        using lt 1 u by auto
    next
      case 2
      then have r: "readDecimal (advance l) buf d = (s, l')" using prem Some by simp
      show ?thesis unfolding "1.IH"(2) [OF Some 2 r] st [OF moves_readDecimal [OF r]] using lt 2 by simp
    next
      case 3
      then have r: "readDecimal (advance l) (buf @ [ch]) True = (s, l')" using prem Some by simp
      show ?thesis unfolding "1.IH"(3) [OF Some 3 r] st [OF moves_readDecimal [OF r]] using lt 3 by simp
    next
      case 4
      then have r: "read_separated isDigit (advance l) (buf @ [ch]) = (s, l')" using prem Some by auto
      show ?thesis unfolding read_separated_literal [OF r] st [OF moves_read_separated [OF r]] using lt 4 by auto
    next
      case 5
      then show ?thesis using prem Some by auto
    qed
  qed
qed

lemma readNumber_literal:
  assumes "readNumber l = Inr (s, l')"
  shows "s = no_underscore (slice (lsrc l) (lidx l) (lidx l'))"
proof -
  obtain ch where ch: "peek l = Inr ch" using assms by (auto simp: readNumber_def)
  then have c: "cur l = Some ch" by (auto simp: peek_def cur_def eof_def split: if_splits)
  show ?thesis
  proof (cases "ch = CHR ''0'' \<and> lidx l + 1 < length (lsrc l) \<and>
      (lsrc l ! (lidx l + 1) = CHR ''x'' \<or> lsrc l ! (lidx l + 1) = CHR ''X'')")
    case True
    let ?l1 = "advance (advance l)"
    obtain h where h: "read_separated isHexDigit ?l1 [] = (h, l')" "s = slice (lsrc l) (lidx l) (lidx ?l1) @ h"
      using assms ch True by (auto simp: readNumber_def Let_def split: prod.splits)
    have i: "lidx ?l1 = lidx l + 2" using True by simp
    have p: "slice (lsrc l) (lidx l) (lidx l + 2) = [ch, lsrc l ! (lidx l + 1)]"
      using True cur_lt [OF c] c slice_append [of "lidx l" "Suc (lidx l)" "Suc (Suc (lidx l))" "lsrc l"]
      by (simp add: numeral_2_eq_2 slice_nth cur_def eof_def split: if_splits)
    have "no_underscore (slice (lsrc l) (lidx l) (lidx l + 2)) = slice (lsrc l) (lidx l) (lidx l + 2)"
      unfolding p using True by auto
    moreover have "slice (lsrc l) (lidx l) (lidx l') =
        slice (lsrc l) (lidx l) (lidx l + 2) @ slice (lsrc l) (lidx l + 2) (lidx l')"
      using moves_facts(2) [OF moves_read_separated [OF h(1)], unfolded i] by (simp add: slice_append)
    moreover have "h = no_underscore (slice (lsrc l) (lidx l + 2) (lidx l'))"
      using read_separated_literal [OF h(1)] unfolding i by simp
    ultimately show ?thesis using h(2) unfolding i by simp
  next
    case False
    then have "readDecimal l [] False = (s, l')" using assms ch by (auto simp: readNumber_def)
    from readDecimal_literal [OF this] show ?thesis by simp
  qed
qed

lemma symbol_token_spelling:
  assumes "symbol_token (peekN l 0) (peekN l 1) (peekN l 2) (peekN l 3) = Some (n, ty, lit)"
  shows "length lit = n \<and> 0 < n \<and> ty \<notin> computed_types \<and>
    (\<forall>i < n. peekN l i = lit ! i \<and> lit ! i \<noteq> CHR 0x00)"
proof -
  have 1: "bracket_token c = Some (n, ty, lit) \<Longrightarrow> n = 1 \<and> lit = [c] \<and> c \<noteq> CHR 0x00 \<and> ty \<notin> computed_types" for c
    by (auto simp: bracket_token_def computed_types_def token_types split: if_splits)
  have 2: "equality_token c c1 = Some (n, ty, lit) \<or> logic_token c c1 = Some (n, ty, lit) \<or>
      arith_token c c1 = Some (n, ty, lit) \<Longrightarrow>
      (n = 1 \<and> lit = [c] \<or> n = 2 \<and> lit = [c, c1] \<and> c1 \<noteq> CHR 0x00) \<and> c \<noteq> CHR 0x00 \<and> ty \<notin> computed_types" for c c1
    by (auto simp: equality_token_def logic_token_def arith_token_def computed_types_def token_types split: if_splits)
  have 3: "shift_token c c1 c2 c3 = Some (n, ty, lit) \<Longrightarrow>
      (n = 1 \<and> lit = [c] \<or> n = 2 \<and> lit = [c, c1] \<and> c1 \<noteq> CHR 0x00 \<or>
       n = 3 \<and> lit = [c, c1, c2] \<and> c1 \<noteq> CHR 0x00 \<and> c2 \<noteq> CHR 0x00 \<or>
       n = 4 \<and> lit = [c, c1, c2, c3] \<and> c1 \<noteq> CHR 0x00 \<and> c2 \<noteq> CHR 0x00 \<and> c3 \<noteq> CHR 0x00) \<and>
      c \<noteq> CHR 0x00 \<and> ty \<notin> computed_types" for c c1 c2 c3
    by (auto simp: shift_token_def computed_types_def token_types split: if_splits)
  show ?thesis
    using assms 1 [of "peekN l 0"] 2 [of "peekN l 0" "peekN l 1"] 3 [of "peekN l 0" "peekN l 1" "peekN l 2" "peekN l 3"]
    unfolding symbol_token_def or_else_def
    by (auto split: option.splits simp: numeral_2_eq_2 numeral_3_eq_3 eval_nat_numeral less_Suc_eq)
qed

lemma peekN_slice:
  assumes "\<forall>i < length lit. peekN l i = lit ! i \<and> lit ! i \<noteq> CHR 0x00"
  shows "length lit \<le> left l" "slice (lsrc l) (lidx l) (lidx l + length lit) = lit"
proof -
  have n: "lidx l + i < length (lsrc l) \<and> lsrc l ! (lidx l + i) = lit ! i" if "i < length lit" for i
    using assms that by (auto simp: peekN_def split: if_splits)
  then show le: "length lit \<le> left l"
  proof (cases "length lit")
    case (Suc m)
    with n [of m] show ?thesis by (simp add: left_def Suc_le_eq less_diff_conv add.commute)
  qed simp
  show "slice (lsrc l) (lidx l) (lidx l + length lit) = lit"
    using n le by (intro nth_equalityI) (auto simp: slice_def left_def)
qed

lemma keywordType_not_computed: "keywordType lit \<notin> computed_types"
proof -
  have "\<forall>t \<in> set (map snd keyword_table). t \<notin> computed_types"
    by (simp add: keyword_table_def computed_types_def token_types)
  moreover have "TokenIdent \<notin> computed_types" by (simp add: computed_types_def token_types)
  ultimately show ?thesis
    using switch_on_values [of TokenIdent keyword_table lit] by (auto simp: keywordType_def)
qed

text \<open>A token made after the lexer moved from where it starts.\<close>

lemma mk_token_span:
  assumes "lexer_ok l" "moves l l'" "lidx l < lidx l'" "ty \<noteq> TokenEOF"
    "literal_ok (lsrc l) (fst (mk_token ty lit (pos l) l')) (lidx l) (lidx l')"
  shows "token_span (lsrc l) (fst (mk_token ty lit (pos l) l')) (lidx l) (lidx l') \<and>
    moves l (snd (mk_token ty lit (pos l) l'))"
  using assms pos_ok [OF assms(1)] lastPos_ok [OF lexer_ok_moves [OF assms(2,1)]] moves_facts [OF assms(2)]
  by (auto simp: mk_token_def token_span_def lexer_ok_def)

lemma literal_token_span:
  assumes "lexer_ok l" "moves l (snd r)" "lidx l < lidx (snd r)" "ty \<in> {TokenString, TokenHexString, TokenUnicodeString}"
  shows "token_span (lsrc l) (fst (literal_token ty (pos l) r)) (lidx l) (lidx (snd (literal_token ty (pos l) r))) \<and>
    moves l (snd (literal_token ty (pos l) r))"
proof -
  obtain e l' where r: "r = (e, l')" by fastforce
  have "ty \<in> computed_types" "ty \<noteq> TokenNumber" "ty \<noteq> TokenEOF" "TokenIllegal \<in> computed_types"
    "TokenIllegal \<noteq> TokenNumber" "TokenIllegal \<noteq> TokenEOF"
    using assms(4) by (auto simp: computed_types_def token_types)
  then show ?thesis
    using assms(1-3) mk_token_span [OF assms(1), of l']
    by (cases e) (auto simp: r literal_token_def literal_ok_def mk_token_def)
qed

text \<open>Each way a token is made, from the character it starts with.\<close>

definition makes :: "lexer \<Rightarrow> Token \<times> lexer \<Rightarrow> bool" where
  "makes l r \<longleftrightarrow> moves l (snd r) \<and> lidx l < lidx (snd r) \<and> Type (fst r) \<noteq> TokenEOF \<and>
     (lexer_ok l \<longrightarrow> token_span (lsrc l) (fst r) (lidx l) (lidx (snd r)))"

lemma makes_mk_token:
  assumes "moves l l'" "lidx l < lidx l'"
    and "ty = TokenIllegal \<or> ty = TokenDocComment \<or> ty \<notin> computed_types \<and> lit = slice (lsrc l) (lidx l) (lidx l') \<or>
      ty = TokenNumber \<and> lit = no_underscore (slice (lsrc l) (lidx l) (lidx l'))"
  shows "makes l (mk_token ty lit (pos l) l')"
proof -
  have "ty \<noteq> TokenEOF" using assms(3) by (auto simp: computed_types_def token_types)
  moreover have "literal_ok (lsrc l) (fst (mk_token ty lit (pos l) l')) (lidx l) (lidx l')"
    using assms(3) by (auto simp: literal_ok_def mk_token_def computed_types_def token_types)
  ultimately show ?thesis
    using mk_token_span [OF _ assms(1,2)] assms(1,2) by (simp add: makes_def mk_token_def)
qed

lemma makes_literal_token:
  assumes "moves l (snd r)" "lidx l < lidx (snd r)" "ty \<in> {TokenString, TokenHexString, TokenUnicodeString}"
  shows "makes l (literal_token ty (pos l) r)"
  using literal_token_span [OF _ assms] assms
  by (cases r; cases "fst r") (auto simp: makes_def literal_token_def mk_token_def token_types)

lemma left_lt: "cur l = Some ch \<Longrightarrow> moves (advance l) l' \<Longrightarrow> lidx l < lidx l'"
  using moves_facts(2) [of "advance l" l'] cur_lt [of l ch] by simp

lemma makes_doc_lines:
  assumes "cur l = Some (CHR ''/'')"
  shows "makes l (readTripleSlashDoc (pos l) l)"
proof -
  obtain s l' where r: "read_doc_lines l [] = (s, l')" by fastforce
  have "moves (advance l) (skip_while (\<lambda>c. c \<noteq> newline) l)"
    unfolding skip_while_Some [where P = "\<lambda>c. c \<noteq> newline", OF assms(1), simplified] by (rule moves_skip_while)
  from moves_trans [OF this moves_read_doc_lines_first [OF r]] have m: "moves (advance l) l'" .
  show ?thesis unfolding readTripleSlashDoc_def r Let_def prod.case
    by (rule makes_mk_token) (use assms m left_lt [OF assms(1) m] moves_advance_trans in auto)
qed

lemma makes_block_doc:
  assumes "cur l = Some ch"
  shows "makes l (readBlockDoc (pos l) l)"
proof -
  have m: "moves (advance l) (skip_block (advance (advance l)))"
    by (rule moves_advance_trans, rule moves_skip_block)
  show ?thesis unfolding readBlockDoc_def Let_def
    by (rule makes_mk_token) (use assms m left_lt [OF assms(1) m] moves_advance_trans in auto)
qed

lemma makes_symbol:
  assumes "cur l = Some ch" "symbol_token ch (peekN l 1) (peekN l 2) (peekN l 3) = Some (n, ty, lit)"
  shows "makes l (mk_token ty lit (pos l) ((advance ^^ n) l))"
proof -
  have "peekN l 0 = ch" using assms(1) by (auto simp: peekN_def cur_def eof_def split: if_splits)
  then have "symbol_token (peekN l 0) (peekN l 1) (peekN l 2) (peekN l 3) = Some (n, ty, lit)"
    using assms(2) by simp
  from symbol_token_spelling [OF this]
  have s: "length lit = n" "0 < n" "ty \<notin> computed_types" "\<forall>i < n. peekN l i = lit ! i \<and> lit ! i \<noteq> CHR 0x00"
    by blast+
  note p = peekN_slice [of lit l, unfolded s(1), OF s(4)]
  have i: "lidx ((advance ^^ n) l) = lidx l + n" by (rule funpow_advance(2) [OF p(1)])
  show ?thesis
    by (rule makes_mk_token [OF moves_funpow]) (simp_all add: i s(2,3) p(2))
qed

lemma isIdentPart_start: "isIdentStart ch \<Longrightarrow> isIdentPart ch"
  by (simp add: isIdentPart_def)

lemma makes_word:
  assumes "cur l = Some ch" "isIdentStart ch"
  shows "makes l (word_token (pos l) l)"
proof -
  obtain lit l1 where r: "readIdent l = (lit, l1)" by fastforce
  then have lit: "lit = slice (lsrc l) (lidx l) (lidx l1)" and l1: "l1 = skip_while isIdentPart l"
    by (auto simp: readIdent_def Let_def)
  have m: "moves (advance l) l1"
    unfolding l1 skip_while_Some [where P = isIdentPart, OF assms(1) isIdentPart_start [OF assms(2)]]
    by (rule moves_skip_while)
  have st: "moves l l1" "lidx l < lidx l1" using moves_advance_trans [OF m] left_lt [OF assms(1) m] by auto
  have q: "moves l (snd (readString_lit q l1))" "moves l (snd (readHexString q l1))"
    "lidx l < lidx (snd (readString_lit q l1))" "lidx l < lidx (snd (readHexString q l1))" for q
    using moves_readString_lit [of q l1 "fst (readString_lit q l1)" "snd (readString_lit q l1)"] moves_readHexString [of q l1 "fst (readHexString q l1)" "snd (readHexString q l1)"]
      moves_facts(2) [of l1] st(2) moves_trans [OF st(1)] by (force intro: less_le_trans)+
  have "makes l (mk_token TokenIllegal x (pos l) l1)" "makes l (mk_token (keywordType lit) lit (pos l) l1)" for x
    by (rule makes_mk_token; use assms(1) st lit keywordType_not_computed in simp)+
  moreover have "makes l (literal_token TokenHexString (pos l) (readHexString q l1))"
    "makes l (literal_token TokenUnicodeString (pos l) (readString_lit q l1))" for q
    by (rule makes_literal_token; use assms(1) q in simp)+
  ultimately show ?thesis by (simp add: word_token_def r Let_def split: option.split)
qed

lemma makes_number:
  assumes "cur l = Some ch" "isDigit ch"
  shows "\<exists>r. number_token (pos l) l = Inr r \<and> makes l r"
proof -
  have ch: "peek l = Inr ch" using assms(1) by (auto simp: peek_def cur_def eof_def split: if_splits)
  then obtain s l' where r: "readNumber l = Inr (s, l')"
    by (cases "readNumber l") (auto simp: readNumber_def bindr_Inl_iff Let_def split: if_splits prod.splits)
  have "moves (advance l) l'"
  proof (cases "ch = CHR ''0'' \<and> lidx l + 1 < length (lsrc l) \<and>
      (lsrc l ! (lidx l + 1) = CHR ''x'' \<or> lsrc l ! (lidx l + 1) = CHR ''X'')")
    case True
    then show ?thesis using r ch
      by (auto simp: readNumber_def Let_def split: prod.splits intro: moves_advance_trans moves_read_separated)
  next
    case False
    then have "readDecimal l [] False = (s, l')" using r ch by (auto simp: readNumber_def)
    then have "readDecimal (advance l) [ch] False = (s, l')"
      using assms(1,2) by (subst (asm) readDecimal.simps) simp
    then show ?thesis by (rule moves_readDecimal)
  qed
  then have st: "moves l l'" "lidx l < lidx l'" using moves_advance_trans left_lt [OF assms(1)] by auto
  have "makes l (mk_token TokenIllegal x (pos l) l')" "makes l (mk_token TokenNumber s (pos l) l')" for x
    by (rule makes_mk_token; use assms(1) st readNumber_literal [OF r] in simp)+
  then show ?thesis by (simp add: number_token_def r)
qed

lemma makes_other:
  assumes "cur l = Some ch"
  shows "\<exists>r. other_token ch (pos l) l = Inr r \<and> makes l r"
proof -
  have m: "moves (advance l) (snd (readString_lit ch l))"
    using moves_read_string_body [of ch "advance l" "[ch]" "fst (readString_lit ch l)" "snd (readString_lit ch l)"]
    by (simp add: readString_lit_def)
  have "makes l (literal_token TokenString (pos l) (readString_lit ch l))"
    by (rule makes_literal_token) (use assms m moves_advance_trans [OF m] left_lt [OF assms(1) m] in auto)
  moreover have "makes l (mk_token TokenIllegal [ch] (pos l) (advance l))"
    by (rule makes_mk_token) (use assms left_lt [OF assms(1) moves_refl] in \<open>auto intro: moves_advance\<close>)
  ultimately show ?thesis
    using makes_word [OF assms] makes_number [OF assms] by (simp add: other_token_def del: split_paired_Ex)
qed

lemma Next_token_spec:
  fixes l :: lexer
  defines "l0 \<equiv> skipSpaceAndOrdinaryComments l"
  shows "left l0 = 0 \<Longrightarrow> Next_token l =
      Inr (\<lparr>Type = TokenEOF, Literal = [], Start = pos l0, End = pos l0\<rparr>, l0)"
    and "0 < left l0 \<Longrightarrow> \<exists>r. Next_token l = Inr r \<and> makes l0 r"
proof -
  assume "left l0 = 0"
  then have "cur l0 = None" by (simp add: cur_def eof_def left_def)
  then show "Next_token l = Inr (\<lparr>Type = TokenEOF, Literal = [], Start = pos l0, End = pos l0\<rparr>, l0)"
    by (simp add: Next_token_def Let_def l0_def [symmetric])
next
  assume "0 < left l0"
  then obtain ch where ch: "cur l0 = Some ch" by (auto simp: cur_def eof_def left_def)
  show "\<exists>r. Next_token l = Inr r \<and> makes l0 r"
    unfolding Next_token_def Let_def l0_def [symmetric] ch option.case
    using makes_doc_lines [of l0] makes_block_doc [OF ch] makes_symbol [OF ch] makes_other [OF ch] ch
    by (simp split: option.split prod.split del: split_paired_Ex)
qed

section \<open>The token stream\<close>

lemma makes_left:
  assumes "makes l r" shows "left (snd r) < left l"
proof -
  obtain n where n: "n \<le> left l" "snd r = (advance ^^ n) l" using assms by (auto simp: makes_def moves_def)
  moreover have "lidx (snd r) = lidx l + n" unfolding n(2) by (rule funpow_advance(2) [OF n(1)])
  ultimately show ?thesis using assms unfolding n(2) left_funpow_advance makes_def by linarith
qed

lemma Next_token_progress:
  assumes "Next_token l = Inr (t, l')" "Type t \<noteq> TokenEOF" shows "left l' < left l"
proof -
  let ?l = "skipSpaceAndOrdinaryComments l"
  have "0 < left ?l" using Next_token_spec(1) [of l] assms by (cases "left ?l = 0") auto
  with Next_token_spec(2) [of l] assms(1) have "makes ?l (t, l')" by auto
  from makes_left [OF this] moves_facts(3) [OF moves_skipSpace, of l] show ?thesis by simp
qed

text \<open>All tokens, as a parser that calls \<^verbatim>\<open>Next\<close> until the end-of-file token gets them.\<close>

function all_tokens :: "lexer \<Rightarrow> go_panic + Token list" where
  "all_tokens l =
     bindr (Next_token l) (\<lambda>(t, l').
       if Type t = TokenEOF then Inr [t] else bindr (all_tokens l') (\<lambda>ts. Inr (t # ts)))"
  by pat_completeness auto
termination by (relation "measure left") (auto intro: Next_token_progress)

declare all_tokens.simps [simp del]

definition eof_token :: "string \<Rightarrow> Token" where
  "eof_token s = \<lparr>Type = TokenEOF, Literal = [], Start = position_at s (length s), End = position_at s (length s)\<rparr>"

text \<open>Tokens of \<open>s\<close> from offset \<open>i\<close> on: in order, not overlapping, ended by one end-of-file token.\<close>

fun token_stream :: "string \<Rightarrow> nat \<Rightarrow> Token list \<Rightarrow> bool" where
  "token_stream s i [] = False"
| "token_stream s i (t # ts) =
     (if Type t = TokenEOF then t = eof_token s \<and> ts = []
      else \<exists>a b. i \<le> a \<and> token_span s t a b \<and> token_stream s b ts)"

lemma all_tokens_stream:
  "lexer_ok l \<Longrightarrow> \<exists>ts. all_tokens l = Inr ts \<and> token_stream (lsrc l) (lidx l) ts"
proof (induction l rule: all_tokens.induct)
  case (1 l)
  let ?l = "skipSpaceAndOrdinaryComments l"
  have ok: "lexer_ok ?l" by (rule lexer_ok_moves [OF moves_skipSpace "1.prems"])
  have src: "lsrc ?l = lsrc l" by (rule moves_facts(1) [OF moves_skipSpace])
  show ?case
  proof (cases "left ?l = 0")
    case True
    then have "lidx ?l = length (lsrc l)" using ok src by (simp add: left_def lexer_ok_def)
    then show ?thesis
      using Next_token_spec(1) [OF True] pos_ok [OF ok] src
      by (subst all_tokens.simps) (simp add: eof_token_def token_types)
  next
    case False
    then obtain t l' where n: "Next_token l = Inr (t, l')" "makes ?l (t, l')"
      using Next_token_spec(2) [of l] by auto
    then have span: "token_span (lsrc l) t (lidx ?l) (lidx l')" "Type t \<noteq> TokenEOF" "lsrc l' = lsrc l"
      using ok src moves_facts(1) [of ?l l'] by (auto simp: makes_def)
    have "lexer_ok l'" using n(2) ok by (auto simp: makes_def intro: lexer_ok_moves)
    then obtain ts where "all_tokens l' = Inr ts" "token_stream (lsrc l) (lidx l') ts"
      using "1.IH" [OF n(1) refl span(2)] span(3) by auto
    then show ?thesis
      using n(1) span moves_facts(2) [OF moves_skipSpace, of l]
      by (subst all_tokens.simps) auto
  qed
qed

text \<open>C31: Lexing always ends, never reads past the source, and locates every token. Calling
  \<^verbatim>\<open>Next\<close> on any source until the end-of-file token takes finitely many calls and no index
  panic; the tokens come in source order without overlap, each takes at least one byte, and is
  marked with the right offsets and with the line and column of its first and last character
  (\<open>token_span\<close>; a final newline counts as column 1), and the end-of-file token stands at the end
  of the source.
\<close>

theorem lexing_total:
  "\<exists>ts. all_tokens (New s) = Inr ts \<and> token_stream s 0 ts"
  using all_tokens_stream [of "New s"] by (simp add: New_def lexer_ok_New [unfolded New_def])

section \<open>Look-ahead\<close>

function next_non_doc :: "lexer \<Rightarrow> go_panic + (Token \<times> lexer)" where
  "next_non_doc l =
     bindr (Next_token l) (\<lambda>(t, l'). if Type t \<noteq> TokenDocComment then Inr (t, l') else next_non_doc l')"
  by pat_completeness auto
termination by (relation "measure left") (auto intro: Next_token_progress simp: token_types)

declare next_non_doc.simps [simp del]

definition PeekNextNonDoc :: "lexer \<Rightarrow> go_panic + Token" where
  "PeekNextNonDoc l = bindr (next_non_doc \<lparr>lsrc = lsrc l, lidx = lidx l, lline = lline l, lcol = lcol l\<rparr>) (\<lambda>(t, _). Inr t)"

definition PeekToken :: "lexer \<Rightarrow> go_panic + (Token \<times> lexer)" where
  "PeekToken l =
     bindr (Next_token l) (\<lambda>(t, l'). Inr (t, l'\<lparr>lidx := lidx l, lline := lline l, lcol := lcol l\<rparr>))"

definition PeekSecond :: "lexer \<Rightarrow> go_panic + (Token \<times> lexer)" where
  "PeekSecond l =
     bindr (next_non_doc l) (\<lambda>(_, l').
     bindr (next_non_doc l') (\<lambda>(second, l''). Inr (second, l''\<lparr>lidx := lidx l, lline := lline l, lcol := lcol l\<rparr>)))"

text \<open>What is left of the tokens of a state, comments dropped; the last one repeats.\<close>

definition non_doc :: "Token list \<Rightarrow> Token list" where
  "non_doc ts = filter (\<lambda>t. Type t \<noteq> TokenDocComment) ts"

lemma Next_token_source: "Next_token l = Inr (t, l') \<Longrightarrow> lsrc l' = lsrc l"
proof -
  assume a: "Next_token l = Inr (t, l')"
  have m: "moves l (skipSpaceAndOrdinaryComments l)" by (rule moves_skipSpace)
  have "moves (skipSpaceAndOrdinaryComments l) l'"
    using Next_token_spec [of l] a by (cases "left (skipSpaceAndOrdinaryComments l) = 0") (auto simp: makes_def)
  from moves_facts(1) [OF moves_trans [OF m this]] show ?thesis .
qed

lemma cur_left: "left l = 0 \<Longrightarrow> cur l = None"
  by (simp add: cur_def eof_def left_def)

lemma Next_token_eof:
  assumes "Next_token l = Inr (t, l')" "Type t = TokenEOF" shows "Next_token l' = Inr (t, l')"
proof -
  let ?l = "skipSpaceAndOrdinaryComments l"
  have z: "left ?l = 0" using Next_token_spec(2) [of l] assms by (cases "left ?l = 0") (auto simp: makes_def)
  from Next_token_spec(1) [OF z] assms have t: "t = \<lparr>Type = TokenEOF, Literal = [], Start = pos ?l, End = pos ?l\<rparr>" "l' = ?l"
    by auto
  have s: "skipSpaceAndOrdinaryComments l' = l'"
    using cur_left [OF z] by (subst skipSpaceAndOrdinaryComments.simps) (simp add: t(2))
  with z t(2) have "left (skipSpaceAndOrdinaryComments l') = 0" by simp
  from Next_token_spec(1) [OF this] show ?thesis unfolding s by (simp add: t)
qed

lemma next_non_doc_tokens:
  "all_tokens l = Inr ts \<Longrightarrow> \<exists>t l' ts'. next_non_doc l = Inr (t, l') \<and> all_tokens l' = Inr ts' \<and> lsrc l' = lsrc l \<and>
     non_doc ts = (if Type t = TokenEOF then [t] else t # non_doc ts') \<and> (Type t = TokenEOF \<longrightarrow> ts' = [t])"
proof (induction l arbitrary: ts rule: all_tokens.induct)
  case (1 l)
  obtain t l' where n: "Next_token l = Inr (t, l')"
    using "1.prems" by (subst (asm) all_tokens.simps) auto
  have src: "lsrc l' = lsrc l" by (rule Next_token_source [OF n])
  show ?case
  proof (cases "Type t = TokenEOF")
    case True
    then have "ts = [t]" using "1.prems" n by (subst (asm) all_tokens.simps) simp
    moreover have "all_tokens l' = Inr [t]"
      using Next_token_eof [OF n True] True by (subst all_tokens.simps) simp
    moreover have "next_non_doc l = Inr (t, l')"
      using n True by (subst next_non_doc.simps) (simp add: token_types)
    ultimately show ?thesis using True src by (auto simp: non_doc_def token_types)
  next
    case False
    then obtain us where us: "all_tokens l' = Inr us" "ts = t # us"
      using "1.prems" n by (subst (asm) all_tokens.simps) auto
    show ?thesis
    proof (cases "Type t = TokenDocComment")
      case True
      then have "next_non_doc l = next_non_doc l'" using n by (subst next_non_doc.simps) simp
      moreover have "non_doc ts = non_doc us" using us True by (simp add: non_doc_def)
      ultimately show ?thesis using "1.IH" [OF n refl False us(1)] src by auto
    next
      case d: False
      then have "next_non_doc l = Inr (t, l')" using n by (subst next_non_doc.simps) simp
      then show ?thesis using us d False src by (auto simp: non_doc_def)
    qed
  qed
qed

text \<open>Look-ahead is exact and without effect. \<^verbatim>\<open>PeekToken\<close> returns the token \<^verbatim>\<open>Next\<close> would
  return; \<^verbatim>\<open>PeekNextNonDoc\<close> and \<^verbatim>\<open>PeekSecond\<close> return the first and the second token that is no
  doc comment (the end-of-file token again when there is no second one); and the state of the
  lexer afterwards is the one before.
\<close>

theorem lookahead_exact:
  assumes "all_tokens l = Inr ts"
  shows "PeekToken l = Inr (hd ts, l) \<and> PeekNextNonDoc l = Inr (non_doc ts ! 0) \<and>
    PeekSecond l = Inr (if length (non_doc ts) = 1 then non_doc ts ! 0 else non_doc ts ! 1, l)"
proof (intro conjI)
  have same: "l'\<lparr>lidx := lidx l, lline := lline l, lcol := lcol l\<rparr> = l" if "lsrc l' = lsrc l" for l'
    using that by simp
  obtain t l' where n: "Next_token l = Inr (t, l')"
    using assms by (subst (asm) all_tokens.simps) auto
  then have "hd ts = t" using assms by (subst (asm) all_tokens.simps) (auto split: if_splits)
  then show "PeekToken l = Inr (hd ts, l)"
    unfolding PeekToken_def n using same [OF Next_token_source [OF n]] by simp
  obtain u l1 ts1 where u: "next_non_doc l = Inr (u, l1)" "all_tokens l1 = Inr ts1" "lsrc l1 = lsrc l"
    "non_doc ts = (if Type u = TokenEOF then [u] else u # non_doc ts1)" "Type u = TokenEOF \<longrightarrow> ts1 = [u]"
    using next_non_doc_tokens [OF assms] by blast
  have copy: "\<lparr>lsrc = lsrc l, lidx = lidx l, lline = lline l, lcol = lcol l\<rparr> = l" by simp
  show "PeekNextNonDoc l = Inr (non_doc ts ! 0)" unfolding PeekNextNonDoc_def copy using u(1,4) by simp
  obtain v l2 ts2 where v: "next_non_doc l1 = Inr (v, l2)" "lsrc l2 = lsrc l1"
    "non_doc ts1 = (if Type v = TokenEOF then [v] else v # non_doc ts2)"
    using next_non_doc_tokens [OF u(2)] by blast
  show "PeekSecond l = Inr (if length (non_doc ts) = 1 then non_doc ts ! 0 else non_doc ts ! 1, l)"
  proof (cases "Type u = TokenEOF")
    case True
    then have "non_doc ts1 = [u]" using u(5) by (simp add: non_doc_def token_types)
    then have "v = u" using v(3) by (simp split: if_splits)
    then show ?thesis using u v(1,2) True same by (simp add: PeekSecond_def)
  next
    case False
    then show ?thesis using u v same by (auto simp: PeekSecond_def)
  qed
qed

lemma lookahead_exact_witness: "\<exists>t. PeekSecond (New ''a'') = Inr (t, New ''a'')"
proof -
  obtain ts where "all_tokens (New ''a'') = Inr ts" using lexing_total [of "''a''"] by auto
  from lookahead_exact [OF this] show ?thesis by blast
qed

section \<open>Printing and lexing\<close>

text \<open>A lexer in front of the text \<open>u\<close>.\<close>

definition before :: "lexer \<Rightarrow> string \<Rightarrow> bool" where
  "before l u \<longleftrightarrow> lidx l \<le> length (lsrc l) \<and> drop (lidx l) (lsrc l) = u"

lemma before_New: "before (New s) s"
  by (simp add: before_def New_def)

lemma before_cur: "before l u \<Longrightarrow> cur l = (case u of [] \<Rightarrow> None | c # _ \<Rightarrow> Some c)"
  by (auto simp: before_def cur_def eof_def hd_drop_conv_nth [symmetric] split: list.split)

lemma before_left: "before l u \<Longrightarrow> left l = length u"
  by (auto simp: before_def left_def)

lemma before_peekN: "before l u \<Longrightarrow> peekN l n = (if n < length u then u ! n else CHR 0x00)"
  by (auto simp: before_def peekN_def)

lemma before_advance: "before l (c # u) \<Longrightarrow> before (advance l) u"
proof -
  assume a: "before l (c # u)"
  then have "lidx l < length (lsrc l)" unfolding before_def by (metis drop_all linorder_not_le list.distinct(1))
  then show ?thesis using a by (simp add: before_def) (metis drop_Suc tl_drop list.sel(3))
qed

lemma before_funpow: "before l (v @ u) \<Longrightarrow> length v = n \<Longrightarrow> before ((advance ^^ n) l) u"
proof (induction v arbitrary: n l)
  case (Cons c v)
  then obtain m where "n = Suc m" "length v = m" by auto
  with Cons.IH [of "advance l" m] before_advance [of l c "v @ u"] Cons.prems show ?case
    by (simp add: funpow_swap1)
qed simp

lemma before_skip_while: "before l u \<Longrightarrow> before (skip_while P l) (dropWhile P u)"
proof (induction u arbitrary: l)
  case Nil
  then show ?case using before_cur [OF Nil] by (subst skip_while.simps) simp
next
  case (Cons c u)
  from Cons.IH [OF before_advance [OF Cons.prems]] Cons.prems before_cur [OF Cons.prems] show ?case
    by (subst skip_while.simps) simp
qed

lemma before_slice:
  assumes "before l u" "before l' v" "lsrc l' = lsrc l" "lidx l \<le> lidx l'"
  shows "u = slice (lsrc l) (lidx l) (lidx l') @ v"
proof -
  have "slice (lsrc l) (lidx l) (lidx l') @ drop (lidx l') (lsrc l) = drop (lidx l) (lsrc l)"
    using slice_append [OF assms(4), of "length (lsrc l)" "lsrc l"] assms
    by (auto simp: before_def slice_def)
  then show ?thesis using assms by (simp add: before_def)
qed

lemma readIdent_before:
  assumes "before l (w @ u)" "list_all isIdentPart w" "u = [] \<or> \<not> isIdentPart (hd u)"
  shows "\<exists>l'. readIdent l = (w, l') \<and> before l' u"
proof -
  have d: "dropWhile isIdentPart (w @ u) = u" using assms(2,3) by (induction w) (cases u; auto)+
  have "before (skip_while isIdentPart l) u" using before_skip_while [OF assms(1), of isIdentPart] d by simp
  moreover have "w = slice (lsrc l) (lidx l) (lidx (skip_while isIdentPart l))"
    using before_slice [OF assms(1) calculation] moves_facts(1,2) [OF moves_skip_while [where l = l and P = isIdentPart]] by simp
  ultimately show ?thesis by (simp add: readIdent_def Let_def)
qed

lemma readDecimal_before:
  "before l (w @ u) \<Longrightarrow> list_all isDigit w \<Longrightarrow> u = [] \<or> hd u = CHR '' '' \<Longrightarrow>
   \<exists>l'. readDecimal l buf False = (buf @ w, l') \<and> before l' u"
proof (induction w arbitrary: l buf)
  case Nil
  have "\<not> isDigit (CHR '' '')" by (simp add: isDigit_def char_between_def)
  then show ?case using Nil before_cur [of l u]
    by (subst readDecimal.simps) (auto split: list.splits)
next
  case (Cons c w)
  from Cons.IH [OF before_advance, of l c "buf @ [c]"] Cons.prems before_cur [of l "c # w @ u"] show ?case
    by (subst readDecimal.simps) simp
qed

text \<open>
  The tokens that are printed as they are: words that are no type alias, decimal numbers without
  a leading zero, and the symbols.
\<close>

definition plain_word :: "string \<Rightarrow> bool" where
  "plain_word w \<longleftrightarrow> w \<noteq> [] \<and> isIdentStart (hd w) \<and> list_all isIdentPart w \<and> normalizeTypeAlias w = w"

definition plain_number :: "string \<Rightarrow> bool" where
  "plain_number w \<longleftrightarrow> w \<noteq> [] \<and> list_all isDigit w \<and> (length w = 1 \<or> hd w \<noteq> CHR ''0'')"

definition char_at :: "string \<Rightarrow> nat \<Rightarrow> char" where
  "char_at w i = (if i < length w then w ! i else CHR '' '')"

definition plain_symbol :: "token_type \<Rightarrow> string \<Rightarrow> bool" where
  "plain_symbol ty w \<longleftrightarrow>
     w \<noteq> [] \<and> symbol_token (char_at w 0) (char_at w 1) (char_at w 2) (char_at w 3) = Some (length w, ty, w)"

definition plain_token :: "token_type \<times> string \<Rightarrow> bool" where
  "plain_token t \<longleftrightarrow> (case t of (ty, w) \<Rightarrow>
     plain_word w \<and> ty = keywordType w \<or> plain_number w \<and> ty = TokenNumber \<or> plain_symbol ty w)"

definition print_tokens :: "(token_type \<times> string) list \<Rightarrow> string" where
  "print_tokens ts = concat (map (\<lambda>(ty, w). w @ '' '') ts)"

lemma skipSpace_space: "before l (CHR '' '' # u) \<Longrightarrow> skipSpaceAndOrdinaryComments l = skipSpaceAndOrdinaryComments (advance l)"
  using before_cur [of l "CHR '' '' # u"] by (subst skipSpaceAndOrdinaryComments.simps) (simp add: isSpace_def)

lemma skipSpace_stop:
  assumes "before l u" "u = [] \<or> \<not> isSpace (hd u) \<and> \<not> (hd u = CHR ''/'' \<and> (u ! 1 = CHR ''/'' \<or> u ! 1 = CHR ''*''))"
    "u = [] \<or> 1 < length u"
  shows "skipSpaceAndOrdinaryComments l = l"
  using assms(2,3) before_cur [OF assms(1)] before_peekN [OF assms(1)]
  by (subst skipSpaceAndOrdinaryComments.simps) (cases u; auto)

lemma symbol_token_chars:
  assumes "symbol_token c c1 c2 c3 = Some (n, ty, w)"
  shows "\<not> isSpace c" "\<not> isIdentStart c" "\<not> isDigit c" "c = CHR ''/'' \<Longrightarrow> n = 1 \<or> c1 = CHR ''=''"
proof -
  have "c \<in> set ''(){}[]:;,.-=!<>&|^~+*/%@?''"
    using assms
    by (simp add: symbol_token_def or_else_def bracket_token_def equality_token_def shift_token_def logic_token_def
        arith_token_def split: option.splits if_splits)
  then show "\<not> isSpace c" "\<not> isIdentStart c" "\<not> isDigit c"
    by (auto simp: isSpace_def isIdentStart_def isDigit_def char_between_def)
  show "c = CHR ''/'' \<Longrightarrow> n = 1 \<or> c1 = CHR ''=''"
    using assms by (simp add: symbol_token_def or_else_def bracket_token_def equality_token_def shift_token_def
        logic_token_def arith_token_def split: if_splits)
qed

lemma symbol_token_not_eof: "symbol_token c c1 c2 c3 = Some (n, ty, w) \<Longrightarrow> ty \<noteq> TokenEOF"
  by (simp add: symbol_token_def or_else_def bracket_token_def equality_token_def shift_token_def
      logic_token_def arith_token_def token_types split: option.splits if_splits)

lemma symbol_token_local:
  assumes "symbol_token c c1 c2 c3 = Some (n, ty, w)" "n \<ge> 2 \<longrightarrow> c2' = c2" "n \<ge> 3 \<longrightarrow> c3' = c3"
  shows "symbol_token c c1 c2' c3' = Some (n, ty, w)"
proof (cases "shift_token c c1 c2 c3")
  case None
  then have "shift_token c c1 c2' c3' = None" by (simp add: shift_token_def split: if_splits)
  with None assms(1) show ?thesis by (simp add: symbol_token_def or_else_def)
next
  case (Some r)
  then have c: "bracket_token c = None" "equality_token c c1 = None"
    by (auto simp: shift_token_def bracket_token_def equality_token_def split: if_splits)
  with Some assms(1) have "r = (n, ty, w)" by (simp add: symbol_token_def or_else_def)
  with Some assms(2,3) have "shift_token c c1 c2' c3' = Some (n, ty, w)"
    by (auto simp: shift_token_def split: if_splits)
  with c show ?thesis by (simp add: symbol_token_def or_else_def)
qed

lemma symbol_token_None: "isIdentStart c \<or> isDigit c \<Longrightarrow> symbol_token c c1 c2 c3 = None"
  using symbol_token_chars(2,3) [of c c1 c2 c3] by (cases "symbol_token c c1 c2 c3") auto

lemma char_class_disjoint:
  "isIdentStart c \<Longrightarrow> \<not> isDigit c \<and> \<not> isSpace c \<and> c \<noteq> CHR ''/'' \<and> c \<noteq> double_quote \<and> c \<noteq> single_quote"
  "isDigit c \<Longrightarrow> \<not> isIdentStart c \<and> \<not> isSpace c \<and> c \<noteq> CHR ''/'' \<and> c \<noteq> double_quote \<and> c \<noteq> single_quote"
  by (auto simp: isIdentStart_def isDigit_def isSpace_def char_between_def)

text \<open>The token at the start of a printed token, with a space behind it.\<close>

lemma other_token_word:
  assumes b: "before l (w @ CHR '' '' # u)" and w: "plain_word w"
  shows "\<exists>t l'. other_token (hd w) start l = Inr (t, l') \<and> Type t = keywordType w \<and> Literal t = w \<and>
    before l' (CHR '' '' # u)"
proof -
  have "\<not> isIdentPart (CHR '' '')" by (simp add: isIdentPart_def isIdentStart_def isDigit_def char_between_def)
  then obtain l' where r: "readIdent l = (w, l')" "before l' (CHR '' '' # u)"
    using readIdent_before [OF b] w by (auto simp: plain_word_def)
  have "cur l' = Some (CHR '' '')" using before_cur [OF r(2)] by simp
  moreover have "isIdentStart (hd w)" "normalizeTypeAlias w = w" using w by (auto simp: plain_word_def)
  ultimately show ?thesis using r char_class_disjoint(1) [of "hd w"]
    by (simp add: other_token_def word_token_def mk_token_def)
qed

lemma other_token_number:
  assumes b: "before l (w @ CHR '' '' # u)" and w: "plain_number w"
  shows "\<exists>t l'. other_token (hd w) start l = Inr (t, l') \<and> Type t = TokenNumber \<and> Literal t = w \<and>
    before l' (CHR '' '' # u)"
proof -
  obtain c v where cv: "w = c # v" "isDigit c" using w by (cases w) (auto simp: plain_number_def)
  obtain l' where r: "readDecimal l [] False = (w, l')" "before l' (CHR '' '' # u)"
    using readDecimal_before [OF b, of "[]"] w by (auto simp: plain_number_def)
  have p: "peek l = Inr c" using before_cur [OF b] cv(1) by (auto simp: peek_def cur_def eof_def split: if_splits)
  have d: "w @ CHR '' '' # u = drop (lidx l) (lsrc l)" using b by (simp add: before_def)
  have "lsrc l ! (lidx l + 1) = (w @ CHR '' '' # u) ! 1" if "lidx l + 1 < length (lsrc l)"
    unfolding d using that by simp
  then have "\<not> (c = CHR ''0'' \<and> lidx l + 1 < length (lsrc l) \<and>
      (lsrc l ! (lidx l + 1) = CHR ''x'' \<or> lsrc l ! (lidx l + 1) = CHR ''X''))"
    using w cv(1) by (auto simp: plain_number_def)
  then have "readNumber l = Inr (w, l')" using p r(1) by (auto simp: readNumber_def)
  moreover have "\<not> (length w \<ge> 2 \<and> w ! 0 = CHR ''0'')" using w cv(1) by (auto simp: plain_number_def)
  ultimately show ?thesis using r(2) cv char_class_disjoint(2) [OF cv(2)]
    by (auto simp: other_token_def number_token_def mk_token_def)
qed

lemma Next_token_plain:
  assumes t: "plain_token (ty, w)" and b: "before l (w @ CHR '' '' # u)" and s: "skipSpaceAndOrdinaryComments l0 = l"
  shows "\<exists>t l'. Next_token l0 = Inr (t, l') \<and> Type t = ty \<and> Literal t = w \<and> before l' (CHR '' '' # u)"
proof -
  have w: "w \<noteq> []" using t by (auto simp: plain_token_def plain_word_def plain_number_def plain_symbol_def)
  then obtain c v where cv: "w = c # v" by (cases w) auto
  have cur: "cur l = Some (hd w)" using before_cur [OF b] cv by simp
  consider (word) "plain_word w" "ty = keywordType w" | (number) "plain_number w" "ty = TokenNumber"
    | (symbol) "plain_symbol ty w" using t by (auto simp: plain_token_def)
  then show ?thesis
  proof cases
    case word
    then have i: "isIdentStart (hd w)" by (simp add: plain_word_def)
    from other_token_word [OF b word(1)] show ?thesis
      using cur char_class_disjoint(1) [OF i] symbol_token_None [of "hd w"] i word(2)
      by (simp add: Next_token_def s Let_def)
  next
    case number
    then have i: "isDigit (hd w)" by (cases w) (auto simp: plain_number_def)
    from other_token_number [OF b number(1)] show ?thesis
      using cur char_class_disjoint(2) [OF i] symbol_token_None [of "hd w"] i number(2)
      by (simp add: Next_token_def s Let_def)
  next
    case symbol
    then have st: "symbol_token (char_at w 0) (char_at w 1) (char_at w 2) (char_at w 3) = Some (length w, ty, w)"
      by (simp add: plain_symbol_def)
    have p: "peekN l i = char_at w i" if "i \<le> length w" for i
      using before_peekN [OF b, of i] that by (auto simp: char_at_def nth_append)
    have "symbol_token (hd w) (peekN l 1) (peekN l 2) (peekN l 3) = Some (length w, ty, w)"
      using symbol_token_local [OF st, of "peekN l 2" "peekN l 3"] p [of 1] p [of 2] p [of 3] cv
      by (simp add: char_at_def)
    moreover have "\<not> (hd w = CHR ''/'' \<and> (peekN l 1 = CHR ''/'' \<or> peekN l 1 = CHR ''*''))"
      using symbol_token_chars(4) [OF st] p [of 1] cv by (cases v) (auto simp: char_at_def)
    moreover have "before ((advance ^^ length w) l) (CHR '' '' # u)" by (rule before_funpow [OF b refl])
    ultimately show ?thesis using cur by (auto simp: Next_token_def s Let_def mk_token_def)
  qed
qed

lemma skipSpace_plain:
  assumes t: "plain_token (ty, w)" and b: "before l (w @ CHR '' '' # u)"
  shows "skipSpaceAndOrdinaryComments l = l"
proof -
  have w: "w \<noteq> []" using t by (auto simp: plain_token_def plain_word_def plain_number_def plain_symbol_def)
  then obtain c v where cv: "w = c # v" by (cases w) auto
  consider "isIdentStart c" | "isDigit c" | "plain_symbol ty w"
    using t cv by (auto simp: plain_token_def plain_word_def plain_number_def)
  then have "\<not> isSpace c \<and> \<not> (c = CHR ''/'' \<and> ((v @ CHR '' '' # u) ! 0 = CHR ''/'' \<or> (v @ CHR '' '' # u) ! 0 = CHR ''*''))"
  proof cases
    case 3
    then have st: "symbol_token (char_at w 0) (char_at w 1) (char_at w 2) (char_at w 3) = Some (length w, ty, w)"
      by (simp add: plain_symbol_def)
    show ?thesis using symbol_token_chars(1,4) [OF st] cv by (cases v) (auto simp: char_at_def)
  qed (use char_class_disjoint in auto)
  then show ?thesis by (intro skipSpace_stop [OF b]) (auto simp: cv)
qed

lemma all_tokens_print:
  assumes "list_all plain_token ts"
  shows "before l (print_tokens ts) \<or> before l (CHR '' '' # print_tokens ts) \<Longrightarrow>
    \<exists>us. all_tokens l = Inr us \<and> map (\<lambda>t. (Type t, Literal t)) us = ts @ [(TokenEOF, [])]"
  using assms
proof (induction ts arbitrary: l)
  case Nil
  have "\<exists>l'. skipSpaceAndOrdinaryComments l = l' \<and> left l' = 0"
  proof (cases "before l []")
    case True
    then show ?thesis using before_left [OF True] skipSpace_stop [OF True] by simp
  next
    case False
    then have b: "before l [CHR '' '']" using Nil by (simp add: print_tokens_def)
    show ?thesis unfolding skipSpace_space [OF b] using skipSpace_stop [OF before_advance [OF b]] before_left [OF b] by simp
  qed
  then have "left (skipSpaceAndOrdinaryComments l) = 0" by simp
  from Next_token_spec(1) [OF this] show ?case by (subst all_tokens.simps) simp
next
  case (Cons t ts)
  obtain ty w where t: "t = (ty, w)" by fastforce
  then have p: "plain_token (ty, w)" "list_all plain_token ts" using Cons.prems(2) by auto
  have pr: "print_tokens (t # ts) = w @ CHR '' '' # print_tokens ts" by (simp add: print_tokens_def t)
  have "\<exists>l1. skipSpaceAndOrdinaryComments l = l1 \<and> before l1 (w @ CHR '' '' # print_tokens ts)"
  proof (cases "before l (print_tokens (t # ts))")
    case True
    then show ?thesis unfolding pr using skipSpace_plain [OF p(1)] by auto
  next
    case False
    then have b: "before l (CHR '' '' # w @ CHR '' '' # print_tokens ts)" using Cons.prems(1) unfolding pr by simp
    show ?thesis unfolding skipSpace_space [OF b]
      using skipSpace_plain [OF p(1) before_advance [OF b]] before_advance [OF b] by simp
  qed
  then obtain l1 where "skipSpaceAndOrdinaryComments l = l1" "before l1 (w @ CHR '' '' # print_tokens ts)" by auto
  from Next_token_plain [OF p(1) this(2,1)] obtain tok l' where n: "Next_token l = Inr (tok, l')" "Type tok = ty"
    "Literal tok = w" "before l' (CHR '' '' # print_tokens ts)" by auto
  have "ty \<noteq> TokenEOF"
    using p(1) keywordType_not_computed [of w]
    by (auto simp: plain_token_def plain_symbol_def computed_types_def token_types dest: symbol_token_not_eof [unfolded token_types])
  then show ?case using Cons.IH [OF disjI2 [OF n(4)] p(2)] n by (subst all_tokens.simps) (auto simp: t)
qed


text \<open>C32: Printing and lexing. Tokens that are words, decimal numbers or symbols, printed with a space
  behind each, lex to exactly these tokens and the end-of-file token.
\<close>

theorem print_lex_roundtrip:
  assumes "list_all plain_token ts"
  shows "\<exists>us. all_tokens (New (print_tokens ts)) = Inr us \<and>
    map (\<lambda>t. (Type t, Literal t)) us = ts @ [(TokenEOF, [])]"
  by (rule all_tokens_print [OF assms disjI1 [OF before_New]])

lemma print_lex_roundtrip_witness:
  "\<exists>us. all_tokens (New ''let x >>>= 10 ; '') = Inr us \<and> map (\<lambda>t. (Type t, Literal t)) us =
     [(TokenKwLet, ''let''), (TokenIdent, ''x''), (TokenShrAssign, ''>>>=''), (TokenNumber, ''10''),
      (TokenSemicolon, '';''), (TokenEOF, [])]"
proof -
  let ?ts = "[(TokenKwLet, ''let''), (TokenIdent, ''x''), (TokenShrAssign, ''>>>=''), (TokenNumber, ''10''),
      (TokenSemicolon, '';'')]"
  have k: "keywordType ''let'' = TokenKwLet" "keywordType ''x'' = TokenIdent"
    by (simp_all add: keywordType_def keyword_table_def)
  have w: "plain_word ''let''" "plain_word ''x''"
    by (simp_all add: plain_word_def isIdentStart_def isIdentPart_def isDigit_def char_between_def
        normalizeTypeAlias_def strings_HasPrefix_def)
  have n: "plain_number ''10''" by (simp add: plain_number_def isDigit_def char_between_def)
  have s: "plain_symbol TokenShrAssign ''>>>=''" "plain_symbol TokenSemicolon '';''"
    by (simp_all add: plain_symbol_def char_at_def symbol_token_def or_else_def bracket_token_def equality_token_def
        shift_token_def)
  have "list_all plain_token ?ts" using k w n s by (simp add: plain_token_def)
  from print_lex_roundtrip [OF this] show ?thesis by (simp add: print_tokens_def)
qed

section \<open>Hexadecimal strings\<close>

lemma hex_value_digit: "isHexDigit c \<Longrightarrow> \<exists>a. hex_value c = Some a"
  by (auto simp: isHexDigit_def hex_value_def)

lemma hex_DecodeString_digits:
  "list_all isHexDigit h \<Longrightarrow> even (length h) \<Longrightarrow> \<exists>bs. hex_DecodeString h = Inr bs"
  by (induction h rule: hex_DecodeString.induct) (auto dest!: hex_value_digit)

lemma read_hex_body_before:
  assumes "before l (h @ e)" "list_all isHexDigit h" "e \<in> {[], [q]}" "q \<in> {double_quote, single_quote}"
  shows "\<exists>l'. read_hex_body q l content n = (Inr (content @ h), l') \<and> before l' []"
  using assms(1,2)
proof (induction h arbitrary: l content n)
  case Nil
  then show ?case using assms(3) before_cur [of l e] before_advance [of l q "[]"]
    by (subst read_hex_body.simps) auto
next
  case (Cons c h)
  have c: "isHexDigit c" "c \<noteq> q" "c \<noteq> CHR ''_''"
    using Cons.prems(2) assms(4) by (auto simp: isHexDigit_def char_between_def)
  have "cur l = Some c" using before_cur [OF Cons.prems(1)] by simp
  then have "read_hex_body q l content n = read_hex_body q (advance l) (content @ [c]) (n + 1)"
    using c by (subst read_hex_body.simps) simp
  moreover have "before (advance l) (h @ e)" using before_advance [of l c "h @ e"] Cons.prems(1) by simp
  ultimately show ?case using Cons.IH [of "advance l" "content @ [c]" "n + 1"] Cons.prems(2) by auto
qed

text \<open>A hexadecimal string literal needs no closing quote: with the digits running to the end of
  the source the token is the same as with the quote, while the comment of \<^verbatim>\<open>readHexString\<close>
  promises to advance past the closing quote.
\<close>

theorem unterminated_hex_string:
  assumes "list_all isHexDigit h" "even (length h)" "q \<in> {double_quote, single_quote}" "e \<in> {[], [q]}"
  shows "\<exists>us. all_tokens (New (''hex'' @ q # h @ e)) = Inr us \<and>
    map (\<lambda>t. (Type t, Literal t)) us = [(TokenHexString, strings_ToLower h), (TokenEOF, [])]"
proof -
  define l where "l = New (''hex'' @ q # h @ e)"
  have b: "before l (''hex'' @ q # h @ e)" unfolding l_def by (rule before_New)
  have q: "\<not> isIdentPart q"
    using assms(3) by (auto simp: isIdentPart_def isIdentStart_def isDigit_def char_between_def)
  have w: "list_all isIdentPart ''hex''" "isIdentStart (CHR ''h'')" "normalizeTypeAlias ''hex'' = ''hex''"
    by (simp_all add: isIdentPart_def isIdentStart_def char_between_def normalizeTypeAlias_def strings_HasPrefix_def)
  obtain l1 where l1: "readIdent l = (''hex'', l1)" "before l1 (q # h @ e)"
    using readIdent_before [OF b w(1)] q by auto
  obtain l2 where l2: "read_hex_body q (advance l1) [] 0 = (Inr h, l2)" "before l2 []"
    using read_hex_body_before [OF before_advance [OF l1(2)] assms(1,4,3), of "[]" 0] by auto
  obtain bs where "hex_DecodeString h = Inr bs" using hex_DecodeString_digits [OF assms(1,2)] by blast
  then have h: "readHexString q l1 = (Inr (strings_ToLower h), l2)"
    using l2(1) assms(2) by (simp add: readHexString_def hex_content_def even_iff_mod_2_eq_zero)
  have s: "skipSpaceAndOrdinaryComments l = l"
    by (rule skipSpace_stop [OF b]) (simp_all add: isSpace_def)
  have o: "other_token (CHR ''h'') (pos l) l = Inr (mk_token TokenHexString (strings_ToLower h) (pos l) l2)"
    using l1 h w before_cur [OF l1(2)] assms(3) char_class_disjoint(1) [OF w(2)]
    by (auto simp: other_token_def word_token_def literal_token_def)
  have "cur l = Some (CHR ''h'')" using before_cur [OF b] by simp
  then have n: "Next_token l = Inr (mk_token TokenHexString (strings_ToLower h) (pos l) l2)"
    using o symbol_token_None [of "CHR ''h''"] w(2) by (simp add: Next_token_def s Let_def)
  have "skipSpaceAndOrdinaryComments l2 = l2" "left l2 = 0"
    using skipSpace_stop [OF l2(2)] before_left [OF l2(2)] by auto
  then have "all_tokens l2 = Inr [\<lparr>Type = TokenEOF, Literal = [], Start = pos l2, End = pos l2\<rparr>]"
    using Next_token_spec(1) [of l2] by (subst all_tokens.simps) simp
  then show ?thesis using n unfolding l_def [symmetric]
    by (subst all_tokens.simps) (simp add: mk_token_def token_types)
qed

lemma unterminated_hex_string_witness:
  "\<exists>us. all_tokens (New (''hex'' @ double_quote # ''ab'' @ [])) = Inr us \<and>
    map (\<lambda>t. (Type t, Literal t)) us = [(TokenHexString, ''ab''), (TokenEOF, [])]"
  using unterminated_hex_string [of "''ab''" double_quote "[]"]
  by (simp add: isHexDigit_def char_between_def strings_ToLower_def ascii_lower_def)

end
