(* ===== verification/FrameStack.thy ===== *)
theory FrameStack
  imports Prelude
begin

text \<open>
  The call frame stacks (\<^verbatim>\<open>state.go\<close>): the interface \<^verbatim>\<open>callFrameStack\<close> as a locale,
  the stack of fixed size and the stack that grows by segments of eight frames as its two
  implementations. A \<^verbatim>\<open>*callFrame\<close> points into a stack; the operations that return one
  return the frame it points at, the virtual machine (theory \<open>VM\<close>) uses the slot number. The
  main results: on every sequence of pushes and pops that fits, both stacks show the
  same frames; and the two operations of the growing stack that depart from the interface.
\<close>

record callFrame =
  Idx :: int
  Fn :: "nat option"
  Parent :: "nat option"
  Pc :: int
  Base :: int
  LocalBase :: int
  ReturnBase :: int
  NArgs :: int
  NRet :: int
  TailCall :: int

definition zero_frame :: callFrame where
  "zero_frame = \<lparr>Idx = 0, Fn = None, Parent = None, Pc = 0, Base = 0, LocalBase = 0,
     ReturnBase = 0, NArgs = 0, NRet = 0, TailCall = 0\<rparr>"

section \<open>The fixed stack\<close>

record fixedCallFrameStack =
  farray :: "callFrame list"
  fsp :: int

definition newFixedCallFrameStack :: "nat \<Rightarrow> fixedCallFrameStack" where
  "newFixedCallFrameStack sz = \<lparr>farray = replicate sz zero_frame, fsp = 0\<rparr>"

definition fixed_IsEmpty :: "fixedCallFrameStack \<Rightarrow> bool" where
  "fixed_IsEmpty cs \<longleftrightarrow> fsp cs = 0"

definition fixed_IsFull :: "fixedCallFrameStack \<Rightarrow> bool" where
  "fixed_IsFull cs \<longleftrightarrow> fsp cs = int (length (farray cs))"

definition fixed_Clear :: "fixedCallFrameStack \<Rightarrow> fixedCallFrameStack" where
  "fixed_Clear cs = cs\<lparr>fsp := 0\<rparr>"

definition fixed_Push :: "callFrame \<Rightarrow> fixedCallFrameStack \<Rightarrow> go_panic + fixedCallFrameStack" where
  "fixed_Push v cs =
     (if 0 \<le> fsp cs \<and> fsp cs < int (length (farray cs))
      then Inr (cs\<lparr>farray := (farray cs)[nat (fsp cs) := v\<lparr>Idx := fsp cs\<rparr>], fsp := fsp cs + 1\<rparr>)
      else Inl PIndexOutOfRange)"

definition fixed_Sp :: "fixedCallFrameStack \<Rightarrow> int" where
  "fixed_Sp cs = fsp cs"

definition fixed_SetSp :: "int \<Rightarrow> fixedCallFrameStack \<Rightarrow> fixedCallFrameStack" where
  "fixed_SetSp sp cs = cs\<lparr>fsp := sp\<rparr>"

definition fixed_At :: "int \<Rightarrow> fixedCallFrameStack \<Rightarrow> go_panic + callFrame" where
  "fixed_At sp cs =
     (if 0 \<le> sp \<and> sp < int (length (farray cs)) then Inr (farray cs ! nat sp) else Inl PIndexOutOfRange)"

definition fixed_Last :: "fixedCallFrameStack \<Rightarrow> go_panic + callFrame option" where
  "fixed_Last cs = (if fsp cs = 0 then Inr None else bindr (fixed_At (fsp cs - 1) cs) (\<lambda>f. Inr (Some f)))"

definition fixed_Pop :: "fixedCallFrameStack \<Rightarrow> go_panic + (fixedCallFrameStack \<times> callFrame option)" where
  "fixed_Pop cs =
     (let cs = cs\<lparr>fsp := fsp cs - 1\<rparr> in bindr (fixed_At (fsp cs) cs) (\<lambda>f. Inr (cs, Some f)))"

section \<open>The growing stack\<close>

text \<open>
  A segment is an array of eight frames; a nil segment pointer is \<open>None\<close>. The segment index is
  16 bits wide, so the conversions to it are modulo \<open>2 ^ 16\<close>. A segment taken from the pool may
  hold old frames: which ones is an argument of \<^verbatim>\<open>Push\<close>.
\<close>

definition FramesPerSegment :: nat where "FramesPerSegment = 8"

definition to_segIdx :: "int \<Rightarrow> nat" where
  "to_segIdx n = nat (n mod 2 ^ 16)"

record autoGrowingCallFrameStack =
  segments :: "callFrame list option list"
  segIdx :: nat
  segSp :: nat

definition newAutoGrowingCallFrameStack :: "callFrame list \<Rightarrow> nat \<Rightarrow> go_panic + autoGrowingCallFrameStack" where
  "newAutoGrowingCallFrameStack seg maxSize =
     (let segs = replicate ((maxSize + (FramesPerSegment - 1)) div FramesPerSegment) None
      in if segs = [] then Inl PIndexOutOfRange
         else Inr \<lparr>segments = segs[0 := Some seg], segIdx = 0, segSp = 0\<rparr>)"

definition growing_IsEmpty :: "autoGrowingCallFrameStack \<Rightarrow> bool" where
  "growing_IsEmpty cs \<longleftrightarrow> segIdx cs = 0 \<and> segSp cs = 0"

definition growing_IsFull :: "autoGrowingCallFrameStack \<Rightarrow> bool" where
  "growing_IsFull cs \<longleftrightarrow> segIdx cs = length (segments cs) \<and> segSp cs \<ge> FramesPerSegment"

text \<open>Reading and writing through a segment pointer.\<close>

definition segment_at :: "autoGrowingCallFrameStack \<Rightarrow> nat \<Rightarrow> go_panic + callFrame list" where
  "segment_at cs i =
     (if i < length (segments cs)
      then (case segments cs ! i of None \<Rightarrow> Inl PNilPointer | Some seg \<Rightarrow> Inr seg)
      else Inl PIndexOutOfRange)"

definition frame_in :: "callFrame list \<Rightarrow> nat \<Rightarrow> go_panic + callFrame" where
  "frame_in seg i = (if i < length seg then Inr (seg ! i) else Inl PIndexOutOfRange)"

definition growing_Clear :: "autoGrowingCallFrameStack \<Rightarrow> autoGrowingCallFrameStack" where
  "growing_Clear cs =
     cs\<lparr>segments := fold (\<lambda>i segs. segs[i := None]) [1..<segIdx cs + 1] (segments cs), segIdx := 0, segSp := 0\<rparr>"

definition growing_FreeAll :: "autoGrowingCallFrameStack \<Rightarrow> autoGrowingCallFrameStack" where
  "growing_FreeAll cs = cs\<lparr>segments := fold (\<lambda>i segs. segs[i := None]) [0..<segIdx cs + 1] (segments cs)\<rparr>"

definition growing_write ::
  "callFrame \<Rightarrow> autoGrowingCallFrameStack \<Rightarrow> go_panic + autoGrowingCallFrameStack" where
  "growing_write v cs =
     bindr (segment_at cs (segIdx cs)) (\<lambda>seg.
       if segSp cs < length seg
       then Inr (cs\<lparr>segments := (segments cs)[segIdx cs :=
                     Some (seg[segSp cs := v\<lparr>Idx := int (segSp cs + FramesPerSegment * segIdx cs)\<rparr>])],
                   segSp := segSp cs + 1\<rparr>)
       else Inl PIndexOutOfRange)"

definition growing_Push ::
  "callFrame list \<Rightarrow> callFrame \<Rightarrow> autoGrowingCallFrameStack \<Rightarrow> go_panic + autoGrowingCallFrameStack" where
  "growing_Push pool v cs =
     (if segSp cs \<ge> FramesPerSegment
      then if segIdx cs < to_segIdx (int (length (segments cs)) - 1)
           then growing_write v
                  (cs\<lparr>segIdx := segIdx cs + 1, segments := (segments cs)[segIdx cs + 1 := Some pool], segSp := 0\<rparr>)
           else Inl (PMessage ''lua callstack overflow'')
      else growing_write v cs)"

definition growing_Sp :: "autoGrowingCallFrameStack \<Rightarrow> int" where
  "growing_Sp cs = int (segSp cs) + int (segIdx cs) * int FramesPerSegment"

fun free_segments :: "nat \<Rightarrow> nat \<Rightarrow> callFrame list option list \<Rightarrow> callFrame list option list \<times> nat" where
  "free_segments desired 0 segs = (segs, 0)"
| "free_segments desired (Suc i) segs =
     (if Suc i \<le> desired then (segs, Suc i) else free_segments desired i (segs[Suc i := None]))"

definition growing_SetSp :: "nat \<Rightarrow> autoGrowingCallFrameStack \<Rightarrow> autoGrowingCallFrameStack" where
  "growing_SetSp sp cs =
     (let (segs, idx) = free_segments (to_segIdx (int (sp div FramesPerSegment))) (segIdx cs) (segments cs)
      in cs\<lparr>segments := segs, segIdx := idx, segSp := sp mod FramesPerSegment\<rparr>)"

definition growing_Last :: "autoGrowingCallFrameStack \<Rightarrow> go_panic + callFrame option" where
  "growing_Last cs =
     (if segSp cs = 0
      then if segIdx cs = 0 then Inr None
           else bindr (segment_at cs (segIdx cs - 1)) (\<lambda>seg.
                bindr (frame_in seg (FramesPerSegment - 1)) (\<lambda>f. Inr (Some f)))
      else bindr (segment_at cs (segIdx cs)) (\<lambda>seg.
           bindr (frame_in seg (segSp cs - 1)) (\<lambda>f. Inr (Some f))))"

definition growing_At :: "nat \<Rightarrow> autoGrowingCallFrameStack \<Rightarrow> go_panic + callFrame" where
  "growing_At sp cs =
     bindr (segment_at cs (to_segIdx (int (sp div FramesPerSegment)))) (\<lambda>seg. frame_in seg (sp mod FramesPerSegment))"

definition growing_Pop ::
  "autoGrowingCallFrameStack \<Rightarrow> go_panic + (autoGrowingCallFrameStack \<times> callFrame option)" where
  "growing_Pop cs =
     (if segSp cs = 0 \<and> segIdx cs = 0 then Inr (cs, None)
      else
        let cs = (if segSp cs = 0
                  then cs\<lparr>segments := (segments cs)[segIdx cs := None], segIdx := segIdx cs - 1, segSp := FramesPerSegment\<rparr>
                  else cs);
            cs = cs\<lparr>segSp := segSp cs - 1\<rparr>
        in bindr (segment_at cs (segIdx cs)) (\<lambda>seg.
           bindr (frame_in seg (segSp cs)) (\<lambda>f. Inr (cs, Some f))))"

section \<open>The interface\<close>

text \<open>
  What the virtual machine relies on: \<open>frames\<close> are the frames on the stack, oldest first, each
  with its position as index; \<open>cap\<close> is the number of frames that fit.
\<close>

definition indexed :: "callFrame list \<Rightarrow> bool" where
  "indexed fs \<longleftrightarrow> (\<forall>i < length fs. Idx (fs ! i) = int i)"

lemma indexed_snoc: "indexed fs \<Longrightarrow> indexed (fs @ [v\<lparr>Idx := int (length fs)\<rparr>])"
  by (auto simp: indexed_def nth_append less_Suc_eq)

lemma indexed_butlast: "indexed fs \<Longrightarrow> indexed (butlast fs)"
  by (auto simp: indexed_def nth_butlast)

locale frame_stack =
  fixes inv :: "'s \<Rightarrow> bool"
    and frames :: "'s \<Rightarrow> callFrame list"
    and cap :: "'s \<Rightarrow> nat"
    and isEmpty :: "'s \<Rightarrow> bool"
    and push :: "callFrame \<Rightarrow> 's \<Rightarrow> go_panic + 's"
    and pop :: "'s \<Rightarrow> go_panic + ('s \<times> callFrame option)"
    and lastf :: "'s \<Rightarrow> go_panic + callFrame option"
    and at :: "nat \<Rightarrow> 's \<Rightarrow> go_panic + callFrame"
    and sp :: "'s \<Rightarrow> int"
  assumes isEmpty: "inv s \<Longrightarrow> isEmpty s \<longleftrightarrow> frames s = []"
    and sp: "inv s \<Longrightarrow> sp s = int (length (frames s))"
    and fits: "inv s \<Longrightarrow> length (frames s) \<le> cap s"
    and indexed: "inv s \<Longrightarrow> indexed (frames s)"
    and lastf: "inv s \<Longrightarrow> lastf s = Inr (if frames s = [] then None else Some (last (frames s)))"
    and at: "inv s \<Longrightarrow> i < length (frames s) \<Longrightarrow> at i s = Inr (frames s ! i)"
    and push: "inv s \<Longrightarrow> length (frames s) < cap s \<Longrightarrow>
      \<exists>s'. push v s = Inr s' \<and> inv s' \<and> cap s' = cap s \<and> frames s' = frames s @ [v\<lparr>Idx := int (length (frames s))\<rparr>]"
    and push_full: "inv s \<Longrightarrow> length (frames s) = cap s \<Longrightarrow> \<exists>e. push v s = Inl e"
    and pop: "inv s \<Longrightarrow> frames s \<noteq> [] \<Longrightarrow>
      \<exists>s'. pop s = Inr (s', Some (last (frames s))) \<and> inv s' \<and> cap s' = cap s \<and> frames s' = butlast (frames s)"
begin

fun pushes :: "callFrame list \<Rightarrow> 's \<Rightarrow> go_panic + 's" where
  "pushes [] s = Inr s"
| "pushes (v # vs) s = bindr (push v s) (pushes vs)"

fun pops :: "nat \<Rightarrow> 's \<Rightarrow> go_panic + 's" where
  "pops 0 s = Inr s"
| "pops (Suc n) s = bindr (pop s) (\<lambda>(s, _). pops n s)"

lemma pop_push:
  "inv s \<Longrightarrow> push v s = Inr s' \<Longrightarrow>
    \<exists>s''. pop s' = Inr (s'', Some (v\<lparr>Idx := sp s\<rparr>)) \<and> inv s'' \<and> frames s'' = frames s"
  using push [of s v] push_full [of s v] fits [of s] pop [of s'] sp [of s]
  by (cases "length (frames s) = cap s") auto

lemma pushes_frames:
  "inv s \<Longrightarrow> length (frames s) + length vs \<le> cap s \<Longrightarrow>
    \<exists>s'. pushes vs s = Inr s' \<and> inv s' \<and> cap s' = cap s \<and>
      length (frames s') = length (frames s) + length vs \<and> take (length (frames s)) (frames s') = frames s"
proof (induction vs arbitrary: s)
  case (Cons v vs)
  then obtain s1 where s1: "push v s = Inr s1" "inv s1" "cap s1 = cap s"
    "frames s1 = frames s @ [v\<lparr>Idx := int (length (frames s))\<rparr>]" using push [of s v] by auto
  then obtain s2 where s2: "pushes vs s1 = Inr s2" "inv s2" "cap s2 = cap s1"
    "length (frames s2) = length (frames s1) + length vs" "take (length (frames s1)) (frames s2) = frames s1"
    using Cons.IH [of s1] Cons.prems by auto
  have "take (length (frames s)) (take (length (frames s1)) (frames s2)) = frames s" using s1(4) s2(5) by simp
  then have "take (length (frames s)) (frames s2) = frames s" using s1(4) by (simp add: min_def)
  then show ?case using s1 s2 by simp
qed simp

lemma pops_frames:
  "inv s \<Longrightarrow> n \<le> length (frames s) \<Longrightarrow>
    \<exists>s'. pops n s = Inr s' \<and> inv s' \<and> cap s' = cap s \<and> frames s' = take (length (frames s) - n) (frames s)"
proof (induction n arbitrary: s)
  case (Suc n)
  then obtain s1 where s1: "pop s = Inr (s1, Some (last (frames s)))" "inv s1" "cap s1 = cap s" "frames s1 = butlast (frames s)"
    using pop [of s] by force
  then obtain s2 where "pops n s1 = Inr s2" "inv s2" "cap s2 = cap s1" "frames s2 = take (length (frames s1) - n) (frames s1)"
    using Suc.IH [of s1] Suc.prems by fastforce
  then show ?case using s1 Suc.prems by (simp add: butlast_conv_take min_def)
qed simp

text \<open>Calls that return leave the frames below them as they were.\<close>

lemma balanced:
  assumes "inv s" "length (frames s) + length vs \<le> cap s"
  shows "\<exists>s1 s2. pushes vs s = Inr s1 \<and> pops (length vs) s1 = Inr s2 \<and> inv s2 \<and> frames s2 = frames s"
  using pushes_frames [OF assms] pops_frames [of _ "length vs"] by fastforce

end

section \<open>Both stacks implement it\<close>

definition fixed_frames :: "fixedCallFrameStack \<Rightarrow> callFrame list" where
  "fixed_frames cs = take (nat (fsp cs)) (farray cs)"

definition fixed_inv :: "fixedCallFrameStack \<Rightarrow> bool" where
  "fixed_inv cs \<longleftrightarrow> 0 \<le> fsp cs \<and> fsp cs \<le> int (length (farray cs)) \<and> indexed (fixed_frames cs)"

lemma fixed_lengths: "fixed_inv cs \<Longrightarrow> length (fixed_frames cs) = nat (fsp cs)"
  by (auto simp: fixed_inv_def fixed_frames_def min_def)

lemma take_snoc_update: "i < length xs \<Longrightarrow> take (Suc i) (xs[i := v]) = take i xs @ [v]"
  by (simp add: take_Suc_conv_app_nth)

interpretation fixed: frame_stack fixed_inv fixed_frames "\<lambda>cs. length (farray cs)" fixed_IsEmpty
  fixed_Push fixed_Pop fixed_Last "\<lambda>i. fixed_At (int i)" fixed_Sp
proof (unfold_locales, goal_cases)
  case (1 s)
  then show ?case using fixed_lengths [of s] by (auto simp: fixed_IsEmpty_def fixed_inv_def simp flip: length_0_conv)
next
  case (2 s)
  then show ?case using fixed_lengths [of s] by (simp add: fixed_Sp_def fixed_inv_def)
next
  case (3 s)
  then show ?case using fixed_lengths [of s] by (simp add: fixed_inv_def nat_le_iff)
next
  case (4 s)
  then show ?case by (simp add: fixed_inv_def)
next
  case (5 s)
  then show ?case using fixed_lengths [of s]
    by (auto simp: fixed_Last_def fixed_At_def fixed_inv_def fixed_frames_def last_conv_nth nat_diff_distrib min_def)
next
  case (6 s i)
  then show ?case by (auto simp: fixed_At_def fixed_frames_def)
next
  case (7 s v)
  let ?i = "nat (fsp s)"
  have l: "?i < length (farray s)" "0 \<le> fsp s" "length (fixed_frames s) = ?i"
    using 7 fixed_lengths [of s] by (auto simp: fixed_inv_def)
  let ?s = "s\<lparr>farray := (farray s)[?i := v\<lparr>Idx := fsp s\<rparr>], fsp := fsp s + 1\<rparr>"
  have n: "nat (fsp s + 1) = Suc ?i" using l(2) by simp
  have f: "fixed_frames ?s = fixed_frames s @ [v\<lparr>Idx := int (length (fixed_frames s))\<rparr>]"
    using l unfolding fixed_frames_def by (simp add: n take_snoc_update min_def)
  moreover have "fixed_inv ?s"
    using 7(1) l indexed_snoc [of "fixed_frames s" v] unfolding fixed_inv_def f by auto
  moreover have "fixed_Push v s = Inr ?s" using l by (simp add: fixed_Push_def)
  ultimately show ?case by auto
next
  case (8 s v)
  then show ?case using fixed_lengths [of s] by (auto simp: fixed_Push_def fixed_inv_def)
next
  case (9 s)
  let ?i = "nat (fsp s - 1)"
  have l: "0 < fsp s" "fsp s \<le> int (length (farray s))" "length (fixed_frames s) = nat (fsp s)"
    using 9 fixed_lengths [of s] by (auto simp: fixed_inv_def simp flip: length_greater_0_conv)
  let ?s = "s\<lparr>fsp := fsp s - 1\<rparr>"
  have f: "fixed_frames ?s = butlast (fixed_frames s)"
    using l by (simp add: fixed_frames_def butlast_conv_take nat_diff_distrib min_def)
  moreover have "fixed_inv ?s"
    using 9(1) l indexed_butlast unfolding fixed_inv_def f by auto
  moreover have "fixed_Pop s = Inr (?s, Some (last (fixed_frames s)))"
    using l 9(2) by (auto simp: fixed_Pop_def fixed_At_def fixed_frames_def last_conv_nth nat_diff_distrib min_def)
  ultimately show ?case by simp
qed

text \<open>The frames of the growing stack, by their slot numbers.\<close>

definition growing_slot :: "autoGrowingCallFrameStack \<Rightarrow> nat \<Rightarrow> callFrame" where
  "growing_slot cs i = the (segments cs ! (i div 8)) ! (i mod 8)"

definition growing_frames :: "autoGrowingCallFrameStack \<Rightarrow> callFrame list" where
  "growing_frames cs = map (growing_slot cs) [0..<8 * segIdx cs + segSp cs]"

definition growing_inv :: "autoGrowingCallFrameStack \<Rightarrow> bool" where
  "growing_inv cs \<longleftrightarrow>
     segIdx cs < length (segments cs) \<and> length (segments cs) \<le> 2 ^ 16 \<and> segSp cs \<le> 8 \<and>
     (\<forall>i \<le> segIdx cs. \<exists>seg. segments cs ! i = Some seg \<and> length seg = 8) \<and> indexed (growing_frames cs)"

lemma length_growing_frames [simp]: "length (growing_frames cs) = 8 * segIdx cs + segSp cs"
  by (simp add: growing_frames_def)

lemma growing_segment:
  "growing_inv cs \<Longrightarrow> i \<le> segIdx cs \<Longrightarrow> segment_at cs i = Inr (the (segments cs ! i)) \<and> length (the (segments cs ! i)) = 8"
  by (auto simp: growing_inv_def segment_at_def)

text \<open>The frame in slot \<open>j\<close> of segment \<open>i\<close>.\<close>

lemma growing_frame:
  assumes "growing_inv cs" "i \<le> segIdx cs" "j < 8" "8 * i + j < 8 * segIdx cs + segSp cs"
  shows "bindr (segment_at cs i) (\<lambda>seg. frame_in seg j) = Inr (growing_frames cs ! (8 * i + j))"
  using assms growing_segment [OF assms(1,2)]
  by (simp add: frame_in_def growing_frames_def growing_slot_def)

text \<open>Writing the next frame into a segment with room.\<close>

lemma growing_write_spec:
  assumes "segIdx cs < length (segments cs)" "length (segments cs) \<le> 2 ^ 16" "segSp cs < 8"
    and "\<forall>i \<le> segIdx cs. \<exists>seg. segments cs ! i = Some seg \<and> length seg = 8" "indexed (growing_frames cs)"
  shows "\<exists>cs'. growing_write v cs = Inr cs' \<and> growing_inv cs' \<and> length (segments cs') = length (segments cs) \<and>
    growing_frames cs' = growing_frames cs @ [v\<lparr>Idx := int (length (growing_frames cs))\<rparr>]"
proof -
  let ?k = "segIdx cs" and ?j = "segSp cs"
  obtain seg where seg: "segments cs ! ?k = Some seg" "length seg = 8" using assms(4) by blast
  let ?v = "v\<lparr>Idx := int (?j + FramesPerSegment * ?k)\<rparr>"
  let ?cs = "cs\<lparr>segments := (segments cs)[?k := Some (seg[?j := ?v])], segSp := ?j + 1\<rparr>"
  have w: "growing_write v cs = Inr ?cs"
    using seg assms(1,3) by (simp add: growing_write_def segment_at_def)
  have slot: "growing_slot ?cs i = (if i = 8 * ?k + ?j then ?v else growing_slot cs i)" if "i < 8 * ?k + ?j + 1" for i
  proof (cases "i div 8 = ?k")
    case True
    have "i = 8 * (i div 8) + i mod 8" by simp
    then have "i = 8 * ?k + i mod 8" unfolding True .
    then have "(i = 8 * ?k + ?j) = (i mod 8 = ?j)" by linarith
    then show ?thesis using True assms(1,3) seg by (simp add: growing_slot_def nth_list_update)
  next
    case False
    then have "i \<noteq> 8 * ?k + ?j" using assms(3) by (intro notI) simp
    then show ?thesis using False by (simp add: growing_slot_def nth_list_update)
  qed
  have f: "growing_frames ?cs = growing_frames cs @ [?v]"
    using slot by (simp add: growing_frames_def cong: map_cong)
  have "?v = v\<lparr>Idx := int (length (growing_frames cs))\<rparr>" by (simp add: FramesPerSegment_def)
  with f have f': "growing_frames ?cs = growing_frames cs @ [v\<lparr>Idx := int (length (growing_frames cs))\<rparr>]" by simp
  have "\<exists>sg. segments ?cs ! i = Some sg \<and> length sg = 8" if "i \<le> ?k" for i
    using that assms(1,4) seg by (cases "i = ?k") auto
  then have "growing_inv ?cs"
    unfolding growing_inv_def f' using assms(1,2,3) indexed_snoc [OF assms(5), of v] by simp
  with w f' show ?thesis by auto
qed

lemma to_segIdx_small: "n < 2 ^ 16 \<Longrightarrow> to_segIdx (int n) = n"
  by (simp add: to_segIdx_def)

interpretation growing: frame_stack growing_inv growing_frames "\<lambda>cs. 8 * length (segments cs)" growing_IsEmpty
  "growing_Push (replicate 8 zero_frame)" growing_Pop growing_Last growing_At growing_Sp
proof (unfold_locales, goal_cases)
  case (1 s)
  then show ?case by (simp add: growing_IsEmpty_def flip: length_0_conv)
next
  case (2 s)
  then show ?case by (simp add: growing_Sp_def FramesPerSegment_def)
next
  case (3 s)
  then show ?case by (simp add: growing_inv_def)
next
  case (4 s)
  then show ?case by (simp add: growing_inv_def)
next
  case (5 s)
  have l: "last (growing_frames s) = growing_frames s ! (8 * segIdx s + segSp s - 1)" if "growing_frames s \<noteq> []"
    using that by (simp add: last_conv_nth)
  have ne: "growing_frames s \<noteq> [] \<longleftrightarrow> 0 < 8 * segIdx s + segSp s" by (simp flip: length_greater_0_conv)
  have s8: "segSp s \<le> 8" using 5 by (simp add: growing_inv_def)
  consider "segSp s = 0" "segIdx s = 0" | "segSp s = 0" "segIdx s \<noteq> 0" | "segSp s \<noteq> 0" by blast
  then show ?case
  proof cases
    case 1
    then show ?thesis using ne by (simp add: growing_Last_def)
  next
    case 2
    have "8 * (segIdx s - 1) + 7 = 8 * segIdx s + segSp s - 1" using 2 by simp
    then show ?thesis using growing_frame [OF 5, of "segIdx s - 1" 7] growing_segment [OF 5, of "segIdx s - 1"] 2 l ne
      by (auto simp: growing_Last_def FramesPerSegment_def)
  next
    case 3
    have "8 * segIdx s + (segSp s - 1) = 8 * segIdx s + segSp s - 1" using 3 by simp
    then show ?thesis using growing_frame [OF 5, of "segIdx s" "segSp s - 1"] growing_segment [OF 5, of "segIdx s"] 3 l ne s8
      by (auto simp: growing_Last_def)
  qed
next
  case (6 s i)
  have "i < (segIdx s + 1) * 8" using 6 by (simp add: growing_inv_def)
  then have "i div 8 < segIdx s + 1" by (rule less_mult_imp_div_less)
  then have d: "i div 8 \<le> segIdx s" by simp
  have "i div 8 < 2 ^ 16" using d 6(1) by (simp add: growing_inv_def)
  then show ?case using growing_frame [OF 6(1) d, of "i mod 8"] 6 to_segIdx_small [of "i div 8"]
    by (simp add: growing_At_def FramesPerSegment_def)
next
  case (7 s v)
  then have inv: "segIdx s < length (segments s)" "length (segments s) \<le> 2 ^ 16" "segSp s \<le> 8"
    "\<forall>i \<le> segIdx s. \<exists>seg. segments s ! i = Some seg \<and> length seg = 8" "indexed (growing_frames s)"
    by (simp_all add: growing_inv_def)
  show ?case
  proof (cases "segSp s = 8")
    case True
    let ?s = "s\<lparr>segIdx := segIdx s + 1, segments := (segments s)[segIdx s + 1 := Some (replicate 8 zero_frame)], segSp := 0\<rparr>"
    have room: "segIdx s + 1 < length (segments s)" using 7(2) True by simp
    have t: "to_segIdx (int (length (segments s)) - 1) = length (segments s) - 1"
      using to_segIdx_small [of "length (segments s) - 1"] room inv(2) by simp
    have slot: "growing_slot ?s i = growing_slot s i" if "i < 8 * segIdx s + 8" for i
      using that by (simp add: growing_slot_def nth_list_update less_mult_imp_div_less)
    have f: "growing_frames ?s = growing_frames s"
      using True slot by (simp add: growing_frames_def add.commute cong: map_cong)
    have "\<exists>s'. growing_write v ?s = Inr s' \<and> growing_inv s' \<and> length (segments s') = length (segments ?s) \<and>
        growing_frames s' = growing_frames ?s @ [v\<lparr>Idx := int (length (growing_frames ?s))\<rparr>]"
    proof (rule growing_write_spec)
      show "\<forall>i \<le> segIdx ?s. \<exists>seg. segments ?s ! i = Some seg \<and> length seg = 8"
        using inv(4) room by (auto simp: le_Suc_eq nth_list_update)
    qed (use room inv f in simp_all)
    moreover have "growing_Push (replicate 8 zero_frame) v s = growing_write v ?s"
      using True room less_diff_conv [of "segIdx s" "length (segments s)" 1] by (simp add: growing_Push_def FramesPerSegment_def t)
    ultimately show ?thesis unfolding f by simp
  next
    case False
    have "growing_Push (replicate 8 zero_frame) v s = growing_write v s"
      using False inv(3) by (simp add: growing_Push_def FramesPerSegment_def)
    then show ?thesis using growing_write_spec [OF inv(1,2) _ inv(4,5), of v] False inv(3) by auto
  qed
next
  case (8 s v)
  then have "segSp s = 8" "segIdx s + 1 = length (segments s)" "length (segments s) \<le> 2 ^ 16"
    by (auto simp: growing_inv_def)
  moreover from this have "int (length (segments s)) - 1 = int (segIdx s)" by simp
  moreover from calculation have "to_segIdx (int (length (segments s)) - 1) = segIdx s"
    using to_segIdx_small [of "segIdx s"] by simp
  ultimately show ?case by (simp add: growing_Push_def FramesPerSegment_def)
next
  case (9 s)
  then have inv: "segIdx s < length (segments s)" "length (segments s) \<le> 2 ^ 16" "segSp s \<le> 8"
    "\<forall>i \<le> segIdx s. \<exists>seg. segments s ! i = Some seg \<and> length seg = 8" "indexed (growing_frames s)"
    by (simp_all add: growing_inv_def)
  have pos: "0 < 8 * segIdx s + segSp s" using 9(2) by (simp flip: length_greater_0_conv)
  define k j where "k = (if segSp s = 0 then segIdx s - 1 else segIdx s)" and "j = (if segSp s = 0 then 7 else segSp s - 1)"
  define segs where "segs = (if segSp s = 0 then (segments s)[segIdx s := None] else segments s)"
  let ?s = "s\<lparr>segments := segs, segIdx := k, segSp := j\<rparr>"
  have kj: "8 * k + j + 1 = 8 * segIdx s + segSp s" "j < 8" "k \<le> segIdx s" "k < length segs" "length segs = length (segments s)"
    using pos inv(1,3) by (auto simp: k_def j_def segs_def)
  have same: "segs ! i = segments s ! i" if "i \<le> k" for i
    using that pos by (auto simp: k_def segs_def nth_list_update)
  have "i div 8 \<le> k" if "i < 8 * k + j" for i using that kj(2) by simp
  then have f: "growing_frames ?s = butlast (growing_frames s)"
    using kj(1) [symmetric] by (simp add: growing_frames_def growing_slot_def same cong: map_cong)
  have lastf: "last (growing_frames s) = growing_frames s ! (8 * k + j)"
  proof -
    have "8 * segIdx s + segSp s - 1 = 8 * k + j" using kj(1) by simp
    then show ?thesis using 9(2) by (simp add: last_conv_nth)
  qed
  have seg: "segment_at ?s k = segment_at s k" using kj(3-5) inv(1) by (simp add: segment_at_def same)
  have "bindr (segment_at s k) (\<lambda>seg. frame_in seg j) = Inr (growing_frames s ! (8 * k + j))"
    using kj by (intro growing_frame 9) simp_all
  then have "bindr (segment_at ?s k) (\<lambda>seg. bindr (frame_in seg j) (\<lambda>f. Inr (?s, Some f))) = Inr (?s, Some (last (growing_frames s)))"
    unfolding seg lastf by auto
  moreover have "growing_Pop s = bindr (segment_at ?s k) (\<lambda>seg. bindr (frame_in seg j) (\<lambda>f. Inr (?s, Some f)))"
    using pos by (cases "segSp s = 0") (simp_all add: growing_Pop_def Let_def k_def j_def segs_def FramesPerSegment_def)
  moreover have "growing_inv ?s"
  proof -
    have "segments ?s ! i = segments s ! i" if "i \<le> k" for i using same that by simp
    then show ?thesis unfolding growing_inv_def f using inv kj indexed_butlast by simp
  qed
  ultimately have "growing_Pop s = Inr (?s, Some (last (growing_frames s))) \<and> growing_inv ?s \<and>
      8 * length (segments ?s) = 8 * length (segments s) \<and> growing_frames ?s = butlast (growing_frames s)"
    using f kj(5) by simp
  then show ?case by blast
qed

section \<open>Sequences of pushes and pops\<close>

datatype stack_op = StackPush callFrame | StackPop

fun run_ops ::
  "(callFrame \<Rightarrow> 's \<Rightarrow> go_panic + 's) \<Rightarrow> ('s \<Rightarrow> go_panic + ('s \<times> callFrame option)) \<Rightarrow> stack_op list \<Rightarrow> 's
    \<Rightarrow> go_panic + ('s \<times> callFrame option list)" where
  "run_ops push pop [] s = Inr (s, [])"
| "run_ops push pop (StackPush v # ops) s = bindr (push v s) (run_ops push pop ops)"
| "run_ops push pop (StackPop # ops) s =
     bindr (pop s) (\<lambda>(s, f). bindr (run_ops push pop ops s) (\<lambda>(s, fs). Inr (s, f # fs)))"

text \<open>The same on a list of frames; it has no result when the list would outgrow its bound or underflow.\<close>

fun list_ops :: "nat \<Rightarrow> stack_op list \<Rightarrow> callFrame list \<Rightarrow> (callFrame list \<times> callFrame option list) option" where
  "list_ops n [] fs = Some (fs, [])"
| "list_ops n (StackPush v # ops) fs =
     (if length fs < n then list_ops n ops (fs @ [v\<lparr>Idx := int (length fs)\<rparr>]) else None)"
| "list_ops n (StackPop # ops) fs =
     (if fs = [] then None
      else map_option (\<lambda>(fs', os). (fs', Some (last fs) # os)) (list_ops n ops (butlast fs)))"

context frame_stack
begin

lemma run_ops_list:
  "inv s \<Longrightarrow> n \<le> cap s \<Longrightarrow> list_ops n ops (frames s) = Some (fs, os) \<Longrightarrow>
    \<exists>s'. run_ops push pop ops s = Inr (s', os) \<and> inv s' \<and> frames s' = fs"
proof (induction ops arbitrary: s os)
  case (Cons op ops)
  show ?case
  proof (cases op)
    case (StackPush v)
    then obtain s1 where s1: "push v s = Inr s1" "inv s1" "cap s1 = cap s"
      "frames s1 = frames s @ [v\<lparr>Idx := int (length (frames s))\<rparr>]"
      using push [of s v] Cons.prems by (auto split: if_splits)
    then show ?thesis using Cons.IH [of s1 os] Cons.prems StackPush by (auto split: if_splits)
  next
    case StackPop
    then obtain s1 where s1: "pop s = Inr (s1, Some (last (frames s)))" "inv s1" "cap s1 = cap s" "frames s1 = butlast (frames s)"
      using pop [of s] Cons.prems by (auto split: if_splits)
    obtain os' where os': "os = Some (last (frames s)) # os'" "list_ops n ops (frames s1) = Some (fs, os')"
      using Cons.prems(3) StackPop s1(4) by (auto split: if_splits)
    then obtain s' where "run_ops push pop ops s1 = Inr (s', os')" "inv s'" "frames s' = fs"
      using Cons.IH [of s1 os'] s1 Cons.prems(2) by auto
    then show ?thesis using StackPop s1(1) os'(1) by simp
  qed
qed simp

end

lemma fixed_new: "fixed_inv (newFixedCallFrameStack n)" "fixed_frames (newFixedCallFrameStack n) = []"
    "length (farray (newFixedCallFrameStack n)) = n"
  by (simp_all add: fixed_inv_def fixed_frames_def newFixedCallFrameStack_def indexed_def)

lemma growing_new:
  assumes "0 < n" "n \<le> 8 * 2 ^ 16" "length seg = 8"
  shows "\<exists>g. newAutoGrowingCallFrameStack seg n = Inr g \<and> growing_inv g \<and> growing_frames g = [] \<and> n \<le> 8 * length (segments g)"
proof -
  have "0 < (n + 7) div 8" "(n + 7) div 8 \<le> 2 ^ 16" "n \<le> 8 * ((n + 7) div 8)" using assms by auto
  then show ?thesis using assms(3)
    by (auto simp: newAutoGrowingCallFrameStack_def FramesPerSegment_def growing_inv_def growing_frames_def indexed_def Let_def)
qed

section \<open>Properties\<close>

text \<open>C39: on every sequence of pushes and pops that stays within the configured depth, the stack of
fixed size and the growing stack, both new, return the same frames and end with the same
frames, those of a list with the pushed frames numbered by position.\<close>

theorem frame_stacks_agree:
  assumes "0 < n" "n \<le> 8 * 2 ^ 16" "length seg = 8" "list_ops n ops [] = Some (fs, os)"
  shows "\<exists>f g g'. run_ops fixed_Push fixed_Pop ops (newFixedCallFrameStack n) = Inr (f, os) \<and>
    newAutoGrowingCallFrameStack seg n = Inr g \<and>
    run_ops (growing_Push (replicate 8 zero_frame)) growing_Pop ops g = Inr (g', os) \<and>
    fixed_frames f = fs \<and> growing_frames g' = fs"
  using fixed.run_ops_list [of "newFixedCallFrameStack n" n ops fs os] fixed_new [of n] growing_new [OF assms(1-3)]
    growing.run_ops_list [of _ n ops fs os] assms(4) by fastforce

theorem frame_stacks_agree_witness:
  "\<exists>f g g'. run_ops fixed_Push fixed_Pop [StackPush zero_frame, StackPop] (newFixedCallFrameStack 1) = Inr (f, [Some zero_frame]) \<and>
    newAutoGrowingCallFrameStack (replicate 8 zero_frame) 1 = Inr g \<and>
    run_ops (growing_Push (replicate 8 zero_frame)) growing_Pop [StackPush zero_frame, StackPop] g = Inr (g', [Some zero_frame]) \<and>
    fixed_frames f = [] \<and> growing_frames g' = []"
  by (rule frame_stacks_agree) (simp_all add: zero_frame_def)

text \<open>The growing stack departs from the interface at its bounds: it is never full, not even
when a push panics; and \<open>SetSp\<close> to the present depth, a no-op on the fixed stack, drops the
eight frames of the top segment when that segment is full.\<close>

theorem growing_stack_bounds:
  assumes "growing_inv g" "segSp g = 8" "segIdx g + 1 < 2 ^ 16"
  shows "\<not> growing_IsFull g \<and>
    (segIdx g + 1 = length (segments g) \<longrightarrow> growing_Push pool v g = Inl (PMessage ''lua callstack overflow'')) \<and>
    growing_Sp (growing_SetSp (nat (growing_Sp g)) g) = growing_Sp g - 8 \<and>
    fixed_SetSp (fixed_Sp f) f = f"
proof (intro conjI impI)
  have inv: "segIdx g < length (segments g)" "length (segments g) \<le> 2 ^ 16" using assms(1) by (simp_all add: growing_inv_def)
  show "\<not> growing_IsFull g" using inv by (simp add: growing_IsFull_def)
  show "fixed_SetSp (fixed_Sp f) f = f" by (simp add: fixed_SetSp_def fixed_Sp_def)
  show "growing_Push pool v g = Inl (PMessage ''lua callstack overflow'')" if "segIdx g + 1 = length (segments g)"
  proof -
    have "to_segIdx (int (length (segments g)) - 1) = segIdx g"
      using to_segIdx_small [of "segIdx g"] inv that by (simp flip: that)
    then show ?thesis using assms(2) by (simp add: growing_Push_def FramesPerSegment_def)
  qed
  have sp: "nat (growing_Sp g) = 8 * (segIdx g + 1)" using assms(2) by (simp add: growing_Sp_def FramesPerSegment_def nat_add_distrib)
  let ?d = "to_segIdx (int (segIdx g + 1))"
  have d: "?d = segIdx g + 1" using to_segIdx_small [OF assms(3)] .
  have free: "free_segments (i + 1) i segs = (segs, i)" for i segs by (cases i) simp_all
  have "growing_SetSp (nat (growing_Sp g)) g = g\<lparr>segSp := 0\<rparr>"
    unfolding sp growing_SetSp_def FramesPerSegment_def using d free [of "segIdx g" "segments g"] by simp
  then show "growing_Sp (growing_SetSp (nat (growing_Sp g)) g) = growing_Sp g - 8"
    using assms(2) by (simp add: growing_Sp_def)
qed

theorem growing_stack_bounds_witness:
  "\<exists>g. segIdx g = 0 \<and> \<not> growing_IsFull g \<and>
    (segIdx g + 1 = length (segments g) \<longrightarrow> growing_Push [] zero_frame g = Inl (PMessage ''lua callstack overflow'')) \<and>
    growing_Sp (growing_SetSp (nat (growing_Sp g)) g) = growing_Sp g - 8 \<and>
    fixed_SetSp (fixed_Sp (newFixedCallFrameStack 8)) (newFixedCallFrameStack 8) = newFixedCallFrameStack 8"
proof -
  let ?seg = "map (\<lambda>i. zero_frame\<lparr>Idx := int i\<rparr>) [0..<8]"
  let ?g = "\<lparr>segments = [Some ?seg], segIdx = 0, segSp = 8\<rparr>"
  have "growing_inv ?g"
    by (auto simp: growing_inv_def indexed_def growing_frames_def growing_slot_def)
  from growing_stack_bounds [OF this, of "[]" zero_frame "newFixedCallFrameStack 8"] show ?thesis by (intro exI [of _ ?g]) simp
qed

end
