(* ===== verification/Registry.thy ===== *)
theory Registry
  imports Values
begin

text \<open>
  The register file of the virtual machine (\<^verbatim>\<open>registry\<close>, \<^verbatim>\<open>state.go\<close>): an array of
  values with a top, which grows up to a configured size. A slot may hold Go's nil, which is
  not the value \<^verbatim>\<open>nil\<close> of the language: \<open>None\<close> stands for it. Indices are Go ints; an
  access outside the array is a panic, a request beyond the maximal size calls the overflow
  handler, which raises an error and does not return. The main results: all operations keep
  the top inside the array and the array within its bound, and what each reads and writes,
  moving overlapping ranges included.
\<close>

type_synonym slot = "LValue option"

datatype reg_exn = ROverflow | RPanic go_panic

record registry =
  rarray :: "slot list"
  rtop :: int
  growBy :: int
  maxSize :: int

definition newRegistry :: "nat \<Rightarrow> int \<Rightarrow> int \<Rightarrow> registry" where
  "newRegistry initialSize grow max_size =
     \<lparr>rarray = replicate initialSize None, rtop = 0, growBy = grow, maxSize = max_size\<rparr>"

section \<open>Array accesses\<close>

definition array_get :: "slot list \<Rightarrow> int \<Rightarrow> reg_exn + slot" where
  "array_get a i = (if 0 \<le> i \<and> i < int (length a) then Inr (a ! nat i) else Inl (RPanic PIndexOutOfRange))"

definition array_set :: "int \<Rightarrow> slot \<Rightarrow> slot list \<Rightarrow> reg_exn + slot list" where
  "array_set i v a = (if 0 \<le> i \<and> i < int (length a) then Inr (a[nat i := v]) else Inl (RPanic PIndexOutOfRange))"

text \<open>A counting loop whose body may fail.\<close>

fun for_each :: "('i \<Rightarrow> 's \<Rightarrow> 'e + 's) \<Rightarrow> 'i list \<Rightarrow> 's \<Rightarrow> 'e + 's" where
  "for_each f [] s = Inr s"
| "for_each f (i # is) s = bindr (f i s) (for_each f is)"

text \<open>Setting the new top; slots between it and an old top above it become nil.\<close>

definition clear_above :: "int \<Rightarrow> registry \<Rightarrow> reg_exn + registry" where
  "clear_above oldtop rg =
     (if rtop rg < oldtop
      then if 0 \<le> rtop rg \<and> oldtop \<le> int (length (rarray rg))
           then Inr (rg\<lparr>rarray := map (\<lambda>i. if rtop rg \<le> int i \<and> int i < oldtop then None else rarray rg ! i) [0..<length (rarray rg)]\<rparr>)
           else Inl (RPanic PIndexOutOfRange)
      else Inr rg)"

section \<open>Operations\<close>

definition forceResize :: "int \<Rightarrow> registry \<Rightarrow> reg_exn + registry" where
  "forceResize newSize rg =
     (if newSize < 0 \<or> rtop rg < 0 \<or> rtop rg > int (length (rarray rg)) then Inl (RPanic PIndexOutOfRange)
      else let kept = take (nat newSize) (take (nat (rtop rg)) (rarray rg))
           in Inr (rg\<lparr>rarray := kept @ replicate (nat newSize - length kept) None\<rparr>))"

definition resize :: "int \<Rightarrow> registry \<Rightarrow> reg_exn + registry" where
  "resize requiredSize rg =
     (let newSize = requiredSize + growBy rg;
          newSize = (if newSize > maxSize rg then maxSize rg else newSize)
      in if newSize < requiredSize then Inl ROverflow else forceResize newSize rg)"

definition checkSize :: "int \<Rightarrow> registry \<Rightarrow> reg_exn + registry" where
  "checkSize requiredSize rg = (if requiredSize > int (length (rarray rg)) then resize requiredSize rg else Inr rg)"

definition reg_SetTop :: "int \<Rightarrow> registry \<Rightarrow> reg_exn + registry" where
  "reg_SetTop topi rg =
     bindr (checkSize topi rg) (\<lambda>rg.
       let oldtopi = rtop rg
       in bindr (for_each (\<lambda>i. array_set i (Some LNil)) [oldtopi..topi - 1] (rarray rg)) (\<lambda>a.
            clear_above oldtopi (rg\<lparr>rarray := a, rtop := topi\<rparr>)))"

definition reg_Top :: "registry \<Rightarrow> int" where
  "reg_Top rg = rtop rg"

definition reg_Push :: "slot \<Rightarrow> registry \<Rightarrow> reg_exn + registry" where
  "reg_Push v rg =
     bindr (checkSize (rtop rg + 1) rg) (\<lambda>rg.
     bindr (array_set (rtop rg) v (rarray rg)) (\<lambda>a. Inr (rg\<lparr>rarray := a, rtop := rtop rg + 1\<rparr>)))"

definition reg_Pop :: "registry \<Rightarrow> reg_exn + (slot \<times> registry)" where
  "reg_Pop rg =
     bindr (array_get (rarray rg) (rtop rg - 1)) (\<lambda>v.
     bindr (array_set (rtop rg - 1) (Some LNil) (rarray rg)) (\<lambda>a.
       Inr (v, rg\<lparr>rarray := a, rtop := rtop rg - 1\<rparr>)))"

definition reg_Get :: "int \<Rightarrow> registry \<Rightarrow> reg_exn + slot" where
  "reg_Get reg rg = array_get (rarray rg) reg"

definition copy_slot :: "int \<Rightarrow> int \<Rightarrow> int \<Rightarrow> int \<Rightarrow> slot list \<Rightarrow> reg_exn + slot list" where
  "copy_slot regv start limit i a =
     (let srcIdx = start + i
      in if srcIdx \<ge> limit \<or> srcIdx < 0 then array_set (regv + i) (Some LNil) a
         else bindr (array_get a srcIdx) (\<lambda>v. array_set (regv + i) v a))"

definition reg_CopyRange :: "int \<Rightarrow> int \<Rightarrow> int \<Rightarrow> int \<Rightarrow> registry \<Rightarrow> reg_exn + registry" where
  "reg_CopyRange regv start limit n rg =
     bindr (checkSize (regv + n) rg) (\<lambda>rg.
       let limit = (if limit = -1 \<or> limit > rtop rg then rtop rg else limit)
       in bindr (for_each (copy_slot regv start limit) [0..n - 1] (rarray rg)) (\<lambda>a.
            clear_above (rtop rg) (rg\<lparr>rarray := a, rtop := regv + n\<rparr>)))"

definition reg_FillNil :: "int \<Rightarrow> int \<Rightarrow> registry \<Rightarrow> reg_exn + registry" where
  "reg_FillNil regm n rg =
     bindr (checkSize (regm + n) rg) (\<lambda>rg.
       bindr (for_each (\<lambda>i. array_set (regm + i) (Some LNil)) [0..n - 1] (rarray rg)) (\<lambda>a.
         clear_above (rtop rg) (rg\<lparr>rarray := a, rtop := regm + n\<rparr>)))"

definition reg_Set :: "int \<Rightarrow> slot \<Rightarrow> registry \<Rightarrow> reg_exn + registry" where
  "reg_Set regi vali rg =
     bindr (checkSize (regi + 1) rg) (\<lambda>rg.
     bindr (array_set regi vali (rarray rg)) (\<lambda>a.
       Inr (rg\<lparr>rarray := a, rtop := (if regi \<ge> rtop rg then regi + 1 else rtop rg)\<rparr>)))"

definition reg_SetNumber :: "int \<Rightarrow> LUint256 \<Rightarrow> registry \<Rightarrow> reg_exn + registry" where
  "reg_SetNumber regi vali rg = reg_Set regi (Some (LNum vali)) rg"

text \<open>Moves the values from \<open>reg\<close> on one slot up, the topmost first.\<close>

definition reg_Insert :: "slot \<Rightarrow> int \<Rightarrow> registry \<Rightarrow> reg_exn + registry" where
  "reg_Insert value reg rg =
     (if reg \<ge> rtop rg then reg_Set reg value rg
      else bindr (for_each (\<lambda>top rg. bindr (reg_Get top rg) (\<lambda>v. reg_Set (top + 1) v rg)) (rev [reg..rtop rg - 1]) rg)
             (reg_Set reg value))"

definition reg_IsFull :: "registry \<Rightarrow> bool" where
  "reg_IsFull rg \<longleftrightarrow> rtop rg \<ge> int (length (rarray rg))"

section \<open>The invariant\<close>

definition reg_ok :: "registry \<Rightarrow> bool" where
  "reg_ok rg \<longleftrightarrow> 0 \<le> rtop rg \<and> rtop rg \<le> int (length (rarray rg)) \<and> 0 \<le> growBy rg"

text \<open>\<open>rg'\<close> has the limits of \<open>rg\<close>, and its array grew within them at most.\<close>

definition same_limits :: "registry \<Rightarrow> registry \<Rightarrow> bool" where
  "same_limits rg rg' \<longleftrightarrow> growBy rg' = growBy rg \<and> maxSize rg' = maxSize rg \<and>
     length (rarray rg) \<le> length (rarray rg') \<and> int (length (rarray rg')) \<le> max (int (length (rarray rg))) (maxSize rg)"

lemma same_limits_refl [simp]: "same_limits rg rg"
  by (simp add: same_limits_def)

lemma same_limits_trans: "same_limits a b \<Longrightarrow> same_limits b c \<Longrightarrow> same_limits a c"
  by (auto simp: same_limits_def)

lemma same_limits_update [simp]:
  "length a = length (rarray rg) \<Longrightarrow> same_limits r (rg\<lparr>rarray := a, rtop := t\<rparr>) = same_limits r rg"
  "length a = length (rarray rg) \<Longrightarrow> same_limits r (rg\<lparr>rarray := a\<rparr>) = same_limits r rg"
  "same_limits r (rg\<lparr>rtop := t\<rparr>) = same_limits r rg"
  by (auto simp: same_limits_def)

text \<open>The slot \<open>i\<close> of the array.\<close>

definition slot_at :: "registry \<Rightarrow> int \<Rightarrow> slot" where
  "slot_at rg i = rarray rg ! nat i"

lemma checkSize_spec:
  assumes "checkSize n rg = Inr rg'" "reg_ok rg"
  shows "reg_ok rg' \<and> rtop rg' = rtop rg \<and> n \<le> int (length (rarray rg')) \<and> same_limits rg rg' \<and>
    (\<forall>i. 0 \<le> i \<longrightarrow> i < rtop rg \<longrightarrow> slot_at rg' i = slot_at rg i)"
proof (cases "n > int (length (rarray rg))")
  case True
  define m where "m = (if n + growBy rg > maxSize rg then maxSize rg else n + growBy rg)"
  have m: "n \<le> m" "m \<le> maxSize rg" "forceResize m rg = Inr rg'"
    using assms(1) True by (auto simp: checkSize_def resize_def Let_def m_def split: if_splits)
  let ?t = "nat (rtop rg)"
  have t: "?t \<le> length (rarray rg)" "?t \<le> nat m" "int (length (rarray rg)) < m"
    using assms(2) True m(1) by (auto simp: reg_ok_def)
  then have r: "rg' = rg\<lparr>rarray := take ?t (rarray rg) @ replicate (nat m - ?t) None\<rparr>"
    using m(3) by (auto simp: forceResize_def Let_def min_def split: if_splits)
  have "length (rarray rg') = nat m" using r t by simp
  moreover have "slot_at rg' i = slot_at rg i" if "0 \<le> i" "i < rtop rg" for i
    using that t r by (simp add: slot_at_def nth_append)
  ultimately show ?thesis using r t m assms(2) by (auto simp: reg_ok_def same_limits_def)
next
  case False
  then show ?thesis using assms by (simp add: checkSize_def)
qed

lemma checkSize_fits:
  assumes "reg_ok rg" "n \<le> max (int (length (rarray rg))) (maxSize rg)"
  shows "\<exists>rg'. checkSize n rg = Inr rg'"
  using assms by (auto simp: checkSize_def resize_def forceResize_def reg_ok_def Let_def)

section \<open>Loops over the array\<close>

lemma for_each_append: "for_each f (xs @ ys) s = bindr (for_each f xs s) (for_each f ys)"
proof (induction xs arbitrary: s)
  case (Cons x xs)
  then show ?case by (cases "f x s") simp_all
qed simp

lemma array_set_Inr: "array_set i v a = Inr a' \<longleftrightarrow> 0 \<le> i \<and> i < int (length a) \<and> a' = a[nat i := v]"
  by (auto simp: array_set_def)

lemma array_get_Inr: "array_get a i = Inr v \<longleftrightarrow> 0 \<le> i \<and> i < int (length a) \<and> v = a ! nat i"
  by (auto simp: array_get_def)

lemma fill_spec:
  assumes "for_each (\<lambda>i. array_set (f i) v) is a = Inr a'"
  shows "length a' = length a \<and> (\<forall>j < length a. a' ! j = (if int j \<in> f ` set is then v else a ! j))"
  using assms
proof (induction "is" arbitrary: a)
  case (Cons i "is")
  then obtain b where "0 \<le> f i" "f i < int (length a)" "b = a[nat (f i) := v]"
    "for_each (\<lambda>i. array_set (f i) v) is b = Inr a'" by (auto simp: array_set_Inr)
  with Cons.IH [of b] show ?case by (auto simp: nth_list_update)
qed simp

lemma fill_total:
  assumes "\<forall>i \<in> set is. 0 \<le> f i \<and> f i < int (length a)"
  shows "\<exists>a'. for_each (\<lambda>i. array_set (f i) v) is a = Inr a'"
  using assms
proof (induction "is" arbitrary: a)
  case (Cons i "is")
  then show ?case using Cons.IH [of "a[nat (f i) := v]"] by (simp add: array_set_def)
qed simp

text \<open>Copying in ascending order moves a range faithfully when it does not run into itself: the
  target starts at or before the source, or behind the limit of the source.\<close>

lemma copy_spec:
  assumes "regv \<le> start \<or> limit \<le> regv" "0 \<le> regv" "regv + int n \<le> int (length a)" "limit \<le> int (length a)"
  shows "\<exists>a'. for_each (copy_slot regv start limit) (map int [0..<n]) a = Inr a' \<and> length a' = length a \<and>
    (\<forall>j < length a. a' ! j =
      (if regv \<le> int j \<and> int j < regv + int n
       then (if 0 \<le> start + (int j - regv) \<and> start + (int j - regv) < limit then a ! nat (start + (int j - regv)) else Some LNil)
       else a ! j))"
  using assms(3)
proof (induction n)
  case (Suc n)
  then obtain b where b: "for_each (copy_slot regv start limit) (map int [0..<n]) a = Inr b" "length b = length a"
    "\<forall>j < length a. b ! j =
      (if regv \<le> int j \<and> int j < regv + int n
       then (if 0 \<le> start + (int j - regv) \<and> start + (int j - regv) < limit then a ! nat (start + (int j - regv)) else Some LNil)
       else a ! j)" by auto
  let ?src = "start + int n" and ?v = "if 0 \<le> start + int n \<and> start + int n < limit then a ! nat (start + int n) else Some LNil"
  have src: "b ! nat ?src = a ! nat ?src" if "0 \<le> ?src" "?src < limit"
  proof -
    have l: "nat ?src < length a" using that assms(4) by linarith
    have "\<not> (regv \<le> int (nat ?src) \<and> int (nat ?src) < regv + int n)" using that assms(1) by auto
    then show ?thesis using b(3) [rule_format, OF l] by (simp only: if_False)
  qed
  have "copy_slot regv start limit (int n) b = Inr (b[nat (regv + int n) := ?v])"
    using Suc.prems assms(2,4) b(2) src
    by (auto simp: copy_slot_def array_set_def array_get_def Let_def)
  then have f: "for_each (copy_slot regv start limit) (map int [0..<Suc n]) a = Inr (b[nat (regv + int n) := ?v])"
    using b(1) by (simp add: for_each_append)
  have "b[nat (regv + int n) := ?v] ! j =
      (if regv \<le> int j \<and> int j < regv + int (Suc n)
       then (if 0 \<le> start + (int j - regv) \<and> start + (int j - regv) < limit then a ! nat (start + (int j - regv)) else Some LNil)
       else a ! j)" if j: "j < length a" for j
  proof (cases "int j = regv + int n")
    case True
    then show ?thesis using j b(2) assms(2) by (auto simp: nth_list_update)
  next
    case False
    then have "nat (regv + int n) \<noteq> j" using assms(2) by auto
    then show ?thesis using j b(2,3) False by auto
  qed
  then show ?case using f b(2) by auto
qed auto

lemma upto_map_int: "0 \<le> n \<Longrightarrow> [0..n - 1] = map int [0..<nat n]"
  by (rule nth_equalityI) auto

lemma clear_above_spec:
  assumes "0 \<le> t" "old \<le> int (length r)"
  shows "\<exists>a. clear_above old (rg\<lparr>rarray := r, rtop := t\<rparr>) = Inr (rg\<lparr>rarray := a, rtop := t\<rparr>) \<and>
    length a = length r \<and> (\<forall>j. int j < t \<longrightarrow> j < length r \<longrightarrow> a ! j = r ! j)"
proof (cases "t < old")
  case True
  let ?a = "map (\<lambda>i. if t \<le> int i \<and> int i < old then None else r ! i) [0..<length r]"
  show ?thesis using True assms by (intro exI [of _ ?a]) (simp add: clear_above_def)
next
  case False
  then show ?thesis by (intro exI [of _ r]) (simp add: clear_above_def)
qed

section \<open>The operations\<close>

lemma reg_Set_spec:
  assumes "reg_Set i v rg = Inr rg'" "reg_ok rg"
  shows "reg_ok rg' \<and> same_limits rg rg' \<and> 0 \<le> i \<and> rtop rg' = max (rtop rg) (i + 1) \<and>
    (\<forall>j. 0 \<le> j \<longrightarrow> j < rtop rg \<or> j = i \<longrightarrow> slot_at rg' j = (if j = i then v else slot_at rg j))"
proof -
  obtain rg1 where c: "checkSize (i + 1) rg = Inr rg1" and r: "0 \<le> i" "i < int (length (rarray rg1))"
    "rg' = rg1\<lparr>rarray := (rarray rg1)[nat i := v], rtop := (if i \<ge> rtop rg1 then i + 1 else rtop rg1)\<rparr>"
    using assms(1) by (auto simp: reg_Set_def array_set_Inr)
  from checkSize_spec [OF c assms(2)] r(1,2) show ?thesis
    unfolding r(3) by (auto simp: reg_ok_def slot_at_def nth_list_update nat_eq_iff2)
qed

lemma reg_Set_total:
  assumes "reg_ok rg" "0 \<le> i" "i + 1 \<le> max (int (length (rarray rg))) (maxSize rg)"
  shows "\<exists>rg'. reg_Set i v rg = Inr rg'"
proof -
  obtain rg1 where c: "checkSize (i + 1) rg = Inr rg1" using checkSize_fits [OF assms(1,3)] by blast
  then have "i < int (length (rarray rg1))" using checkSize_spec [OF c assms(1)] by simp
  then show ?thesis using c assms(2) by (simp add: reg_Set_def array_set_def)
qed

lemma reg_Push_spec:
  assumes "reg_Push v rg = Inr rg'" "reg_ok rg"
  shows "reg_ok rg' \<and> same_limits rg rg' \<and> rtop rg' = rtop rg + 1 \<and> slot_at rg' (rtop rg) = v \<and>
    (\<forall>j. 0 \<le> j \<longrightarrow> j < rtop rg \<longrightarrow> slot_at rg' j = slot_at rg j)"
proof -
  obtain rg1 where c: "checkSize (rtop rg + 1) rg = Inr rg1"
    and r: "rg' = rg1\<lparr>rarray := (rarray rg1)[nat (rtop rg1) := v], rtop := rtop rg1 + 1\<rparr>" "rtop rg1 < int (length (rarray rg1))"
    using assms(1) by (auto simp: reg_Push_def array_set_Inr)
  from checkSize_spec [OF c assms(2)] r(2) assms(2) show ?thesis
    unfolding r(1) by (auto simp: reg_ok_def slot_at_def nth_list_update nat_eq_iff2)
qed

lemma reg_Pop_spec:
  assumes "reg_Pop rg = Inr (v, rg')" "reg_ok rg"
  shows "reg_ok rg' \<and> same_limits rg rg' \<and> rtop rg' = rtop rg - 1 \<and> v = slot_at rg (rtop rg - 1) \<and>
    (\<forall>j. 0 \<le> j \<longrightarrow> j < rtop rg' \<longrightarrow> slot_at rg' j = slot_at rg j)"
  using assms by (auto simp: reg_Pop_def array_get_Inr array_set_Inr reg_ok_def slot_at_def nth_list_update nat_eq_iff2)

lemma reg_SetTop_spec:
  assumes "reg_SetTop t rg = Inr rg'" "reg_ok rg" "0 \<le> t"
  shows "reg_ok rg' \<and> same_limits rg rg' \<and> rtop rg' = t \<and>
    (\<forall>j. 0 \<le> j \<longrightarrow> j < t \<longrightarrow> slot_at rg' j = (if j < rtop rg then slot_at rg j else Some LNil))"
proof -
  obtain rg1 a where c: "checkSize t rg = Inr rg1"
    and f: "for_each (\<lambda>i. array_set i (Some LNil)) [rtop rg1..t - 1] (rarray rg1) = Inr a"
    and l: "clear_above (rtop rg1) (rg1\<lparr>rarray := a, rtop := t\<rparr>) = Inr rg'"
    using assms(1) by (auto simp: reg_SetTop_def Let_def)
  note cs = checkSize_spec [OF c assms(2)]
  have a: "length a = length (rarray rg1)"
    "\<And>j. j < length a \<Longrightarrow> a ! j = (if rtop rg1 \<le> int j \<and> int j \<le> t - 1 then Some LNil else rarray rg1 ! j)"
    using fill_spec [of "\<lambda>i. i", OF f] by auto
  obtain b where b: "rg' = rg1\<lparr>rarray := b, rtop := t\<rparr>" "length b = length a" "\<And>j. int j < t \<Longrightarrow> j < length a \<Longrightarrow> b ! j = a ! j"
    using clear_above_spec [of t "rtop rg1" a rg1] l cs assms(3) a(1) by (auto simp: reg_ok_def)
  have "slot_at rg' j = (if j < rtop rg then slot_at rg j else Some LNil)" if "0 \<le> j" "j < t" for j
    using that b(3) [of "nat j"] a cs by (auto simp: b(1) slot_at_def)
  then show ?thesis using cs a(1) b(1,2) assms(3) by (auto simp: reg_ok_def)
qed

lemma reg_CopyRange_spec:
  assumes "reg_ok rg" "0 \<le> regv" "0 \<le> n" "regv + n \<le> max (int (length (rarray rg))) (maxSize rg)"
    and "lim = (if limit = -1 \<or> limit > rtop rg then rtop rg else limit)" "regv \<le> start \<or> lim \<le> regv"
  shows "\<exists>rg'. reg_CopyRange regv start limit n rg = Inr rg' \<and> reg_ok rg' \<and> same_limits rg rg' \<and> rtop rg' = regv + n \<and>
    (\<forall>i. 0 \<le> i \<longrightarrow> i < n \<longrightarrow>
      slot_at rg' (regv + i) = (if 0 \<le> start + i \<and> start + i < lim then slot_at rg (start + i) else Some LNil)) \<and>
    (\<forall>j. 0 \<le> j \<longrightarrow> j < regv \<longrightarrow> j < rtop rg \<longrightarrow> slot_at rg' j = slot_at rg j)"
proof -
  obtain rg1 where c: "checkSize (regv + n) rg = Inr rg1" using checkSize_fits [OF assms(1,4)] by blast
  note cs = checkSize_spec [OF c assms(1)]
  have lim: "lim = (if limit = -1 \<or> limit > rtop rg1 then rtop rg1 else limit)" using cs assms(5) by simp
  have lt: "lim \<le> rtop rg1" using lim by auto
  have ln: "regv + int (nat n) \<le> int (length (rarray rg1))" "lim \<le> int (length (rarray rg1))"
    using cs lt assms(3) by (auto simp: reg_ok_def)
  from copy_spec [OF assms(6,2) ln] obtain a where
    a: "for_each (copy_slot regv start lim) [0..n - 1] (rarray rg1) = Inr a" "length a = length (rarray rg1)"
    "\<And>j. j < length (rarray rg1) \<Longrightarrow> a ! j =
      (if regv \<le> int j \<and> int j < regv + n
       then (if 0 \<le> start + (int j - regv) \<and> start + (int j - regv) < lim then rarray rg1 ! nat (start + (int j - regv)) else Some LNil)
       else rarray rg1 ! j)"
    using assms(3) by (auto simp: upto_map_int)
  obtain b where b: "clear_above (rtop rg1) (rg1\<lparr>rarray := a, rtop := regv + n\<rparr>) = Inr (rg1\<lparr>rarray := b, rtop := regv + n\<rparr>)"
    "length b = length a" "\<And>j. int j < regv + n \<Longrightarrow> j < length a \<Longrightarrow> b ! j = a ! j"
    using clear_above_spec [of "regv + n" "rtop rg1" a rg1] cs assms(2,3) a(2) by (auto simp: reg_ok_def)
  let ?rg = "rg1\<lparr>rarray := b, rtop := regv + n\<rparr>"
  have "reg_CopyRange regv start limit n rg = Inr ?rg"
    using c a(1) b(1) lim by (simp add: reg_CopyRange_def Let_def)
  moreover have "reg_ok ?rg" "same_limits rg ?rg" using cs assms(2,3) a(2) b(2) by (auto simp: reg_ok_def)
  moreover have "slot_at ?rg (regv + i) = (if 0 \<le> start + i \<and> start + i < lim then slot_at rg (start + i) else Some LNil)"
    if "0 \<le> i" "i < n" for i
    using that b(2) b(3) [of "nat (regv + i)"] a(2) a(3) [of "nat (regv + i)"] ln assms(2,3) cs lt
    by (auto simp: slot_at_def)
  moreover have "slot_at ?rg j = slot_at rg j" if "0 \<le> j" "j < regv" "j < rtop rg" for j
    using that b(3) [of "nat j"] a(2) a(3) [of "nat j"] ln assms(3) cs by (auto simp: slot_at_def)
  ultimately show ?thesis by auto
qed

lemma length_copy: "for_each (copy_slot regv start limit) is a = Inr a' \<Longrightarrow> length a' = length a"
proof (induction "is" arbitrary: a)
  case (Cons i "is")
  then obtain b where "copy_slot regv start limit i a = Inr b" "for_each (copy_slot regv start limit) is b = Inr a'" by auto
  moreover from this(1) have "length b = length a" by (auto simp: copy_slot_def Let_def array_set_Inr split: if_splits)
  ultimately show ?case using Cons.IH [of b] by simp
qed simp

lemma refill_ok:
  assumes "checkSize t rg = Inr rg1" "reg_ok rg" "length a = length (rarray rg1)" "0 \<le> t"
    and "clear_above (rtop rg1) (rg1\<lparr>rarray := a, rtop := t\<rparr>) = Inr rg'"
  shows "reg_ok rg' \<and> same_limits rg rg'"
  using clear_above_spec [of t "rtop rg1" a rg1] checkSize_spec [OF assms(1,2)] assms(3-5)
  by (auto simp: reg_ok_def)

lemma reg_CopyRange_ok:
  "reg_CopyRange regv start limit n rg = Inr rg' \<Longrightarrow> reg_ok rg \<Longrightarrow> 0 \<le> regv + n \<Longrightarrow> reg_ok rg' \<and> same_limits rg rg'"
  by (auto simp only: reg_CopyRange_def Let_def bindr_Inr_iff dest: length_copy refill_ok)

lemma reg_FillNil_spec:
  assumes "reg_FillNil regm n rg = Inr rg'" "reg_ok rg" "0 \<le> regm + n"
  shows "reg_ok rg' \<and> same_limits rg rg' \<and> rtop rg' = regm + n \<and>
    (\<forall>j. 0 \<le> j \<longrightarrow> j < regm + n \<longrightarrow> regm \<le> j \<or> j < rtop rg \<longrightarrow> slot_at rg' j = (if regm \<le> j then Some LNil else slot_at rg j))"
proof -
  obtain rg1 a where c: "checkSize (regm + n) rg = Inr rg1"
    and f: "for_each (\<lambda>i. array_set (regm + i) (Some LNil)) [0..n - 1] (rarray rg1) = Inr a"
    and l: "clear_above (rtop rg1) (rg1\<lparr>rarray := a, rtop := regm + n\<rparr>) = Inr rg'"
    using assms(1) by (auto simp: reg_FillNil_def)
  note cs = checkSize_spec [OF c assms(2)]
  have img: "int j \<in> (\<lambda>i. regm + i) ` set [0..n - 1] \<longleftrightarrow> regm \<le> int j \<and> int j < regm + n" for j
    by (auto intro: image_eqI [of _ _ "int j - regm"])
  have a: "length a = length (rarray rg1)"
    "\<And>j. j < length a \<Longrightarrow> a ! j = (if regm \<le> int j \<and> int j < regm + n then Some LNil else rarray rg1 ! j)"
    using fill_spec [OF f] unfolding img by auto
  obtain b where b: "rg' = rg1\<lparr>rarray := b, rtop := regm + n\<rparr>" "length b = length a"
    "\<And>j. int j < regm + n \<Longrightarrow> j < length a \<Longrightarrow> b ! j = a ! j"
    using clear_above_spec [of "regm + n" "rtop rg1" a rg1] l cs assms(3) a(1) by (auto simp: reg_ok_def)
  have "slot_at rg' j = (if regm \<le> j then Some LNil else slot_at rg j)" if "0 \<le> j" "j < regm + n" "regm \<le> j \<or> j < rtop rg" for j
    using that b(3) [of "nat j"] a(1) a(2) [of "nat j"] cs by (auto simp: b(1) slot_at_def)
  moreover have "rtop rg' = regm + n" by (simp add: b(1))
  ultimately show ?thesis using refill_ok [OF c assms(2) a(1) assms(3) l] by auto
qed

text \<open>Shifting the values from \<open>l\<close> on one slot up.\<close>

lemma shift_up_spec:
  assumes "for_each (\<lambda>top rg. bindr (reg_Get top rg) (\<lambda>v. reg_Set (top + 1) v rg)) (rev [l..h]) rg = Inr rg'"
    and "reg_ok rg" "0 \<le> l" "h < rtop rg"
  shows "reg_ok rg' \<and> same_limits rg rg' \<and>
    (l \<le> h \<longrightarrow> rtop rg' = max (rtop rg) (h + 2)) \<and> (h < l \<longrightarrow> rg' = rg) \<and>
    (\<forall>j. 0 \<le> j \<longrightarrow> j < rtop rg \<longrightarrow> j < l \<or> h + 1 < j \<longrightarrow> slot_at rg' j = slot_at rg j) \<and>
    (\<forall>j. l \<le> j \<longrightarrow> j \<le> h \<longrightarrow> slot_at rg' (j + 1) = slot_at rg j)"
  using assms
proof (induction "nat (h - l + 1)" arbitrary: h rg)
  case 0
  then show ?case by simp
next
  case (Suc m)
  then have le: "l \<le> h" by simp
  have u: "rev [l..h] = h # rev [l..h - 1]" using le by (simp add: upto_rec2)
  obtain rg1 where s: "reg_Set (h + 1) (slot_at rg h) rg = Inr rg1"
    and r: "for_each (\<lambda>top rg. bindr (reg_Get top rg) (\<lambda>v. reg_Set (top + 1) v rg)) (rev [l..h - 1]) rg1 = Inr rg'"
    using Suc.prems(1) unfolding u by (auto simp: reg_Get_def array_get_Inr slot_at_def)
  note ss = reg_Set_spec [OF s Suc.prems(2)]
  have m: "m = nat (h - 1 - l + 1)" using Suc.hyps(2) by simp
  have "h - 1 < rtop rg1" using ss by auto
  note IH = Suc.hyps(1) [OF m r _ Suc.prems(3) this]
  have ih: "reg_ok rg'" "same_limits rg1 rg'" "l \<le> h - 1 \<longrightarrow> rtop rg' = max (rtop rg1) (h - 1 + 2)" "h - 1 < l \<longrightarrow> rg' = rg1"
    "\<And>j. 0 \<le> j \<Longrightarrow> j < rtop rg1 \<Longrightarrow> j < l \<or> h < j \<Longrightarrow> slot_at rg' j = slot_at rg1 j"
    "\<And>j. l \<le> j \<Longrightarrow> j \<le> h - 1 \<Longrightarrow> slot_at rg' (j + 1) = slot_at rg1 j"
    using IH ss by auto
  have "rtop rg' = max (rtop rg) (h + 2)" using ih(3,4) ss by (cases "l \<le> h - 1") auto
  moreover have "slot_at rg' j = slot_at rg j" if "0 \<le> j" "j < rtop rg" "j < l \<or> h + 1 < j" for j
    using ih(5) [of j] that ss le by auto
  moreover have "slot_at rg' (j + 1) = slot_at rg j" if "l \<le> j" "j \<le> h" for j
  proof (cases "j = h")
    case True
    have "slot_at rg' (h + 1) = slot_at rg1 (h + 1)" using ih(5) [of "h + 1"] ss by auto
    then show ?thesis using ss True by auto
  next
    case False
    then have "slot_at rg' (j + 1) = slot_at rg1 j" using ih(6) that by simp
    then show ?thesis using ss that False Suc.prems(3,4) by auto
  qed
  ultimately show ?case using ih(1,2) ss le same_limits_trans by auto
qed

lemma reg_Insert_spec:
  assumes "reg_Insert v r rg = Inr rg'" "reg_ok rg" "0 \<le> r"
  shows "reg_ok rg' \<and> same_limits rg rg' \<and> rtop rg' = max (rtop rg) r + 1 \<and> slot_at rg' r = v \<and>
    (\<forall>j. 0 \<le> j \<longrightarrow> j < r \<longrightarrow> j < rtop rg \<longrightarrow> slot_at rg' j = slot_at rg j) \<and>
    (\<forall>j. r \<le> j \<longrightarrow> j < rtop rg \<longrightarrow> slot_at rg' (j + 1) = slot_at rg j)"
proof (cases "rtop rg \<le> r")
  case True
  then have "reg_Set r v rg = Inr rg'" using assms(1) by (simp add: reg_Insert_def)
  from reg_Set_spec [OF this assms(2)] show ?thesis using True by auto
next
  case False
  then obtain rg1 where
    s: "for_each (\<lambda>top rg. bindr (reg_Get top rg) (\<lambda>v. reg_Set (top + 1) v rg)) (rev [r..rtop rg - 1]) rg = Inr rg1"
    and e: "reg_Set r v rg1 = Inr rg'" using assms(1) by (auto simp: reg_Insert_def)
  note s1 = shift_up_spec [OF s assms(2,3)]
  then have "reg_ok rg1" by simp
  note s2 = reg_Set_spec [OF e this]
  show ?thesis using s1 s2 False assms(3) same_limits_trans by auto
qed

text \<open>A negative top or index never gets past the panic of the array access.\<close>

lemma clear_above_neg: "clear_above old rg = Inr rg' \<Longrightarrow> 0 \<le> old \<Longrightarrow> 0 \<le> rtop rg"
  by (auto simp: clear_above_def split: if_splits)

lemma reg_Insert_neg: "reg_Insert v r rg = Inr rg' \<Longrightarrow> reg_ok rg \<Longrightarrow> 0 \<le> r"
proof (rule ccontr)
  assume i: "reg_Insert v r rg = Inr rg'" "reg_ok rg" and "\<not> 0 \<le> r"
  then have "rev [r..rtop rg - 1] = rev [r + 1..rtop rg - 1] @ [r]" "\<not> rtop rg \<le> r"
    by (auto simp: upto_rec1 reg_ok_def)
  then show False using i \<open>\<not> 0 \<le> r\<close>
    by (auto simp: reg_Insert_def for_each_append reg_Get_def array_get_Inr)
qed

section \<open>Properties\<close>

datatype reg_op =
    RSet int slot
  | RSetNumber int LUint256
  | RPush slot
  | RPop
  | RSetTop int
  | RCopyRange int int int int
  | RFillNil int int
  | RInsert slot int
  | RRaise slot

text \<open>\<open>RRaise\<close> is what \<open>raiseError\<close> does to the registers: the message is pushed even when they are full.\<close>

fun run_reg_op :: "reg_op \<Rightarrow> registry \<Rightarrow> reg_exn + registry" where
  "run_reg_op (RSet i v) rg = reg_Set i v rg"
| "run_reg_op (RSetNumber i n) rg = reg_SetNumber i n rg"
| "run_reg_op (RPush v) rg = reg_Push v rg"
| "run_reg_op RPop rg = bindr (reg_Pop rg) (\<lambda>(v, rg). Inr rg)"
| "run_reg_op (RSetTop t) rg = reg_SetTop t rg"
| "run_reg_op (RCopyRange regv start limit n) rg = reg_CopyRange regv start limit n rg"
| "run_reg_op (RFillNil regm n) rg = reg_FillNil regm n rg"
| "run_reg_op (RInsert v r) rg = reg_Insert v r rg"
| "run_reg_op (RRaise v) rg =
     bindr (if reg_IsFull rg then forceResize (rtop rg + 1) rg else Inr rg) (reg_Push v)"

primrec is_raise :: "reg_op \<Rightarrow> bool" where
  "is_raise (RSet i v) = False"
| "is_raise (RSetNumber i n) = False"
| "is_raise (RPush v) = False"
| "is_raise RPop = False"
| "is_raise (RSetTop t) = False"
| "is_raise (RCopyRange regv start limit n) = False"
| "is_raise (RFillNil regm n) = False"
| "is_raise (RInsert v r) = False"
| "is_raise (RRaise v) = True"

text \<open>The size an operation can leave the array with.\<close>

definition grown_by :: "nat \<Rightarrow> registry \<Rightarrow> registry \<Rightarrow> bool" where
  "grown_by k rg rg' \<longleftrightarrow> maxSize rg' = maxSize rg \<and> growBy rg' = growBy rg \<and>
     int (length (rarray rg')) \<le> max (int (length (rarray rg))) (maxSize rg) + int k"

lemma grown_by_trans: "grown_by j r0 r1 \<Longrightarrow> grown_by k r1 r2 \<Longrightarrow> grown_by (j + k) r0 r2"
  by (auto simp: grown_by_def)

lemma grown_by_refl: "grown_by 0 rg rg"
  by (simp add: grown_by_def)

lemma raise_op_ok:
  assumes r: "run_reg_op (RRaise v) rg = Inr rg'" and ok: "reg_ok rg"
  shows "reg_ok rg' \<and> grown_by 1 rg rg'"
proof -
  obtain r1 where r1: "(if reg_IsFull rg then forceResize (rtop rg + 1) rg else Inr rg) = Inr r1" and p: "reg_Push v r1 = Inr rg'"
    using r by auto
  have "reg_ok r1 \<and> int (length (rarray r1)) \<le> int (length (rarray rg)) + 1 \<and> rtop r1 < int (length (rarray r1)) \<and>
      maxSize r1 = maxSize rg \<and> growBy r1 = growBy rg"
    using r1 ok by (auto simp: forceResize_def reg_ok_def reg_IsFull_def Let_def split: if_splits)
  moreover from this have "rarray rg' = (rarray r1)[nat (rtop r1) := v] \<and> rtop rg' = rtop r1 + 1 \<and>
      maxSize rg' = maxSize r1 \<and> growBy rg' = growBy r1"
    using p by (auto simp: reg_Push_def checkSize_def array_set_def reg_ok_def split: if_splits)
  ultimately show ?thesis by (auto simp: reg_ok_def grown_by_def)
qed

lemma plain_op_ok:
  assumes "run_reg_op op rg = Inr rg'" "reg_ok rg" "\<not> is_raise op"
  shows "reg_ok rg' \<and> same_limits rg rg'"
proof (cases op)
  case (RSetTop t)
  then have r: "reg_SetTop t rg = Inr rg'" using assms(1) by simp
  then have "0 \<le> t" using checkSize_spec [OF _ assms(2)] clear_above_neg
    by (fastforce simp: reg_SetTop_def Let_def reg_ok_def)
  then show ?thesis using reg_SetTop_spec [OF r assms(2)] by simp
next
  case (RCopyRange regv start limit n)
  then have r: "reg_CopyRange regv start limit n rg = Inr rg'" using assms(1) by simp
  then have "0 \<le> regv + n" using checkSize_spec [OF _ assms(2)] clear_above_neg
    by (fastforce simp: reg_CopyRange_def Let_def reg_ok_def)
  then show ?thesis using reg_CopyRange_ok [OF r assms(2)] by simp
next
  case (RFillNil regm n)
  then have r: "reg_FillNil regm n rg = Inr rg'" using assms(1) by simp
  then have "0 \<le> regm + n" using checkSize_spec [OF _ assms(2)] clear_above_neg
    by (fastforce simp: reg_FillNil_def reg_ok_def)
  then show ?thesis using reg_FillNil_spec [OF r assms(2)] by simp
next
  case (RInsert v r)
  then show ?thesis using assms reg_Insert_spec [of v r rg rg'] reg_Insert_neg [of v r rg rg'] by simp
qed (use assms reg_Set_spec reg_Push_spec reg_Pop_spec in \<open>auto simp: reg_SetNumber_def\<close>)

lemma run_reg_op_ok:
  assumes "run_reg_op op rg = Inr rg'" "reg_ok rg"
  shows "reg_ok rg' \<and> grown_by (if is_raise op then 1 else 0) rg rg'"
proof (cases op)
  case (RRaise v)
  then show ?thesis using raise_op_ok assms by simp
qed (use plain_op_ok [OF assms] in \<open>auto simp: grown_by_def same_limits_def\<close>)

text \<open>C40: whatever sequence of operations runs on a new register file, raising errors included, its
top stays inside the array. The array never outgrows the initial and the maximal size by more than
one register for each error raised: the message of an error is pushed even on full registers.\<close>

theorem registry_invariant:
  assumes "0 \<le> grow" "for_each run_reg_op ops (newRegistry n grow m) = Inr rg"
  shows "0 \<le> rtop rg \<and> rtop rg \<le> int (length (rarray rg)) \<and>
    int (length (rarray rg)) \<le> max (int n) m + int (length (filter is_raise ops))"
proof -
  have "reg_ok rg \<and> grown_by (length (filter is_raise ops)) r0 rg" if "for_each run_reg_op ops r0 = Inr rg" "reg_ok r0" for r0
    using that
  proof (induction ops arbitrary: r0)
    case (Cons op ops)
    then obtain r1 where r1: "run_reg_op op r0 = Inr r1" and "for_each run_reg_op ops r1 = Inr rg" by auto
    then show ?case
      using Cons.IH [of r1] run_reg_op_ok [OF r1 Cons.prems(2)]
        grown_by_trans [of "if is_raise op then 1 else 0" r0 r1 "length (filter is_raise ops)" rg] by auto
  qed (simp add: grown_by_refl)
  from this [OF assms(2)] show ?thesis
    using assms(1) by (auto simp: reg_ok_def newRegistry_def grown_by_def)
qed

theorem registry_invariant_witness:
  "\<exists>rg. for_each run_reg_op [RPush (Some LNil), RRaise (Some (LString [])), RSetTop 1] (newRegistry 1 0 1) = Inr rg \<and>
    0 \<le> rtop rg \<and> rtop rg \<le> int (length (rarray rg)) \<and> int (length (rarray rg)) \<le> max (int 1) 1 + 1"
proof -
  let ?ops = "[RPush (Some LNil), RRaise (Some (LString [])), RSetTop 1]"
  have e: "for_each run_reg_op ?ops (newRegistry 1 0 1) =
      Inr \<lparr>rarray = [Some LNil, None], rtop = 1, growBy = 0, maxSize = 1\<rparr>"
    by (simp add: newRegistry_def reg_Push_def reg_SetTop_def checkSize_def array_set_def clear_above_def
        reg_IsFull_def forceResize_def)
  have raised: "length (filter is_raise ?ops) = 1" by simp
  show ?thesis by (rule exI, rule conjI, rule e, use registry_invariant [OF order_refl e] in \<open>simp only: raised\<close>) simp
qed

text \<open>An error raised on full registers leaves the array longer than its maximal size.\<close>

theorem error_exceeds_limit:
  assumes "reg_ok rg" "reg_IsFull rg" "maxSize rg \<le> int (length (rarray rg))"
  shows "\<exists>rg'. run_reg_op (RRaise v) rg = Inr rg' \<and> maxSize rg' < int (length (rarray rg'))"
  using assms by (auto simp: forceResize_def reg_ok_def reg_IsFull_def reg_Push_def checkSize_def array_set_def Let_def)

text \<open>moving a range, the return and the variadic argument path of a call, gives the values
of the source, or nil behind its limit, also when the ranges overlap, provided the target
does not start inside the part of the source still to be read; the top becomes the end of
the target and the slots below it are untouched.\<close>

theorem registry_move:
  assumes "reg_ok rg" "0 \<le> regv" "0 \<le> n" "regv + n \<le> max (int (length (rarray rg))) (maxSize rg)"
    and "lim = (if limit = -1 \<or> limit > rtop rg then rtop rg else limit)" "regv \<le> start \<or> lim \<le> regv"
  shows "\<exists>rg'. reg_CopyRange regv start limit n rg = Inr rg' \<and> reg_ok rg' \<and> rtop rg' = regv + n \<and>
    (\<forall>i. 0 \<le> i \<and> i < n \<longrightarrow>
      slot_at rg' (regv + i) = (if 0 \<le> start + i \<and> start + i < lim then slot_at rg (start + i) else Some LNil)) \<and>
    (\<forall>j. 0 \<le> j \<and> j < regv \<and> j < rtop rg \<longrightarrow> slot_at rg' j = slot_at rg j)"
  using reg_CopyRange_spec [OF assms] by blast

theorem registry_move_witness:
  "\<exists>rg'. reg_CopyRange 0 1 (-1) 2 \<lparr>rarray = [Some (LBool True), Some (LBool False)], rtop = 2, growBy = 0, maxSize = 0\<rparr> = Inr rg' \<and>
    slot_at rg' 0 = Some (LBool False) \<and> slot_at rg' 1 = Some LNil"
proof -
  let ?rg = "\<lparr>rarray = [Some (LBool True), Some (LBool False)], rtop = 2, growBy = 0, maxSize = 0\<rparr>"
  obtain rg' where "reg_CopyRange 0 1 (-1) 2 ?rg = Inr rg'"
    "\<forall>i. 0 \<le> i \<and> i < 2 \<longrightarrow> slot_at rg' (0 + i) = (if 0 \<le> 1 + i \<and> 1 + i < 2 then slot_at ?rg (1 + i) else Some LNil)"
    using registry_move [of ?rg 0 2 2 "-1" 1] by (auto simp: reg_ok_def)
  then show ?thesis by (auto simp: slot_at_def dest: spec [of _ 0] spec [of _ 1])
qed

end
