(* ===== verification/Monads.thy ===== *)
theory Monads
  imports Prelude
begin

text \<open>
  Computations that thread a state and may fail: a function from a state to an error or a
  result with the next state. The virtual machine and the compiler are written with them.
\<close>

type_synonym ('s, 'e, 'a) stM = "'s \<Rightarrow> 'e + 'a \<times> 's"

definition ret :: "'a \<Rightarrow> ('s, 'e, 'a) stM" where
  "ret x = (\<lambda>s. Inr (x, s))"

definition bnd :: "('s, 'e, 'a) stM \<Rightarrow> ('a \<Rightarrow> ('s, 'e, 'b) stM) \<Rightarrow> ('s, 'e, 'b) stM" where
  "bnd m f = (\<lambda>s. case m s of Inl e \<Rightarrow> Inl e | Inr (x, s') \<Rightarrow> f x s')"

definition rd :: "('s \<Rightarrow> 'a) \<Rightarrow> ('s, 'e, 'a) stM" where
  "rd f = (\<lambda>s. Inr (f s, s))"

definition upd :: "('s \<Rightarrow> 's) \<Rightarrow> ('s, 'e, unit) stM" where
  "upd f = (\<lambda>s. Inr ((), f s))"

definition throwM :: "'e \<Rightarrow> ('s, 'e, 'a) stM" where
  "throwM e = (\<lambda>s. Inl e)"

definition and_then :: "('s, 'e, unit) stM \<Rightarrow> ('s, 'e, 'b) stM \<Rightarrow> ('s, 'e, 'b) stM" where
  "and_then m n = bnd m (\<lambda>_. n)"

definition whenM :: "bool \<Rightarrow> ('s, 'e, unit) stM \<Rightarrow> ('s, 'e, unit) stM" where
  "whenM b m = (if b then m else ret ())"

fun forM :: "'i list \<Rightarrow> ('i \<Rightarrow> ('s, 'e, unit) stM) \<Rightarrow> ('s, 'e, unit) stM" where
  "forM [] f = ret ()"
| "forM (i # is) f = and_then (f i) (forM is f)"

text \<open>A loop that carries a value.\<close>

fun foldM :: "('i \<Rightarrow> 'a \<Rightarrow> ('s, 'e, 'a) stM) \<Rightarrow> 'i list \<Rightarrow> 'a \<Rightarrow> ('s, 'e, 'a) stM" where
  "foldM f [] a = ret a"
| "foldM f (i # is) a = bnd (f i a) (foldM f is)"

end
