(* ===== verification/Mappings.thy ===== *)
theory Mappings
  imports UintText
begin

text \<open>
  The typed mappings of the language (\<^verbatim>\<open>mappinglib.go\<close>): kinds, the normal form of keys and
  values, and the map itself. Keys are kept as normalised text, so that every spelling of a
  number or an address is the same key. The host functions on top of this are in theory
  \<open>HostLibs\<close>, the results in theory \<open>MappingFacts\<close>.
\<close>

datatype mappingKind = mappingKindU256 | mappingKindBool | mappingKindString | mappingKindAgent | mappingKindBytes32

record solidityMapping =
  keyKind :: mappingKind
  valueKind :: mappingKind
  entries :: "string \<Rightarrow> LValue option"

definition zeroAgent :: string where
  "zeroAgent = ''0x'' @ replicate 64 (CHR ''0'')"

definition zeroBytes32 :: string where
  "zeroBytes32 = ''0x'' @ replicate 64 (CHR ''0'')"

text \<open>An error is its message; the messages of this library have no arguments left to format.\<close>

definition plain_error :: "go_error \<Rightarrow> string" where
  "plain_error e = (case e of Errorf m _ \<Rightarrow> m | _ \<Rightarrow> '''')"

definition parseMappingKind :: "string \<Rightarrow> bool \<Rightarrow> string + mappingKind" where
  "parseMappingKind name allowStringKey =
     (let s = strings_ToLower (strings_TrimSpace name)
      in if s = ''u256'' \<or> s = ''uint256'' then Inr mappingKindU256
         else if s = ''bool'' then Inr mappingKindBool
         else if s = ''string'' then Inr mappingKindString
         else if s = ''agent'' then Inr mappingKindAgent
         else if s = ''bytes32'' then Inr mappingKindBytes32
         else if allowStringKey then Inl (''unsupported mapping key type: '' @ name)
         else Inl (''unsupported mapping value type: '' @ name))"

fun mappingKindName :: "mappingKind \<Rightarrow> string" where
  "mappingKindName mappingKindU256 = ''u256''"
| "mappingKindName mappingKindBool = ''bool''"
| "mappingKindName mappingKindString = ''string''"
| "mappingKindName mappingKindAgent = ''agent''"
| "mappingKindName mappingKindBytes32 = ''bytes32''"

fun defaultMappingValue :: "mappingKind \<Rightarrow> LValue" where
  "defaultMappingValue mappingKindU256 = LNum LUint256Zero"
| "defaultMappingValue mappingKindBool = LBool False"
| "defaultMappingValue mappingKindAgent = LAgent zeroAgent"
| "defaultMappingValue mappingKindBytes32 = LString zeroBytes32"
| "defaultMappingValue mappingKindString = LString ''''"

text \<open>
  Printing a number never panics (theory \<open>UintText\<close>); the failure the printer's type has is
  kept as an error.
\<close>

definition number_text :: "LUint256 \<Rightarrow> string + string" where
  "number_text n = (case LUint256_String n of Inl _ \<Rightarrow> Inl ''panic'' | Inr s \<Rightarrow> Inr s)"

definition normalizeU256 :: "LValue \<Rightarrow> string + string" where
  "normalizeU256 v =
     (case v of
        LNum n \<Rightarrow> number_text n
      | LString s \<Rightarrow> (case parseUint256 s of Inl _ \<Rightarrow> Inl ''expected u256 value'' | Inr n \<Rightarrow> number_text n)
      | _ \<Rightarrow> Inl ''expected u256 value'')"

definition normalizeHexString :: "LValue \<Rightarrow> nat \<Rightarrow> string \<Rightarrow> string + string" where
  "normalizeHexString v nbytes kindName =
     (case v of
        LString s \<Rightarrow>
          (let raw = strings_ToLower (strings_TrimSpace s)
           in if \<not> strings_HasPrefix raw ''0x'' then Inl (''expected '' @ kindName @ '' with 0x prefix'')
              else let hex = drop 2 raw
                   in if length hex \<noteq> nbytes * 2
                      then Inl (''expected '' @ kindName @ '' with '' @ decimal (nbytes * 2) @ '' hex chars'')
                      else if list_ex (\<lambda>ch. \<not> is_dec_digit ch \<and> \<not> char_between (CHR ''a'') (CHR ''f'') ch) hex
                      then Inl (''invalid '' @ kindName @ '' hex string'')
                      else Inr (''0x'' @ hex))
      | _ \<Rightarrow> Inl (''expected '' @ kindName @ '' string''))"

definition agent_text :: "LValue \<Rightarrow> string + string" where
  "agent_text v = (case parseAgentValue v of Inl e \<Rightarrow> Inl (plain_error e) | Inr a \<Rightarrow> Inr a)"

definition normalizeMappingKey :: "LValue \<Rightarrow> mappingKind \<Rightarrow> string + string" where
  "normalizeMappingKey v kind =
     (case kind of
        mappingKindU256 \<Rightarrow> normalizeU256 v
      | mappingKindBool \<Rightarrow> (case v of LBool b \<Rightarrow> Inr (if b then ''1'' else ''0'') | _ \<Rightarrow> Inl ''expected bool key'')
      | mappingKindString \<Rightarrow> (case v of LString s \<Rightarrow> Inr s | _ \<Rightarrow> Inl ''expected string key'')
      | mappingKindAgent \<Rightarrow> agent_text v
      | mappingKindBytes32 \<Rightarrow> normalizeHexString v 32 ''bytes32'')"

definition normalizeMappingValue :: "LValue \<Rightarrow> mappingKind \<Rightarrow> string + LValue" where
  "normalizeMappingValue v kind =
     (case kind of
        mappingKindU256 \<Rightarrow> bindr (normalizeU256 v) (\<lambda>num.
          case parseUint256 num of Inl _ \<Rightarrow> Inl ''expected u256 value'' | Inr n \<Rightarrow> Inr (LNum n))
      | mappingKindBool \<Rightarrow> (case v of LBool b \<Rightarrow> Inr (LBool b) | _ \<Rightarrow> Inl ''expected bool value'')
      | mappingKindString \<Rightarrow> (case v of LString s \<Rightarrow> Inr (LString s) | _ \<Rightarrow> Inl ''expected string value'')
      | mappingKindAgent \<Rightarrow> bindr (agent_text v) (\<lambda>a. Inr (LAgent a))
      | mappingKindBytes32 \<Rightarrow> bindr (normalizeHexString v 32 ''bytes32'') (\<lambda>s. Inr (LString s)))"

text \<open>The accesses of the host functions to the map.\<close>

definition new_mapping :: "mappingKind \<Rightarrow> mappingKind \<Rightarrow> solidityMapping" where
  "new_mapping k v = \<lparr>keyKind = k, valueKind = v, entries = (\<lambda>_. None)\<rparr>"

definition mapping_lookup :: "solidityMapping \<Rightarrow> string \<Rightarrow> LValue" where
  "mapping_lookup m key = (case entries m key of Some v \<Rightarrow> v | None \<Rightarrow> defaultMappingValue (valueKind m))"

definition mapping_store :: "solidityMapping \<Rightarrow> string \<Rightarrow> LValue option \<Rightarrow> solidityMapping" where
  "mapping_store m key v = m\<lparr>entries := (entries m)(key := v)\<rparr>"

end
