(* ===== verification/VMState.thy ===== *)
theory VMState
  imports Monads Tables Protos FrameStack Registry Mappings
begin

text \<open>
  The state of the virtual machine (\<^verbatim>\<open>LState\<close>, \<^verbatim>\<open>state.go\<close>) and the operations on it the
  instructions use: errors, upvalues, metatables, gas, field access, call frames and calls.

  Objects are kept in heaps: a table, function, upvalue or user datum is an index, and an index
  outside its heap is a nil pointer. A register value is a \<open>slot\<close>: \<open>None\<close> is Go's nil. Code that
  threads the state is a function from states to an outcome; a raised error carries the value
  and the state it was raised in. The call stack is the fixed one, the default. A line hook is
  not installed (the default: \<^verbatim>\<open>AllowHostHooks\<close> is off). The Go panic that stores Go's nil in a
  table is outside the table model and is the outcome \<open>VUnmodelled\<close>.
\<close>

record Upvalue =
  uindex :: int
  uclosed :: bool
  uvalue :: slot

record lfunction =
  IsG :: bool
  Env :: "nat option"
  Proto :: "FunctionProto option"
  GFunction :: nat
  Upvalues :: "nat option list"

text \<open>The Go value behind a user datum: a mapping of the library, or one of the host's own.\<close>

datatype host_value = MappingValue solidityMapping | OtherValue

record luserdata =
  udHostValue :: host_value
  udEnv :: "nat option"
  udMetatable :: LValue

record vm =
  reg :: registry
  cstack :: fixedCallFrameStack
  currentFrame :: "nat option"
  uvcache :: "nat list"
  vupvals :: "Upvalue list"
  vfuncs :: "lfunction list"
  vtables :: "ltable list"
  vuserdata :: "luserdata list"
  builtinMts :: "LValueType \<Rightarrow> LValue option"
  gRegistry :: nat
  gGlobal :: nat
  lsEnv :: nat
  MainThread :: bool
  hasErrorFunc :: bool
  gasLimit :: u64
  gasUsed :: u64

definition newLState :: "nat \<Rightarrow> nat \<Rightarrow> int \<Rightarrow> int \<Rightarrow> vm" where
  "newLState callStackSize registrySize growStep registryMax =
     \<lparr>reg = newRegistry registrySize growStep registryMax, cstack = newFixedCallFrameStack callStackSize,
      currentFrame = None, uvcache = [], vupvals = [], vfuncs = [], vtables = [newLTable 0 32, newLTable 0 64],
      vuserdata = [], builtinMts = (\<lambda>_. None), gRegistry = 0, gGlobal = 1, lsEnv = 1, MainThread = False,
      hasErrorFunc = False, gasLimit = 0, gasUsed = 0\<rparr>"

definition SetGasLimit :: "u64 \<Rightarrow> vm \<Rightarrow> vm" where
  "SetGasLimit limit s = s\<lparr>gasLimit := limit, gasUsed := 0\<rparr>"

definition MaxTableGetLoop :: nat where "MaxTableGetLoop = 100"
definition MultRet :: int where "MultRet = -1"

section \<open>Computations\<close>

datatype vm_exn = VError slot vm | VPanic go_panic | VFuel | VUnmodelled

type_synonym 'a vmM = "(vm, vm_exn, 'a) stM"

definition vpanic :: "go_panic \<Rightarrow> 'a vmM" where
  "vpanic p = (\<lambda>s. Inl (VPanic p))"

text \<open>An element of a slice, a pointer that is not nil, and a result with a possible panic.\<close>

definition at_index :: "'a list \<Rightarrow> int \<Rightarrow> 'a vmM" where
  "at_index xs i = (if 0 \<le> i \<and> i < int (length xs) then ret (xs ! nat i) else vpanic PIndexOutOfRange)"

definition deref :: "'a option \<Rightarrow> 'a vmM" where
  "deref p = (case p of None \<Rightarrow> vpanic PNilPointer | Some x \<Rightarrow> ret x)"

definition or_panic :: "go_panic + 'a \<Rightarrow> 'a vmM" where
  "or_panic r = (case r of Inl p \<Rightarrow> vpanic p | Inr x \<Rightarrow> ret x)"

definition heap_at :: "'a list \<Rightarrow> nat \<Rightarrow> 'a vmM" where
  "heap_at h i = (if i < length h then ret (h ! i) else vpanic PNilPointer)"

definition the_table :: "nat \<Rightarrow> ltable vmM" where
  "the_table t = bnd (rd vtables) (\<lambda>h. heap_at h t)"

definition put_table :: "nat \<Rightarrow> ltable \<Rightarrow> unit vmM" where
  "put_table t tb = upd (\<lambda>s. s\<lparr>vtables := (vtables s)[t := tb]\<rparr>)"

definition new_table :: "ltable \<Rightarrow> nat vmM" where
  "new_table tb = bnd (rd (\<lambda>s. length (vtables s))) (\<lambda>i.
     and_then (upd (\<lambda>s. s\<lparr>vtables := vtables s @ [tb]\<rparr>)) (ret i))"

definition the_function :: "nat \<Rightarrow> lfunction vmM" where
  "the_function f = bnd (rd vfuncs) (\<lambda>h. heap_at h f)"

definition the_upvalue :: "nat \<Rightarrow> Upvalue vmM" where
  "the_upvalue u = bnd (rd vupvals) (\<lambda>h. heap_at h u)"

section \<open>Frames\<close>

text \<open>A \<^verbatim>\<open>*callFrame\<close> is the number of its slot in the stack array.\<close>

definition frame_at :: "nat \<Rightarrow> callFrame vmM" where
  "frame_at c = bnd (rd (\<lambda>s. farray (cstack s))) (\<lambda>a. heap_at a c)"

definition set_frame :: "nat \<Rightarrow> (callFrame \<Rightarrow> callFrame) \<Rightarrow> unit vmM" where
  "set_frame c f = bnd (frame_at c) (\<lambda>cf.
     upd (\<lambda>s. s\<lparr>cstack := (cstack s)\<lparr>farray := (farray (cstack s))[c := f cf]\<rparr>\<rparr>))"

definition the_currentFrame :: "nat vmM" where
  "the_currentFrame = bnd (rd currentFrame) deref"

definition frame_function :: "callFrame \<Rightarrow> lfunction vmM" where
  "frame_function cf = bnd (deref (Fn cf)) the_function"

definition frame_proto :: "callFrame \<Rightarrow> FunctionProto vmM" where
  "frame_proto cf = bnd (frame_function cf) (\<lambda>fn. deref (Proto fn))"

definition proto_of :: "vm \<Rightarrow> callFrame \<Rightarrow> FunctionProto option" where
  "proto_of s cf = (case Fn cf of None \<Rightarrow> None
     | Some f \<Rightarrow> if f < length (vfuncs s) then Proto (vfuncs s ! f) else None)"

definition isG_frame :: "vm \<Rightarrow> callFrame \<Rightarrow> bool" where
  "isG_frame s cf \<longleftrightarrow> (case Fn cf of None \<Rightarrow> True
     | Some f \<Rightarrow> \<not> f < length (vfuncs s) \<or> IsG (vfuncs s ! f))"

text \<open>
  The frames from the current one along the parents. A parent is in a lower slot (\<open>parents_below\<close> in
  theory \<open>Metering\<close>), so as many steps as there are slots reach the end of the chain.
\<close>

fun chain_from :: "callFrame list \<Rightarrow> nat \<Rightarrow> nat option \<Rightarrow> callFrame list" where
  "chain_from a 0 c = []"
| "chain_from a (Suc n) c =
     (case c of None \<Rightarrow> [] | Some i \<Rightarrow> if i < length a then a ! i # chain_from a n (Parent (a ! i)) else [])"

definition frame_chain :: "vm \<Rightarrow> callFrame list" where
  "frame_chain s = chain_from (farray (cstack s)) (length (farray (cstack s))) (currentFrame s)"

fun stack_walk :: "(callFrame \<Rightarrow> bool) \<Rightarrow> int \<Rightarrow> callFrame list \<Rightarrow> int \<times> callFrame option" where
  "stack_walk isg level [] = (level, None)"
| "stack_walk isg level (f # fs) =
     (if level > 0 then stack_walk isg (level - 1 - (if isg f then 0 else TailCall f)) fs else (level, Some f))"

definition GetStack :: "vm \<Rightarrow> int \<Rightarrow> callFrame option" where
  "GetStack s level =
     (let (l, f) = stack_walk (isG_frame s) level (frame_chain s)
      in if l = 0 \<and> f \<noteq> None then f
         else if l < 0 \<and> fsp (cstack s) > 0 then Some (farray (cstack s) ! 0) else None)"

text \<open>
  The position prefix of an error. Levels of Go functions are skipped; no level beyond
  \<open>where_levels\<close> exists, so that many rounds are enough (\<open>vm_where_stop\<close>).
\<close>

fun vm_where :: "vm \<Rightarrow> nat \<Rightarrow> int \<Rightarrow> bool \<Rightarrow> string" where
  "vm_where s 0 level skipg = ''''"
| "vm_where s (Suc n) level skipg =
     (case GetStack s level of
        None \<Rightarrow> ''''
      | Some cf \<Rightarrow>
          (case proto_of s cf of
             None \<Rightarrow> if skipg then vm_where s n (level + 1) skipg else ''[G]:''
           | Some p \<Rightarrow>
               let positions = DbgSourcePositions (proto_info p);
                   line = (if Pc cf - 1 \<ge> 0 \<and> Pc cf - 1 < int (length positions)
                           then itoa (positions ! nat (Pc cf - 1)) @ '':'' else '''')
               in SourceName (proto_info p) @ '':'' @ line))"

definition where_levels :: "vm \<Rightarrow> nat" where
  "where_levels s = (\<Sum>f \<leftarrow> frame_chain s. 1 + nat (TailCall f)) + 1"

lemma stack_walk_beyond:
  "level > int (\<Sum>f \<leftarrow> fs. 1 + nat (TailCall f)) \<Longrightarrow> \<exists>l > 0. stack_walk isg level fs = (l, None)"
proof (induction fs arbitrary: level)
  case (Cons f fs)
  have "int (\<Sum>f \<leftarrow> fs. 1 + nat (TailCall f)) < level - 1 - (if isg f then 0 else TailCall f)"
    using Cons.prems by (cases "isg f"; cases "0 \<le> TailCall f") simp_all
  moreover have "level > 0" using Cons.prems by (cases "0 \<le> TailCall f") simp_all
  ultimately show ?case using Cons.IH by auto
qed simp

lemma vm_where_stop:
  assumes "level \<ge> int (where_levels s)" shows "vm_where s n level skipg = ''''"
proof -
  obtain l where "l > 0" "stack_walk (isG_frame s) level (frame_chain s) = (l, None)"
    using stack_walk_beyond [of "frame_chain s" level] assms by (auto simp: where_levels_def)
  then have "GetStack s level = None" by (simp add: GetStack_def)
  then show ?thesis by (cases n) auto
qed

section \<open>Errors\<close>

definition currentLocalBase :: "vm \<Rightarrow> int" where
  "currentLocalBase s = (case currentFrame s of None \<Rightarrow> 0 | Some c \<Rightarrow> LocalBase (farray (cstack s) ! c))"

fun reg_panic :: "reg_exn \<Rightarrow> go_panic" where
  "reg_panic ROverflow = PMessage ''registry overflow''"
| "reg_panic (RPanic p) = p"

text \<open>Upvalues: open ones read the register they stand for.\<close>

definition reg_get :: "int \<Rightarrow> slot vmM" where
  "reg_get i = bnd (rd (\<lambda>s. rarray (reg s))) (\<lambda>a. at_index a i)"

definition uv_Value :: "nat \<Rightarrow> slot vmM" where
  "uv_Value u = bnd (the_upvalue u) (\<lambda>uv. if uclosed uv then ret (uvalue uv) else reg_get (uindex uv))"

definition put_upvalue :: "nat \<Rightarrow> Upvalue \<Rightarrow> unit vmM" where
  "put_upvalue u uv = upd (\<lambda>s. s\<lparr>vupvals := (vupvals s)[u := uv]\<rparr>)"

definition uv_Close :: "nat \<Rightarrow> unit vmM" where
  "uv_Close u = bnd (uv_Value u) (\<lambda>v. bnd (the_upvalue u) (\<lambda>uv.
     put_upvalue u (uv\<lparr>uclosed := True, uvalue := v\<rparr>)))"

definition uv_index :: "vm \<Rightarrow> nat \<Rightarrow> int" where
  "uv_index s u = uindex (vupvals s ! u)"

text \<open>The open upvalues are a chain; it is cut before the first one to close.\<close>

definition closeUpvalues :: "int \<Rightarrow> unit vmM" where
  "closeUpvalues idx = bnd (rd (\<lambda>s. s)) (\<lambda>s0.
     let cut = dropWhile (\<lambda>u. uv_index s0 u < idx) (uvcache s0)
     in and_then (upd (\<lambda>s. s\<lparr>uvcache := takeWhile (\<lambda>u. uv_index s0 u < idx) (uvcache s)\<rparr>))
          (forM cut (\<lambda>u. whenM (uv_index s0 u \<ge> idx) (uv_Close u))))"

definition closeAllUpvalues :: "unit vmM" where
  "closeAllUpvalues = bnd (rd (\<lambda>s. s)) (\<lambda>s0.
     forM (frame_chain s0) (\<lambda>cf. whenM (\<not> isG_frame s0 cf) (closeUpvalues (LocalBase cf))))"

definition get_top_value :: "vm \<Rightarrow> slot" where
  "get_top_value s =
     (let tidx = rtop (reg s) - 1
      in if tidx < currentLocalBase s then Some LNil else rarray (reg s) ! nat tidx)"

text \<open>\<open>message\<close> is the formatted message. The pushed value always fits: a full registry is enlarged first.\<close>

definition throw_message :: "string \<Rightarrow> 'a vmM" where
  "throw_message message = (\<lambda>s.
     let rg = (if reg_IsFull (reg s) then forceResize (rtop (reg s) + 1) (reg s) else Inr (reg s))
     in case bindr rg (reg_Push (Some (LString message))) of
          Inl e \<Rightarrow> Inl (VPanic (reg_panic e))
        | Inr rg \<Rightarrow> let s' = s\<lparr>reg := rg\<rparr> in Inl (VError (get_top_value s') s'))"

definition raiseError :: "int \<Rightarrow> string \<Rightarrow> 'a vmM" where
  "raiseError level message =
     bnd (rd hasErrorFunc) (\<lambda>h.
     and_then (whenM (\<not> h) closeAllUpvalues)
       (bnd (rd (\<lambda>s. if level > 0 then vm_where s (where_levels s + 1) (level - 1) True @ '' '' @ message else message))
         throw_message))"

definition RaiseError :: "string \<Rightarrow> 'a vmM" where
  "RaiseError message = raiseError 1 message"

section \<open>Registers\<close>

definition reg_do :: "(registry \<Rightarrow> reg_exn + registry) \<Rightarrow> unit vmM" where
  "reg_do f = bnd (rd (\<lambda>s. f (reg s))) (\<lambda>r.
     case r of
       Inr rg \<Rightarrow> upd (\<lambda>s. s\<lparr>reg := rg\<rparr>)
     | Inl ROverflow \<Rightarrow> RaiseError ''registry overflow''
     | Inl (RPanic p) \<Rightarrow> vpanic p)"

definition set_reg :: "int \<Rightarrow> slot \<Rightarrow> unit vmM" where
  "set_reg i v = reg_do (reg_Set i v)"

definition push_reg :: "slot \<Rightarrow> unit vmM" where
  "push_reg v = reg_do (reg_Push v)"

definition pop_reg :: "slot vmM" where
  "pop_reg = bnd (rd (\<lambda>s. reg_Pop (reg s))) (\<lambda>r.
     case r of
       Inr (v, rg) \<Rightarrow> and_then (upd (\<lambda>s. s\<lparr>reg := rg\<rparr>)) (ret v)
     | Inl e \<Rightarrow> vpanic (reg_panic e))"

definition set_top :: "int \<Rightarrow> unit vmM" where
  "set_top t = reg_do (reg_SetTop t)"

definition top_reg :: "int vmM" where
  "top_reg = rd (\<lambda>s. rtop (reg s))"

text \<open>A store into the array itself, which leaves the top alone.\<close>

definition poke :: "int \<Rightarrow> slot \<Rightarrow> unit vmM" where
  "poke i v = reg_do (\<lambda>rg. bindr (array_set i v (rarray rg)) (\<lambda>a. Inr (rg\<lparr>rarray := a\<rparr>)))"

definition uv_SetValue :: "nat \<Rightarrow> slot \<Rightarrow> unit vmM" where
  "uv_SetValue u v = bnd (the_upvalue u) (\<lambda>uv.
     if uclosed uv then put_upvalue u (uv\<lparr>uvalue := v\<rparr>) else set_reg (uindex uv) v)"

definition findUpvalue :: "int \<Rightarrow> nat vmM" where
  "findUpvalue idx = bnd (rd (\<lambda>s. s)) (\<lambda>s.
     let before = takeWhile (\<lambda>u. uv_index s u < idx) (uvcache s);
         after = dropWhile (\<lambda>u. uv_index s u < idx) (uvcache s);
         fresh = length (vupvals s)
     in if after \<noteq> [] \<and> uv_index s (hd after) = idx then ret (hd after)
        else and_then (upd (\<lambda>s. s\<lparr>vupvals := vupvals s @ [\<lparr>uindex = idx, uclosed = False, uvalue = None\<rparr>],
                                 uvcache := before @ fresh # after\<rparr>))
               (ret fresh))"

section \<open>Gas\<close>

definition chargeGas :: "u64 \<Rightarrow> unit vmM" where
  "chargeGas cost = bnd (rd (\<lambda>s. s)) (\<lambda>s.
     if cost = 0 \<or> gasLimit s = 0 then ret ()
     else and_then (upd (\<lambda>s. s\<lparr>gasUsed := (if gasUsed s > not 0 - cost then not 0 else gasUsed s + cost)\<rparr>))
       (bnd (rd (\<lambda>s. gasUsed s > gasLimit s)) (\<lambda>out. whenM out (RaiseError ''lua: gas limit exceeded''))))"

definition chargeLinearWorkGas :: "int \<Rightarrow> unit vmM" where
  "chargeLinearWorkGas units = (if units \<le> 0 then ret () else chargeGas (word_of_int units * 1))"

section \<open>Values\<close>

definition type_of :: "slot \<Rightarrow> LValueType vmM" where
  "type_of v = bnd (deref v) (\<lambda>x. ret (LValue_Type x))"

definition string_of :: "slot \<Rightarrow> string vmM" where
  "string_of v = bnd (deref v) (\<lambda>x.
     case x of
       LNil \<Rightarrow> ret ''nil''
     | LBool b \<Rightarrow> ret (if b then ''true'' else ''false'')
     | LNum n \<Rightarrow> or_panic (LUint256_String n)
     | LString t \<Rightarrow> ret t
     | LAgent a \<Rightarrow> ret a
     | LFunction _ \<Rightarrow> ret ''function''
     | LUserData _ \<Rightarrow> ret ''userdata''
     | LTable _ \<Rightarrow> ret ''table'')"

definition slot_AsBool :: "slot \<Rightarrow> bool" where
  "slot_AsBool v \<longleftrightarrow> v \<noteq> Some LNil \<and> v \<noteq> Some (LBool False)"

definition slot_IsFalse :: "slot \<Rightarrow> bool" where
  "slot_IsFalse v \<longleftrightarrow> v = Some LNil \<or> v = Some (LBool False)"

definition is_function :: "LValue \<Rightarrow> bool" where
  "is_function v \<longleftrightarrow> LValue_Type v = LTFunction"

definition is_table :: "slot \<Rightarrow> bool" where
  "is_table v \<longleftrightarrow> (case v of Some (LTable _) \<Rightarrow> True | _ \<Rightarrow> False)"

section \<open>Metatables\<close>

definition metatable_raw :: "slot \<Rightarrow> LValue vmM" where
  "metatable_raw v = bnd (deref v) (\<lambda>x.
     case x of
       LTable t \<Rightarrow> bnd (the_table t) (\<lambda>tb. ret (Metatable tb))
     | LUserData u \<Rightarrow> bnd (rd vuserdata) (\<lambda>h. bnd (heap_at h u) (\<lambda>ud. ret (udMetatable ud)))
     | _ \<Rightarrow> bnd (rd builtinMts) (\<lambda>m. ret (opt_value (m (LValue_Type x)))))"

definition metatable :: "slot \<Rightarrow> bool \<Rightarrow> LValue vmM" where
  "metatable v rawget = bnd (metatable_raw v) (\<lambda>mt.
     if \<not> rawget \<and> mt \<noteq> LNil
     then (case mt of
             LTable t \<Rightarrow> bnd (the_table t) (\<lambda>tb.
               let m = RawGetString tb ''__metatable'' in ret (if m = LNil then mt else m))
           | _ \<Rightarrow> ret mt)
     else ret mt)"

definition metaOp1 :: "slot \<Rightarrow> string \<Rightarrow> LValue vmM" where
  "metaOp1 v event = bnd (metatable v True) (\<lambda>mt.
     case mt of LTable t \<Rightarrow> bnd (the_table t) (\<lambda>tb. ret (RawGetString tb event)) | _ \<Rightarrow> ret LNil)"

definition metaOp2 :: "slot \<Rightarrow> slot \<Rightarrow> string \<Rightarrow> LValue vmM" where
  "metaOp2 v1 v2 event = bnd (metaOp1 v1 event) (\<lambda>r. if r \<noteq> LNil then ret r else metaOp1 v2 event)"

definition metaCall :: "slot \<Rightarrow> (nat option \<times> bool) vmM" where
  "metaCall v =
     (case v of
        Some (LFunction f) \<Rightarrow> ret (Some f, False)
      | _ \<Rightarrow> bnd (metaOp1 v ''__call'') (\<lambda>op.
          case op of LFunction f \<Rightarrow> ret (Some f, True) | _ \<Rightarrow> ret (None, False)))"

section \<open>Field access\<close>

text \<open>\<open>call nargs nret rbase\<close> is \<^verbatim>\<open>callR\<close>; \<^verbatim>\<open>Call\<close> has the return base -1.\<close>

type_synonym callback = "int \<Rightarrow> int \<Rightarrow> int \<Rightarrow> unit vmM"

text \<open>Pushes a function and its arguments and calls it for one result.\<close>

definition call_function :: "callback \<Rightarrow> slot list \<Rightarrow> int \<Rightarrow> unit vmM" where
  "call_function call vs nret = and_then (forM vs push_reg) (call (int (length vs) - 1) nret (-1))"

definition call_meta :: "callback \<Rightarrow> slot list \<Rightarrow> slot vmM" where
  "call_meta call vs = and_then (call_function call vs 1) pop_reg"

text \<open>The raw accesses with a key that may be Go's nil, which no table holds.\<close>

definition raw_get :: "nat \<Rightarrow> slot \<Rightarrow> LValue vmM" where
  "raw_get t key = bnd (the_table t) (\<lambda>tb. ret (case key of None \<Rightarrow> LNil | Some k \<Rightarrow> RawGet tb k))"

definition raw_set :: "nat \<Rightarrow> slot \<Rightarrow> slot \<Rightarrow> unit vmM" where
  "raw_set t key v = bnd (the_table t) (\<lambda>tb.
     case (key, v) of
       (Some k, Some x) \<Rightarrow> put_table t (RawSet tb k x)
     | _ \<Rightarrow> (\<lambda>s. Inl VUnmodelled))"

definition raw_set_int :: "nat \<Rightarrow> int \<Rightarrow> slot \<Rightarrow> unit vmM" where
  "raw_set_int t i v = bnd (the_table t) (\<lambda>tb.
     case v of Some x \<Rightarrow> put_table t (RawSetInt tb i x) | None \<Rightarrow> (\<lambda>s. Inl VUnmodelled))"

definition ls_RawSet :: "nat \<Rightarrow> slot \<Rightarrow> slot \<Rightarrow> unit vmM" where
  "ls_RawSet t key v = and_then (whenM (key = Some LNil) (RaiseError ''table index is nil'')) (raw_set t key v)"

definition index_error :: "slot \<Rightarrow> slot \<Rightarrow> 'a vmM" where
  "index_error obj key = bnd (type_of obj) (\<lambda>t. bnd (string_of key) (\<lambda>k.
     RaiseError (''attempt to index a non-table object('' @ LValueType_String t @ '') with key '' @ [CHR 39] @ k @ [CHR 39])))"

fun getField_loop :: "callback \<Rightarrow> slot \<Rightarrow> nat \<Rightarrow> slot \<Rightarrow> slot vmM" where
  "getField_loop call key 0 curobj = RaiseError ''too many recursions in gettable''"
| "getField_loop call key (Suc n) curobj =
     bnd (case curobj of Some (LTable t) \<Rightarrow> raw_get t key | _ \<Rightarrow> ret LNil) (\<lambda>r.
       if r \<noteq> LNil then ret (Some r)
       else bnd (metaOp1 curobj ''__index'') (\<lambda>mi.
         if mi = LNil
         then and_then (whenM (\<not> is_table curobj) (index_error curobj key)) (ret (Some LNil))
         else if is_function mi then call_meta call [Some mi, curobj, key]
         else getField_loop call key n (Some mi)))"

definition getField :: "callback \<Rightarrow> slot \<Rightarrow> slot \<Rightarrow> slot vmM" where
  "getField call obj key = getField_loop call key MaxTableGetLoop obj"

definition getFieldString :: "callback \<Rightarrow> slot \<Rightarrow> string \<Rightarrow> slot vmM" where
  "getFieldString call obj key = getField_loop call (Some (LString key)) MaxTableGetLoop obj"

text \<open>A store into an existing field is raw; a new one may be redirected by \<^verbatim>\<open>__newindex\<close>.\<close>

fun setField_loop :: "callback \<Rightarrow> slot \<Rightarrow> slot \<Rightarrow> nat \<Rightarrow> slot \<Rightarrow> unit vmM" where
  "setField_loop call key v 0 curobj = RaiseError ''too many recursions in settable''"
| "setField_loop call key v (Suc n) curobj =
     bnd (case curobj of Some (LTable t) \<Rightarrow> raw_get t key | _ \<Rightarrow> ret LNil) (\<lambda>r.
       if r \<noteq> LNil
       then (case curobj of Some (LTable t) \<Rightarrow> ls_RawSet t key v | _ \<Rightarrow> ret ())
       else bnd (metaOp1 curobj ''__newindex'') (\<lambda>mi.
         if mi = LNil
         then (case curobj of Some (LTable t) \<Rightarrow> ls_RawSet t key v | _ \<Rightarrow> index_error curobj key)
         else if is_function mi then call_function call [Some mi, curobj, key, v] 0
         else setField_loop call key v n (Some mi)))"

definition setField :: "callback \<Rightarrow> slot \<Rightarrow> slot \<Rightarrow> slot \<Rightarrow> unit vmM" where
  "setField call obj key v = setField_loop call key v MaxTableGetLoop obj"

definition setFieldString :: "callback \<Rightarrow> slot \<Rightarrow> string \<Rightarrow> slot \<Rightarrow> unit vmM" where
  "setFieldString call obj key v = setField_loop call (Some (LString key)) v MaxTableGetLoop obj"

section \<open>Calls\<close>

text \<open>Arguments into parameters: missing ones become nil, surplus ones are kept below the
  parameters of a variadic function.\<close>

definition fill_nil :: "int \<Rightarrow> int \<Rightarrow> int \<Rightarrow> unit vmM" where
  "fill_nil base lo_i hi_i = forM [lo_i..hi_i - 1] (\<lambda>i. poke (base + i) (Some LNil))"

definition arg_table :: "int \<Rightarrow> int \<Rightarrow> nat vmM" where
  "arg_table start nvarargs =
     bnd (new_table (newLTable nvarargs 0)) (\<lambda>t.
     and_then (forM [0..nvarargs - 1] (\<lambda>i. bnd (reg_get (start + i)) (raw_set_int t (i + 1))))
     (and_then (bnd (the_table t) (\<lambda>tb. put_table t (RawSetString tb ''n'' (LNum (lu256FromInt nvarargs)))))
       (ret t)))"

definition init_varargs :: "nat \<Rightarrow> proto_fields \<Rightarrow> int \<Rightarrow> int \<Rightarrow> unit vmM" where
  "init_varargs c p nargs np =
     bnd (frame_at c) (\<lambda>cf.
       let base = LocalBase cf; nvarargs = (if nargs - np < 0 then 0 else nargs - np)
       in and_then (set_top (base + nargs + np))
         (and_then (forM [0..np - 1] (\<lambda>i.
            bnd (reg_get (base + i)) (\<lambda>v. and_then (poke (base + nargs + i) v) (poke (base + i) (Some LNil)))))
         (and_then (set_top (base + nargs + np + 1))
         (and_then
            (if and (IsVarArg p) VarArgNeedsArg \<noteq> 0
             then bnd (arg_table (base + np) nvarargs) (\<lambda>t. poke (base + nargs + np) (Some (LTable t)))
             else poke (base + nargs + np) (Some LNil))
         (and_then (set_frame c (\<lambda>cf. cf\<lparr>LocalBase := LocalBase cf + nargs\<rparr>))
            (bnd (frame_at c) (\<lambda>cf. set_top (LocalBase cf + uint (NumUsedRegisters p)))))))))"

definition set_top_only :: "int \<Rightarrow> unit vmM" where
  "set_top_only t = upd (\<lambda>s. s\<lparr>reg := (reg s)\<lparr>rtop := t\<rparr>\<rparr>)"

definition initCallFrame :: "nat \<Rightarrow> unit vmM" where
  "initCallFrame c =
     bnd (frame_at c) (\<lambda>cf. bnd (frame_function cf) (\<lambda>fn.
       if IsG fn then set_top (LocalBase cf + NArgs cf)
       else bnd (deref (Proto fn)) (\<lambda>proto.
         let p = proto_info proto; base = LocalBase cf; np = uint (NumParameters p);
             nargs = (if NArgs cf < np then np else NArgs cf)
         in and_then (whenM (NArgs cf < np)
              (and_then (reg_do (checkSize (base + np)))
              (and_then (fill_nil base (NArgs cf) np) (set_top_only (base + np)))))
            (if and (IsVarArg p) VarArgIsVarArg = 0
             then let nargs = (if nargs < uint (NumUsedRegisters p) then uint (NumUsedRegisters p) else nargs)
                  in and_then (reg_do (checkSize (base + nargs)))
                     (and_then (fill_nil base np nargs) (set_top_only (base + uint (NumUsedRegisters p))))
             else init_varargs c p nargs np))))"

definition push_frame :: "callFrame \<Rightarrow> unit vmM" where
  "push_frame cf = bnd (rd (\<lambda>s. fixed_Push cf (cstack s))) (\<lambda>r.
     bnd (or_panic r) (\<lambda>cs. upd (\<lambda>s. s\<lparr>cstack := cs\<rparr>)))"

definition last_slot :: "vm \<Rightarrow> nat option" where
  "last_slot s = (if fsp (cstack s) = 0 then None else Some (nat (fsp (cstack s) - 1)))"

definition pushCallFrame :: "callFrame \<Rightarrow> slot \<Rightarrow> bool \<Rightarrow> unit vmM" where
  "pushCallFrame cf fn meta =
     (let cf = (if meta then cf\<lparr>NArgs := NArgs cf + 1\<rparr> else cf)
      in and_then (whenM meta (reg_do (reg_Insert fn (LocalBase cf))))
        (and_then (whenM (Fn cf = None) (RaiseError ''attempt to call a non-function object''))
        (bnd (rd (\<lambda>s. fixed_IsFull (cstack s))) (\<lambda>full.
         and_then (whenM full (RaiseError ''stack overflow''))
        (and_then (push_frame cf)
        (bnd (rd last_slot) (\<lambda>newcf.
         bnd (deref newcf) (\<lambda>c.
         and_then (initCallFrame c) (upd (\<lambda>s. s\<lparr>currentFrame := Some c\<rparr>))))))))))"

definition new_frame :: "nat option \<Rightarrow> int \<Rightarrow> int \<Rightarrow> int \<Rightarrow> int \<Rightarrow> nat option \<Rightarrow> callFrame" where
  "new_frame fn base rbase nargs nret parent =
     \<lparr>Idx = 0, Fn = fn, Parent = parent, Pc = 0, Base = base, LocalBase = base + 1,
      ReturnBase = rbase, NArgs = nargs, NRet = nret, TailCall = 0\<rparr>"

text \<open>\<open>run base\<close> is \<^verbatim>\<open>mainLoop(ls, base)\<close>.\<close>

definition callR :: "(nat option \<Rightarrow> unit vmM) \<Rightarrow> callback" where
  "callR run nargs nret rbase =
     bnd top_reg (\<lambda>top.
       let base = top - nargs - 1; rbase = (if rbase < 0 then base else rbase)
       in bnd (reg_get base) (\<lambda>lv. bnd (metaCall lv) (\<lambda>(fn, meta). bnd (rd currentFrame) (\<lambda>parent.
          and_then (pushCallFrame (new_frame fn base rbase nargs nret parent) lv meta)
          (and_then (bnd (rd MainThread) (\<lambda>started.
             if \<not> started then and_then (upd (\<lambda>s. s\<lparr>MainThread := True\<rparr>)) (run None)
             else bnd (rd currentFrame) run))
            (whenM (nret \<noteq> MultRet) (set_top (rbase + nret))))))))"

text \<open>Replaces the frame below the current one by it.\<close>

definition pop_frame :: "nat vmM" where
  "pop_frame = and_then (upd (\<lambda>s. s\<lparr>cstack := (cstack s)\<lparr>fsp := fsp (cstack s) - 1\<rparr>\<rparr>))
     (bnd (rd cstack) (\<lambda>cs.
        if 0 \<le> fsp cs \<and> fsp cs < int (length (farray cs)) then ret (nat (fsp cs)) else vpanic PIndexOutOfRange))"

definition RemoveCallerFrame :: "nat vmM" where
  "RemoveCallerFrame =
     bnd (rd (\<lambda>s. fsp (cstack s))) (\<lambda>sp.
     bnd (rd (\<lambda>s. farray (cstack s))) (\<lambda>a.
     bnd (at_index a (sp - 2)) (\<lambda>parentFrame.
     bnd (at_index a (sp - 1)) (\<lambda>current.
       and_then (set_frame (nat (sp - 2)) (\<lambda>_. current\<lparr>Parent := Parent parentFrame, Idx := sp - 2\<rparr>))
       (bnd pop_frame (\<lambda>_. ret (nat (sp - 2))))))))"

end
