(* ===== verification/Upvalues.thy ===== *)
theory Upvalues
  imports VMState
begin

text \<open>
  Upvalues (\<^verbatim>\<open>function.go\<close>, \<^verbatim>\<open>state.go\<close>): the chain of open upvalues is sorted by register and
  has each open one exactly once, finding one keeps the chain, and closing one does not change
  what it reads.
\<close>

text \<open>What an upvalue stands for.\<close>

definition uv_read :: "vm \<Rightarrow> nat \<Rightarrow> slot" where
  "uv_read s u = (if uclosed (vupvals s ! u) then uvalue (vupvals s ! u) else rarray (reg s) ! nat (uv_index s u))"

definition open_uv :: "vm \<Rightarrow> nat \<Rightarrow> bool" where
  "open_uv s u \<longleftrightarrow> u < length (vupvals s) \<and> \<not> uclosed (vupvals s ! u)"

definition uv_ok :: "vm \<Rightarrow> bool" where
  "uv_ok s \<longleftrightarrow> sorted_wrt (\<lambda>u w. uv_index s u < uv_index s w) (uvcache s) \<and>
     set (uvcache s) = {u. open_uv s u} \<and>
     (\<forall>u \<in> set (uvcache s). 0 \<le> uv_index s u \<and> uv_index s u < int (length (rarray (reg s))))"

section \<open>Closing\<close>

definition closed_uv :: "vm \<Rightarrow> nat \<Rightarrow> Upvalue" where
  "closed_uv s u = (vupvals s ! u)\<lparr>uclosed := True, uvalue := uv_read s u\<rparr>"

lemma uv_Close_run:
  assumes "open_uv s u" "0 \<le> uv_index s u" "uv_index s u < int (length (rarray (reg s)))"
  shows "uv_Close u s = Inr ((), s\<lparr>vupvals := (vupvals s)[u := closed_uv s u]\<rparr>)"
  using assms
  by (simp add: uv_Close_def uv_Value_def the_upvalue_def heap_at_def bnd_def rd_def ret_def reg_get_def at_index_def
      put_upvalue_def upd_def closed_uv_def uv_read_def open_uv_def uv_index_def)

text \<open>Closing some upvalues, each with the value it reads before.\<close>

definition close_set :: "nat set \<Rightarrow> vm \<Rightarrow> vm" where
  "close_set U s = s\<lparr>vupvals := map (\<lambda>u. if u \<in> U then closed_uv s u else vupvals s ! u) [0..<length (vupvals s)]\<rparr>"

lemma close_set_simps [simp]:
  "reg (close_set U s) = reg s" "uvcache (close_set U s) = uvcache s" "length (vupvals (close_set U s)) = length (vupvals s)"
  "u < length (vupvals s) \<Longrightarrow> vupvals (close_set U s) ! u = (if u \<in> U then closed_uv s u else vupvals s ! u)"
  "u < length (vupvals s) \<Longrightarrow> uv_index (close_set U s) u = uv_index s u"
  "u < length (vupvals s) \<Longrightarrow> uv_read (close_set U s) u = uv_read s u"
  by (auto simp: close_set_def uv_index_def closed_uv_def uv_read_def)

lemma close_set_insert:
  assumes "u < length (vupvals s)" "u \<notin> U"
  shows "(close_set U s)\<lparr>vupvals := (vupvals (close_set U s))[u := closed_uv (close_set U s) u]\<rparr> = close_set (insert u U) s"
proof -
  have "closed_uv (close_set U s) u = closed_uv s u"
    unfolding closed_uv_def using assms close_set_simps(4,6) [OF assms(1), of U] by simp
  moreover have "(vupvals (close_set U s))[u := closed_uv s u] = vupvals (close_set (insert u U) s)"
    using assms by (intro nth_equalityI) (auto simp: nth_list_update)
  ultimately show ?thesis by (simp add: close_set_def)
qed

lemma close_run:
  assumes "distinct us" "set us \<inter> U = {}"
    and "\<And>u. u \<in> set us \<Longrightarrow> open_uv s u \<and> 0 \<le> uv_index s u \<and> uv_index s u < int (length (rarray (reg s)))"
  shows "forM us uv_Close (close_set U s) = Inr ((), close_set (set us \<union> U) s)"
  using assms
proof (induction us arbitrary: U)
  case (Cons u us)
  have "open_uv (close_set U s) u" using Cons.prems by (auto simp: open_uv_def)
  then have "uv_Close u (close_set U s) = Inr ((), close_set (insert u U) s)"
    using Cons.prems by (subst uv_Close_run) (auto simp: open_uv_def close_set_insert)
  moreover have "forM us uv_Close (close_set (insert u U) s) = Inr ((), close_set (set us \<union> insert u U) s)"
    using Cons.prems by (intro Cons.IH) auto
  ultimately show ?case by (simp add: and_then_def bnd_def)
qed (simp add: ret_def)

lemma sorted_cut:
  fixes f :: "'a \<Rightarrow> int"
  assumes "sorted_wrt (\<lambda>x y. f x < f y) xs"
  shows "set (takeWhile (\<lambda>x. f x < k) xs) = {x \<in> set xs. f x < k}"
    "set (dropWhile (\<lambda>x. f x < k) xs) = {x \<in> set xs. k \<le> f x}"
  using assms by (induction xs) (auto simp: not_less)

lemma sorted_distinct: "sorted_wrt (\<lambda>x y. (f x :: int) < f y) xs \<Longrightarrow> distinct xs"
  by (induction xs) auto

lemma sorted_wrt_takeWhile: "sorted_wrt P xs \<Longrightarrow> sorted_wrt P (takeWhile Q xs)"
  by (metis sorted_wrt_append takeWhile_dropWhile_id)

lemma sorted_wrt_dropWhile: "sorted_wrt P xs \<Longrightarrow> sorted_wrt P (dropWhile Q xs)"
  by (metis sorted_wrt_append takeWhile_dropWhile_id)

lemma forM_cong: "(\<And>x. x \<in> set xs \<Longrightarrow> f x = g x) \<Longrightarrow> forM xs f = forM xs g"
  by (induction xs) auto

lemma closeUpvalues_run:
  assumes "uv_ok s"
  shows "closeUpvalues idx s = Inr ((), (close_set {u. open_uv s u \<and> idx \<le> uv_index s u} s)
    \<lparr>uvcache := takeWhile (\<lambda>u. uv_index s u < idx) (uvcache s)\<rparr>)"
proof -
  define cut where "cut = dropWhile (\<lambda>u. uv_index s u < idx) (uvcache s)"
  define t where "t = s\<lparr>uvcache := takeWhile (\<lambda>u. uv_index s u < idx) (uvcache s)\<rparr>"
  have srt: "sorted_wrt (\<lambda>u w. uv_index s u < uv_index s w) (uvcache s)" and "set (uvcache s) = {u. open_uv s u}"
    and r: "\<forall>u \<in> set (uvcache s). 0 \<le> uv_index s u \<and> uv_index s u < int (length (rarray (reg s)))"
    using assms by (auto simp: uv_ok_def)
  then have cut: "set cut = {u. open_uv s u \<and> idx \<le> uv_index s u}" "distinct cut" "set cut \<subseteq> set (uvcache s)"
    using sorted_cut(2) [OF srt, of idx] sorted_distinct [OF srt] by (auto simp: cut_def)
  have same: "uv_index t = uv_index s" "open_uv t = open_uv s" "reg t = reg s" "close_set {} t = t"
    by (auto simp: t_def fun_eq_iff uv_index_def open_uv_def close_set_def map_nth)
  have "forM cut uv_Close (close_set {} t) = Inr ((), close_set (set cut \<union> {}) t)"
    using cut r by (intro close_run) (auto simp: same)
  then have run: "forM cut uv_Close t = Inr ((), close_set (set cut) t)" by (simp add: same(4))
  have "forM cut (\<lambda>u. whenM (idx \<le> uv_index s u) (uv_Close u)) = forM cut uv_Close"
    using cut(1) by (intro forM_cong) (simp add: whenM_def)
  moreover have "close_set U t = (close_set U s)\<lparr>uvcache := uvcache t\<rparr>" for U
    by (auto simp: close_set_def t_def closed_uv_def uv_read_def uv_index_def)
  ultimately show ?thesis
    by (simp add: closeUpvalues_def bnd_def rd_def upd_def and_then_def t_def [symmetric] cut_def [symmetric] run)
      (simp add: t_def cut(1))
qed

lemma closeUpvalues_ok:
  assumes "uv_ok s" "closeUpvalues idx s = Inr (x, s')" shows "uv_ok s'"
proof -
  define U where "U = {u. open_uv s u \<and> idx \<le> uv_index s u}"
  have s': "s' = (close_set U s)\<lparr>uvcache := takeWhile (\<lambda>u. uv_index s u < idx) (uvcache s)\<rparr>"
    using assms closeUpvalues_run [OF assms(1)] by (simp add: U_def)
  have srt: "sorted_wrt (\<lambda>u w. uv_index s u < uv_index s w) (uvcache s)" and set_eq: "set (uvcache s) = {u. open_uv s u}"
    and r: "\<forall>u \<in> set (uvcache s). 0 \<le> uv_index s u \<and> uv_index s u < int (length (rarray (reg s)))"
    using assms by (auto simp: uv_ok_def)
  have idx: "uv_index s' u = uv_index s u" if "u < length (vupvals s)" for u
    using that close_set_simps(5) [of u s U] by (simp add: s' uv_index_def)
  have kept: "set (uvcache s') = {u. open_uv s u \<and> uv_index s u < idx}"
    using sorted_cut(1) [OF srt, of idx] set_eq by (auto simp: s')
  have "open_uv s' u \<longleftrightarrow> open_uv s u \<and> uv_index s u < idx" for u
    by (auto simp: s' open_uv_def U_def closed_uv_def not_less split: if_splits)
  then show ?thesis
    using kept r set_eq sorted_wrt_takeWhile [OF srt, of "\<lambda>u. uv_index s u < idx"] idx
    by (auto simp: uv_ok_def s' open_uv_def intro: sorted_wrt_mono_rel [rotated])
qed

text \<open>A state with two captured registers.\<close>

definition two_captures :: vm where
  "two_captures = (newLState 1 4 0 4)\<lparr>
     reg := \<lparr>rarray = [Some LNil, Some (LBool True), Some (LBool False), None], rtop = 3, growBy = 0, maxSize = 4\<rparr>,
     vupvals := [\<lparr>uindex = 2, uclosed = False, uvalue = None\<rparr>, \<lparr>uindex = 0, uclosed = False, uvalue = None\<rparr>],
     uvcache := [1, 0]\<rparr>"

lemma two_captures_ok: "uv_ok two_captures"
proof -
  have "open_uv two_captures u \<longleftrightarrow> u = 0 \<or> u = 1" for u
    by (auto simp: open_uv_def two_captures_def less_Suc_eq)
  then show ?thesis by (auto simp: uv_ok_def two_captures_def uv_index_def)
qed

text \<open>C13: closing the upvalues from a register on always succeeds, it closes exactly the open ones that stand for
  this register or a later one, and no upvalue, closed or open, reads another value afterwards; the closed ones keep
  it whatever becomes of the registers.\<close>

theorem closing_upvalues:
  assumes "uv_ok s"
  shows "\<exists>s'. closeUpvalues idx s = Inr ((), s') \<and> uv_ok s' \<and> reg s' = reg s \<and>
    (\<forall>u < length (vupvals s). uv_read s' u = uv_read s u \<and>
       (uclosed (vupvals s' ! u) \<longleftrightarrow> uclosed (vupvals s ! u) \<or> idx \<le> uv_index s u) \<and>
       (uclosed (vupvals s' ! u) \<longrightarrow> (\<forall>r. uv_read (s'\<lparr>reg := r\<rparr>) u = uv_read s u)))"
proof -
  define U where "U = {u. open_uv s u \<and> idx \<le> uv_index s u}"
  let ?s = "(close_set U s)\<lparr>uvcache := takeWhile (\<lambda>u. uv_index s u < idx) (uvcache s)\<rparr>"
  have run: "closeUpvalues idx s = Inr ((), ?s)"
    using closeUpvalues_run [OF assms] by (simp add: U_def)
  have "uv_read ?s u = uv_read s u \<and> (uclosed (vupvals ?s ! u) \<longleftrightarrow> uclosed (vupvals s ! u) \<or> idx \<le> uv_index s u) \<and>
       (uclosed (vupvals ?s ! u) \<longrightarrow> (\<forall>r. uv_read (?s\<lparr>reg := r\<rparr>) u = uv_read s u))" if "u < length (vupvals s)" for u
    using that by (auto simp: uv_read_def uv_index_def closed_uv_def U_def open_uv_def)
  then show ?thesis using closeUpvalues_ok [OF assms run] run by auto
qed

theorem closing_upvalues_witness:
  "\<exists>s'. closeUpvalues 1 two_captures = Inr ((), s') \<and> uclosed (vupvals s' ! 0) \<and> \<not> uclosed (vupvals s' ! 1) \<and>
    uv_read s' 0 = Some (LBool False)"
proof -
  obtain s' where "closeUpvalues 1 two_captures = Inr ((), s')"
    "\<forall>u < length (vupvals two_captures). uv_read s' u = uv_read two_captures u \<and>
       (uclosed (vupvals s' ! u) \<longleftrightarrow> uclosed (vupvals two_captures ! u) \<or> 1 \<le> uv_index two_captures u)"
    using closing_upvalues [OF two_captures_ok, of 1] by auto
  then show ?thesis
    by (auto simp: two_captures_def uv_read_def uv_index_def dest: spec [of _ 0] spec [of _ "Suc 0"])
qed

section \<open>Finding\<close>

text \<open>The one upvalue of a register: a second capture of a variable gets the first one's.\<close>

lemma findUpvalue_run:
  assumes "uv_ok s" "0 \<le> idx" "idx < int (length (rarray (reg s)))"
  shows "\<exists>u s'. findUpvalue idx s = Inr (u, s') \<and> uv_ok s' \<and> open_uv s' u \<and> uv_index s' u = idx \<and> reg s' = reg s \<and>
    take (length (vupvals s)) (vupvals s') = vupvals s \<and> length (vupvals s) \<le> length (vupvals s') \<and>
    (u < length (vupvals s) \<longrightarrow> s' = s)"
proof -
  define before where "before = takeWhile (\<lambda>u. uv_index s u < idx) (uvcache s)"
  define after where "after = dropWhile (\<lambda>u. uv_index s u < idx) (uvcache s)"
  have srt: "sorted_wrt (\<lambda>u w. uv_index s u < uv_index s w) (uvcache s)" and set_eq: "set (uvcache s) = {u. open_uv s u}"
    and r: "\<forall>u \<in> set (uvcache s). 0 \<le> uv_index s u \<and> uv_index s u < int (length (rarray (reg s)))"
    using assms by (auto simp: uv_ok_def)
  have parts: "set before = {u. open_uv s u \<and> uv_index s u < idx}" "set after = {u. open_uv s u \<and> idx \<le> uv_index s u}"
    "before @ after = uvcache s"
    using sorted_cut [OF srt, of idx] set_eq by (auto simp: before_def after_def)
  have both: "set before \<union> set after = set (uvcache s)" by (simp add: parts(3) flip: set_append)
  show ?thesis
  proof (cases "after \<noteq> [] \<and> uv_index s (hd after) = idx")
    case True
    then have "open_uv s (hd after)" using parts(2) hd_in_set [of after] by auto
    moreover have "findUpvalue idx s = Inr (hd after, s)"
      using True unfolding findUpvalue_def bnd_def rd_def Let_def sum.case prod.case after_def [symmetric] by (simp add: ret_def)
    ultimately show ?thesis using True assms(1) by (auto simp: open_uv_def)
  next
    case False
    define fresh where "fresh = length (vupvals s)"
    define s' where "s' = s\<lparr>vupvals := vupvals s @ [\<lparr>uindex = idx, uclosed = False, uvalue = None\<rparr>], uvcache := before @ fresh # after\<rparr>"
    have run: "findUpvalue idx s = Inr (fresh, s')"
      using False unfolding findUpvalue_def bnd_def rd_def Let_def sum.case prod.case after_def [symmetric] before_def [symmetric]
      by (auto simp: ret_def upd_def and_then_def bnd_def s'_def fresh_def)
    have idx: "uv_index s' u = (if u = fresh then idx else uv_index s u)" if "u \<le> length (vupvals s)" for u
      using that by (auto simp: uv_index_def s'_def nth_append fresh_def)
    have opn: "open_uv s' u \<longleftrightarrow> u = fresh \<or> open_uv s u" for u
      by (auto simp: open_uv_def s'_def fresh_def nth_append)
    have old: "u < fresh" if "u \<in> set before \<union> set after" for u
      using that parts by (auto simp: open_uv_def fresh_def)
    have neq: "idx < uv_index s u" if "u \<in> set after" for u
    proof -
      have "sorted_wrt (\<lambda>u w. uv_index s u < uv_index s w) after"
        unfolding after_def by (rule sorted_wrt_dropWhile [OF srt])
      then have "uv_index s (hd after) \<le> uv_index s u" using that by (cases after) auto
      moreover have "idx \<le> uv_index s (hd after)" "after \<noteq> []" using that parts(2) hd_in_set [of after] by force+
      ultimately show ?thesis using False by linarith
    qed
    have s_idx: "uv_index s' u = uv_index s u" if "u \<in> set before \<union> set after" for u
      using old [OF that] idx [of u] by (simp add: fresh_def)
    have moved: "sorted_wrt (\<lambda>u w. uv_index s' u < uv_index s' w) xs"
      if "sorted_wrt (\<lambda>u w. uv_index s u < uv_index s w) xs" "set xs \<subseteq> set before \<union> set after" for xs
      by (rule sorted_wrt_mono_rel [OF _ that(1)]) (metis that(2) s_idx subsetD)
    have "sorted_wrt (\<lambda>u w. uv_index s' u < uv_index s' w) (before @ after)"
      by (rule moved) (simp_all add: srt parts(3) flip: set_append)
    moreover have "\<forall>u \<in> set before. uv_index s' u < uv_index s' fresh" "\<forall>u \<in> set after. uv_index s' fresh < uv_index s' u"
      using s_idx idx [of fresh] parts(1) neq by (auto simp: fresh_def)
    ultimately have "sorted_wrt (\<lambda>u w. uv_index s' u < uv_index s' w) (before @ fresh # after)"
      by (auto simp: sorted_wrt_append)
    moreover have "set (before @ fresh # after) = {u. open_uv s' u}" using both opn unfolding set_eq by auto
    moreover have "\<forall>u \<in> set (before @ fresh # after). 0 \<le> uv_index s' u \<and> uv_index s' u < int (length (rarray (reg s)))"
      using r both s_idx idx [of fresh] assms(2,3) by (auto simp: fresh_def)
    ultimately have "uv_ok s'"
      by (simp add: uv_ok_def) (simp add: s'_def)
    then show ?thesis using run idx [of fresh] opn by (auto simp: s'_def fresh_def)
  qed
qed


text \<open>Writing an open upvalue writes its register, and only that.\<close>

lemma uv_SetValue_run:
  assumes "open_uv s u" "0 \<le> uv_index s u" "uv_index s u < int (length (rarray (reg s)))"
  shows "uv_SetValue u v s = Inr ((), s\<lparr>reg := (reg s)\<lparr>rarray := (rarray (reg s))[nat (uv_index s u) := v],
    rtop := (if uv_index s u \<ge> rtop (reg s) then uv_index s u + 1 else rtop (reg s))\<rparr>\<rparr>)"
  using assms
  by (simp add: uv_SetValue_def bnd_def rd_def the_upvalue_def heap_at_def ret_def set_reg_def reg_do_def reg_Set_def checkSize_def
      array_set_def upd_def open_uv_def uv_index_def)

text \<open>C14: captured variables: capturing a register yields an open upvalue for it, the same one at every capture;
  a write through it is a write to the register, which the register's users and every later capture see, and
  which no other upvalue sees.\<close>

theorem captured_variable:
  assumes "uv_ok s" "0 \<le> idx" "idx < int (length (rarray (reg s)))"
  shows "\<exists>u s1 s2. findUpvalue idx s = Inr (u, s1) \<and> uv_ok s1 \<and> uv_read s1 u = rarray (reg s) ! nat idx \<and>
    findUpvalue idx s1 = Inr (u, s1) \<and>
    uv_SetValue u v s1 = Inr ((), s2) \<and> uv_ok s2 \<and> uv_read s2 u = v \<and>
    rarray (reg s2) = (rarray (reg s))[nat idx := v] \<and> findUpvalue idx s2 = Inr (u, s2) \<and>
    (\<forall>w < length (vupvals s). w \<noteq> u \<longrightarrow> uv_read s2 w = uv_read s w)"
proof -
  obtain u s1 where s1: "findUpvalue idx s = Inr (u, s1)" "uv_ok s1" "open_uv s1 u" "uv_index s1 u = idx" "reg s1 = reg s"
    "take (length (vupvals s)) (vupvals s1) = vupvals s" "length (vupvals s) \<le> length (vupvals s1)"
    using findUpvalue_run [OF assms] by blast
  have again: "findUpvalue idx t = Inr (u, t)" if t: "uv_ok t" "open_uv t u" "uv_index t u = idx"
    "idx < int (length (rarray (reg t)))" for t
  proof -
    obtain w t' where w: "findUpvalue idx t = Inr (w, t')" "uv_ok t'" "open_uv t' w" "uv_index t' w = idx"
      "take (length (vupvals t)) (vupvals t') = vupvals t" "length (vupvals t) \<le> length (vupvals t')" "w < length (vupvals t) \<longrightarrow> t' = t"
      using findUpvalue_run [OF t(1) assms(2) t(4)] by blast
    have "vupvals t' ! u = vupvals t ! u" using w(5,6) t(2) by (metis nth_take open_uv_def)
    then have "open_uv t' u" "uv_index t' u = idx" using t w(6) by (auto simp: open_uv_def uv_index_def)
    then have "u \<in> set (uvcache t')" "w \<in> set (uvcache t')" using w(2,3) by (auto simp: uv_ok_def)
    moreover have "sorted_wrt (\<lambda>u w. uv_index t' u < uv_index t' w) (uvcache t')" using w(2) by (simp add: uv_ok_def)
    ultimately have "u = w"
      using w(4) \<open>uv_index t' u = idx\<close> by (metis in_set_conv_nth less_irrefl linorder_neqE_nat sorted_wrt_nth_less)
    then show ?thesis using w(1,7) t(2) by (auto simp: open_uv_def)
  qed
  define s2 where "s2 = s1\<lparr>reg := (reg s)\<lparr>rarray := (rarray (reg s))[nat idx := v],
    rtop := (if idx \<ge> rtop (reg s) then idx + 1 else rtop (reg s))\<rparr>\<rparr>"
  have s2: "uv_SetValue u v s1 = Inr ((), s2)"
    using uv_SetValue_run [OF s1(3), of v] assms s1(4,5) by (simp add: s2_def)
  have ok2: "uv_ok s2" "open_uv s2 u" "uv_index s2 u = idx"
    using s1(2-5) by (auto simp: uv_ok_def s2_def uv_index_def open_uv_def)
  have other: "uv_read s2 w = uv_read s w" if w: "w < length (vupvals s)" "w \<noteq> u" for w
  proof -
    have same: "vupvals s1 ! w = vupvals s ! w" using s1(6) w(1) by (metis nth_take)
    have "uv_index s1 w \<noteq> idx" "0 \<le> uv_index s1 w" if "\<not> uclosed (vupvals s ! w)"
    proof -
      have "open_uv s1 w" using that same w(1) s1(7) by (simp add: open_uv_def)
      then have c: "w \<in> set (uvcache s1)" "u \<in> set (uvcache s1)" "sorted_wrt (\<lambda>u w. uv_index s1 u < uv_index s1 w) (uvcache s1)"
        using s1(2,3) by (auto simp: uv_ok_def)
      show "uv_index s1 w \<noteq> idx"
        using c w(2) s1(4) by (metis in_set_conv_nth less_irrefl linorder_neqE_nat sorted_wrt_nth_less)
      show "0 \<le> uv_index s1 w" using c(1) s1(2) by (auto simp: uv_ok_def)
    qed
    then show ?thesis
      using same assms(2) by (auto simp: uv_read_def s2_def uv_index_def nth_list_update eq_nat_nat_iff)
  qed
  show ?thesis
  proof (intro exI conjI)
    show "findUpvalue idx s1 = Inr (u, s1)" using again [OF s1(2,3,4)] s1(5) assms(3) by simp
    show "findUpvalue idx s2 = Inr (u, s2)" using again [OF ok2] assms(3) by (simp add: s2_def)
    show "uv_read s1 u = rarray (reg s) ! nat idx" using s1(3-5) by (simp add: uv_read_def open_uv_def)
    show "uv_read s2 u = v" using ok2 assms(2,3) by (simp add: uv_read_def open_uv_def s2_def)
    show "\<forall>w < length (vupvals s). w \<noteq> u \<longrightarrow> uv_read s2 w = uv_read s w" using other by blast
  qed (use s1 s2 ok2 in \<open>simp_all add: s2_def\<close>)
qed

theorem captured_variable_witness:
  "\<exists>u s1 s2. findUpvalue 1 two_captures = Inr (u, s1) \<and> uv_SetValue u (Some LNil) s1 = Inr ((), s2) \<and>
    rarray (reg s2) = [Some LNil, Some LNil, Some (LBool False), None]"
proof -
  have "0 \<le> (1::int)" "1 < int (length (rarray (reg two_captures)))" by (simp_all add: two_captures_def)
  from captured_variable [OF two_captures_ok this, of "Some LNil"] show ?thesis
    by (auto simp: two_captures_def)
qed

end
