(* ===== verification/VM.thy ===== *)
theory VM
  imports VMState
begin

text \<open>
  The interpreter (\<^verbatim>\<open>vm.go\<close>): one definition per instruction, named after its opcode, the
  operators they share, and the main loop. Calls out of an instruction go through \<open>call\<close>, which
  is \<^verbatim>\<open>callR\<close> of the state; a host function is a parameter \<open>G\<close>, which gets the same callback
  and returns the number of its results. The main loop takes fuel: one unit for each
  instruction, shared by nested runs; theory \<open>Metering\<close> shows how much is enough.
\<close>

definition FieldsPerFlush :: int where "FieldsPerFlush = 50"
definition maxStringResultBytes :: int where "maxStringResultBytes = 2 ^ 20"
definition dbgLocalAttrClose :: u8 where "dbgLocalAttrClose = 2"

section \<open>Operands\<close>

definition with_frame :: "(nat \<Rightarrow> callFrame \<Rightarrow> 'a vmM) \<Rightarrow> 'a vmM" where
  "with_frame f = bnd the_currentFrame (\<lambda>c. bnd (frame_at c) (f c))"

definition rkValue :: "int \<Rightarrow> slot vmM" where
  "rkValue idx = with_frame (\<lambda>c cf.
     if opIsK idx
     then bnd (frame_proto cf) (\<lambda>p. bnd (at_index (Constants (proto_info p)) (opIndexK idx)) (\<lambda>k. ret (Some k)))
     else reg_get (LocalBase cf + idx))"

definition rkString :: "int \<Rightarrow> string vmM" where
  "rkString idx = with_frame (\<lambda>c cf.
     if opIsK idx
     then bnd (frame_proto cf) (\<lambda>p. at_index (stringConstants (proto_info p)) (opIndexK idx))
     else bnd (reg_get (LocalBase cf + idx)) (\<lambda>v.
       case v of Some (LString t) \<Rightarrow> ret t
       | _ \<Rightarrow> RaiseError (''bytecode: expected string key in register '' @ itoa idx)))"

definition add_pc :: "nat \<Rightarrow> int \<Rightarrow> unit vmM" where
  "add_pc c n = set_frame c (\<lambda>cf. cf\<lparr>Pc := Pc cf + n\<rparr>)"

definition code_at :: "nat \<Rightarrow> int \<Rightarrow> u32 vmM" where
  "code_at c pc = bnd (frame_at c) (\<lambda>cf. bnd (frame_proto cf) (\<lambda>p. at_index (Code (proto_info p)) pc))"

text \<open>A fatal panic by a failed type assertion.\<close>

definition type_assertion :: "'a vmM" where
  "type_assertion = vpanic (PMessage ''interface conversion'')"

section \<open>Moves and constants\<close>

definition vm_MOVE :: "u32 \<Rightarrow> unit vmM" where
  "vm_MOVE inst = with_frame (\<lambda>c cf.
     bnd (reg_get (LocalBase cf + opGetArgB inst)) (set_reg (LocalBase cf + opGetArgA inst)))"

fun moven_loop :: "nat \<Rightarrow> int \<Rightarrow> nat \<Rightarrow> int \<Rightarrow> int vmM" where
  "moven_loop c lbase 0 pc = ret pc"
| "moven_loop c lbase (Suc n) pc =
     bnd (code_at c pc) (\<lambda>inst.
     bnd (reg_get (lbase + opGetArgB inst)) (\<lambda>v.
     and_then (set_reg (lbase + opGetArgA inst) v) (moven_loop c lbase n (pc + 1))))"

definition vm_MOVEN :: "u32 \<Rightarrow> unit vmM" where
  "vm_MOVEN inst = with_frame (\<lambda>c cf.
     bnd (reg_get (LocalBase cf + opGetArgB inst)) (\<lambda>v.
     and_then (set_reg (LocalBase cf + opGetArgA inst) v)
     (bnd (moven_loop c (LocalBase cf) (nat (opGetArgC inst)) (Pc cf)) (\<lambda>pc.
       set_frame c (\<lambda>cf. cf\<lparr>Pc := pc\<rparr>)))))"

definition vm_LOADK :: "u32 \<Rightarrow> unit vmM" where
  "vm_LOADK inst = with_frame (\<lambda>c cf.
     bnd (frame_proto cf) (\<lambda>p.
     bnd (at_index (Constants (proto_info p)) (opGetArgBx inst)) (\<lambda>v.
       set_reg (LocalBase cf + opGetArgA inst) (Some v))))"

definition vm_LOADBOOL :: "u32 \<Rightarrow> unit vmM" where
  "vm_LOADBOOL inst = with_frame (\<lambda>c cf.
     and_then (set_reg (LocalBase cf + opGetArgA inst) (Some (LBool (opGetArgB inst \<noteq> 0))))
       (whenM (opGetArgC inst \<noteq> 0) (add_pc c 1)))"

definition vm_LOADNIL :: "u32 \<Rightarrow> unit vmM" where
  "vm_LOADNIL inst = with_frame (\<lambda>c cf.
     let RA = LocalBase cf + opGetArgA inst; n = LocalBase cf + opGetArgB inst - RA + 1
     in and_then (whenM (n > 1) (chargeGas (word_of_int n)))
          (forM [RA..LocalBase cf + opGetArgB inst] (\<lambda>i. set_reg i (Some LNil))))"

section \<open>Upvalues, globals and tables\<close>

definition frame_upvalue :: "callFrame \<Rightarrow> int \<Rightarrow> nat vmM" where
  "frame_upvalue cf i = bnd (frame_function cf) (\<lambda>fn. bnd (at_index (Upvalues fn) i) deref)"

definition vm_GETUPVAL :: "u32 \<Rightarrow> unit vmM" where
  "vm_GETUPVAL inst = with_frame (\<lambda>c cf.
     bnd (frame_upvalue cf (opGetArgB inst)) (\<lambda>u.
     bnd (uv_Value u) (set_reg (LocalBase cf + opGetArgA inst))))"

definition vm_SETUPVAL :: "u32 \<Rightarrow> unit vmM" where
  "vm_SETUPVAL inst = with_frame (\<lambda>c cf.
     bnd (reg_get (LocalBase cf + opGetArgA inst)) (\<lambda>v.
     bnd (frame_upvalue cf (opGetArgB inst)) (\<lambda>u. uv_SetValue u v)))"

definition frame_env :: "callFrame \<Rightarrow> slot vmM" where
  "frame_env cf = bnd (frame_function cf) (\<lambda>fn. bnd (deref (Env fn)) (\<lambda>t. ret (Some (LTable t))))"

definition vm_GETGLOBAL :: "callback \<Rightarrow> u32 \<Rightarrow> unit vmM" where
  "vm_GETGLOBAL call inst = with_frame (\<lambda>c cf.
     bnd (frame_proto cf) (\<lambda>p.
     bnd (at_index (stringConstants (proto_info p)) (opGetArgBx inst)) (\<lambda>key.
     bnd (frame_env cf) (\<lambda>env.
     bnd (getFieldString call env key) (set_reg (LocalBase cf + opGetArgA inst))))))"

definition vm_SETGLOBAL :: "callback \<Rightarrow> u32 \<Rightarrow> unit vmM" where
  "vm_SETGLOBAL call inst = with_frame (\<lambda>c cf.
     bnd (frame_proto cf) (\<lambda>p.
     bnd (at_index (stringConstants (proto_info p)) (opGetArgBx inst)) (\<lambda>key.
     bnd (reg_get (LocalBase cf + opGetArgA inst)) (\<lambda>v.
     bnd (frame_env cf) (\<lambda>env. setFieldString call env key v)))))"

definition vm_GETTABLE :: "callback \<Rightarrow> u32 \<Rightarrow> unit vmM" where
  "vm_GETTABLE call inst = with_frame (\<lambda>c cf.
     bnd (reg_get (LocalBase cf + opGetArgB inst)) (\<lambda>obj.
     bnd (rkValue (opGetArgC inst)) (\<lambda>key.
     bnd (getField call obj key) (set_reg (LocalBase cf + opGetArgA inst)))))"

definition vm_GETTABLEKS :: "callback \<Rightarrow> u32 \<Rightarrow> unit vmM" where
  "vm_GETTABLEKS call inst = with_frame (\<lambda>c cf.
     bnd (reg_get (LocalBase cf + opGetArgB inst)) (\<lambda>obj.
     bnd (rkString (opGetArgC inst)) (\<lambda>key.
     bnd (getFieldString call obj key) (set_reg (LocalBase cf + opGetArgA inst)))))"

definition vm_SETTABLE :: "callback \<Rightarrow> u32 \<Rightarrow> unit vmM" where
  "vm_SETTABLE call inst = with_frame (\<lambda>c cf.
     bnd (reg_get (LocalBase cf + opGetArgA inst)) (\<lambda>obj.
     bnd (rkValue (opGetArgB inst)) (\<lambda>key.
     bnd (rkValue (opGetArgC inst)) (\<lambda>v. setField call obj key v))))"

definition vm_SETTABLEKS :: "callback \<Rightarrow> u32 \<Rightarrow> unit vmM" where
  "vm_SETTABLEKS call inst = with_frame (\<lambda>c cf.
     bnd (reg_get (LocalBase cf + opGetArgA inst)) (\<lambda>obj.
     bnd (rkString (opGetArgB inst)) (\<lambda>key.
     bnd (rkValue (opGetArgC inst)) (\<lambda>v. setFieldString call obj key v))))"

definition vm_NEWTABLE :: "u32 \<Rightarrow> unit vmM" where
  "vm_NEWTABLE inst = with_frame (\<lambda>c cf.
     bnd (new_table (newLTable (opGetArgB inst) (opGetArgC inst))) (\<lambda>t.
       set_reg (LocalBase cf + opGetArgA inst) (Some (LTable t))))"

definition vm_SELF :: "callback \<Rightarrow> u32 \<Rightarrow> unit vmM" where
  "vm_SELF call inst = with_frame (\<lambda>c cf.
     bnd (reg_get (LocalBase cf + opGetArgB inst)) (\<lambda>selfobj.
     bnd (rkString (opGetArgC inst)) (\<lambda>key.
     bnd (getFieldString call selfobj key) (\<lambda>v.
     and_then (set_reg (LocalBase cf + opGetArgA inst) v)
       (set_reg (LocalBase cf + opGetArgA inst + 1) selfobj)))))"

section \<open>Arithmetic\<close>

definition numberArith :: "opcode \<Rightarrow> LUint256 \<Rightarrow> LUint256 \<Rightarrow> LUint256 vmM" where
  "numberArith opcode lhs rhs =
     (case opcode of
        OP_ADD \<Rightarrow> ret (lu256Add lhs rhs)
      | OP_SUB \<Rightarrow> ret (lu256Sub lhs rhs)
      | OP_MUL \<Rightarrow> ret (lu256Mul lhs rhs)
      | OP_DIV \<Rightarrow> and_then (whenM (lu256IsZero rhs) (RaiseError (''attempt to perform '' @ [CHR 39] @ ''n/0'' @ [CHR 39])))
                    (or_panic (lu256Div lhs rhs))
      | OP_IDIV \<Rightarrow> and_then (whenM (lu256IsZero rhs) (RaiseError (''attempt to perform '' @ [CHR 39] @ ''n//0'' @ [CHR 39])))
                    (or_panic (lu256FloorDiv lhs rhs))
      | OP_MOD \<Rightarrow> and_then (whenM (lu256IsZero rhs) (RaiseError (''attempt to perform '' @ [CHR 39] @ ''n%%0'' @ [CHR 39])))
                    (or_panic (lu256Mod lhs rhs))
      | OP_POW \<Rightarrow> ret (lu256Pow lhs rhs)
      | OP_BAND \<Rightarrow> ret (lu256Band lhs rhs)
      | OP_BOR \<Rightarrow> ret (lu256Bor lhs rhs)
      | OP_BXOR \<Rightarrow> ret (lu256Bxor lhs rhs)
      | OP_SHL \<Rightarrow> ret (lu256Shl lhs (lu256ShiftAmount rhs))
      | OP_SHR \<Rightarrow> ret (lu256Shr lhs (lu256ShiftAmount rhs))
      | _ \<Rightarrow> vpanic (PMessage ''should not reach here''))"

definition arith_event :: "opcode \<Rightarrow> string" where
  "arith_event = switch_on ''''
     [(OP_ADD, ''add''), (OP_SUB, ''sub''), (OP_MUL, ''mul''), (OP_DIV, ''div''), (OP_MOD, ''mod''),
      (OP_POW, ''pow''), (OP_BAND, ''band''), (OP_BOR, ''bor''), (OP_BXOR, ''bxor''), (OP_SHL, ''shl''),
      (OP_SHR, ''shr''), (OP_IDIV, ''idiv'')]"

text \<open>A string that reads as a number counts as one.\<close>

definition coerce_number :: "slot \<Rightarrow> slot" where
  "coerce_number v =
     (case v of
        Some (LString t) \<Rightarrow> (case parseNumber t of Inr n \<Rightarrow> Some (LNum n) | Inl _ \<Rightarrow> v)
      | _ \<Rightarrow> v)"

definition arith_error :: "opcode \<Rightarrow> slot \<Rightarrow> slot \<Rightarrow> 'a vmM" where
  "arith_error opcode lhs rhs = bnd (type_of lhs) (\<lambda>t1. bnd (type_of rhs) (\<lambda>t2.
     RaiseError (''cannot perform '' @ arith_event opcode @ '' operation between '' @
       LValueType_String t1 @ '' and '' @ LValueType_String t2)))"

definition objectArith :: "callback \<Rightarrow> opcode \<Rightarrow> slot \<Rightarrow> slot \<Rightarrow> slot vmM" where
  "objectArith call opcode lhs rhs =
     bnd (metaOp2 lhs rhs (''__'' @ arith_event opcode)) (\<lambda>op.
       if is_function op then call_meta call [Some op, lhs, rhs]
       else
         let lhs = coerce_number lhs; rhs = coerce_number rhs
         in case (lhs, rhs) of
              (Some (LNum a), Some (LNum b)) \<Rightarrow> bnd (numberArith opcode a b) (\<lambda>n. ret (Some (LNum n)))
            | _ \<Rightarrow> arith_error opcode lhs rhs)"

definition opArith :: "callback \<Rightarrow> opcode \<Rightarrow> u32 \<Rightarrow> unit vmM" where
  "opArith call opcode inst = with_frame (\<lambda>c cf.
     bnd (rkValue (opGetArgB inst)) (\<lambda>lhs.
     bnd (rkValue (opGetArgC inst)) (\<lambda>rhs.
       bnd (case (lhs, rhs) of
              (Some (LNum a), Some (LNum b)) \<Rightarrow> bnd (numberArith opcode a b) (\<lambda>n. ret (Some (LNum n)))
            | _ \<Rightarrow> objectArith call opcode lhs rhs)
         (set_reg (LocalBase cf + opGetArgA inst)))))"

definition vm_UNM :: "callback \<Rightarrow> u32 \<Rightarrow> unit vmM" where
  "vm_UNM call inst = with_frame (\<lambda>c cf.
     bnd (rkValue (opGetArgB inst)) (\<lambda>v.
       case v of
         Some (LNum n) \<Rightarrow> set_reg (LocalBase cf + opGetArgA inst) (Some (LNum (lu256Sub LUint256Zero n)))
       | _ \<Rightarrow> bnd (metaOp1 v ''__unm'') (\<lambda>op.
           if is_function op
           then bnd (call_meta call [Some op, v, v]) (set_reg (LocalBase cf + opGetArgA inst))
           else (case v of
                   Some (LString t) \<Rightarrow>
                     (case parseNumber t of
                        Inr _ \<Rightarrow> RaiseError ''__unm undefined for uint256 numbers''
                      | Inl _ \<Rightarrow> RaiseError ''__unm undefined'')
                 | _ \<Rightarrow> RaiseError ''__unm undefined''))))"

definition vm_BNOT :: "callback \<Rightarrow> u32 \<Rightarrow> unit vmM" where
  "vm_BNOT call inst = with_frame (\<lambda>c cf.
     bnd (rkValue (opGetArgB inst)) (\<lambda>v.
       case coerce_number v of
         Some (LNum n) \<Rightarrow> set_reg (LocalBase cf + opGetArgA inst) (Some (LNum (lu256Bnot n)))
       | _ \<Rightarrow> bnd (metaOp1 v ''__bnot'') (\<lambda>op.
           if is_function op
           then bnd (call_meta call [Some op, v, v]) (set_reg (LocalBase cf + opGetArgA inst))
           else RaiseError ''__bnot undefined'')))"

definition vm_NOT :: "u32 \<Rightarrow> unit vmM" where
  "vm_NOT inst = with_frame (\<lambda>c cf.
     bnd (reg_get (LocalBase cf + opGetArgB inst)) (\<lambda>v.
       set_reg (LocalBase cf + opGetArgA inst) (Some (LBool (slot_IsFalse v)))))"

definition vm_LEN :: "callback \<Rightarrow> u32 \<Rightarrow> unit vmM" where
  "vm_LEN call inst = with_frame (\<lambda>c cf.
     let RA = LocalBase cf + opGetArgA inst
     in bnd (rkValue (opGetArgB inst)) (\<lambda>lv.
       case lv of
         Some (LString t) \<Rightarrow> set_reg RA (Some (LNum (lu256FromInt (int (length t)))))
       | _ \<Rightarrow> bnd (metaOp1 lv ''__len'') (\<lambda>op.
           if is_function op
           then bnd (call_meta call [Some op, lv, lv]) (\<lambda>r.
                bnd (type_of r) (\<lambda>_. set_reg RA r))
           else (case lv of
                   Some (LTable t) \<Rightarrow> bnd (the_table t) (\<lambda>tb.
                     let (n, cost) = LenWithCost tb
                     in and_then (chargeLinearWorkGas (int cost))
                          (set_reg RA (Some (LNum (lu256FromInt (int n))))))
                 | _ \<Rightarrow> RaiseError ''__len undefined''))))"

section \<open>Concatenation\<close>

definition slot_CanConvToString :: "slot \<Rightarrow> bool" where
  "slot_CanConvToString v \<longleftrightarrow> (case v of Some x \<Rightarrow> LVCanConvToString x | None \<Rightarrow> False)"

definition slot_AsString :: "slot \<Rightarrow> string vmM" where
  "slot_AsString v = (if slot_CanConvToString v then string_of v else ret '''')"

definition addStringResultBytes :: "string \<Rightarrow> int \<Rightarrow> int \<Rightarrow> int vmM" where
  "addStringResultBytes op sum_bytes delta =
     (if delta < 0 then RaiseError (op @ '': invalid negative size delta '' @ itoa delta)
      else let next = sum_bytes + delta
           in if next > maxStringResultBytes
              then RaiseError (op @ '': output too large ('' @ itoa next @ '' bytes, limit '' @ itoa maxStringResultBytes @ '')'')
              else ret next)"

text \<open>Joins leftwards from register \<open>i\<close> while the operands convert to strings.\<close>

fun concat_join :: "nat \<Rightarrow> int \<Rightarrow> int \<Rightarrow> string \<Rightarrow> (nat \<times> int \<times> string) vmM" where
  "concat_join 0 i outLen buf = ret (0, i, buf)"
| "concat_join (Suc left_n) i outLen buf =
     and_then (chargeGas 1)
       (bnd (reg_get i) (\<lambda>lhs.
          if \<not> slot_CanConvToString lhs then ret (Suc left_n, i, buf)
          else bnd (slot_AsString lhs) (\<lambda>leftStr.
               bnd (addStringResultBytes ''concat'' outLen (int (length leftStr))) (\<lambda>outLen.
                 concat_join left_n (i - 1) outLen (leftStr @ buf)))))"

definition concat_error :: "slot \<Rightarrow> slot \<Rightarrow> 'a vmM" where
  "concat_error lhs rhs = bnd (type_of lhs) (\<lambda>t1. bnd (type_of rhs) (\<lambda>t2.
     RaiseError (''cannot perform concat operation between '' @ LValueType_String t1 @ '' and '' @ LValueType_String t2)))"

text \<open>Each round joins at least one operand, so as many rounds as operands are enough.\<close>

fun concat_loop :: "callback \<Rightarrow> nat \<Rightarrow> nat \<Rightarrow> int \<Rightarrow> slot \<Rightarrow> slot vmM" where
  "concat_loop call 0 left_n i rhs = ret rhs"
| "concat_loop call (Suc rounds) left_n i rhs =
     (if left_n = 0 then ret rhs
      else bnd (reg_get i) (\<lambda>lhs.
        if \<not> (slot_CanConvToString lhs \<and> slot_CanConvToString rhs)
        then bnd (metaOp2 lhs rhs ''__concat'') (\<lambda>op.
               if is_function op
               then bnd (call_meta call [Some op, lhs, rhs]) (concat_loop call rounds (left_n - 1) (i - 1))
               else concat_error lhs rhs)
        else bnd (slot_AsString rhs) (\<lambda>rightStr.
             bnd (concat_join left_n i (int (length rightStr)) rightStr) (\<lambda>(left_n, i, str).
               concat_loop call rounds left_n i (Some (LString str))))))"

definition stringConcat :: "callback \<Rightarrow> int \<Rightarrow> int \<Rightarrow> slot vmM" where
  "stringConcat call left_n last_reg = bnd (reg_get last_reg) (\<lambda>rhs.
     concat_loop call (nat (left_n - 1)) (nat (left_n - 1)) (last_reg - 1) rhs)"

definition vm_CONCAT :: "callback \<Rightarrow> u32 \<Rightarrow> unit vmM" where
  "vm_CONCAT call inst = with_frame (\<lambda>c cf.
     let RC = LocalBase cf + opGetArgC inst; RB = LocalBase cf + opGetArgB inst
     in bnd (stringConcat call (RC - RB + 1) RC) (set_reg (LocalBase cf + opGetArgA inst)))"

section \<open>Comparisons and jumps\<close>

definition strCmp :: "string \<Rightarrow> string \<Rightarrow> int" where
  "strCmp s1 s2 =
     (let (c1, c2) = (let k = length (takeWhile (\<lambda>(a, b). a = b) (zip s1 s2))
                      in (if k < length s1 then int (of_char (s1 ! k)) else -1,
                          if k < length s2 then int (of_char (s2 ! k)) else -1))
      in if c1 < c2 then -1 else if c1 > c2 then 1 else 0)"

definition compare_error :: "slot \<Rightarrow> slot \<Rightarrow> 'a vmM" where
  "compare_error lhs rhs = bnd (type_of lhs) (\<lambda>t1. bnd (type_of rhs) (\<lambda>t2.
     RaiseError (''attempt to compare '' @ LValueType_String t1 @ '' with '' @ LValueType_String t2)))"

text \<open>1 and 0 are the answer of a metamethod, -1 is that there is none.\<close>

definition objectRational :: "callback \<Rightarrow> slot \<Rightarrow> slot \<Rightarrow> string \<Rightarrow> int vmM" where
  "objectRational call lhs rhs event =
     bnd (metaOp1 lhs event) (\<lambda>m1. bnd (metaOp1 rhs event) (\<lambda>m2.
       let m = (if event = ''__eq''
                then if is_function m1 then Some m1 else if is_function m2 then Some m2 else None
                else if is_function m1 \<and> m1 = m2 then Some m1 else None)
       in case m of
            None \<Rightarrow> ret (-1)
          | Some f \<Rightarrow> bnd (call_meta call [Some f, lhs, rhs]) (\<lambda>r. ret (if slot_AsBool r then 1 else 0))))"

definition objectRationalWithError :: "callback \<Rightarrow> slot \<Rightarrow> slot \<Rightarrow> string \<Rightarrow> bool vmM" where
  "objectRationalWithError call lhs rhs event =
     bnd (objectRational call lhs rhs event) (\<lambda>r.
       if r = 1 then ret True else if r = 0 then ret False else compare_error lhs rhs)"

definition equals :: "callback \<Rightarrow> slot \<Rightarrow> slot \<Rightarrow> bool \<Rightarrow> bool vmM" where
  "equals call lhs rhs raw =
     bnd (deref lhs) (\<lambda>a. bnd (deref rhs) (\<lambda>b.
       if LValue_Type a \<noteq> LValue_Type b then ret False
       else case (a, b) of
              (LNum n, LNum m) \<Rightarrow> ret (lu256Cmp n m = 0)
            | (LUserData _, _) \<Rightarrow>
                if a = b then ret True
                else if \<not> raw then bnd (objectRational call lhs rhs ''__eq'') (\<lambda>r. ret (r = 1)) else ret False
            | (LTable _, _) \<Rightarrow>
                if a = b then ret True
                else if \<not> raw then bnd (objectRational call lhs rhs ''__eq'') (\<lambda>r. ret (r = 1)) else ret False
            | _ \<Rightarrow> ret (a = b)))"

text \<open>A metamethod of either operand decides a comparison of different types.\<close>

definition mixed_compare :: "callback \<Rightarrow> string \<Rightarrow> slot \<Rightarrow> slot \<Rightarrow> bool vmM" where
  "mixed_compare call event lhs rhs =
     bnd (bnd (metaOp1 lhs event) (\<lambda>m. if is_function m then ret m else metaOp1 rhs event)) (\<lambda>m.
       if is_function m then bnd (call_meta call [Some m, lhs, rhs]) (\<lambda>r. ret (slot_AsBool r))
       else compare_error lhs rhs)"

definition lessThan :: "callback \<Rightarrow> slot \<Rightarrow> slot \<Rightarrow> bool vmM" where
  "lessThan call lhs rhs =
     (case lhs of
        Some (LNum a) \<Rightarrow>
          (case rhs of Some (LNum b) \<Rightarrow> ret (lu256Cmp a b < 0) | _ \<Rightarrow> mixed_compare call ''__lt'' lhs rhs)
      | _ \<Rightarrow>
          bnd (type_of lhs) (\<lambda>t1. bnd (type_of rhs) (\<lambda>t2.
            if t1 \<noteq> t2 then mixed_compare call ''__lt'' lhs rhs
            else case (lhs, rhs) of
                   (Some (LString a), Some (LString b)) \<Rightarrow> ret (strCmp a b < 0)
                 | _ \<Rightarrow> objectRationalWithError call lhs rhs ''__lt'')))"

definition lessEqual :: "callback \<Rightarrow> slot \<Rightarrow> slot \<Rightarrow> bool vmM" where
  "lessEqual call lhs rhs =
     (case lhs of
        Some (LNum a) \<Rightarrow>
          (case rhs of Some (LNum b) \<Rightarrow> ret (lu256Cmp a b \<le> 0) | _ \<Rightarrow> mixed_compare call ''__le'' lhs rhs)
      | _ \<Rightarrow>
          bnd (type_of lhs) (\<lambda>t1. bnd (type_of rhs) (\<lambda>t2.
            if t1 \<noteq> t2 then mixed_compare call ''__le'' lhs rhs
            else case (lhs, rhs) of
                   (Some (LString a), Some (LString b)) \<Rightarrow> ret (strCmp a b \<le> 0)
                 | _ \<Rightarrow> bnd (objectRational call lhs rhs ''__le'') (\<lambda>r.
                     if r = 1 then ret True else if r = 0 then ret False
                     else bnd (objectRationalWithError call rhs lhs ''__lt'') (\<lambda>b. ret (\<not> b))))))"

text \<open>Skips the next instruction, a jump, unless the comparison came out as \<open>A\<close> asks.\<close>

definition skip_unless :: "nat \<Rightarrow> u32 \<Rightarrow> bool \<Rightarrow> unit vmM" where
  "skip_unless c inst r = whenM ((if r then 0 else 1) = opGetArgA inst) (add_pc c 1)"

definition compare_op :: "(slot \<Rightarrow> slot \<Rightarrow> bool vmM) \<Rightarrow> u32 \<Rightarrow> unit vmM" where
  "compare_op f inst = bnd the_currentFrame (\<lambda>c.
     bnd (rkValue (opGetArgB inst)) (\<lambda>lhs. bnd (rkValue (opGetArgC inst)) (\<lambda>rhs.
     bnd (f lhs rhs) (skip_unless c inst))))"

definition vm_EQ :: "callback \<Rightarrow> u32 \<Rightarrow> unit vmM" where
  "vm_EQ call inst = compare_op (\<lambda>l r. equals call l r False) inst"

definition vm_LT :: "callback \<Rightarrow> u32 \<Rightarrow> unit vmM" where
  "vm_LT call inst = compare_op (lessThan call) inst"

definition vm_LE :: "callback \<Rightarrow> u32 \<Rightarrow> unit vmM" where
  "vm_LE call inst = compare_op (lessEqual call) inst"

definition vm_JMP :: "u32 \<Rightarrow> unit vmM" where
  "vm_JMP inst = bnd the_currentFrame (\<lambda>c. add_pc c (opGetArgSbx inst))"

definition vm_TEST :: "u32 \<Rightarrow> unit vmM" where
  "vm_TEST inst = with_frame (\<lambda>c cf.
     bnd (reg_get (LocalBase cf + opGetArgA inst)) (\<lambda>v.
       whenM (slot_AsBool v = (opGetArgC inst = 0)) (add_pc c 1)))"

definition vm_TESTSET :: "u32 \<Rightarrow> unit vmM" where
  "vm_TESTSET inst = with_frame (\<lambda>c cf.
     bnd (reg_get (LocalBase cf + opGetArgB inst)) (\<lambda>v.
       if slot_AsBool v \<noteq> (opGetArgC inst = 0) then set_reg (LocalBase cf + opGetArgA inst) v
       else add_pc c 1))"

section \<open>Loops\<close>

text \<open>The direction of a numeric loop is the sign of its step.\<close>

definition vm_FORLOOP :: "u32 \<Rightarrow> unit vmM" where
  "vm_FORLOOP inst = with_frame (\<lambda>c cf.
     let RA = LocalBase cf + opGetArgA inst
     in bnd (reg_get RA) (\<lambda>init.
       case init of
         Some (LNum i) \<Rightarrow> bnd (reg_get (RA + 1)) (\<lambda>limit.
           case limit of
             Some (LNum l) \<Rightarrow> bnd (reg_get (RA + 2)) (\<lambda>step.
               case step of
                 Some (LNum st) \<Rightarrow>
                   let v = lu256Add i st
                   in and_then (set_reg RA (Some (LNum v)))
                     (if \<not> lu256IsNeg st \<and> lu256Cmp v l \<le> 0 \<or> lu256IsNeg st \<and> lu256SCmp v l \<ge> 0
                      then and_then (add_pc c (opGetArgSbx inst)) (set_reg (RA + 3) (Some (LNum v)))
                      else set_top (RA + 1))
               | _ \<Rightarrow> RaiseError ''for statement step must be a number'')
           | _ \<Rightarrow> RaiseError ''for statement limit must be a number'')
       | _ \<Rightarrow> RaiseError ''for statement init must be a number''))"

definition vm_FORPREP :: "u32 \<Rightarrow> unit vmM" where
  "vm_FORPREP inst = with_frame (\<lambda>c cf.
     let RA = LocalBase cf + opGetArgA inst
     in bnd (reg_get RA) (\<lambda>init.
       case init of
         Some (LNum i) \<Rightarrow> bnd (reg_get (RA + 2)) (\<lambda>step.
           case step of
             Some (LNum st) \<Rightarrow> and_then (set_reg RA (Some (LNum (lu256Sub i st)))) (add_pc c (opGetArgSbx inst))
           | _ \<Rightarrow> RaiseError ''for statement step must be a number'')
       | _ \<Rightarrow> RaiseError ''for statement init must be a number''))"

definition vm_TFORLOOP :: "callback \<Rightarrow> u32 \<Rightarrow> unit vmM" where
  "vm_TFORLOOP call inst = with_frame (\<lambda>c cf.
     let RA = LocalBase cf + opGetArgA inst
     in and_then (set_top (RA + 3 + 2))
       (and_then (bnd (reg_get (RA + 2)) (set_reg (RA + 3 + 2)))
       (and_then (bnd (reg_get (RA + 1)) (set_reg (RA + 3 + 1)))
       (and_then (bnd (reg_get RA) (set_reg (RA + 3)))
       (and_then (call 2 (opGetArgC inst) (RA + 3))
       (bnd (reg_get (RA + 3)) (\<lambda>v.
        and_then (whenM (v \<noteq> Some LNil)
          (and_then (set_reg (RA + 2) v)
          (bnd (frame_at c) (\<lambda>cf. bnd (code_at c (Pc cf)) (\<lambda>w. add_pc c (opGetArgSbx w))))))
        (add_pc c 1))))))))"

section \<open>Constructors and closures\<close>

definition vm_SETLIST :: "u32 \<Rightarrow> unit vmM" where
  "vm_SETLIST inst = with_frame (\<lambda>c cf.
     let RA = LocalBase cf + opGetArgA inst; B = opGetArgB inst
     in bnd (if opGetArgC inst = 0
             then bnd (code_at c (Pc cf)) (\<lambda>w. and_then (add_pc c 1) (ret (uint w)))
             else ret (opGetArgC inst)) (\<lambda>C.
        let offset = (C - 1) * FieldsPerFlush
        in bnd (reg_get RA) (\<lambda>tv.
          case tv of
            Some (LTable t) \<Rightarrow>
              bnd top_reg (\<lambda>top.
                forM [1..(if B = 0 then top - RA - 1 else B)] (\<lambda>i.
                  and_then (chargeGas 1) (bnd (reg_get (RA + i)) (raw_set_int t (offset + i)))))
          | _ \<Rightarrow> type_assertion)))"

text \<open>The local variables to close, those in later registers first. For up to twelve
  candidates Go's sort is an insertion sort, which is stable as this one.\<close>

definition close_candidates :: "vm \<Rightarrow> callFrame \<Rightarrow> DbgLocalInfo list \<Rightarrow> int \<Rightarrow> DbgLocalInfo list" where
  "close_candidates s cf locals minReg =
     sort_key (\<lambda>li. - li_Reg li)
       (filter (\<lambda>li. li_Attr li = dbgLocalAttrClose \<and> li_Reg li \<ge> minReg
           \<and> LocalBase cf + li_Reg li \<ge> 0 \<and> LocalBase cf + li_Reg li < rtop (reg s)
           \<and> li_StartPc li \<le> Pc cf - 1 \<and> Pc cf - 1 \<le> li_EndPc li) locals)"

definition close_variable :: "callback \<Rightarrow> nat \<Rightarrow> DbgLocalInfo \<Rightarrow> unit vmM" where
  "close_variable call c li = bnd (frame_at c) (\<lambda>cf.
     let idx = LocalBase cf + li_Reg li
     in bnd (reg_get idx) (\<lambda>v.
       if slot_IsFalse v then ret ()
       else bnd (metaOp1 v ''__close'') (\<lambda>op.
         if is_function op
         then and_then (call_function call [Some op, v, Some LNil] 0) (set_reg idx (Some LNil))
         else RaiseError (''variable '' @ [CHR 39] @ li_Name li @ [CHR 39] @ '' has no __close metamethod''))))"

definition closeToBeClosedVars :: "callback \<Rightarrow> nat \<Rightarrow> int \<Rightarrow> unit vmM" where
  "closeToBeClosedVars call c minReg = bnd (frame_at c) (\<lambda>cf. bnd (frame_function cf) (\<lambda>fn.
     case Proto fn of
       None \<Rightarrow> ret ()
     | Some p \<Rightarrow>
         bnd (deref (those (DbgLocals (proto_info p)))) (\<lambda>locals.
         bnd (rd (\<lambda>s. close_candidates s cf locals minReg)) (\<lambda>candidates.
           forM candidates (close_variable call c)))))"

definition vm_CLOSE :: "callback \<Rightarrow> u32 \<Rightarrow> unit vmM" where
  "vm_CLOSE call inst = with_frame (\<lambda>c cf.
     and_then (closeToBeClosedVars call c (opGetArgA inst)) (closeUpvalues (LocalBase cf + opGetArgA inst)))"

definition new_function :: "lfunction \<Rightarrow> nat vmM" where
  "new_function fn = bnd (rd (\<lambda>s. length (vfuncs s))) (\<lambda>i.
     and_then (upd (\<lambda>s. s\<lparr>vfuncs := vfuncs s @ [fn]\<rparr>)) (ret i))"

definition newLFunctionL :: "FunctionProto \<Rightarrow> nat option \<Rightarrow> int \<Rightarrow> lfunction" where
  "newLFunctionL proto env nupvalue =
     \<lparr>IsG = False, Env = env, Proto = Some proto, GFunction = 0, Upvalues = replicate (nat nupvalue) None\<rparr>"

definition newLFunctionG :: "nat \<Rightarrow> nat option \<Rightarrow> int \<Rightarrow> lfunction" where
  "newLFunctionG gfunc env nupvalue =
     \<lparr>IsG = True, Env = env, Proto = None, GFunction = gfunc, Upvalues = replicate (nat nupvalue) None\<rparr>"

definition set_closure_upvalue :: "nat \<Rightarrow> nat \<Rightarrow> nat option \<Rightarrow> unit vmM" where
  "set_closure_upvalue f i u = bnd (the_function f) (\<lambda>fn.
     if i < length (Upvalues fn)
     then upd (\<lambda>s. s\<lparr>vfuncs := (vfuncs s)[f := fn\<lparr>Upvalues := (Upvalues fn)[i := u]\<rparr>]\<rparr>)
     else vpanic PIndexOutOfRange)"

text \<open>Each upvalue is named by a word of its own behind the instruction.\<close>

definition bind_upvalue :: "nat \<Rightarrow> int \<Rightarrow> nat \<Rightarrow> nat \<Rightarrow> unit vmM" where
  "bind_upvalue c lbase f i = bnd (frame_at c) (\<lambda>cf.
     bnd (code_at c (Pc cf)) (\<lambda>w.
     and_then (add_pc c 1)
       (if opGetOpCode w = op_code OP_MOVE
        then bnd (findUpvalue (lbase + opGetArgB w)) (\<lambda>u. set_closure_upvalue f i (Some u))
        else if opGetOpCode w = op_code OP_GETUPVAL
        then bnd (frame_function cf) (\<lambda>fn. bnd (at_index (Upvalues fn) (opGetArgB w)) (set_closure_upvalue f i))
        else ret ())))"

definition vm_CLOSURE :: "u32 \<Rightarrow> unit vmM" where
  "vm_CLOSURE inst = with_frame (\<lambda>c cf.
     bnd (frame_proto cf) (\<lambda>p.
     bnd (at_index (FunctionPrototypes p) (opGetArgBx inst)) (\<lambda>kid.
     bnd (deref kid) (\<lambda>proto.
     bnd (frame_function cf) (\<lambda>fn.
     bnd (new_function (newLFunctionL proto (Env fn) (uint (NumUpvalues (proto_info proto))))) (\<lambda>f.
     and_then (set_reg (LocalBase cf + opGetArgA inst) (Some (LFunction f)))
       (forM [0..<unat (NumUpvalues (proto_info proto))] (bind_upvalue c (LocalBase cf) f))))))))"

definition vm_VARARG :: "u32 \<Rightarrow> unit vmM" where
  "vm_VARARG inst = with_frame (\<lambda>c cf.
     bnd (frame_proto cf) (\<lambda>p.
       let nparams = uint (NumParameters (proto_info p));
           nvarargs = (if NArgs cf - nparams < 0 then 0 else NArgs cf - nparams);
           nwant = (if opGetArgB inst = 0 then nvarargs else opGetArgB inst - 1);
           RA = LocalBase cf + opGetArgA inst
       in and_then (reg_do (checkSize (RA + nwant)))
         (and_then (chargeGas (word_of_int nwant))
           (reg_do (reg_CopyRange RA (Base cf + nparams + 1) (LocalBase cf) nwant)))))"

section \<open>Calls and returns\<close>

definition copyReturnValues :: "int \<Rightarrow> int \<Rightarrow> int \<Rightarrow> int \<Rightarrow> unit vmM" where
  "copyReturnValues regv start n b =
     (if b = 1 then reg_do (reg_FillNil regv n)
      else and_then (reg_do (reg_CopyRange regv start (-1) n))
             (whenM (b > 1 \<and> n > b - 1) (reg_do (reg_FillNil (regv + b - 1) (n - (b - 1))))))"

text \<open>Runs the host function of the current frame. The frame is left behind in the array
  when a tail call moves it down, so its fields are read from its old slot.\<close>

definition return_from_G :: "nat \<Rightarrow> int \<Rightarrow> unit vmM" where
  "return_from_G c gfnret =
     and_then (whenM (gfnret < 0) (RaiseError ''coroutine support is disabled''))
     (bnd (frame_at c) (\<lambda>frame.
      let wantret = (if NRet frame = MultRet then gfnret else NRet frame)
      in bnd top_reg (\<lambda>top.
         and_then (reg_do (reg_CopyRange (ReturnBase frame) (top - gfnret) (-1) wantret))
         (bnd pop_frame (\<lambda>_. upd (\<lambda>s. s\<lparr>currentFrame := last_slot s\<rparr>))))))"

definition callGFunction :: "(nat \<Rightarrow> callback \<Rightarrow> int vmM) \<Rightarrow> callback \<Rightarrow> bool \<Rightarrow> unit vmM" where
  "callGFunction G call tailcall = bnd the_currentFrame (\<lambda>c. bnd (frame_at c) (\<lambda>f0. bnd (frame_function f0) (\<lambda>fn.
     bnd (G (GFunction fn) call) (\<lambda>gfnret.
     and_then (whenM tailcall (bnd RemoveCallerFrame (\<lambda>p. upd (\<lambda>s. s\<lparr>currentFrame := Some p\<rparr>))))
       (return_from_G c gfnret)))))"

definition vm_CALL :: "(nat \<Rightarrow> callback \<Rightarrow> int vmM) \<Rightarrow> callback \<Rightarrow> u32 \<Rightarrow> unit vmM" where
  "vm_CALL G call inst = with_frame (\<lambda>c cf.
     bnd top_reg (\<lambda>top.
       let RA = LocalBase cf + opGetArgA inst;
           nargs = (if opGetArgB inst = 0 then top - (RA + 1) else opGetArgB inst - 1)
       in bnd (reg_get RA) (\<lambda>lv. bnd (metaCall lv) (\<lambda>(callable, meta).
          and_then (pushCallFrame (new_frame callable RA RA nargs (opGetArgC inst - 1) (Some c)) lv meta)
          (bnd (deref callable) (\<lambda>f. bnd (the_function f) (\<lambda>fn.
             whenM (IsG fn) (callGFunction G call False))))))))"

text \<open>Whether the main loop returns (\<open>True\<close>): its first frame is gone, or it is back in a host function.\<close>

definition loop_done :: "bool \<Rightarrow> bool vmM" where
  "loop_done islast = bnd (rd currentFrame) (\<lambda>cur.
     if islast \<or> cur = None then ret True
     else bnd (deref cur) (\<lambda>d. bnd (frame_at d) (\<lambda>df. bnd (frame_function df) (\<lambda>dfn. ret (IsG dfn)))))"

text \<open>A tail call of a host function gets a frame that then replaces the caller's; a Lua function
  takes over the frame, and its registers move down to the caller's base.\<close>

definition tailcall_G ::
  "(nat \<Rightarrow> callback \<Rightarrow> int vmM) \<Rightarrow> callback \<Rightarrow> nat option \<Rightarrow> nat \<Rightarrow> callFrame \<Rightarrow> nat \<Rightarrow> slot \<Rightarrow> bool \<Rightarrow> int \<Rightarrow> int \<Rightarrow> bool vmM" where
  "tailcall_G G call baseframe c cf f lv meta RA nargs =
     and_then (pushCallFrame (new_frame (Some f) RA (ReturnBase cf) nargs (NRet cf) (Some c)) lv meta)
     (and_then (callGFunction G call True) (loop_done (Some c = baseframe)))"

definition take_over :: "nat \<Rightarrow> nat \<Rightarrow> slot \<Rightarrow> bool \<Rightarrow> int \<Rightarrow> int \<Rightarrow> int \<Rightarrow> unit vmM" where
  "take_over c f lv meta base RA nargs =
     and_then (whenM meta (reg_do (reg_Insert lv (RA + 1))))
     (and_then (initCallFrame c)
     (bnd top_reg (\<lambda>top.
      and_then (reg_do (reg_CopyRange base RA (-1) (top - RA - 1)))
        (set_frame c (\<lambda>cf. cf\<lparr>Base := base, LocalBase := base + (LocalBase cf - (RA + 1) + 1)\<rparr>)))))"

definition tailcall_Lua :: "nat \<Rightarrow> callFrame \<Rightarrow> nat \<Rightarrow> slot \<Rightarrow> bool \<Rightarrow> int \<Rightarrow> int \<Rightarrow> bool vmM" where
  "tailcall_Lua c cf f lv meta RA nargs =
     and_then (set_frame c (\<lambda>cf. cf\<lparr>Fn := Some f, Pc := 0, Base := RA, LocalBase := RA + 1,
        NArgs := (if meta then nargs + 1 else nargs), TailCall := TailCall cf + 1\<rparr>))
     (and_then (take_over c f lv meta (Base cf) RA nargs) (ret False))"

definition vm_TAILCALL :: "(nat \<Rightarrow> callback \<Rightarrow> int vmM) \<Rightarrow> callback \<Rightarrow> nat option \<Rightarrow> u32 \<Rightarrow> bool vmM" where
  "vm_TAILCALL G call baseframe inst = with_frame (\<lambda>c cf.
     bnd top_reg (\<lambda>top.
       let lbase = LocalBase cf; RA = lbase + opGetArgA inst;
           nargs = (if opGetArgB inst = 0 then top - (RA + 1) else opGetArgB inst - 1)
       in bnd (reg_get RA) (\<lambda>lv. bnd (metaCall lv) (\<lambda>(callable, meta).
          and_then (whenM (callable = None) (RaiseError ''attempt to call a non-function object''))
          (and_then (closeUpvalues lbase)
          (bnd (deref callable) (\<lambda>f. bnd (the_function f) (\<lambda>fn.
             if IsG fn then tailcall_G G call baseframe c cf f lv meta RA nargs
             else tailcall_Lua c cf f lv meta RA nargs))))))))"

definition vm_RETURN :: "nat option \<Rightarrow> u32 \<Rightarrow> bool vmM" where
  "vm_RETURN baseframe inst = with_frame (\<lambda>c cf.
     let RA = LocalBase cf + opGetArgA inst; B = opGetArgB inst
     in and_then (closeUpvalues (LocalBase cf))
       (bnd top_reg (\<lambda>top.
          let nret = (if B = 0 then top - RA else B - 1); n = (if NRet cf = MultRet then nret else NRet cf)
          in bnd pop_frame (\<lambda>popped.
             bnd (rd (\<lambda>s. baseframe = Some popped \<or> fixed_IsEmpty (cstack s))) (\<lambda>islast.
             and_then (copyReturnValues (ReturnBase cf) RA n B)
             (and_then (upd (\<lambda>s. s\<lparr>currentFrame := last_slot s\<rparr>))
             (loop_done islast)))))))"

section \<open>The main loop\<close>

definition go_on :: "unit vmM \<Rightarrow> bool vmM" where
  "go_on m = and_then m (ret False)"

definition exec :: "(nat \<Rightarrow> callback \<Rightarrow> int vmM) \<Rightarrow> callback \<Rightarrow> nat option \<Rightarrow> u32 \<Rightarrow> bool vmM" where
  "exec G call baseframe inst =
     bnd (case op_at (opGetOpCode inst) of None \<Rightarrow> vpanic PIndexOutOfRange | Some p \<Rightarrow> ret p) (\<lambda>p.
       case p of
         OP_MOVE \<Rightarrow> go_on (vm_MOVE inst)
       | OP_MOVEN \<Rightarrow> go_on (vm_MOVEN inst)
       | OP_LOADK \<Rightarrow> go_on (vm_LOADK inst)
       | OP_LOADBOOL \<Rightarrow> go_on (vm_LOADBOOL inst)
       | OP_LOADNIL \<Rightarrow> go_on (vm_LOADNIL inst)
       | OP_GETUPVAL \<Rightarrow> go_on (vm_GETUPVAL inst)
       | OP_GETGLOBAL \<Rightarrow> go_on (vm_GETGLOBAL call inst)
       | OP_GETTABLE \<Rightarrow> go_on (vm_GETTABLE call inst)
       | OP_GETTABLEKS \<Rightarrow> go_on (vm_GETTABLEKS call inst)
       | OP_SETGLOBAL \<Rightarrow> go_on (vm_SETGLOBAL call inst)
       | OP_SETUPVAL \<Rightarrow> go_on (vm_SETUPVAL inst)
       | OP_SETTABLE \<Rightarrow> go_on (vm_SETTABLE call inst)
       | OP_SETTABLEKS \<Rightarrow> go_on (vm_SETTABLEKS call inst)
       | OP_NEWTABLE \<Rightarrow> go_on (vm_NEWTABLE inst)
       | OP_SELF \<Rightarrow> go_on (vm_SELF call inst)
       | OP_UNM \<Rightarrow> go_on (vm_UNM call inst)
       | OP_NOT \<Rightarrow> go_on (vm_NOT inst)
       | OP_LEN \<Rightarrow> go_on (vm_LEN call inst)
       | OP_CONCAT \<Rightarrow> go_on (vm_CONCAT call inst)
       | OP_JMP \<Rightarrow> go_on (vm_JMP inst)
       | OP_EQ \<Rightarrow> go_on (vm_EQ call inst)
       | OP_LT \<Rightarrow> go_on (vm_LT call inst)
       | OP_LE \<Rightarrow> go_on (vm_LE call inst)
       | OP_TEST \<Rightarrow> go_on (vm_TEST inst)
       | OP_TESTSET \<Rightarrow> go_on (vm_TESTSET inst)
       | OP_CALL \<Rightarrow> go_on (vm_CALL G call inst)
       | OP_TAILCALL \<Rightarrow> vm_TAILCALL G call baseframe inst
       | OP_RETURN \<Rightarrow> vm_RETURN baseframe inst
       | OP_FORLOOP \<Rightarrow> go_on (vm_FORLOOP inst)
       | OP_FORPREP \<Rightarrow> go_on (vm_FORPREP inst)
       | OP_TFORLOOP \<Rightarrow> go_on (vm_TFORLOOP call inst)
       | OP_SETLIST \<Rightarrow> go_on (vm_SETLIST inst)
       | OP_CLOSE \<Rightarrow> go_on (vm_CLOSE call inst)
       | OP_CLOSURE \<Rightarrow> go_on (vm_CLOSURE inst)
       | OP_VARARG \<Rightarrow> go_on (vm_VARARG inst)
       | OP_BNOT \<Rightarrow> go_on (vm_BNOT call inst)
       | OP_NOP \<Rightarrow> ret False
       | _ \<Rightarrow> go_on (opArith call p inst))"

text \<open>Fetches the next instruction and pays for it.\<close>

definition fetch :: "u32 vmM" where
  "fetch = with_frame (\<lambda>c cf.
     bnd (code_at c (Pc cf)) (\<lambda>inst.
     and_then (add_pc c 1)
     (bnd (rd (\<lambda>s. gasLimit s > 0)) (\<lambda>metered.
      and_then (whenM metered
        (and_then (upd (\<lambda>s. s\<lparr>gasUsed := gasUsed s + 1\<rparr>))
          (bnd (rd (\<lambda>s. gasUsed s > gasLimit s)) (\<lambda>out. whenM out (RaiseError ''lua: gas limit exceeded'')))))
      (ret inst)))))"

text \<open>\<open>mainLoop\<close> up to its loop: an empty stack is done, a host function runs at once.\<close>

definition enter :: "(nat \<Rightarrow> callback \<Rightarrow> int vmM) \<Rightarrow> callback \<Rightarrow> unit vmM \<Rightarrow> unit vmM" where
  "enter G call loop =
     bnd (rd (\<lambda>s. fixed_IsEmpty (cstack s))) (\<lambda>empty.
       if empty then ret ()
       else and_then (upd (\<lambda>s. s\<lparr>currentFrame := last_slot s\<rparr>))
         (with_frame (\<lambda>c cf. bnd (frame_function cf) (\<lambda>fn.
            if IsG fn then callGFunction G call False else loop))))"

fun vm_loop :: "(nat \<Rightarrow> callback \<Rightarrow> int vmM) \<Rightarrow> nat \<Rightarrow> nat option \<Rightarrow> unit vmM"
  and mainLoop :: "(nat \<Rightarrow> callback \<Rightarrow> int vmM) \<Rightarrow> nat \<Rightarrow> nat option \<Rightarrow> unit vmM" where
  "vm_loop G 0 baseframe = (\<lambda>s. Inl VFuel)"
| "vm_loop G (Suc n) baseframe =
     bnd fetch (\<lambda>inst. bnd (exec G (callR (mainLoop G n)) baseframe inst) (\<lambda>done.
       if done then ret () else vm_loop G n baseframe))"
| "mainLoop G 0 baseframe = (\<lambda>s. Inl VFuel)"
| "mainLoop G (Suc n) baseframe = enter G (callR (mainLoop G n)) (vm_loop G n baseframe)"

end
