(* ===== verification/Instructions.thy ===== *)
theory Instructions
  imports VM
begin

text \<open>
  Single instructions that succeed, and the numeric loop they make (\<^verbatim>\<open>vm.go\<close>): an arithmetic
  instruction on two numbers stores the number the operator gives, and the instructions
  \<^verbatim>\<open>FORPREP\<close> and \<^verbatim>\<open>FORLOOP\<close> run the body for exactly the values of the range, when the control
  variable does not wrap around; when it does, the loop never ends.
\<close>

section \<open>Computations that succeed\<close>

definition yields :: "'a vmM \<Rightarrow> vm \<Rightarrow> ('a \<Rightarrow> vm \<Rightarrow> bool) \<Rightarrow> bool" where
  "yields m s Q \<longleftrightarrow> (\<exists>x s'. m s = Inr (x, s') \<and> Q x s')"

lemma yields_bnd [simp]: "yields (bnd m f) s Q \<longleftrightarrow> yields m s (\<lambda>x s'. yields (f x) s' Q)"
  by (cases "m s") (auto simp: yields_def bnd_def)

lemma yields_and_then [simp]: "yields (and_then m n) s Q \<longleftrightarrow> yields m s (\<lambda>x s'. yields n s' Q)"
  by (simp add: and_then_def)

lemma yields_simple [simp]:
  "yields (ret x) s Q \<longleftrightarrow> Q x s" "yields (rd f) s Q1 \<longleftrightarrow> Q1 (f s) s" "yields (upd g) s R \<longleftrightarrow> R () (g s)"
  "yields (whenM b m) s R \<longleftrightarrow> (if b then yields m s R else R () s)"
  by (auto simp: yields_def ret_def rd_def upd_def whenM_def)

lemma yields_parts [simp]:
  "yields (at_index xs i) s Q \<longleftrightarrow> 0 \<le> i \<and> i < int (length xs) \<and> Q (xs ! nat i) s"
  "yields (deref p) s Q1 \<longleftrightarrow> (\<exists>x. p = Some x \<and> Q1 x s)"
  "yields (heap_at xs j) s Q \<longleftrightarrow> j < length xs \<and> Q (xs ! j) s"
  "yields (or_panic r) s Q2 \<longleftrightarrow> (\<exists>x. r = Inr x \<and> Q2 x s)"
  by (auto simp: yields_def at_index_def deref_def heap_at_def or_panic_def ret_def vpanic_def split: option.split sum.split)

lemma yields_with_frame [simp]:
  "yields (with_frame f) s Q \<longleftrightarrow> (\<exists>c. currentFrame s = Some c \<and> c < length (farray (cstack s)) \<and>
     yields (f c (farray (cstack s) ! c)) s Q)"
  by (auto simp: with_frame_def the_currentFrame_def frame_at_def)

text \<open>A store within the array.\<close>

definition store :: "int \<Rightarrow> slot \<Rightarrow> vm \<Rightarrow> vm" where
  "store i v s = s\<lparr>reg := (reg s)\<lparr>rarray := (rarray (reg s))[nat i := v],
     rtop := (if i \<ge> rtop (reg s) then i + 1 else rtop (reg s))\<rparr>\<rparr>"

lemma yields_set_reg: "0 \<le> i \<Longrightarrow> i < int (length (rarray (reg s))) \<Longrightarrow> yields (set_reg i v) s Q \<longleftrightarrow> Q () (store i v s)"
  by (simp add: yields_def set_reg_def reg_do_def reg_Set_def checkSize_def array_set_def bnd_def rd_def upd_def store_def)

lemma store_simps [simp]:
  "cstack (store i v s) = cstack s" "currentFrame (store i v s) = currentFrame s"
  "rarray (reg (store i v s)) = (rarray (reg s))[nat i := v]"
  "rtop (reg (store i v s)) = (if i \<ge> rtop (reg s) then i + 1 else rtop (reg s))"
  by (simp_all add: store_def)

lemma yields_add_pc:
  "c < length (farray (cstack s)) \<Longrightarrow> yields (add_pc c n) s Q \<longleftrightarrow>
   Q () (s\<lparr>cstack := (cstack s)\<lparr>farray := (farray (cstack s))[c := (farray (cstack s) ! c)\<lparr>Pc := Pc (farray (cstack s) ! c) + n\<rparr>]\<rparr>\<rparr>)"
  by (simp add: add_pc_def set_frame_def frame_at_def)

lemma yields_mono: "yields m s P \<Longrightarrow> (\<And>x s'. P x s' \<Longrightarrow> Q x s') \<Longrightarrow> yields m s Q"
  by (auto simp: yields_def)

lemma yieldsD: "yields m s Q \<Longrightarrow> \<exists>x s'. m s = Inr (x, s') \<and> Q x s'"
  by (simp add: yields_def)

section \<open>The numeric loop\<close>

text \<open>
  The control registers of a loop from \<open>i\<close>, with limit \<open>l\<close> and step \<open>st\<close>, seen by the instruction
  \<open>inst\<close> of the frame \<open>c\<close>, whose program counter is \<open>pc\<close>. The loop variable is the register behind them.
\<close>

definition for_ctl :: "nat \<Rightarrow> u32 \<Rightarrow> int \<Rightarrow> LUint256 \<Rightarrow> LUint256 \<Rightarrow> LUint256 \<Rightarrow> vm \<Rightarrow> bool" where
  "for_ctl c inst pc l st i s \<longleftrightarrow> currentFrame s = Some c \<and> c < length (farray (cstack s)) \<and>
     Pc (farray (cstack s) ! c) = pc \<and>
     (let RA = LocalBase (farray (cstack s) ! c) + opGetArgA inst
      in 0 \<le> RA \<and> rtop (reg s) \<le> int (length (rarray (reg s))) \<and> RA + 3 < int (length (rarray (reg s))) \<and> rarray (reg s) ! nat RA = Some (LNum i) \<and>
         rarray (reg s) ! nat (RA + 1) = Some (LNum l) \<and> rarray (reg s) ! nat (RA + 2) = Some (LNum st))"

definition loop_var :: "nat \<Rightarrow> u32 \<Rightarrow> vm \<Rightarrow> slot" where
  "loop_var c inst s = rarray (reg s) ! nat (LocalBase (farray (cstack s) ! c) + opGetArgA inst + 3)"

definition goes_on :: "LUint256 \<Rightarrow> LUint256 \<Rightarrow> LUint256 \<Rightarrow> bool" where
  "goes_on st v l \<longleftrightarrow> \<not> lu256IsNeg st \<and> lu256Cmp v l \<le> 0 \<or> lu256IsNeg st \<and> lu256SCmp v l \<ge> 0"


text \<open>Cutting the registers behind one that was just stored.\<close>

lemma yields_cut:
  assumes "0 \<le> i" "i < rtop (reg s)" "rtop (reg s) \<le> int (length (rarray (reg s)))"
  shows "yields (set_top (i + 1)) s (\<lambda>_ s'. cstack s' = cstack s \<and> currentFrame s' = currentFrame s)"
proof (cases "i + 1 < rtop (reg s)")
  case True
  then show ?thesis using assms
    by (simp add: yields_def set_top_def reg_do_def reg_SetTop_def checkSize_def Let_def clear_above_def bnd_def rd_def upd_def)
next
  case False
  then show ?thesis using assms
    by (simp add: yields_def set_top_def reg_do_def reg_SetTop_def checkSize_def Let_def clear_above_def bnd_def rd_def upd_def)
qed

lemma FORLOOP_step:
  assumes "for_ctl c inst pc l st i s"
  shows "yields (vm_FORLOOP inst) s (\<lambda>_ s'.
    if goes_on st (lu256Add i st) l
    then for_ctl c inst (pc + opGetArgSbx inst) l st (lu256Add i st) s' \<and> loop_var c inst s' = Some (LNum (lu256Add i st))
    else currentFrame s' = Some c \<and> c < length (farray (cstack s')) \<and> Pc (farray (cstack s') ! c) = pc)"
proof -
  define RA where "RA = LocalBase (farray (cstack s) ! c) + opGetArgA inst"
  define r where "r = nat RA"
  have s: "currentFrame s = Some c" "c < length (farray (cstack s))" "Pc (farray (cstack s) ! c) = pc" "RA = int r"
    "rtop (reg s) \<le> int (length (rarray (reg s)))" "r + 3 < length (rarray (reg s))" "rarray (reg s) ! r = Some (LNum i)"
    "rarray (reg s) ! (r + 1) = Some (LNum l)" "rarray (reg s) ! (r + 2) = Some (LNum st)"
    using assms by (auto simp: for_ctl_def RA_def [symmetric] r_def Let_def nat_add_distrib)
  have n: "nat (int r + 1) = r + 1" "nat (int r + 2) = r + 2" "nat (int r + 3) = r + 3" by auto
  note cut = yields_mono [OF yields_cut]
  show ?thesis
    using s unfolding vm_FORLOOP_def
    by (auto simp: RA_def [symmetric] Let_def reg_get_def yields_set_reg yields_add_pc goes_on_def [symmetric] n
        for_ctl_def loop_var_def intro!: cut)
qed

lemma FORPREP_step:
  assumes "for_ctl c inst pc l st i s"
  shows "yields (vm_FORPREP inst) s (\<lambda>_. for_ctl c inst (pc + opGetArgSbx inst) l st (lu256Sub i st))"
proof -
  define RA where "RA = LocalBase (farray (cstack s) ! c) + opGetArgA inst"
  define r where "r = nat RA"
  have s: "currentFrame s = Some c" "c < length (farray (cstack s))" "Pc (farray (cstack s) ! c) = pc" "RA = int r"
    "rtop (reg s) \<le> int (length (rarray (reg s)))" "r + 3 < length (rarray (reg s))" "rarray (reg s) ! r = Some (LNum i)"
    "rarray (reg s) ! (r + 1) = Some (LNum l)" "rarray (reg s) ! (r + 2) = Some (LNum st)"
    using assms by (auto simp: for_ctl_def RA_def [symmetric] r_def Let_def nat_add_distrib)
  have n: "nat (int r + 1) = r + 1" "nat (int r + 2) = r + 2" by auto
  show ?thesis
    using s unfolding vm_FORPREP_def
    by (simp add: RA_def [symmetric] Let_def reg_get_def yields_set_reg yields_add_pc n for_ctl_def)
qed

section \<open>The values of a range\<close>

text \<open>A step with the sign bit counts down, among signed numbers; every other counts up, among unsigned ones.\<close>

definition num_of :: "LUint256 \<Rightarrow> LUint256 \<Rightarrow> int" where
  "num_of st v = (if lu256IsNeg st then sval 256 v else int (val v))"

definition in_range :: "int \<Rightarrow> int \<Rightarrow> int \<Rightarrow> bool" where
  "in_range a l st \<longleftrightarrow> 0 < st \<and> a \<le> l \<or> st < 0 \<and> l \<le> a"

definition for_range :: "int \<Rightarrow> int \<Rightarrow> int \<Rightarrow> int list" where
  "for_range a l st = map (\<lambda>k. a + int k * st) [0..<(if in_range a l st then nat ((l - a) div st) + 1 else 0)]"

text \<open>The number behind the limit still has the sign it should have.\<close>

definition loop_fits :: "LUint256 \<Rightarrow> LUint256 \<Rightarrow> bool" where
  "loop_fits l st \<longleftrightarrow> (if lu256IsNeg st then - (2 ^ 255) \<le> sval 256 l + sval 256 st else val l + val st < 2 ^ 256)"

lemma for_range_unfold:
  assumes "st \<noteq> 0"
  shows "for_range a l st = (if in_range a l st then a # for_range (a + st) l st else [])"
proof (cases "in_range a l st")
  case True
  have d: "(l - (a + st)) div st = (l - a) div st - 1"
    using assms div_mult_self1 [of st "l - a" "-1"] by (simp add: algebra_simps)
  have "0 \<le> (l - a) div st"
    using True assms by (auto simp: in_range_def pos_imp_zdiv_nonneg_iff neg_imp_zdiv_nonneg_iff)
  moreover have "in_range (a + st) l st \<longleftrightarrow> 1 \<le> (l - a) div st"
  proof (cases "0 < st")
    case True
    then show ?thesis using div_int_pos_iff [of "l - (a + st)" st] d assms by (auto simp: in_range_def)
  next
    case False
    then have "st < 0" using assms by simp
    then show ?thesis using neg_imp_zdiv_nonneg_iff [of st "l - (a + st)"] d by (auto simp: in_range_def)
  qed
  moreover have "map (\<lambda>k. a + int k * st) [0..<Suc n] = a # map (\<lambda>k. a + st + int k * st) [0..<n]" for n
    by (simp add: upt_conv_Cons map_Suc_upt [symmetric] algebra_simps del: upt_Suc)
  ultimately show ?thesis
    using True by (auto simp: for_range_def d nat_diff_distrib simp del: upt_Suc)
qed (simp add: for_range_def)

lemma sval_mod: "sval 256 a mod 2 ^ 256 = int (val a)"
  using val_less [of a] by (auto simp: sval_def Let_def mod_if)

lemma dvd_close:
  fixes x y h :: int
  assumes "h + h dvd x - y" "-h \<le> x" "x < h" "-h \<le> y" "y < h" shows "x = y"
proof (rule ccontr)
  assume "x \<noteq> y"
  then have "\<bar>h + h\<bar> \<le> \<bar>x - y\<bar>" using dvd_imp_le_int [of "x - y" "h + h"] assms(1) by simp
  then show False using assms(2-5) by linarith
qed

lemma sval_Add:
  assumes "- (2 ^ 255) \<le> sval 256 a + sval 256 b" "sval 256 a + sval 256 b < 2 ^ 255"
  shows "sval 256 (lu256Add a b) = sval 256 a + sval 256 b"
proof (rule dvd_close [of "2 ^ 255"])
  have "sval 256 (lu256Add a b) mod 2 ^ 256 = (sval 256 a + sval 256 b) mod 2 ^ 256"
    by (simp only: sval_mod val_lu256Add zmod_int of_nat_add of_nat_power of_nat_numeral flip: mod_add_eq [of "sval 256 a"])
  then have "(2::int) ^ 256 dvd sval 256 (lu256Add a b) - (sval 256 a + sval 256 b)"
    by (simp only: mod_eq_dvd_iff)
  then show "(2::int) ^ 255 + 2 ^ 255 dvd sval 256 (lu256Add a b) - (sval 256 a + sval 256 b)" by simp
qed (use sval_bounds [of 256 "lu256Add a b"] assms in simp_all)

lemma lu256IsNeg_sval: "lu256IsNeg v \<longleftrightarrow> sval 256 v < 0"
proof -
  have f: "fitsN 256 v" using val_less [of v] by (simp add: fitsN_def)
  show ?thesis using lu256BitN_top [of 256 v] f lu256BitN_bit [of 255 v] by (simp add: lu256IsNeg_val)
qed

lemma sval_pos: "\<not> lu256IsNeg v \<Longrightarrow> sval 256 v = int (val v)"
  using val_less [of v] by (auto simp: lu256IsNeg_sval sval_def Let_def split: if_splits)

lemma goes_on_num:
  assumes "val st \<noteq> 0"
  shows "goes_on st v l \<longleftrightarrow> in_range (num_of st v) (num_of st l) (sval 256 st)"
proof (cases "lu256IsNeg st")
  case True
  then show ?thesis using lu256IsNeg_sval [of st] by (simp add: goes_on_def num_of_def in_range_def lu256SCmp_sval)
next
  case False
  then show ?thesis using assms sval_pos [of st] by (simp add: goes_on_def num_of_def in_range_def lu256Cmp_val)
qed

lemma num_next:
  assumes "loop_fits l st" "in_range (num_of st v) (num_of st l) (sval 256 st)"
  shows "num_of st (lu256Add v st) = num_of st v + sval 256 st"
proof (cases "lu256IsNeg st")
  case True
  then have n: "sval 256 st < 0" by (simp add: lu256IsNeg_sval)
  then have "sval 256 l \<le> sval 256 v" using True assms(2) by (simp add: num_of_def in_range_def)
  moreover have "- (2 ^ 255) \<le> sval 256 l + sval 256 st" using True assms(1) by (simp add: loop_fits_def)
  moreover have "sval 256 v < 2 ^ 255" using sval_bounds [of 256 v] by simp
  ultimately show ?thesis
    using n True by (simp add: num_of_def sval_Add)
next
  case False
  then have "val v \<le> val l" "val l + val st < 2 ^ 256"
    using assms sval_pos [of st] by (auto simp: num_of_def in_range_def loop_fits_def)
  then show ?thesis using False sval_pos [of st] by (simp add: num_of_def val_lu256Add)
qed

lemma Add_Sub: "lu256Add (lu256Sub a b) b = a"
  by (simp add: w256_inject [symmetric] w256_Add w256_Sub)

section \<open>Running the loop\<close>

text \<open>
  The loop from its \<^verbatim>\<open>FORLOOP\<close> on, which is fetched, run and followed by the body as long as it
  jumps; the result are the values the loop variable has at the starts of the body.
\<close>

fun for_values :: "nat \<Rightarrow> nat \<Rightarrow> u32 \<Rightarrow> (vm \<Rightarrow> vm) \<Rightarrow> slot list vmM" where
  "for_values 0 c inst body = (\<lambda>s. Inl VFuel)"
| "for_values (Suc n) c inst body = bnd (frame_at c) (\<lambda>f0. and_then (add_pc c 1) (and_then (vm_FORLOOP inst)
     (bnd (frame_at c) (\<lambda>f1.
       if Pc f1 = Pc f0 + 1 then ret []
       else bnd (rd (loop_var c inst)) (\<lambda>v. and_then (upd body)
              (bnd (for_values n c inst body) (\<lambda>vs. ret (v # vs))))))))"

text \<open>A body may do anything but change the control registers or leave the loop.\<close>

definition loop_body :: "nat \<Rightarrow> u32 \<Rightarrow> int \<Rightarrow> LUint256 \<Rightarrow> LUint256 \<Rightarrow> (vm \<Rightarrow> vm) \<Rightarrow> bool" where
  "loop_body c inst pc l st body \<longleftrightarrow>
     (\<forall>i s. for_ctl c inst (pc + 1 + opGetArgSbx inst) l st i s \<longrightarrow> for_ctl c inst pc l st i (body s))"

definition numbers :: "LUint256 list \<Rightarrow> slot list" where
  "numbers us = map (\<lambda>u. Some (LNum u)) us"

lemma for_ctl_next: "for_ctl c inst pc l st i s \<Longrightarrow> yields (add_pc c 1) s (\<lambda>_. for_ctl c inst (pc + 1) l st i)"
  by (subst yields_add_pc) (auto simp: for_ctl_def Let_def)

lemma yields_frame_at [simp]: "yields (frame_at c) s Q \<longleftrightarrow> c < length (farray (cstack s)) \<and> Q (farray (cstack s) ! c) s"
  by (simp add: frame_at_def)

lemma for_values_run:
  assumes "for_ctl c inst pc l st i s" "loop_body c inst pc l st body" "opGetArgSbx inst \<noteq> 0"
    and "val st \<noteq> 0" "loop_fits l st"
    and "length (for_range (num_of st (lu256Add i st)) (num_of st l) (sval 256 st)) < n"
  shows "yields (for_values n c inst body) s (\<lambda>vs s'. \<exists>us. vs = numbers us \<and>
    map (num_of st) us = for_range (num_of st (lu256Add i st)) (num_of st l) (sval 256 st) \<and>
    currentFrame s' = Some c \<and> Pc (farray (cstack s') ! c) = pc + 1)"
  using assms(1,6)
proof (induction n arbitrary: i s)
  case (Suc n)
  define v where "v = lu256Add i st"
  note step = FORLOOP_step [of c inst "pc + 1" l st i, folded v_def]
  have "sval 256 st \<noteq> 0" using assms(4) sval_pos [of st] lu256IsNeg_sval [of st] by (cases "lu256IsNeg st") auto
  note range = for_range_unfold [OF this, of "num_of st v" "num_of st l", folded goes_on_num [OF assms(4)]]
  have rest: "yields (for_values n c inst body) (body s1) (\<lambda>vs s'. \<exists>us. Some (LNum v) # vs = numbers us \<and>
      map (num_of st) us = for_range (num_of st v) (num_of st l) (sval 256 st) \<and>
      currentFrame s' = Some c \<and> Pc (farray (cstack s') ! c) = pc + 1)"
    if g: "goes_on st v l" and c1: "for_ctl c inst (pc + 1 + opGetArgSbx inst) l st v s1" for s1
  proof -
    have nx: "num_of st (lu256Add v st) = num_of st v + sval 256 st"
      using num_next [OF assms(5)] g goes_on_num [OF assms(4)] by blast
    have b: "for_ctl c inst pc l st v (body s1)" using assms(2) c1 by (auto simp: loop_body_def)
    have "length (for_range (num_of st (lu256Add v st)) (num_of st l) (sval 256 st)) < n"
      using Suc.prems(2) range g by (simp add: v_def [symmetric] nx)
    from Suc.IH [OF b this] show ?thesis
    proof (rule yields_mono)
      fix vs and s' :: vm
      assume "\<exists>us. vs = numbers us \<and> map (num_of st) us = for_range (num_of st (lu256Add v st)) (num_of st l) (sval 256 st) \<and>
          currentFrame s' = Some c \<and> Pc (farray (cstack s') ! c) = pc + 1"
      then obtain us where "vs = numbers us" "map (num_of st) us = for_range (num_of st v + sval 256 st) (num_of st l) (sval 256 st)"
        "currentFrame s' = Some c" "Pc (farray (cstack s') ! c) = pc + 1" by (auto simp: nx)
      then show "\<exists>us. Some (LNum v) # vs = numbers us \<and>
          map (num_of st) us = for_range (num_of st v) (num_of st l) (sval 256 st) \<and>
          currentFrame s' = Some c \<and> Pc (farray (cstack s') ! c) = pc + 1"
        using range g by (intro exI [of _ "v # us"]) (simp add: numbers_def)
    qed
  qed
  have run: "yields (vm_FORLOOP inst) s1 (\<lambda>_ s2. yields (bnd (frame_at c) (\<lambda>f1.
        if Pc f1 = pc + 1 then ret []
        else bnd (rd (loop_var c inst)) (\<lambda>v. and_then (upd body) (bnd (for_values n c inst body) (\<lambda>vs. ret (v # vs)))))) s2
      (\<lambda>vs s'. \<exists>us. vs = numbers us \<and> map (num_of st) us = for_range (num_of st v) (num_of st l) (sval 256 st) \<and>
        currentFrame s' = Some c \<and> Pc (farray (cstack s') ! c) = pc + 1))"
    if c1: "for_ctl c inst (pc + 1) l st i s1" for s1
  proof (rule yields_mono [OF step [OF c1]])
    fix x s2
    assume a: "if goes_on st v l
        then for_ctl c inst (pc + 1 + opGetArgSbx inst) l st v s2 \<and> loop_var c inst s2 = Some (LNum v)
        else currentFrame s2 = Some c \<and> c < length (farray (cstack s2)) \<and> Pc (farray (cstack s2) ! c) = pc + 1"
    show "yields (bnd (frame_at c) (\<lambda>f1.
        if Pc f1 = pc + 1 then ret []
        else bnd (rd (loop_var c inst)) (\<lambda>v. and_then (upd body) (bnd (for_values n c inst body) (\<lambda>vs. ret (v # vs)))))) s2
      (\<lambda>vs s'. \<exists>us. vs = numbers us \<and> map (num_of st) us = for_range (num_of st v) (num_of st l) (sval 256 st) \<and>
        currentFrame s' = Some c \<and> Pc (farray (cstack s') ! c) = pc + 1)"
    proof (cases "goes_on st v l")
      case True
      then show ?thesis using a rest [of s2] assms(3) by (simp add: for_ctl_def)
    next
      case False
      then show ?thesis using a range by (simp add: numbers_def)
    qed
  qed
  have "c < length (farray (cstack s))" "Pc (farray (cstack s) ! c) = pc" using Suc.prems(1) by (auto simp: for_ctl_def)
  moreover have "yields (and_then (add_pc c 1) (and_then (vm_FORLOOP inst) (bnd (frame_at c) (\<lambda>f1.
        if Pc f1 = pc + 1 then ret []
        else bnd (rd (loop_var c inst)) (\<lambda>v. and_then (upd body) (bnd (for_values n c inst body) (\<lambda>vs. ret (v # vs)))))))) s
      (\<lambda>vs s'. \<exists>us. vs = numbers us \<and> map (num_of st) us = for_range (num_of st v) (num_of st l) (sval 256 st) \<and>
        currentFrame s' = Some c \<and> Pc (farray (cstack s') ! c) = pc + 1)"
    unfolding yields_and_then by (rule yields_mono [OF for_ctl_next [OF Suc.prems(1)]]) (rule run)
  ultimately show ?case by (simp add: v_def)
qed simp

text \<open>C19: a numeric loop runs its body for the values of the range, in their order, and then goes on behind
  the loop; a negative step counts down to the limit, among the signed numbers. The number one step behind the limit
  must not wrap around.\<close>

theorem numeric_for:
  assumes "for_ctl c prep pc l st a s" "opGetArgA inst = opGetArgA prep" "opGetArgSbx inst \<noteq> 0"
    and "loop_body c inst (pc + opGetArgSbx prep) l st body" "val st \<noteq> 0" "loop_fits l st"
    and "length (for_range (num_of st a) (num_of st l) (sval 256 st)) < n"
  shows "\<exists>us s'. and_then (vm_FORPREP prep) (for_values n c inst body) s = Inr (numbers us, s') \<and>
    map (num_of st) us = for_range (num_of st a) (num_of st l) (sval 256 st) \<and>
    Pc (farray (cstack s') ! c) = pc + opGetArgSbx prep + 1"
proof -
  have ctl: "for_ctl c inst q l st i = for_ctl c prep q l st i" for q i
    using assms(2) by (intro ext) (simp add: for_ctl_def)
  have "yields (and_then (vm_FORPREP prep) (for_values n c inst body)) s (\<lambda>vs s'. \<exists>us. vs = numbers us \<and>
    map (num_of st) us = for_range (num_of st a) (num_of st l) (sval 256 st) \<and>
    currentFrame s' = Some c \<and> Pc (farray (cstack s') ! c) = pc + opGetArgSbx prep + 1)"
    unfolding yields_and_then
    by (rule yields_mono [OF FORPREP_step [OF assms(1)]], subst (asm) ctl [symmetric])
      (use for_values_run [OF _ assms(4,3,5,6), of "lu256Sub a st" _ n] assms(7) in \<open>simp add: Add_Sub\<close>)
  then show ?thesis by (auto simp: yields_def)
qed

text \<open>A frame whose registers hold some values.\<close>

definition one_frame :: "slot list \<Rightarrow> vm" where
  "one_frame vs = (newLState 1 0 0 0)\<lparr>
     cstack := \<lparr>farray = [zero_frame], fsp = 1\<rparr>, currentFrame := Some 0,
     reg := \<lparr>rarray = vs, rtop = int (length vs), growBy = 0, maxSize = 0\<rparr>\<rparr>"

theorem numeric_for_witness:
  "\<exists>us s'. and_then (vm_FORPREP 0x1ffff) (for_values 4 0 0x1fffe (\<lambda>s. s))
      (one_frame [Some (LNum (LU256 1 0 0 0)), Some (LNum (LU256 3 0 0 0)), Some (LNum (LU256 1 0 0 0)), None]) = Inr (numbers us, s') \<and>
    map (num_of (LU256 1 0 0 0)) us = [1, 2, 3]"
proof -
  let ?s = "one_frame [Some (LNum (LU256 1 0 0 0)), Some (LNum (LU256 3 0 0 0)), Some (LNum (LU256 1 0 0 0)), None]"
  have n: "num_of (LU256 1 0 0 0) (LU256 k 0 0 0) = int (unat k)" for k
    by (simp add: num_of_def lu256IsNeg_def val_LU256)
  have r: "for_range 1 3 1 = [1, 2, 3]" by (simp add: for_range_def in_range_def upt_rec)
  have "for_ctl 0 0x1ffff 0 (LU256 3 0 0 0) (LU256 1 0 0 0) (LU256 1 0 0 0) ?s"
    by (simp add: for_ctl_def one_frame_def zero_frame_def opGetArgA_def)
  moreover have "loop_body 0 0x1fffe 0 (LU256 3 0 0 0) (LU256 1 0 0 0) (\<lambda>s. s)"
    by (simp add: loop_body_def opGetArgSbx_def opGetArgBx_def opMaxArgSbx_def opMaxArgBx_def)
  ultimately show ?thesis
    using numeric_for [of 0 "0x1ffff" 0 "LU256 3 0 0 0" "LU256 1 0 0 0" "LU256 1 0 0 0" ?s "0x1fffe" "\<lambda>s. s" 4]
    by (auto simp: opGetArgA_def opGetArgSbx_def opGetArgBx_def opMaxArgSbx_def opMaxArgBx_def n r sval_pos lu256IsNeg_def val_LU256 loop_fits_def)
qed

text \<open>With the largest number as limit no number is behind it, and the loop has no end.\<close>

lemma numeric_for_endless:
  assumes "for_ctl c inst pc l st i s" "loop_body c inst pc l st body" "opGetArgSbx inst \<noteq> 0"
    and "\<not> lu256IsNeg st" "val l = 2 ^ 256 - 1"
  shows "for_values n c inst body s = Inl VFuel"
  using assms(1)
proof (induction n arbitrary: i s)
  case (Suc n)
  have "val v \<le> val l" for v using val_less [of v] assms(5) by linarith
  then have g: "goes_on st v l" for v
    using assms(4) by (auto simp: goes_on_def lu256Cmp_val not_less nat_less_le)
  obtain s1 where s1: "add_pc c 1 s = Inr ((), s1)" "for_ctl c inst (pc + 1) l st i s1"
    using for_ctl_next [OF Suc.prems] by (auto simp: yields_def)
  obtain s2 where s2: "vm_FORLOOP inst s1 = Inr ((), s2)" "for_ctl c inst (pc + 1 + opGetArgSbx inst) l st (lu256Add i st) s2"
    using FORLOOP_step [OF s1(2)] g by (auto simp: yields_def)
  have "for_values n c inst body (body s2) = Inl VFuel"
    using Suc.IH assms(2) s2(2) by (auto simp: loop_body_def)
  then show ?case
    using Suc.prems s1 s2 assms(3)
    by (auto simp: bnd_def and_then_def frame_at_def rd_def upd_def heap_at_def ret_def for_ctl_def)
qed simp

section \<open>Arithmetic\<close>

definition arith_ops :: "opcode list" where
  "arith_ops = [OP_ADD, OP_SUB, OP_MUL, OP_DIV, OP_MOD, OP_POW, OP_BAND, OP_BOR, OP_BXOR, OP_SHL, OP_SHR, OP_IDIV]"

text \<open>The operators that are one of 256-bit words; the others have properties of their own.\<close>

definition arith_word :: "opcode \<Rightarrow> 256 word \<Rightarrow> 256 word \<Rightarrow> 256 word option" where
  "arith_word p x y =
     (case p of
        OP_ADD \<Rightarrow> Some (x + y) | OP_SUB \<Rightarrow> Some (x - y) | OP_BAND \<Rightarrow> Some (x AND y) | OP_BOR \<Rightarrow> Some (x OR y)
      | OP_BXOR \<Rightarrow> Some (x XOR y) | OP_SHL \<Rightarrow> Some (push_bit (unat y) x) | OP_SHR \<Rightarrow> Some (drop_bit (unat y) x)
      | _ \<Rightarrow> None)"

text \<open>The message of a division by zero.\<close>

definition zero_division :: "opcode \<Rightarrow> string option" where
  "zero_division p =
     (case p of OP_DIV \<Rightarrow> Some ''n/0'' | OP_IDIV \<Rightarrow> Some ''n//0'' | OP_MOD \<Rightarrow> Some ''n%%0'' | _ \<Rightarrow> None)"

lemma shift_all: "push_bit (min 256 k) (x :: 256 word) = push_bit k x" "drop_bit (min 256 k) (x :: 256 word) = drop_bit k x"
  by (rule bit_eqI; auto simp: bit_simps min_def dest: bit_imp_le_length)+

lemma numberArith_numbers:
  assumes "p \<in> set arith_ops" "zero_division p = None \<or> \<not> lu256IsZero b"
  shows "\<exists>r. numberArith p a b = ret r \<and> (\<forall>w. arith_word p (w256 a) (w256 b) = Some w \<longrightarrow> w256 r = w)"
proof -
  obtain q r where "lu256IsZero b \<or> lu256DivMod a b = Inr (q, r)"
    using lu256DivMod_total [of b a] by (auto simp: lu256IsZero_val)
  then show ?thesis
    using assms
    by (auto simp: arith_ops_def numberArith_def arith_word_def zero_division_def whenM_def and_then_def or_panic_def
        bnd_def ret_def lu256Div_def lu256FloorDiv_def lu256Mod_def w256_ops lu256ShiftAmount_val shift_all)
qed

lemma RaiseError_any: "\<exists>e. (RaiseError t :: 'a vmM) s = Inl e \<and> (RaiseError t :: 'b vmM) s = Inl e"
proof -
  have throw: "\<exists>e. (throw_message m :: 'a vmM) s = Inl e \<and> (throw_message m :: 'b vmM) s = Inl e" for m s
    by (cases "bindr (if reg_IsFull (reg s) then forceResize (rtop (reg s) + 1) (reg s) else Inr (reg s)) (reg_Push (Some (LString m)))")
      (auto simp: throw_message_def Let_def)
  show ?thesis
  proof (cases "whenM (\<not> hasErrorFunc s) closeAllUpvalues s")
    case (Inr r)
    then show ?thesis using throw [of _ "snd r"]
      by (cases r) (simp add: RaiseError_def raiseError_def bnd_def rd_def and_then_def)
  qed (simp add: RaiseError_def raiseError_def bnd_def rd_def and_then_def)
qed

lemma numberArith_zero:
  assumes "zero_division p = Some t" "lu256IsZero b"
  shows "bnd (bnd (numberArith p a b) (\<lambda>n. ret (Some (LNum n)))) (f :: slot \<Rightarrow> unit vmM) s =
    RaiseError (''attempt to perform '' @ [CHR 39] @ t @ [CHR 39]) s"
proof -
  obtain e where "(RaiseError (''attempt to perform '' @ [CHR 39] @ t @ [CHR 39]) :: unit vmM) s = Inl e"
    using RaiseError_any by blast
  then show ?thesis
    using assms by (cases p) (auto simp: zero_division_def numberArith_def whenM_def and_then_def bnd_def)
qed

text \<open>C20: arithmetic on two numbers always yields a number, whatever metatables there are, and stores it without
  another effect; it is the operation on 256-bit words for the operators that are one, and the one error is a
  division by zero, which names the operator.\<close>

theorem arith_instruction:
  assumes "p \<in> set arith_ops" "currentFrame s = Some c" "c < length (farray (cstack s))"
    and "rkValue (opGetArgB inst) s = Inr (Some (LNum a), s)" "rkValue (opGetArgC inst) s = Inr (Some (LNum b), s)"
    and "RA = LocalBase (farray (cstack s) ! c) + opGetArgA inst" "0 \<le> RA" "RA < int (length (rarray (reg s)))"
  shows "case zero_division p of
      Some t \<Rightarrow> if lu256IsZero b then opArith call p inst s = RaiseError (''attempt to perform '' @ [CHR 39] @ t @ [CHR 39]) s
               else \<exists>r. opArith call p inst s = Inr ((), store RA (Some (LNum r)) s)
    | None \<Rightarrow> \<exists>r. opArith call p inst s = Inr ((), store RA (Some (LNum r)) s) \<and>
               (\<forall>w. arith_word p (w256 a) (w256 b) = Some w \<longrightarrow> w256 r = w)"
proof -
  have run: "opArith call p inst s = bnd (bnd (numberArith p a b) (\<lambda>n. ret (Some (LNum n)))) (set_reg RA) s"
    using assms(2-6) by (simp add: opArith_def with_frame_def the_currentFrame_def frame_at_def heap_at_def deref_def bnd_def rd_def ret_def)
  have put: "opArith call p inst s = Inr ((), store RA (Some (LNum r)) s)" if "numberArith p a b = ret r" for r
  proof -
    have "yields (set_reg RA (Some (LNum r))) s (\<lambda>_ s'. s' = store RA (Some (LNum r)) s)"
      using assms(7,8) by (simp add: yields_set_reg)
    then show ?thesis by (auto simp: run that bnd_def ret_def yields_def)
  qed
  have z: "opArith call p inst s = RaiseError (''attempt to perform '' @ [CHR 39] @ t @ [CHR 39]) s"
    if "zero_division p = Some t" "lu256IsZero b" for t
    unfolding run by (rule numberArith_zero [OF that])
  show ?thesis
    using z put numberArith_numbers [OF assms(1), of b a] by (auto split: option.split)
qed

theorem arith_instruction_witness:
  "\<exists>r. opArith (\<lambda>_ _ _. ret ()) OP_ADD 0x80200 (one_frame [Some (LNum (LU256 3 0 0 0)), Some (LNum (LU256 5 0 0 0)), None]) =
      Inr ((), store 2 (Some (LNum r)) (one_frame [Some (LNum (LU256 3 0 0 0)), Some (LNum (LU256 5 0 0 0)), None])) \<and>
    w256 r = w256 (LU256 3 0 0 0) + w256 (LU256 5 0 0 0)"
proof -
  let ?s = "one_frame [Some (LNum (LU256 3 0 0 0)), Some (LNum (LU256 5 0 0 0)), None]"
  have "rkValue (opGetArgB 0x80200) ?s = Inr (Some (LNum (LU256 3 0 0 0)), ?s)"
    "rkValue (opGetArgC 0x80200) ?s = Inr (Some (LNum (LU256 5 0 0 0)), ?s)"
    by (simp_all add: rkValue_def opGetArgB_def opGetArgC_def opIsK_def opBitRk_def with_frame_def the_currentFrame_def frame_at_def
        heap_at_def deref_def bnd_def rd_def ret_def reg_get_def at_index_def one_frame_def zero_frame_def)
  moreover have "OP_ADD \<in> set arith_ops" "currentFrame ?s = Some 0" "0 < length (farray (cstack ?s))"
    "2 = LocalBase (farray (cstack ?s) ! 0) + opGetArgA 0x80200" "2 < int (length (rarray (reg ?s)))"
    by (simp_all add: arith_ops_def one_frame_def zero_frame_def opGetArgA_def)
  ultimately have "case zero_division OP_ADD of
      Some t \<Rightarrow> if lu256IsZero (LU256 5 0 0 0) then opArith (\<lambda>_ _ _. ret ()) OP_ADD 0x80200 ?s = RaiseError (''attempt to perform '' @ [CHR 39] @ t @ [CHR 39]) ?s
               else \<exists>r. opArith (\<lambda>_ _ _. ret ()) OP_ADD 0x80200 ?s = Inr ((), store 2 (Some (LNum r)) ?s)
    | None \<Rightarrow> \<exists>r. opArith (\<lambda>_ _ _. ret ()) OP_ADD 0x80200 ?s = Inr ((), store 2 (Some (LNum r)) ?s) \<and>
               (\<forall>w. arith_word OP_ADD (w256 (LU256 3 0 0 0)) (w256 (LU256 5 0 0 0)) = Some w \<longrightarrow> w256 r = w)"
    by (intro arith_instruction) simp_all
  then show ?thesis by (simp add: zero_division_def arith_word_def)
qed

end
