(* ===== verification/Ast.thy ===== *)
theory Ast
  imports Uint256
begin

text \<open>
  The abstract syntax of the language core (package \<^verbatim>\<open>ast\<close>), as the compiler reads it. Every
  node starts with its position, the pair of \<^verbatim>\<open>Line\<close> and \<^verbatim>\<open>LastLine\<close>; an interface
  value that may be nil is an option. The number expression of the compiler's own,
  \<^verbatim>\<open>constLValueExpr\<close>, is a constructor here.
\<close>

type_synonym pos = "int \<times> int"

record ParList =
  HasVargs :: bool
  ParNames :: "string list"

datatype LocalAttr = LocalAttrNone | LocalAttrConst | LocalAttrClose

datatype expr =
    TrueExpr pos
  | FalseExpr pos
  | NilExpr pos
  | NumberExpr pos string
  | StringExpr pos string
  | ConstLValueExpr pos LUint256
  | Comma3Expr pos bool
  | IdentExpr pos string
  | AttrGetExpr pos expr expr
  | TableExpr pos "(expr option \<times> expr) list"
  | FuncCallExpr pos "expr option" "expr option" string "expr list" bool
  | LogicalOpExpr pos string expr expr
  | RelationalOpExpr pos string expr expr
  | StringConcatOpExpr pos expr expr
  | ArithmeticOpExpr pos string expr expr
  | UnaryMinusOpExpr pos expr
  | UnaryNotOpExpr pos expr
  | UnaryLenOpExpr pos expr
  | UnaryBitNotOpExpr pos expr
  | FunctionExpr pos ParList "stmt list"
and stmt =
    AssignStmt pos "expr list" "expr list"
  | LocalAssignStmt pos "string list" "LocalAttr list" "expr list"
  | FuncCallStmt pos expr
  | DoBlockStmt pos "stmt list"
  | WhileStmt pos expr "stmt list"
  | RepeatStmt pos expr "stmt list"
  | IfStmt pos expr "stmt list" "stmt list"
  | NumberForStmt pos string expr expr "expr option" "stmt list"
  | GenericForStmt pos "string list" "expr list" "stmt list"
  | FuncDefStmt pos "expr option" "expr option" string expr
  | ReturnStmt pos "expr list"
  | BreakStmt pos
  | LabelStmt pos string
  | GotoStmt pos string

end
