(* ===== verification/CompilerState.thy ===== *)
theory CompilerState
  imports Monads Ast IRCode UintText
begin

text \<open>
  The state of the compiler (\<^verbatim>\<open>compile.go\<close>): the instructions emitted so far, the pools of
  variable names, blocks, and the context of a function with its labels and gotos. The chain
  of a block's parents is a list, innermost first. Of the enclosing functions only the variable
  names are read while a nested one is compiled: \<open>fc_Outer\<close> has the pools of their blocks.
  A Go pointer to a label is followed by name, the labels of a block having distinct ones.
\<close>

definition maxRegisters :: int where "maxRegisters = 200"
definition regNotDefined :: int where "regNotDefined = opMaxArgsA + 1"
definition labelNoJump :: int where "labelNoJump = 0"

datatype compile_exn = CError string int string | CPanic go_panic | CFuel

section \<open>Emitted code\<close>

text \<open>Instructions behind \<open>cd_pc\<close> were popped; they are overwritten by the next ones.\<close>

record codeStore =
  cd_codes :: "IRInstruction list"
  cd_lines :: "int list"
  cd_pc :: int
  loadNilBarrier :: bool

definition inst_abc :: "int \<Rightarrow> int \<Rightarrow> int \<Rightarrow> int \<Rightarrow> IRInstruction" where
  "inst_abc op a b c = \<lparr>ir_Op = op, ir_Type = Some opTypeABC, ir_A = a, ir_B = b, ir_C = c, ir_Bx = -1, ir_Sbx = 0, ir_Raw = 0\<rparr>"

definition inst_abx :: "int \<Rightarrow> int \<Rightarrow> int \<Rightarrow> IRInstruction" where
  "inst_abx op a bx = \<lparr>ir_Op = op, ir_Type = Some opTypeABx, ir_A = a, ir_B = -1, ir_C = -1, ir_Bx = bx, ir_Sbx = 0, ir_Raw = 0\<rparr>"

definition inst_asbx :: "int \<Rightarrow> int \<Rightarrow> int \<Rightarrow> IRInstruction" where
  "inst_asbx op a sbx = \<lparr>ir_Op = op, ir_Type = Some opTypeASbx, ir_A = a, ir_B = -1, ir_C = -1, ir_Bx = -1, ir_Sbx = sbx, ir_Raw = 0\<rparr>"

definition code_Add :: "IRInstruction \<Rightarrow> int \<Rightarrow> codeStore \<Rightarrow> codeStore" where
  "code_Add inst line cd =
     (let l = int (length (cd_codes cd))
      in if l \<le> 0 \<or> cd_pc cd = l
         then cd\<lparr>cd_codes := cd_codes cd @ [inst], cd_lines := cd_lines cd @ [line], cd_pc := cd_pc cd + 1\<rparr>
         else cd\<lparr>cd_codes := (cd_codes cd)[nat (cd_pc cd) := inst],
                 cd_lines := (cd_lines cd)[nat (cd_pc cd) := line], cd_pc := cd_pc cd + 1\<rparr>)"

definition code_AddASbx :: "int \<Rightarrow> int \<Rightarrow> int \<Rightarrow> int \<Rightarrow> codeStore \<Rightarrow> codeStore" where
  "code_AddASbx op a sbx line cd =
     (let cd = code_Add (inst_asbx op a sbx) line cd
      in if op = op_code OP_JMP then cd\<lparr>loadNilBarrier := True\<rparr> else cd)"

definition code_List :: "codeStore \<Rightarrow> IRInstruction list" where
  "code_List cd = take (nat (cd_pc cd)) (cd_codes cd)"

definition code_PosList :: "codeStore \<Rightarrow> int list" where
  "code_PosList cd = take (nat (cd_pc cd)) (cd_lines cd)"

definition code_LastPC :: "codeStore \<Rightarrow> int" where
  "code_LastPC cd = cd_pc cd - 1"

definition code_Last :: "codeStore \<Rightarrow> IRInstruction" where
  "code_Last cd = (if cd_pc cd = 0 then inst_abc (-1) (-1) (-1) (-1) else cd_codes cd ! nat (cd_pc cd - 1))"

definition code_Pop :: "codeStore \<Rightarrow> codeStore" where
  "code_Pop cd = cd\<lparr>cd_pc := cd_pc cd - 1\<rparr>"

definition code_update :: "int \<Rightarrow> (IRInstruction \<Rightarrow> IRInstruction) \<Rightarrow> codeStore \<Rightarrow> codeStore" where
  "code_update pc f cd = cd\<lparr>cd_codes := (cd_codes cd)[nat pc := f (cd_codes cd ! nat pc)]\<rparr>"

definition code_AddLoadNil :: "int \<Rightarrow> int \<Rightarrow> int \<Rightarrow> codeStore \<Rightarrow> codeStore" where
  "code_AddLoadNil a b line cd =
     (let l = code_Last cd;
          cd = (if \<not> loadNilBarrier cd \<and> ir_Op l = op_code OP_LOADNIL \<and> ir_B l + 1 = a
                then code_update (code_LastPC cd) (\<lambda>i. i\<lparr>ir_B := b\<rparr>) cd
                else code_Add (inst_abc (op_code OP_LOADNIL) a b 0) line cd)
      in cd\<lparr>loadNilBarrier := False\<rparr>)"

text \<open>
  Takes back a move, or with constants a load, into a temporary register: its source is used
  directly. The results are the operand, the next free register and the code.
\<close>

definition PropagateKMV :: "int \<Rightarrow> int \<Rightarrow> int \<Rightarrow> codeStore \<Rightarrow> int \<times> int \<times> codeStore" where
  "PropagateKMV tp reg inc cd =
     (let l = code_Last cd
      in if ir_A l \<ge> tp \<and> ir_Op l = op_code OP_LOADK \<and> ir_Bx l \<le> opMaxIndexRk then (opRkAsk (ir_Bx l), reg, code_Pop cd)
         else if ir_A l \<ge> tp \<and> ir_Op l = op_code OP_MOVE then (ir_B l, reg, code_Pop cd)
         else (reg, reg + inc, cd))"

definition PropagateMV :: "int \<Rightarrow> int \<Rightarrow> int \<Rightarrow> codeStore \<Rightarrow> int \<times> int \<times> codeStore" where
  "PropagateMV tp reg inc cd =
     (let l = code_Last cd
      in if ir_A l \<ge> tp \<and> ir_Op l = op_code OP_MOVE then (ir_B l, reg, code_Pop cd) else (reg, reg + inc, cd))"

section \<open>Names of variables\<close>

record varNamePool =
  vp_names :: "string list"
  vp_attrs :: "LocalAttr list"
  vp_offset :: int

definition newVarNamePool :: "int \<Rightarrow> varNamePool" where
  "newVarNamePool offset = \<lparr>vp_names = [], vp_attrs = [], vp_offset = offset\<rparr>"

definition vp_List :: "varNamePool \<Rightarrow> (int \<times> string \<times> LocalAttr) list" where
  "vp_List vp = map (\<lambda>i. (int i + vp_offset vp, vp_names vp ! i, vp_attrs vp ! i)) [0..<length (vp_names vp)]"

definition vp_LastIndex :: "varNamePool \<Rightarrow> int" where
  "vp_LastIndex vp = vp_offset vp + int (length (vp_names vp))"

definition vp_Find :: "string \<Rightarrow> varNamePool \<Rightarrow> int" where
  "vp_Find name vp =
     (case List.find (\<lambda>i. vp_names vp ! i = name) (rev [0..<length (vp_names vp)]) of
        Some i \<Rightarrow> int i + vp_offset vp | None \<Rightarrow> -1)"

definition vp_Register :: "string \<Rightarrow> LocalAttr \<Rightarrow> varNamePool \<Rightarrow> int \<times> varNamePool" where
  "vp_Register name attr vp =
     (int (length (vp_names vp)) + vp_offset vp, vp\<lparr>vp_names := vp_names vp @ [name], vp_attrs := vp_attrs vp @ [attr]\<rparr>)"

definition vp_RegisterUnique :: "string \<Rightarrow> varNamePool \<Rightarrow> int \<times> varNamePool" where
  "vp_RegisterUnique name vp =
     (let i = vp_Find name vp in if i < 0 then vp_Register name LocalAttrNone vp else (i, vp))"

definition vp_Attr :: "int \<Rightarrow> varNamePool \<Rightarrow> LocalAttr" where
  "vp_Attr index vp =
     (let i = index - vp_offset vp
      in if i < 0 \<or> i \<ge> int (length (vp_attrs vp)) then LocalAttrNone else vp_attrs vp ! nat i)"

section \<open>Blocks and functions\<close>

record gotoLabelDesc =
  gl_Id :: int
  gl_Name :: string
  gl_Pc :: int
  gl_Line :: int
  NumActiveLocalVars :: int

record codeBlock =
  LocalVars :: varNamePool
  BreakLabel :: int
  RefUpvalue :: bool
  LineStart :: int
  LastLine :: int
  cb_labels :: "string \<Rightarrow> gotoLabelDesc option"
  firstGotoIndex :: int

definition newCodeBlock :: "varNamePool \<Rightarrow> int \<Rightarrow> pos \<Rightarrow> int \<Rightarrow> codeBlock" where
  "newCodeBlock localvars blabel pos firstGoto =
     \<lparr>LocalVars = localvars, BreakLabel = blabel, RefUpvalue = False, LineStart = fst pos, LastLine = snd pos,
      cb_labels = (\<lambda>_. None), firstGotoIndex = firstGoto\<rparr>"

definition LocalVarsCount :: "codeBlock list \<Rightarrow> int" where
  "LocalVarsCount chain = (\<Sum>b \<leftarrow> chain. int (length (vp_names (LocalVars b))))"

definition HasToBeClosed :: "codeBlock \<Rightarrow> bool" where
  "HasToBeClosed b = list_ex (\<lambda>(i, n, a). a = LocalAttrClose) (vp_List (LocalVars b))"

record funcContext =
  fc_Func :: ir_fields
  fc_Functions :: "IRFunction list"
  fc_Code :: codeStore
  fc_Outer :: "varNamePool list list"
  fc_Upvalues :: varNamePool
  fc_Block :: "codeBlock list"
  fc_regTop :: int
  labelId :: int
  labelPc :: "int \<Rightarrow> int"
  gotosCount :: int
  unresolvedGotos :: "int \<Rightarrow> gotoLabelDesc option"

type_synonym 'a cM = "(funcContext, compile_exn, 'a) stM"

definition newFuncContext :: "string \<Rightarrow> varNamePool list list \<Rightarrow> funcContext" where
  "newFuncContext sourcename outer =
     \<lparr>fc_Func = \<lparr>ir_SourceName = sourcename, ir_LineDefined = 0, ir_LastLineDefined = 0, ir_NumUpvalues = 0,
        ir_NumParameters = 0, ir_IsVarArg = 0, ir_NumUsedRegs = 0, ir_Instructions = [], ir_Constants = [],
        ir_DbgSourcePositions = [], ir_DbgLocals = [], ir_DbgCalls = [], ir_DbgUpvalues = []\<rparr>,
      fc_Functions = [], fc_Code = \<lparr>cd_codes = [], cd_lines = [], cd_pc = 0, loadNilBarrier = False\<rparr>,
      fc_Outer = outer, fc_Upvalues = newVarNamePool 0,
      fc_Block = [newCodeBlock (newVarNamePool 0) labelNoJump (0, 0) 0],
      fc_regTop = 0, labelId = 1, labelPc = (\<lambda>_. 0), gotosCount = 0, unresolvedGotos = (\<lambda>_. None)\<rparr>"

definition raiseCompileError :: "int \<Rightarrow> string \<Rightarrow> 'a cM" where
  "raiseCompileError line message = bnd (rd (\<lambda>fc. ir_SourceName (fc_Func fc))) (\<lambda>src. throwM (CError src line message))"

definition cpanic :: "go_panic \<Rightarrow> 'a cM" where
  "cpanic p = throwM (CPanic p)"

definition the_block :: "codeBlock cM" where
  "the_block = bnd (rd fc_Block) (\<lambda>bs. case bs of [] \<Rightarrow> cpanic PNilPointer | b # _ \<Rightarrow> ret b)"

definition parent_block :: "codeBlock cM" where
  "parent_block = bnd (rd fc_Block) (\<lambda>bs. case bs of _ # b # _ \<Rightarrow> ret b | _ \<Rightarrow> cpanic PNilPointer)"

definition set_block :: "(codeBlock \<Rightarrow> codeBlock) \<Rightarrow> unit cM" where
  "set_block f = upd (\<lambda>fc. fc\<lparr>fc_Block := (case fc_Block fc of [] \<Rightarrow> [] | b # bs \<Rightarrow> f b # bs)\<rparr>)"

definition set_func :: "(ir_fields \<Rightarrow> ir_fields) \<Rightarrow> unit cM" where
  "set_func f = upd (\<lambda>fc. fc\<lparr>fc_Func := f (fc_Func fc)\<rparr>)"

definition set_code :: "(codeStore \<Rightarrow> codeStore) \<Rightarrow> unit cM" where
  "set_code f = upd (\<lambda>fc. fc\<lparr>fc_Code := f (fc_Code fc)\<rparr>)"

section \<open>Emitting\<close>

definition AddABC :: "opcode \<Rightarrow> int \<Rightarrow> int \<Rightarrow> int \<Rightarrow> int \<Rightarrow> unit cM" where
  "AddABC op a b c line = set_code (code_Add (inst_abc (op_code op) a b c) line)"

definition AddABx :: "opcode \<Rightarrow> int \<Rightarrow> int \<Rightarrow> int \<Rightarrow> unit cM" where
  "AddABx op a bx line = set_code (code_Add (inst_abx (op_code op) a bx) line)"

definition AddASbx :: "opcode \<Rightarrow> int \<Rightarrow> int \<Rightarrow> int \<Rightarrow> unit cM" where
  "AddASbx op a sbx line = set_code (code_AddASbx (op_code op) a sbx line)"

definition AddRawWord :: "u32 \<Rightarrow> int \<Rightarrow> unit cM" where
  "AddRawWord word line = set_code (code_Add (ir_raw word) line)"

definition AddLoadNil :: "int \<Rightarrow> int \<Rightarrow> int \<Rightarrow> unit cM" where
  "AddLoadNil a b line = set_code (code_AddLoadNil a b line)"

definition LastPC :: "int cM" where
  "LastPC = rd (\<lambda>fc. code_LastPC (fc_Code fc))"

definition code_Last_inst :: "IRInstruction cM" where
  "code_Last_inst = rd (\<lambda>fc. code_Last (fc_Code fc))"

text \<open>An element of the instruction array, also behind the last one.\<close>

definition code_At :: "int \<Rightarrow> IRInstruction cM" where
  "code_At pc = bnd (rd (\<lambda>fc. cd_codes (fc_Code fc))) (\<lambda>cs.
     if 0 \<le> pc \<and> pc < int (length cs) then ret (cs ! nat pc) else cpanic PIndexOutOfRange)"

definition set_inst :: "int \<Rightarrow> (IRInstruction \<Rightarrow> IRInstruction) \<Rightarrow> unit cM" where
  "set_inst pc f = bnd (code_At pc) (\<lambda>_. set_code (code_update pc f))"

section \<open>Labels and gotos\<close>

definition NewLabel :: "int cM" where
  "NewLabel = bnd (rd labelId) (\<lambda>l. and_then (upd (\<lambda>fc. fc\<lparr>labelId := l + 1\<rparr>)) (ret l))"

definition SetLabelPc :: "int \<Rightarrow> int \<Rightarrow> unit cM" where
  "SetLabelPc label pc = upd (\<lambda>fc. fc\<lparr>labelPc := (labelPc fc)(label := pc)\<rparr>)"

text \<open>Sets a label to the last instruction.\<close>

definition label_here :: "int \<Rightarrow> unit cM" where
  "label_here l = bnd LastPC (SetLabelPc l)"

definition quoted :: "string \<Rightarrow> string" where
  "quoted t = [CHR 39] @ t @ [CHR 39]"

definition CheckUnresolvedGoto :: "unit cM" where
  "CheckUnresolvedGoto = bnd the_block (\<lambda>b. bnd (rd (\<lambda>fc. fc)) (\<lambda>fc.
     forM [firstGotoIndex b..gotosCount fc - 1] (\<lambda>i.
       case unresolvedGotos fc i of
         None \<Rightarrow> ret ()
       | Some g \<Rightarrow> raiseCompileError (ir_LastLineDefined (fc_Func fc))
           (''no visible label '' @ quoted (gl_Name g) @ '' for <goto> at line '' @ itoa (gl_Line g)))))"

definition AddUnresolvedGoto :: "gotoLabelDesc \<Rightarrow> unit cM" where
  "AddUnresolvedGoto label = upd (\<lambda>fc. fc\<lparr>unresolvedGotos := (unresolvedGotos fc)(gotosCount fc \<mapsto> label),
     gotosCount := gotosCount fc + 1\<rparr>)"

definition AddNamedLabel :: "gotoLabelDesc \<Rightarrow> unit cM" where
  "AddNamedLabel label = bnd the_block (\<lambda>b.
     case cb_labels b (gl_Name label) of
       Some old \<Rightarrow> raiseCompileError (gl_Line label + 1)
         (''label '' @ quoted (gl_Name label) @ '' already defined on line '' @ itoa (gl_Line old))
     | None \<Rightarrow> and_then (set_block (\<lambda>b. b\<lparr>cb_labels := (cb_labels b)(gl_Name label \<mapsto> label)\<rparr>))
         (SetLabelPc (gl_Id label) (gl_Pc label)))"

definition ResolveGoto :: "gotoLabelDesc \<Rightarrow> gotoLabelDesc \<Rightarrow> int \<Rightarrow> unit cM" where
  "ResolveGoto from_goto to_label index =
     and_then (whenM (NumActiveLocalVars from_goto < NumActiveLocalVars to_label)
       (bnd the_block (\<lambda>b.
          let names = vp_names (LocalVars b)
          in if names = [] then cpanic PIndexOutOfRange
             else raiseCompileError (gl_Line to_label + 1)
               (''<goto '' @ gl_Name to_label @ ''> at line '' @ itoa (gl_Line from_goto) @
                '' jumps into the scope of local '' @ quoted (last names)))))
     (and_then (set_inst (gl_Pc from_goto) (\<lambda>i. i\<lparr>ir_Sbx := gl_Id to_label\<rparr>))
       (upd (\<lambda>fc. fc\<lparr>unresolvedGotos := (unresolvedGotos fc)(index := None)\<rparr>)))"

definition FindLabel :: "codeBlock \<Rightarrow> gotoLabelDesc \<Rightarrow> int \<Rightarrow> unit cM" where
  "FindLabel block gotoLabel i =
     (case cb_labels block (gl_Name gotoLabel) of
        None \<Rightarrow> ret ()
      | Some target \<Rightarrow>
          and_then (whenM (NumActiveLocalVars gotoLabel > NumActiveLocalVars target \<and> (RefUpvalue block \<or> HasToBeClosed block))
            (set_inst (gl_Pc gotoLabel - 1) (\<lambda>ins. ins\<lparr>ir_A := NumActiveLocalVars target\<rparr>)))
          (ResolveGoto gotoLabel target i))"

text \<open>The gotos left open in a block that ends now leave its variables behind.\<close>

definition resolve_with_parent :: "codeBlock \<Rightarrow> codeBlock \<Rightarrow> int \<Rightarrow> int \<Rightarrow> unit cM" where
  "resolve_with_parent b parent active i = bnd (rd (\<lambda>fc. unresolvedGotos fc i)) (\<lambda>g.
     case g of
       None \<Rightarrow> ret ()
     | Some g \<Rightarrow>
         if NumActiveLocalVars g > active
         then and_then (whenM (RefUpvalue b \<or> HasToBeClosed b) (set_inst (gl_Pc g - 1) (\<lambda>ins. ins\<lparr>ir_A := active\<rparr>)))
           (let g = g\<lparr>NumActiveLocalVars := active\<rparr>
            in and_then (upd (\<lambda>fc. fc\<lparr>unresolvedGotos := (unresolvedGotos fc)(i \<mapsto> g)\<rparr>)) (FindLabel parent g i))
         else FindLabel parent g i)"

definition ResolveCurrentBlockGotosWithParentBlock :: "unit cM" where
  "ResolveCurrentBlockGotosWithParentBlock = bnd the_block (\<lambda>b. bnd parent_block (\<lambda>parent. bnd (rd (\<lambda>fc. fc)) (\<lambda>fc.
     forM [firstGotoIndex b..gotosCount fc - 1] (resolve_with_parent b parent (LocalVarsCount (tl (fc_Block fc)))))))"

definition ResolveForwardGoto :: "gotoLabelDesc \<Rightarrow> unit cM" where
  "ResolveForwardGoto target = bnd the_block (\<lambda>b. bnd (rd gotosCount) (\<lambda>n.
     forM [firstGotoIndex b..n] (\<lambda>i. bnd (rd (\<lambda>fc. unresolvedGotos fc i)) (\<lambda>g.
       case g of
         None \<Rightarrow> ret ()
       | Some g \<Rightarrow> whenM (gl_Name g = gl_Name target) (ResolveGoto g target i)))))"

section \<open>Constants, variables and scopes\<close>

text \<open>The first equal constant, or a new one at the end.\<close>

definition ConstIndex :: "LValue \<Rightarrow> int cM" where
  "ConstIndex v = bnd (rd (\<lambda>fc. ir_Constants (fc_Func fc))) (\<lambda>cs.
     case List.find (\<lambda>i. cs ! i = v) [0..<length cs] of
       Some i \<Rightarrow> ret (int i)
     | None \<Rightarrow>
         and_then (set_func (\<lambda>f. f\<lparr>ir_Constants := cs @ [v]\<rparr>))
           (if int (length cs) > opMaxArgBx
            then bnd (rd (\<lambda>fc. ir_LineDefined (fc_Func fc))) (\<lambda>l. raiseCompileError l ''too many constants'')
            else ret (int (length cs))))"

definition RegTop :: "int cM" where
  "RegTop = rd fc_regTop"

definition SetRegTop :: "int \<Rightarrow> unit cM" where
  "SetRegTop tp =
     and_then (whenM (tp > maxRegisters)
       (bnd (rd (\<lambda>fc. ir_LineDefined (fc_Func fc))) (\<lambda>l. raiseCompileError l ''too many local variables'')))
     (upd (\<lambda>fc. fc\<lparr>fc_regTop := tp\<rparr>))"

fun attr_code :: "LocalAttr \<Rightarrow> u8" where
  "attr_code LocalAttrNone = 0"
| "attr_code LocalAttrConst = 1"
| "attr_code LocalAttrClose = 2"

definition RegisterLocalVarWithAttr :: "string \<Rightarrow> LocalAttr \<Rightarrow> int cM" where
  "RegisterLocalVarWithAttr name attr = bnd the_block (\<lambda>b.
     let (r, vp) = vp_Register name attr (LocalVars b)
     in and_then (set_block (\<lambda>b. b\<lparr>LocalVars := vp\<rparr>))
       (bnd LastPC (\<lambda>pc.
        and_then (set_func (\<lambda>f. f\<lparr>ir_DbgLocals := ir_DbgLocals f @
            [Some \<lparr>li_Name = name, li_Reg = r, li_Attr = attr_code attr, li_StartPc = pc + 1, li_EndPc = 0\<rparr>]\<rparr>))
        (bnd RegTop (\<lambda>tp. and_then (SetRegTop (tp + 1)) (ret r))))))"

definition RegisterLocalVar :: "string \<Rightarrow> int cM" where
  "RegisterLocalVar name = RegisterLocalVarWithAttr name LocalAttrNone"

text \<open>The register of a local variable and the number of its block in the chain.\<close>

fun find_in_chain :: "string \<Rightarrow> codeBlock list \<Rightarrow> (int \<times> nat) option" where
  "find_in_chain name [] = None"
| "find_in_chain name (b # bs) =
     (let i = vp_Find name (LocalVars b)
      in if i > -1 then Some (i, 0) else map_option (\<lambda>(i, k). (i, Suc k)) (find_in_chain name bs))"

definition FindLocalVarAndBlock :: "string \<Rightarrow> (int \<times> nat) option cM" where
  "FindLocalVarAndBlock name = rd (\<lambda>fc. find_in_chain name (fc_Block fc))"

definition FindLocalVar :: "string \<Rightarrow> int cM" where
  "FindLocalVar name = bnd (FindLocalVarAndBlock name) (\<lambda>r. ret (case r of None \<Rightarrow> -1 | Some (i, _) \<Rightarrow> i))"

definition RegisterUpvalue :: "string \<Rightarrow> int cM" where
  "RegisterUpvalue name = bnd (rd fc_Upvalues) (\<lambda>vp.
     let (i, vp) = vp_RegisterUnique name vp in and_then (upd (\<lambda>fc. fc\<lparr>fc_Upvalues := vp\<rparr>)) (ret i))"

definition EnterBlock :: "int \<Rightarrow> pos \<Rightarrow> unit cM" where
  "EnterBlock blabel pos = upd (\<lambda>fc. fc\<lparr>fc_Block :=
     newCodeBlock (newVarNamePool (fc_regTop fc)) blabel pos (gotosCount fc) # fc_Block fc\<rparr>)"

definition CloseUpvalues :: "int cM" where
  "CloseUpvalues = bnd the_block (\<lambda>b.
     if RefUpvalue b \<or> HasToBeClosed b
     then bnd parent_block (\<lambda>p. let n = vp_LastIndex (LocalVars p) in and_then (AddABC OP_CLOSE n 0 0 (LastLine b)) (ret n))
     else ret (-1))"

text \<open>The last open entry of a variable's register ends here.\<close>

definition end_local :: "int \<Rightarrow> int \<Rightarrow> DbgLocalInfo option list \<Rightarrow> DbgLocalInfo option list" where
  "end_local pc r locals =
     (case List.find (\<lambda>i. case locals ! i of Some li \<Rightarrow> li_Reg li = r \<and> li_EndPc li = 0 | None \<Rightarrow> False)
             (rev [0..<length locals]) of
        None \<Rightarrow> locals
      | Some i \<Rightarrow> locals[i := map_option (\<lambda>li. li\<lparr>li_EndPc := pc\<rparr>) (locals ! i)])"

definition EndScope :: "unit cM" where
  "EndScope = bnd the_block (\<lambda>b. bnd LastPC (\<lambda>pc.
     forM (vp_List (LocalVars b)) (\<lambda>(r, n, a). set_func (\<lambda>f. f\<lparr>ir_DbgLocals := end_local pc r (ir_DbgLocals f)\<rparr>))))"

definition LeaveBlock :: "int cM" where
  "LeaveBlock = bnd CloseUpvalues (\<lambda>closed.
     and_then EndScope
     (bnd (rd (\<lambda>fc. tl (fc_Block fc) \<noteq> [])) (\<lambda>nested.
      and_then (whenM nested ResolveCurrentBlockGotosWithParentBlock)
      (and_then (upd (\<lambda>fc. fc\<lparr>fc_Block := tl (fc_Block fc)\<rparr>))
      (bnd the_block (\<lambda>b. and_then (SetRegTop (vp_LastIndex (LocalVars b))) (ret closed)))))))"

end
