(* ===== verification/Compiler.thy ===== *)
theory Compiler
  imports CompilerState
begin

text \<open>
  The compiler from the abstract syntax to the intermediate representation (\<^verbatim>\<open>compile.go\<close>).
  One definition per Go function; those that compile subterms get the expression compiler \<open>E\<close>
  and the statement compiler \<open>S\<close> as arguments, and \<open>compileExpr\<close> and \<open>compileStmt\<close> tie the
  knot with fuel, the depth of the nesting. A pointer to a register that a function moves on is
  an argument and a part of the result.
\<close>

section \<open>Expression contexts\<close>

datatype expContextType = ecGlobal | ecUpvalue | ecLocal | ecTable | ecVararg | ecMethod | ecNone

record expcontext =
  ec_type :: expContextType
  ec_reg :: int
  varargopt :: int

record assigncontext =
  ac_ec :: expcontext
  keyrk :: int
  valuerk :: int
  keyks :: bool
  needmove :: bool

definition ec_of :: "expContextType \<Rightarrow> int \<Rightarrow> int \<Rightarrow> expcontext" where
  "ec_of t r v = \<lparr>ec_type = t, ec_reg = r, varargopt = v\<rparr>"

definition ecnone :: "int \<Rightarrow> expcontext" where
  "ecnone v = ec_of ecNone regNotDefined v"

definition ecfuncdef :: expcontext where
  "ecfuncdef = ec_of ecMethod regNotDefined 0"

definition shouldmove :: "expcontext \<Rightarrow> int \<Rightarrow> bool" where
  "shouldmove ec r \<longleftrightarrow> ec_type ec = ecLocal \<and> ec_reg ec \<noteq> regNotDefined \<and> ec_reg ec \<noteq> r"

definition savereg :: "expcontext \<Rightarrow> int \<Rightarrow> int" where
  "savereg ec r = (if ec_type ec \<noteq> ecLocal \<or> ec_reg ec = regNotDefined then r else ec_reg ec)"

section \<open>Positions and constants\<close>

fun expr_pos :: "expr \<Rightarrow> pos" where
  "expr_pos (TrueExpr p) = p" | "expr_pos (FalseExpr p) = p" | "expr_pos (NilExpr p) = p"
| "expr_pos (NumberExpr p _) = p" | "expr_pos (StringExpr p _) = p" | "expr_pos (ConstLValueExpr p _) = p"
| "expr_pos (Comma3Expr p _) = p" | "expr_pos (IdentExpr p _) = p" | "expr_pos (AttrGetExpr p _ _) = p"
| "expr_pos (TableExpr p _) = p" | "expr_pos (FuncCallExpr p _ _ _ _ _) = p" | "expr_pos (LogicalOpExpr p _ _ _) = p"
| "expr_pos (RelationalOpExpr p _ _ _) = p" | "expr_pos (StringConcatOpExpr p _ _) = p"
| "expr_pos (ArithmeticOpExpr p _ _ _) = p" | "expr_pos (UnaryMinusOpExpr p _) = p"
| "expr_pos (UnaryNotOpExpr p _) = p" | "expr_pos (UnaryLenOpExpr p _) = p"
| "expr_pos (UnaryBitNotOpExpr p _) = p" | "expr_pos (FunctionExpr p _ _) = p"

fun stmt_pos :: "stmt \<Rightarrow> pos" where
  "stmt_pos (AssignStmt p _ _) = p" | "stmt_pos (LocalAssignStmt p _ _ _) = p" | "stmt_pos (FuncCallStmt p _) = p"
| "stmt_pos (DoBlockStmt p _) = p" | "stmt_pos (WhileStmt p _ _) = p" | "stmt_pos (RepeatStmt p _ _) = p"
| "stmt_pos (IfStmt p _ _ _) = p" | "stmt_pos (NumberForStmt p _ _ _ _ _) = p" | "stmt_pos (GenericForStmt p _ _ _) = p"
| "stmt_pos (FuncDefStmt p _ _ _ _) = p" | "stmt_pos (ReturnStmt p _) = p" | "stmt_pos (BreakStmt p) = p"
| "stmt_pos (LabelStmt p _) = p" | "stmt_pos (GotoStmt p _) = p"

definition sline :: "pos \<Rightarrow> int" where
  "sline p = fst p"

definition eline :: "pos \<Rightarrow> int" where
  "eline p = (if snd p = 0 then fst p else snd p)"

abbreviation eln :: "expr \<Rightarrow> int" where "eln e \<equiv> sline (expr_pos e)"

definition is_label :: "stmt \<Rightarrow> bool" where
  "is_label st \<longleftrightarrow> (case st of LabelStmt _ _ \<Rightarrow> True | _ \<Rightarrow> False)"

definition is_string :: "expr \<Rightarrow> bool" where
  "is_string e \<longleftrightarrow> (case e of StringExpr _ _ \<Rightarrow> True | _ \<Rightarrow> False)"

definition is_logical :: "expr \<Rightarrow> bool" where
  "is_logical e \<longleftrightarrow> (case e of LogicalOpExpr _ _ _ _ \<Rightarrow> True | _ \<Rightarrow> False)"

definition isVarArgReturnExpr :: "expr \<Rightarrow> bool" where
  "isVarArgReturnExpr e =
     (case e of FuncCallExpr _ _ _ _ _ adjust \<Rightarrow> \<not> adjust | Comma3Expr _ adjust \<Rightarrow> \<not> adjust | _ \<Rightarrow> False)"

definition lnumberValue :: "expr \<Rightarrow> LUint256 option" where
  "lnumberValue e =
     (case e of
        NumberExpr _ t \<Rightarrow> (case parseNumber t of Inr n \<Rightarrow> Some n | Inl _ \<Rightarrow> None)
      | ConstLValueExpr _ n \<Rightarrow> Some n
      | _ \<Rightarrow> None)"

text \<open>The operator of two constants; \<open>None\<close> is a division by zero, which is left to the run time.\<close>

definition fold_binop :: "string \<Rightarrow> LUint256 \<Rightarrow> LUint256 \<Rightarrow> go_panic + LUint256 option" where
  "fold_binop operator l r =
     (if operator = ''+'' then Inr (Some (lu256Add l r))
      else if operator = ''-'' then Inr (Some (lu256Sub l r))
      else if operator = ''*'' then Inr (Some (lu256Mul l r))
      else if operator = ''/'' then (if lu256IsZero r then Inr None else bindr (lu256Div l r) (\<lambda>x. Inr (Some x)))
      else if operator = ''%'' then (if lu256IsZero r then Inr None else bindr (lu256Mod l r) (\<lambda>x. Inr (Some x)))
      else if operator = ''//'' then (if lu256IsZero r then Inr None else bindr (lu256FloorDiv l r) (\<lambda>x. Inr (Some x)))
      else if operator = ''^'' then Inr (Some (lu256Pow l r))
      else if operator = ''&'' then Inr (Some (lu256Band l r))
      else if operator = ''|'' then Inr (Some (lu256Bor l r))
      else if operator = ''~'' then Inr (Some (lu256Bxor l r))
      else if operator = ''<<'' then Inr (Some (lu256Shl l (lu256ShiftAmount r)))
      else if operator = ''>>'' then Inr (Some (lu256Shr l (lu256ShiftAmount r)))
      else Inl (PMessage (''unknown binop: '' @ operator)))"

text \<open>
  Folding replaces the operand of a unary operator in place, also where its result is not used:
  the two results are the folded expression and what became of the argument.
\<close>

fun constFold :: "expr \<Rightarrow> go_panic + expr \<times> expr" where
  "constFold (ArithmeticOpExpr p operator lhs rhs) =
     bindr (constFold lhs) (\<lambda>(fl, lhs). bindr (constFold rhs) (\<lambda>(fr, rhs).
       let e = ArithmeticOpExpr p operator lhs rhs
       in case (lnumberValue fl, lnumberValue fr) of
            (Some l, Some r) \<Rightarrow>
              bindr (fold_binop operator l r) (\<lambda>v.
                case v of None \<Rightarrow> Inr (e, e) | Some n \<Rightarrow> Inr (ConstLValueExpr (0, 0) n, e))
          | _ \<Rightarrow> Inr (e, e)))"
| "constFold (UnaryMinusOpExpr p e) =
     bindr (constFold e) (\<lambda>(f, _). Inr (UnaryMinusOpExpr p f, UnaryMinusOpExpr p f))"
| "constFold (UnaryBitNotOpExpr p e) =
     bindr (constFold e) (\<lambda>(f, _).
       let u = UnaryBitNotOpExpr p f
       in case lnumberValue f of Some v \<Rightarrow> Inr (ConstLValueExpr (0, 0) (lu256Bnot v), u) | None \<Rightarrow> Inr (u, u))"
| "constFold e = Inr (e, e)"

definition c_or_panic :: "go_panic + 'a \<Rightarrow> 'a cM" where
  "c_or_panic r = (case r of Inl p \<Rightarrow> cpanic p | Inr x \<Rightarrow> ret x)"

section \<open>Operands\<close>

type_synonym exprC = "int \<Rightarrow> expr \<Rightarrow> expcontext \<Rightarrow> int cM"
type_synonym stmtC = "stmt \<Rightarrow> bool \<Rightarrow> unit cM"

text \<open>The results are the operand and the next free register.\<close>

definition compileExprWithPropagation ::
  "(int \<Rightarrow> int \<Rightarrow> int \<Rightarrow> codeStore \<Rightarrow> int \<times> int \<times> codeStore) \<Rightarrow> exprC \<Rightarrow> expr \<Rightarrow> int \<Rightarrow> (int \<times> int) cM" where
  "compileExprWithPropagation propagator E e r = bnd (E r e (ecnone 0)) (\<lambda>inc.
     if is_logical e then ret (r, r + inc)
     else bnd (rd (\<lambda>fc. propagator (fc_regTop fc) r inc (fc_Code fc))) (\<lambda>(save, r, cd).
          and_then (upd (\<lambda>fc. fc\<lparr>fc_Code := cd\<rparr>)) (ret (save, r))))"

definition compileExprWithKMVPropagation :: "exprC \<Rightarrow> expr \<Rightarrow> int \<Rightarrow> (int \<times> int) cM" where
  "compileExprWithKMVPropagation = compileExprWithPropagation PropagateKMV"

definition compileExprWithMVPropagation :: "exprC \<Rightarrow> expr \<Rightarrow> int \<Rightarrow> (int \<times> int) cM" where
  "compileExprWithMVPropagation = compileExprWithPropagation PropagateMV"

definition loadRk :: "int \<Rightarrow> int \<Rightarrow> LValue \<Rightarrow> (int \<times> int) cM" where
  "loadRk line r cnst = bnd (ConstIndex cnst) (\<lambda>cindex.
     if cindex \<le> opMaxIndexRk then ret (opRkAsk cindex, r)
     else and_then (AddABx OP_LOADK r cindex line) (ret (r, r + 1)))"

fun outer_has :: "string \<Rightarrow> varNamePool list list \<Rightarrow> bool" where
  "outer_has name [] = False"
| "outer_has name (f # fs) = (list_ex (\<lambda>vp. vp_Find name vp > -1) f \<or> outer_has name fs)"

definition getIdentRefType :: "string \<Rightarrow> expContextType cM" where
  "getIdentRefType name = bnd (FindLocalVar name) (\<lambda>i. bnd (rd fc_Outer) (\<lambda>outer.
     ret (if i > -1 then ecLocal else if outer_has name outer then ecUpvalue else ecGlobal)))"

definition getExprName :: "expr \<Rightarrow> string" where
  "getExprName e =
     (case e of
        IdentExpr _ v \<Rightarrow> v
      | AttrGetExpr _ _ k \<Rightarrow> (case k of StringExpr _ t \<Rightarrow> t | _ \<Rightarrow> ''?'')
      | _ \<Rightarrow> ''?'')"

section \<open>Operators\<close>

definition arith_opcode :: "string \<Rightarrow> opcode" where
  "arith_opcode operator =
     (if operator = ''+'' then OP_ADD else if operator = ''-'' then OP_SUB else if operator = ''*'' then OP_MUL
      else if operator = ''/'' then OP_DIV else if operator = ''//'' then OP_IDIV else if operator = ''%'' then OP_MOD
      else if operator = ''^'' then OP_POW else if operator = ''&'' then OP_BAND else if operator = ''|'' then OP_BOR
      else if operator = ''~'' then OP_BXOR else if operator = ''<<'' then OP_SHL else if operator = ''>>'' then OP_SHR
      else OP_MOVE)"

definition compileArithmeticOpExpr :: "exprC \<Rightarrow> int \<Rightarrow> expr \<Rightarrow> expcontext \<Rightarrow> unit cM" where
  "compileArithmeticOpExpr E r e ec = bnd (c_or_panic (constFold e)) (\<lambda>(f, _).
     case f of
       ConstLValueExpr p n \<Rightarrow> bnd (E r (ConstLValueExpr (eln e, snd p) n) ec) (\<lambda>_. ret ())
     | ArithmeticOpExpr p operator lhs rhs \<Rightarrow>
         bnd (compileExprWithKMVPropagation E lhs r) (\<lambda>(b, r').
         bnd (compileExprWithKMVPropagation E rhs r') (\<lambda>(c, r'').
           AddABC (arith_opcode operator) (savereg ec r) b c (sline p)))
     | _ \<Rightarrow> cpanic PNilPointer)"

text \<open>The number of operands of a chain of concatenations, which nests to the right.\<close>

fun concat_range :: "expr \<Rightarrow> int" where
  "concat_range (StringConcatOpExpr _ _ rhs) = 1 + concat_range rhs"
| "concat_range _ = 0"

text \<open>The concatenations of the chain behind are taken back; the first instruction is never looked at.\<close>

fun pop_concats :: "nat \<Rightarrow> codeStore \<Rightarrow> codeStore" where
  "pop_concats 0 cd = cd"
| "pop_concats (Suc pc) cd =
     (if ir_Op (cd_codes cd ! Suc pc) = op_code OP_CONCAT then pop_concats pc (code_Pop cd) else cd)"

definition compileStringConcatOpExpr :: "exprC \<Rightarrow> int \<Rightarrow> pos \<Rightarrow> expr \<Rightarrow> expr \<Rightarrow> expcontext \<Rightarrow> unit cM" where
  "compileStringConcatOpExpr E r p lhs rhs ec =
     bnd (E r lhs (ecnone 0)) (\<lambda>i1. bnd (E (r + i1) rhs (ecnone 0)) (\<lambda>i2.
     bnd LastPC (\<lambda>pc.
     and_then (set_code (pop_concats (nat pc)))
       (AddABC OP_CONCAT (savereg ec r) r (r + (1 + concat_range rhs)) (sline p)))))"

definition compile_unary :: "exprC \<Rightarrow> opcode \<Rightarrow> int \<Rightarrow> expr \<Rightarrow> int \<Rightarrow> expcontext \<Rightarrow> unit cM" where
  "compile_unary E op r operand line ec =
     bnd (compileExprWithMVPropagation E operand r) (\<lambda>(b, _). AddABC op (savereg ec r) b 0 line)"

definition compileUnaryOpExpr :: "exprC \<Rightarrow> int \<Rightarrow> expr \<Rightarrow> expcontext \<Rightarrow> unit cM" where
  "compileUnaryOpExpr E r e ec =
     (case e of
        UnaryMinusOpExpr p x \<Rightarrow> bnd (c_or_panic (constFold e)) (\<lambda>(f, _).
          case f of
            ConstLValueExpr q n \<Rightarrow> bnd (E r (ConstLValueExpr (sline p, snd q) n) ec) (\<lambda>_. ret ())
          | UnaryMinusOpExpr _ x \<Rightarrow> compile_unary E OP_UNM r x (sline p) ec
          | _ \<Rightarrow> cpanic PNilPointer)
      | UnaryNotOpExpr p x \<Rightarrow>
          (case x of
             TrueExpr _ \<Rightarrow> AddABC OP_LOADBOOL (savereg ec r) 0 0 (sline p)
           | FalseExpr _ \<Rightarrow> AddABC OP_LOADBOOL (savereg ec r) 1 0 (sline p)
           | NilExpr _ \<Rightarrow> AddABC OP_LOADBOOL (savereg ec r) 1 0 (sline p)
           | _ \<Rightarrow> compile_unary E OP_NOT r x (sline p) ec)
      | UnaryLenOpExpr p x \<Rightarrow> compile_unary E OP_LEN r x (sline p) ec
      | UnaryBitNotOpExpr p x \<Rightarrow> bnd (c_or_panic (constFold e)) (\<lambda>(f, _).
          case f of
            ConstLValueExpr q n \<Rightarrow> bnd (E r (ConstLValueExpr (sline p, snd q) n) ec) (\<lambda>_. ret ())
          | UnaryBitNotOpExpr _ x \<Rightarrow> compile_unary E OP_BNOT r x (sline p) ec
          | _ \<Rightarrow> cpanic PNilPointer)
      | _ \<Rightarrow> cpanic PNilPointer)"

definition compileRelationalOpExprAux :: "exprC \<Rightarrow> int \<Rightarrow> pos \<Rightarrow> string \<Rightarrow> expr \<Rightarrow> expr \<Rightarrow> int \<Rightarrow> int \<Rightarrow> unit cM" where
  "compileRelationalOpExprAux E r p operator lhs rhs flip label =
     bnd (compileExprWithKMVPropagation E lhs r) (\<lambda>(b, r).
     bnd (compileExprWithKMVPropagation E rhs r) (\<lambda>(c, r).
     and_then
       (if operator = ''<'' then AddABC OP_LT flip b c (sline p)
        else if operator = ''>'' then AddABC OP_LT flip c b (sline p)
        else if operator = ''<='' then AddABC OP_LE flip b c (sline p)
        else if operator = ''>='' then AddABC OP_LE flip c b (sline p)
        else if operator = ''=='' then AddABC OP_EQ flip b c (sline p)
        else if operator = ''~='' then AddABC OP_EQ (1 XOR flip) b c (sline p)
        else ret ())
       (AddASbx OP_JMP 0 label (sline p))))"

definition compileRelationalOpExpr :: "exprC \<Rightarrow> int \<Rightarrow> pos \<Rightarrow> string \<Rightarrow> expr \<Rightarrow> expr \<Rightarrow> expcontext \<Rightarrow> unit cM" where
  "compileRelationalOpExpr E r p operator lhs rhs ec = bnd NewLabel (\<lambda>jumplabel.
     and_then (compileRelationalOpExprAux E r p operator lhs rhs 1 jumplabel)
     (and_then (AddABC OP_LOADBOOL (savereg ec r) 0 1 (sline p))
     (and_then (label_here jumplabel)
       (AddABC OP_LOADBOOL (savereg ec r) 1 0 (sline p)))))"

section \<open>Logical operators\<close>

text \<open>
  The labels of a logical expression: load true, load false, and the end. The last argument and
  the result are the flag \<^verbatim>\<open>b\<close>, that one of the two loads is needed.
\<close>

type_synonym lblabels = "int \<times> int \<times> int"

definition logical_leaf :: "exprC \<Rightarrow> expcontext \<Rightarrow> int \<Rightarrow> expr \<Rightarrow> int \<Rightarrow> int \<Rightarrow> int \<Rightarrow> bool \<Rightarrow> unit cM" where
  "logical_leaf E ec lb_e e r thenlabel elselabel hasnextcond =
     (let flip = (if hasnextcond then 1 else 0); jumplabel = (if hasnextcond then thenlabel else elselabel);
          a = r; sreg = savereg ec a;
          isLastAnd = (elselabel = lb_e \<and> thenlabel \<noteq> elselabel); isLastOr = (thenlabel = lb_e \<and> hasnextcond);
          plain =
            (if \<not> hasnextcond \<and> thenlabel = elselabel
             then bnd (E r e (ec_of (ec_type ec) (max a sreg) (varargopt ec))) (\<lambda>_.
                  bnd code_Last_inst (\<lambda>l.
                    if ir_Op l = op_code OP_MOVE \<and> ir_A l = a
                    then bnd LastPC (\<lambda>pc. set_inst pc (\<lambda>i. i\<lparr>ir_A := sreg\<rparr>))
                    else AddABC OP_MOVE sreg a 0 (eln e)))
             else bnd (E r e (ecnone 0)) (\<lambda>_.
                  if \<not> hasnextcond then AddABC OP_TEST a 0 flip (eln e) else AddABC OP_TESTSET sreg a flip (eln e)))
      in and_then
          (case e of
             IdentExpr p name \<Rightarrow> bnd (getIdentRefType name) (\<lambda>t.
               if (isLastAnd \<or> isLastOr) \<and> t = ecLocal
               then bnd (FindLocalVar name) (\<lambda>b. AddABC (if sreg = b then OP_TEST else OP_TESTSET) sreg b flip (eln e))
               else plain)
           | _ \<Rightarrow> plain)
          (AddASbx OP_JMP 0 jumplabel (eln e)))"

fun compileLogicalOpExprAux ::
  "exprC \<Rightarrow> expcontext \<Rightarrow> lblabels \<Rightarrow> expr \<Rightarrow> int \<Rightarrow> int \<Rightarrow> int \<Rightarrow> bool \<Rightarrow> bool \<Rightarrow> bool cM" where
  "compileLogicalOpExprAux E ec lb e r thenlabel elselabel hasnextcond b =
     (let (lb_t, lb_f, lb_e) = lb;
          flip = (if hasnextcond then 1 else 0); jumplabel = (if hasnextcond then thenlabel else elselabel);
          with_value = (\<lambda>label. if label = lb_e then bnd (E r e ec) (\<lambda>_. AddASbx OP_JMP 0 lb_e (eln e))
                                 else AddASbx OP_JMP 0 label (eln e))
      in case e of
           FalseExpr p \<Rightarrow>
             if elselabel = lb_e then and_then (AddASbx OP_JMP 0 lb_f (sline p)) (ret True)
             else and_then (AddASbx OP_JMP 0 elselabel (sline p)) (ret b)
         | NilExpr p \<Rightarrow> and_then (with_value elselabel) (ret b)
         | TrueExpr p \<Rightarrow>
             if thenlabel = lb_e then and_then (AddASbx OP_JMP 0 lb_t (sline p)) (ret True)
             else and_then (AddASbx OP_JMP 0 thenlabel (sline p)) (ret b)
         | NumberExpr p _ \<Rightarrow> and_then (with_value thenlabel) (ret b)
         | StringExpr p _ \<Rightarrow> and_then (with_value thenlabel) (ret b)
         | LogicalOpExpr p operator lhs rhs \<Rightarrow>
             if operator = ''and''
             then bnd NewLabel (\<lambda>nextcond.
                  bnd (compileLogicalOpExprAux E ec lb lhs r nextcond elselabel False b) (\<lambda>b.
                  and_then (label_here nextcond)
                    (compileLogicalOpExprAux E ec lb rhs r thenlabel elselabel hasnextcond b)))
             else if operator = ''or''
             then bnd NewLabel (\<lambda>nextcond.
                  bnd (compileLogicalOpExprAux E ec lb lhs r thenlabel nextcond True b) (\<lambda>b.
                  and_then (label_here nextcond)
                    (compileLogicalOpExprAux E ec lb rhs r thenlabel elselabel hasnextcond b)))
             else ret b
         | RelationalOpExpr p operator lhs rhs \<Rightarrow>
             let (flip, jumplabel, b) =
               (if thenlabel = elselabel then (1 - flip, lb_t, True)
                else if thenlabel = lb_e then (flip, lb_t, True)
                else if elselabel = lb_e then (flip, lb_f, True)
                else (flip, jumplabel, b))
             in and_then (compileRelationalOpExprAux E r p operator lhs rhs flip jumplabel) (ret b)
         | _ \<Rightarrow> and_then (logical_leaf E ec lb_e e r thenlabel elselabel hasnextcond) (ret b))"

definition compileLogicalOpExpr :: "exprC \<Rightarrow> int \<Rightarrow> pos \<Rightarrow> string \<Rightarrow> expr \<Rightarrow> expr \<Rightarrow> expcontext \<Rightarrow> unit cM" where
  "compileLogicalOpExpr E r p operator lhs rhs ec =
     bnd NewLabel (\<lambda>endlabel. bnd NewLabel (\<lambda>lt. bnd NewLabel (\<lambda>lf. bnd NewLabel (\<lambda>nextcond.
       let lb = (lt, lf, endlabel); a = savereg ec r
       in bnd (if operator = ''and''
               then compileLogicalOpExprAux E ec lb lhs r nextcond endlabel False False
               else compileLogicalOpExprAux E ec lb lhs r endlabel nextcond True False) (\<lambda>b.
          and_then (label_here nextcond)
          (bnd (compileLogicalOpExprAux E ec lb rhs r endlabel endlabel False b) (\<lambda>b.
          and_then (whenM b
            (and_then (label_here lf) (and_then (AddABC OP_LOADBOOL a 0 1 (sline p))
            (and_then (label_here lt) (AddABC OP_LOADBOOL a 1 0 (sline p))))))
          (bnd code_Last_inst (\<lambda>l.
           and_then (whenM (ir_Op l = op_code OP_JMP \<and> ir_Sbx l = endlabel) (set_code code_Pop))
             (label_here endlabel))))))))))"

section \<open>Calls, tables, functions\<close>

definition argsReferenceLocalReg :: "expr list \<Rightarrow> int \<Rightarrow> bool cM" where
  "argsReferenceLocalReg args target = bnd (rd (\<lambda>fc. fc_Block fc)) (\<lambda>bs.
     ret (list_ex (\<lambda>a. case a of
            IdentExpr _ name \<Rightarrow> (case find_in_chain name bs of None \<Rightarrow> -1 | Some (i, _) \<Rightarrow> i) = target
          | _ \<Rightarrow> False) args))"

text \<open>The results are the next free register and whether the last argument gives all its values.\<close>

fun compile_args :: "exprC \<Rightarrow> expr list \<Rightarrow> int \<Rightarrow> (int \<times> bool) cM" where
  "compile_args E [] r = ret (r, False)"
| "compile_args E (x # xs) r =
     (if xs = [] \<and> isVarArgReturnExpr x then bnd (E r x (ecnone (-2))) (\<lambda>_. ret (r, True))
      else bnd (E r x (ecnone 0)) (\<lambda>i. compile_args E xs (r + i)))"

text \<open>The callee of \<^verbatim>\<open>hoge:method()\<close>: the function and the receiver go to \<open>funcreg\<close> and behind it.\<close>

definition compile_self :: "exprC \<Rightarrow> int \<Rightarrow> int \<Rightarrow> int \<Rightarrow> expr \<Rightarrow> string \<Rightarrow> int cM" where
  "compile_self E funcreg r line receiver method =
     bnd (compileExprWithMVPropagation E receiver r) (\<lambda>(b, r).
     bnd (loadRk line r (LString method)) (\<lambda>(c, r).
     and_then
       (if opIsK c then AddABC OP_SELF funcreg b c line
        else let selfreg = funcreg + 1; keyreg = (if c = selfreg then r else c)
             in and_then (whenM (c = selfreg) (AddABC OP_MOVE keyreg c 0 line))
               (and_then (whenM (selfreg \<noteq> b) (AddABC OP_MOVE selfreg b 0 line))
                 (AddABC OP_GETTABLE funcreg selfreg keyreg line)))
       (ret (max (b + 1) (funcreg + 2)))))"

definition compileFuncCallExpr ::
  "exprC \<Rightarrow> int \<Rightarrow> pos \<Rightarrow> expr option \<Rightarrow> expr option \<Rightarrow> string \<Rightarrow> expr list \<Rightarrow> expcontext \<Rightarrow> int cM" where
  "compileFuncCallExpr E r p func receiver method args ec =
     bnd (argsReferenceLocalReg args (ec_reg ec)) (\<lambda>clash. bnd (rd (\<lambda>fc. uint (ir_NumParameters (fc_Func fc)))) (\<lambda>np.
       let funcreg = (if ec_type ec = ecLocal \<and> ec_reg ec = np - 1 \<and> \<not> clash then ec_reg ec else r)
       in bnd (case func of
                 Some f \<Rightarrow> bnd (E funcreg f (ecnone 0)) (\<lambda>i. ret (funcreg + i, length args, getExprName f))
               | None \<Rightarrow>
                   (case receiver of
                      None \<Rightarrow> cpanic PNilPointer
                    | Some o_expr \<Rightarrow> bnd (compile_self E funcreg funcreg (sline p) o_expr method) (\<lambda>r.
                        ret (r, length args + 1, method)))) (\<lambda>(r, argc, name).
          bnd (compile_args E args r) (\<lambda>(_, allvalues).
          and_then (AddABC OP_CALL funcreg (if allvalues then 0 else int argc + 1) (varargopt ec + 2) (sline p))
          (bnd LastPC (\<lambda>pc.
          and_then (set_func (\<lambda>f. f\<lparr>ir_DbgCalls := ir_DbgCalls f @ [\<lparr>dc_Name = name, dc_Pc = pc\<rparr>]\<rparr>))
            (if varargopt ec = 0 \<and> shouldmove ec funcreg
             then and_then (AddABC OP_MOVE (ec_reg ec) funcreg 0 (sline p)) (ret 1)
             else bnd RegTop (\<lambda>tp.
               if tp > funcreg + 2 + varargopt ec \<or> varargopt ec < -1 then ret 0 else ret (varargopt ec + 1)))))))))"

fun int2Fb_loop :: "nat \<Rightarrow> int \<Rightarrow> int \<Rightarrow> int \<times> int" where
  "int2Fb_loop 0 e x = (e, x)"
| "int2Fb_loop (Suc n) e x = (if x \<ge> 16 then int2Fb_loop n (e + 1) (drop_bit 1 (x + 1)) else (e, x))"

text \<open>A halving each round: as many rounds as the number says are enough.\<close>

definition int2Fb :: "int \<Rightarrow> int" where
  "int2Fb v = (let (e, x) = int2Fb_loop (nat v) 0 v in if x < 8 then x else push_bit 3 (e + 1) OR (x - 8))"

definition FieldsPerFlush_c :: int where "FieldsPerFlush_c = 50"

definition flush_fields :: "int \<Rightarrow> int \<Rightarrow> bool \<Rightarrow> bool \<Rightarrow> int \<Rightarrow> unit cM" where
  "flush_fields tablereg arraycount islast allvalues line =
     (let flush = arraycount mod FieldsPerFlush_c;
          num = (if flush = 0 then FieldsPerFlush_c else flush);
          c = (arraycount - 1) sdiv FieldsPerFlush_c + 1;
          b = (if islast \<and> allvalues then 0 else num);
          c = (if c > 511 then 0 else c)
      in and_then (AddABC OP_SETLIST tablereg b c line) (whenM (c = 0) (AddRawWord (word_of_int c) line)))"

text \<open>The result is the number of fields without a key.\<close>

fun compile_fields :: "exprC \<Rightarrow> int \<Rightarrow> int \<Rightarrow> int \<Rightarrow> (expr option \<times> expr) list \<Rightarrow> int \<Rightarrow> int \<Rightarrow> bool \<Rightarrow> int cM" where
  "compile_fields E line tablereg regbase [] r arraycount lastvararg = ret arraycount"
| "compile_fields E line tablereg regbase ((key, v) # rest) r arraycount lastvararg =
     bnd (case key of
            None \<Rightarrow>
              if rest = [] \<and> isVarArgReturnExpr v
              then bnd (E r v (ecnone (-2))) (\<lambda>i. ret (r + i, arraycount, True))
              else bnd (E r v (ecnone 0)) (\<lambda>i. ret (r + i, arraycount + 1, lastvararg))
          | Some k \<Rightarrow>
              bnd (compileExprWithKMVPropagation E k r) (\<lambda>(b, r').
              bnd (compileExprWithKMVPropagation E v r') (\<lambda>(c, r'').
              and_then (AddABC (if is_string k \<and> opIsK b then OP_SETTABLEKS else OP_SETTABLE) tablereg b c line)
                (ret (r, arraycount, lastvararg))))) (\<lambda>(r, arraycount, lastvararg).
       if arraycount \<noteq> 0 \<and> (arraycount mod FieldsPerFlush_c = 0 \<or> rest = []) \<or> lastvararg
       then and_then (flush_fields tablereg arraycount (rest = []) (isVarArgReturnExpr v)
              (eln (case key of Some k \<Rightarrow> k | None \<Rightarrow> v)))
            (compile_fields E line tablereg regbase rest regbase arraycount lastvararg)
       else compile_fields E line tablereg regbase rest r arraycount lastvararg)"

definition compileTableExpr :: "exprC \<Rightarrow> int \<Rightarrow> pos \<Rightarrow> (expr option \<times> expr) list \<Rightarrow> expcontext \<Rightarrow> unit cM" where
  "compileTableExpr E r p flds ec =
     and_then (AddABC OP_NEWTABLE r 0 0 (sline p))
     (bnd LastPC (\<lambda>tablepc.
      bnd (compile_fields E (sline p) r (r + 1) flds (r + 1) 0 False) (\<lambda>arraycount.
      and_then (set_inst tablepc (\<lambda>i. i\<lparr>ir_B := int2Fb arraycount\<rparr>))
      (and_then (set_inst tablepc (\<lambda>i. i\<lparr>ir_C := int2Fb (int (length flds) - arraycount)\<rparr>))
        (whenM (shouldmove ec r) (AddABC OP_MOVE (ec_reg ec) r 0 (sline p)))))))"

end
