(* ===== verification/CompStmt.thy ===== *)
theory CompStmt
  imports Compiler
begin

text \<open>
  The compiler, continued: statements, functions, the patching of jumps and moves, and the
  compiler as a whole.
\<close>

section \<open>Chunks and blocks\<close>

text \<open>Only labels may follow the last statement of a chunk.\<close>

fun compile_stmts :: "stmtC \<Rightarrow> bool \<Rightarrow> stmt list \<Rightarrow> unit cM" where
  "compile_stmts S untilFollows [] = ret ()"
| "compile_stmts S untilFollows (st # sts) =
     and_then (S st (list_all is_label sts \<and> \<not> untilFollows)) (compile_stmts S untilFollows sts)"

definition compileChunk :: "stmtC \<Rightarrow> stmt list \<Rightarrow> bool \<Rightarrow> unit cM" where
  "compileChunk S chunk untilFollows = compile_stmts S untilFollows chunk"

definition compileBlock :: "stmtC \<Rightarrow> stmt list \<Rightarrow> unit cM" where
  "compileBlock S chunk =
     (if chunk = [] then ret ()
      else and_then (EnterBlock labelNoJump (sline (stmt_pos (hd chunk)), eline (stmt_pos (last chunk))))
        (and_then (compile_stmts S False chunk) (bnd LeaveBlock (\<lambda>_. ret ()))))"

section \<open>Assignments\<close>

definition is_funcexpr :: "expr \<Rightarrow> bool" where
  "is_funcexpr e \<longleftrightarrow> (case e of FunctionExpr _ _ _ \<Rightarrow> True | _ \<Rightarrow> False)"

definition assign_to :: "expContextType \<Rightarrow> int \<Rightarrow> assigncontext" where
  "assign_to t r = \<lparr>ac_ec = ec_of t r 0, keyrk = 0, valuerk = 0, keyks = False, needmove = False\<rparr>"

definition assign_ident :: "pos \<Rightarrow> string \<Rightarrow> assigncontext cM" where
  "assign_ident p name = bnd (getIdentRefType name) (\<lambda>t.
     case t of
       ecGlobal \<Rightarrow> bnd (ConstIndex (LString name)) (\<lambda>_. ret (assign_to t regNotDefined))
     | ecUpvalue \<Rightarrow> bnd (RegisterUpvalue name) (\<lambda>_. ret (assign_to t regNotDefined))
     | ecLocal \<Rightarrow> bnd (FindLocalVarAndBlock name) (\<lambda>r. bnd (rd fc_Block) (\<lambda>bs.
         case r of
           None \<Rightarrow> cpanic (PMessage ''unreachable: local identifier not found'')
         | Some (i, k) \<Rightarrow>
             if vp_Attr i (LocalVars (bs ! k)) = LocalAttrConst
             then raiseCompileError (sline p) (''attempt to assign to const local '' @ quoted name)
             else ret (assign_to t i)))
     | _ \<Rightarrow> ret (assign_to t regNotDefined))"

fun compileAssignStmtLeft :: "exprC \<Rightarrow> expr list \<Rightarrow> int \<Rightarrow> (int \<times> assigncontext list) cM" where
  "compileAssignStmtLeft E [] r = ret (r, [])"
| "compileAssignStmtLeft E (lhs # rest) r =
     bnd (case lhs of
            IdentExpr p name \<Rightarrow> bnd (assign_ident p name) (\<lambda>ac. ret (r, ac))
          | AttrGetExpr p object key \<Rightarrow>
              bnd (compileExprWithKMVPropagation E object r) (\<lambda>(obj, r').
              bnd (E r' key (ecnone 0)) (\<lambda>inc.
                ret (r' + inc, (assign_to ecTable obj)\<lparr>keyrk := r', keyks := is_string key\<rparr>)))
          | _ \<Rightarrow> cpanic (PMessage ''invalid left expression.'')) (\<lambda>(r, ac).
     bnd (compileAssignStmtLeft E rest r) (\<lambda>(r, acs). ret (r, ac # acs)))"

text \<open>The values of a call or of \<^verbatim>\<open>...\<close> at the end go to all the targets that are left.\<close>

definition assign_rest :: "int \<Rightarrow> int \<Rightarrow> assigncontext list \<Rightarrow> assigncontext list" where
  "assign_rest regstart inc acs =
     map (\<lambda>(i, ac). if i < inc
                     then (if ec_type (ac_ec ac) = ecTable then ac\<lparr>needmove := True, valuerk := regstart + i\<rparr>
                           else ac\<lparr>needmove := True\<rparr>)
                     else ac) (zip [0..int (length acs) - 1] acs)"

definition assign_one :: "exprC \<Rightarrow> bool \<Rightarrow> expr \<Rightarrow> assigncontext \<Rightarrow> int \<Rightarrow> (int \<times> assigncontext) cM" where
  "assign_one E single e ac r =
     (let ec = ac_ec ac
      in bnd (E r e (if \<not> single \<and> ec_type ec = ecLocal then ecnone 0 else ec)) (\<lambda>inc.
           if ec_type ec = ecTable
           then (if is_logical e then ret (r + inc, ac\<lparr>valuerk := r\<rparr>)
                 else bnd (rd (\<lambda>fc. PropagateKMV (fc_regTop fc) r inc (fc_Code fc))) (\<lambda>(save, r', cd).
                      and_then (upd (\<lambda>fc. fc\<lparr>fc_Code := cd\<rparr>)) (ret (r', ac\<lparr>valuerk := save\<rparr>))))
           else ret (r + inc, ac\<lparr>needmove := inc \<noteq> 0\<rparr>)))"

text \<open>The results are the next register, the contexts, and the expressions without a target.\<close>

fun assign_values :: "exprC \<Rightarrow> bool \<Rightarrow> expr list \<Rightarrow> expr list \<Rightarrow> assigncontext list \<Rightarrow> int \<Rightarrow>
    (int \<times> assigncontext list \<times> expr list) cM" where
  "assign_values E single [] rhs acs r = ret (r, acs, rhs)"
| "assign_values E single (x # xs) rhs [] r = cpanic PIndexOutOfRange"
| "assign_values E single (x # xs) [] (ac # acs) r =
     bnd (assign_one E single (NilExpr (eln x, eline (expr_pos x))) ac r) (\<lambda>(r, ac).
     bnd (assign_values E single xs [] acs r) (\<lambda>(r, acs, rest). ret (r, ac # acs, rest)))"
| "assign_values E single (x # xs) (v # vs) (ac # acs) r =
     (if isVarArgReturnExpr v \<and> vs = []
      then bnd (E r v (ecnone (int (length xs)))) (\<lambda>inc. ret (r + inc, assign_rest r inc (ac # acs), []))
      else bnd (assign_one E single v ac r) (\<lambda>(r, ac).
           bnd (assign_values E single xs vs acs r) (\<lambda>(r, acs, rest). ret (r, ac # acs, rest))))"

fun extra_values :: "exprC \<Rightarrow> expr list \<Rightarrow> int \<Rightarrow> unit cM" where
  "extra_values E [] r = ret ()"
| "extra_values E (v # vs) r =
     bnd (E r v (ecnone (if vs = [] then -1 else 0))) (\<lambda>inc. extra_values E vs (r + inc))"

definition compileAssignStmtRight :: "exprC \<Rightarrow> expr list \<Rightarrow> expr list \<Rightarrow> int \<Rightarrow> assigncontext list \<Rightarrow> (int \<times> assigncontext list) cM" where
  "compileAssignStmtRight E lhs rhs r acs =
     bnd (assign_values E (length lhs \<le> 1) lhs rhs acs r) (\<lambda>(r, acs, rest).
     and_then (extra_values E rest r) (ret (r - 1, acs)))"

definition ident_name :: "expr \<Rightarrow> string cM" where
  "ident_name e = (case e of IdentExpr _ v \<Rightarrow> ret v | _ \<Rightarrow> cpanic (PMessage ''interface conversion''))"

text \<open>One target; the result is the register below, when a register was used up.\<close>

definition store_target :: "expr \<Rightarrow> assigncontext \<Rightarrow> int \<Rightarrow> int cM" where
  "store_target ex ac r =
     (case ec_type (ac_ec ac) of
        ecLocal \<Rightarrow>
          if needmove ac
          then bnd (ident_name ex) (\<lambda>v. bnd (FindLocalVar v) (\<lambda>i. and_then (AddABC OP_MOVE i r 0 (eln ex)) (ret (r - 1))))
          else ret r
      | ecGlobal \<Rightarrow> bnd (ident_name ex) (\<lambda>v. bnd (ConstIndex (LString v)) (\<lambda>k. and_then (AddABx OP_SETGLOBAL r k (eln ex)) (ret (r - 1))))
      | ecUpvalue \<Rightarrow> bnd (ident_name ex) (\<lambda>v. bnd (RegisterUpvalue v) (\<lambda>u. and_then (AddABC OP_SETUPVAL r u 0 (eln ex)) (ret (r - 1))))
      | ecTable \<Rightarrow>
          and_then (AddABC (if keyks ac \<and> opIsK (keyrk ac) then OP_SETTABLEKS else OP_SETTABLE)
            (ec_reg (ac_ec ac)) (keyrk ac) (valuerk ac) (eln ex))
            (ret (if opIsK (valuerk ac) then r else r - 1))
      | _ \<Rightarrow> ret r)"

text \<open>From the last target to the first.\<close>

definition compileAssignStmt :: "exprC \<Rightarrow> expr list \<Rightarrow> expr list \<Rightarrow> unit cM" where
  "compileAssignStmt E lhs rhs =
     bnd RegTop (\<lambda>r. bnd (compileAssignStmtLeft E lhs r) (\<lambda>(r, acs).
     bnd (compileAssignStmtRight E lhs rhs r acs) (\<lambda>(r, acs).
     bnd (foldM (\<lambda>(ex, ac) r. store_target ex ac r) (rev (zip lhs acs)) r) (\<lambda>_. ret ()))))"

text \<open>Values for registers that follow each other; \<open>n\<close> is the number of registers left to fill.\<close>

fun reg_values :: "exprC \<Rightarrow> int \<Rightarrow> string list \<Rightarrow> expr list \<Rightarrow> int \<Rightarrow> (int \<times> string list \<times> expr list) cM" where
  "reg_values E n (x # xs) (v # vs) r =
     (if isVarArgReturnExpr v \<and> vs = []
      then bnd (E r v (ec_of ecVararg r (n - 1))) (\<lambda>_. ret (r + n, [], []))
      else bnd (E r v (ec_of ecLocal r 0)) (\<lambda>_. reg_values E (n - 1) xs vs (r + 1)))"
| "reg_values E n names exprs r = ret (r, names, exprs)"

definition compileRegAssignment :: "exprC \<Rightarrow> string list \<Rightarrow> expr list \<Rightarrow> int \<Rightarrow> int \<Rightarrow> int \<Rightarrow> unit cM" where
  "compileRegAssignment E names exprs r nvars line =
     bnd (reg_values E nvars names exprs r) (\<lambda>(r, names, exprs).
     let restleft = int (length names) - 1
     in and_then (whenM (names \<noteq> []) (AddLoadNil r (r + restleft) line))
          (extra_values E exprs (if names \<noteq> [] then r + restleft else r)))"

definition compileLocalAssignStmt :: "exprC \<Rightarrow> pos \<Rightarrow> string list \<Rightarrow> LocalAttr list \<Rightarrow> expr list \<Rightarrow> unit cM" where
  "compileLocalAssignStmt E p names attrs exprs =
     (let attrs = (if length attrs \<noteq> length names then replicate (length names) LocalAttrNone else attrs);
          register = forM (zip names attrs) (\<lambda>(n, a). bnd (RegisterLocalVarWithAttr n a) (\<lambda>_. ret ()));
          values = (\<lambda>r. compileRegAssignment E names exprs r (int (length names)) (sline p))
      in bnd RegTop (\<lambda>r.
           if length names = 1 \<and> length exprs = 1 \<and> is_funcexpr (hd exprs)
           then and_then register (values r) else and_then (values r) register))"

section \<open>Returns, conditions and loops\<close>

definition is_call :: "expr \<Rightarrow> bool" where
  "is_call e \<longleftrightarrow> (case e of FuncCallExpr _ _ _ _ _ _ \<Rightarrow> True | _ \<Rightarrow> False)"

fun return_values :: "exprC \<Rightarrow> expr list \<Rightarrow> int \<Rightarrow> (int \<times> bool) cM" where
  "return_values E [] r = ret (r, False)"
| "return_values E (v # vs) r =
     (if vs = [] \<and> isVarArgReturnExpr v then bnd (E r v (ecnone (-2))) (\<lambda>_. ret (r, True))
      else bnd (E r v (ecnone 0)) (\<lambda>inc. return_values E vs (r + inc)))"

definition return_all :: "exprC \<Rightarrow> expr list \<Rightarrow> int \<Rightarrow> int \<Rightarrow> unit cM" where
  "return_all E exprs a line =
     bnd (return_values E exprs a) (\<lambda>(r, allvalues). AddABC OP_RETURN a (if allvalues then 0 else r - a + 1) 0 line)"

definition compileReturnStmt :: "exprC \<Rightarrow> pos \<Rightarrow> expr list \<Rightarrow> unit cM" where
  "compileReturnStmt E p exprs = bnd RegTop (\<lambda>a.
     case exprs of
       [IdentExpr q v] \<Rightarrow> bnd (FindLocalVar v) (\<lambda>i.
         if i > -1 then AddABC OP_RETURN i 2 0 (sline p) else return_all E exprs a (sline p))
     | [FuncCallExpr q f rc m args adjust] \<Rightarrow>
         and_then
           (if adjust then bnd (E a (FuncCallExpr q f rc m args adjust) (ecnone 0)) (\<lambda>_. ret ())
            else bnd (E a (FuncCallExpr q f rc m args adjust) (ecnone (-2))) (\<lambda>_.
                 bnd LastPC (\<lambda>pc. set_inst pc (\<lambda>i. i\<lparr>ir_Op := op_code OP_TAILCALL\<rparr>))))
           (AddABC OP_RETURN a 0 0 (sline p))
     | _ \<Rightarrow> return_all E exprs a (sline p))"

fun compileBranchCondition :: "exprC \<Rightarrow> int \<Rightarrow> expr \<Rightarrow> int \<Rightarrow> int \<Rightarrow> bool \<Rightarrow> unit cM" where
  "compileBranchCondition E r e thenlabel elselabel hasnextcond =
     (let flip = (if hasnextcond then 1 else 0); jumplabel = (if hasnextcond then thenlabel else elselabel);
          test = bnd (compileExprWithMVPropagation E e r) (\<lambda>(a, _).
                 and_then (AddABC OP_TEST a 0 flip (eln e)) (AddASbx OP_JMP 0 jumplabel (eln e)))
      in case e of
           FalseExpr _ \<Rightarrow> if \<not> hasnextcond then AddASbx OP_JMP 0 elselabel (eln e) else test
         | NilExpr _ \<Rightarrow> if \<not> hasnextcond then AddASbx OP_JMP 0 elselabel (eln e) else test
         | TrueExpr _ \<Rightarrow> if \<not> hasnextcond then ret () else test
         | NumberExpr _ _ \<Rightarrow> if \<not> hasnextcond then ret () else test
         | StringExpr _ _ \<Rightarrow> if \<not> hasnextcond then ret () else test
         | UnaryNotOpExpr _ x \<Rightarrow> compileBranchCondition E r x elselabel thenlabel (\<not> hasnextcond)
         | LogicalOpExpr _ operator lhs rhs \<Rightarrow>
             if operator = ''and''
             then bnd NewLabel (\<lambda>nextcond.
                  and_then (compileBranchCondition E r lhs nextcond elselabel False)
                  (and_then (label_here nextcond)
                    (compileBranchCondition E r rhs thenlabel elselabel hasnextcond)))
             else if operator = ''or''
             then bnd NewLabel (\<lambda>nextcond.
                  and_then (compileBranchCondition E r lhs thenlabel nextcond True)
                  (and_then (label_here nextcond)
                    (compileBranchCondition E r rhs thenlabel elselabel hasnextcond)))
             else ret ()
         | RelationalOpExpr p operator lhs rhs \<Rightarrow> compileRelationalOpExprAux E r p operator lhs rhs flip jumplabel
         | _ \<Rightarrow> test)"

definition compileIfStmt :: "exprC \<Rightarrow> stmtC \<Rightarrow> pos \<Rightarrow> expr \<Rightarrow> stmt list \<Rightarrow> stmt list \<Rightarrow> unit cM" where
  "compileIfStmt E S p cond thn els =
     bnd NewLabel (\<lambda>thenlabel. bnd NewLabel (\<lambda>elselabel. bnd NewLabel (\<lambda>endlabel. bnd RegTop (\<lambda>tp.
     and_then (compileBranchCondition E tp cond thenlabel elselabel False)
     (and_then (label_here thenlabel)
     (and_then (compileBlock S thn)
     (and_then (whenM (els \<noteq> []) (AddASbx OP_JMP 0 endlabel (sline p)))
     (and_then (label_here elselabel)
       (whenM (els \<noteq> []) (and_then (compileBlock S els) (label_here endlabel)))))))))))"

definition compileWhileStmt :: "exprC \<Rightarrow> stmtC \<Rightarrow> pos \<Rightarrow> expr \<Rightarrow> stmt list \<Rightarrow> unit cM" where
  "compileWhileStmt E S p cond body =
     bnd NewLabel (\<lambda>thenlabel. bnd NewLabel (\<lambda>elselabel. bnd NewLabel (\<lambda>condlabel.
     and_then (label_here condlabel)
     (bnd RegTop (\<lambda>tp.
     and_then (compileBranchCondition E tp cond thenlabel elselabel False)
     (and_then (label_here thenlabel)
     (and_then (EnterBlock elselabel p)
     (and_then (compileChunk S body False)
     (bnd CloseUpvalues (\<lambda>_.
     and_then (AddASbx OP_JMP 0 condlabel (eline p))
     (bnd LeaveBlock (\<lambda>_. label_here elselabel))))))))))))"

definition compileRepeatStmt :: "exprC \<Rightarrow> stmtC \<Rightarrow> pos \<Rightarrow> expr \<Rightarrow> stmt list \<Rightarrow> unit cM" where
  "compileRepeatStmt E S p cond body =
     bnd NewLabel (\<lambda>initlabel. bnd NewLabel (\<lambda>thenlabel. bnd NewLabel (\<lambda>elselabel.
     and_then (label_here initlabel)
     (and_then (label_here elselabel)
     (and_then (EnterBlock thenlabel p)
     (and_then (compileChunk S body True)
     (bnd RegTop (\<lambda>tp.
     and_then (compileBranchCondition E tp cond thenlabel elselabel False)
     (and_then (label_here thenlabel)
     (bnd LeaveBlock (\<lambda>n.
     whenM (n > -1)
       (bnd NewLabel (\<lambda>label.
        and_then (AddASbx OP_JMP 0 label (eline p))
        (and_then (label_here elselabel)
        (and_then (AddABC OP_CLOSE n 0 0 (eline p))
        (and_then (AddASbx OP_JMP 0 initlabel (eline p))
          (label_here label)))))))))))))))))"

text \<open>The innermost loop of the function, the parent of its block next to it.\<close>

fun break_target :: "codeBlock list \<Rightarrow> (codeBlock \<times> codeBlock list) option" where
  "break_target [] = None"
| "break_target (b # bs) = (if BreakLabel b \<noteq> labelNoJump then Some (b, bs) else break_target bs)"

definition compileBreakStmt :: "pos \<Rightarrow> unit cM" where
  "compileBreakStmt p = bnd (rd fc_Block) (\<lambda>bs.
     case break_target bs of
       None \<Rightarrow> raiseCompileError (sline p) ''no loop to break''
     | Some (b, parents) \<Rightarrow>
         and_then (whenM (RefUpvalue b \<or> HasToBeClosed b)
           (case parents of
              [] \<Rightarrow> cpanic PNilPointer
            | parent # _ \<Rightarrow> AddABC OP_CLOSE (vp_LastIndex (LocalVars parent)) 0 0 (sline p)))
           (AddASbx OP_JMP 0 (BreakLabel b) (sline p)))"

definition compileFuncDefStmt :: "exprC \<Rightarrow> pos \<Rightarrow> expr option \<Rightarrow> expr option \<Rightarrow> string \<Rightarrow> expr \<Rightarrow> unit cM" where
  "compileFuncDefStmt E p func receiver method fe =
     (case func of
        Some f \<Rightarrow> compileAssignStmt E [f] [fe]
      | None \<Rightarrow>
          (case receiver of
             None \<Rightarrow> cpanic PNilPointer
           | Some rcv \<Rightarrow>
               bnd RegTop (\<lambda>r. bnd (compileExprWithKMVPropagation E rcv r) (\<lambda>(treg, r).
               bnd (loadRk (eln fe) r (LString method)) (\<lambda>(kreg, r).
               bnd (E r fe ecfuncdef) (\<lambda>_. AddABC OP_SETTABLE treg kreg r (eln rcv)))))))"

text \<open>A hidden variable of a numeric loop with its value.\<close>

definition for_variable :: "exprC \<Rightarrow> string \<Rightarrow> expr \<Rightarrow> int cM" where
  "for_variable E name e = bnd RegTop (\<lambda>r. bnd (RegisterLocalVar name) (\<lambda>i.
     bnd (E r e (ec_of ecLocal i 0)) (\<lambda>_. ret i)))"

definition compileNumberForStmt ::
  "exprC \<Rightarrow> stmtC \<Rightarrow> pos \<Rightarrow> string \<Rightarrow> expr \<Rightarrow> expr \<Rightarrow> expr option \<Rightarrow> stmt list \<Rightarrow> unit cM" where
  "compileNumberForStmt E S p name init limit step body =
     bnd NewLabel (\<lambda>endlabel.
     and_then (EnterBlock endlabel p)
     (bnd (for_variable E ''(for index)'' init) (\<lambda>rindex.
     bnd (for_variable E ''(for limit)'' limit) (\<lambda>_.
     bnd (for_variable E ''(for step)'' (case step of None \<Rightarrow> NumberExpr (eln init, 0) ''1'' | Some e \<Rightarrow> e)) (\<lambda>_.
     and_then (AddASbx OP_FORPREP rindex 0 (sline p))
     (bnd (RegisterLocalVar name) (\<lambda>_. bnd LastPC (\<lambda>bodypc.
     and_then (compileChunk S body False)
     (bnd LeaveBlock (\<lambda>_. bnd LastPC (\<lambda>flpc.
     and_then (AddASbx OP_FORLOOP rindex (bodypc - (flpc + 1)) (sline p))
     (and_then (label_here endlabel)
       (set_inst bodypc (\<lambda>i. i\<lparr>ir_Sbx := flpc - bodypc\<rparr>))))))))))))))"

definition compileGenericForStmt :: "exprC \<Rightarrow> stmtC \<Rightarrow> pos \<Rightarrow> string list \<Rightarrow> expr list \<Rightarrow> stmt list \<Rightarrow> unit cM" where
  "compileGenericForStmt E S p names exprs body =
     bnd NewLabel (\<lambda>endlabel. bnd NewLabel (\<lambda>bodylabel. bnd NewLabel (\<lambda>fllabel.
     and_then (EnterBlock endlabel p)
     (bnd (RegisterLocalVar ''(for generator)'') (\<lambda>rgen.
     bnd (RegisterLocalVar ''(for state)'') (\<lambda>_.
     bnd (RegisterLocalVar ''(for control)'') (\<lambda>_. bnd RegTop (\<lambda>tp.
     and_then (compileRegAssignment E names exprs (tp - 3) 3 (sline p))
     (and_then (AddASbx OP_JMP 0 fllabel (sline p))
     (and_then (forM names (\<lambda>n. bnd (RegisterLocalVar n) (\<lambda>_. ret ())))
     (and_then (label_here bodylabel)
     (and_then (compileChunk S body False)
     (bnd LeaveBlock (\<lambda>_.
     and_then (label_here fllabel)
     (and_then (AddABC OP_TFORLOOP rgen 0 (int (length names)) (sline p))
     (and_then (AddASbx OP_JMP 0 bodylabel (sline p))
       (label_here endlabel)))))))))))))))))"

section \<open>Labels and gotos\<close>

text \<open>The descriptor of a last label changes after it was entered in the table of its block.\<close>

definition compileLabelStmt :: "pos \<Rightarrow> string \<Rightarrow> bool \<Rightarrow> unit cM" where
  "compileLabelStmt p name isLastStmt =
     bnd NewLabel (\<lambda>l. bnd LastPC (\<lambda>pc. bnd (rd fc_Block) (\<lambda>bs.
       let label = \<lparr>gl_Id = l, gl_Name = name, gl_Pc = pc, gl_Line = sline p, NumActiveLocalVars = LocalVarsCount bs\<rparr>;
           final = (if isLastStmt then label\<lparr>NumActiveLocalVars := LocalVarsCount (tl bs)\<rparr> else label)
       in and_then (AddNamedLabel label)
          (and_then (set_block (\<lambda>b. b\<lparr>cb_labels := (cb_labels b)(name \<mapsto> final)\<rparr>))
            (ResolveForwardGoto final)))))"

definition compileGotoStmt :: "pos \<Rightarrow> string \<Rightarrow> unit cM" where
  "compileGotoStmt p name =
     and_then (AddABC OP_CLOSE 0 0 0 (sline p))
     (and_then (AddASbx OP_JMP 0 labelNoJump (sline p))
     (bnd LastPC (\<lambda>pc. bnd (rd fc_Block) (\<lambda>bs.
       let label = \<lparr>gl_Id = -1, gl_Name = name, gl_Pc = pc, gl_Line = sline p, NumActiveLocalVars = LocalVarsCount bs\<rparr>
       in and_then (AddUnresolvedGoto label)
          (bnd the_block (\<lambda>b. bnd (rd gotosCount) (\<lambda>n. FindLabel b label (n - 1))))))))"

definition compileStmt_body :: "exprC \<Rightarrow> stmtC \<Rightarrow> stmtC" where
  "compileStmt_body E S st isLastStmt =
     (case st of
        AssignStmt p lhs rhs \<Rightarrow> compileAssignStmt E lhs rhs
      | LocalAssignStmt p names attrs exprs \<Rightarrow> compileLocalAssignStmt E p names attrs exprs
      | FuncCallStmt p e \<Rightarrow> bnd RegTop (\<lambda>tp.
          case e of
            FuncCallExpr q f rc m args adjust \<Rightarrow> bnd (compileFuncCallExpr E tp q f rc m args (ecnone (-1))) (\<lambda>_. ret ())
          | _ \<Rightarrow> cpanic (PMessage ''interface conversion''))
      | DoBlockStmt p body \<Rightarrow>
          and_then (EnterBlock labelNoJump p) (and_then (compileChunk S body False) (bnd LeaveBlock (\<lambda>_. ret ())))
      | WhileStmt p cond body \<Rightarrow> compileWhileStmt E S p cond body
      | RepeatStmt p cond body \<Rightarrow> compileRepeatStmt E S p cond body
      | FuncDefStmt p func receiver method fe \<Rightarrow> compileFuncDefStmt E p func receiver method fe
      | ReturnStmt p exprs \<Rightarrow> compileReturnStmt E p exprs
      | IfStmt p cond thn els \<Rightarrow> compileIfStmt E S p cond thn els
      | BreakStmt p \<Rightarrow> compileBreakStmt p
      | NumberForStmt p name init limit step body \<Rightarrow> compileNumberForStmt E S p name init limit step body
      | GenericForStmt p names exprs body \<Rightarrow> compileGenericForStmt E S p names exprs body
      | LabelStmt p name \<Rightarrow> compileLabelStmt p name isLastStmt
      | GotoStmt p name \<Rightarrow> compileGotoStmt p name)"

section \<open>Patching\<close>

text \<open>Follows at most five jumps; the first argument counts down.\<close>

fun jump_chain :: "nat \<Rightarrow> int \<Rightarrow> IRInstruction \<Rightarrow> int \<Rightarrow> int cM" where
  "jump_chain 0 pc jmp distance = ret distance"
| "jump_chain (Suc n) pc jmp distance =
     (if ir_Op jmp \<noteq> op_code OP_JMP then ret distance
      else bnd (rd labelPc) (\<lambda>lp.
        let d = lp (ir_Sbx jmp) - pc
        in if d > opMaxArgSbx
           then (if distance = 0
                 then bnd (rd (\<lambda>fc. ir_LineDefined (fc_Func fc))) (\<lambda>l. raiseCompileError l ''too long to jump.'')
                 else ret distance)
           else bnd (code_At (pc + d + 1)) (\<lambda>next_jmp. jump_chain n pc next_jmp d)))"

definition patch_jump :: "int \<Rightarrow> IRInstruction \<Rightarrow> unit cM" where
  "patch_jump pc ins = bnd (jump_chain 5 pc ins 0) (\<lambda>distance.
     if distance = 0 then set_inst pc (\<lambda>i. i\<lparr>ir_Op := op_code OP_NOP\<rparr>)
     else set_inst pc (\<lambda>i. i\<lparr>ir_Sbx := distance\<rparr>))"

definition merge_moves :: "int \<Rightarrow> int \<Rightarrow> unit cM" where
  "merge_moves pc moven = whenM (moven > 1)
     (set_inst (pc - moven) (\<lambda>i. i\<lparr>ir_Op := op_code OP_MOVEN, ir_C := min (moven - 1) opMaxArgsC\<rparr>))"

definition closure_upvalues :: "IRFunction list \<Rightarrow> int \<Rightarrow> go_panic + int" where
  "closure_upvalues fs bx =
     (if 0 \<le> bx \<and> bx < int (length fs) then Inr (uint (ir_NumUpvalues (ir_info (fs ! nat bx)))) else Inl PIndexOutOfRange)"

text \<open>Every round moves on: as many rounds as there are instructions are enough.\<close>

fun patch_loop :: "nat \<Rightarrow> int \<Rightarrow> int \<Rightarrow> unit cM" where
  "patch_loop 0 pc moven = ret ()"
| "patch_loop (Suc n) pc moven = bnd (rd (\<lambda>fc. code_List (fc_Code fc))) (\<lambda>code.
     if pc \<ge> int (length code) then ret ()
     else let ins = code ! nat pc
          in if ir_Op ins = op_code OP_CLOSURE
             then bnd (rd fc_Functions) (\<lambda>fs. bnd (c_or_panic (closure_upvalues fs (ir_Bx ins))) (\<lambda>nup.
                  patch_loop n (pc + nup + 1) 0))
             else and_then (whenM (ir_Op ins = op_code OP_JMP) (patch_jump pc ins))
                  (if ir_Op ins = op_code OP_MOVE then patch_loop n (pc + 1) (moven + 1)
                   else and_then (merge_moves pc moven) (patch_loop n (pc + 1) 0)))"

definition rk_reg :: "int \<Rightarrow> int list" where
  "rk_reg x = (if opIsK x then [] else [x])"

definition reg_range :: "int \<Rightarrow> int \<Rightarrow> int list" where
  "reg_range a b = (if b \<ge> a then [b] else [])"

text \<open>
  The registers that \<^verbatim>\<open>maxRegisterUsed\<close> counts at an instruction, given the ones behind it, and
  how many of these it skips.
\<close>

definition counted_regs :: "IRFunction list \<Rightarrow> IRInstruction \<Rightarrow> IRInstruction list \<Rightarrow> go_panic + int list \<times> nat" where
  "counted_regs fs ins rest =
     (let a = ir_A ins; b = ir_B ins; c = ir_C ins
      in case op_at (ir_Op ins) of
           Some OP_MOVE \<Rightarrow> Inr ([a, b], 0)
         | Some OP_MOVEN \<Rightarrow> Inr (a # b # concat (map (\<lambda>x. [ir_A x, ir_B x]) (take (nat c) rest)), nat c)
         | Some OP_LOADNIL \<Rightarrow> Inr (reg_range a b, 0)
         | Some OP_GETTABLE \<Rightarrow> Inr ([a, b] @ rk_reg c, 0)
         | Some OP_GETTABLEKS \<Rightarrow> Inr ([a, b] @ rk_reg c, 0)
         | Some OP_SETTABLE \<Rightarrow> Inr ([a] @ rk_reg b @ rk_reg c, 0)
         | Some OP_SETTABLEKS \<Rightarrow> Inr ([a] @ rk_reg b @ rk_reg c, 0)
         | Some OP_SELF \<Rightarrow> Inr (reg_range a (a + 1) @ [b] @ rk_reg c, 0)
         | Some OP_UNM \<Rightarrow> Inr ([a] @ rk_reg b, 0)
         | Some OP_LEN \<Rightarrow> Inr ([a] @ rk_reg b, 0)
         | Some OP_BNOT \<Rightarrow> Inr ([a] @ rk_reg b, 0)
         | Some OP_NOT \<Rightarrow> Inr ([a, b], 0)
         | Some OP_CONCAT \<Rightarrow> Inr ([a] @ reg_range b c, 0)
         | Some OP_EQ \<Rightarrow> Inr (rk_reg b @ rk_reg c, 0)
         | Some OP_LT \<Rightarrow> Inr (rk_reg b @ rk_reg c, 0)
         | Some OP_LE \<Rightarrow> Inr (rk_reg b @ rk_reg c, 0)
         | Some OP_TESTSET \<Rightarrow> Inr ([a, b], 0)
         | Some OP_CALL \<Rightarrow> Inr ([a] @ (if b > 0 then [a + b - 1] else []) @ (if c > 1 then [a + c - 2] else []), 0)
         | Some OP_TAILCALL \<Rightarrow> Inr ([a] @ (if b > 0 then [a + b - 1] else []), 0)
         | Some OP_RETURN \<Rightarrow> Inr ([a] @ (if b > 1 then [a + b - 2] else []), 0)
         | Some OP_FORLOOP \<Rightarrow> Inr (reg_range a (a + 3), 0)
         | Some OP_FORPREP \<Rightarrow> Inr (reg_range a (a + 2), 0)
         | Some OP_TFORLOOP \<Rightarrow> Inr (reg_range a (a + 3 + c), if rest \<noteq> [] then 1 else 0)
         | Some OP_SETLIST \<Rightarrow> Inr ([a] @ (if b > 0 then [a + b] else []), if c = 0 \<and> rest \<noteq> [] then 1 else 0)
         | Some OP_CLOSURE \<Rightarrow> bindr (closure_upvalues fs (ir_Bx ins)) (\<lambda>nup.
             Inr (a # map ir_B (filter (\<lambda>x. ir_Op x = op_code OP_MOVE) (take (nat nup) rest)), nat nup))
         | Some OP_VARARG \<Rightarrow> Inr ([a] @ (if b > 1 then [a + b - 2] else []), 0)
         | Some OP_JMP \<Rightarrow> Inr ([], 0)
         | Some OP_ADD \<Rightarrow> Inr ([a] @ rk_reg b @ rk_reg c, 0)
         | Some OP_SUB \<Rightarrow> Inr ([a] @ rk_reg b @ rk_reg c, 0)
         | Some OP_MUL \<Rightarrow> Inr ([a] @ rk_reg b @ rk_reg c, 0)
         | Some OP_DIV \<Rightarrow> Inr ([a] @ rk_reg b @ rk_reg c, 0)
         | Some OP_MOD \<Rightarrow> Inr ([a] @ rk_reg b @ rk_reg c, 0)
         | Some OP_POW \<Rightarrow> Inr ([a] @ rk_reg b @ rk_reg c, 0)
         | Some OP_BAND \<Rightarrow> Inr ([a] @ rk_reg b @ rk_reg c, 0)
         | Some OP_BOR \<Rightarrow> Inr ([a] @ rk_reg b @ rk_reg c, 0)
         | Some OP_BXOR \<Rightarrow> Inr ([a] @ rk_reg b @ rk_reg c, 0)
         | Some OP_SHL \<Rightarrow> Inr ([a] @ rk_reg b @ rk_reg c, 0)
         | Some OP_SHR \<Rightarrow> Inr ([a] @ rk_reg b @ rk_reg c, 0)
         | Some OP_IDIV \<Rightarrow> Inr ([a] @ rk_reg b @ rk_reg c, 0)
         | _ \<Rightarrow> Inr ([a], 0))"

fun max_regs :: "IRFunction list \<Rightarrow> nat \<Rightarrow> IRInstruction list \<Rightarrow> int \<Rightarrow> go_panic + int" where
  "max_regs fs skip [] m = Inr m"
| "max_regs fs (Suc skip) (ins # rest) m = max_regs fs skip rest m"
| "max_regs fs 0 (ins # rest) m =
     bindr (counted_regs fs ins rest) (\<lambda>(regs, skip). max_regs fs skip rest (foldl max m regs))"

definition maxRegisterUsed :: "int cM" where
  "maxRegisterUsed = bnd (rd (\<lambda>fc. fc)) (\<lambda>fc.
     c_or_panic (max_regs (fc_Functions fc) 0 (code_List (fc_Code fc)) (max 1 (uint (ir_NumParameters (fc_Func fc))))))"

definition patchCode :: "unit cM" where
  "patchCode =
     bnd (rd (\<lambda>fc. length (code_List (fc_Code fc)))) (\<lambda>n.
     and_then (patch_loop n 0 0)
     (bnd maxRegisterUsed (\<lambda>maxreg.
      and_then (whenM (maxreg + 1 > maxRegisters)
        (bnd (rd (\<lambda>fc. ir_LineDefined (fc_Func fc))) (\<lambda>l. raiseCompileError l ''register overflow(too many local variables)'')))
        (set_func (\<lambda>f. f\<lparr>ir_NumUsedRegs := word_of_int (maxreg + 1)\<rparr>)))))"

section \<open>Functions\<close>

definition compileFunctionExpr :: "stmtC \<Rightarrow> pos \<Rightarrow> ParList \<Rightarrow> stmt list \<Rightarrow> expcontext \<Rightarrow> unit cM" where
  "compileFunctionExpr S p pars body ec =
     and_then (set_func (\<lambda>f. f\<lparr>ir_LineDefined := sline p, ir_LastLineDefined := eline p\<rparr>))
     (and_then (whenM (int (length (ParNames pars)) > maxRegisters) (raiseCompileError (sline p) ''register overflow''))
     (and_then (set_func (\<lambda>f. f\<lparr>ir_NumParameters := word_of_nat (length (ParNames pars))\<rparr>))
     (and_then (whenM (ec_type ec = ecMethod)
       (and_then (set_func (\<lambda>f. f\<lparr>ir_NumParameters := ir_NumParameters f + 1\<rparr>))
         (bnd (RegisterLocalVar ''self'') (\<lambda>_. ret ()))))
     (and_then (forM (ParNames pars) (\<lambda>n. bnd (RegisterLocalVar n) (\<lambda>_. ret ())))
     (and_then (whenM (HasVargs pars)
       (and_then (set_func (\<lambda>f. f\<lparr>ir_IsVarArg := or VarArgHasArg VarArgNeedsArg\<rparr>))
       (bnd (rd fc_Outer) (\<lambda>outer.
        and_then (whenM (outer \<noteq> []) (bnd (RegisterLocalVar ''arg'') (\<lambda>_. ret ())))
          (set_func (\<lambda>f. f\<lparr>ir_IsVarArg := or (ir_IsVarArg f) VarArgIsVarArg\<rparr>))))))
     (and_then (compileChunk S body False)
     (and_then (AddABC OP_RETURN 0 1 0 (eline p))
     (and_then EndScope
     (and_then CheckUnresolvedGoto
     (and_then (upd (\<lambda>fc. fc\<lparr>fc_Func := (fc_Func fc)
         \<lparr>ir_DbgSourcePositions := code_PosList (fc_Code fc), ir_DbgUpvalues := vp_names (fc_Upvalues fc),
          ir_NumUpvalues := word_of_nat (length (vp_names (fc_Upvalues fc)))\<rparr>\<rparr>))
       patchCode))))))))))"

text \<open>The function of a context; \<^verbatim>\<open>Instructions\<close> shares the array that \<^verbatim>\<open>patchCode\<close> changed.\<close>

definition finished :: "funcContext \<Rightarrow> IRFunction" where
  "finished fc = IRFunction ((fc_Func fc)\<lparr>ir_Instructions := code_List (fc_Code fc)\<rparr>) (map Some (fc_Functions fc))"

text \<open>Compiles a nested function in a context of its own; the result has the upvalues it uses.\<close>

definition in_child :: "unit cM \<Rightarrow> (IRFunction \<times> string list) cM" where
  "in_child m = (\<lambda>fc.
     case m (newFuncContext (ir_SourceName (fc_Func fc)) (map LocalVars (fc_Block fc) # fc_Outer fc)) of
       Inl e \<Rightarrow> Inl e
     | Inr (_, child) \<Rightarrow> Inr ((finished child, vp_names (fc_Upvalues child)), fc))"

definition add_function :: "IRFunction \<Rightarrow> int cM" where
  "add_function f = bnd (rd (\<lambda>fc. int (length (fc_Functions fc)))) (\<lambda>n.
     and_then (upd (\<lambda>fc. fc\<lparr>fc_Functions := fc_Functions fc @ [f]\<rparr>)) (ret n))"

definition emit_upvalue :: "int \<Rightarrow> string \<Rightarrow> unit cM" where
  "emit_upvalue line name = bnd (FindLocalVarAndBlock name) (\<lambda>r.
     case r of
       Some (i, k) \<Rightarrow>
         and_then (AddABC OP_MOVE 0 i 0 line)
           (upd (\<lambda>fc. fc\<lparr>fc_Block := (fc_Block fc)[k := (fc_Block fc ! k)\<lparr>RefUpvalue := True\<rparr>]\<rparr>))
     | None \<Rightarrow> bnd (RegisterUpvalue name) (\<lambda>u. AddABC OP_GETUPVAL 0 u 0 line))"

section \<open>Expressions\<close>

definition compile_ident :: "int \<Rightarrow> int \<Rightarrow> string \<Rightarrow> unit cM" where
  "compile_ident sreg line name = bnd (getIdentRefType name) (\<lambda>t.
     case t of
       ecGlobal \<Rightarrow> bnd (ConstIndex (LString name)) (\<lambda>k. AddABx OP_GETGLOBAL sreg k line)
     | ecUpvalue \<Rightarrow> bnd (RegisterUpvalue name) (\<lambda>u. AddABC OP_GETUPVAL sreg u 0 line)
     | ecLocal \<Rightarrow> bnd (FindLocalVar name) (\<lambda>b. AddABC OP_MOVE sreg b 0 line)
     | _ \<Rightarrow> ret ())"

definition compile_vararg :: "int \<Rightarrow> int \<Rightarrow> int \<Rightarrow> expcontext \<Rightarrow> int cM" where
  "compile_vararg r sreg line ec = bnd (rd (\<lambda>fc. ir_IsVarArg (fc_Func fc))) (\<lambda>va.
     if va = 0 then raiseCompileError line ''cannot use '...' outside a vararg function''
     else and_then (set_func (\<lambda>f. f\<lparr>ir_IsVarArg := and va (not VarArgNeedsArg)\<rparr>))
          (and_then (AddABC OP_VARARG sreg (2 + varargopt ec) 0 line)
          (bnd RegTop (\<lambda>tp.
             if tp > sreg + 2 + varargopt ec \<or> varargopt ec < -1 then ret 0 else ret (sreg + 1 + varargopt ec - r)))))"

definition compile_index :: "exprC \<Rightarrow> int \<Rightarrow> int \<Rightarrow> int \<Rightarrow> expr \<Rightarrow> expr \<Rightarrow> unit cM" where
  "compile_index E r sreg line object key =
     bnd (compileExprWithMVPropagation E object r) (\<lambda>(b, r').
     bnd (compileExprWithKMVPropagation E key r') (\<lambda>(c, _).
       AddABC (if is_string key \<and> opIsK c then OP_GETTABLEKS else OP_GETTABLE) sreg b c line))"

definition load_const :: "int \<Rightarrow> int \<Rightarrow> LValue \<Rightarrow> unit cM" where
  "load_const sreg line v = bnd (ConstIndex v) (\<lambda>k. AddABx OP_LOADK sreg k line)"

definition compileExpr_body :: "exprC \<Rightarrow> stmtC \<Rightarrow> exprC" where
  "compileExpr_body E S r e ec =
     (let sreg = savereg ec r; used = ret (if sreg < r then 0 else 1); line = eln e
      in case e of
           StringExpr p t \<Rightarrow> and_then (load_const sreg line (LString t)) used
         | NumberExpr p t \<Rightarrow>
             (case parseNumber t of
                Inl _ \<Rightarrow> raiseCompileError line (''invalid uint256 number literal: '' @ t)
              | Inr n \<Rightarrow> and_then (load_const sreg line (LNum n)) used)
         | ConstLValueExpr p n \<Rightarrow> and_then (load_const sreg line (LNum n)) used
         | NilExpr p \<Rightarrow> and_then (AddLoadNil sreg sreg line) used
         | FalseExpr p \<Rightarrow> and_then (AddABC OP_LOADBOOL sreg 0 0 line) used
         | TrueExpr p \<Rightarrow> and_then (AddABC OP_LOADBOOL sreg 1 0 line) used
         | IdentExpr p name \<Rightarrow> and_then (compile_ident sreg line name) used
         | Comma3Expr p adjust \<Rightarrow> compile_vararg r sreg line ec
         | AttrGetExpr p object key \<Rightarrow> and_then (compile_index E r sreg line object key) used
         | TableExpr p flds \<Rightarrow> and_then (compileTableExpr E r p flds ec) (ret 1)
         | ArithmeticOpExpr p operator lhs rhs \<Rightarrow> and_then (compileArithmeticOpExpr E r e ec) used
         | StringConcatOpExpr p lhs rhs \<Rightarrow> and_then (compileStringConcatOpExpr E r p lhs rhs ec) used
         | UnaryMinusOpExpr p x \<Rightarrow> and_then (compileUnaryOpExpr E r e ec) used
         | UnaryNotOpExpr p x \<Rightarrow> and_then (compileUnaryOpExpr E r e ec) used
         | UnaryLenOpExpr p x \<Rightarrow> and_then (compileUnaryOpExpr E r e ec) used
         | UnaryBitNotOpExpr p x \<Rightarrow> and_then (compileUnaryOpExpr E r e ec) used
         | RelationalOpExpr p operator lhs rhs \<Rightarrow> and_then (compileRelationalOpExpr E r p operator lhs rhs ec) used
         | LogicalOpExpr p operator lhs rhs \<Rightarrow> and_then (compileLogicalOpExpr E r p operator lhs rhs ec) used
         | FuncCallExpr p func receiver method args adjust \<Rightarrow> compileFuncCallExpr E r p func receiver method args ec
         | FunctionExpr p pars body \<Rightarrow>
             bnd (in_child (compileFunctionExpr S p pars body ec)) (\<lambda>(f, ups).
             bnd (add_function f) (\<lambda>protono.
             and_then (AddABx OP_CLOSURE sreg protono line)
             (and_then (forM ups (emit_upvalue line)) used))))"

section \<open>The compiler\<close>

fun compileExpr :: "nat \<Rightarrow> exprC"
  and compileStmt :: "nat \<Rightarrow> stmtC" where
  "compileExpr 0 r e ec = throwM CFuel"
| "compileExpr (Suc n) r e ec = compileExpr_body (compileExpr n) (compileStmt n) r e ec"
| "compileStmt 0 st isLastStmt = throwM CFuel"
| "compileStmt (Suc n) st isLastStmt = compileStmt_body (compileExpr n) (compileStmt n) st isLastStmt"

definition chunk_pos :: "stmt list \<Rightarrow> pos" where
  "chunk_pos chunk = (if chunk = [] then (0, 0) else (0, eline (stmt_pos (last chunk)) + 1))"

text \<open>The nesting of the statements bounds the depth of the calls: their sizes are enough fuel.\<close>

definition compileASTToIRDirect :: "stmt list \<Rightarrow> string \<Rightarrow> compile_exn + IRFunction" where
  "compileASTToIRDirect chunk name =
     (case compileFunctionExpr (compileStmt (size_list size chunk)) (chunk_pos chunk) \<lparr>HasVargs = True, ParNames = []\<rparr> chunk
             (ecnone 0) (newFuncContext name []) of
        Inl e \<Rightarrow> Inl e
      | Inr (_, fc) \<Rightarrow> Inr (finished fc))"

definition buildIRFromChunk :: "stmt list \<Rightarrow> string \<Rightarrow> compile_exn + IRProgram" where
  "buildIRFromChunk chunk name =
     bindr (compileASTToIRDirect chunk name) (\<lambda>root.
       Inr \<lparr>irp_Name = (if name = [] then ir_SourceName (ir_info root) else name), irp_Root = Some root\<rparr>)"

datatype compile_failure = NotCompiled compile_exn | NotEncoded go_error

definition Compile :: "stmt list \<Rightarrow> string \<Rightarrow> compile_failure + FunctionProto" where
  "Compile chunk name =
     (case buildIRFromChunk chunk name of
        Inl e \<Rightarrow> Inl (NotCompiled e)
      | Inr program \<Rightarrow> (case CompileIR (Some program) of Inl e \<Rightarrow> Inl (NotEncoded e) | Inr p \<Rightarrow> Inr p))"

end
