(* ===== verification/CompRules.thy ===== *)
theory CompRules
  imports CompStmt Validate
begin

text \<open>
  Properties of the compiler that hold of every run: the fuel is enough, and the functions it
  returns name no register beyond the number they declare.
\<close>

section \<open>Registers of a finished function\<close>

text \<open>
  The registers of an instruction, as the validator of the bytecode reads them, with those of
  the moves a \<^verbatim>\<open>MOVEN\<close> merges and of the variables a closure captures; and the words behind
  the instruction that are its data.
\<close>

definition ir_registers :: "IRInstruction \<Rightarrow> IRInstruction list \<Rightarrow> nat \<Rightarrow> int list" where
  "ir_registers ins rest k =
     (case op_at (ir_Op ins) of
        None \<Rightarrow> []
      | Some p \<Rightarrow>
          named_registers p (ir_A ins) (ir_B ins) (ir_C ins) @
          (if p = OP_MOVEN then concat (map (\<lambda>x. [ir_A x, ir_B x]) (take k rest))
           else if p = OP_CLOSURE then map ir_B (filter (\<lambda>x. ir_Op x = op_code OP_MOVE) (take k rest))
           else []))"

definition data_words :: "IRFunction list \<Rightarrow> IRInstruction \<Rightarrow> IRInstruction list \<Rightarrow> nat" where
  "data_words fs ins rest =
     (case op_at (ir_Op ins) of
        Some OP_MOVEN \<Rightarrow> nat (ir_C ins)
      | Some OP_TFORLOOP \<Rightarrow> (if rest = [] then 0 else 1)
      | Some OP_SETLIST \<Rightarrow> (if ir_C ins = 0 \<and> rest \<noteq> [] then 1 else 0)
      | Some OP_CLOSURE \<Rightarrow> nat (uint (ir_NumUpvalues (ir_info (fs ! nat (ir_Bx ins)))))
      | _ \<Rightarrow> 0)"

text \<open>No instruction names a register from \<open>n\<close> on; the first \<open>k\<close> ones are data.\<close>

fun regs_below :: "int \<Rightarrow> IRFunction list \<Rightarrow> nat \<Rightarrow> IRInstruction list \<Rightarrow> bool" where
  "regs_below n fs k [] \<longleftrightarrow> True"
| "regs_below n fs (Suc k) (ins # rest) \<longleftrightarrow> regs_below n fs k rest"
| "regs_below n fs 0 (ins # rest) \<longleftrightarrow>
     (\<forall>x \<in> set (ir_registers ins rest (data_words fs ins rest)). x < n) \<and> regs_below n fs (data_words fs ins rest) rest"

definition registers_ok :: "ir_fields \<Rightarrow> IRFunction list \<Rightarrow> bool" where
  "registers_ok f fs \<longleftrightarrow>
     uint (ir_NumParameters f) < uint (ir_NumUsedRegs f) \<and> uint (ir_NumUsedRegs f) \<le> maxRegisters \<and>
     regs_below (uint (ir_NumUsedRegs f)) fs 0 (ir_Instructions f)"

fun fn_ok :: "IRFunction \<Rightarrow> bool" where
  "fn_ok (IRFunction f kids) \<longleftrightarrow>
     registers_ok f (map the kids) \<and> list_all (\<lambda>k. case k of None \<Rightarrow> False | Some g \<Rightarrow> fn_ok g) kids"

lemma foldl_max_ge: "foldl max (m::int) xs \<ge> m"
  by (induction xs arbitrary: m) (auto intro: order_trans [OF max.cobounded1])

lemma foldl_max_mem: "x \<in> set xs \<Longrightarrow> x \<le> foldl max (m::int) xs"
proof (induction xs arbitrary: m)
  case (Cons y ys)
  show ?case using Cons foldl_max_ge [of "max m y" ys] by auto
qed simp

lemma counted_covers:
  assumes "counted_regs fs ins rest = Inr (regs, k)"
  shows "k = data_words fs ins rest"
    and "\<forall>x \<in> set (ir_registers ins rest k). \<exists>y \<in> set regs. x \<le> y"
proof -
  show "k = data_words fs ins rest"
    using assms by (auto simp: counted_regs_def data_words_def closure_upvalues_def Let_def 
        split: option.splits opcode.splits if_splits)
next
  show "\<forall>x \<in> set (ir_registers ins rest k). \<exists>y \<in> set regs. x \<le> y"
  proof (cases "op_at (ir_Op ins)")
    case None
    then show ?thesis by (simp add: ir_registers_def)
  next
    case (Some p)
    then show ?thesis using assms
      apply (cases p)
      apply (auto simp: counted_regs_def ir_registers_def named_registers_def reg_range_def rk_reg_def rk_regs_def
          Let_def binary_ops_def split: if_splits)
      done
  qed
qed

lemma regs_below_mono: "regs_below n fs k code \<Longrightarrow> n \<le> n' \<Longrightarrow> regs_below n' fs k code"
  by (induction n fs k code rule: regs_below.induct) fastforce+

lemma max_regs_below: "max_regs fs k code m = Inr m' \<Longrightarrow> m \<le> m' \<and> regs_below (m' + 1) fs k code"
proof (induction fs k code m rule: max_regs.induct)
  case (3 fs ins rest m)
  from 3(2) obtain regs k where c: "counted_regs fs ins rest = Inr (regs, k)"
    and m: "max_regs fs k rest (foldl max m regs) = Inr m'" by auto
  from 3(1) [OF c refl m] have le: "foldl max m regs \<le> m'" and below: "regs_below (m' + 1) fs k rest" by auto
  have "x < m' + 1" if "x \<in> set (ir_registers ins rest k)" for x
  proof -
    from counted_covers(2) [OF c] that obtain y where "y \<in> set regs" "x \<le> y" by auto
    then show ?thesis using foldl_max_mem [of y regs m] le by linarith
  qed
  then show ?case using counted_covers(1) [OF c] below le foldl_max_ge [of m regs] by auto
qed auto

section \<open>Runs that keep the finished functions\<close>

text \<open>
  A run does not use up the fuel, and where the finished nested functions are in order before it
  they are so after it.
\<close>

definition functions_ok :: "funcContext \<Rightarrow> bool" where
  "functions_ok fc \<longleftrightarrow> list_all fn_ok (fc_Functions fc)"

definition good :: "'a cM \<Rightarrow> bool" where
  "good m \<longleftrightarrow> (\<forall>s. functions_ok s \<longrightarrow> (case m s of Inl e \<Rightarrow> e \<noteq> CFuel | Inr (x, s') \<Rightarrow> functions_ok s'))"

named_theorems goods

lemma good_ret [goods]: "good (ret x)"
  by (simp add: good_def ret_def)

lemma good_bnd [goods]:
  assumes "good m" "\<And>x. good (f x)"
  shows "good (bnd m f)"
  unfolding good_def
proof (intro allI impI)
  fix s assume "functions_ok s"
  with assms show "case bnd m f s of Inl e \<Rightarrow> e \<noteq> CFuel | Inr (x, s') \<Rightarrow> functions_ok s'"
    by (cases "m s") (auto simp: good_def bnd_def dest!: spec [of _ s])
qed

lemma good_rd [goods]: "good (rd f)"
  by (simp add: good_def rd_def)

lemma good_upd [goods]: "(\<And>s. fc_Functions (f s) = fc_Functions s) \<Longrightarrow> good (upd f)"
  by (simp add: good_def upd_def functions_ok_def)

lemma good_then [goods]: "good m \<Longrightarrow> good n \<Longrightarrow> good (and_then m n)"
  by (simp add: and_then_def good_bnd)

lemma good_when [goods]: "good m \<Longrightarrow> good (whenM b m)"
  by (simp add: whenM_def good_ret)

lemma good_forM [goods]: "(\<And>i. i \<in> set is \<Longrightarrow> good (f i)) \<Longrightarrow> good (forM is f)"
  by (induction "is") (auto intro!: goods)

lemma good_foldM [goods]: "(\<And>i a. i \<in> set is \<Longrightarrow> good (f i a)) \<Longrightarrow> good (foldM f is a)"
  by (induction "is" arbitrary: a) (auto intro!: goods)

lemma good_error [goods]: "good (raiseCompileError line message)"
  by (simp add: raiseCompileError_def good_def bnd_def rd_def throwM_def)

lemma good_panic [goods]: "good (cpanic p)"
  by (simp add: cpanic_def good_def throwM_def)

lemma good_set_func [goods]: "good (set_func f)" and good_set_code [goods]: "good (set_code g)"
  and good_set_block [goods]: "good (set_block h)"
  by (simp_all add: set_func_def set_code_def set_block_def good_upd)

lemma good_or_panic [goods]: "good (c_or_panic r)"
  by (simp add: c_or_panic_def goods split: sum.splits)

lemma good_blocks [goods]: "good the_block" "good parent_block"
  by (auto simp: the_block_def parent_block_def intro!: goods split: list.splits)

lemma good_emit [goods]: "good (AddABC op a b c line)" "good (AddABx op a bx line)" "good (AddASbx op a sbx line)"
  "good (AddRawWord w line)" "good (AddLoadNil a b line)"
  by (simp_all add: AddABC_def AddABx_def AddASbx_def AddRawWord_def AddLoadNil_def goods)

lemma good_code [goods]: "good LastPC" "good code_Last_inst" "good (code_At pc)" "good (set_inst pc f)"
  by (auto simp: LastPC_def code_Last_inst_def code_At_def set_inst_def intro!: goods)

lemma good_labels [goods]: "good NewLabel" "good (SetLabelPc l pc)" "good (label_here l)"
  by (auto simp: NewLabel_def SetLabelPc_def label_here_def intro!: goods)

lemma good_gotos [goods]: "good CheckUnresolvedGoto" "good (AddUnresolvedGoto label)" "good (AddNamedLabel label)"
  "good (ResolveGoto g target i)" "good (FindLabel b g i)"
  by (auto simp: CheckUnresolvedGoto_def AddUnresolvedGoto_def AddNamedLabel_def ResolveGoto_def FindLabel_def Let_def
      intro!: goods split: option.splits)

lemma good_resolve [goods]: "good (resolve_with_parent b parent active i)"
  by (auto simp: resolve_with_parent_def Let_def intro!: goods split: option.splits)

lemma good_ResolveForwardGoto [goods]: "good (ResolveForwardGoto target)"
  by (auto simp: ResolveForwardGoto_def intro!: goods split: option.splits)

lemma good_ResolveCurrent [goods]: "good ResolveCurrentBlockGotosWithParentBlock"
  by (auto simp: ResolveCurrentBlockGotosWithParentBlock_def intro!: goods)

lemma good_registers [goods]: "good (ConstIndex v)" "good RegTop" "good (SetRegTop t)" "good (RegisterLocalVar name)"
  "good (RegisterLocalVarWithAttr name attr)"
  by (auto simp: ConstIndex_def RegTop_def SetRegTop_def RegisterLocalVar_def RegisterLocalVarWithAttr_def Let_def
      intro!: goods split: option.splits prod.splits)

lemma good_variables [goods]: "good (FindLocalVarAndBlock name)" "good (FindLocalVar name)" "good (RegisterUpvalue name)"
  by (auto simp: FindLocalVarAndBlock_def FindLocalVar_def RegisterUpvalue_def Let_def intro!: goods split: prod.splits)

lemma good_scopes [goods]: "good (EnterBlock l p)" "good CloseUpvalues" "good EndScope" "good LeaveBlock"
  by (auto simp: EnterBlock_def CloseUpvalues_def EndScope_def LeaveBlock_def Let_def intro!: goods split: prod.splits)

section \<open>Compiling within a bound on the nesting\<close>

definition good_exprs :: "nat \<Rightarrow> exprC \<Rightarrow> bool" where
  "good_exprs n E \<longleftrightarrow> (\<forall>r e ec. size e < n \<longrightarrow> good (E r e ec))"

definition good_stmts :: "nat \<Rightarrow> stmtC \<Rightarrow> bool" where
  "good_stmts n S \<longleftrightarrow> (\<forall>st l. size st < n \<longrightarrow> good (S st l))"

lemma good_E: "good_exprs n E \<Longrightarrow> size e < n \<Longrightarrow> good (E r e ec)"
  by (simp add: good_exprs_def)

lemma good_S: "good_stmts n S \<Longrightarrow> size st < n \<Longrightarrow> good (S st l)"
  by (simp add: good_stmts_def)

lemma good_propagation:
  "good (E r e (ecnone 0)) \<Longrightarrow> good (compileExprWithPropagation f E e r)"
  by (auto simp: compileExprWithPropagation_def intro!: goods split: prod.splits)

lemma good_operand:
  "good_exprs n E \<Longrightarrow> size e < n \<Longrightarrow> good (compileExprWithKMVPropagation E e r)"
  "good_exprs n E \<Longrightarrow> size e < n \<Longrightarrow> good (compileExprWithMVPropagation E e r)"
  by (simp_all add: compileExprWithKMVPropagation_def compileExprWithMVPropagation_def good_propagation good_E)

lemma good_loadRk [goods]: "good (loadRk line r v)" and good_getIdentRefType [goods]: "good (getIdentRefType name)"
  by (auto simp: loadRk_def getIdentRefType_def intro!: goods)

lemma constFold_arith:
  assumes "constFold (ArithmeticOpExpr p operator lhs rhs) = Inr (f, e')"
  obtains fl l fr r where "constFold lhs = Inr (fl, l)" "constFold rhs = Inr (fr, r)" "e' = ArithmeticOpExpr p operator l r"
    "f = e' \<or> (\<exists>x y n. lnumberValue fl = Some x \<and> lnumberValue fr = Some y \<and>
       fold_binop operator x y = Inr (Some n) \<and> f = ConstLValueExpr (0, 0) n)"
proof -
  from assms obtain fl l fr r where lr: "constFold lhs = Inr (fl, l)" "constFold rhs = Inr (fr, r)" by auto
  then show ?thesis using assms
    by (cases "lnumberValue fl"; cases "lnumberValue fr") (auto simp: Let_def intro!: that split: option.splits)
qed

lemma constFold_size: "constFold e = Inr (f, e') \<Longrightarrow> size f \<le> size e \<and> size e' \<le> size e"
proof (induction e arbitrary: f e' rule: constFold.induct)
  case (1 p operator lhs rhs)
  from 1(3) show ?case
  proof (rule constFold_arith)
    fix fl l fr r
    assume l: "constFold lhs = Inr (fl, l)" and r: "constFold rhs = Inr (fr, r)" and e': "e' = ArithmeticOpExpr p operator l r"
      and f: "f = e' \<or> (\<exists>x y n. lnumberValue fl = Some x \<and> lnumberValue fr = Some y \<and>
       fold_binop operator x y = Inr (Some n) \<and> f = ConstLValueExpr (0, 0) n)"
    have "size l \<le> size lhs" "size r \<le> size rhs" using 1(1) [OF l] 1(2) [OF l refl r] by auto
    then show ?thesis using f e' by auto
  qed
next
  case (3 p e)
  then show ?case by (auto simp: Let_def split: option.splits)
qed auto

lemma good_or_panic_bnd: "(\<And>x. m = Inr x \<Longrightarrow> good (f x)) \<Longrightarrow> good (bnd (c_or_panic m) f)"
  by (cases m) (auto simp: c_or_panic_def good_def bnd_def ret_def cpanic_def throwM_def)

lemmas good_subterm = good_E good_operand

lemma good_arith:
  "good_exprs n E \<Longrightarrow> size (ArithmeticOpExpr p operator lhs rhs) \<le> n \<Longrightarrow>
   good (compileArithmeticOpExpr E r (ArithmeticOpExpr p operator lhs rhs) ec)"
  unfolding compileArithmeticOpExpr_def
  by (rule good_or_panic_bnd)
    (auto intro!: goods good_subterm [of n E] simp del: constFold.simps split: prod.splits expr.splits dest!: constFold_size)

lemma good_concat:
  "good_exprs n E \<Longrightarrow> size lhs < n \<Longrightarrow> size rhs < n \<Longrightarrow> good (compileStringConcatOpExpr E r p lhs rhs ec)"
  by (auto simp: compileStringConcatOpExpr_def intro!: goods good_subterm [of n E])

lemma good_compile_unary: "good_exprs n E \<Longrightarrow> size x < n \<Longrightarrow> good (compile_unary E op r x line ec)"
  by (auto simp: compile_unary_def intro!: goods good_subterm [of n E] split: prod.splits)

lemma good_unary:
  assumes "good_exprs n E" "size e \<le> n" "e = UnaryMinusOpExpr p x \<or> e = UnaryNotOpExpr p x \<or> e = UnaryLenOpExpr p x \<or> e = UnaryBitNotOpExpr p x"
  shows "good (compileUnaryOpExpr E r e ec)"
proof -
  have minus: "good (compileUnaryOpExpr E r (UnaryMinusOpExpr p x) ec)" if "Suc (size x) \<le> n"
    unfolding compileUnaryOpExpr_def expr.case using that assms(1)
    by (intro good_or_panic_bnd) (auto intro!: goods good_subterm [of n E] good_compile_unary [of n E] simp del: constFold.simps split: expr.splits dest!: constFold_size)
  have bnot: "good (compileUnaryOpExpr E r (UnaryBitNotOpExpr p x) ec)" if "Suc (size x) \<le> n"
    unfolding compileUnaryOpExpr_def expr.case using that assms(1)
    by (intro good_or_panic_bnd) (auto simp: Let_def intro!: goods good_subterm [of n E] good_compile_unary [of n E] simp del: constFold.simps split: expr.splits option.splits dest!: constFold_size)
  have not_len: "good (compileUnaryOpExpr E r (UnaryNotOpExpr p x) ec)" "good (compileUnaryOpExpr E r (UnaryLenOpExpr p x) ec)" if "Suc (size x) \<le> n"
    using that assms(1) by (auto simp: compileUnaryOpExpr_def intro!: goods good_compile_unary [of n E] split: expr.splits)
  show ?thesis using assms(2,3) minus bnot not_len by auto
qed

lemma good_relational_aux:
  "good_exprs n E \<Longrightarrow> size lhs < n \<Longrightarrow> size rhs < n \<Longrightarrow> good (compileRelationalOpExprAux E r p operator lhs rhs flip label)"
  by (auto simp: compileRelationalOpExprAux_def intro!: goods good_subterm [of n E] split: prod.splits)

lemma good_relational:
  "good_exprs n E \<Longrightarrow> size lhs < n \<Longrightarrow> size rhs < n \<Longrightarrow> good (compileRelationalOpExpr E r p operator lhs rhs ec)"
  by (auto simp: compileRelationalOpExpr_def intro!: goods good_relational_aux [of n E])

lemma good_leaf: "good_exprs n E \<Longrightarrow> size e < n \<Longrightarrow> good (logical_leaf E ec lb_e e r th el next)"
  by (auto simp: logical_leaf_def Let_def intro!: goods good_subterm [of n E] split: expr.splits)

declare compileLogicalOpExprAux.simps [simp del]

lemma good_logical_aux:
  assumes E: "good_exprs n E"
  shows "size e < n \<Longrightarrow> good (compileLogicalOpExprAux E ec lb e r th el nxt b)"
proof (induction "size e" arbitrary: e th el nxt b rule: less_induct)
  case less
  obtain lt lf le where lb: "lb = (lt, lf, le)" by (cases lb)
  note eq = compileLogicalOpExprAux.simps [of E ec lb e r th el nxt b]
  show ?case
  proof (cases "is_logical e")
    case True
    then obtain p operator lhs rhs where e: "e = LogicalOpExpr p operator lhs rhs"
      by (auto simp: is_logical_def split: expr.splits)
    have IH: "good (compileLogicalOpExprAux E ec lb lhs r th el nxt b)" "good (compileLogicalOpExprAux E ec lb rhs r th el nxt b)" for th el nxt b
      using less by (auto simp: e)
    then show ?thesis
      by (subst eq) (auto simp: e lb [symmetric] Let_def intro!: goods split: prod.splits)
  next
    case False
    have "good (E r e ec)" "good (logical_leaf E ec lb_e e r th el nxt)" for lb_e
      using good_E [OF E] good_leaf [OF E] less(2) by auto
    then show ?thesis
      unfolding eq unfolding lb prod.case Let_def
      using False less(2) by (cases e) (auto simp: is_logical_def intro!: goods good_relational_aux [OF E])
  qed
qed


lemma good_logical:
  "good_exprs n E \<Longrightarrow> size lhs < n \<Longrightarrow> size rhs < n \<Longrightarrow> good (compileLogicalOpExpr E r p operator lhs rhs ec)"
  by (auto simp: compileLogicalOpExpr_def Let_def intro!: goods good_logical_aux [of n E])

lemma good_args: "good_exprs n E \<Longrightarrow> \<forall>x \<in> set args. size x < n \<Longrightarrow> good (compile_args E args r)"
  by (induction args arbitrary: r) (auto intro!: goods good_E [of n E])

lemma good_self: "good_exprs n E \<Longrightarrow> size rc < n \<Longrightarrow> good (compile_self E funcreg r line rc m)"
  by (auto simp: compile_self_def Let_def intro!: goods good_subterm [of n E] split: prod.splits)

lemma good_call:
  "good_exprs n E \<Longrightarrow> \<forall>x \<in> set_option f. size x < n \<Longrightarrow> \<forall>x \<in> set_option rc. size x < n \<Longrightarrow> \<forall>x \<in> set args. size x < n \<Longrightarrow>
   good (compileFuncCallExpr E r p f rc m args ec)"
  unfolding compileFuncCallExpr_def argsReferenceLocalReg_def Let_def
  by (intro goods) (auto intro!: goods good_E [of n E] good_self [of n E] good_args [of n E] split: option.splits prod.splits)

lemma good_table:
  assumes E: "good_exprs n E" and f: "\<forall>(k, v) \<in> set flds. (\<forall>x \<in> set_option k. size x < n) \<and> size v < n"
  shows "good (compileTableExpr E r p flds ec)"
proof -
  have "good (compile_fields E line tablereg regbase flds r arraycount lastvararg)" for line tablereg regbase r arraycount lastvararg
    using f
  proof (induction flds arbitrary: r arraycount lastvararg)
    case (Cons kv rest)
    obtain k v where kv: "kv = (k, v)" by (cases kv)
    have IH: "good (compile_fields E line tablereg regbase rest r arraycount lastvararg)" for r arraycount lastvararg
      using Cons by simp
    have flush: "good (flush_fields t ac l a line)" for t ac l a line
      by (auto simp: flush_fields_def Let_def intro!: goods)
    show ?case using Cons.prems unfolding kv
      by (auto intro!: goods IH flush good_subterm [OF E] split: option.splits prod.splits)
  qed (simp add: goods)
  then show ?thesis by (auto simp: compileTableExpr_def intro!: goods)
qed

section \<open>Statements\<close>

lemma good_chunk: "good_stmts n S \<Longrightarrow> \<forall>st \<in> set sts. size st < n \<Longrightarrow> good (compile_stmts S u sts)"
  by (induction sts) (auto intro!: goods good_S [of n S])

lemma good_blocks_of [goods]:
  "good_stmts n S \<Longrightarrow> \<forall>st \<in> set sts. size st < n \<Longrightarrow> good (compileChunk S sts u)"
  "good_stmts n S \<Longrightarrow> \<forall>st \<in> set sts. size st < n \<Longrightarrow> good (compileBlock S sts)"
  by (auto simp: compileChunk_def compileBlock_def intro!: goods good_chunk [of n S])

lemma good_assign_ident [goods]: "good (assign_ident p name)"
  by (auto simp: assign_ident_def intro!: goods split: expContextType.splits option.splits)

lemma good_left: "good_exprs n E \<Longrightarrow> \<forall>x \<in> set lhs. size x \<le> n \<Longrightarrow> good (compileAssignStmtLeft E lhs r)"
  by (induction lhs arbitrary: r) (auto intro!: goods good_subterm [of n E] split: expr.splits prod.splits)

lemma good_assign_one: "good_exprs n E \<Longrightarrow> size e < n \<Longrightarrow> good (assign_one E single e ac r)"
  by (auto simp: assign_one_def Let_def intro!: goods good_E [of n E] split: prod.splits)

lemma good_assign_values:
  assumes E: "good_exprs n E" and pos: "0 < n"
  shows "\<forall>x \<in> set rhs. size x < n \<Longrightarrow> good (assign_values E single lhs rhs acs r)"
proof (induction lhs arbitrary: rhs acs r)
  case (Cons x xs)
  then show ?case using pos
    by (cases rhs; cases acs) (auto intro!: goods good_E [OF E] good_assign_one [OF E] split: prod.splits)
qed (simp add: goods)

lemma good_extra: "good_exprs n E \<Longrightarrow> \<forall>x \<in> set vs. size x < n \<Longrightarrow> good (extra_values E vs r)"
  by (induction vs arbitrary: r) (auto intro!: goods good_E [of n E])

definition gives :: "('a \<Rightarrow> bool) \<Rightarrow> 'a cM \<Rightarrow> bool" where
  "gives P m \<longleftrightarrow> (\<forall>s x s'. m s = Inr (x, s') \<longrightarrow> P x)"

lemma gives_mono: "gives Q m \<Longrightarrow> (\<And>x. Q x \<Longrightarrow> P x) \<Longrightarrow> gives P m"
  by (auto simp: gives_def)

lemma gives_ret: "P x \<Longrightarrow> gives P (ret x)"
  by (simp add: gives_def ret_def)

lemma gives_panic: "gives P (cpanic p)"
  by (simp add: gives_def cpanic_def throwM_def)

lemma gives_bnd: "gives Q m \<Longrightarrow> (\<And>x. Q x \<Longrightarrow> gives P (f x)) \<Longrightarrow> gives P (bnd m f)"
  unfolding gives_def bnd_def by (fastforce split: sum.splits)

lemma gives_bnd_any: "(\<And>x. gives P (f x)) \<Longrightarrow> gives P (bnd m f)"
  by (rule gives_bnd [where Q = "\<lambda>_. True"]) (simp_all add: gives_def)

lemma good_bnd_gives:
  assumes "good m" "gives P m" "\<And>x. P x \<Longrightarrow> good (f x)"
  shows "good (bnd m f)"
  unfolding good_def
proof (intro allI impI)
  fix s assume "functions_ok s"
  with assms show "case bnd m f s of Inl e \<Rightarrow> e \<noteq> CFuel | Inr (x, s') \<Rightarrow> functions_ok s'"
    by (cases "m s") (auto simp: good_def gives_def bnd_def dest!: spec [of _ s])
qed

text \<open>The values without a target are among the given ones.\<close>

lemma assign_values_rest: "gives (\<lambda>(r, acs, rest). set rest \<subseteq> set rhs) (assign_values E single lhs rhs acs r)"
proof (induction E single lhs rhs acs r rule: assign_values.induct)
  case (3 E single x xs ac acs r)
  then show ?case by (auto intro!: gives_bnd_any gives_bnd [OF 3] gives_ret split: prod.splits)
next
  case (4 E single x xs v vs ac acs r)
  have rec: "gives (\<lambda>(r, acs, rest). set rest \<subseteq> set (v # vs)) (bnd (assign_one E single v ac r) (\<lambda>(r, ac).
           bnd (assign_values E single xs vs acs r) (\<lambda>(r, acs, rest). ret (r, ac # acs, rest))))"
    if "\<not> (isVarArgReturnExpr v \<and> vs = [])"
    by (auto intro!: gives_bnd_any gives_bnd [OF 4(1) [OF that]] gives_ret split: prod.splits)
  show ?case using rec by (auto intro!: gives_bnd_any gives_ret)
qed (simp_all add: gives_ret gives_panic)

lemma reg_values_rest: "gives (\<lambda>(r, names, exprs). set exprs \<subseteq> set vs) (reg_values E n xs vs r)"
proof (induction E n xs vs r rule: reg_values.induct)
  case (1 E n x xs v vs r)
  have rec: "gives (\<lambda>(r, names, exprs). set exprs \<subseteq> set (v # vs))
    (bnd (E r v (ec_of ecLocal r 0)) (\<lambda>_. reg_values E (n - 1) xs vs (r + 1)))"
    if "\<not> (isVarArgReturnExpr v \<and> vs = [])"
    by (rule gives_bnd_any, rule gives_mono [OF 1 [OF that]]) auto
  show ?case using rec by (auto intro!: gives_bnd_any gives_ret)
qed (simp_all add: gives_ret)

lemma good_store [goods]: "good (store_target ex ac r)" and good_ident_name [goods]: "good (ident_name ex)"
proof -
  show n: "good (ident_name ex)" for ex by (auto simp: ident_name_def intro!: goods split: expr.splits)
  show "good (store_target ex ac r)"
    by (auto simp: store_target_def intro!: goods n split: expContextType.splits)
qed

lemma good_right:
  assumes E: "good_exprs n E" and rhs: "\<forall>x \<in> set rhs. size x < n" and pos: "0 < n"
  shows "good (compileAssignStmtRight E lhs rhs r acs)"
  unfolding compileAssignStmtRight_def
  by (rule good_bnd_gives [OF good_assign_values [OF E pos rhs] assign_values_rest])
    (use rhs in \<open>auto intro!: goods good_extra [OF E] split: prod.splits\<close>)

lemma good_assign:
  assumes "good_exprs n E" "\<forall>x \<in> set lhs. size x \<le> n" "\<forall>x \<in> set rhs. size x < n" "0 < n"
  shows "good (compileAssignStmt E lhs rhs)"
  unfolding compileAssignStmt_def
  using assms by (auto intro!: goods good_left [of n E] good_right [of n E] split: prod.splits)

lemma good_reg_assignment:
  assumes E: "good_exprs n E" and vs: "\<forall>x \<in> set vs. size x < n"
  shows "good (compileRegAssignment E names vs r nvars line)"
proof -
  have "good (reg_values E nvars names vs r)" using vs
  proof (induction names arbitrary: nvars vs r)
    case (Cons x xs)
    then show ?case by (cases vs) (auto intro!: goods good_E [OF E])
  qed (simp add: goods)
  then show ?thesis unfolding compileRegAssignment_def
    by (rule good_bnd_gives [OF _ reg_values_rest])
      (use vs in \<open>auto simp: Let_def intro!: goods good_extra [OF E] split: prod.splits\<close>)
qed

lemma good_local_assign:
  "good_exprs n E \<Longrightarrow> \<forall>x \<in> set vs. size x < n \<Longrightarrow> good (compileLocalAssignStmt E p names attrs vs)"
  unfolding compileLocalAssignStmt_def Let_def
  by (auto intro!: goods good_reg_assignment [of n E])

lemma good_return_all: "good_exprs n E \<Longrightarrow> \<forall>x \<in> set vs. size x < n \<Longrightarrow> good (return_all E vs a line)"
proof -
  assume E: "good_exprs n E" and vs: "\<forall>x \<in> set vs. size x < n"
  have "good (return_values E vs r)" for r using vs
    by (induction vs arbitrary: r) (auto intro!: goods good_E [OF E])
  then show ?thesis by (auto simp: return_all_def intro!: goods split: prod.splits)
qed

lemma good_return:
  assumes E: "good_exprs n E" and vs: "\<forall>x \<in> set vs. size x < n"
  shows "good (compileReturnStmt E p vs)"
proof -
  have all: "good (return_all E vs a line)" for a line by (rule good_return_all [OF E vs])
  show ?thesis
  proof (cases "\<exists>e. vs = [e]")
    case True
    then obtain e where e: "vs = [e]" by auto
    have "good (E r e ec)" for r ec using good_E [OF E] vs e by simp
    then show ?thesis using all unfolding compileReturnStmt_def e
      by (cases e) (auto intro!: goods)
  next
    case False
    then show ?thesis using all unfolding compileReturnStmt_def
      by (intro goods) (auto split: list.splits expr.splits)
  qed
qed

declare compileBranchCondition.simps [simp del]

lemma good_branch:
  assumes E: "good_exprs n E"
  shows "size e < n \<Longrightarrow> good (compileBranchCondition E r e th el nxt)"
proof (induction "size e" arbitrary: e th el nxt rule: less_induct)
  case less
  note eq = compileBranchCondition.simps [of E r e th el nxt]
  have test: "good (bnd (compileExprWithMVPropagation E e r) (\<lambda>(a, _). and_then (AddABC OP_TEST a 0 f l) (AddASbx OP_JMP 0 j l)))" for f l j
    using good_operand(2) [OF E less(2)] by (auto intro!: goods split: prod.splits)
  have IH: "good (compileBranchCondition E r e' th el nxt)" if "size e' < size e" for e' th el nxt
    using less that by auto
  show ?case unfolding eq Let_def using less(2) test IH
    by (cases e) (auto intro!: goods good_relational_aux [OF E])
qed

lemma good_conditionals:
  assumes "good_exprs n E" "good_stmts n S" "size cond < n" "\<forall>st \<in> set body. size st < n"
  shows "\<forall>st \<in> set els. size st < n \<Longrightarrow> good (compileIfStmt E S p cond body els)"
    and "good (compileWhileStmt E S p cond body)" and "good (compileRepeatStmt E S p cond body)"
  using assms
  by (auto simp: compileIfStmt_def compileWhileStmt_def compileRepeatStmt_def intro!: goods good_branch [of n E] good_blocks_of [of n S])

lemma good_break [goods]: "good (compileBreakStmt p)" and good_label [goods]: "good (compileLabelStmt p name l)"
  and good_goto [goods]: "good (compileGotoStmt p name)"
  by (auto simp: compileBreakStmt_def compileLabelStmt_def compileGotoStmt_def Let_def intro!: goods split: option.splits list.splits)

lemma good_funcdef:
  assumes "good_exprs n E" "\<forall>x \<in> set_option f. size x < n" "\<forall>x \<in> set_option rc. size x < n" "size fe < n"
  shows "good (compileFuncDefStmt E p f rc m fe)"
  using assms unfolding compileFuncDefStmt_def
  by (auto intro!: goods good_subterm [of n E] good_assign [of n E] split: option.splits prod.splits)

lemma good_for_variable: "good_exprs n E \<Longrightarrow> size e < n \<Longrightarrow> good (for_variable E name e)"
  by (auto simp: for_variable_def intro!: goods good_E [of n E])

lemma good_fors:
  assumes "good_exprs n E" "good_stmts n S" "\<forall>st \<in> set body. size st < n" "0 < n"
  shows "size init < n \<Longrightarrow> size limit < n \<Longrightarrow> \<forall>x \<in> set_option step. size x < n \<Longrightarrow>
      good (compileNumberForStmt E S p name init limit step body)"
    and "\<forall>x \<in> set vs. size x < n \<Longrightarrow> good (compileGenericForStmt E S p names vs body)"
  using assms
  by (auto simp: compileNumberForStmt_def compileGenericForStmt_def intro!: goods good_for_variable [of n E]
      good_blocks_of [of n S] good_reg_assignment [of n E] split: option.splits)

lemma size_members:
  "x \<in> set xs \<Longrightarrow> size x < size_list size xs"
  "y \<in> set_option f \<Longrightarrow> size y < size_option size f"
  by (induction xs) auto

lemma size_below:
  "size_list size xs \<le> n \<Longrightarrow> x \<in> set xs \<Longrightarrow> size x < n"
  "size_option size f \<le> n \<Longrightarrow> y \<in> set_option f \<Longrightarrow> size y < n"
  using size_members(1) [of x xs] size_members(2) [of y f] by auto

lemma good_stmt:
  assumes E: "good_exprs n E" and S: "good_stmts n S" and le: "size st \<le> n" and pos: "0 < n"
  shows "good (compileStmt_body E S st l)"
proof (cases st)
  case (AssignStmt p lhs rhs)
  have "size x \<le> n" if "x \<in> set lhs" for x using size_members(1) [OF that] le AssignStmt by simp
  moreover have "size x < n" if "x \<in> set rhs" for x using size_members(1) [OF that] le AssignStmt by simp
  ultimately show ?thesis using AssignStmt E pos by (simp add: compileStmt_body_def good_assign [of n])
next
  case (FuncCallStmt p e)
  show ?thesis
  proof (cases "is_call e")
    case True
    then obtain q f rc m args adjust where e: "e = FuncCallExpr q f rc m args adjust"
      by (auto simp: is_call_def split: expr.splits)
    then have "Suc (Suc (size_option size f + size_option size rc + size_list size args)) \<le> n" using le FuncCallStmt by simp
    then have sizes: "\<forall>x \<in> set_option f. size x < n" "\<forall>x \<in> set_option rc. size x < n" "\<forall>x \<in> set args. size x < n"
      using size_below(2) [of f n] size_below(2) [of rc n] size_below(1) [of args n] by auto
    show ?thesis using good_call [OF E sizes, where p = q and ec = "ecnone (- 1)"] FuncCallStmt e by (auto simp: compileStmt_body_def intro!: goods)
  next
    case False
    then show ?thesis using FuncCallStmt
      by (auto simp: compileStmt_body_def is_call_def intro!: goods split: expr.splits)
  qed
next
  case (LocalAssignStmt p ns as vs)
  then have "size_list size vs \<le> n" using le by simp
  then show ?thesis using LocalAssignStmt E size_below(1) [of vs n] by (auto simp: compileStmt_body_def intro!: good_local_assign [of n])
next
  case (DoBlockStmt p body)
  then have "size_list size body \<le> n" using le by simp
  then show ?thesis using DoBlockStmt S size_below(1) [of body n] by (auto simp: compileStmt_body_def intro!: goods good_blocks_of [of n S])
next
  case (WhileStmt p cond body)
  then have "size_list size body \<le> n" "size cond < n" using le by auto
  then show ?thesis using WhileStmt E S size_below(1) [of body n] by (auto simp: compileStmt_body_def intro!: good_conditionals [of n])
next
  case (RepeatStmt p cond body)
  then have "size_list size body \<le> n" "size cond < n" using le by auto
  then show ?thesis using RepeatStmt E S size_below(1) [of body n] by (auto simp: compileStmt_body_def intro!: good_conditionals [of n])
next
  case (IfStmt p cond thn els)
  then have "size_list size thn \<le> n" "size_list size els \<le> n" "size cond < n" using le by auto
  then show ?thesis using IfStmt E S size_below(1) [of thn n] size_below(1) [of els n]
    by (auto simp: compileStmt_body_def intro!: good_conditionals [of n])
next
  case (NumberForStmt p name init limit step body)
  then have "size_list size body \<le> n" "size_option size step \<le> n" "size init < n" "size limit < n" using le by auto
  then show ?thesis using NumberForStmt E S pos size_below(1) [of body n] size_below(2) [of step n]
    by (auto simp: compileStmt_body_def intro!: good_fors [of n])
next
  case (GenericForStmt p names vs body)
  then have "size_list size body \<le> n" "size_list size vs \<le> n" using le by auto
  then show ?thesis using GenericForStmt E S pos size_below(1) [of body n] size_below(1) [of vs n]
    by (auto simp: compileStmt_body_def intro!: good_fors [of n])
next
  case (FuncDefStmt p f rc m fe)
  then have "size_option size f \<le> n" "size_option size rc \<le> n" "size fe < n" using le by auto
  then show ?thesis using FuncDefStmt E size_below(2) [of f n] size_below(2) [of rc n]
    by (auto simp: compileStmt_body_def intro!: good_funcdef [of n])
next
  case (ReturnStmt p vs)
  then have "size_list size vs \<le> n" using le by simp
  then show ?thesis using ReturnStmt E size_below(1) [of vs n] by (auto simp: compileStmt_body_def intro!: good_return [of n])
qed (auto simp: compileStmt_body_def intro!: goods)

section \<open>Functions\<close>

lemma good_jump_chain [goods]: "good (jump_chain k pc jmp distance)"
  by (induction k pc jmp distance rule: jump_chain.induct) (auto simp: Let_def intro!: goods)

lemma good_patch_loop [goods]: "good (patch_loop k pc moven)"
  by (induction k arbitrary: pc moven) (auto simp: Let_def patch_jump_def merge_moves_def intro!: goods)

lemma good_patch [goods]: "good patchCode"
  by (auto simp: patchCode_def maxRegisterUsed_def intro!: goods)

lemma good_function: "good_stmts n S \<Longrightarrow> \<forall>st \<in> set body. size st < n \<Longrightarrow> good (compileFunctionExpr S p pars body ec)"
  by (auto simp: compileFunctionExpr_def intro!: goods good_blocks_of [of n S])

definition ends :: "(funcContext \<Rightarrow> bool) \<Rightarrow> 'a cM \<Rightarrow> bool" where
  "ends P m \<longleftrightarrow> (\<forall>s x s'. m s = Inr (x, s') \<longrightarrow> P s')"

lemma ends_then: "ends P m \<Longrightarrow> ends P (and_then l m)"
  by (auto simp: ends_def and_then_def bnd_def split: sum.splits)

lemma ends_bnd: "(\<And>x. ends P (f x)) \<Longrightarrow> ends P (bnd m f)"
  by (auto simp: ends_def bnd_def split: sum.splits)

text \<open>A function whose code is patched declares enough registers, at most two hundred.\<close>

definition finished_ok :: "funcContext \<Rightarrow> bool" where
  "finished_ok fc \<longleftrightarrow> registers_ok ((fc_Func fc)\<lparr>ir_Instructions := code_List (fc_Code fc)\<rparr>) (fc_Functions fc)"

lemma patched_registers: "ends finished_ok patchCode"
proof -
  have "finished_ok s'" if m: "maxRegisterUsed s = Inr (maxreg, s1)" and le: "\<not> maxreg + 1 > maxRegisters"
    and s': "s' = s1\<lparr>fc_Func := (fc_Func s1)\<lparr>ir_NumUsedRegs := word_of_int (maxreg + 1)\<rparr>\<rparr>" for s s1 s' maxreg
  proof -
    let ?np = "uint (ir_NumParameters (fc_Func s))"
    from m have s1: "s1 = s" and mx: "max_regs (fc_Functions s) 0 (code_List (fc_Code s)) (max 1 ?np) = Inr maxreg"
      by (auto simp: maxRegisterUsed_def bnd_def rd_def c_or_panic_def ret_def cpanic_def throwM_def split: sum.splits)
    from max_regs_below [OF mx] have "max 1 ?np \<le> maxreg"
      and below: "regs_below (maxreg + 1) (fc_Functions s) 0 (code_List (fc_Code s))" by auto
    moreover have "uint (word_of_int (maxreg + 1) :: u8) = maxreg + 1"
      using calculation le unfolding uint_word_of_int by (simp add: maxRegisters_def)
    ultimately show ?thesis using le by (simp add: finished_ok_def registers_ok_def s' s1)
  qed
  then show ?thesis
    by (auto simp: patchCode_def ends_def bnd_def and_then_def rd_def upd_def ret_def whenM_def set_func_def
        raiseCompileError_def throwM_def split: sum.splits if_splits)
qed

lemma function_registers: "ends finished_ok (compileFunctionExpr S p pars body ec)"
  unfolding compileFunctionExpr_def by (intro ends_then patched_registers)

lemma finished_fn: "finished_ok fc \<Longrightarrow> functions_ok fc \<Longrightarrow> fn_ok (finished fc)"
  by (simp add: finished_ok_def functions_ok_def finished_def list_all_iff comp_def)

lemma good_child:
  assumes "good m" "ends finished_ok m"
  shows "good (in_child m)" and "gives (\<lambda>(f, ups). fn_ok f) (in_child m)"
proof -
  have new: "functions_ok (newFuncContext src outer)" for src outer
    by (simp add: functions_ok_def newFuncContext_def)
  show "good (in_child m)"
    using assms(1) new by (fastforce simp: good_def in_child_def split: sum.splits)
  show "gives (\<lambda>(f, ups). fn_ok f) (in_child m)"
    unfolding gives_def in_child_def
  proof (intro allI impI)
    fix s :: funcContext and x s'
    let ?c = "newFuncContext (ir_SourceName (fc_Func s)) (map LocalVars (fc_Block s) # fc_Outer s)"
    assume "(case m ?c of Inl e \<Rightarrow> Inl e | Inr (_, child) \<Rightarrow> Inr ((finished child, vp_names (fc_Upvalues child)), s)) = Inr (x, s')"
    then obtain u child where m: "m ?c = Inr (u, child)" and x: "x = (finished child, vp_names (fc_Upvalues child))"
      by (auto split: sum.splits)
    have "finished_ok child" using assms(2) m by (auto simp: ends_def)
    moreover have "functions_ok child" using assms(1) new m by (auto simp: good_def dest!: spec [of _ ?c])
    ultimately show "case x of (f, ups) \<Rightarrow> fn_ok f" by (simp add: x finished_fn)
  qed
qed

lemma good_add_function: "fn_ok f \<Longrightarrow> good (add_function f)"
  by (simp add: add_function_def good_def functions_ok_def bnd_def and_then_def rd_def upd_def ret_def)

section \<open>The compiler as a whole\<close>

lemma good_ident [goods]: "good (compile_ident sreg line name)" and good_load [goods]: "good (load_const sreg line v)"
  and good_vararg [goods]: "good (compile_vararg r sreg line ec)" and good_bind [goods]: "good (emit_upvalue line name)"
  by (auto simp: compile_ident_def load_const_def compile_vararg_def emit_upvalue_def intro!: goods
      split: expContextType.splits option.splits)

lemma good_expr:
  assumes E: "good_exprs n E" and S: "good_stmts n S" and le: "size e \<le> n"
  shows "good (compileExpr_body E S r e ec)"
proof (cases e)
  case (AttrGetExpr p object key)
  then show ?thesis using le
    by (auto simp: compileExpr_body_def compile_index_def Let_def intro!: goods good_operand [OF E] split: prod.splits)
next
  case (TableExpr p flds)
  have "(\<forall>x \<in> set_option k. size x < n) \<and> size v < n" if "(k, v) \<in> set flds" for k v
  proof -
    have "size_prod (size_option size) size (k, v) < size_list (size_prod (size_option size) size) flds"
      using that by (induction flds) auto
    then have "size_option size k \<le> n" "size v < n" using le TableExpr by auto
    then show ?thesis using size_below(2) [of k n] by auto
  qed
  then have "good (compileTableExpr E r p flds ec)" by (intro good_table [OF E]) auto
  then show ?thesis using TableExpr by (auto simp: compileExpr_body_def Let_def intro!: goods)
next
  case (FuncCallExpr p f rc m args adjust)
  then have "size_option size f \<le> n" "size_option size rc \<le> n" "size_list size args \<le> n" using le by auto
  then show ?thesis using FuncCallExpr size_below(2) [of f n] size_below(2) [of rc n] size_below(1) [of args n]
    by (auto simp: compileExpr_body_def Let_def intro!: good_call [OF E])
next
  case (LogicalOpExpr p operator lhs rhs)
  then show ?thesis using le by (auto simp: compileExpr_body_def Let_def intro!: goods good_logical [OF E])
next
  case (RelationalOpExpr p operator lhs rhs)
  then show ?thesis using le by (auto simp: compileExpr_body_def Let_def intro!: goods good_relational [OF E])
next
  case (StringConcatOpExpr p lhs rhs)
  then show ?thesis using le by (auto simp: compileExpr_body_def Let_def intro!: goods good_concat [OF E])
next
  case (ArithmeticOpExpr p operator lhs rhs)
  then show ?thesis using good_arith [OF E, of p operator lhs rhs r ec] le by (auto simp: compileExpr_body_def Let_def intro!: goods)
next
  case (UnaryMinusOpExpr p x)
  then show ?thesis using good_unary [OF E le, of p x] by (auto simp: compileExpr_body_def Let_def intro!: goods)
next
  case (UnaryNotOpExpr p x)
  then show ?thesis using good_unary [OF E le, of p x] by (auto simp: compileExpr_body_def Let_def intro!: goods)
next
  case (UnaryLenOpExpr p x)
  then show ?thesis using good_unary [OF E le, of p x] by (auto simp: compileExpr_body_def Let_def intro!: goods)
next
  case (UnaryBitNotOpExpr p x)
  then show ?thesis using good_unary [OF E le, of p x] by (auto simp: compileExpr_body_def Let_def intro!: goods)
next
  case (FunctionExpr p pars body)
  then have "\<forall>st \<in> set body. size st < n" using le size_below(1) [of body n] by auto
  then have f: "good (compileFunctionExpr S p pars body ec)" by (rule good_function [OF S])
  show ?thesis unfolding compileExpr_body_def Let_def FunctionExpr expr.case
    by (rule good_bnd_gives [OF good_child(1) good_child(2)])
      (auto intro!: f function_registers goods good_add_function split: prod.splits)
qed (auto simp: compileExpr_body_def Let_def intro!: goods split: sum.splits)

lemma good_compiler: "good_exprs n (compileExpr n) \<and> good_stmts n (compileStmt n)"
proof (induction n)
  case (Suc n)
  have "good (compileExpr (Suc n) r e ec)" if "size e < Suc n" for r e ec
    using good_expr [of n "compileExpr n" "compileStmt n"] Suc that by simp
  moreover have "good (compileStmt (Suc n) st l)" if "size st < Suc n" for st l
  proof (cases "n = 0")
    case True
    then have "size st = 0" using that by simp
    then show ?thesis using True by (cases st) (auto simp: compileStmt_body_def intro!: goods)
  next
    case False
    then show ?thesis using good_stmt [of n "compileExpr n" "compileStmt n"] Suc that by simp
  qed
  ultimately show ?case by (simp add: good_exprs_def good_stmts_def)
qed (simp add: good_exprs_def good_stmts_def)

lemma good_main:
  "good (compileFunctionExpr (compileStmt (size_list size chunk)) p pars chunk ec)"
  using good_compiler [of "size_list size chunk"] size_members(1) by (intro good_function) auto

lemma new_functions_ok: "functions_ok (newFuncContext name outer)"
  by (simp add: functions_ok_def newFuncContext_def)

text \<open>C4: Compilation always ends with a function, an error of the source program or a panic of the
  code: the fuel of the model, the size of the chunk, is never used up, however statements and
  function bodies nest.
\<close>

theorem compilation_ends: "compileASTToIRDirect chunk name \<noteq> Inl CFuel"
  using good_main [of chunk "chunk_pos chunk" "\<lparr>HasVargs = True, ParNames = []\<rparr>" "ecnone 0"] new_functions_ok [of name "[]"]
  by (auto simp: compileASTToIRDirect_def good_def dest!: spec [of _ "newFuncContext name []"] split: sum.splits)

text \<open>C6: In the function a chunk compiles to, and in every function nested in it, each register
  that an instruction reads or writes, as the validator of the bytecode counts them (for a
  \<open>TFORLOOP\<close> those up to \<open>A + 3 + C\<close>), is below the number of registers that the function declares, and so are the parameters; the number is at
  most 200. This holds after the patching of jumps and moves.
\<close>

theorem compiled_registers:
  assumes "compileASTToIRDirect chunk name = Inr f"
  shows "fn_ok f"
proof -
  let ?m = "compileFunctionExpr (compileStmt (size_list size chunk)) (chunk_pos chunk) \<lparr>HasVargs = True, ParNames = []\<rparr> chunk (ecnone 0)"
  from assms obtain u fc where m: "?m (newFuncContext name []) = Inr (u, fc)" and f: "f = finished fc"
    by (auto simp: compileASTToIRDirect_def split: sum.splits)
  have "functions_ok fc"
    using good_main [of chunk "chunk_pos chunk" "\<lparr>HasVargs = True, ParNames = []\<rparr>" "ecnone 0"] new_functions_ok [of name "[]"] m
    by (auto simp: good_def dest!: spec [of _ "newFuncContext name []"])
  moreover have "finished_ok fc" using function_registers m by (auto simp: ends_def)
  ultimately show ?thesis by (simp add: f finished_fn)
qed

end
