(* ===== verification/Keeping.thy ===== *)
theory Keeping
  imports VM
begin

text \<open>
  What the operations of a frame leave alone. The locale \<open>frame_invariant\<close> takes a property of
  states that survives changes of registers, tables, upvalues and gas and of the frame in one
  slot; the locale \<open>calling_frame\<close> adds that calls keep the property, and \<open>running_frame\<close> that
  this frame is the current one. The lemmas inside show, operation by operation, that every instruction that does
  not itself change the call stack keeps it too.
\<close>

section \<open>Computations that keep a property\<close>

text \<open>From states with \<open>K\<close>, a result is again one with \<open>K\<close>; when \<open>fo\<close>, the fuel is enough.\<close>

definition keeps :: "(vm \<Rightarrow> bool) \<Rightarrow> bool \<Rightarrow> 'a vmM \<Rightarrow> bool" where
  "keeps K fo m \<longleftrightarrow> (\<forall>s. K s \<longrightarrow> (case m s of Inr (x, s') \<Rightarrow> K s' | Inl e \<Rightarrow> fo \<longrightarrow> e \<noteq> VFuel))"

named_theorems keeping

lemma keeps_ret [keeping]: "keeps K fo (ret x)"
  by (simp add: keeps_def ret_def)

lemma keeps_bnd [keeping]:
  assumes "keeps K fo m" "\<And>x. keeps K fo (f x)" shows "keeps K fo (bnd m f)"
proof -
  have "case bnd m f s of Inr (x, s') \<Rightarrow> K s' | Inl e \<Rightarrow> fo \<longrightarrow> e \<noteq> VFuel" if "K s" for s
  proof (cases "m s")
    case (Inl e)
    then show ?thesis using assms(1) that by (auto simp: keeps_def bnd_def)
  next
    case (Inr r)
    then have "K (snd r)" using assms(1) that by (cases r) (auto simp: keeps_def)
    then show ?thesis using Inr assms(2) [of "fst r"] by (cases r) (simp add: keeps_def bnd_def)
  qed
  then show ?thesis by (simp add: keeps_def)
qed

lemma keeps_rd [keeping]: "keeps K fo (rd f)"
  by (simp add: keeps_def rd_def)

lemma keeps_vpanic [keeping]: "keeps K fo (vpanic p)"
  by (simp add: keeps_def vpanic_def)

lemma keeps_unmodelled [keeping]: "keeps K fo (\<lambda>s. Inl VUnmodelled)"
  by (simp add: keeps_def)

lemma keeps_and_then [keeping]: "keeps K fo m \<Longrightarrow> keeps K fo n \<Longrightarrow> keeps K fo (and_then m n)"
  unfolding and_then_def by (intro keeping)

lemma keeps_whenM [keeping]: "(b \<Longrightarrow> keeps K fo m) \<Longrightarrow> keeps K fo (whenM b m)"
  unfolding whenM_def by (simp add: keeps_ret)

lemma keeps_if [keeping]: "(b \<Longrightarrow> keeps K fo m) \<Longrightarrow> (\<not> b \<Longrightarrow> keeps K fo n) \<Longrightarrow> keeps K fo (if b then m else n)"
  by simp

lemma keeps_Let [keeping]: "keeps K fo (f x) \<Longrightarrow> keeps K fo (Let x f)"
  by simp

lemma keeps_option [keeping]:
  "(x = None \<Longrightarrow> keeps K fo m) \<Longrightarrow> (\<And>y. x = Some y \<Longrightarrow> keeps K fo (f y)) \<Longrightarrow> keeps K fo (case x of None \<Rightarrow> m | Some y \<Rightarrow> f y)"
  by (cases x) auto

lemma keeps_prod [keeping]: "(\<And>a b. keeps K fo (f a b)) \<Longrightarrow> keeps K fo (case p of (a, b) \<Rightarrow> f a b)"
  by (cases p) auto

lemma keeps_sum [keeping]:
  "(\<And>a. keeps K fo (f a)) \<Longrightarrow> (\<And>b. keeps K fo (g b)) \<Longrightarrow> keeps K fo (case r of Inl a \<Rightarrow> f a | Inr b \<Rightarrow> g b)"
  by (cases r) auto

lemma keeps_LValue [keeping]:
  "keeps K fo f1 \<Longrightarrow> (\<And>x. keeps K fo (f2 x)) \<Longrightarrow> (\<And>x. keeps K fo (f3 x)) \<Longrightarrow> (\<And>x. keeps K fo (f4 x)) \<Longrightarrow>
   (\<And>x. keeps K fo (f5 x)) \<Longrightarrow> (\<And>x. keeps K fo (f6 x)) \<Longrightarrow> (\<And>x. keeps K fo (f7 x)) \<Longrightarrow> (\<And>x. keeps K fo (f8 x)) \<Longrightarrow>
   keeps K fo (case v of LNil \<Rightarrow> f1 | LBool x \<Rightarrow> f2 x | LNum x \<Rightarrow> f3 x | LString x \<Rightarrow> f4 x | LAgent x \<Rightarrow> f5 x
     | LFunction x \<Rightarrow> f6 x | LUserData x \<Rightarrow> f7 x | LTable x \<Rightarrow> f8 x)"
  by (cases v) auto

lemma keeps_forM [keeping]: "(\<And>i. i \<in> set is \<Longrightarrow> keeps K fo (f i)) \<Longrightarrow> keeps K fo (forM is f)"
  by (induction "is") (auto intro: keeping)

lemma keeps_at_index [keeping]: "keeps K fo (at_index xs i)"
  unfolding at_index_def by (intro keeping)

lemma keeps_deref [keeping]: "keeps K fo (deref p)"
  unfolding deref_def by (intro keeping)

lemma keeps_or_panic [keeping]: "keeps K fo (or_panic r)"
  unfolding or_panic_def by (intro keeping)

lemma keeps_heap_at [keeping]: "keeps K fo (heap_at h i)"
  unfolding heap_at_def by (intro keeping)

text \<open>Reading only.\<close>

lemmas reading_defs = the_table_def the_function_def the_upvalue_def frame_at_def the_currentFrame_def frame_function_def
  frame_proto_def reg_get_def uv_Value_def top_reg_def type_of_def string_of_def metatable_raw_def
  metatable_def metaOp1_def metaOp2_def metaCall_def code_at_def frame_env_def frame_upvalue_def
  type_assertion_def

lemma keeps_reading [keeping]:
  "keeps K fo (the_table t)" "keeps K fo (the_function t)" "keeps K fo (the_upvalue t)" "keeps K fo (frame_at c)"
  "keeps K fo the_currentFrame" "keeps K fo (frame_function cf)" "keeps K fo (frame_proto cf)" "keeps K fo (reg_get i)"
  "keeps K fo (uv_Value t)" "keeps K fo top_reg" "keeps K fo (type_of v)" "keeps K fo (string_of v)"
  "keeps K fo (metaOp1 v ev)" "keeps K fo (metaOp2 v w ev)" "keeps K fo (metaCall v)"
  "keeps K fo (raw_get t v)" "keeps K fo (code_at c pc)" "keeps K fo (frame_env cf)"
  "keeps K fo (frame_upvalue cf i)" "keeps K fo type_assertion"
  unfolding reading_defs raw_get_def by (intro keeping)+

section \<open>Operations that stay in their frame\<close>

text \<open>
  What the operations of a frame may change: registers, tables, upvalues, functions without
  turning one into a host function, the gas within its limit, and the frame in slot \<open>c\<close>
  without its function and parent.
\<close>

locale frame_invariant =
  fixes K :: "vm \<Rightarrow> bool" and fo :: bool and c :: nat
  assumes K_reg: "K s \<Longrightarrow> K (s\<lparr>reg := r\<rparr>)"
    and K_tables: "K s \<Longrightarrow> K (s\<lparr>vtables := ts\<rparr>)"
    and K_cache: "K s \<Longrightarrow> K (s\<lparr>uvcache := us\<rparr>)"
    and K_upvals: "K s \<Longrightarrow> K (s\<lparr>vupvals := uvs\<rparr>)"
    and K_funcs: "K s \<Longrightarrow> length (vfuncs s) \<le> length fns \<Longrightarrow>
      (\<And>f. f < length (vfuncs s) \<Longrightarrow> IsG (fns ! f) = IsG (vfuncs s ! f)) \<Longrightarrow> K (s\<lparr>vfuncs := fns\<rparr>)"
    and K_gas: "K s \<Longrightarrow> gasUsed s \<le> g \<Longrightarrow> g \<le> gasLimit s \<Longrightarrow> K (s\<lparr>gasUsed := g\<rparr>)"
    and K_frame: "K s \<Longrightarrow> c < length (farray (cstack s)) \<Longrightarrow> Fn cf = Fn (farray (cstack s) ! c) \<Longrightarrow>
      Parent cf = Parent (farray (cstack s) ! c) \<Longrightarrow>
      K (s\<lparr>cstack := (cstack s)\<lparr>farray := (farray (cstack s))[c := cf]\<rparr>\<rparr>)"
begin

lemma keeps_upd: "(\<And>s. K s \<Longrightarrow> K (f s)) \<Longrightarrow> keeps K fo (upd f)"
  by (simp add: keeps_def upd_def)

lemma keeps_put_table [keeping]: "keeps K fo (put_table t tb)"
  unfolding put_table_def by (intro keeps_upd K_tables)

lemma keeps_new_table [keeping]: "keeps K fo (new_table tb)"
  unfolding new_table_def by (intro keeping keeps_upd K_tables)

lemma keeps_put_upvalue [keeping]: "keeps K fo (put_upvalue u uv)"
  unfolding put_upvalue_def by (intro keeps_upd K_upvals)

lemma keeps_uv_Close [keeping]: "keeps K fo (uv_Close u)"
  unfolding uv_Close_def by (intro keeping)

lemma keeps_closeUpvalues [keeping]: "keeps K fo (closeUpvalues idx)"
  unfolding closeUpvalues_def by (intro keeping keeps_upd K_cache)

lemma keeps_closeAllUpvalues [keeping]: "keeps K fo closeAllUpvalues"
  unfolding closeAllUpvalues_def by (intro keeping)

lemma keeps_throw_message [keeping]: "keeps K fo (throw_message m)"
  by (auto simp: keeps_def throw_message_def Let_def split: sum.splits)

lemma keeps_raiseError [keeping]: "keeps K fo (raiseError level m)"
  unfolding raiseError_def by (intro keeping)

lemma keeps_RaiseError [keeping]: "keeps K fo (RaiseError m)"
  unfolding RaiseError_def by (intro keeping)

lemma keeps_reg_do [keeping]: "keeps K fo (reg_do f)"
proof -
  have "keeps K fo (case e of ROverflow \<Rightarrow> RaiseError m | RPanic p \<Rightarrow> vpanic p)" for e m
    by (cases e) (auto intro: keeping)
  then show ?thesis unfolding reg_do_def by (intro keeping keeps_upd K_reg)
qed

lemma keeps_registers [keeping]:
  "keeps K fo (set_reg i v)" "keeps K fo (push_reg v)" "keeps K fo pop_reg" "keeps K fo (set_top t)"
  "keeps K fo (poke i v)" "keeps K fo (set_top_only t)"
  unfolding set_reg_def push_reg_def pop_reg_def set_top_def poke_def set_top_only_def
  by (intro keeping keeps_upd K_reg | assumption)+

lemma keeps_uv_SetValue [keeping]: "keeps K fo (uv_SetValue u v)"
  unfolding uv_SetValue_def by (intro keeping)

lemma keeps_findUpvalue [keeping]: "keeps K fo (findUpvalue idx)"
proof -
  have "K (s\<lparr>vupvals := a, uvcache := b\<rparr>)" if "K s" for s a b
    using K_cache [OF K_upvals [OF that]] by simp
  then show ?thesis unfolding findUpvalue_def by (intro keeping keeps_upd) auto
qed

end

interpretation anything: frame_invariant "\<lambda>s. True" fo c for fo c
  by unfold_locales auto

lemma add_fits: "\<not> (x > not 0 - c) \<Longrightarrow> (x::u64) \<le> x + c"
proof -
  assume a: "\<not> (x > not 0 - c)"
  have "unat (not 0 - c :: u64) = 2 ^ 64 - 1 - unat c"
  proof -
    have "unat (not (0::u64)) = 2 ^ 64 - 1" by (simp add: unsigned_minus_1_eq_mask mask_eq_exp_minus_1)
    moreover have "c \<le> not 0" by simp
    ultimately show ?thesis by (simp add: unat_sub)
  qed
  moreover have "unat c < 2 ^ 64" using unsigned_less [of c] by simp
  ultimately have "unat x + unat c < 2 ^ 64" using a by (simp add: word_less_nat_alt)
  then show ?thesis by (simp add: word_le_nat_alt unat_word_ariths)
qed

text \<open>An error is raised, whatever the state.\<close>

lemma RaiseError_raises: "\<exists>e. RaiseError m s = Inl e \<and> e \<noteq> VFuel"
proof -
  have "\<exists>e. throw_message t s = Inl e \<and> e \<noteq> VFuel" for t s
    by (cases "bindr (if reg_IsFull (reg s) then forceResize (rtop (reg s) + 1) (reg s) else Inr (reg s)) (reg_Push (Some (LString t)))")
      (auto simp: throw_message_def Let_def)
  moreover have "keeps (\<lambda>s. True) True (whenM b closeAllUpvalues)" for b by (intro keeping)
  ultimately show ?thesis
    unfolding RaiseError_def raiseError_def
    by (fastforce simp: keeps_def bnd_def rd_def and_then_def split: sum.splits)
qed

context frame_invariant
begin

lemma keeps_chargeGas [keeping]: "keeps K fo (chargeGas cost)"
proof -
  have "case chargeGas cost s of Inr (x, s') \<Rightarrow> K s' | Inl e \<Rightarrow> fo \<longrightarrow> e \<noteq> VFuel" if "K s" for s
  proof -
    define g where "g = (if gasUsed s > not 0 - cost then not 0 else gasUsed s + cost)"
    have le: "gasUsed s \<le> g" unfolding g_def using add_fits [of cost "gasUsed s"] by simp
    obtain e where e: "(RaiseError ''lua: gas limit exceeded'' :: unit vmM) (s\<lparr>gasUsed := g\<rparr>) = Inl e" "e \<noteq> VFuel"
      using RaiseError_raises by blast
    have "chargeGas cost s =
        (if cost = 0 \<or> gasLimit s = 0 then Inr ((), s)
         else if g > gasLimit s then RaiseError ''lua: gas limit exceeded'' (s\<lparr>gasUsed := g\<rparr>)
         else Inr ((), s\<lparr>gasUsed := g\<rparr>))"
      by (simp add: chargeGas_def bnd_def rd_def ret_def and_then_def upd_def whenM_def g_def)
    then show ?thesis
      using that e K_gas [OF that le] by (simp only: split: if_split) (auto simp: not_less)
  qed
  then show ?thesis by (simp add: keeps_def)
qed

lemma keeps_chargeLinearWorkGas [keeping]: "keeps K fo (chargeLinearWorkGas n)"
  unfolding chargeLinearWorkGas_def by (intro keeping)

lemma keeps_set_frame:
  "(\<And>cf. Fn (f cf) = Fn cf \<and> Parent (f cf) = Parent cf) \<Longrightarrow> keeps K fo (set_frame c f)"
  using K_frame
  by (auto simp: keeps_def set_frame_def frame_at_def bnd_def rd_def upd_def heap_at_def ret_def vpanic_def)

lemma keeps_add_pc [keeping]: "keeps K fo (add_pc c n)"
  unfolding add_pc_def by (intro keeps_set_frame) simp

lemma keeps_raw_set [keeping]: "keeps K fo (raw_set t k v)" "keeps K fo (raw_set_int t i v)" "keeps K fo (ls_RawSet t k v)"
  unfolding ls_RawSet_def raw_set_def raw_set_int_def by (intro keeping)+

lemma keeps_index_error [keeping]: "keeps K fo (index_error a b)"
  unfolding index_error_def by (intro keeping)

text \<open>Setting up a frame in slot \<open>c\<close>.\<close>

lemma keeps_arg_table [keeping]: "keeps K fo (arg_table i n)"
  unfolding arg_table_def by (intro keeping)

lemma keeps_init_varargs [keeping]: "keeps K fo (init_varargs c p nargs np)"
  unfolding init_varargs_def by (intro keeping keeps_set_frame) simp

lemma keeps_initCallFrame [keeping]: "keeps K fo (initCallFrame c)"
  unfolding initCallFrame_def fill_nil_def by (intro keeping)

lemma keeps_new_function [keeping]: "keeps K fo (new_function fn)"
  unfolding new_function_def by (intro keeping keeps_upd K_funcs) (auto simp: nth_append)

lemma keeps_set_closure_upvalue [keeping]: "keeps K fo (set_closure_upvalue f i u)"
proof -
  have "IsG (h[f := (h ! f)\<lparr>Upvalues := us\<rparr>] ! g) = IsG (h ! g)" for h :: "lfunction list" and g us
    by (cases "f = g"; cases "f < length h") (auto simp: list_update_beyond)
  then have "K (s\<lparr>vfuncs := (vfuncs s)[f := (vfuncs s ! f)\<lparr>Upvalues := us\<rparr>]\<rparr>)" if "K s" for s us
    using that by (intro K_funcs) auto
  then show ?thesis
    by (auto simp: keeps_def set_closure_upvalue_def the_function_def bnd_def rd_def upd_def heap_at_def ret_def vpanic_def)
qed

lemma keeps_copyReturnValues [keeping]: "keeps K fo (copyReturnValues regv start n b)"
  unfolding copyReturnValues_def by (intro keeping)

end

text \<open>Operations that may call functions.\<close>

locale calling_frame = frame_invariant +
  fixes call :: callback
  assumes K_call: "keeps K fo (call a b r)"
begin

lemma keeps_call [keeping]: "keeps K fo (call a b r)"
  by (rule K_call)

lemma keeps_call_meta [keeping]: "keeps K fo (call_function call vs n)" "keeps K fo (call_meta call vs)"
  unfolding call_meta_def call_function_def by (intro keeping)+

lemma keeps_getField [keeping]: "keeps K fo (getField call v k)" "keeps K fo (getFieldString call v t)"
proof -
  have "keeps K fo (getField_loop call k n v)" for k n v
    by (induction n arbitrary: v) (auto intro!: keeping)
  then show "keeps K fo (getField call v k)" "keeps K fo (getFieldString call v t)"
    unfolding getField_def getFieldString_def by auto
qed

lemma keeps_setField [keeping]: "keeps K fo (setField call v k x)" "keeps K fo (setFieldString call v t x)"
proof -
  have "keeps K fo (setField_loop call k x n v)" for k n v
    by (induction n arbitrary: v) (auto intro!: keeping)
  then show "keeps K fo (setField call v k x)" "keeps K fo (setFieldString call v t x)"
    unfolding setField_def setFieldString_def by auto
qed

lemma keeps_errors [keeping]:
  "keeps K fo (arith_error p a b)" "keeps K fo (concat_error a b)" "keeps K fo (compare_error a b)"
  unfolding arith_error_def concat_error_def compare_error_def by (intro keeping)+

lemma keeps_numberArith [keeping]: "keeps K fo (numberArith p a b)"
  unfolding numberArith_def by (cases p) (auto intro!: keeping)

lemma keeps_objectArith [keeping]: "keeps K fo (objectArith call p a b)"
  unfolding objectArith_def by (intro keeping)

lemma keeps_strings [keeping]: "keeps K fo (slot_AsString v)" "keeps K fo (addStringResultBytes op a b)"
  unfolding slot_AsString_def addStringResultBytes_def by (intro keeping)+

lemma keeps_stringConcat [keeping]: "keeps K fo (stringConcat call n r)"
proof -
  have [keeping]: "keeps K fo (concat_join n i l buf)" for n i l buf
    by (induction n arbitrary: i l buf) (auto intro!: keeping)
  have "keeps K fo (concat_loop call k n i v)" for k n i v
    by (induction k arbitrary: n i v) (auto intro!: keeping)
  then show ?thesis unfolding stringConcat_def by (intro keeping)
qed

lemma keeps_objectRational [keeping]:
  "keeps K fo (objectRational call a b ev)" "keeps K fo (objectRationalWithError call a b ev)"
  unfolding objectRationalWithError_def objectRational_def by (intro keeping)+

lemma keeps_compare [keeping]:
  "keeps K fo (mixed_compare call ev a b)" "keeps K fo (equals call a b raw)" "keeps K fo (lessThan call a b)"
  "keeps K fo (lessEqual call a b)"
  unfolding equals_def lessThan_def lessEqual_def mixed_compare_def by (intro keeping)+

end

text \<open>An instruction runs in the current frame.\<close>

locale running_frame = calling_frame +
  assumes K_current: "K s \<Longrightarrow> currentFrame s = Some c"
begin

lemma keeps_with_frame [keeping]: "(\<And>cf. keeps K fo (f c cf)) \<Longrightarrow> keeps K fo (with_frame f)"
proof -
  assume f: "\<And>cf. keeps K fo (f c cf)"
  have "keeps K fo (bnd (frame_at c) (f c))" by (intro keeping f)
  moreover have "K s \<Longrightarrow> with_frame f s = bnd (frame_at c) (f c) s" for s
    using K_current by (simp add: with_frame_def the_currentFrame_def bnd_def rd_def deref_def ret_def)
  ultimately show ?thesis by (simp add: keeps_def)
qed

lemma keeps_current [keeping]: "keeps K fo (f c) \<Longrightarrow> keeps K fo (bnd the_currentFrame f)"
proof -
  assume f: "keeps K fo (f c)"
  have "K s \<Longrightarrow> bnd the_currentFrame f s = f c s" for s
    using K_current by (simp add: the_currentFrame_def bnd_def rd_def deref_def ret_def)
  with f show ?thesis by (simp add: keeps_def)
qed

lemma keeps_operands [keeping]: "keeps K fo (rkValue i)" "keeps K fo (rkString i)"
  unfolding rkValue_def rkString_def by (intro keeping | simp)+

lemma keeps_moves:
  "keeps K fo (vm_MOVE w)" "keeps K fo (vm_LOADK w)" "keeps K fo (vm_LOADBOOL w)" "keeps K fo (vm_LOADNIL w)"
  "keeps K fo (vm_GETUPVAL w)" "keeps K fo (vm_SETUPVAL w)" "keeps K fo (vm_NEWTABLE w)" "keeps K fo (vm_NOT w)"
  "keeps K fo (vm_JMP w)" "keeps K fo (vm_TEST w)" "keeps K fo (vm_TESTSET w)"
  unfolding vm_MOVE_def vm_LOADK_def vm_LOADBOOL_def vm_LOADNIL_def vm_GETUPVAL_def vm_SETUPVAL_def
    vm_NEWTABLE_def vm_NOT_def vm_JMP_def vm_TEST_def vm_TESTSET_def
  by (intro keeping)+

lemma keeps_MOVEN: "keeps K fo (vm_MOVEN w)"
proof -
  have "keeps K fo (moven_loop c l n pc)" for l n pc
    by (induction n arbitrary: pc) (auto intro!: keeping)
  then show ?thesis unfolding vm_MOVEN_def by (intro keeping keeps_set_frame) auto
qed

lemma keeps_fields:
  "keeps K fo (vm_GETGLOBAL call w)" "keeps K fo (vm_SETGLOBAL call w)" "keeps K fo (vm_GETTABLE call w)"
  "keeps K fo (vm_GETTABLEKS call w)" "keeps K fo (vm_SETTABLE call w)" "keeps K fo (vm_SETTABLEKS call w)"
  "keeps K fo (vm_SELF call w)"
  unfolding vm_GETGLOBAL_def vm_SETGLOBAL_def vm_GETTABLE_def vm_GETTABLEKS_def vm_SETTABLE_def
    vm_SETTABLEKS_def vm_SELF_def
  by (intro keeping)+

lemma keeps_arith:
  "keeps K fo (opArith call p w)" "keeps K fo (vm_UNM call w)" "keeps K fo (vm_BNOT call w)" "keeps K fo (vm_LEN call w)"
  unfolding opArith_def vm_UNM_def vm_BNOT_def vm_LEN_def by (intro keeping)+

lemma keeps_CONCAT: "keeps K fo (vm_CONCAT call w)"
  unfolding vm_CONCAT_def by (intro keeping)

lemma keeps_comparisons: "keeps K fo (vm_EQ call w)" "keeps K fo (vm_LT call w)" "keeps K fo (vm_LE call w)"
  unfolding vm_EQ_def vm_LT_def vm_LE_def compare_op_def skip_unless_def by (intro keeping)+

lemma keeps_loops: "keeps K fo (vm_FORLOOP w)" "keeps K fo (vm_FORPREP w)" "keeps K fo (vm_TFORLOOP call w)"
  unfolding vm_FORLOOP_def vm_FORPREP_def vm_TFORLOOP_def by (intro keeping)+

lemma keeps_SETLIST: "keeps K fo (vm_SETLIST w)"
  unfolding vm_SETLIST_def by (intro keeping)

lemma keeps_CLOSE: "keeps K fo (vm_CLOSE call w)"
  unfolding vm_CLOSE_def closeToBeClosedVars_def close_variable_def by (intro keeping)

lemma keeps_CLOSURE: "keeps K fo (vm_CLOSURE w)"
  unfolding vm_CLOSURE_def bind_upvalue_def by (intro keeping)

lemma keeps_VARARG: "keeps K fo (vm_VARARG w)"
  unfolding vm_VARARG_def by (intro keeping)

lemmas keeps_instructions = keeps_moves keeps_MOVEN keeps_fields keeps_arith keeps_CONCAT keeps_comparisons keeps_loops
  keeps_SETLIST keeps_CLOSE keeps_CLOSURE keeps_VARARG

end

end
