(* ===== verification/Metering.thy ===== *)
theory Metering
  imports Keeping
begin

text \<open>
  The call stack during a run: what a call leaves as it was (\<open>within\<close>, the instance of the
  locales of theory \<open>Keeping\<close>), what is asked of a host function (\<open>host_ok\<close>), the fuel a call
  needs (\<open>call_need\<close>), and the effect of pushing and popping a frame.
\<close>

section \<open>Results with a postcondition\<close>

definition spec :: "bool \<Rightarrow> 'a vmM \<Rightarrow> vm \<Rightarrow> ('a \<Rightarrow> vm \<Rightarrow> bool) \<Rightarrow> bool" where
  "spec fo m s Q \<longleftrightarrow> (case m s of Inr (x, s') \<Rightarrow> Q x s' | Inl e \<Rightarrow> fo \<longrightarrow> e \<noteq> VFuel)"

lemma spec_bnd [simp]: "spec fo (bnd m f) s Q \<longleftrightarrow> spec fo m s (\<lambda>x s'. spec fo (f x) s' Q)"
  by (cases "m s") (auto simp: spec_def bnd_def)

lemma spec_and_then [simp]: "spec fo (and_then m n) s Q \<longleftrightarrow> spec fo m s (\<lambda>x s'. spec fo n s' Q)"
  by (simp add: and_then_def)

lemma spec_simple [simp]:
  "spec fo (ret x) s Q \<longleftrightarrow> Q x s" "spec fo (rd f) s Q \<longleftrightarrow> Q (f s) s" "spec fo (upd g) s R \<longleftrightarrow> R () (g s)"
  "spec fo (vpanic p) s Q"
  by (auto simp: spec_def ret_def rd_def upd_def vpanic_def)

lemma spec_RaiseError [simp]:
  fixes Q :: "'a \<Rightarrow> vm \<Rightarrow> bool"
  shows "spec fo (RaiseError t) s Q"
proof -
  obtain e where "(RaiseError t :: 'a vmM) s = Inl e" "e \<noteq> VFuel" using RaiseError_raises by blast
  then show ?thesis by (simp add: spec_def)
qed

lemma spec_whenM [simp]: "spec fo (whenM b m) s Q \<longleftrightarrow> (if b then spec fo m s Q else Q () s)"
  by (simp add: whenM_def)

lemma spec_parts [simp]:
  "spec fo (at_index xs i) s Q \<longleftrightarrow> (0 \<le> i \<and> i < int (length xs) \<longrightarrow> Q (xs ! nat i) s)"
  "spec fo (deref p) s Q1 \<longleftrightarrow> (\<forall>x. p = Some x \<longrightarrow> Q1 x s)"
  "spec fo (heap_at xs j) s Q \<longleftrightarrow> (j < length xs \<longrightarrow> Q (xs ! j) s)"
  "spec fo (or_panic r) s Q2 \<longleftrightarrow> (\<forall>x. r = Inr x \<longrightarrow> Q2 x s)"
  by (auto simp: at_index_def deref_def heap_at_def or_panic_def split: option.split sum.split)

lemma spec_mono: "spec fo m s P \<Longrightarrow> (\<And>x s'. P x s' \<Longrightarrow> Q x s') \<Longrightarrow> spec fo m s Q"
  by (auto simp: spec_def split: sum.splits)

lemma spec_keeps: "keeps K fo m \<Longrightarrow> K s \<Longrightarrow> (\<And>x s'. K s' \<Longrightarrow> Q x s') \<Longrightarrow> spec fo m s Q"
  by (fastforce simp: keeps_def spec_def split: sum.splits)

section \<open>The call stack\<close>

definition parents_below :: "vm \<Rightarrow> bool" where
  "parents_below s \<longleftrightarrow> (\<forall>i < length (farray (cstack s)). \<forall>p. Parent (farray (cstack s) ! i) = Some p \<longrightarrow> p < i)"

definition stack_ok :: "vm \<Rightarrow> bool" where
  "stack_ok s \<longleftrightarrow> 0 \<le> fsp (cstack s) \<and> fsp (cstack s) \<le> int (length (farray (cstack s))) \<and>
     currentFrame s = last_slot s \<and> parents_below s"

text \<open>The thread is started before its first frame runs.\<close>

definition ready :: "vm \<Rightarrow> bool" where
  "ready s \<longleftrightarrow> stack_ok s \<and> (MainThread s \<or> fsp (cstack s) = 0)"

text \<open>Without a limit the counter rests; with one, it cannot wrap: both are below the largest number.\<close>

definition gas_ok :: "vm \<Rightarrow> bool" where
  "gas_ok s \<longleftrightarrow> gasLimit s = 0 \<or> gasLimit s < -1 \<and> gasUsed s < -1"

definition funcs_kept :: "vm \<Rightarrow> vm \<Rightarrow> bool" where
  "funcs_kept s s' \<longleftrightarrow> length (vfuncs s) \<le> length (vfuncs s') \<and>
     (\<forall>f < length (vfuncs s). IsG (vfuncs s' ! f) = IsG (vfuncs s ! f))"

text \<open>Between \<open>s\<close> and \<open>s'\<close> the frames below \<open>d\<close> did not change.\<close>

definition drift :: "nat \<Rightarrow> vm \<Rightarrow> vm \<Rightarrow> bool" where
  "drift d s s' \<longleftrightarrow> length (farray (cstack s')) = length (farray (cstack s)) \<and>
     (\<forall>i < d. farray (cstack s') ! i = farray (cstack s) ! i) \<and> funcs_kept s s' \<and>
     gasLimit s' = gasLimit s \<and> gasUsed s \<le> gasUsed s' \<and> (MainThread s \<longrightarrow> MainThread s')"

lemma drift_refl [simp]: "drift d s s"
  by (simp add: drift_def funcs_kept_def)

lemma drift_trans: "drift d a b \<Longrightarrow> drift d b c \<Longrightarrow> drift d a c"
  by (auto simp: drift_def funcs_kept_def)

lemma drift_le: "drift d a b \<Longrightarrow> d' \<le> d \<Longrightarrow> drift d' a b"
  by (auto simp: drift_def)

text \<open>The stack is as high as before, and each slot has its function.\<close>

definition within :: "vm \<Rightarrow> nat \<Rightarrow> vm \<Rightarrow> bool" where
  "within s d s' \<longleftrightarrow> drift d s s' \<and> fsp (cstack s') = fsp (cstack s) \<and> currentFrame s' = currentFrame s \<and>
     (\<forall>i < nat (fsp (cstack s)). Fn (farray (cstack s') ! i) = Fn (farray (cstack s) ! i)) \<and>
     parents_below s' \<and> gas_ok s'"

lemma within_refl: "parents_below s \<Longrightarrow> gas_ok s \<Longrightarrow> within s d s"
  by (simp add: within_def)

lemma within_trans: "within a d b \<Longrightarrow> within b d c \<Longrightarrow> within a d c"
  by (auto simp: within_def elim: drift_trans)

lemma within_le: "within a d b \<Longrightarrow> d' \<le> d \<Longrightarrow> within a d' b"
  by (auto simp: within_def elim: drift_le)

lemma within_ready: "ready s \<Longrightarrow> within s d s' \<Longrightarrow> ready s'"
  by (auto simp: ready_def stack_ok_def within_def drift_def last_slot_def)

text \<open>Registers, tables and upvalues are not part of this.\<close>

lemma within_updates [simp]:
  "within s0 d (s\<lparr>reg := r\<rparr>) = within s0 d s"
  "within s0 d (s\<lparr>vtables := ts\<rparr>) = within s0 d s"
  "within s0 d (s\<lparr>uvcache := us\<rparr>) = within s0 d s"
  "within s0 d (s\<lparr>vupvals := uvs\<rparr>) = within s0 d s"
  by (auto simp: within_def drift_def funcs_kept_def parents_below_def gas_ok_def)

interpretation frame: frame_invariant "within s0 d" fo d for fo s0 d
proof unfold_locales
  show "within s0 d (s\<lparr>vfuncs := fns\<rparr>)" if "within s0 d s" "length (vfuncs s) \<le> length fns"
    "\<And>f. f < length (vfuncs s) \<Longrightarrow> IsG (fns ! f) = IsG (vfuncs s ! f)" for s fns
    using that by (auto simp: within_def drift_def funcs_kept_def parents_below_def gas_ok_def)
  show "within s0 d (s\<lparr>gasUsed := g\<rparr>)" if "within s0 d s" "gasUsed s \<le> g" "g \<le> gasLimit s" for s g
    using that by (auto simp: within_def drift_def funcs_kept_def parents_below_def gas_ok_def)
  show "within s0 d (s\<lparr>cstack := (cstack s)\<lparr>farray := (farray (cstack s))[d := cf]\<rparr>\<rparr>)"
    if "within s0 d s" "d < length (farray (cstack s))" "Fn cf = Fn (farray (cstack s) ! d)"
      "Parent cf = Parent (farray (cstack s) ! d)" for s cf
    using that by (auto simp: within_def drift_def funcs_kept_def parents_below_def gas_ok_def nth_list_update)
qed simp_all

section \<open>Calls\<close>

text \<open>A host function runs, lets its callbacks run, and leaves the call stack as it found it.\<close>

definition runs :: "bool \<Rightarrow> 'a vmM \<Rightarrow> vm \<Rightarrow> bool" where
  "runs fo m s \<longleftrightarrow> spec fo m s (\<lambda>x. within s (nat (fsp (cstack s))))"

definition host_ok :: "(nat \<Rightarrow> callback \<Rightarrow> int vmM) \<Rightarrow> bool" where
  "host_ok G \<longleftrightarrow> (\<forall>fo i call s. ready s \<longrightarrow> gas_ok s \<longrightarrow>
     (\<forall>a b r s'. within s (nat (fsp (cstack s))) s' \<longrightarrow> runs fo (call a b r) s') \<longrightarrow> runs fo (G i call) s)"

definition gas_left :: "vm \<Rightarrow> nat" where
  "gas_left s = unat (gasLimit s) + 1 - unat (gasUsed s)"

definition frames_cap :: "vm \<Rightarrow> nat" where
  "frames_cap s = length (farray (cstack s))"

text \<open>The fuel a call needs: a unit of gas pays for a nested run at every depth of the stack.\<close>

definition call_need :: "vm \<Rightarrow> nat" where
  "call_need s = gas_left s * (frames_cap s + 2) + (frames_cap s - nat (fsp (cstack s))) + 1"

lemma gas_left_drift: "drift d s s' \<Longrightarrow> gas_left s' \<le> gas_left s \<and> frames_cap s' = frames_cap s"
  by (auto simp: drift_def gas_left_def frames_cap_def word_le_nat_alt)

lemma call_need_within: "within s d s' \<Longrightarrow> call_need s' \<le> call_need s"
  using gas_left_drift [of d s s'] mult_le_mono1 [of "gas_left s'" "gas_left s" "frames_cap s + 2"]
  by (simp add: within_def call_need_def)

definition callable_with :: "bool \<Rightarrow> nat \<Rightarrow> vm \<Rightarrow> bool" where
  "callable_with fo n s \<longleftrightarrow> ready s \<and> gas_ok s \<and> (fo \<longrightarrow> gasLimit s \<noteq> 0 \<and> call_need s \<le> n)"

definition calls_run :: "bool \<Rightarrow> nat \<Rightarrow> callback \<Rightarrow> bool" where
  "calls_run fo n call \<longleftrightarrow> (\<forall>s a b r. callable_with fo n s \<longrightarrow> runs fo (call a b r) s)"

lemma callable_within: "callable_with fo n s \<Longrightarrow> within s d s' \<Longrightarrow> callable_with fo n s'"
  using within_ready [of s d s'] call_need_within [of s d s'] by (auto simp: callable_with_def within_def drift_def)

text \<open>The frame in slot \<open>d\<close> was popped.\<close>

definition popped :: "nat \<Rightarrow> vm \<Rightarrow> vm \<Rightarrow> bool" where
  "popped d s s' \<longleftrightarrow> drift d s s' \<and> fsp (cstack s') = int d \<and> ready s' \<and> gas_ok s'"

lemma running_frame_within:
  assumes "currentFrame s = Some d" "nat (fsp (cstack s)) = Suc d" "callable_with fo n s" "calls_run fo n call"
  shows "running_frame (within s d) fo d call"
proof unfold_locales
  show "currentFrame s' = Some d" if "within s d s'" for s'
    using that assms(1) by (simp add: within_def)
  show "keeps (within s d) fo (call a b r)" for a b r
  proof -
    have "spec fo (call a b r) s' (\<lambda>x. within s d)" if w: "within s d s'" for s'
    proof -
      have "runs fo (call a b r) s'"
        using callable_within [OF assms(3) w] assms(4) by (simp add: calls_run_def)
      moreover have "nat (fsp (cstack s')) = Suc d" using w assms(2) by (simp add: within_def)
      ultimately have "spec fo (call a b r) s' (\<lambda>x. within s' (Suc d))" by (simp add: runs_def)
      then show ?thesis by (rule spec_mono) (meson w within_le within_trans lessI less_imp_le)
    qed
    then show ?thesis by (simp add: keeps_def spec_def)
  qed
qed

text \<open>Going into a frame, which is set up before it becomes the current one.\<close>

definition pushed :: "callFrame \<Rightarrow> vm \<Rightarrow> vm \<Rightarrow> bool" where
  "pushed cf s s' \<longleftrightarrow> drift (nat (fsp (cstack s))) s s' \<and> fsp (cstack s') = fsp (cstack s) + 1 \<and> stack_ok s' \<and>
     gas_ok s' \<and> Fn cf \<noteq> None \<and> Fn (farray (cstack s') ! nat (fsp (cstack s))) = Fn cf"

lemma pushCallFrame_spec:
  assumes s: "stack_ok s" "gas_ok s" and p: "Parent cf = currentFrame s"
  shows "spec fo (pushCallFrame cf fn meta) s (\<lambda>x. pushed cf s)"
proof -
  define d where "d = nat (fsp (cstack s))"
  define cf' where "cf' = (if meta then cf\<lparr>NArgs := NArgs cf + 1\<rparr> else cf)"
  have cf': "Fn cf' = Fn cf" "Parent cf' = currentFrame s" by (auto simp: cf'_def p)
  have d: "fsp (cstack s) = int d" "d \<le> length (farray (cstack s))"
    and cur: "currentFrame s = last_slot s" and par: "parents_below s"
    using s(1) by (auto simp: d_def stack_ok_def)
  have w: "within s d s" using par s(2) by (rule within_refl)
  define T where "T = and_then (push_frame cf') (bnd (rd last_slot) (\<lambda>newcf. bnd (deref newcf) (\<lambda>c.
      and_then (initCallFrame c) (upd (\<lambda>s. s\<lparr>currentFrame := Some c\<rparr>)))))"
  have pushing: "spec fo T s1 (\<lambda>x. pushed cf s)"
    if w1: "within s d s1" and fn: "Fn cf \<noteq> None" for s1
  proof (cases "fixed_Push cf' (cstack s1)")
    case (Inr cs)
    then have cs: "d < length (farray (cstack s1))"
      "cs = (cstack s1)\<lparr>farray := (farray (cstack s1))[d := cf'\<lparr>Idx := int d\<rparr>], fsp := int d + 1\<rparr>"
      using w1 d by (auto simp: fixed_Push_def within_def split: if_splits)
    define s2 where "s2 = s1\<lparr>cstack := cs\<rparr>"
    have f2: "Fn (farray (cstack s2) ! d) = Fn cf" "Parent (farray (cstack s2) ! d) = currentFrame s"
      using cs cf' by (simp_all add: s2_def)
    have d2: "drift d s s2" "fsp (cstack s2) = int d + 1" "last_slot s2 = Some d" "gas_ok s2"
      using w1 cs by (auto simp: s2_def within_def drift_def funcs_kept_def last_slot_def gas_ok_def)
    have par2: "parents_below s2"
      using w1 cs d cur cf'(2)
      by (auto simp: s2_def parents_below_def within_def nth_list_update last_slot_def split: if_splits)
    have "spec fo (initCallFrame d) s2 (\<lambda>x. within s2 d)"
      by (rule spec_keeps [OF frame.keeps_initCallFrame within_refl [OF par2 d2(4)]])
    then have "spec fo (initCallFrame d) s2 (\<lambda>x s3. pushed cf s (s3\<lparr>currentFrame := Some d\<rparr>))"
    proof (rule spec_mono)
      fix x s3
      assume w3: "within s2 d s3"
      have "drift d s s3" using d2(1) w3 drift_trans by (auto simp: within_def)
      then show "pushed cf s (s3\<lparr>currentFrame := Some d\<rparr>)"
        using w3 d2 f2 fn d cs
        by (auto simp: pushed_def within_def stack_ok_def last_slot_def drift_def funcs_kept_def parents_below_def gas_ok_def
            s2_def d_def [symmetric])
    qed
    then show ?thesis using Inr d2(3) by (simp add: T_def push_frame_def s2_def [symmetric])
  qed (simp add: T_def push_frame_def)
  have ins: "spec fo (whenM meta (reg_do (reg_Insert fn (LocalBase cf')))) s (\<lambda>x. within s d)"
    by (rule spec_keeps [OF keeps_whenM [OF frame.keeps_reg_do] w])
  show ?thesis
    unfolding pushCallFrame_def Let_def cf'_def [symmetric] T_def [symmetric] spec_and_then [of _ "whenM meta m" for m]
    by (rule spec_mono [OF ins]) (use pushing cf'(1) in auto)
qed

lemma pop_frame_spec [simp]:
  "spec fo pop_frame s Q \<longleftrightarrow>
     (0 < fsp (cstack s) \<and> fsp (cstack s) \<le> int (length (farray (cstack s))) \<longrightarrow>
      Q (nat (fsp (cstack s) - 1)) (s\<lparr>cstack := (cstack s)\<lparr>fsp := fsp (cstack s) - 1\<rparr>\<rparr>))"
  by (simp add: pop_frame_def) linarith?

text \<open>The last steps of a call: the results are copied in the frame \<open>d\<close> that was popped, or is popped next.\<close>

lemma popped_intro:
  assumes "drift d s s1" "parents_below s1" "gas_ok s1" "MainThread s1 \<or> d = 0"
    "d \<le> length (farray (cstack s1))" "fsp (cstack s1) = int d"
  shows "popped d s (s1\<lparr>currentFrame := last_slot s1\<rparr>)"
  using assms
  by (auto simp: popped_def drift_def funcs_kept_def ready_def stack_ok_def last_slot_def parents_below_def gas_ok_def)

lemma pop_popped:
  assumes "within s d s1" "ready s" "fsp (cstack s) = int d + 1"
  shows "spec fo pop_frame s1 (\<lambda>x s2. popped d s (s2\<lparr>currentFrame := last_slot s2\<rparr>))"
  using assms
  by (auto simp: within_def drift_def funcs_kept_def ready_def stack_ok_def parents_below_def gas_ok_def intro!: popped_intro)

lemma host_okD:
  "host_ok G \<Longrightarrow> ready s \<Longrightarrow> gas_ok s \<Longrightarrow>
   (\<And>a b r s'. within s (nat (fsp (cstack s))) s' \<Longrightarrow> runs fo (call a b r) s') \<Longrightarrow>
   spec fo (G i call) s (\<lambda>x. within s (nat (fsp (cstack s))))"
  unfolding host_ok_def runs_def by blast

lemma drift_currentFrame [simp]:
  "drift d s (s'\<lparr>currentFrame := c\<rparr>) = drift d s s'" "drift d (s\<lparr>currentFrame := c\<rparr>) s' = drift d s s'"
  by (simp_all add: drift_def funcs_kept_def)

lemma popped_drift: "popped d s1 s2 \<Longrightarrow> drift d s s1 \<Longrightarrow> popped d s s2"
  by (auto simp: popped_def elim: drift_trans)

lemma return_from_G_spec:
  assumes "ready s" "gas_ok s" "fsp (cstack s) = int d + 1"
  shows "spec fo (return_from_G c g) s (\<lambda>x. popped d s)"
proof -
  have w: "within s d s" using assms(1,2) by (intro within_refl) (auto simp: ready_def stack_ok_def)
  have "spec fo (reg_do f) s (\<lambda>x s2. spec fo pop_frame s2 (\<lambda>x s3. popped d s (s3\<lparr>currentFrame := last_slot s3\<rparr>)))" for f
    by (rule spec_keeps [OF frame.keeps_reg_do w]) (rule pop_popped [OF _ assms(1,3)])
  then show ?thesis
    by (auto simp: return_from_G_def frame_at_def top_reg_def Let_def simp del: pop_frame_spec)
qed

lemma callGFunction_spec:
  assumes s: "ready s" "gas_ok s" "fsp (cstack s) = int d + 1"
    and G: "host_ok G" "\<And>a b r s'. within s (Suc d) s' \<Longrightarrow> runs fo (call a b r) s'"
  shows "spec fo (callGFunction G call False) s (\<lambda>x. popped d s)"
proof -
  have d: "nat (fsp (cstack s)) = Suc d" "currentFrame s = Some d" using s by (auto simp: ready_def stack_ok_def last_slot_def)
  have "spec fo (G i call) s (\<lambda>g s1. spec fo (return_from_G d g) s1 (\<lambda>x. popped d s))" for i
  proof (rule spec_mono [OF host_okD [OF G(1) s(1,2)]])
    fix g s1
    assume w: "within s (nat (fsp (cstack s))) s1"
    have m: "gas_ok s1" "fsp (cstack s1) = int d + 1" and dr: "drift d s s1"
      using w s(3) d by (auto simp: within_def elim: drift_le)
    show "spec fo (return_from_G d g) s1 (\<lambda>x. popped d s)"
      by (rule spec_mono [OF return_from_G_spec [OF within_ready [OF s(1) w] m]]) (erule popped_drift, rule dr)
  qed (use G(2) d in auto)
  then show ?thesis
    by (auto simp: callGFunction_def the_currentFrame_def frame_at_def frame_function_def the_function_def d)
qed

lemma RemoveCallerFrame_spec:
  assumes "ready s1" "fsp (cstack s1) = int d + 2" "gas_ok s1"
  shows "spec fo RemoveCallerFrame s1 (\<lambda>p s2. p = d \<and> drift d s1 s2 \<and> fsp (cstack s2) = int d + 1 \<and>
    ready (s2\<lparr>currentFrame := Some d\<rparr>) \<and> gas_ok (s2\<lparr>currentFrame := Some d\<rparr>))"
  using assms
  by (auto simp: RemoveCallerFrame_def set_frame_def frame_at_def ready_def stack_ok_def last_slot_def drift_def
      funcs_kept_def gas_ok_def parents_below_def nth_list_update nat_add_distrib split: if_splits)

lemma callGFunction_tail_spec:
  assumes s: "ready s" "gas_ok s" "fsp (cstack s) = int d + 2"
    and G: "host_ok G" "\<And>a b r s'. within s (Suc (Suc d)) s' \<Longrightarrow> runs fo (call a b r) s'"
  shows "spec fo (callGFunction G call True) s (\<lambda>x. popped d s)"
proof -
  have d: "nat (fsp (cstack s)) = Suc (Suc d)" "currentFrame s = Some (Suc d)"
    using s by (auto simp: ready_def stack_ok_def last_slot_def)
  have "spec fo (G i call) s (\<lambda>g s1. spec fo RemoveCallerFrame s1 (\<lambda>p s2.
      spec fo (return_from_G (Suc d) g) (s2\<lparr>currentFrame := Some p\<rparr>) (\<lambda>x. popped d s)))" for i
  proof (rule spec_mono [OF host_okD [OF G(1) s(1,2)]])
    fix g s1
    assume w: "within s (nat (fsp (cstack s))) s1"
    have r: "ready s1" "fsp (cstack s1) = int d + 2" "gas_ok s1" and dr: "drift d s s1"
      using within_ready [OF s(1) w] w s(3) d by (auto simp: within_def elim: drift_le)
    show "spec fo RemoveCallerFrame s1 (\<lambda>p s2.
        spec fo (return_from_G (Suc d) g) (s2\<lparr>currentFrame := Some p\<rparr>) (\<lambda>x. popped d s))"
    proof (rule spec_mono [OF RemoveCallerFrame_spec [OF r]])
      fix p s2
      assume a: "p = d \<and> drift d s1 s2 \<and> fsp (cstack s2) = int d + 1 \<and> ready (s2\<lparr>currentFrame := Some d\<rparr>) \<and>
        gas_ok (s2\<lparr>currentFrame := Some d\<rparr>)"
      then have "spec fo (return_from_G (Suc d) g) (s2\<lparr>currentFrame := Some d\<rparr>) (\<lambda>x. popped d (s2\<lparr>currentFrame := Some d\<rparr>))"
        by (intro return_from_G_spec) auto
      moreover have "drift d s (s2\<lparr>currentFrame := Some d\<rparr>)" using dr a drift_trans by auto
      ultimately show "spec fo (return_from_G (Suc d) g) (s2\<lparr>currentFrame := Some p\<rparr>) (\<lambda>x. popped d s)"
        using a by (auto elim!: spec_mono popped_drift)
    qed
  qed (use G(2) d in auto)
  then show ?thesis
    by (auto simp: callGFunction_def the_currentFrame_def frame_at_def frame_function_def the_function_def d)
qed

section \<open>Instructions that change the stack\<close>

text \<open>A Lua frame: its function is one of the heap and not a host function.\<close>

definition lua_slot :: "vm \<Rightarrow> nat \<Rightarrow> bool" where
  "lua_slot s i \<longleftrightarrow> (\<exists>f. Fn (farray (cstack s) ! i) = Some f \<and> f < length (vfuncs s) \<and> \<not> IsG (vfuncs s ! f))"

text \<open>A run of the loop that started with the frame in slot \<open>b\<close>.\<close>

definition looping :: "nat \<Rightarrow> vm \<Rightarrow> bool" where
  "looping b s \<longleftrightarrow> ready s \<and> int b < fsp (cstack s) \<and> (\<forall>i. b \<le> i \<longrightarrow> int i < fsp (cstack s) \<longrightarrow> lua_slot s i)"

definition base_of :: "nat option \<Rightarrow> nat \<Rightarrow> bool" where
  "base_of baseframe b \<longleftrightarrow> baseframe = Some b \<or> baseframe = None \<and> b = 0"

text \<open>What an instruction of such a run leaves: the run goes on, or its first frame is gone.\<close>

definition after :: "nat \<Rightarrow> vm \<Rightarrow> bool \<Rightarrow> vm \<Rightarrow> bool" where
  "after b s done s' \<longleftrightarrow>
     (if done then popped b s s' else drift b s s' \<and> looping b s' \<and> gas_ok s')"

lemma popped_le: "popped d s s' \<Longrightarrow> b \<le> d \<Longrightarrow> drift b s s' \<and> ready s' \<and> gas_ok s' \<and> fsp (cstack s') = int d"
  by (auto simp: popped_def elim: drift_le)

lemma lua_slot_drift: "lua_slot s i \<Longrightarrow> drift d s s' \<Longrightarrow> Fn (farray (cstack s') ! i) = Fn (farray (cstack s) ! i) \<Longrightarrow> lua_slot s' i"
  by (fastforce simp: lua_slot_def drift_def funcs_kept_def)

lemma looping_within:
  assumes "looping b s" "within s d s'" shows "looping b s'"
  using assms within_ready [of s d s'] lua_slot_drift [of s _ d s']
  by (auto simp: looping_def within_def)

text \<open>A frame above \<open>b\<close> was popped.\<close>

lemma looping_popped:
  assumes "looping b s" "popped d s s'" "int d < fsp (cstack s)" "b < d" shows "looping b s'"
  using assms lua_slot_drift [of s _ d s']
  by (auto simp: looping_def popped_def drift_def)

lemma currentFrame_ready: "ready s \<Longrightarrow> 0 < fsp (cstack s) \<Longrightarrow> currentFrame s = Some (nat (fsp (cstack s) - 1))"
  by (simp add: ready_def stack_ok_def last_slot_def)

lemma spec_with_frame [simp]:
  "spec fo (with_frame f) s Q \<longleftrightarrow> (\<forall>c. currentFrame s = Some c \<longrightarrow> c < length (farray (cstack s)) \<longrightarrow>
     spec fo (f c (farray (cstack s) ! c)) s Q)"
  by (simp add: with_frame_def the_currentFrame_def frame_at_def)

lemma below_spec:
  assumes "popped d s s'" "int d = fsp (cstack s) - 1" "looping b s"
    and "d = b \<Longrightarrow> islast \<or> currentFrame s' = None" "d \<noteq> b \<Longrightarrow> \<not> islast"
  shows "spec fo (loop_done islast) s' (after b s)"
proof (cases "d = b")
  case True
  then show ?thesis using assms by (auto simp: loop_done_def after_def)
next
  case False
  then have b: "b < d" using assms by (simp add: looping_def)
  have l: "looping b s'" using looping_popped [OF assms(3,1)] assms(2) b by simp
  then have "currentFrame s' = Some (d - 1)" "lua_slot s' (d - 1)"
    using b assms(1) currentFrame_ready [of s'] by (auto simp: looping_def popped_def nat_diff_distrib)
  then show ?thesis
    using l b False assms(5) popped_le [OF assms(1), of b]
    by (auto simp: loop_done_def after_def frame_at_def frame_function_def the_function_def lua_slot_def)
qed

lemma RETURN_spec:
  assumes l: "looping b s" "gas_ok s" and base: "base_of baseframe b"
  shows "spec fo (vm_RETURN baseframe w) s (after b s)"
proof -
  define d where "d = nat (fsp (cstack s) - 1)"
  have r: "ready s" and d: "int d = fsp (cstack s) - 1" "fsp (cstack s) \<le> int (length (farray (cstack s)))" "b \<le> d"
    using l(1) by (auto simp: looping_def d_def ready_def stack_ok_def)
  have cur: "currentFrame s = Some d" using currentFrame_ready [OF r] d by simp
  have w: "within s d s" using r l(2) by (intro within_refl) (auto simp: ready_def stack_ok_def)
  define pop where "pop s1 = s1\<lparr>cstack := (cstack s1)\<lparr>fsp := fsp (cstack s1) - 1\<rparr>\<rparr>" for s1 :: vm
  have copied: "spec fo (copyReturnValues a1 a2 a3 a4) (pop s1) (\<lambda>x s2. popped d s (s2\<lparr>currentFrame := last_slot s2\<rparr>))"
    if w1: "within s d s1" for a1 a2 a3 a4 s1
  proof -
    have "within (pop s1) d (pop s1)"
      using w1 by (intro within_refl) (auto simp: pop_def within_def parents_below_def gas_ok_def)
    then show ?thesis
    proof (rule spec_keeps [OF frame.keeps_copyReturnValues])
      fix x s2
      assume w2: "within (pop s1) d s2"
      have "drift d s s2" "fsp (cstack s2) = int d"
        using w1 w2 d by (auto simp: within_def pop_def drift_def funcs_kept_def)
      then show "popped d s (s2\<lparr>currentFrame := last_slot s2\<rparr>)"
        using w2 d r l(1) by (intro popped_intro) (auto simp: within_def drift_def ready_def looping_def)
    qed
  qed
  have islast: "d = b \<Longrightarrow> baseframe = Some d \<or> fixed_IsEmpty (cstack (pop s1))" "d \<noteq> b \<Longrightarrow> \<not> (baseframe = Some d \<or> fixed_IsEmpty (cstack (pop s1)))"
    if "within s d s1" for s1
    using base d that by (auto simp: base_of_def fixed_IsEmpty_def pop_def within_def)
  define rest where "rest a1 a3 s1 = spec fo (copyReturnValues (ReturnBase (farray (cstack s) ! d)) a1 a3 (opGetArgB w)) (pop s1)
      (\<lambda>x s2. spec fo (loop_done (baseframe = Some d \<or> fixed_IsEmpty (cstack (pop s1)))) (s2\<lparr>currentFrame := last_slot s2\<rparr>) (after b s))"
    for a1 a3 s1
  have rest: "rest a1 a3 s1" if w1: "within s d s1" for a1 a3 s1
    unfolding rest_def
    by (rule spec_mono [OF copied [OF w1]], rule below_spec [OF _ d(1) l(1)]) (use islast [OF w1] in auto)
  have n: "nat (fsp (cstack s1) - 1) = d" if "within s d s1" for s1
    using that d by (simp add: within_def)
  show ?thesis
    unfolding vm_RETURN_def
    by (simp add: cur Let_def, intro impI, rule spec_keeps [OF frame.keeps_closeUpvalues w])
      (simp add: top_reg_def n rest [unfolded rest_def pop_def, simplified] split del: if_split)
qed

end
