(* ===== verification/Interpreter.thy ===== *)
theory Interpreter
  imports Metering
begin

text \<open>
  The interpreter as a whole: each instruction leaves a run of the main loop that can go on or
  has returned, by induction on the fuel so do the main loop and a call. The main results: a call
  that returns gives the call stack back as it found it, and with a gas limit every call ends.
\<close>

lemma looping_top:
  assumes "looping b s"
  obtains d where "fsp (cstack s) = int d + 1" "currentFrame s = Some d" "b \<le> d" "ready s" "stack_ok s"
    "lua_slot s d" "MainThread s" "nat (fsp (cstack s)) = Suc d"
proof
  show "fsp (cstack s) = int (nat (fsp (cstack s) - 1)) + 1" "b \<le> nat (fsp (cstack s) - 1)"
    "nat (fsp (cstack s)) = Suc (nat (fsp (cstack s) - 1))"
    using assms by (auto simp: looping_def)
  then show "currentFrame s = Some (nat (fsp (cstack s) - 1))" "ready s" "stack_ok s" "MainThread s"
    "lua_slot s (nat (fsp (cstack s) - 1))"
    using assms currentFrame_ready [of s] by (auto simp: looping_def ready_def)
qed

lemma looping_pushed:
  assumes "looping b s" "pushed cf s s1" "lua_slot s1 (nat (fsp (cstack s)))"
  shows "looping b s1"
proof -
  have "lua_slot s1 i" if "b \<le> i" "int i < fsp (cstack s1)" for i
  proof (cases "i = nat (fsp (cstack s))")
    case False
    then have "int i < fsp (cstack s)" using that assms(1,2) by (auto simp: pushed_def looping_def)
    then show ?thesis
      using assms(1,2) that lua_slot_drift [of s i "nat (fsp (cstack s))" s1]
      by (auto simp: pushed_def looping_def drift_def)
  qed (use assms(3) in simp)
  then show ?thesis
    using assms(1,2) by (auto simp: looping_def pushed_def ready_def drift_def)
qed

lemma pushed_ready: "pushed cf s s1 \<Longrightarrow> MainThread s \<Longrightarrow> ready s1 \<and> gas_ok s1"
  by (auto simp: pushed_def ready_def drift_def)

lemma call_need_pushed: "pushed cf s s1 \<Longrightarrow> stack_ok s \<Longrightarrow> call_need s1 \<le> call_need s"
  using gas_left_drift [of "nat (fsp (cstack s))" s s1] mult_le_mono1 [of "gas_left s1" "gas_left s" "frames_cap s + 2"]
  by (auto simp: pushed_def stack_ok_def call_need_def)

lemma callable_pushed: "callable_with fo n s \<Longrightarrow> pushed cf s s1 \<Longrightarrow> MainThread s \<Longrightarrow> callable_with fo n s1"
  using call_need_pushed [of cf s s1] pushed_ready [of cf s s1]
  by (auto simp: callable_with_def ready_def pushed_def drift_def)

text \<open>Reading leaves the state as it is.\<close>

lemma new_frame_fields [simp]: "Fn (new_frame f a b c d p) = f" "Parent (new_frame f a b c d p) = p"
  by (simp_all add: new_frame_def)

lemma metaCall_spec: "(\<And>x. Q x s) \<Longrightarrow> spec fo (metaCall v) s Q"
  by (rule spec_keeps [where K = "\<lambda>t. t = s"]) (auto intro: keeping)

lemma CALL_spec:
  assumes l: "looping b s" and c: "callable_with fo n s" "calls_run fo n call" and G: "host_ok G"
  shows "spec fo (vm_CALL G call w) s (\<lambda>x. after b s False)"
  using l
proof (rule looping_top)
  fix d
  assume d: "fsp (cstack s) = int d + 1" "currentFrame s = Some d" "b \<le> d" "ready s" "stack_ok s"
    "lua_slot s d" "MainThread s" "nat (fsp (cstack s)) = Suc d"
  have into: "spec fo (bnd (deref (Fn cf)) (\<lambda>f. bnd (the_function f) (\<lambda>fn. whenM (IsG fn) (callGFunction G call False)))) s1
      (\<lambda>x. after b s False)" if p: "pushed cf s s1" for cf s1
  proof -
    have s1: "ready s1" "gas_ok s1" "fsp (cstack s1) = int (Suc d) + 1" "drift (Suc d) s s1"
      using p pushed_ready [OF p d(7)] d by (auto simp: pushed_def)
    have host: "spec fo (callGFunction G call False) s1 (\<lambda>x. after b s False)"
    proof (rule spec_mono [OF callGFunction_spec [OF s1(1-3) G]])
      show "runs fo (call a b r) s'" if "within s1 (Suc (Suc d)) s'" for a b r s'
        using callable_within [OF callable_pushed [OF c(1) p d(7)] that] c(2) by (simp add: calls_run_def)
      show "after b s False s'" if "popped (Suc d) s1 s'" for s'
      proof -
        have p': "popped (Suc d) s s'" by (rule popped_drift [OF that s1(4)])
        have "looping b s'"
          using l p' d(3) lua_slot_drift [of s _ "Suc d" s'] by (auto simp: looping_def popped_def drift_def d(1))
        then show ?thesis using popped_le [OF p', of b] d(3) by (simp add: after_def)
      qed
    qed
    have lua: "after b s False s1" if "Fn cf = Some f" "f < length (vfuncs s1)" "\<not> IsG (vfuncs s1 ! f)" for f
    proof -
      have "lua_slot s1 (nat (fsp (cstack s)))" using that p by (auto simp: lua_slot_def pushed_def)
      then show ?thesis
        using looping_pushed [OF l p] s1(2,4) d(3) by (auto simp: after_def elim: drift_le)
    qed
    show ?thesis using host lua by (auto simp: the_function_def)
  qed
  have enter: "spec fo (pushCallFrame cf lv meta) s (\<lambda>x s1. spec fo (bnd (deref (Fn cf)) (\<lambda>f. bnd (the_function f)
      (\<lambda>fn. whenM (IsG fn) (callGFunction G call False)))) s1 (\<lambda>x. after b s False))" if "Parent cf = Some d" for cf lv meta
    by (rule spec_mono [OF pushCallFrame_spec [OF d(5)]]) (use c(1) that d(2) into in \<open>auto simp: callable_with_def simp del: spec_bnd\<close>)
  show "spec fo (vm_CALL G call w) s (\<lambda>x. after b s False)"
    unfolding vm_CALL_def
    using enter [of "new_frame f a r n m (Some d)" for f a r n m]
    by (auto simp: d(2) top_reg_def reg_get_def Let_def intro!: metaCall_spec split: prod.split split del: if_split)
qed

lemma spec_if: "(b \<Longrightarrow> spec fo m s Q) \<Longrightarrow> (\<not> b \<Longrightarrow> spec fo n s Q) \<Longrightarrow> spec fo (if b then m else n) s Q"
  by simp

lemma spec_set_frame [simp]:
  "spec fo (set_frame c f) s Q \<longleftrightarrow> (c < length (farray (cstack s)) \<longrightarrow>
     Q () (s\<lparr>cstack := (cstack s)\<lparr>farray := (farray (cstack s))[c := f (farray (cstack s) ! c)]\<rparr>\<rparr>))"
  by (simp add: set_frame_def frame_at_def)

lemma tailcall_G_spec:
  assumes l: "looping b s" "gas_ok s" and d: "fsp (cstack s) = int d + 1" "currentFrame s = Some d"
    and c: "callable_with fo n s" "calls_run fo n call" and G: "host_ok G" and base: "base_of baseframe b"
    and w: "within s d s1"
  shows "spec fo (tailcall_G G call baseframe d cf f lv meta RA nargs) s1 (after b s)"
proof -
  have s: "ready s" "MainThread s" using l(1) by (auto simp: looping_def ready_def)
  have s1: "ready s1" "gas_ok s1" "stack_ok s1" "Some d = currentFrame s1" "nat (fsp (cstack s1)) = Suc d"
      "MainThread s1" "callable_with fo n s1" and ds: "drift d s s1"
    using within_ready [OF s(1) w] callable_within [OF c(1) w] w d s(2)
    by (auto simp: ready_def within_def drift_def)
  have "spec fo (callGFunction G call True) s2 (\<lambda>x s3. spec fo (loop_done (Some d = baseframe)) s3 (after b s))"
    if p: "pushed cf s1 s2" for cf s2
  proof -
    have "drift d s1 s2" using p s1(5) by (auto simp: pushed_def elim: drift_le)
    with ds have d2: "drift d s s2" by (rule drift_trans)
    have s2: "ready s2" "gas_ok s2" "fsp (cstack s2) = int d + 2"
      using p pushed_ready [OF p s1(6)] w d by (auto simp: pushed_def within_def)
    show ?thesis
    proof (rule spec_mono [OF callGFunction_tail_spec [OF s2 G]])
      show "runs fo (call a b r) s'" if "within s2 (Suc (Suc d)) s'" for a b r s'
        using callable_within [OF callable_pushed [OF s1(7) p s1(6)] that] c(2) by (simp add: calls_run_def)
      show "spec fo (loop_done (Some d = baseframe)) s3 (after b s)" if "popped d s2 s3" for s3
        using popped_drift [OF that d2] base d
        by (intro below_spec [OF _ _ l(1)]) (auto simp: base_of_def popped_def ready_def stack_ok_def last_slot_def)
    qed
  qed
  then show ?thesis
    unfolding tailcall_G_def spec_and_then
    by (intro spec_mono [OF pushCallFrame_spec]) (use s1 in auto)
qed

lemma tailcall_Lua_spec:
  assumes l: "looping b s" and d: "fsp (cstack s) = int d + 1"
    and w: "within s d s1" and f: "f < length (vfuncs s1)" "\<not> IsG (vfuncs s1 ! f)"
  shows "spec fo (tailcall_Lua d cf f lv meta RA nargs) s1 (after b s)"
proof -
  define g where "g cf = cf\<lparr>Fn := Some f, Pc := 0, Base := RA, LocalBase := RA + 1,
     NArgs := (if meta then nargs + 1 else nargs), TailCall := TailCall cf + 1\<rparr>" for cf :: callFrame
  define s2 where "s2 = s1\<lparr>cstack := (cstack s1)\<lparr>farray := (farray (cstack s1))[d := g (farray (cstack s1) ! d)]\<rparr>\<rparr>"
  have b: "b \<le> d" using l d by (simp add: looping_def)
  have lp: "looping b s1" by (rule looping_within [OF l w])
  have lua: "lua_slot s2 i" if "lua_slot s1 i" "i \<le> d" for i
    using that f
    by (cases "i = d"; cases "d < length (farray (cstack s1))") (auto simp: lua_slot_def s2_def g_def list_update_beyond)
  have s2: "looping b s2 \<and> gas_ok s2 \<and> drift d s s2"
    using lp w d lua
    by (auto simp: looping_def s2_def within_def gas_ok_def drift_def funcs_kept_def ready_def stack_ok_def g_def
        last_slot_def parents_below_def nth_list_update)
  then have w2: "within s2 d s2" by (intro within_refl) (auto simp: looping_def ready_def stack_ok_def)
  have k: "keeps (within s2 d) fo (take_over d f lv meta (Base cf) RA nargs)"
    unfolding take_over_def by (intro keeping frame.keeps_set_frame) auto
  have "spec fo (take_over d f lv meta (Base cf) RA nargs) s2 (\<lambda>x. after b s False)"
  proof (rule spec_keeps [OF k w2])
    show "after b s False s'" if "within s2 d s'" for s'
      using s2 looping_within [OF _ that] that b
      by (auto simp: after_def within_def intro: drift_trans elim: drift_le)
  qed
  then show ?thesis by (simp add: tailcall_Lua_def s2_def g_def)
qed

lemma TAILCALL_spec:
  assumes l: "looping b s" and c: "callable_with fo n s" "calls_run fo n call" and G: "host_ok G"
    and base: "base_of baseframe b"
  shows "spec fo (vm_TAILCALL G call baseframe w) s (after b s)"
  using l
proof (rule looping_top)
  fix d
  assume d: "fsp (cstack s) = int d + 1" "currentFrame s = Some d" "b \<le> d" "ready s" "stack_ok s"
    "lua_slot s d" "MainThread s" "nat (fsp (cstack s)) = Suc d"
  have gas: "gas_ok s" using c(1) by (simp add: callable_with_def)
  have close: "spec fo (closeUpvalues i) s (\<lambda>x. within s d)" for i
    by (rule spec_keeps [OF frame.keeps_closeUpvalues within_refl]) (use d gas in \<open>auto simp: stack_ok_def\<close>)
  note step = tailcall_G_spec [OF l gas d(1,2) c G base] tailcall_Lua_spec [OF l d(1)]
  show "spec fo (vm_TAILCALL G call baseframe w) s (after b s)"
    unfolding vm_TAILCALL_def
    by (auto simp: d(2) top_reg_def reg_get_def Let_def the_function_def if_bool_eq_conj intro!: metaCall_spec spec_mono [OF close] spec_if step
        split: prod.split split del: if_split)
qed

text \<open>Fetching pays one unit of gas.\<close>

lemma fetch_spec:
  assumes l: "looping b s" and gas: "gas_ok s" and d: "fsp (cstack s) = int d + 1"
  shows "spec fo fetch s (\<lambda>w s1. within s d s1 \<and> (gasLimit s \<noteq> 0 \<longrightarrow> gas_left s1 < gas_left s))"
proof -
  define pay :: "unit vmM" where "pay = bnd (rd (\<lambda>s. gasLimit s > 0)) (\<lambda>metered. whenM metered
        (and_then (upd (\<lambda>s. s\<lparr>gasUsed := gasUsed s + 1\<rparr>))
          (bnd (rd (\<lambda>s. gasUsed s > gasLimit s)) (\<lambda>out. whenM out (RaiseError ''lua: gas limit exceeded'')))))"
  have pay: "spec fo pay s1 (\<lambda>x s2. within s d s2 \<and> (gasLimit s \<noteq> 0 \<longrightarrow> gas_left s2 < gas_left s))"
    if w: "within s d s1" for s1
  proof -
    have eq: "gasLimit s1 = gasLimit s" "gas_ok s1" "gas_left s1 \<le> gas_left s"
      using w gas_left_drift by (auto simp: within_def drift_def)
    have "gasUsed s1 \<le> gasUsed s1 + 1 \<and> gas_left (s1\<lparr>gasUsed := gasUsed s1 + 1\<rparr>) < gas_left s1"
      if "gasLimit s1 \<noteq> 0" "gasUsed s1 + 1 \<le> gasLimit s1"
    proof -
      have "unat (gasUsed s1) < 2 ^ 64 - 1"
        using eq(2) that(1) by (simp add: gas_ok_def word_less_nat_alt unsigned_minus_1_eq_mask mask_eq_exp_minus_1)
      then have "unat (gasUsed s1 + 1) = unat (gasUsed s1) + 1" by (simp add: unat_word_ariths)
      then show ?thesis using that(2) by (simp add: word_le_nat_alt gas_left_def)
    qed
    then show ?thesis
      using w eq frame.K_gas [OF w, of "gasUsed s1 + 1"]
      by (auto simp: pay_def word_neq_0_conv not_less)
  qed
  have cur: "currentFrame s = Some d" using currentFrame_ready [of s] l d by (simp add: looping_def)
  have "within s d s" using l gas by (intro within_refl) (auto simp: looping_def ready_def stack_ok_def)
  then have add: "spec fo (add_pc d 1) s (\<lambda>x s1. spec fo pay s1 (\<lambda>x s2. within s d s2 \<and> (gasLimit s \<noteq> 0 \<longrightarrow> gas_left s2 < gas_left s)))"
    by (rule spec_keeps [OF frame.keeps_add_pc _ pay])
  have code: "spec fo (code_at d pc) s Q" if "\<And>x. Q x s" for pc and Q :: "u32 \<Rightarrow> vm \<Rightarrow> bool"
    by (rule spec_keeps [where K = "\<lambda>t. t = s"]) (use that in \<open>auto intro: keeping\<close>)
  have eq: "fetch = with_frame (\<lambda>c cf. bnd (code_at c (Pc cf)) (\<lambda>inst. and_then (add_pc c 1) (and_then pay (ret inst))))"
    by (simp add: fetch_def pay_def and_then_def bnd_def rd_def cong: sum.case_cong)
  show ?thesis unfolding eq spec_with_frame spec_bnd spec_and_then spec_simple(1)
    using cur add by (auto intro!: code)
qed

section \<open>The interpreter\<close>

lemma exec_spec:
  assumes l: "looping b s" and c: "callable_with fo n s" "calls_run fo n call" and G: "host_ok G"
    and base: "base_of baseframe b"
  shows "spec fo (exec G call baseframe w) s (after b s)"
  using l
proof (rule looping_top)
  fix d
  assume d: "fsp (cstack s) = int d + 1" "currentFrame s = Some d" "b \<le> d" "ready s" "stack_ok s"
    "lua_slot s d" "MainThread s" "nat (fsp (cstack s)) = Suc d"
  have rf: "running_frame (within s d) fo d call" by (rule running_frame_within [OF d(2,8) c])
  have gas: "gas_ok s" using c(1) by (simp add: callable_with_def)
  have w: "within s d s" using d(5) gas by (intro within_refl) (auto simp: stack_ok_def)
  have stay: "after b s False s'" if "within s d s'" for s'
    using looping_within [OF l that] that d(3) by (auto simp: after_def within_def elim: drift_le)
  have simple: "spec fo (go_on m) s (after b s)" if "keeps (within s d) fo m" for m
    unfolding go_on_def spec_and_then spec_simple(1) by (rule spec_keeps [OF that w stay])
  have call: "spec fo (go_on (vm_CALL G call w)) s (after b s)"
    unfolding go_on_def spec_and_then spec_simple(1) by (rule CALL_spec [OF l c G])
  have "spec fo (case p of
         OP_MOVE \<Rightarrow> go_on (vm_MOVE w) | OP_MOVEN \<Rightarrow> go_on (vm_MOVEN w) | OP_LOADK \<Rightarrow> go_on (vm_LOADK w)
       | OP_LOADBOOL \<Rightarrow> go_on (vm_LOADBOOL w) | OP_LOADNIL \<Rightarrow> go_on (vm_LOADNIL w)
       | OP_GETUPVAL \<Rightarrow> go_on (vm_GETUPVAL w) | OP_GETGLOBAL \<Rightarrow> go_on (vm_GETGLOBAL call w)
       | OP_GETTABLE \<Rightarrow> go_on (vm_GETTABLE call w) | OP_GETTABLEKS \<Rightarrow> go_on (vm_GETTABLEKS call w)
       | OP_SETGLOBAL \<Rightarrow> go_on (vm_SETGLOBAL call w) | OP_SETUPVAL \<Rightarrow> go_on (vm_SETUPVAL w)
       | OP_SETTABLE \<Rightarrow> go_on (vm_SETTABLE call w) | OP_SETTABLEKS \<Rightarrow> go_on (vm_SETTABLEKS call w)
       | OP_NEWTABLE \<Rightarrow> go_on (vm_NEWTABLE w) | OP_SELF \<Rightarrow> go_on (vm_SELF call w) | OP_UNM \<Rightarrow> go_on (vm_UNM call w)
       | OP_NOT \<Rightarrow> go_on (vm_NOT w) | OP_LEN \<Rightarrow> go_on (vm_LEN call w) | OP_CONCAT \<Rightarrow> go_on (vm_CONCAT call w)
       | OP_JMP \<Rightarrow> go_on (vm_JMP w) | OP_EQ \<Rightarrow> go_on (vm_EQ call w) | OP_LT \<Rightarrow> go_on (vm_LT call w)
       | OP_LE \<Rightarrow> go_on (vm_LE call w) | OP_TEST \<Rightarrow> go_on (vm_TEST w) | OP_TESTSET \<Rightarrow> go_on (vm_TESTSET w)
       | OP_CALL \<Rightarrow> go_on (vm_CALL G call w) | OP_TAILCALL \<Rightarrow> vm_TAILCALL G call baseframe w
       | OP_RETURN \<Rightarrow> vm_RETURN baseframe w | OP_FORLOOP \<Rightarrow> go_on (vm_FORLOOP w)
       | OP_FORPREP \<Rightarrow> go_on (vm_FORPREP w) | OP_TFORLOOP \<Rightarrow> go_on (vm_TFORLOOP call w)
       | OP_SETLIST \<Rightarrow> go_on (vm_SETLIST w) | OP_CLOSE \<Rightarrow> go_on (vm_CLOSE call w)
       | OP_CLOSURE \<Rightarrow> go_on (vm_CLOSURE w) | OP_VARARG \<Rightarrow> go_on (vm_VARARG w) | OP_BNOT \<Rightarrow> go_on (vm_BNOT call w)
       | OP_NOP \<Rightarrow> ret False | _ \<Rightarrow> go_on (opArith call p w)) s (after b s)" for p
    by (cases p) (simp_all only: opcode.case spec_simple(1) stay [OF w] simple [OF running_frame.keeps_moves(1) [OF rf]] call
        TAILCALL_spec [OF l c G base] RETURN_spec [OF l gas base] simple running_frame.keeps_instructions [OF rf])
  then show ?thesis
    unfolding exec_def by (cases "op_at (opGetOpCode w)") simp_all
qed

definition loop_need :: "vm \<Rightarrow> nat" where
  "loop_need s = gas_left s * (frames_cap s + 2) + 1"

definition loops_run :: "(nat \<Rightarrow> callback \<Rightarrow> int vmM) \<Rightarrow> bool \<Rightarrow> nat \<Rightarrow> bool" where
  "loops_run G fo n \<longleftrightarrow> (\<forall>b baseframe s. looping b s \<longrightarrow> gas_ok s \<longrightarrow> base_of baseframe b \<longrightarrow>
     (fo \<longrightarrow> gasLimit s \<noteq> 0 \<and> loop_need s \<le> n) \<longrightarrow> spec fo (vm_loop G n baseframe) s (\<lambda>x. popped b s))"

definition mains_run :: "(nat \<Rightarrow> callback \<Rightarrow> int vmM) \<Rightarrow> bool \<Rightarrow> nat \<Rightarrow> bool" where
  "mains_run G fo n \<longleftrightarrow> (\<forall>b baseframe s. ready s \<longrightarrow> gas_ok s \<longrightarrow> base_of baseframe b \<longrightarrow> fsp (cstack s) = int b + 1 \<longrightarrow>
     (fo \<longrightarrow> gasLimit s \<noteq> 0 \<and> call_need s + 1 \<le> n) \<longrightarrow> spec fo (mainLoop G n baseframe) s (\<lambda>x. popped b s))"

lemma popped_within:
  assumes "ready s" "popped (nat (fsp (cstack s))) s s'"
  shows "within s (nat (fsp (cstack s))) s'"
  using assms by (auto simp: popped_def within_def ready_def stack_ok_def last_slot_def drift_def)

lemma call_need_pushed_Suc:
  assumes "pushed cf s s1" "stack_ok s" shows "call_need s1 + 1 \<le> call_need s"
proof -
  have "gas_left s1 * (frames_cap s + 2) \<le> gas_left s * (frames_cap s + 2)" "frames_cap s1 = frames_cap s"
    using gas_left_drift [of "nat (fsp (cstack s))" s s1] assms(1) mult_le_mono1 [of "gas_left s1" "gas_left s" "frames_cap s + 2"]
    by (auto simp: pushed_def)
  moreover have "nat (fsp (cstack s1)) = Suc (nat (fsp (cstack s)))" "nat (fsp (cstack s1)) \<le> frames_cap s1"
    using assms by (auto simp: pushed_def stack_ok_def frames_cap_def)
  ultimately show ?thesis by (simp add: call_need_def)
qed

lemma callR_spec:
  assumes m: "mains_run G fo n"
  shows "calls_run fo n (callR (mainLoop G n))"
proof -
  have "runs fo (callR (mainLoop G n) a nret rbase) s" if c: "callable_with fo n s" for s a nret rbase
  proof -
    define b where "b = nat (fsp (cstack s))"
    have s: "ready s" "stack_ok s" "gas_ok s" using c by (auto simp: callable_with_def ready_def)
    have b: "fsp (cstack s) = int b" using s(2) by (simp add: b_def stack_ok_def)
    have top: "spec fo (whenM t (set_top i)) s2 (\<lambda>x. within s b)" if "popped b s s2" for t i s2
      by (rule spec_keeps [OF keeps_whenM [OF frame.keeps_registers(4)] popped_within [OF s(1) that [unfolded b_def]], folded b_def])
    have run: "spec fo (mainLoop G n baseframe) s1 (\<lambda>x s2. spec fo (whenM t (set_top i)) s2 (\<lambda>x. within s b))"
      if r: "ready s1" "gas_ok s1" "fsp (cstack s1) = int b + 1" "drift b s s1" "fo \<longrightarrow> call_need s1 + 1 \<le> call_need s"
        and base: "base_of baseframe b" for baseframe s1 t i
    proof -
      have "fo \<longrightarrow> gasLimit s1 \<noteq> 0 \<and> call_need s1 + 1 \<le> n" using c r(4,5) by (auto simp: callable_with_def drift_def)
      then have "spec fo (mainLoop G n baseframe) s1 (\<lambda>x. popped b s1)"
        using m r base by (simp add: mains_run_def)
      then show ?thesis by (rule spec_mono) (rule top, erule popped_drift, rule r(4))
    qed
    define go where "go t i = and_then (bnd (rd MainThread) (\<lambda>started.
             if \<not> started then and_then (upd (\<lambda>s. s\<lparr>MainThread := True\<rparr>)) (mainLoop G n None)
             else bnd (rd currentFrame) (mainLoop G n))) (whenM t (set_top i))" for t i
    have go: "spec fo (go t i) s1 (\<lambda>x. within s b)" if p: "pushed cf s s1" for cf s1 t i
    proof -
      let ?s = "s1\<lparr>MainThread := True\<rparr>"
      have s1: "gas_ok s1" "fsp (cstack s1) = int b + 1" "drift b s s1" "stack_ok s1" "call_need s1 + 1 \<le> call_need s"
        using p call_need_pushed_Suc [OF p s(2)] b by (auto simp: pushed_def)
      have s1': "ready ?s" "gas_ok ?s" "drift b s ?s" "call_need ?s = call_need s1"
        using s1 by (auto simp: ready_def stack_ok_def last_slot_def parents_below_def gas_ok_def drift_def funcs_kept_def
            call_need_def gas_left_def frames_cap_def)
      show ?thesis
      proof (cases "MainThread s1")
        case True
        moreover have "currentFrame s1 = Some b" using s1(2,4) by (simp add: stack_ok_def last_slot_def)
        moreover have "ready s1" using True s1(4) by (simp add: ready_def)
        ultimately show ?thesis
          using run [of s1 "Some b" t i] s1 by (simp add: go_def base_of_def del: spec_whenM)
      next
        case False
        then have "b = 0" using s(1) s1(3) b by (auto simp: ready_def drift_def)
        then show ?thesis
          using False run [of ?s None t i] s1 s1' by (simp add: go_def base_of_def del: spec_whenM)
      qed
    qed
    have enter: "spec fo (pushCallFrame cf lv meta) s (\<lambda>x s1. spec fo (go t i) s1 (\<lambda>x. within s b))"
      if "Parent cf = currentFrame s" for cf lv meta t i
      by (rule spec_mono [OF pushCallFrame_spec [OF s(2,3) that] go])
    have "spec fo (callR (mainLoop G n) a nret rbase) s (\<lambda>x. within s b)"
      unfolding callR_def Let_def go_def [symmetric] spec_bnd spec_and_then top_reg_def reg_get_def spec_simple(2) spec_parts(1)
      by (auto intro!: metaCall_spec enter simp del: spec_whenM split: prod.split)
    then show ?thesis by (simp add: runs_def b_def)
  qed
  then show ?thesis by (simp add: calls_run_def)
qed

lemma spec_mainLoop_Suc:
  assumes l: "loops_run G fo n" and m: "mains_run G fo n" and G: "host_ok G"
  shows "mains_run G fo (Suc n)"
proof -
  have "spec fo (mainLoop G (Suc n) baseframe) s (\<lambda>x. popped b s)"
    if s: "ready s" "gas_ok s" "fsp (cstack s) = int b + 1" and base: "base_of baseframe b"
      and need: "fo \<longrightarrow> gasLimit s \<noteq> 0 \<and> call_need s + 1 \<le> Suc n" for b baseframe s
  proof -
    have cur: "last_slot s = Some b" "currentFrame s = Some b" "s\<lparr>currentFrame := Some b\<rparr> = s"
      using s currentFrame_ready [of s] by (auto simp: last_slot_def)
    have c: "callable_with fo n s" using s need by (auto simp: callable_with_def)
    have host: "spec fo (callGFunction G (callR (mainLoop G n)) False) s (\<lambda>x. popped b s)"
      using callR_spec [OF m] callable_within [OF c]
      by (intro callGFunction_spec [OF s G]) (auto simp: calls_run_def)
    have lua: "spec fo (vm_loop G n baseframe) s (\<lambda>x. popped b s)" if "lua_slot s b"
    proof -
      have "looping b s" unfolding looping_def using that s by (auto simp: le_antisym)
      moreover have "fo \<longrightarrow> gasLimit s \<noteq> 0 \<and> loop_need s \<le> n" using need by (auto simp: loop_need_def call_need_def)
      ultimately show ?thesis using l s base by (simp add: loops_run_def)
    qed
    show ?thesis
      using host lua s(3)
      by (auto simp: enter_def fixed_IsEmpty_def cur frame_function_def the_function_def lua_slot_def intro!: spec_if)
  qed
  then show ?thesis by (simp add: mains_run_def)
qed

lemma spec_vm_loop_Suc:
  assumes l: "loops_run G fo n" and m: "mains_run G fo n" and G: "host_ok G"
  shows "loops_run G fo (Suc n)"
proof -
  have "spec fo (vm_loop G (Suc n) baseframe) s (\<lambda>x. popped b s)"
    if lp: "looping b s" and g: "gas_ok s" and base: "base_of baseframe b"
      and need: "fo \<longrightarrow> gasLimit s \<noteq> 0 \<and> loop_need s \<le> Suc n" for b baseframe s
  proof -
    obtain d where d: "fsp (cstack s) = int d + 1" "b \<le> d" "ready s" using looping_top [OF lp] by metis
    have next_round: "spec fo (exec G (callR (mainLoop G n)) baseframe w) s1 (\<lambda>fin s2.
        spec fo (if fin then ret () else vm_loop G n baseframe) s2 (\<lambda>x. popped b s))"
      if w: "within s d s1" "gasLimit s \<noteq> 0 \<longrightarrow> gas_left s1 < gas_left s" for s1 w
    proof -
      have s1: "looping b s1" "gas_ok s1" "drift b s s1" "ready s1" "frames_cap s1 = frames_cap s" "gasLimit s1 = gasLimit s"
        using looping_within [OF lp w(1)] within_ready [OF d(3) w(1)] w(1) d(2)
        by (auto simp: within_def drift_def frames_cap_def)
      have n: "fo \<longrightarrow> gas_left s1 * (frames_cap s + 2) + frames_cap s + 2 \<le> n"
      proof
        assume fo
        then have "Suc (gas_left s1) * (frames_cap s + 2) \<le> gas_left s * (frames_cap s + 2)"
          using w(2) need by (intro mult_le_mono1) auto
        then show "gas_left s1 * (frames_cap s + 2) + frames_cap s + 2 \<le> n"
          using need \<open>fo\<close> by (auto simp: loop_need_def)
      qed
      have c: "callable_with fo n s1" using s1 n need by (auto simp: callable_with_def call_need_def)
      show ?thesis
      proof (rule spec_mono [OF exec_spec [OF s1(1) c callR_spec [OF m] G base]])
        fix fin s2
        assume a: "after b s1 fin s2"
        show "spec fo (if fin then ret () else vm_loop G n baseframe) s2 (\<lambda>x. popped b s)"
        proof (cases fin)
          case True
          then show ?thesis using a popped_drift [OF _ s1(3)] by (simp add: after_def)
        next
          case False
          then have s2: "looping b s2" "gas_ok s2" "drift b s1 s2" using a by (auto simp: after_def)
          have "gas_left s2 \<le> gas_left s1" "frames_cap s2 = frames_cap s" "gasLimit s2 = gasLimit s"
            using gas_left_drift [OF s2(3)] s1(5,6) s2(3) by (auto simp: drift_def)
          moreover from this have "gas_left s2 * (frames_cap s + 2) \<le> gas_left s1 * (frames_cap s + 2)"
            by (intro mult_le_mono1)
          ultimately have "fo \<longrightarrow> gasLimit s2 \<noteq> 0 \<and> loop_need s2 \<le> n" using n need by (auto simp: loop_need_def)
          then have "spec fo (vm_loop G n baseframe) s2 (\<lambda>x. popped b s2)"
            using l s2 base by (simp add: loops_run_def)
          then show ?thesis
            using False by (auto elim!: spec_mono intro: popped_drift drift_trans [OF s1(3) s2(3)])
        qed
      qed
    qed
    show ?thesis
      unfolding vm_loop.simps(2) spec_bnd
      by (rule spec_mono [OF fetch_spec [OF lp g d(1)]]) (use next_round in auto)
  qed
  then show ?thesis by (simp add: loops_run_def)
qed

lemma interpreter_runs: "host_ok G \<Longrightarrow> loops_run G fo n \<and> mains_run G fo n"
proof (induction n)
  case 0
  have "spec fo (\<lambda>s. Inl VFuel) s Q \<longleftrightarrow> \<not> fo" for s and Q :: "unit \<Rightarrow> vm \<Rightarrow> bool"
    by (simp add: spec_def)
  then show ?case by (auto simp: loops_run_def mains_run_def loop_need_def)
next
  case (Suc n)
  then show ?case using spec_vm_loop_Suc spec_mainLoop_Suc by blast
qed

lemma calls_runs: "host_ok G \<Longrightarrow> calls_run fo n (callR (mainLoop G n))"
  using interpreter_runs callR_spec by blast

text \<open>Every instruction runs in a frame that its calls leave alone.\<close>

interpretation instruction: running_frame
  "\<lambda>s. host_ok G \<and> callable_with fo n s0 \<and> currentFrame s0 = Some d \<and> fsp (cstack s0) = int d + 1 \<and> within s0 d s"
  fo d "callR (mainLoop G n)" for G fo n s0 d
proof (cases "host_ok G \<and> callable_with fo n s0 \<and> currentFrame s0 = Some d \<and> fsp (cstack s0) = int d + 1")
  case True
  then have "running_frame (within s0 d) fo d (callR (mainLoop G n))"
    using running_frame_within [of s0 d fo n] calls_runs [of G fo n] by (simp add: nat_add_distrib)
  with True show "running_frame (\<lambda>s. host_ok G \<and> callable_with fo n s0 \<and> currentFrame s0 = Some d \<and>
      fsp (cstack s0) = int d + 1 \<and> within s0 d s) fo d (callR (mainLoop G n))" by simp
next
  case False
  then have "(\<lambda>s. host_ok G \<and> callable_with fo n s0 \<and> currentFrame s0 = Some d \<and> fsp (cstack s0) = int d + 1 \<and>
      within s0 d s) = (\<lambda>s. False)" by (intro ext) blast
  moreover have "running_frame (\<lambda>s. False) fo d (callR (mainLoop G n))"
    by unfold_locales (simp_all add: keeps_def)
  ultimately show "running_frame (\<lambda>s. host_ok G \<and> callable_with fo n s0 \<and> currentFrame s0 = Some d \<and>
      fsp (cstack s0) = int d + 1 \<and> within s0 d s) fo d (callR (mainLoop G n))" by (simp only:)
qed

section \<open>Properties\<close>

text \<open>What a caller keeps: the stack is as high as it was, the same frame is current, the frames
  below and the slots' functions are the same, and no function turned from Lua into a host function.\<close>

definition frames_kept :: "vm \<Rightarrow> vm \<Rightarrow> bool" where
  "frames_kept s s' \<longleftrightarrow> fsp (cstack s') = fsp (cstack s) \<and> currentFrame s' = currentFrame s \<and>
     take (nat (fsp (cstack s))) (farray (cstack s')) = take (nat (fsp (cstack s))) (farray (cstack s)) \<and>
     length (farray (cstack s')) = length (farray (cstack s)) \<and>
     length (vfuncs s) \<le> length (vfuncs s') \<and> (\<forall>f < length (vfuncs s). IsG (vfuncs s' ! f) = IsG (vfuncs s ! f)) \<and>
     gasLimit s' = gasLimit s \<and> gasUsed s \<le> gasUsed s'"

lemma within_frames_kept: "ready s \<Longrightarrow> within s (nat (fsp (cstack s))) s' \<Longrightarrow> frames_kept s s'"
  by (auto simp: within_def drift_def funcs_kept_def frames_kept_def ready_def stack_ok_def intro!: nth_equalityI)

section \<open>Concrete runs\<close>

text \<open>Two host functions: one that does nothing, and one that calls what is on top of the registers.\<close>

definition demo_hosts :: "nat \<Rightarrow> callback \<Rightarrow> int vmM" where
  "demo_hosts i call = (if i = 0 then ret 0 else and_then (call 0 0 (-1)) (ret 0))"
definition demo_proto :: "u32 list \<Rightarrow> FunctionProto" where
  "demo_proto code = FunctionProto \<lparr>SourceName = ''f'', LineDefined = 0, LastLineDefined = 0, NumUpvalues = 0,
     NumParameters = 0, IsVarArg = 0, NumUsedRegisters = 2, Code = code, Constants = [], DbgSourcePositions = [],
     DbgLocals = [], DbgCalls = [], DbgUpvalues = [], stringConstants = []\<rparr> []"
definition demo_state :: "u64 \<Rightarrow> u32 list \<Rightarrow> vm" where
  "demo_state limit code = (SetGasLimit limit (newLState 4 8 8 64))\<lparr>
     vfuncs := [newLFunctionL (demo_proto code) (Some 1) 0, newLFunctionG 0 (Some 1) 0],
     reg := \<lparr>rarray = [Some (LFunction 0), None, None, None, None, None, None, None], rtop = 1, growBy = 8, maxSize = 64\<rparr>\<rparr>"

lemma demo_ready: "ready (demo_state limit code)"
  by (simp add: demo_state_def newLState_def SetGasLimit_def ready_def stack_ok_def newFixedCallFrameStack_def last_slot_def
      parents_below_def zero_frame_def)

lemma demo_gas: "gasLimit (demo_state limit code) = limit" "gasUsed (demo_state limit code) = 0"
  by (simp_all add: demo_state_def newLState_def SetGasLimit_def)

lemma demo_gas_ok: "limit < -1 \<Longrightarrow> gas_ok (demo_state limit code)"
  by (simp add: gas_ok_def demo_gas word_gt_0)

lemma demo_hosts_ok: "host_ok demo_hosts"
proof -
  have "runs fo (demo_hosts i call) s" if "ready s" "gas_ok s"
    and c: "\<And>a b r s'. within s (nat (fsp (cstack s))) s' \<Longrightarrow> runs fo (call a b r) s'" for fo i call s
  proof -
    have "within s (nat (fsp (cstack s))) s" using that(1,2) by (intro within_refl) (auto simp: ready_def stack_ok_def)
    then show ?thesis using c by (simp add: runs_def demo_hosts_def)
  qed
  then show ?thesis by (simp add: host_ok_def)
qed

lemmas run_defs = callR_def top_reg_def reg_get_def metaCall_def pushCallFrame_def new_frame_def fixed_IsFull_def push_frame_def
  fixed_Push_def initCallFrame_def frame_at_def frame_function_def the_function_def last_slot_def
  bnd_def rd_def upd_def ret_def and_then_def whenM_def at_index_def deref_def heap_at_def or_panic_def Let_def
  set_top_def reg_do_def checkSize_def fill_nil_def set_top_only_def poke_def array_set_def upto.simps MultRet_def reg_SetTop_def clear_above_def


lemma demo_run: "\<exists>s'. callR (mainLoop demo_hosts (Suc (Suc (Suc 0)))) 0 0 (-1) (demo_state 3 [0x84000001]) = Inr ((), s')"
  apply (simp add: run_defs demo_state_def newLState_def SetGasLimit_def newFixedCallFrameStack_def newLFunctionL_def newLFunctionG_def demo_proto_def)
  apply (simp add: enter_def with_frame_def the_currentFrame_def fixed_IsEmpty_def fetch_def code_at_def frame_proto_def add_pc_def set_frame_def run_defs)
  apply (simp add: exec_def opGetOpCode_def op_at_def opCodeMax_def all_ops_def run_defs)
  apply (simp add: vm_RETURN_def with_frame_def the_currentFrame_def opGetArgA_def opGetArgB_def closeUpvalues_def pop_frame_def fixed_IsEmpty_def copyReturnValues_def reg_FillNil_def loop_done_def clear_above_def run_defs)
  done

text \<open>C3: calls.\<close>

theorem call_discipline:
  assumes "host_ok G" "ready s" "gas_ok s" "callR (mainLoop G n) nargs nret rbase s = Inr (u, s')"
  shows "frames_kept s s' \<and> ready s' \<and> gas_ok s'"
proof -
  have "runs False (callR (mainLoop G n) nargs nret rbase) s"
    using calls_runs [OF assms(1), of False n] assms(2,3) by (simp add: calls_run_def callable_with_def)
  then have w: "within s (nat (fsp (cstack s))) s'" using assms(4) by (simp add: runs_def spec_def)
  then show ?thesis using within_frames_kept within_ready assms(2) by (auto simp: within_def)
qed

text \<open>C2: metered.\<close>

theorem metered_calls_end:
  assumes "host_ok G" "ready s" "gasLimit s \<noteq> 0" "gasLimit s < -1" "gasUsed s < -1" "call_need s \<le> n"
  shows "callR (mainLoop G n) nargs nret rbase s \<noteq> Inl VFuel"
proof -
  have "runs True (callR (mainLoop G n) nargs nret rbase) s"
    using calls_runs [OF assms(1), of True n] assms(2-6) by (simp add: calls_run_def callable_with_def gas_ok_def)
  then show ?thesis by (auto simp: runs_def spec_def split: sum.splits)
qed


theorem call_discipline_witness:
  "\<exists>s'. callR (mainLoop demo_hosts (Suc (Suc (Suc 0)))) 0 0 (-1) (demo_state 3 [0x84000001]) = Inr ((), s') \<and>
    frames_kept (demo_state 3 [0x84000001]) s'"
  using demo_run call_discipline [OF demo_hosts_ok demo_ready demo_gas_ok] by auto

theorem metered_calls_end_witness:
  "callR (mainLoop demo_hosts 131) 0 0 (-1) (demo_state 20 [0x6401fffe]) \<noteq> Inl VFuel"
proof (rule metered_calls_end [OF demo_hosts_ok demo_ready])
  show "call_need (demo_state 20 [0x6401fffe]) \<le> 131"
    by (simp add: call_need_def gas_left_def demo_gas frames_cap_def demo_state_def newLState_def SetGasLimit_def newFixedCallFrameStack_def)
qed (simp_all add: demo_gas word_gt_0)

end
