(* ===== verification/CompRuns.thy ===== *)
theory CompRuns
  imports CompRules Interpreter
begin

text \<open>
  Whole programs: chunks that are compiled, encoded and run by the interpreter, all evaluated by
  the simplifier. They show that the compiler and the virtual machine fit together, and where
  the code they run is not what the program says.
\<close>

section \<open>Evaluation\<close>

text \<open>Computations are evaluated from left to right: nothing behind a bind is touched before it is reached.\<close>

lemma run_bnd: "bnd m f s = (case m s of Inl e \<Rightarrow> Inl e | Inr (x, s') \<Rightarrow> f x s')"
  by (simp add: bnd_def)

lemma run_then: "and_then m n s = (case m s of Inl e \<Rightarrow> Inl e | Inr (_, s') \<Rightarrow> n s')"
  by (simp add: and_then_def bnd_def)

lemma run_when: "whenM b m s = (if b then m s else Inr ((), s))"
  by (simp add: whenM_def ret_def)

lemma run_basic: "ret x s = Inr (x, s)" "rd g s = Inr (g s, s)" "upd h s = Inr ((), h s)" "throwM e s = Inl e"
  by (simp_all add: ret_def rd_def upd_def throwM_def)

lemma lazy: "bnd m f s = bnd m f s" "and_then m n s = and_then m n s" "whenM b m s = whenM b m s"
  by simp_all

lemma upto_literals: "[0..n] = (if 0 \<le> n then 0 # [1..n] else [])" "[1..n] = (if 1 \<le> n then 1 # [2..n] else [])"
  by (simp_all add: upto.simps)

lemma op_at_codes:
  "op_at 0 = Some OP_MOVE"
  "op_at 1 = Some OP_MOVEN"
  "op_at 2 = Some OP_LOADK"
  "op_at 3 = Some OP_LOADBOOL"
  "op_at 4 = Some OP_LOADNIL"
  "op_at 5 = Some OP_GETUPVAL"
  "op_at 6 = Some OP_GETGLOBAL"
  "op_at 7 = Some OP_GETTABLE"
  "op_at 8 = Some OP_GETTABLEKS"
  "op_at 9 = Some OP_SETGLOBAL"
  "op_at 10 = Some OP_SETUPVAL"
  "op_at 11 = Some OP_SETTABLE"
  "op_at 12 = Some OP_SETTABLEKS"
  "op_at 13 = Some OP_NEWTABLE"
  "op_at 14 = Some OP_SELF"
  "op_at 15 = Some OP_ADD"
  "op_at 16 = Some OP_SUB"
  "op_at 17 = Some OP_MUL"
  "op_at 18 = Some OP_DIV"
  "op_at 19 = Some OP_MOD"
  "op_at 20 = Some OP_POW"
  "op_at 21 = Some OP_UNM"
  "op_at 22 = Some OP_NOT"
  "op_at 23 = Some OP_LEN"
  "op_at 24 = Some OP_CONCAT"
  "op_at 25 = Some OP_JMP"
  "op_at 26 = Some OP_EQ"
  "op_at 27 = Some OP_LT"
  "op_at 28 = Some OP_LE"
  "op_at 29 = Some OP_TEST"
  "op_at 30 = Some OP_TESTSET"
  "op_at 31 = Some OP_CALL"
  "op_at 32 = Some OP_TAILCALL"
  "op_at 33 = Some OP_RETURN"
  "op_at 34 = Some OP_FORLOOP"
  "op_at 35 = Some OP_FORPREP"
  "op_at 36 = Some OP_TFORLOOP"
  "op_at 37 = Some OP_SETLIST"
  "op_at 38 = Some OP_CLOSE"
  "op_at 39 = Some OP_CLOSURE"
  "op_at 40 = Some OP_VARARG"
  "op_at 41 = Some OP_BAND"
  "op_at 42 = Some OP_BOR"
  "op_at 43 = Some OP_BXOR"
  "op_at 44 = Some OP_SHL"
  "op_at 45 = Some OP_SHR"
  "op_at 46 = Some OP_IDIV"
  "op_at 47 = Some OP_BNOT"
  "op_at 48 = Some OP_NOP"
  by (simp_all add: op_at_def opCodeMax_def all_ops_def)

lemmas run_steps =
  compileExpr.simps(2) [where n = "pred_numeral k" for k, folded numeral_eq_Suc]
  compileStmt.simps(2) [where n = "pred_numeral k" for k, folded numeral_eq_Suc]
  patch_loop.simps(2) [where n = "pred_numeral k" for k, folded numeral_eq_Suc]
  jump_chain.simps(2) [where n = "pred_numeral k" for k, folded numeral_eq_Suc]
  vm_loop.simps(2) [where n = "pred_numeral k" for k, folded numeral_eq_Suc]
  mainLoop.simps(2) [where n = "pred_numeral k" for k, folded numeral_eq_Suc]

lemmas eval_simps = run_bnd run_then run_when run_basic op_at_codes upto_literals run_steps Let_def

lemmas compile_defs =
  compileASTToIRDirect_def compileFunctionExpr_def compileChunk_def compileStmt_body_def compileExpr_body_def
  compileLocalAssignStmt_def compileRegAssignment_def compileReturnStmt_def compileWhileStmt_def
  newFuncContext_def newCodeBlock_def newVarNamePool_def set_func_def set_code_def set_block_def
  the_block_def parent_block_def RegTop_def SetRegTop_def RegisterLocalVarWithAttr_def vp_Register_def
  LastPC_def code_LastPC_def AddABC_def AddABx_def AddASbx_def AddLoadNil_def code_Add_def code_AddASbx_def
  code_AddLoadNil_def code_Last_def code_update_def inst_abc_def inst_abx_def inst_asbx_def FindLocalVar_def
  FindLocalVarAndBlock_def vp_Find_def savereg_def ec_of_def ecnone_def is_funcexpr_def
  isVarArgReturnExpr_def EndScope_def vp_List_def end_local_def CheckUnresolvedGoto_def patchCode_def
  maxRegisterUsed_def counted_regs_def code_List_def code_PosList_def NewLabel_def label_here_def
  SetLabelPc_def EnterBlock_def CloseUpvalues_def LeaveBlock_def HasToBeClosed_def
  ResolveCurrentBlockGotosWithParentBlock_def vp_LastIndex_def patch_jump_def merge_moves_def set_inst_def
  code_At_def regNotDefined_def opMaxArgsA_def labelNoJump_def maxRegisters_def sline_def eline_def
  is_label_def chunk_pos_def VarArgHasArg_def VarArgNeedsArg_def VarArgIsVarArg_def c_or_panic_def
  opMaxArgSbx_def opMaxArgBx_def reg_range_def rk_reg_def raiseCompileError_def finished_def
  compileAssignStmt_def assign_ident_def compileAssignStmtRight_def assign_one_def assign_to_def
  assign_rest_def ident_name_def store_target_def compileFuncCallExpr_def argsReferenceLocalReg_def
  getExprName_def shouldmove_def in_child_def add_function_def emit_upvalue_def compile_ident_def
  getIdentRefType_def RegisterUpvalue_def vp_RegisterUnique_def compileGotoStmt_def compileLabelStmt_def
  AddUnresolvedGoto_def FindLabel_def AddNamedLabel_def ResolveForwardGoto_def ResolveGoto_def
  LocalVarsCount_def closure_upvalues_def is_logical_def vp_Attr_def return_all_def

lemmas encode_defs =
  Compile_def buildIRFromChunk_def CompileIR_def proto_fields_of_def code_of_ir_def opCreateABC_def
  opCreateASbx_def opCreateABx_def opSetOpCode_def opSetArgA_def opSetArgB_def opSetArgC_def opSetArgBx_def
  opSetArgSbx_def

lemmas vm_defs =
  newLState_def SetGasLimit_def newFixedCallFrameStack_def newLFunctionL_def newLFunctionG_def enter_def
  with_frame_def the_currentFrame_def fixed_IsEmpty_def fetch_def code_at_def frame_proto_def add_pc_def
  set_frame_def callR_def top_reg_def reg_get_def metaCall_def pushCallFrame_def new_frame_def
  fixed_IsFull_def push_frame_def fixed_Push_def initCallFrame_def frame_at_def frame_function_def
  the_function_def last_slot_def at_index_def deref_def heap_at_def or_panic_def set_top_def reg_do_def
  checkSize_def fill_nil_def set_top_only_def poke_def array_set_def MultRet_def reg_SetTop_def
  clear_above_def exec_def vm_RETURN_def opGetOpCode_def opGetArgA_def opGetArgB_def opGetArgC_def
  opGetArgSbx_def opGetArgBx_def VM.bind_upvalue_def closeUpvalues_def pop_frame_def copyReturnValues_def
  reg_FillNil_def loop_done_def vm_JMP_def vm_LOADNIL_def vm_MOVE_def vm_LOADBOOL_def vm_CLOSURE_def
  vm_CLOSE_def vm_CALL_def vm_GETUPVAL_def new_function_def set_closure_upvalue_def frame_upvalue_def
  go_on_def init_varargs_def arg_table_def new_table_def the_table_def put_table_def newLTable_def
  raw_set_int_def set_reg_def reg_Set_def resize_def uv_Value_def closeToBeClosedVars_def findUpvalue_def
  the_upvalue_def uv_Close_def uv_index_def close_variable_def reg_CopyRange_def copy_slot_def
  Registry.array_get_def put_upvalue_def close_candidates_def dbgLocalAttrClose_def

section \<open>Programs\<close>

text \<open>Runs the compiled chunk with gas for twenty instructions, in a machine with eight registers.\<close>

definition run_compiled :: "stmt list \<Rightarrow> vm_exn + unit \<times> vm" where
  "run_compiled chunk =
     (case Compile chunk ''m'' of
        Inl e \<Rightarrow> Inl VUnmodelled
      | Inr p \<Rightarrow>
          callR (mainLoop demo_hosts 20) 0 (-1) (-1) ((SetGasLimit 20 (newLState 4 8 8 64))\<lparr>
            vfuncs := [newLFunctionL p (Some 1) 0],
            reg := \<lparr>rarray = Some (LFunction 0) # replicate 7 None, rtop = 1, growBy = 8, maxSize = 64\<rparr>\<rparr>))"

definition returned :: "stmt list \<Rightarrow> slot" where
  "returned chunk =
     (case run_compiled chunk of Inr (u, s) \<Rightarrow> rarray (reg s) ! nat (rtop (reg s) - 1) | _ \<Rightarrow> None)"

text \<open>\<^verbatim>\<open>while true do while false do local a = nil end end\<close>\<close>

definition two_loops :: "stmt list" where
  "two_loops =
     [WhileStmt (1, 1) (TrueExpr (1, 1))
       [WhileStmt (1, 1) (FalseExpr (1, 1)) [LocalAssignStmt (1, 1) [''a''] [] [NilExpr (1, 1)]]]]"

text \<open>
  The jump back of the outer loop leads to a jump that was already patched. Its operand, now a
  distance, is looked up as a label, which makes the jump back a no-op: the loop ends.
\<close>

lemma outer_loop_lost:
  "\<exists>f. compileASTToIRDirect two_loops ''m'' = Inr f \<and>
    map (\<lambda>i. (op_at (ir_Op i), ir_Sbx i)) (ir_Instructions (ir_info f)) =
      [(Some OP_JMP, 2), (Some OP_LOADNIL, 0), (Some OP_JMP, 1), (Some OP_NOP, 3), (Some OP_RETURN, 0)]"
  by (simp add: two_loops_def compile_defs compileBranchCondition.simps eval_simps cong: lazy let_weak_cong)

text \<open>C8: The program \<^verbatim>\<open>while true do while false do local a = nil end end\<close>, compiled and run, ends
  normally after three instructions, although it has no way out: the jump back of the outer
  loop is lost.
\<close>

theorem endless_loop_ends: "case run_compiled two_loops of Inl e \<Rightarrow> False | Inr (u, s) \<Rightarrow> gasUsed s = 3"
  by (simp add: run_compiled_def demo_hosts_def vm_defs encode_defs two_loops_def compile_defs
      compileBranchCondition.simps eval_simps cong: lazy let_weak_cong)

text \<open>
  \<^verbatim>\<open>local x = true; local f = function() return x end; ... x = false; local y = f(); return y\<close>
\<close>

definition captured_after :: "stmt list \<Rightarrow> stmt list" where
  "captured_after between =
    [LocalAssignStmt (1, 1) [''x''] [] [TrueExpr (1, 1)],
     LocalAssignStmt (1, 1) [''f''] []
       [FunctionExpr (1, 1) \<lparr>HasVargs = False, ParNames = []\<rparr> [ReturnStmt (1, 1) [IdentExpr (1, 1) ''x'']]]] @
     between @
    [AssignStmt (1, 1) [IdentExpr (1, 1) ''x''] [FalseExpr (1, 1)],
     LocalAssignStmt (1, 1) [''y''] [] [FuncCallExpr (1, 1) (Some (IdentExpr (1, 1) ''f'')) None [] [] True],
     ReturnStmt (1, 1) [IdentExpr (1, 1) ''y'']]"

text \<open>C7: A program that assigns to a local variable a closure has captured, compiled and run by the
  virtual machine: the closure sees the assignment. With a \<^verbatim>\<open>goto d\<close> to a label \<^verbatim>\<open>::d::\<close> next to it
  in between, which does nothing, it does not: the \<^verbatim>\<open>CLOSE\<close> of a goto that leaves no variable
  behind closes them all.
\<close>

theorem goto_detaches_captured:
  "returned (captured_after []) = Some (LBool False) \<and>
   returned (captured_after [GotoStmt (1, 1) ''d'', LabelStmt (1, 1) ''d'']) = Some (LBool True)"
  by (simp_all add: returned_def captured_after_def run_compiled_def demo_hosts_def vm_defs encode_defs compile_defs
      eval_simps cong: lazy let_weak_cong)

text \<open>
  \<^verbatim>\<open>local t = {true, x = f()}\<close>: the \<^verbatim>\<open>SETLIST\<close> behind the keyed call takes all the values on the
  registers for the array part, as if the call were the last value without a key.
\<close>

lemma keyed_call_in_array:
  "\<exists>f. compileASTToIRDirect [LocalAssignStmt (1, 1) [''t''] []
       [TableExpr (1, 1) [(None, TrueExpr (1, 1)), (Some (StringExpr (1, 1) ''x''),
          FuncCallExpr (1, 1) (Some (IdentExpr (1, 1) ''f'')) None [] [] False)]]] ''m'' = Inr f \<and>
    (op_at (ir_Op (ir_Instructions (ir_info f) ! 5)), ir_B (ir_Instructions (ir_info f) ! 5)) = (Some OP_SETLIST, 0)"
  by (simp add: compileTableExpr_def flush_fields_def FieldsPerFlush_c_def compileExprWithKMVPropagation_def
      compileExprWithPropagation_def PropagateKMV_def ConstIndex_def is_string_def opIsK_def int2Fb_def opRkAsk_def
      load_const_def opMaxIndexRk_def code_Pop_def opBitRk_def signed_divide_int_def
      compile_defs eval_simps cong: lazy let_weak_cong)

text \<open>From the 512th batch on the batch number is in a word of its own, which always is zero.\<close>

lemma large_table_batches:
  assumes "arraycount > 511 * FieldsPerFlush_c"
  shows "\<exists>b. flush_fields tablereg arraycount islast allvalues line = and_then (AddABC OP_SETLIST tablereg b 0 line) (AddRawWord 0 line)"
proof -
  have "(arraycount - 1) sdiv FieldsPerFlush_c + 1 > 511"
    using assms by (simp add: FieldsPerFlush_c_def signed_divide_int_def sgn_if)
  then show ?thesis by (auto simp: flush_fields_def Let_def whenM_def)
qed

text \<open>A chunk whose registers are counted.\<close>

theorem compiled_registers_witness:
  "\<exists>f. compileASTToIRDirect [LocalAssignStmt (1, 1) [''a''] [] [TrueExpr (1, 1)]] ''m'' = Inr f \<and> fn_ok f"
proof -
  have "\<exists>f. compileASTToIRDirect [LocalAssignStmt (1, 1) [''a''] [] [TrueExpr (1, 1)]] ''m'' = Inr f"
    by (simp add: compile_defs eval_simps cong: lazy let_weak_cong)
  then show ?thesis using compiled_registers by blast
qed

end
