(* ===== verification/Api.thy ===== *)
theory Api
  imports VM "HOL-Library.Char_ord" "HOL-Library.List_Lexorder"
begin

text \<open>
  The interface of the virtual machine to host functions: the methods of \<^verbatim>\<open>LState\<close> in the
  API part of \<^verbatim>\<open>state.go\<close> (the stack of a frame, conversions, environments, tables, protected
  calls) and the argument checks of \<^verbatim>\<open>auxlib.go\<close>. A host function is a computation that
  returns the number of its results, which it has pushed; its arguments are the registers of
  its frame.
\<close>

type_synonym LGFunction = "callback \<Rightarrow> int vmM"

definition RegistryIndex :: int where "RegistryIndex = -10000"
definition EnvironIndex :: int where "EnvironIndex = -10001"
definition GlobalsIndex :: int where "GlobalsIndex = -10002"

definition UpvalueIndex :: "int \<Rightarrow> int" where
  "UpvalueIndex i = GlobalsIndex - i"

section \<open>The registers of a frame\<close>

definition indexToReg :: "int \<Rightarrow> vm \<Rightarrow> int" where
  "indexToReg idx s =
     (let base = currentLocalBase s
      in if idx > 0 then base + idx - 1
         else if idx = 0 then -1
         else let tidx = rtop (reg s) + idx in if tidx < base then -1 else tidx)"

definition GetTop :: "int vmM" where
  "GetTop = rd (\<lambda>s. rtop (reg s) - currentLocalBase s)"

definition ls_SetTop :: "int \<Rightarrow> unit vmM" where
  "ls_SetTop idx = bnd (rd currentLocalBase) (\<lambda>base. bnd (rd (indexToReg idx)) (\<lambda>r.
     if r + 1 < base then set_top base else set_top (r + 1)))"

definition frame_upvalues :: "nat option list vmM" where
  "frame_upvalues = with_frame (\<lambda>c cf. bnd (frame_function cf) (\<lambda>fn. ret (Upvalues fn)))"

text \<open>A table argument of the pseudo indices, as a pointer.\<close>

definition want_table :: "string \<Rightarrow> slot \<Rightarrow> nat vmM" where
  "want_table what v =
     (case v of
        Some (LTable t) \<Rightarrow> ret t
      | _ \<Rightarrow> bnd (type_of v) (\<lambda>t. RaiseError (what @ '' must be a table('' @ LValueType_String t @ '')'')))"

definition put_function :: "nat \<Rightarrow> (lfunction \<Rightarrow> lfunction) \<Rightarrow> unit vmM" where
  "put_function f h = bnd (the_function f) (\<lambda>fn. upd (\<lambda>s. s\<lparr>vfuncs := (vfuncs s)[f := h fn]\<rparr>))"

definition ls_Replace :: "int \<Rightarrow> slot \<Rightarrow> unit vmM" where
  "ls_Replace idx v = bnd (rd currentLocalBase) (\<lambda>base. bnd top_reg (\<lambda>top.
     if idx > 0 then whenM (base + idx - 1 < top) (set_reg (base + idx - 1) v)
     else if idx = 0 then ret ()
     else if idx > RegistryIndex then whenM (top + idx \<ge> base) (set_reg (top + idx) v)
     else if idx = RegistryIndex then bnd (want_table ''registry'' v) (\<lambda>t. upd (\<lambda>s. s\<lparr>gRegistry := t\<rparr>))
     else if idx = EnvironIndex
     then bnd (rd currentFrame) (\<lambda>c.
          and_then (whenM (c = None) (RaiseError ''no calling environment''))
            (bnd (want_table ''environment'' v) (\<lambda>t. with_frame (\<lambda>_ cf. bnd (deref (Fn cf)) (\<lambda>f.
               put_function f (\<lambda>fn. fn\<lparr>Env := Some t\<rparr>))))))
     else if idx = GlobalsIndex then bnd (want_table ''_G'' v) (\<lambda>t. upd (\<lambda>s. s\<lparr>gGlobal := t\<rparr>))
     else bnd frame_upvalues (\<lambda>us.
          let index = GlobalsIndex - idx - 1
          in whenM (index < int (length us)) (bnd (deref (us ! nat index)) (\<lambda>u. uv_SetValue u v)))))"

definition ls_Get :: "int \<Rightarrow> slot vmM" where
  "ls_Get idx = bnd (rd currentLocalBase) (\<lambda>base. bnd top_reg (\<lambda>top.
     if idx > 0 then (if base + idx - 1 < top then reg_get (base + idx - 1) else ret (Some LNil))
     else if idx = 0 then ret (Some LNil)
     else if idx > RegistryIndex then (if top + idx < base then ret (Some LNil) else reg_get (top + idx))
     else if idx = RegistryIndex then rd (\<lambda>s. Some (LTable (gRegistry s)))
     else if idx = EnvironIndex
     then bnd (rd currentFrame) (\<lambda>c.
          if c = None then rd (\<lambda>s. Some (LTable (lsEnv s))) else with_frame (\<lambda>_ cf. frame_env cf))
     else if idx = GlobalsIndex then rd (\<lambda>s. Some (LTable (gGlobal s)))
     else bnd frame_upvalues (\<lambda>us.
          let index = GlobalsIndex - idx - 1
          in if index < int (length us) then bnd (deref (us ! nat index)) uv_Value else ret (Some LNil))))"

definition ls_Push :: "LValue \<Rightarrow> unit vmM" where
  "ls_Push v = push_reg (Some v)"

fun ls_Pop :: "nat \<Rightarrow> unit vmM" where
  "ls_Pop 0 = ret ()"
| "ls_Pop (Suc n) =
     and_then (bnd GetTop (\<lambda>t. whenM (t = 0) (RaiseError ''register underflow'')))
       (bnd pop_reg (\<lambda>_. ls_Pop n))"

definition move_reg :: "int \<Rightarrow> int \<Rightarrow> unit vmM" where
  "move_reg dst src = bnd (reg_get src) (set_reg dst)"

definition ls_Insert :: "slot \<Rightarrow> int \<Rightarrow> unit vmM" where
  "ls_Insert v index = bnd (rd (indexToReg index)) (\<lambda>r. bnd top_reg (\<lambda>top. bnd (rd currentLocalBase) (\<lambda>base.
     if r \<ge> top then set_reg r v
     else let r = (if r \<le> base then base else r)
          in and_then (forM (rev [r..top - 1]) (\<lambda>i. move_reg (i + 1) i)) (set_reg r v))))"

definition ls_Remove :: "int \<Rightarrow> unit vmM" where
  "ls_Remove index = bnd (rd (indexToReg index)) (\<lambda>r. bnd top_reg (\<lambda>top. bnd (rd currentLocalBase) (\<lambda>base.
     if r \<ge> top then ret ()
     else if r < base then ret ()
     else if r = top - 1 then ls_Pop 1
     else and_then (forM [r..top - 2] (\<lambda>i. move_reg i (i + 1))) (set_top (top - 1)))))"

section \<open>Objects\<close>

definition defaultArrayCap :: int where "defaultArrayCap = 32"
definition defaultHashCap :: int where "defaultHashCap = 32"

definition ls_NewTable :: "nat vmM" where
  "ls_NewTable = new_table (newLTable defaultArrayCap defaultHashCap)"

definition CreateTable :: "int \<Rightarrow> int \<Rightarrow> nat vmM" where
  "CreateTable acap hcap = new_table (newLTable acap hcap)"

definition NewFunctionFromProto :: "FunctionProto \<Rightarrow> nat vmM" where
  "NewFunctionFromProto proto = bnd (rd lsEnv) (\<lambda>env.
     new_function (newLFunctionL proto (Some env) (uint (NumUpvalues (proto_info proto)))))"

definition new_userdata :: "luserdata \<Rightarrow> nat vmM" where
  "new_userdata ud = bnd (rd (\<lambda>s. length (vuserdata s))) (\<lambda>i.
     and_then (upd (\<lambda>s. s\<lparr>vuserdata := vuserdata s @ [ud]\<rparr>)) (ret i))"

definition put_userdata :: "nat \<Rightarrow> luserdata \<Rightarrow> unit vmM" where
  "put_userdata u ud = upd (\<lambda>s. s\<lparr>vuserdata := (vuserdata s)[u := ud]\<rparr>)"

definition the_userdata :: "nat \<Rightarrow> luserdata vmM" where
  "the_userdata u = bnd (rd vuserdata) (\<lambda>h. heap_at h u)"

text \<open>\<^verbatim>\<open>Value\<close> is nil, a host value, until the caller sets it.\<close>

definition NewUserData :: "nat vmM" where
  "NewUserData = bnd (rd lsEnv) (\<lambda>env.
     new_userdata \<lparr>udHostValue = OtherValue, udEnv = Some env, udMetatable = LNil\<rparr>)"

definition NewFunction :: "nat \<Rightarrow> nat vmM" where
  "NewFunction g = bnd (rd lsEnv) (\<lambda>env. new_function (newLFunctionG g (Some env) 0))"

definition new_closed_upvalue :: "slot \<Rightarrow> nat vmM" where
  "new_closed_upvalue v = bnd (rd (\<lambda>s. length (vupvals s))) (\<lambda>i.
     and_then (upd (\<lambda>s. s\<lparr>vupvals := vupvals s @ [\<lparr>uindex = 0, uclosed = True, uvalue = v\<rparr>]\<rparr>)) (ret i))"

text \<open>An upvalue without registers is a closed one.\<close>

definition NewClosure :: "nat \<Rightarrow> slot list \<Rightarrow> nat vmM" where
  "NewClosure g vs = bnd (rd lsEnv) (\<lambda>env.
     bnd (foldM (\<lambda>v us. bnd (new_closed_upvalue v) (\<lambda>u. ret (us @ [Some u]))) vs []) (\<lambda>us.
       new_function ((newLFunctionG g (Some env) 0)\<lparr>Upvalues := us\<rparr>)))"

section \<open>Conversions\<close>

definition int_of_number :: "LUint256 \<Rightarrow> int" where
  "int_of_number n = (let (out, ok) = lu256ToInt n in if ok then out else 0)"

definition ls_ToBool :: "int \<Rightarrow> bool vmM" where
  "ls_ToBool n = bnd (ls_Get n) (\<lambda>v. ret (slot_AsBool v))"

definition ls_ToInt :: "int \<Rightarrow> int vmM" where
  "ls_ToInt n = bnd (ls_Get n) (\<lambda>v. ret (case v of
       Some (LNum k) \<Rightarrow> int_of_number k
     | Some (LString t) \<Rightarrow> (case parseNumber t of Inl _ \<Rightarrow> 0 | Inr k \<Rightarrow> int_of_number k)
     | _ \<Rightarrow> 0))"

fun LVAsUint256 :: "LValue \<Rightarrow> LUint256" where
  "LVAsUint256 (LNum k) = k"
| "LVAsUint256 (LString t) = (case parseNumber t of Inl _ \<Rightarrow> LUint256Zero | Inr k \<Rightarrow> k)"
| "LVAsUint256 _ = LUint256Zero"

definition ls_ToUint256 :: "int \<Rightarrow> LUint256 vmM" where
  "ls_ToUint256 n = bnd (ls_Get n) (\<lambda>v. ret (case v of None \<Rightarrow> LUint256Zero | Some x \<Rightarrow> LVAsUint256 x))"

definition ls_ToString :: "int \<Rightarrow> string vmM" where
  "ls_ToString n = bnd (ls_Get n) slot_AsString"

definition ls_ToAgent :: "int \<Rightarrow> string vmM" where
  "ls_ToAgent n = bnd (ls_Get n) (\<lambda>v. ret (case v of
       Some (LAgent a) \<Rightarrow> a
     | Some (LString t) \<Rightarrow> (case parseAgentString t of Inl _ \<Rightarrow> [] | Inr a \<Rightarrow> a)
     | _ \<Rightarrow> []))"

definition ls_ToTable :: "int \<Rightarrow> nat option vmM" where
  "ls_ToTable n = bnd (ls_Get n) (\<lambda>v. ret (case v of Some (LTable t) \<Rightarrow> Some t | _ \<Rightarrow> None))"

definition ls_ToFunction :: "int \<Rightarrow> nat option vmM" where
  "ls_ToFunction n = bnd (ls_Get n) (\<lambda>v. ret (case v of Some (LFunction f) \<Rightarrow> Some f | _ \<Rightarrow> None))"

definition ls_ToUserData :: "int \<Rightarrow> nat option vmM" where
  "ls_ToUserData n = bnd (ls_Get n) (\<lambda>v. ret (case v of Some (LUserData u) \<Rightarrow> Some u | _ \<Rightarrow> None))"

section \<open>Errors\<close>

text \<open>The name of a function in an error is the one its caller used, and otherwise its place.\<close>

definition function_place :: "callFrame \<Rightarrow> string vmM" where
  "function_place fr = bnd (frame_proto fr) (\<lambda>p.
     ret (''<'' @ SourceName (proto_info p) @ '':'' @ itoa (LineDefined (proto_info p)) @ ''>''))"

definition call_name :: "callFrame \<Rightarrow> string \<Rightarrow> string vmM" where
  "call_name fr name =
     (if name = ''?'' \<or> TailCall fr > 0
      then bnd (frame_function fr) (\<lambda>fn. if IsG fn then ret name else function_place fr)
      else ret name)"

definition unnamed :: "callFrame \<Rightarrow> string vmM" where
  "unnamed fr = bnd (frame_function fr) (\<lambda>fn. if IsG fn then ret ''(anonymous)'' else function_place fr)"

definition frameFuncName :: "nat \<Rightarrow> (string \<times> bool) vmM" where
  "frameFuncName c = bnd (frame_at c) (\<lambda>fr.
     case Parent fr of
       None \<Rightarrow> ret (''main chunk'', True)
     | Some p \<Rightarrow> bnd (frame_at p) (\<lambda>frame. bnd (frame_function frame) (\<lambda>caller.
         bnd (if IsG caller then unnamed fr
              else bnd (deref (Proto caller)) (\<lambda>proto.
                case find (\<lambda>call. dc_Pc call = Pc frame - 1) (DbgCalls (proto_info proto)) of
                  Some call \<Rightarrow> call_name fr (dc_Name call)
                | None \<Rightarrow> unnamed fr))
           (\<lambda>name. ret (name, False)))))"

definition rawFrameFuncName :: "string vmM" where
  "rawFrameFuncName = bnd the_currentFrame (\<lambda>c. bnd (frameFuncName c) (\<lambda>(name, _). ret name))"

definition ArgError :: "int \<Rightarrow> string \<Rightarrow> 'a vmM" where
  "ArgError n message = bnd rawFrameFuncName (\<lambda>name.
     RaiseError (''bad argument #'' @ itoa n @ '' to '' @ name @ '' ('' @ message @ '')''))"

definition TypeError :: "int \<Rightarrow> LValueType \<Rightarrow> 'a vmM" where
  "TypeError n typ = bnd rawFrameFuncName (\<lambda>name. bnd (ls_Get n) (\<lambda>v. bnd (type_of v) (\<lambda>t.
     RaiseError (''bad argument #'' @ itoa n @ '' to '' @ name @ '' ('' @ LValueType_String typ @ '' expected, got '' @
       LValueType_String t @ '')''))))"

text \<open>An error value other than a string has no position prefix.\<close>

definition throw_value :: "'a vmM" where
  "throw_value = (\<lambda>s. Inl (VError (get_top_value s) s))"

definition ls_Error :: "slot \<Rightarrow> int \<Rightarrow> 'a vmM" where
  "ls_Error lv level =
     (case lv of
        Some (LString t) \<Rightarrow> raiseError level t
      | _ \<Rightarrow> bnd (rd hasErrorFunc) (\<lambda>h.
          and_then (whenM (\<not> h) closeAllUpvalues) (and_then (push_reg lv) throw_value)))"

section \<open>Arguments\<close>

definition CheckAny :: "int \<Rightarrow> slot vmM" where
  "CheckAny n = bnd GetTop (\<lambda>top. and_then (whenM (n > top) (ArgError n ''value expected'')) (ls_Get n))"

definition checked_int :: "int \<Rightarrow> int \<times> bool \<Rightarrow> int vmM" where
  "checked_int n r = (let (out, ok) = r in if ok then ret out else ArgError n ''number out of range'')"

definition CheckInt :: "int \<Rightarrow> int vmM" where
  "CheckInt n = bnd (ls_Get n) (\<lambda>v.
     case v of Some (LNum k) \<Rightarrow> checked_int n (lu256ToInt k) | _ \<Rightarrow> TypeError n LTUint256)"

definition CheckInt64 :: "int \<Rightarrow> int vmM" where
  "CheckInt64 n = bnd (ls_Get n) (\<lambda>v.
     case v of Some (LNum k) \<Rightarrow> checked_int n (lu256ToInt64 k) | _ \<Rightarrow> TypeError n LTUint256)"

definition number_of :: "slot \<Rightarrow> LUint256 option" where
  "number_of v =
     (case v of
        Some (LNum k) \<Rightarrow> Some k
      | Some (LString t) \<Rightarrow> (case parseNumber t of Inl _ \<Rightarrow> None | Inr k \<Rightarrow> Some k)
      | _ \<Rightarrow> None)"

definition CheckUint256 :: "int \<Rightarrow> LUint256 vmM" where
  "CheckUint256 n = bnd (ls_Get n) (\<lambda>v.
     case number_of v of Some k \<Rightarrow> ret k | None \<Rightarrow> TypeError n LTUint256)"

definition CheckString :: "int \<Rightarrow> string vmM" where
  "CheckString n = bnd (ls_Get n) (\<lambda>v.
     case v of
       Some (LString t) \<Rightarrow> ret t
     | _ \<Rightarrow> if slot_CanConvToString v then ls_ToString n else TypeError n LTString)"

definition agent_arg :: "int \<Rightarrow> string \<Rightarrow> string vmM" where
  "agent_arg n a = (case parseAgentString a of Inl e \<Rightarrow> ArgError n (plain_error e) | Inr addr \<Rightarrow> ret addr)"

definition CheckAgent :: "int \<Rightarrow> string vmM" where
  "CheckAgent n = bnd (ls_Get n) (\<lambda>v.
     case v of Some (LAgent a) \<Rightarrow> agent_arg n a | Some (LString a) \<Rightarrow> agent_arg n a | _ \<Rightarrow> TypeError n LTAgent)"

definition CheckBool :: "int \<Rightarrow> bool vmM" where
  "CheckBool n = bnd (ls_Get n) (\<lambda>v. case v of Some (LBool b) \<Rightarrow> ret b | _ \<Rightarrow> TypeError n LTBool)"

definition CheckTable :: "int \<Rightarrow> nat vmM" where
  "CheckTable n = bnd (ls_Get n) (\<lambda>v. case v of Some (LTable t) \<Rightarrow> ret t | _ \<Rightarrow> TypeError n LTTable)"

definition CheckFunction :: "int \<Rightarrow> nat vmM" where
  "CheckFunction n = bnd (ls_Get n) (\<lambda>v. case v of Some (LFunction f) \<Rightarrow> ret f | _ \<Rightarrow> TypeError n LTFunction)"

definition CheckUserData :: "int \<Rightarrow> nat vmM" where
  "CheckUserData n = bnd (ls_Get n) (\<lambda>v. case v of Some (LUserData u) \<Rightarrow> ret u | _ \<Rightarrow> TypeError n LTUserData)"

definition CheckType :: "int \<Rightarrow> LValueType \<Rightarrow> unit vmM" where
  "CheckType n typ = bnd (ls_Get n) (\<lambda>v. bnd (type_of v) (\<lambda>t. whenM (t \<noteq> typ) (TypeError n typ)))"

fun strings_Join :: "string list \<Rightarrow> string \<Rightarrow> string" where
  "strings_Join [] sep = []"
| "strings_Join [x] sep = x"
| "strings_Join (x # xs) sep = x @ sep @ strings_Join xs sep"

definition CheckTypes :: "int \<Rightarrow> LValueType list \<Rightarrow> unit vmM" where
  "CheckTypes n typs = bnd (ls_Get n) (\<lambda>v. bnd (type_of v) (\<lambda>vt.
     if vt \<in> set typs then ret ()
     else ArgError n (strings_Join (map LValueType_String typs) '' or '' @ '' expected, got '' @ LValueType_String vt)))"

fun index_of :: "'a \<Rightarrow> 'a list \<Rightarrow> nat option" where
  "index_of x [] = None"
| "index_of x (y # ys) = (if y = x then Some 0 else map_option Suc (index_of x ys))"

definition CheckOption :: "int \<Rightarrow> string list \<Rightarrow> int vmM" where
  "CheckOption n options = bnd (CheckString n) (\<lambda>str.
     case index_of str options of
       Some i \<Rightarrow> ret (int i)
     | None \<Rightarrow> ArgError n (''invalid option: '' @ str @ '' (must be one of '' @ strings_Join options '','' @ '')''))"

text \<open>Optional arguments: nil is the default.\<close>

definition opt_arg :: "int \<Rightarrow> 'a \<Rightarrow> (slot \<Rightarrow> 'a vmM) \<Rightarrow> 'a vmM" where
  "opt_arg n d f = bnd (ls_Get n) (\<lambda>v. if v = Some LNil then ret d else f v)"

definition OptInt :: "int \<Rightarrow> int \<Rightarrow> int vmM" where
  "OptInt n d = opt_arg n d (\<lambda>v.
     case v of Some (LNum k) \<Rightarrow> checked_int n (lu256ToInt k) | _ \<Rightarrow> TypeError n LTUint256)"

definition OptInt64 :: "int \<Rightarrow> int \<Rightarrow> int vmM" where
  "OptInt64 n d = opt_arg n d (\<lambda>v.
     case v of Some (LNum k) \<Rightarrow> checked_int n (lu256ToInt64 k) | _ \<Rightarrow> TypeError n LTUint256)"

definition OptUint256 :: "int \<Rightarrow> LUint256 \<Rightarrow> LUint256 vmM" where
  "OptUint256 n d = opt_arg n d (\<lambda>v. case v of Some (LNum k) \<Rightarrow> ret k | _ \<Rightarrow> TypeError n LTUint256)"

definition OptString :: "int \<Rightarrow> string \<Rightarrow> string vmM" where
  "OptString n d = opt_arg n d (\<lambda>v. case v of Some (LString t) \<Rightarrow> ret t | _ \<Rightarrow> TypeError n LTString)"

definition OptAgent :: "int \<Rightarrow> string \<Rightarrow> string vmM" where
  "OptAgent n d = opt_arg n d (\<lambda>v.
     case v of Some (LAgent a) \<Rightarrow> agent_arg n a | Some (LString a) \<Rightarrow> agent_arg n a | _ \<Rightarrow> TypeError n LTAgent)"

definition OptBool :: "int \<Rightarrow> bool \<Rightarrow> bool vmM" where
  "OptBool n d = opt_arg n d (\<lambda>v. case v of Some (LBool b) \<Rightarrow> ret b | _ \<Rightarrow> TypeError n LTBool)"

definition OptTable :: "int \<Rightarrow> nat option \<Rightarrow> nat option vmM" where
  "OptTable n d = opt_arg n d (\<lambda>v. case v of Some (LTable t) \<Rightarrow> ret (Some t) | _ \<Rightarrow> TypeError n LTTable)"

definition OptFunction :: "int \<Rightarrow> nat option \<Rightarrow> nat option vmM" where
  "OptFunction n d = opt_arg n d (\<lambda>v. case v of Some (LFunction f) \<Rightarrow> ret (Some f) | _ \<Rightarrow> TypeError n LTFunction)"

definition OptUserData :: "int \<Rightarrow> nat option \<Rightarrow> nat option vmM" where
  "OptUserData n d = opt_arg n d (\<lambda>v. case v of Some (LUserData u) \<Rightarrow> ret (Some u) | _ \<Rightarrow> TypeError n LTUserData)"

section \<open>Tables, environments and metatables\<close>

definition GetFEnv :: "slot \<Rightarrow> slot vmM" where
  "GetFEnv obj =
     (let env = (\<lambda>e. map_option LTable e)
      in case obj of
           Some (LFunction f) \<Rightarrow> bnd (the_function f) (\<lambda>fn. ret (env (Env fn)))
         | Some (LUserData u) \<Rightarrow> bnd (the_userdata u) (\<lambda>ud. ret (env (udEnv ud)))
         | _ \<Rightarrow> ret (Some LNil))"

definition SetFEnv :: "slot \<Rightarrow> slot \<Rightarrow> unit vmM" where
  "SetFEnv obj env =
     (case env of
        Some (LTable t) \<Rightarrow>
          (case obj of
             Some (LFunction f) \<Rightarrow> put_function f (\<lambda>fn. fn\<lparr>Env := Some t\<rparr>)
           | Some (LUserData u) \<Rightarrow> bnd (the_userdata u) (\<lambda>ud. put_userdata u (ud\<lparr>udEnv := Some t\<rparr>))
           | _ \<Rightarrow> ret ())
      | _ \<Rightarrow> bnd (type_of env) (\<lambda>t. RaiseError (''cannot use '' @ LValueType_String t @ '' as an environment'')))"

definition ls_RawGetInt :: "nat \<Rightarrow> int \<Rightarrow> LValue vmM" where
  "ls_RawGetInt t i = bnd (the_table t) (\<lambda>tb. ret (RawGetInt tb i))"

definition raw_set_string :: "nat \<Rightarrow> string \<Rightarrow> LValue \<Rightarrow> unit vmM" where
  "raw_set_string t k v = bnd (the_table t) (\<lambda>tb. put_table t (RawSetString tb k v))"

definition GetGlobal :: "callback \<Rightarrow> string \<Rightarrow> slot vmM" where
  "GetGlobal call name = bnd (ls_Get GlobalsIndex) (\<lambda>g. getFieldString call g name)"

definition SetGlobal :: "callback \<Rightarrow> string \<Rightarrow> slot \<Rightarrow> unit vmM" where
  "SetGlobal call name v = bnd (ls_Get GlobalsIndex) (\<lambda>g. setFieldString call g name v)"

definition ls_Next :: "nat \<Rightarrow> LValue \<Rightarrow> (LValue \<times> LValue) vmM" where
  "ls_Next t key = bnd (the_table t) (\<lambda>tb.
     let (k, v, cost, tb') = NextWithCost tb key
     in and_then (put_table t tb') (and_then (chargeLinearWorkGas (int cost)) (ret (k, v))))"

definition table_length :: "nat \<Rightarrow> int vmM" where
  "table_length t = bnd (the_table t) (\<lambda>tb.
     let (n, cost) = LenWithCost tb in and_then (chargeLinearWorkGas (int cost)) (ret (int n)))"

definition ObjLen :: "callback \<Rightarrow> slot \<Rightarrow> int vmM" where
  "ObjLen call v = bnd (type_of v) (\<lambda>_.
     case v of
       Some (LString t) \<Rightarrow> ret (int (length t))
     | _ \<Rightarrow> bnd (metaOp1 v ''__len'') (\<lambda>op.
         if is_function op
         then bnd (call_meta call [Some op, v]) (\<lambda>r. bnd (type_of r) (\<lambda>_. ret (case r of
                Some (LNum k) \<Rightarrow> int_of_number k | _ \<Rightarrow> 0)))
         else (case v of Some (LTable t) \<Rightarrow> table_length t | _ \<Rightarrow> ret 0)))"

definition ls_Concat :: "callback \<Rightarrow> slot list \<Rightarrow> string vmM" where
  "ls_Concat call vs = bnd top_reg (\<lambda>top. and_then (forM vs push_reg) (bnd top_reg (\<lambda>top'.
     bnd (stringConcat call (int (length vs)) (top' - 1)) (\<lambda>r. and_then (set_top top) (slot_AsString r)))))"

definition RawEqual :: "callback \<Rightarrow> slot \<Rightarrow> slot \<Rightarrow> bool vmM" where
  "RawEqual call lhs rhs = equals call lhs rhs True"

definition GetMetatable :: "slot \<Rightarrow> LValue vmM" where
  "GetMetatable obj = metatable obj False"

definition SetMetatable :: "slot \<Rightarrow> slot \<Rightarrow> unit vmM" where
  "SetMetatable obj mt = bnd (type_of mt) (\<lambda>mtype.
     if mtype \<noteq> LTNil \<and> mtype \<noteq> LTTable
     then RaiseError (''metatable must be a table or nil, but got '' @ LValueType_String mtype)
     else bnd (deref mt) (\<lambda>m.
       case obj of
         Some (LTable t) \<Rightarrow> bnd (the_table t) (\<lambda>tb. put_table t (tb\<lparr>Metatable := m\<rparr>))
       | Some (LUserData u) \<Rightarrow> bnd (the_userdata u) (\<lambda>ud. put_userdata u (ud\<lparr>udMetatable := m\<rparr>))
       | _ \<Rightarrow> bnd (type_of obj) (\<lambda>t. upd (\<lambda>s. s\<lparr>builtinMts := (builtinMts s)(t \<mapsto> m)\<rparr>))))"

definition CallMeta :: "callback \<Rightarrow> slot \<Rightarrow> string \<Rightarrow> slot vmM" where
  "CallMeta call obj event = bnd (metaOp1 obj event) (\<lambda>op.
     if is_function op then call_meta call [Some op, obj] else ret (Some LNil))"

definition ToStringMeta :: "callback \<Rightarrow> slot \<Rightarrow> slot vmM" where
  "ToStringMeta call lv = bnd (metaOp1 lv ''__tostring'') (\<lambda>op.
     if is_function op
     then bnd (call_meta call [Some op, lv]) (\<lambda>r.
            case r of
              Some (LString t) \<Rightarrow> ret r
            | _ \<Rightarrow> RaiseError ([CHR 39] @ ''__tostring'' @ [CHR 39] @ '' must return a string''))
     else bnd (metaOp1 lv ''__name'') (\<lambda>name.
            case name of
              LString t \<Rightarrow> ret (Some (LString t))
            | _ \<Rightarrow> bnd (string_of lv) (\<lambda>t. ret (Some (LString t)))))"

section \<open>Modules\<close>

fun strings_Split :: "char \<Rightarrow> string \<Rightarrow> string list" where
  "strings_Split sep [] = [[]]"
| "strings_Split sep (c # s) =
     (if c = sep then [] # strings_Split sep s
      else case strings_Split sep s of [] \<Rightarrow> [[c]] | w # ws \<Rightarrow> (c # w) # ws)"

fun find_table :: "int \<Rightarrow> string list \<Rightarrow> nat \<Rightarrow> LValue vmM" where
  "find_table hcap [] cur = ret (LTable cur)"
| "find_table hcap (name # names) cur =
     bnd (raw_get cur (Some (LString name))) (\<lambda>nextobj.
       if nextobj = LNil
       then bnd (CreateTable 0 hcap) (\<lambda>t.
            and_then (ls_RawSet cur (Some (LString name)) (Some (LTable t))) (find_table hcap names t))
       else (case nextobj of LTable t \<Rightarrow> find_table hcap names t | _ \<Rightarrow> ret LNil))"

definition FindTable :: "nat \<Rightarrow> string \<Rightarrow> int \<Rightarrow> LValue vmM" where
  "FindTable obj n hcap = find_table hcap (strings_Split (CHR ''.'') n) obj"

text \<open>The functions of a module, by name; a Go map, hence without two entries for a name.\<close>

definition sortedLGFunctionKeys :: "(string \<times> nat) list \<Rightarrow> string list" where
  "sortedLGFunctionKeys funcs = sort (map fst funcs)"

definition function_number :: "(string \<times> nat) list \<Rightarrow> string \<Rightarrow> nat" where
  "function_number funcs name = (case map_of funcs name of Some g \<Rightarrow> g | None \<Rightarrow> 0)"

definition RegisterModule :: "callback \<Rightarrow> string \<Rightarrow> (string \<times> nat) list \<Rightarrow> slot vmM" where
  "RegisterModule call name funcs =
     bnd (rd gRegistry) (\<lambda>registry. bnd (FindTable registry ''_LOADED'' 1) (\<lambda>tb.
     bnd (getFieldString call (Some tb) name) (\<lambda>m. bnd (type_of m) (\<lambda>t.
       if t = LTTable then ret m
       else bnd (rd gGlobal) (\<lambda>global. bnd (FindTable global name (int (length funcs))) (\<lambda>newmod.
         case newmod of
           LTable n \<Rightarrow>
             and_then (forM (sortedLGFunctionKeys funcs) (\<lambda>fname.
                 bnd (NewFunction (function_number funcs fname)) (\<lambda>f. raw_set_string n fname (LFunction f))))
               (and_then (setFieldString call (Some tb) name (Some newmod)) (ret (Some newmod)))
         | _ \<Rightarrow> RaiseError (''name conflict for module('' @ name @ '')'')))))))"

definition SetFuncs :: "nat \<Rightarrow> (string \<times> nat) list \<Rightarrow> slot list \<Rightarrow> unit vmM" where
  "SetFuncs tb funcs upvalues = forM (sortedLGFunctionKeys funcs) (\<lambda>fname.
     bnd (NewClosure (function_number funcs fname) upvalues) (\<lambda>f. raw_set_string tb fname (LFunction f)))"

definition NewTypeMetatable :: "callback \<Rightarrow> string \<Rightarrow> nat vmM" where
  "NewTypeMetatable call typ = bnd (ls_Get RegistryIndex) (\<lambda>regtable.
     bnd (getFieldString call regtable typ) (\<lambda>mt.
       case mt of
         Some (LTable t) \<Rightarrow> ret t
       | _ \<Rightarrow> bnd ls_NewTable (\<lambda>t. and_then (setFieldString call regtable typ (Some (LTable t))) (ret t))))"

definition GetTypeMetatable :: "callback \<Rightarrow> string \<Rightarrow> slot vmM" where
  "GetTypeMetatable call typ = bnd (ls_Get RegistryIndex) (\<lambda>regtable. getFieldString call regtable typ)"

definition ls_Register :: "callback \<Rightarrow> string \<Rightarrow> nat \<Rightarrow> unit vmM" where
  "ls_Register call name g = bnd (NewFunction g) (\<lambda>f. SetGlobal call name (Some (LFunction f)))"

definition dead_sender :: string where
  "dead_sender = ''0x'' @ replicate 60 (CHR ''0'') @ ''dead''"

text \<open>The globals of the host a contract finds before its host has set them.\<close>

definition default_global :: "callback \<Rightarrow> string \<Rightarrow> (string \<times> LValue) list \<Rightarrow> unit vmM" where
  "default_global call name fs = bnd (GetGlobal call name) (\<lambda>v. whenM (v = Some LNil)
     (bnd ls_NewTable (\<lambda>t.
       and_then (forM fs (\<lambda>(k, x). setFieldString call (Some (LTable t)) k (Some x)))
         (SetGlobal call name (Some (LTable t))))))"

definition initDeterministicHostGlobals :: "callback \<Rightarrow> unit vmM" where
  "initDeterministicHostGlobals call =
     forM [(''tos'', []),
           (''msg'', [(''sender'', LString dead_sender), (''value'', LNum LUint256Zero), (''data'', LString ''0x'')]),
           (''tx'', [(''origin'', LString dead_sender), (''gasprice'', LNum LUint256Zero)]),
           (''block'', [(''number'', LNum LUint256Zero), (''timestamp_ms'', LNum LUint256Zero)]),
           (''gas'', [])]
       (\<lambda>(name, fs). default_global call name fs)"

section \<open>Protected calls\<close>

text \<open>
  The error value, or \<open>None\<close>. A Go panic other than a raised error is recovered too, with a
  state this model does not keep: such a run is outside it.
\<close>

definition unwind :: "int \<Rightarrow> int \<Rightarrow> unit vmM" where
  "unwind sp base =
     and_then (upd (\<lambda>s. s\<lparr>cstack := fixed_SetSp sp (cstack s)\<rparr>))
       (and_then (upd (\<lambda>s. s\<lparr>currentFrame := last_slot s\<rparr>)) (set_top base))"

definition protected :: "'a vmM \<Rightarrow> (slot + 'a) vmM" where
  "protected m = (\<lambda>s. case m s of
       Inr (x, s') \<Rightarrow> Inr (Inr x, s')
     | Inl (VError v s') \<Rightarrow> Inr (Inl v, s')
     | Inl (VPanic _) \<Rightarrow> Inl VUnmodelled
     | Inl e \<Rightarrow> Inl e)"

text \<open>The handler runs on the stack as the error left it; its own error replaces the first one.\<close>

definition handle_error :: "callback \<Rightarrow> nat option \<Rightarrow> slot \<Rightarrow> slot vmM" where
  "handle_error call errfunc err =
     (case errfunc of
        None \<Rightarrow> ret err
      | Some f \<Rightarrow> and_then (push_reg (Some (LFunction f))) (and_then (push_reg err)
          (bnd (protected (call 1 1 (-1))) (\<lambda>r.
             case r of Inl err \<Rightarrow> ret err | Inr _ \<Rightarrow> ls_Get (-1)))))"

definition ls_PCall :: "callback \<Rightarrow> int \<Rightarrow> int \<Rightarrow> nat option \<Rightarrow> slot option vmM" where
  "ls_PCall call nargs nret errfunc = bnd (rd (\<lambda>s. fsp (cstack s))) (\<lambda>sp. bnd top_reg (\<lambda>top.
     let base = top - nargs - 1
     in and_then (whenM (errfunc \<noteq> None) (upd (\<lambda>s. s\<lparr>hasErrorFunc := True\<rparr>)))
          (bnd (protected (call nargs nret (-1))) (\<lambda>r.
             and_then (upd (\<lambda>s. s\<lparr>hasErrorFunc := False\<rparr>))
               (case r of
                  Inr _ \<Rightarrow> and_then (upd (\<lambda>s. s\<lparr>cstack := fixed_SetSp sp (cstack s)\<rparr>))
                    (and_then (whenM (sp = 0) (upd (\<lambda>s. s\<lparr>currentFrame := None\<rparr>))) (ret None))
                | Inl err \<Rightarrow> bnd (handle_error call errfunc err) (\<lambda>err.
                    and_then (unwind sp base) (ret (Some err))))))))"

end
