(* ===== verification/CryptoLib.thy ===== *)
theory CryptoLib
  imports Api Codecs Sha256
begin

text \<open>
  The built-in functions of the contract language (\<^verbatim>\<open>cryptolib.go\<close>): signed and checked
  integer arithmetic of every width, hashes, the encoding of storage keys, the decoding of
  call data, and byte strings in hexadecimal. Legacy Keccak-256 and RIPEMD-160 are third-party
  code: they are parameters, functions from bytes to bytes.

  The results are in the theories \<open>CryptoFacts\<close> (the checked functions return the exact sum or
  difference when it fits the width and raise \<open>Panic(0x11)\<close> otherwise; products they let
  through although they do not fit) and \<open>KeyFacts\<close> (the round trip of the encoding of numbers).
\<close>

section \<open>Results\<close>

text \<open>\<^verbatim>\<open>L.Push(v); return 1\<close>\<close>

definition push1 :: "LValue \<Rightarrow> int vmM" where
  "push1 v = and_then (ls_Push v) (ret 1)"

definition push_number :: "LUint256 \<Rightarrow> int vmM" where
  "push_number v = push1 (LNum v)"

text \<open>\<^verbatim>\<open>s[a:b]\<close>\<close>

definition slice_panic :: go_panic where
  "slice_panic = PMessage ''slice bounds out of range''"

definition go_slice :: "string \<Rightarrow> int \<Rightarrow> int \<Rightarrow> string vmM" where
  "go_slice s a b =
     (if 0 \<le> a \<and> a \<le> b \<and> b \<le> int (length s) then ret (drop (nat a) (take (nat b) s)) else vpanic slice_panic)"

text \<open>Arithmetic of \<^verbatim>\<open>int\<close> and \<^verbatim>\<open>int64\<close> where it can wrap.\<close>

definition wrap64 :: "int \<Rightarrow> int" where
  "wrap64 x = sint (word_of_int x :: u64)"

definition has_0x :: "string \<Rightarrow> bool" where
  "has_0x s \<longleftrightarrow> strings_HasPrefix s ''0x'' \<or> strings_HasPrefix s ''0X''"

definition hex_part :: "string \<Rightarrow> string" where
  "hex_part s = (if has_0x s then drop 2 s else s)"

text \<open>\<^verbatim>\<open>\%q\<close> on ASCII text; with other bytes the text of the error is not modelled.\<close>

definition quote_char :: "char \<Rightarrow> string" where
  "quote_char c =
     (let n = of_char c :: nat
      in if c = CHR 34 \<or> c = CHR 92 then [CHR 92, c]
         else if 32 \<le> n \<and> n < 127 then [c]
         else case map_of [(7, CHR ''a''), (8, CHR ''b''), (12, CHR ''f''), (10, CHR ''n''), (13, CHR ''r''),
                           (9, CHR ''t''), (11, CHR ''v'')] n of
                Some e \<Rightarrow> [CHR 92, e]
              | None \<Rightarrow> [CHR 92, CHR ''x''] @ fmt_02x n)"

definition fmt_q :: "string \<Rightarrow> string option" where
  "fmt_q s = (if list_all (\<lambda>c. (of_char c :: nat) < 128) s
              then Some ([CHR 34] @ concat (map quote_char s) @ [CHR 34]) else None)"

definition raise_text :: "string option \<Rightarrow> 'a vmM" where
  "raise_text m = (case m of Some t \<Rightarrow> RaiseError t | None \<Rightarrow> (\<lambda>s. Inl VUnmodelled))"

section \<open>Signed arithmetic\<close>

definition signedBitWidth :: "int \<Rightarrow> int vmM" where
  "signedBitWidth argPos = bnd (CheckUint256 argPos) (\<lambda>nv.
     let (n, ok) = lu256ToInt nv
     in if \<not> ok \<or> n < 8 \<or> n > 256 \<or> n smod 8 \<noteq> 0
        then bnd (VMState.string_of (Some (LNum nv))) (\<lambda>t.
               RaiseError (''__tol_signed: invalid bit width '' @ t @ '' (must be 8..256, multiple of 8)''))
        else ret n)"

text \<open>The arguments of a binary operation and the width.\<close>

definition signed_args :: "(LUint256 \<Rightarrow> LUint256 \<Rightarrow> int \<Rightarrow> 'a vmM) \<Rightarrow> 'a vmM" where
  "signed_args f = bnd (CheckUint256 1) (\<lambda>a. bnd (CheckUint256 2) (\<lambda>b. bnd (signedBitWidth 3) (f a b)))"

definition cryptoSignedAdd :: "int vmM" where
  "cryptoSignedAdd = signed_args (\<lambda>a b n. push_number (lu256MaskN (lu256Add a b) n))"

definition cryptoSignedSub :: "int vmM" where
  "cryptoSignedSub = signed_args (\<lambda>a b n. push_number (lu256MaskN (lu256Sub a b) n))"

definition cryptoSignedMul :: "int vmM" where
  "cryptoSignedMul = signed_args (\<lambda>a b n. push_number (lu256MaskN (lu256Mul a b) n))"

definition cryptoSignedDiv :: "int vmM" where
  "cryptoSignedDiv = signed_args (\<lambda>a b n.
     and_then (whenM (lu256IsZero (lu256MaskN b n)) (RaiseError ''signed integer division by zero''))
       (let minSigned = lu256Bor (lu256MaskN LUint256Zero n) (lu256Shl LUint256One (nat (n - 1)));
            negOne = lu256MaskN all_ones n
        in and_then (whenM (lu256MaskN a n = minSigned \<and> lu256MaskN b n = negOne)
                       (RaiseError ''signed integer overflow: min_int / -1''))
             (bnd (or_panic (lu256SignedDivN a b n)) push_number)))"

definition cryptoSignedMod :: "int vmM" where
  "cryptoSignedMod = signed_args (\<lambda>a b n.
     and_then (whenM (lu256IsZero (lu256MaskN b n)) (RaiseError ''signed integer modulo by zero''))
       (bnd (or_panic (lu256SignedModN a b n)) push_number))"

definition signed_unary :: "(LUint256 \<Rightarrow> int \<Rightarrow> int vmM) \<Rightarrow> int vmM" where
  "signed_unary f = bnd (CheckUint256 1) (\<lambda>a. bnd (signedBitWidth 2) (f a))"

definition cryptoSignedNeg :: "int vmM" where
  "cryptoSignedNeg = signed_unary (\<lambda>a n. push_number (lu256NegN a n))"

definition signed_compare :: "(int \<Rightarrow> bool) \<Rightarrow> int vmM" where
  "signed_compare p = signed_args (\<lambda>a b n.
     bnd (or_panic (lu256SignedCmpN a b n)) (\<lambda>c. push1 (LBool (p c))))"

definition cryptoSignedLt :: "int vmM" where "cryptoSignedLt = signed_compare (\<lambda>c. c < 0)"
definition cryptoSignedGt :: "int vmM" where "cryptoSignedGt = signed_compare (\<lambda>c. c > 0)"
definition cryptoSignedLe :: "int vmM" where "cryptoSignedLe = signed_compare (\<lambda>c. c \<le> 0)"
definition cryptoSignedGe :: "int vmM" where "cryptoSignedGe = signed_compare (\<lambda>c. c \<ge> 0)"

definition cryptoSignedTrunc :: "int vmM" where
  "cryptoSignedTrunc = signed_unary (\<lambda>a n. push_number (lu256MaskN a n))"

definition cryptoSignedFromU256 :: "int vmM" where
  "cryptoSignedFromU256 = signed_unary (\<lambda>a n. push_number (lu256MaskN a n))"

definition cryptoSignedToU256 :: "int vmM" where
  "cryptoSignedToU256 = signed_unary (\<lambda>a n. bnd (or_panic (lu256SignExtendN a n)) push_number)"

definition cryptoSignedSar :: "int vmM" where
  "cryptoSignedSar = signed_args (\<lambda>a shiftV n.
     bnd (or_panic (lu256SarN a (lu256ShiftAmount shiftV) n)) push_number)"

section \<open>Checked arithmetic\<close>

definition panicOverflow :: "unit vmM" where
  "panicOverflow = RaiseError ''Panic(0x11)''"

text \<open>The width of the unsigned functions is the low limb, as a signed machine integer.\<close>

definition checked_args :: "(LUint256 \<Rightarrow> LUint256 \<Rightarrow> int \<Rightarrow> 'a vmM) \<Rightarrow> 'a vmM" where
  "checked_args f = bnd (CheckUint256 1) (\<lambda>a. bnd (CheckUint256 2) (\<lambda>b. bnd (CheckUint256 3) (\<lambda>k. f a b (sint (lo k)))))"

definition cryptoUintCheckedAdd :: "int vmM" where
  "cryptoUintCheckedAdd = checked_args (\<lambda>a b n.
     let result = lu256Add a b
     in and_then (if n = 256 then whenM (lu256Cmp result a < 0) panicOverflow
                  else whenM (lu256MaskN result n \<noteq> result) panicOverflow)
          (push_number result))"

definition cryptoUintCheckedSub :: "int vmM" where
  "cryptoUintCheckedSub = checked_args (\<lambda>a b n.
     let aMasked = (if n < 256 then lu256MaskN a n else a);
         bMasked = (if n < 256 then lu256MaskN b n else b)
     in and_then (whenM (lu256Cmp bMasked aMasked > 0) panicOverflow) (push_number (lu256Sub a b)))"

definition cryptoUintCheckedMul :: "int vmM" where
  "cryptoUintCheckedMul = checked_args (\<lambda>a b n.
     let result = lu256Mul a b
     in and_then (if n < 256 then whenM (lu256MaskN result n \<noteq> result) panicOverflow
                  else whenM (\<not> lu256IsZero a) (bnd (or_panic (lu256DivMod result a)) (\<lambda>(q, _).
                         whenM (q \<noteq> b) panicOverflow)))
          (push_number result))"

definition signed_overflow_check :: "(bool \<Rightarrow> bool \<Rightarrow> bool) \<Rightarrow> LUint256 \<Rightarrow> LUint256 \<Rightarrow> LUint256 \<Rightarrow> int \<Rightarrow> unit vmM" where
  "signed_overflow_check p a b result n =
     (let signBit = nat (n - 1); aSign = lu256Bit a signBit; bSign = lu256Bit b signBit;
          rSign = lu256Bit result signBit
      in whenM (p aSign bSign \<and> rSign \<noteq> aSign) panicOverflow)"

definition cryptoSignedCheckedAdd :: "int vmM" where
  "cryptoSignedCheckedAdd = signed_args (\<lambda>a b n.
     let result = lu256MaskN (lu256Add a b) n
     in and_then (signed_overflow_check (\<lambda>x y. x = y) a b result n) (push_number result))"

definition cryptoSignedCheckedSub :: "int vmM" where
  "cryptoSignedCheckedSub = signed_args (\<lambda>a b n.
     let result = lu256MaskN (lu256Sub a b) n
     in and_then (signed_overflow_check (\<lambda>x y. x \<noteq> y) a b result n) (push_number result))"

definition cryptoSignedCheckedMul :: "int vmM" where
  "cryptoSignedCheckedMul = signed_args (\<lambda>a b n.
     let result = lu256MaskN (lu256Mul a b) n; aMasked = lu256MaskN a n
     in and_then (whenM (\<not> lu256IsZero aMasked) (bnd (or_panic (lu256SignedDivN result aMasked n)) (\<lambda>q.
                    whenM (lu256MaskN q n \<noteq> lu256MaskN b n) panicOverflow)))
          (push_number result))"

section \<open>Gas and hashes\<close>

definition cryptoGasLeft :: "int vmM" where
  "cryptoGasLeft = bnd (rd (\<lambda>s. s)) (\<lambda>s.
     if gasLimit s = 0 then push_number LUint256Zero
     else if gasUsed s \<ge> gasLimit s then push_number LUint256Zero
     else push_number (lu256FromUint64 (gasLimit s - gasUsed s)))"

definition cryptoLinearWorkGasChunkBytes :: int where
  "cryptoLinearWorkGasChunkBytes = 32"

definition chargeChunkedWorkGas :: "int \<Rightarrow> int \<Rightarrow> unit vmM" where
  "chargeChunkedWorkGas len chunkSize =
     (if len \<le> 0 \<or> chunkSize \<le> 0 then ret ()
      else chargeGas (word_of_int ((len + chunkSize - 1) sdiv chunkSize)))"

text \<open>The bytes of a hexadecimal argument; \<open>name\<close> is the function in the errors.\<close>

definition hash_input :: "string \<Rightarrow> string vmM" where
  "hash_input name = bnd (CheckString 1) (\<lambda>arg.
     let s = strings_TrimSpace arg
     in and_then (whenM (\<not> has_0x s)
            (raise_text (map_option (\<lambda>q. name @ '': input must start with 0x, got: '' @ q) (fmt_q s))))
        (and_then (chargeChunkedWorkGas (int (length s) - 2) (cryptoLinearWorkGasChunkBytes * 2))
           (case hex_DecodeString (drop 2 s) of
              Inl e \<Rightarrow> RaiseError (name @ '': invalid hex input: '' @ hex_error_text e)
            | Inr bytes \<Rightarrow> ret bytes)))"

definition push_hex :: "string \<Rightarrow> int vmM" where
  "push_hex bytes = push1 (LString (''0x'' @ hex_EncodeToString bytes))"

definition cryptoKeccak256 :: "(string \<Rightarrow> string) \<Rightarrow> int vmM" where
  "cryptoKeccak256 keccak = bnd (hash_input ''keccak256'') (\<lambda>bytes. push_hex (keccak bytes))"

definition cryptoSHA256 :: "int vmM" where
  "cryptoSHA256 = bnd (hash_input ''sha256'') (\<lambda>bytes. push_hex (Codecs.string_of (sha256_Sum256 (bytes_of bytes))))"

definition left_pad32 :: "string \<Rightarrow> string" where
  "left_pad32 b = replicate (32 - length b) (CHR 0x00) @ b"

definition cryptoRIPEMD160 :: "(string \<Rightarrow> string) \<Rightarrow> int vmM" where
  "cryptoRIPEMD160 ripemd = bnd (hash_input ''ripemd160'') (\<lambda>bytes. push_hex (left_pad32 (ripemd bytes)))"

section \<open>Storage keys\<close>

definition number_bytes :: "LUint256 \<Rightarrow> string" where
  "number_bytes v = Codecs.string_of (lu256ToBytes32BE v)"

definition encodeHexTo32 :: "string \<Rightarrow> string option + string" where
  "encodeHexTo32 s0 =
     (case hex_DecodeString (hex_part s0) of
        Inl e \<Rightarrow> Inl (Some (''invalid hex value: '' @ hex_error_text e))
      | Inr b \<Rightarrow> if length b > 32
                 then Inl (Some (''hex value exceeds 32 bytes ('' @ itoa (int (length b)) @ '' bytes)''))
                 else Inr (hex_EncodeToString (left_pad32 b)))"

definition encodeDecimalTo32 :: "string \<Rightarrow> string option + string" where
  "encodeDecimalTo32 s =
     (case parseUint256 (strings_TrimSpace s) of
        Inl _ \<Rightarrow> Inl (map_option (\<lambda>q. ''cannot parse as u256 decimal: '' @ q) (fmt_q s))
      | Inr v \<Rightarrow> Inr (hex_EncodeToString (number_bytes v)))"

text \<open>\<^verbatim>\<open>\%T\<close>\<close>

fun go_type :: "LValue \<Rightarrow> string" where
  "go_type LNil = ''*lua.LNilType''"
| "go_type (LBool _) = ''lua.LBool''"
| "go_type (LNum _) = ''lua.LUint256''"
| "go_type (LString _) = ''lua.LString''"
| "go_type (LAgent _) = ''lua.LAgent''"
| "go_type (LFunction _) = ''*lua.LFunction''"
| "go_type (LUserData _) = ''*lua.LUserData''"
| "go_type (LTable _) = ''*lua.LTable''"

definition tolEncodeKey :: "LValue \<Rightarrow> string option + string" where
  "tolEncodeKey v =
     (case v of
        LBool b \<Rightarrow> Inr (hex_EncodeToString (replicate 31 (CHR 0x00) @ [if b then CHR 0x01 else CHR 0x00]))
      | LAgent a \<Rightarrow> encodeHexTo32 a
      | LString t \<Rightarrow>
          let s = strings_TrimSpace t in if has_0x s then encodeHexTo32 s else encodeDecimalTo32 s
      | LNum n \<Rightarrow> (case LUint256_String n of Inl _ \<Rightarrow> Inl None | Inr t \<Rightarrow> encodeDecimalTo32 t)
      | _ \<Rightarrow> Inl (Some (''unsupported key type '' @ go_type v)))"

definition cryptoTolEnc :: "int vmM" where
  "cryptoTolEnc = bnd (CheckAny 1) (\<lambda>v.
     case (case v of None \<Rightarrow> Inl (Some ''unsupported key type <nil>'') | Some x \<Rightarrow> tolEncodeKey x) of
       Inl e \<Rightarrow> raise_text (map_option (\<lambda>m. ''__tol_enc: '' @ m) e)
     | Inr t \<Rightarrow> push1 (LString t))"

definition add_hex_offset :: "slot \<Rightarrow> LUint256 vmM" where
  "add_hex_offset v =
     (case v of
       Some (LNum k) \<Rightarrow> ret k
     | Some (LString t) \<Rightarrow> (case parseUint256 t of
           Inl _ \<Rightarrow> raise_text (map_option (\<lambda>q. ''uint256_add_hex: invalid string offset: '' @ q) (fmt_q t))
         | Inr k \<Rightarrow> ret k)
     | _ \<Rightarrow> RaiseError (''uint256_add_hex: unsupported offset type '' @ (case v of None \<Rightarrow> ''<nil>'' | Some x \<Rightarrow> go_type x)))"

definition cryptoUint256AddHex :: "int vmM" where
  "cryptoUint256AddHex = bnd (CheckString 1) (\<lambda>arg.
     let baseStr = hex_part (strings_TrimSpace arg)
     in case parseUint256Base baseStr 16 of
          Inl _ \<Rightarrow> raise_text (map_option (\<lambda>q. ''uint256_add_hex: invalid hex base: '' @ q) (fmt_q baseStr))
        | Inr base \<Rightarrow> bnd (CheckAny 2) (\<lambda>v. bnd (add_hex_offset v) (\<lambda>offset.
            push_hex (number_bytes (lu256Add base offset)))))"

section \<open>Call data\<close>

definition zero_slot :: string where
  "zero_slot = replicate 64 (CHR ''0'')"

text \<open>An error is its text, where that does not quote bytes that are not ASCII.\<close>

definition unsupported :: "string \<Rightarrow> string \<Rightarrow> string \<Rightarrow> string option + 'a" where
  "unsupported pre t post = Inl (map_option (\<lambda>q. pre @ q @ post) (fmt_q t))"

definition abiDecodeBytes :: "string \<Rightarrow> string \<Rightarrow> string option + LValue" where
  "abiDecodeBytes slotHex t =
     (case strconv_ParseInt10 (drop 5 t) of
        None \<Rightarrow> unsupported ''unsupported bytes type '' t ''''
      | Some n \<Rightarrow> if n < 1 \<or> n > 32 then unsupported ''unsupported bytes type '' t ''''
                  else Inr (LString (''0x'' @ take (nat n * 2) slotHex)))"

definition abiDecodeInteger :: "string \<Rightarrow> string \<Rightarrow> string option + LValue" where
  "abiDecodeInteger slotHex t =
     (case strconv_ParseInt10 (drop 1 t) of
        None \<Rightarrow> unsupported ''unsupported integer type '' t ''''
      | Some bits \<Rightarrow>
          if bits < 8 \<or> bits > 256 \<or> bits smod 8 \<noteq> 0 then unsupported ''unsupported integer type '' t ''''
          else (case lu256FromHex64 slotHex of Inl e \<Rightarrow> Inl (Some (plain_error e)) | Inr v \<Rightarrow> Inr (LNum v)))"

definition abiDecodeSlot :: "string \<Rightarrow> string \<Rightarrow> string option + LValue" where
  "abiDecodeSlot slotHex typ =
     (if length slotHex \<noteq> 64
      then Inl (Some (''internal: slot must be 64 hex chars, got '' @ itoa (int (length slotHex))))
      else let t = strings_TrimSpace typ
           in if t = ''bool'' then Inr (LBool (list_ex (\<lambda>c. c \<noteq> CHR ''0'') slotHex))
              else if t = ''agent'' \<or> t = ''string'' \<or> t = ''bytes'' then Inr (LString (''0x'' @ slotHex))
              else if strings_HasPrefix t ''bytes'' then abiDecodeBytes slotHex t
              else if length t \<ge> 2 \<and> (hd t = CHR ''u'' \<or> hd t = CHR ''i'') then abiDecodeInteger slotHex t
              else if t = ''uno'' then Inr (LString (''0x'' @ slotHex))
              else unsupported ''unsupported type '' t '' in __tol_abi_decode_params'')"

definition abi_error :: "string \<Rightarrow> string" where
  "abi_error m = ''__tol_abi_decode_params: '' @ m"

definition abi_slot :: "string \<Rightarrow> nat \<Rightarrow> string" where
  "abi_slot hexData slotIdx =
     (if slotIdx * 64 + 64 \<le> length hexData then take 64 (drop (slotIdx * 64) hexData) else zero_slot)"

text \<open>One parameter; \<^verbatim>\<open>uno\<close> takes two slots. The result is the next slot.\<close>

definition decode_param :: "string \<Rightarrow> nat \<Rightarrow> nat \<Rightarrow> nat vmM" where
  "decode_param hexData i slotIdx = and_then (chargeGas 1) (bnd (CheckString (int i + 2)) (\<lambda>arg.
     let typ = strings_TrimSpace arg
     in if typ = ''uno''
        then and_then (ls_Push (LString (''0x'' @ abi_slot hexData slotIdx @ abi_slot hexData (slotIdx + 1))))
               (ret (slotIdx + 2))
        else case abiDecodeSlot (abi_slot hexData slotIdx) typ of
               Inl e \<Rightarrow> raise_text (case (e, fmt_q typ) of
                   (Some m, Some q) \<Rightarrow> Some (abi_error (''parameter '' @ itoa (int i + 1) @ '' type '' @ q @ '': '' @ m))
                 | _ \<Rightarrow> None)
             | Inr v \<Rightarrow> and_then (ls_Push v) (ret (slotIdx + 1))))"

definition is_hex_lower :: "char \<Rightarrow> bool" where
  "is_hex_lower c \<longleftrightarrow> is_dec_digit c \<or> char_between (CHR ''a'') (CHR ''f'') c"

definition call_data :: "string vmM" where
  "call_data = bnd (CheckString 1) (\<lambda>arg.
     let calldataStr = strings_TrimSpace arg
     in and_then (whenM (\<not> has_0x calldataStr)
            (raise_text (map_option (\<lambda>q. abi_error (''calldata must be 0x-prefixed hex string, got: '' @ q)) (fmt_q calldataStr))))
        (let hexData = strings_ToLower (drop 2 calldataStr);
             k = length (takeWhile is_hex_lower hexData)
         in and_then (chargeChunkedWorkGas (int (length hexData)) (cryptoLinearWorkGasChunkBytes * 2))
           (and_then (whenM (odd (length hexData)) (RaiseError (abi_error ''calldata hex must have even length'')))
           (and_then (whenM (k < length hexData)
               (RaiseError (abi_error (''invalid hex character at position '' @ itoa (int k)))))
             (ret hexData)))))"

definition cryptoABIDecodeParams :: "int vmM" where
  "cryptoABIDecodeParams = bnd GetTop (\<lambda>n.
     and_then (whenM (n < 1) (RaiseError (abi_error ''calldata argument required'')))
     (bnd call_data (\<lambda>hexData.
        let numTypes = n - 1; numSlots = int (length hexData div 64)
        in and_then (whenM (numTypes > numSlots \<and> length hexData > 0)
               (RaiseError (abi_error (''calldata too short: need '' @ itoa numTypes @ '' 32-byte slots, got '' @ itoa numSlots))))
             (bnd (foldM (decode_param hexData) [0..<nat numTypes] 0) (\<lambda>_. ret numTypes)))))"

section \<open>Byte strings\<close>

text \<open>The arguments joined, with the size of the result checked before each.\<close>

definition join_args :: "string \<Rightarrow> (string \<Rightarrow> string) \<Rightarrow> nat \<Rightarrow> string vmM" where
  "join_args name f start_len = bnd GetTop (\<lambda>n.
     bnd (foldM (\<lambda>i (sb, totalLen). bnd (CheckString i) (\<lambda>s.
            bnd (addStringResultBytes name totalLen (int (length (f s)))) (\<lambda>totalLen. ret (sb @ f s, totalLen))))
          [1..n] ('''', int start_len))
       (\<lambda>(sb, _). ret sb))"

definition cryptoBytesConcat :: "int vmM" where
  "cryptoBytesConcat = bnd (join_args ''__tol_bytes_concat'' hex_part 2) (\<lambda>sb. push1 (LString (''0x'' @ sb)))"

definition cryptoStrConcat :: "int vmM" where
  "cryptoStrConcat = bnd (join_args ''__tol_str_concat'' (\<lambda>s. s) 0) (\<lambda>sb. push1 (LString sb))"

definition cryptoBytesLength :: "int vmM" where
  "cryptoBytesLength = bnd (CheckString 1) (\<lambda>s. push_number (lu256FromInt (int (length (hex_part s) div 2))))"

definition cryptoStrLength :: "int vmM" where
  "cryptoStrLength = bnd (CheckString 1) (\<lambda>s. push_number (lu256FromInt (int (length s))))"

definition cryptoDynLength :: "int vmM" where
  "cryptoDynLength = bnd (ls_Get 1) (\<lambda>v.
     case v of
       Some (LString s) \<Rightarrow>
         if has_0x s then push_number (lu256FromInt ((int (length s) - 2) div 2))
         else push_number (lu256FromInt (int (length s)))
     | Some (LTable t) \<Rightarrow> bnd (the_table t) (\<lambda>tb.
         case RawGetString tb ''_size'' of LNum u \<Rightarrow> push_number u | _ \<Rightarrow> push_number LUint256Zero)
     | _ \<Rightarrow> ArgError 1 ''bytes, string, or memory array expected'')"

definition cryptoBytesSlice :: "int vmM" where
  "cryptoBytesSlice = bnd (CheckString 1) (\<lambda>s. bnd (CheckUint256 2) (\<lambda>startN. bnd (CheckUint256 3) (\<lambda>endN.
     let hexPart = hex_part s; byteLen = int (length hexPart div 2);
         si = sint (lo startN); ei = sint (lo endN);
         si = (if si < 0 then 0 else si);
         ei = (if ei > byteLen then byteLen else ei);
         si = (if si > ei then ei else si)
     in bnd (go_slice hexPart (wrap64 (si * 2)) (wrap64 (ei * 2))) (\<lambda>b. push1 (LString (''0x'' @ b))))))"

definition cryptoBytesIndex :: "int vmM" where
  "cryptoBytesIndex = bnd (CheckString 1) (\<lambda>s. bnd (CheckUint256 2) (\<lambda>idxV.
     let hexPart = hex_part s; byteLen = int (length hexPart div 2); idx = sint (lo idxV)
     in and_then (whenM (idx < 0 \<or> idx \<ge> byteLen)
            (RaiseError (''bytes index '' @ itoa idx @ '' out of range [0, '' @ itoa byteLen @ '')'')))
          (bnd (go_slice hexPart (idx * 2) (idx * 2 + 2)) (\<lambda>b. push1 (LString (''0x'' @ b))))))"

end
