(* ===== verification/HostLibs.thy ===== *)
theory HostLibs
  imports CryptoLib
begin

text \<open>
  The libraries \<^verbatim>\<open>math\<close>, \<^verbatim>\<open>table\<close> and \<^verbatim>\<open>mapping\<close> (\<^verbatim>\<open>mathlib.go\<close>, \<^verbatim>\<open>tablelib.go\<close>,
  \<^verbatim>\<open>mappinglib.go\<close>): host functions over numbers, tables and typed mappings. \<^verbatim>\<open>table.sort\<close>
  calls the comparison through Go's sorting algorithm and is not modelled.
\<close>

section \<open>math\<close>

definition push_arg_number :: "int vmM" where
  "push_arg_number = bnd (CheckUint256 1) push_number"

definition mathAbs :: "int vmM" where "mathAbs = push_arg_number"
definition mathCeil :: "int vmM" where "mathCeil = push_arg_number"
definition mathFloor :: "int vmM" where "mathFloor = push_arg_number"

text \<open>The message is not a format: both percent signs are part of it.\<close>

definition number_mod :: "int vmM" where
  "number_mod = bnd (CheckUint256 2) (\<lambda>rhs.
     and_then (whenM (lu256IsZero rhs) (RaiseError (''attempt to perform '' @ [CHR 39] @ ''n%%0'' @ [CHR 39])))
       (bnd (CheckUint256 1) (\<lambda>lhs. bnd (or_panic (lu256Mod lhs rhs)) push_number)))"

definition mathFmod :: "int vmM" where "mathFmod = number_mod"
definition mathMod :: "int vmM" where "mathMod = number_mod"

definition mathPow :: "int vmM" where
  "mathPow = bnd (CheckUint256 1) (\<lambda>b. bnd (CheckUint256 2) (\<lambda>e. push_number (lu256Pow b e)))"

definition lvalueToNumber :: "LValue \<Rightarrow> LUint256 option" where
  "lvalueToNumber v = number_of (Some v)"

definition better :: "bool \<Rightarrow> LUint256 \<Rightarrow> LUint256 \<Rightarrow> bool" where
  "better wantMax v out = (let c = lu256Cmp v out in wantMax \<and> c > 0 \<or> \<not> wantMax \<and> c < 0)"

definition table_number :: "LValue \<Rightarrow> LUint256 vmM" where
  "table_number v = (case lvalueToNumber v of
     None \<Rightarrow> RaiseError ''math table argument must contain only numbers'' | Some k \<Rightarrow> ret k)"

definition tableExtremum :: "nat \<Rightarrow> bool \<Rightarrow> LUint256 vmM" where
  "tableExtremum t wantMax = bnd (table_length t) (\<lambda>n. bnd (the_table t) (\<lambda>tb.
     and_then (whenM (n = 0) (RaiseError ''math table argument must not be empty''))
       (bnd (table_number (RawGetInt tb 1))
          (foldM (\<lambda>i out. and_then (chargeGas 1) (bnd (table_number (RawGetInt tb i)) (\<lambda>v.
             ret (if better wantMax v out then v else out)))) [2..n]))))"

text \<open>The arguments, or the elements of a single table.\<close>

definition extremum :: "bool \<Rightarrow> int vmM" where
  "extremum wantMax = bnd GetTop (\<lambda>top.
     and_then (whenM (top = 0) (RaiseError ''wrong number of arguments''))
     (bnd (ls_Get 1) (\<lambda>first.
        case (if top = 1 then first else None) of
          Some (LTable t) \<Rightarrow> bnd (tableExtremum t wantMax) push_number
        | _ \<Rightarrow> bnd (CheckUint256 1) (\<lambda>first.
            bnd (foldM (\<lambda>i out. bnd (CheckUint256 i) (\<lambda>v. ret (if better wantMax v out then v else out))) [2..top] first)
              push_number))))"

definition mathMax :: "int vmM" where "mathMax = extremum True"
definition mathMin :: "int vmM" where "mathMin = extremum False"

section \<open>table\<close>

definition push_int :: "int \<Rightarrow> int vmM" where
  "push_int n = push_number (lu256FromInt n)"

definition tableGetN :: "int vmM" where
  "tableGetN = bnd (CheckTable 1) (\<lambda>t. bnd (table_length t) push_int)"

definition tableMaxN :: "int vmM" where
  "tableMaxN = bnd (CheckTable 1) (\<lambda>t. bnd (the_table t) (\<lambda>tb.
     let (n, cost) = MaxNWithCost tb in and_then (chargeLinearWorkGas (int cost)) (push_int (int n))))"

definition remove_at :: "nat \<Rightarrow> int \<Rightarrow> int vmM" where
  "remove_at t pos = bnd (the_table t) (\<lambda>tb.
     let (v, cost, tb') = RemoveWithCost tb pos
     in and_then (put_table t tb') (and_then (chargeLinearWorkGas (int cost)) (push1 v)))"

definition tableRemove :: "int vmM" where
  "tableRemove = bnd (CheckTable 1) (\<lambda>t. bnd GetTop (\<lambda>top.
     if top = 1 then remove_at t (-1)
     else bnd (CheckInt 2) (\<lambda>pos. bnd (table_length t) (\<lambda>n.
       and_then (whenM (pos \<noteq> n \<and> (pos < 1 \<or> pos > n + 1)) (ArgError 2 ''position out of bounds''))
         (remove_at t pos)))))"

definition concat_value :: "int \<Rightarrow> LValue \<Rightarrow> unit vmM" where
  "concat_value i v = and_then (whenM (\<not> LVCanConvToString v)
       (RaiseError (''invalid value ('' @ LValueType_String (LValue_Type v) @ '') at index '' @ itoa i @ '' in table for concat'')))
     (ls_Push v)"

definition tableConcat :: "callback \<Rightarrow> int vmM" where
  "tableConcat call = bnd (CheckTable 1) (\<lambda>t. bnd (OptString 2 '''') (\<lambda>sep. bnd (table_length t) (\<lambda>lenVal.
     bnd (OptInt 3 1) (\<lambda>i. bnd (OptInt 4 lenVal) (\<lambda>j. bnd GetTop (\<lambda>top.
       if top = 3 \<and> (i > lenVal \<or> i < 1) then push1 (LString '''')
       else let i = max (min i lenVal) 1; j = min (min j lenVal) lenVal
            in if i > j then push1 (LString '''')
               else bnd GetTop (\<lambda>retbottom. bnd (the_table t) (\<lambda>tb.
                    and_then (forM [i..j] (\<lambda>k. and_then (chargeGas 1)
                        (and_then (concat_value k (RawGetInt tb k)) (whenM (k \<noteq> j) (ls_Push (LString sep))))))
                    (bnd GetTop (\<lambda>top'. bnd top_reg (\<lambda>r. bnd (stringConcat call (top' - retbottom) (r - 1)) (\<lambda>v.
                       and_then (push_reg v) (ret 1)))))))))))))"

definition tableInsert :: "int vmM" where
  "tableInsert = bnd (CheckTable 1) (\<lambda>t. bnd GetTop (\<lambda>nargs.
     and_then (whenM (nargs = 1) (RaiseError ''wrong number of arguments''))
     (if nargs = 2
      then bnd (ls_Get 2) (\<lambda>v. bnd (deref v) (\<lambda>x. bnd (the_table t) (\<lambda>tb. and_then (put_table t (Append tb x)) (ret 0))))
      else bnd (CheckInt 2) (\<lambda>pos. bnd (table_length t) (\<lambda>n.
           and_then (whenM (pos < 1 \<or> pos > n + 1) (ArgError 2 ''position out of bounds''))
           (bnd (CheckAny 3) (\<lambda>v. bnd (deref v) (\<lambda>x. bnd (the_table t) (\<lambda>tb.
              let (tb', cost) = InsertWithCost tb pos x
              in and_then (put_table t tb') (and_then (chargeLinearWorkGas (int cost)) (ret 0)))))))))))"

section \<open>mapping\<close>

definition mappingTypeName :: string where
  "mappingTypeName = ''__tos_mapping''"

text \<open>The user datum and the mapping behind it.\<close>

definition checkMapping :: "int \<Rightarrow> (nat \<times> solidityMapping) vmM" where
  "checkMapping n = bnd (CheckUserData n) (\<lambda>u. bnd (the_userdata u) (\<lambda>ud.
     case udHostValue ud of MappingValue m \<Rightarrow> ret (u, m) | OtherValue \<Rightarrow> ArgError n ''mapping expected''))"

definition put_mapping :: "nat \<Rightarrow> solidityMapping \<Rightarrow> unit vmM" where
  "put_mapping u m = bnd (the_userdata u) (\<lambda>ud. put_userdata u (ud\<lparr>udHostValue := MappingValue m\<rparr>))"

definition kind_arg :: "int \<Rightarrow> int \<Rightarrow> bool \<Rightarrow> mappingKind vmM" where
  "kind_arg nargs i allowStringKey =
     (if nargs \<ge> i
      then bnd (CheckString i) (\<lambda>name. case parseMappingKind name allowStringKey of Inl e \<Rightarrow> RaiseError e | Inr k \<Rightarrow> ret k)
      else ret mappingKindU256)"

definition mappingNew :: "callback \<Rightarrow> int vmM" where
  "mappingNew call = bnd GetTop (\<lambda>top.
     and_then (whenM (top > 2) (RaiseError ''wrong number of arguments''))
     (bnd (kind_arg top 1 True) (\<lambda>k. bnd (kind_arg top 2 False) (\<lambda>v. bnd NewUserData (\<lambda>u.
       and_then (put_mapping u (new_mapping k v))
         (bnd (GetTypeMetatable call mappingTypeName) (\<lambda>mt.
          and_then (SetMetatable (Some (LUserData u)) mt) (push1 (LUserData u)))))))))"

text \<open>An argument in its normal form; \<open>err\<close> raises the error.\<close>

definition normal_arg :: "(string \<Rightarrow> 'a vmM) \<Rightarrow> (LValue \<Rightarrow> string + 'a) \<Rightarrow> int \<Rightarrow> 'a vmM" where
  "normal_arg err norm n = bnd (CheckAny n) (\<lambda>v. bnd (deref v) (\<lambda>x. case norm x of Inl e \<Rightarrow> err e | Inr k \<Rightarrow> ret k))"

definition with_key :: "(string \<Rightarrow> string vmM) \<Rightarrow> (nat \<Rightarrow> solidityMapping \<Rightarrow> string \<Rightarrow> int vmM) \<Rightarrow> int vmM" where
  "with_key err f = bnd (checkMapping 1) (\<lambda>(u, m).
     bnd (normal_arg err (\<lambda>v. normalizeMappingKey v (keyKind m)) 2) (f u m))"

definition mapping_read :: "(string \<Rightarrow> string vmM) \<Rightarrow> int vmM" where
  "mapping_read err = with_key err (\<lambda>u m key. push1 (mapping_lookup m key))"

definition mapping_write :: "(string \<Rightarrow> string vmM) \<Rightarrow> (string \<Rightarrow> LValue vmM) \<Rightarrow> int vmM" where
  "mapping_write errk errv = with_key errk (\<lambda>u m key.
     bnd (normal_arg errv (\<lambda>v. normalizeMappingValue v (valueKind m)) 3) (\<lambda>v.
       and_then (put_mapping u (mapping_store m key (Some v))) (ret 0)))"

definition mappingGet :: "int vmM" where
  "mappingGet = mapping_read (ArgError 2)"

definition mappingSet :: "int vmM" where
  "mappingSet = mapping_write (ArgError 2) (ArgError 3)"

definition mappingDelete :: "int vmM" where
  "mappingDelete = with_key (ArgError 2) (\<lambda>u m key. and_then (put_mapping u (mapping_store m key None)) (ret 0))"

definition mappingHas :: "int vmM" where
  "mappingHas = with_key (ArgError 2) (\<lambda>u m key. push1 (LBool (entries m key \<noteq> None)))"

definition mappingKeyType :: "int vmM" where
  "mappingKeyType = bnd (checkMapping 1) (\<lambda>(u, m). push1 (LString (mappingKindName (keyKind m))))"

definition mappingValType :: "int vmM" where
  "mappingValType = bnd (checkMapping 1) (\<lambda>(u, m). push1 (LString (mappingKindName (valueKind m))))"

definition mappingMetaIndex :: "int vmM" where
  "mappingMetaIndex = mapping_read (\<lambda>e. RaiseError (''mapping key type error: '' @ e))"

definition mappingMetaNewIndex :: "int vmM" where
  "mappingMetaNewIndex = mapping_write (\<lambda>e. RaiseError (''mapping key type error: '' @ e))
     (\<lambda>e. RaiseError (''mapping value type error: '' @ e))"

definition mappingMetaToString :: "int vmM" where
  "mappingMetaToString = bnd (checkMapping 1) (\<lambda>(u, m).
     push1 (LString (''mapping<'' @ mappingKindName (keyKind m) @ ''=>'' @ mappingKindName (valueKind m) @ ''>'')))"

end
