(* ===== verification/BaseLib.thy ===== *)
theory BaseLib
  imports HostLibs
begin

text \<open>
  The base library (\<^verbatim>\<open>baselib.go\<close>): the global functions of the language, with protected
  calls, iteration, metatables and conversions. What a protected call leaves behind when the
  function it calls raises an error is shown in theory \<open>ProtectedFacts\<close>.
\<close>

definition push_slot1 :: "slot \<Rightarrow> int vmM" where
  "push_slot1 v = and_then (push_reg v) (ret 1)"

definition baseAssert :: "int vmM" where
  "baseAssert = bnd GetTop (\<lambda>top.
     if top = 0 then ArgError 1 ''value expected''
     else bnd (ls_ToBool 1) (\<lambda>ok.
       if \<not> ok
       then (if top < 2 then ls_Error (Some (LString ''assertion failed!'')) 0 else bnd (ls_Get 2) (\<lambda>e. ls_Error e 0))
       else GetTop))"

definition baseError :: "int vmM" where
  "baseError = bnd (CheckAny 1) (\<lambda>obj. bnd (OptInt 2 1) (\<lambda>level. ls_Error obj level))"

definition baseGetMetatable :: "int vmM" where
  "baseGetMetatable = bnd (CheckAny 1) (\<lambda>v. bnd (GetMetatable v) push1)"

text \<open>The last argument is popped and comes back as the last value, the key twice before it.\<close>

definition push_pair :: "LValue \<Rightarrow> LValue \<Rightarrow> int vmM" where
  "push_pair k v = and_then (ls_Pop 1) (and_then (ls_Push k) (and_then (ls_Push k) (and_then (ls_Push v) (ret 2))))"

definition ipairsaux :: "int vmM" where
  "ipairsaux = bnd (CheckTable 1) (\<lambda>t. bnd (CheckInt 2) (\<lambda>i0.
     let i = wrap64 (i0 + 1)
     in bnd (ls_RawGetInt t i) (\<lambda>v. if v = LNil then ret 0 else push_pair (LNum (lu256FromInt i)) v)))"

definition push_iterator :: "LValue \<Rightarrow> int vmM" where
  "push_iterator first = bnd (CheckTable 1) (\<lambda>t. bnd (ls_Get (UpvalueIndex 1)) (\<lambda>f.
     and_then (push_reg f) (and_then (ls_Push (LTable t)) (and_then (ls_Push first) (ret 3)))))"

definition baseIpairs :: "int vmM" where "baseIpairs = push_iterator (LNum LUint256Zero)"
definition basePairs :: "int vmM" where "basePairs = push_iterator LNil"

text \<open>The next entry, with the check that the key belongs to the traversal.\<close>

definition checked_next :: "nat \<Rightarrow> slot \<Rightarrow> (LValue \<times> LValue) vmM" where
  "checked_next t index = bnd (deref index) (\<lambda>k. bnd (the_table t) (\<lambda>tb.
     and_then (whenM (\<not> isValidNextKey tb k) (RaiseError (''invalid key to '' @ [CHR 39] @ ''next'' @ [CHR 39])))
       (ls_Next t k)))"

definition baseNext :: "int vmM" where
  "baseNext = bnd (CheckTable 1) (\<lambda>t. bnd GetTop (\<lambda>top.
     bnd (if top \<ge> 2 then ls_Get 2 else ret (Some LNil)) (\<lambda>index. bnd (checked_next t index) (\<lambda>(k, v).
       if k = LNil then push1 LNil else and_then (ls_Push k) (and_then (ls_Push v) (ret 2))))))"

definition pairsaux :: "int vmM" where
  "pairsaux = bnd (CheckTable 1) (\<lambda>t. bnd (ls_Get 2) (\<lambda>index. bnd (checked_next t index) (\<lambda>(k, v).
     if k = LNil then ret 0 else push_pair k v)))"

text \<open>What a failed protected call returns.\<close>

definition push_failure :: "slot \<Rightarrow> int vmM" where
  "push_failure err = and_then (ls_Push (LBool False)) (and_then (push_reg err) (ret 2))"

definition basePCall :: "callback \<Rightarrow> int vmM" where
  "basePCall call = bnd (CheckAny 1) (\<lambda>_. bnd (ls_Get 1) (\<lambda>v. bnd (type_of v) (\<lambda>t.
     bnd (if t = LTFunction then ret True else bnd (metaOp1 v ''__call'') (\<lambda>op. ret (is_function op))) (\<lambda>callable.
       if \<not> callable
       then push_failure (Some (LString (''attempt to call a '' @ LValueType_String t @ '' value'')))
       else bnd GetTop (\<lambda>top. bnd (ls_PCall call (top - 1) MultRet None) (\<lambda>r.
            case r of
              Some err \<Rightarrow> push_failure err
            | None \<Rightarrow> and_then (ls_Insert (Some (LBool True)) 1) GetTop))))))"

definition baseXPCall :: "callback \<Rightarrow> int vmM" where
  "baseXPCall call = bnd (CheckFunction 1) (\<lambda>fn. bnd (CheckFunction 2) (\<lambda>errfunc. bnd GetTop (\<lambda>top.
     and_then (ls_Push (LFunction fn))
     (and_then (forM [1..top - 2] (\<lambda>i. bnd (ls_Get (2 + i)) push_reg))
     (bnd (ls_PCall call (top - 2) MultRet (Some errfunc)) (\<lambda>r.
        case r of
          Some err \<Rightarrow> push_failure err
        | None \<Rightarrow> and_then (ls_Insert (Some (LBool True)) (top + 1)) (bnd GetTop (\<lambda>top'. ret (top' - top)))))))))"

definition baseRawEqual :: "int vmM" where
  "baseRawEqual = bnd (CheckAny 1) (\<lambda>a. bnd (CheckAny 2) (\<lambda>b. push1 (LBool (a = b))))"

definition baseRawGet :: "int vmM" where
  "baseRawGet = bnd (CheckTable 1) (\<lambda>t. bnd (CheckAny 2) (\<lambda>k. bnd (raw_get t k) push1))"

definition baseRawSet :: "int vmM" where
  "baseRawSet = bnd (CheckTable 1) (\<lambda>t. bnd (CheckAny 2) (\<lambda>k. bnd (CheckAny 3) (\<lambda>v. and_then (ls_RawSet t k v) (ret 0))))"

text \<open>The index of \<^verbatim>\<open>select\<close>: a number with the top bit counts from the end.\<close>

definition select_index :: "LUint256 \<Rightarrow> int \<Rightarrow> int vmM" where
  "select_index lv num =
     (if lu256IsNeg lv
      then let (mag, ok) = lu256ToInt (lu256Sub LUint256Zero lv)
           in if \<not> ok \<or> mag > num - 1 then ArgError 1 ''index out of range'' else ret (num - mag)
      else let (idx, ok) = lu256ToInt lv
           in if \<not> ok then ArgError 1 ''index out of range'' else ret (if idx > num then num else idx))"

definition baseSelect :: "int vmM" where
  "baseSelect = and_then (CheckTypes 1 [LTUint256, LTString]) (bnd (ls_Get 1) (\<lambda>v. bnd GetTop (\<lambda>num.
     case v of
       Some (LNum lv) \<Rightarrow> bnd (select_index lv num) (\<lambda>idx.
         and_then (whenM (1 > idx) (ArgError 1 ''index out of range'')) (ret (num - idx)))
     | Some (LString t) \<Rightarrow>
         and_then (whenM (t \<noteq> ''#'') (ArgError 1 (''invalid string '' @ [CHR 39] @ t @ [CHR 39])))
           (push_number (lu256FromInt (num - 1)))
     | _ \<Rightarrow> ret 0)))"

definition baseSetMetatable :: "int vmM" where
  "baseSetMetatable = and_then (CheckTypes 2 [LTNil, LTTable]) (bnd (ls_Get 1) (\<lambda>obj.
     and_then (whenM (obj = Some LNil) (RaiseError ''cannot set metatable to a nil object.''))
     (bnd (ls_Get 2) (\<lambda>mt. bnd (metatable obj True) (\<lambda>m.
        and_then (case m of
            LTable t \<Rightarrow> bnd (the_table t) (\<lambda>tb. whenM (RawGetString tb ''__metatable'' \<noteq> LNil)
              (RaiseError ''cannot change a protected metatable''))
          | _ \<Rightarrow> ret ())
        (and_then (SetMetatable obj mt) (and_then (ls_SetTop 1) (ret 1))))))))"

definition strings_Trim :: "string \<Rightarrow> string \<Rightarrow> string" where
  "strings_Trim s cutset = rev (dropWhile (\<lambda>c. c \<in> set cutset) (rev (dropWhile (\<lambda>c. c \<in> set cutset) s)))"

definition number_or_nil :: "go_error + LUint256 \<Rightarrow> int vmM" where
  "number_or_nil r = (case r of Inl _ \<Rightarrow> push1 LNil | Inr v \<Rightarrow> push_number v)"

definition baseToNumber :: "int vmM" where
  "baseToNumber = bnd (OptInt 2 10) (\<lambda>base. bnd (ls_Get 2) (\<lambda>b. bnd (CheckAny 1) (\<lambda>v.
     case v of
       Some (LNum k) \<Rightarrow> push_number k
     | Some (LString t) \<Rightarrow>
         let str = strings_Trim t [CHR '' '', CHR 10, CHR 9]
         in if b = Some LNil then number_or_nil (parseNumberTonumber str)
            else and_then (whenM (base < 2 \<or> base > 36) (ArgError 2 ''base out of range''))
                   (number_or_nil (parseUint256Base str (nat base)))
     | _ \<Rightarrow> push1 LNil)))"

definition baseAgent :: "int vmM" where
  "baseAgent = bnd (CheckAny 1) (\<lambda>v. case (case v of None \<Rightarrow> Inl ''expected address string'' | Some x \<Rightarrow> agent_text x) of
     Inl e \<Rightarrow> ArgError 1 e | Inr a \<Rightarrow> push1 (LAgent a))"

definition baseToString :: "callback \<Rightarrow> int vmM" where
  "baseToString call = bnd (CheckAny 1) (\<lambda>v. bnd (ToStringMeta call v) push_slot1)"

definition baseType :: "int vmM" where
  "baseType = bnd (CheckAny 1) (\<lambda>v. bnd (type_of v) (\<lambda>t. push1 (LString (LValueType_String t))))"

definition baseUnpack :: "int vmM" where
  "baseUnpack = bnd (CheckTable 1) (\<lambda>t. bnd (OptInt 2 1) (\<lambda>start. bnd (table_length t) (\<lambda>endDefault.
     bnd (OptInt 3 endDefault) (\<lambda>last.
       and_then (forM [start..last] (\<lambda>i. and_then (chargeGas 1) (bnd (ls_RawGetInt t i) ls_Push)))
         (ret (if last - start + 1 < 0 then 0 else last - start + 1))))))"

end
