(* ===== verification/Patterns.thy ===== *)
theory Patterns
  imports GoStrings
begin

text \<open>
  The patterns of the string library (\<^verbatim>\<open>pm/pm.go\<close>): a scanner, a parser, a compiler to a
  small instruction set and a backtracking machine. The main result: the machine running a
  compiled pattern always ends and gives what the backtracking semantics of the pattern
  (\<open>sem\<close>, by recursion on the pattern with a continuation) says.

  A character is its code, -1 the end of the pattern. A pattern that cannot be compiled or
  matched is a panic the package recovers (\<open>PmError\<close>); other Go panics leave it (\<open>PmPanic\<close>).
  The machine counts its steps, which its caller pays for.
\<close>

datatype pm_panic = PmError int string | PmPanic go_panic

definition EOS :: int where "EOS = -1"
definition pm_UNKNOWN :: int where "pm_UNKNOWN = -2"

fun pm_Error :: "int \<Rightarrow> string \<Rightarrow> string" where
  "pm_Error pos msg =
     (if pos = EOS then msg @ '' at EOS'' else if pos = pm_UNKNOWN then msg else msg @ '' at '' @ itoa pos)"

definition char_code :: "char \<Rightarrow> int" where
  "char_code c = int (of_char c :: nat)"

section \<open>Captures\<close>

text \<open>A position shifted by one; the low bit marks a position capture.\<close>

type_synonym captures = "u32 list"

definition extend_caps :: "nat \<Rightarrow> captures \<Rightarrow> captures" where
  "extend_caps n m = m @ replicate (n - length m) 0"

definition addPosCapture :: "nat \<Rightarrow> nat \<Rightarrow> captures \<Rightarrow> captures" where
  "addPosCapture s pos m =
     (let v = push_bit 1 (word_of_nat pos) OR 1 in (extend_caps (s + 2) m)[s := v, s + 1 := v])"

definition setCapture :: "nat \<Rightarrow> nat \<Rightarrow> captures \<Rightarrow> u32 \<times> captures" where
  "setCapture s pos m = (let m = extend_caps (s + 1) m in (m ! s, m[s := push_bit 1 (word_of_nat pos)]))"

definition restoreCapture :: "nat \<Rightarrow> u32 \<Rightarrow> captures \<Rightarrow> captures" where
  "restoreCapture s v m = m[s := v]"

definition IsPosCapture :: "captures \<Rightarrow> nat \<Rightarrow> bool" where
  "IsPosCapture m idx \<longleftrightarrow> m ! idx AND 1 = 1"

definition Capture :: "captures \<Rightarrow> nat \<Rightarrow> nat" where
  "Capture m idx = unat (drop_bit 1 (m ! idx))"

section \<open>The scanner\<close>

record scanner =
  sc_src :: string
  sc_Pos :: int
  sc_started :: bool

definition newScanner :: "string \<Rightarrow> scanner" where
  "newScanner src = \<lparr>sc_src = src, sc_Pos = 0, sc_started = False\<rparr>"

definition sc_NextPos :: "scanner \<Rightarrow> int" where
  "sc_NextPos sc =
     (if sc_Pos sc = EOS \<or> sc_Pos sc \<ge> int (length (sc_src sc)) - 1 then EOS
      else if \<not> sc_started sc then 0 else sc_Pos sc + 1)"

definition sc_Next :: "scanner \<Rightarrow> int \<times> scanner" where
  "sc_Next sc =
     (let sc = (if \<not> sc_started sc
                then sc\<lparr>sc_started := True, sc_Pos := (if sc_src sc = [] then EOS else sc_Pos sc)\<rparr>
                else sc\<lparr>sc_Pos := sc_NextPos sc\<rparr>)
      in if sc_Pos sc = EOS then (EOS, sc) else (char_code (sc_src sc ! nat (sc_Pos sc)), sc))"

definition sc_Peek :: "scanner \<Rightarrow> int \<times> scanner" where
  "sc_Peek sc =
     (let (ch, sc') = sc_Next sc
      in if sc_Pos sc = EOS then (ch, sc')
         else if sc_Pos sc' = EOS then (ch, sc'\<lparr>sc_Pos := int (length (sc_src sc')) - 1\<rparr>)
         else if sc_Pos sc' - 1 < 0 then (ch, sc'\<lparr>sc_Pos := 0, sc_started := False\<rparr>)
         else (ch, sc'\<lparr>sc_Pos := sc_Pos sc' - 1\<rparr>))"

section \<open>Character classes\<close>

datatype cls = dotClass | charClass int | singleClass int | setClass bool "cls list" | rangeClass cls cls

definition between :: "char \<Rightarrow> int \<Rightarrow> char \<Rightarrow> bool" where
  "between a ch b \<longleftrightarrow> char_code a \<le> ch \<and> ch \<le> char_code b"

definition letter :: "int \<Rightarrow> char \<Rightarrow> char \<Rightarrow> bool" where
  "letter k lower upper \<longleftrightarrow> k = char_code lower \<or> k = char_code upper"

definition single_Matches :: "int \<Rightarrow> int \<Rightarrow> bool" where
  "single_Matches k ch =
     (let neg = (\<lambda>r. if between (CHR ''A'') k (CHR ''Z'') then \<not> r else r)
      in if letter k (CHR ''a'') (CHR ''A'')
         then neg (between (CHR ''A'') ch (CHR ''Z'') \<or> between (CHR ''a'') ch (CHR ''z''))
         else if letter k (CHR ''c'') (CHR ''C'') then neg (0 \<le> ch \<and> ch \<le> 0x1F \<or> ch = 0x7F)
         else if letter k (CHR ''d'') (CHR ''D'') then neg (between (CHR ''0'') ch (CHR ''9''))
         else if letter k (CHR ''l'') (CHR ''L'') then neg (between (CHR ''a'') ch (CHR ''z''))
         else if letter k (CHR ''g'') (CHR ''G'') then neg (0x21 \<le> ch \<and> ch \<le> 0x7e)
         else if letter k (CHR ''p'') (CHR ''P'')
         then neg (0x21 \<le> ch \<and> ch \<le> 0x2f \<or> 0x3a \<le> ch \<and> ch \<le> 0x40 \<or> 0x5b \<le> ch \<and> ch \<le> 0x60 \<or> 0x7b \<le> ch \<and> ch \<le> 0x7e)
         else if letter k (CHR ''s'') (CHR ''S'') then neg (ch \<in> {32, 12, 10, 13, 9, 11})
         else if letter k (CHR ''u'') (CHR ''U'') then neg (between (CHR ''A'') ch (CHR ''Z''))
         else if letter k (CHR ''w'') (CHR ''W'')
         then neg (between (CHR ''0'') ch (CHR ''9'') \<or> between (CHR ''A'') ch (CHR ''Z'') \<or> between (CHR ''a'') ch (CHR ''z''))
         else if letter k (CHR ''x'') (CHR ''X'')
         then neg (between (CHR ''0'') ch (CHR ''9'') \<or> between (CHR ''a'') ch (CHR ''f'') \<or> between (CHR ''A'') ch (CHR ''F''))
         else if letter k (CHR ''z'') (CHR ''Z'') then neg (ch = 0)
         else ch = k)"

fun Matches :: "cls \<Rightarrow> int \<Rightarrow> bool" and any_Matches :: "cls list \<Rightarrow> int \<Rightarrow> bool" where
  "Matches dotClass ch = True"
| "Matches (charClass k) ch = (k = ch)"
| "Matches (singleClass k) ch = single_Matches k ch"
| "Matches (setClass isNot cs) ch = (if any_Matches cs ch then \<not> isNot else isNot)"
| "Matches (rangeClass b e) ch = (case (b, e) of (charClass lo, charClass hi) \<Rightarrow> lo \<le> ch \<and> ch \<le> hi | _ \<Rightarrow> False)"
| "any_Matches [] ch = False"
| "any_Matches (c # cs) ch = (Matches c ch \<or> any_Matches cs ch)"

section \<open>The parser\<close>

datatype pat =
    singlePattern cls
  | seqPattern bool bool "pat list"
  | repeatPattern int cls
  | posCapPattern
  | capPattern pat
  | numberPattern int
  | bracePattern int int

type_synonym 'a parse = "pm_panic + 'a \<times> scanner"

text \<open>\<^verbatim>\<open>parseClass(sc, false)\<close>, then the set and \<^verbatim>\<open>parseClass(sc, true)\<close>.\<close>

definition parse_set_class :: "scanner \<Rightarrow> cls parse" where
  "parse_set_class sc =
     (let (ch, sc) = sc_Next sc
      in if ch = char_code (CHR ''%'') then (let (k, sc) = sc_Next sc in Inr (singleClass k, sc))
         else if ch = EOS then Inl (PmError (sc_Pos sc) ''unexpected EOS'')
         else Inr (charClass ch, sc))"

definition add_class :: "bool \<Rightarrow> cls \<Rightarrow> cls list \<Rightarrow> cls list" where
  "add_class isrange c cs = (if isrange then butlast cs @ [rangeClass (last cs) c] else cs @ [c])"

text \<open>Each round consumes a character, so as many rounds as the pattern is long, and one, are enough.\<close>

fun parse_set :: "nat \<Rightarrow> cls list \<Rightarrow> bool \<Rightarrow> scanner \<Rightarrow> (cls list) parse" where
  "parse_set 0 cs isrange sc = Inl (PmPanic (PMessage ''fuel''))"
| "parse_set (Suc n) cs isrange sc =
     (let (ch, sc) = sc_Peek sc
      in if ch = EOS then Inl (PmError (sc_Pos sc) ''unexpected EOS'')
         else if ch = char_code (CHR '']'') \<and> cs \<noteq> []
         then Inr (if isrange then cs @ [charClass (char_code (CHR ''-''))] else cs, snd (sc_Next sc))
         else if ch = char_code (CHR ''-'') \<and> cs \<noteq> [] then parse_set n cs True (snd (sc_Next sc))
         else bindr (parse_set_class sc) (\<lambda>(c, sc). parse_set n (add_class isrange c cs) False sc))"

definition set_fuel :: "scanner \<Rightarrow> nat" where
  "set_fuel sc = length (sc_src sc) + 2"

definition parseClassSet :: "scanner \<Rightarrow> cls parse" where
  "parseClassSet sc =
     (let (ch, sc) = sc_Peek sc; isNot = (ch = char_code (CHR ''^'')); sc = (if isNot then snd (sc_Next sc) else sc)
      in bindr (parse_set (set_fuel sc) [] False sc) (\<lambda>(cs, sc). Inr (setClass isNot cs, sc)))"

definition parseClass :: "scanner \<Rightarrow> cls parse" where
  "parseClass sc =
     (let (ch, sc') = sc_Next sc
      in if ch = char_code (CHR ''.'') then Inr (dotClass, sc')
         else if ch = char_code (CHR ''['') then parseClassSet sc'
         else parse_set_class sc)"

definition is_repeat :: "int \<Rightarrow> bool" where
  "is_repeat ch \<longleftrightarrow> ch \<in> char_code ` {CHR ''*'', CHR ''+'', CHR ''-'', CHR ''?''}"

text \<open>After a percent sign.\<close>

definition parse_escape :: "scanner \<Rightarrow> pat parse" where
  "parse_escape saved =
     (let (_, sc) = sc_Next saved; (ch, sc) = sc_Peek sc
      in if ch = char_code (CHR ''0'') then Inl (PmError (sc_Pos sc) ''invalid capture index'')
         else if between (CHR ''1'') ch (CHR ''9'')
         then (let (d, sc) = sc_Next sc in Inr (numberPattern (d - 48), sc))
         else if ch = char_code (CHR ''b'')
         then (let (_, sc) = sc_Next sc; (b, sc) = sc_Next sc; (e, sc) = sc_Next sc in Inr (bracePattern b e, sc))
         else bindr (parseClass saved) (\<lambda>(c, sc). Inr (singlePattern c, sc)))"

definition add_repeat :: "int \<Rightarrow> pat list \<Rightarrow> pat list" where
  "add_repeat ch ps =
     (if ps \<noteq> [] then (case last ps of
          singlePattern c \<Rightarrow> butlast ps @ [repeatPattern ch c]
        | _ \<Rightarrow> ps @ [singlePattern (charClass ch)])
      else ps @ [singlePattern (charClass ch)])"

text \<open>The loop of \<^verbatim>\<open>parsePattern\<close>; \<open>top\<close>, \<open>tail\<close> and \<open>ps\<close> are its variables.\<close>

fun parse_seq :: "nat \<Rightarrow> bool \<Rightarrow> bool \<Rightarrow> pat list \<Rightarrow> scanner \<Rightarrow> (bool \<times> pat list) parse" where
  "parse_seq 0 toplevel mustTail ps sc = Inl (PmPanic (PMessage ''fuel''))"
| "parse_seq (Suc n) toplevel mustTail ps sc =
     (let (ch, sc) = sc_Peek sc
      in if ch = char_code (CHR ''%'')
         then bindr (parse_escape sc) (\<lambda>(p, sc). parse_seq n toplevel mustTail (ps @ [p]) sc)
         else if ch \<in> char_code ` {CHR ''.'', CHR ''['', CHR '']''}
         then bindr (parseClass sc) (\<lambda>(c, sc). parse_seq n toplevel mustTail (ps @ [singlePattern c]) sc)
         else if ch = char_code (CHR '')'')
         then (if toplevel then Inl (PmError (sc_Pos sc) ([CHR ''i'', CHR ''n'', CHR ''v'', CHR ''a'', CHR ''l'', CHR ''i'', CHR ''d'', CHR '' '', CHR 39, CHR '')'', CHR 39]))
               else Inr ((mustTail, ps), sc))
         else if ch = char_code (CHR ''('')
         then (let sc = snd (sc_Next sc); (ch, sc) = sc_Peek sc
               in if ch = char_code (CHR '')'') then parse_seq n toplevel mustTail (ps @ [posCapPattern]) (snd (sc_Next sc))
                  else bindr (parse_seq n False False [] sc) (\<lambda>((t, qs), sc).
                    let (ch, sc) = sc_Peek sc
                    in if ch \<noteq> char_code (CHR '')'') then Inl (PmError (sc_Pos sc) ''unfinished capture'')
                       else parse_seq n toplevel mustTail (ps @ [capPattern (seqPattern False t qs)]) (snd (sc_Next sc))))
         else if is_repeat ch then parse_seq n toplevel mustTail (add_repeat ch ps) (snd (sc_Next sc))
         else if ch = char_code (CHR ''$'')
         then (let fin = toplevel \<and> (sc_NextPos sc = int (length (sc_src sc)) - 1 \<or> sc_NextPos sc = EOS)
               in parse_seq n toplevel (mustTail \<or> fin) (if fin then ps else ps @ [singlePattern (charClass ch)]) (snd (sc_Next sc)))
         else if ch = EOS then Inr ((mustTail, ps), snd (sc_Next sc))
         else parse_seq n toplevel mustTail (ps @ [singlePattern (charClass ch)]) (snd (sc_Next sc)))"

definition parsePattern :: "string \<Rightarrow> pm_panic + pat" where
  "parsePattern p =
     (let sc = newScanner p; (ch, sc) = sc_Peek sc; mustHead = (ch = char_code (CHR ''^''));
          sc = (if mustHead then snd (sc_Next sc) else sc)
      in bindr (parse_seq (length p + 2) True False [] sc) (\<lambda>((mustTail, ps), _). Inr (seqPattern mustHead mustTail ps)))"

section \<open>The compiler\<close>

datatype inst =
    opChar cls
  | opMatch
  | opTailMatch
  | opJmp nat
  | opSplit nat nat
  | opSave nat
  | opPSave nat
  | opBrace int int
  | opNumber int

definition repeat_code :: "int \<Rightarrow> cls \<Rightarrow> nat \<Rightarrow> inst list" where
  "repeat_code ty c idx =
     (if ty = char_code (CHR ''*'') then [opSplit (idx + 1) (idx + 3), opChar c, opJmp idx]
      else if ty = char_code (CHR ''+'') then [opChar c, opSplit idx (idx + 2)]
      else if ty = char_code (CHR ''-'') then [opSplit (idx + 3) (idx + 1), opChar c, opJmp idx]
      else if ty = char_code (CHR ''?'') then [opSplit (idx + 1) (idx + 2), opChar c]
      else [])"

text \<open>The instructions so far and the next capture number.\<close>

fun compile_into :: "pat \<Rightarrow> inst list \<times> nat \<Rightarrow> inst list \<times> nat"
  and compile_all :: "pat list \<Rightarrow> inst list \<times> nat \<Rightarrow> inst list \<times> nat" where
  "compile_into (singlePattern c) (is, n) = (is @ [opChar c], n)"
| "compile_into (seqPattern h t ps) ptr = compile_all ps ptr"
| "compile_into (repeatPattern ty c) (is, n) = (is @ repeat_code ty c (length is), n)"
| "compile_into posCapPattern (is, n) = (is @ [opPSave n], n + 2)"
| "compile_into (capPattern p) (is, n) =
     (let (is, n') = compile_into p (is @ [opSave n], n + 2) in (is @ [opSave (n + 1)], n'))"
| "compile_into (bracePattern b e) (is, n) = (is @ [opBrace b e], n)"
| "compile_into (numberPattern k) (is, n) = (is @ [opNumber k], n)"
| "compile_all [] ptr = ptr"
| "compile_all (p # ps) ptr = compile_all ps (compile_into p ptr)"

definition compilePattern :: "bool \<Rightarrow> pat list \<Rightarrow> inst list" where
  "compilePattern mustTail ps =
     fst (compile_all ps ([opSave 0], 2)) @ (if mustTail then [opSave 1, opTailMatch] else []) @ [opSave 1, opMatch]"

section \<open>The machine\<close>

text \<open>Whether it matched, the position behind, and the captures.\<close>

type_synonym pm_out = "pm_panic + bool \<times> nat \<times> captures"

definition class_at :: "string \<Rightarrow> cls \<Rightarrow> nat \<Rightarrow> bool" where
  "class_at src c sp \<longleftrightarrow> sp < length src \<and> Matches c (char_code (src ! sp))"

text \<open>The position behind the balanced text, and the steps so far.\<close>

fun brace_scan :: "int \<Rightarrow> int \<Rightarrow> int \<Rightarrow> nat \<Rightarrow> nat \<Rightarrow> string \<Rightarrow> nat \<times> nat option" where
  "brace_scan b e count sp steps [] = (steps, None)"
| "brace_scan b e count sp steps (ch # rest) =
     (let count = (if char_code ch = e then count - 1 else count)
      in if count = 0 then (steps + 1, Some (sp + 1))
         else brace_scan b e (if char_code ch = b then count + 1 else count) (sp + 1) (steps + 1) rest)"

definition brace_at :: "string \<Rightarrow> int \<Rightarrow> nat \<Rightarrow> bool" where
  "brace_at src b sp \<longleftrightarrow> sp < length src \<and> char_code (src ! sp) = b"

text \<open>The position behind an earlier capture found again at \<open>sp\<close>.\<close>

definition number_at :: "string \<Rightarrow> int \<Rightarrow> nat \<Rightarrow> captures \<Rightarrow> pm_panic + nat option" where
  "number_at src k sp m =
     (if k * 2 \<ge> int (length m) - 1 then Inl (PmError pm_UNKNOWN ''invalid capture index'')
      else let a = Capture m (nat (k * 2)); b = Capture m (nat (k * 2) + 1)
           in if \<not> (a \<le> b \<and> b \<le> length src) then Inl (PmPanic (PMessage ''slice bounds out of range''))
              else if take (b - a) (drop sp src) = drop a (take b src) then Inr (Some (sp + (b - a))) else Inr None)"

partial_function (option) recursiveVM ::
  "string \<Rightarrow> inst list \<Rightarrow> nat \<Rightarrow> nat \<Rightarrow> nat \<Rightarrow> captures \<Rightarrow> (nat \<times> pm_out) option" where
  [code]: "recursiveVM src insts steps pc sp m =
     (if \<not> pc < length insts then Some (steps + 1, Inl (PmPanic PIndexOutOfRange))
      else case insts ! pc of
        opChar c \<Rightarrow>
          if \<not> class_at src c sp then Some (steps + 1, Inr (False, sp, m))
          else recursiveVM src insts (steps + 1) (pc + 1) (sp + 1) m
      | opMatch \<Rightarrow> Some (steps + 1, Inr (True, sp, m))
      | opTailMatch \<Rightarrow> Some (steps + 1, Inr (sp \<ge> length src, sp, m))
      | opJmp a \<Rightarrow> recursiveVM src insts (steps + 1) a sp m
      | opSplit a b \<Rightarrow>
          Option.bind (recursiveVM src insts (steps + 1) a sp m) (\<lambda>(steps, r).
            case r of
              Inl p \<Rightarrow> Some (steps, Inl p)
            | Inr (ok, nsp, m) \<Rightarrow>
                if ok then Some (steps, Inr (True, nsp, m)) else recursiveVM src insts steps b sp m)
      | opSave s \<Rightarrow>
          (let (v, m) = setCapture s sp m
           in Option.bind (recursiveVM src insts (steps + 1) (pc + 1) sp m) (\<lambda>(steps, r).
            case r of
              Inl p \<Rightarrow> Some (steps, Inl p)
            | Inr (ok, nsp, m) \<Rightarrow>
                if ok then Some (steps, Inr (True, nsp, m)) else Some (steps, Inr (False, sp, restoreCapture s v m))))
      | opPSave s \<Rightarrow> recursiveVM src insts (steps + 1) (pc + 1) sp (addPosCapture s (sp + 1) m)
      | opBrace b e \<Rightarrow>
          if \<not> brace_at src b sp then Some (steps + 1, Inr (False, sp, m))
          else (case brace_scan b e 1 (sp + 1) (steps + 1) (drop (sp + 1) src) of
              (steps, None) \<Rightarrow> Some (steps, Inr (False, length src, m))
            | (steps, Some sp) \<Rightarrow> recursiveVM src insts steps (pc + 1) sp m)
      | opNumber k \<Rightarrow>
          (case number_at src k sp m of
             Inl p \<Rightarrow> Some (steps + 1, Inl p)
           | Inr None \<Rightarrow> Some (steps + 1, Inr (False, sp, m))
           | Inr (Some sp) \<Rightarrow> recursiveVM src insts (steps + 1) (pc + 1) sp m))"

text \<open>The matches from \<open>sp\<close> on; a negative limit is none. \<open>None\<close> is a machine that does not end.\<close>

function find_from :: "string \<Rightarrow> inst list \<Rightarrow> bool \<Rightarrow> int \<Rightarrow> nat \<Rightarrow> nat \<Rightarrow> captures list \<Rightarrow> (nat \<times> (pm_panic + captures list)) option" where
  "find_from src insts mustHead limit sp steps ms =
     (if \<not> sp \<le> length src then Some (steps, Inr ms)
      else case recursiveVM src insts steps 0 sp [] of
        None \<Rightarrow> None
      | Some (steps, Inl p) \<Rightarrow> Some (steps, Inl p)
      | Some (steps, Inr (ok, nsp, m)) \<Rightarrow>
          (let ms = (if ok then ms @ [m] else ms); sp = (if ok then max (sp + 1) nsp else sp + 1)
           in if int (length ms) = limit \<or> mustHead then Some (steps, Inr ms)
              else find_from src insts mustHead limit sp steps ms))"
  by pat_completeness auto
termination by (relation "measure (\<lambda>(src, _, _, _, sp, _). length src + 1 - sp)") (auto simp: max_def)

declare find_from.simps [simp del]

definition FindWithStep :: "string \<Rightarrow> string \<Rightarrow> nat \<Rightarrow> int \<Rightarrow> (nat \<times> (pm_panic + captures list)) option" where
  "FindWithStep p src offset limit =
     (case parsePattern p of
        Inr (seqPattern mustHead mustTail ps) \<Rightarrow>
          find_from src (compilePattern mustTail ps) mustHead limit offset 0 []
      | Inr _ \<Rightarrow> Some (0, Inr [])
      | Inl e \<Rightarrow> Some (0, Inl e))"

section \<open>Backtracking semantics\<close>

text \<open>A failed branch leaves its captures behind for the next one.\<close>

definition orElse :: "pm_out \<Rightarrow> (captures \<Rightarrow> pm_out) \<Rightarrow> pm_out" where
  "orElse r f = (case r of Inl p \<Rightarrow> Inl p | Inr (ok, nsp, m) \<Rightarrow> if ok then Inr (True, nsp, m) else f m)"

type_synonym cont = "nat \<Rightarrow> captures \<Rightarrow> pm_out"

definition one :: "string \<Rightarrow> cls \<Rightarrow> cont \<Rightarrow> cont" where
  "one src c k sp m = (if class_at src c sp then k (sp + 1) m else Inr (False, sp, m))"

function greedy :: "string \<Rightarrow> cls \<Rightarrow> cont \<Rightarrow> cont" where
  "greedy src c k sp m =
     orElse (if class_at src c sp then greedy src c k (sp + 1) m else Inr (False, sp, m)) (k sp)"
  by pat_completeness auto
termination by (relation "measure (\<lambda>(src, _, _, sp, _). length src - sp)") (auto simp: class_at_def)

function lazily :: "string \<Rightarrow> cls \<Rightarrow> cont \<Rightarrow> cont" where
  "lazily src c k sp m =
     orElse (k sp m) (\<lambda>m. if class_at src c sp then lazily src c k (sp + 1) m else Inr (False, sp, m))"
  by pat_completeness auto
termination by (relation "measure (\<lambda>(src, _, _, sp, _). length src - sp)") (auto simp: class_at_def)

declare greedy.simps [simp del] lazily.simps [simp del]

definition rep :: "string \<Rightarrow> int \<Rightarrow> cls \<Rightarrow> cont \<Rightarrow> cont" where
  "rep src ty c k =
     (if ty = char_code (CHR ''*'') then greedy src c k
      else if ty = char_code (CHR ''+'') then one src c (greedy src c k)
      else if ty = char_code (CHR ''-'') then lazily src c k
      else if ty = char_code (CHR ''?'') then (\<lambda>sp m. orElse (one src c k sp m) (k sp))
      else k)"

definition saving :: "nat \<Rightarrow> cont \<Rightarrow> cont" where
  "saving s k sp m =
     (let (v, m) = setCapture s sp m in orElse (k sp m) (\<lambda>m. Inr (False, sp, restoreCapture s v m)))"

definition braced :: "string \<Rightarrow> int \<Rightarrow> int \<Rightarrow> cont \<Rightarrow> cont" where
  "braced src b e k sp m =
     (if \<not> brace_at src b sp then Inr (False, sp, m)
      else case snd (brace_scan b e 1 (sp + 1) 0 (drop (sp + 1) src)) of
             None \<Rightarrow> Inr (False, length src, m) | Some sp \<Rightarrow> k sp m)"

definition numbered :: "string \<Rightarrow> int \<Rightarrow> cont \<Rightarrow> cont" where
  "numbered src i k sp m =
     (case number_at src i sp m of
        Inl p \<Rightarrow> Inl p | Inr None \<Rightarrow> Inr (False, sp, m) | Inr (Some sp) \<Rightarrow> k sp m)"

fun ncap :: "pat \<Rightarrow> nat" and ncap_all :: "pat list \<Rightarrow> nat" where
  "ncap (seqPattern h t ps) = ncap_all ps"
| "ncap posCapPattern = 2"
| "ncap (capPattern p) = 2 + ncap p"
| "ncap _ = 0"
| "ncap_all [] = 0"
| "ncap_all (p # ps) = ncap p + ncap_all ps"

text \<open>\<open>n\<close> is the number of the next capture, \<open>k\<close> what comes behind the pattern.\<close>

fun sem :: "string \<Rightarrow> pat \<Rightarrow> nat \<Rightarrow> cont \<Rightarrow> cont" and sem_all :: "string \<Rightarrow> pat list \<Rightarrow> nat \<Rightarrow> cont \<Rightarrow> cont" where
  "sem src (singlePattern c) n k = one src c k"
| "sem src (seqPattern h t ps) n k = sem_all src ps n k"
| "sem src (repeatPattern ty c) n k = rep src ty c k"
| "sem src posCapPattern n k = (\<lambda>sp m. k sp (addPosCapture n (sp + 1) m))"
| "sem src (capPattern p) n k = saving n (sem src p (n + 2) (saving (n + 1) k))"
| "sem src (bracePattern b e) n k = braced src b e k"
| "sem src (numberPattern i) n k = numbered src i k"
| "sem_all src [] n k = k"
| "sem_all src (p # ps) n k = sem src p n (sem_all src ps (n + ncap p) k)"

definition at_end :: "string \<Rightarrow> cont" where
  "at_end src sp m = Inr (sp \<ge> length src, sp, m)"

definition sem_pattern :: "string \<Rightarrow> bool \<Rightarrow> pat list \<Rightarrow> nat \<Rightarrow> pm_out" where
  "sem_pattern src mustTail ps sp =
     saving 0 (sem_all src ps 2 (saving 1 (if mustTail then at_end src else (\<lambda>sp m. Inr (True, sp, m))))) sp []"

section \<open>Compiled patterns\<close>

fun code :: "pat \<Rightarrow> nat \<Rightarrow> nat \<Rightarrow> inst list" and code_all :: "pat list \<Rightarrow> nat \<Rightarrow> nat \<Rightarrow> inst list" where
  "code (singlePattern c) i n = [opChar c]"
| "code (seqPattern h t ps) i n = code_all ps i n"
| "code (repeatPattern ty c) i n = repeat_code ty c i"
| "code posCapPattern i n = [opPSave n]"
| "code (capPattern p) i n = opSave n # code p (i + 1) (n + 2) @ [opSave (n + 1)]"
| "code (bracePattern b e) i n = [opBrace b e]"
| "code (numberPattern k) i n = [opNumber k]"
| "code_all [] i n = []"
| "code_all (p # ps) i n = code p i n @ code_all ps (i + length (code p i n)) (n + ncap p)"

lemma compile_code:
  "compile_into p (is, n) = (is @ code p (length is) n, n + ncap p)"
  "compile_all ps (is, n) = (is @ code_all ps (length is) n, n + ncap_all ps)"
  by (induction p and ps arbitrary: "is" n and "is" n rule: ncap_ncap_all.induct) simp_all

text \<open>The machine ends with a result, whatever the number of steps so far.\<close>

definition ends_with :: "string \<Rightarrow> inst list \<Rightarrow> nat \<Rightarrow> nat \<Rightarrow> captures \<Rightarrow> pm_out \<Rightarrow> bool" where
  "ends_with src insts pc sp m r \<longleftrightarrow> (\<exists>n. \<forall>steps. recursiveVM src insts steps pc sp m = Some (steps + n, r))"

definition runs_as :: "string \<Rightarrow> inst list \<Rightarrow> nat \<Rightarrow> cont \<Rightarrow> bool" where
  "runs_as src insts pc k \<longleftrightarrow> (\<forall>sp m. ends_with src insts pc sp m (k sp m))"

definition at_pc :: "inst list \<Rightarrow> nat \<Rightarrow> inst \<Rightarrow> bool" where
  "at_pc insts pc i \<longleftrightarrow> pc < length insts \<and> insts ! pc = i"

lemma vm_steps:
  "at_pc insts pc (opChar c) \<Longrightarrow> recursiveVM src insts steps pc sp m =
     (if \<not> class_at src c sp then Some (steps + 1, Inr (False, sp, m)) else recursiveVM src insts (steps + 1) (pc + 1) (sp + 1) m)"
  "at_pc insts pc opMatch \<Longrightarrow> recursiveVM src insts steps pc sp m = Some (steps + 1, Inr (True, sp, m))"
  "at_pc insts pc opTailMatch \<Longrightarrow> recursiveVM src insts steps pc sp m = Some (steps + 1, Inr (sp \<ge> length src, sp, m))"
  "at_pc insts pc (opJmp a) \<Longrightarrow> recursiveVM src insts steps pc sp m = recursiveVM src insts (steps + 1) a sp m"
  "at_pc insts pc (opSplit a a') \<Longrightarrow> recursiveVM src insts steps pc sp m =
     Option.bind (recursiveVM src insts (steps + 1) a sp m) (\<lambda>(steps, r).
       case r of Inl p \<Rightarrow> Some (steps, Inl p)
       | Inr (ok, nsp, m) \<Rightarrow> if ok then Some (steps, Inr (True, nsp, m)) else recursiveVM src insts steps a' sp m)"
  "at_pc insts pc (opSave s) \<Longrightarrow> recursiveVM src insts steps pc sp m =
     (let (v, m) = setCapture s sp m
      in Option.bind (recursiveVM src insts (steps + 1) (pc + 1) sp m) (\<lambda>(steps, r).
       case r of Inl p \<Rightarrow> Some (steps, Inl p)
       | Inr (ok, nsp, m) \<Rightarrow> if ok then Some (steps, Inr (True, nsp, m)) else Some (steps, Inr (False, sp, restoreCapture s v m))))"
  "at_pc insts pc (opPSave s) \<Longrightarrow> recursiveVM src insts steps pc sp m =
     recursiveVM src insts (steps + 1) (pc + 1) sp (addPosCapture s (sp + 1) m)"
  "at_pc insts pc (opBrace b e) \<Longrightarrow> recursiveVM src insts steps pc sp m =
     (if \<not> brace_at src b sp then Some (steps + 1, Inr (False, sp, m))
      else (case brace_scan b e 1 (sp + 1) (steps + 1) (drop (sp + 1) src) of
         (steps, None) \<Rightarrow> Some (steps, Inr (False, length src, m))
       | (steps, Some sp) \<Rightarrow> recursiveVM src insts steps (pc + 1) sp m))"
  "at_pc insts pc (opNumber k) \<Longrightarrow> recursiveVM src insts steps pc sp m =
     (case number_at src k sp m of
        Inl p \<Rightarrow> Some (steps + 1, Inl p)
      | Inr None \<Rightarrow> Some (steps + 1, Inr (False, sp, m))
      | Inr (Some sp) \<Rightarrow> recursiveVM src insts (steps + 1) (pc + 1) sp m)"
  by (subst recursiveVM.simps, simp add: at_pc_def)+

lemma ends_now:
  assumes "\<And>steps. recursiveVM src insts steps pc sp m = Some (steps + n, r)"
  shows "ends_with src insts pc sp m r"
  using assms by (auto simp: ends_with_def)

lemma ends_with_then:
  assumes "\<And>steps. recursiveVM src insts steps pc sp m = recursiveVM src insts (steps + j) pc' sp' m'"
    and "ends_with src insts pc' sp' m' r"
  shows "ends_with src insts pc sp m r"
proof -
  obtain n where "\<And>steps. recursiveVM src insts steps pc' sp' m' = Some (steps + n, r)"
    using assms(2) by (auto simp: ends_with_def)
  then show ?thesis using assms(1) by - (rule ends_now [where n = "j + n"], simp add: add.assoc)
qed

lemma ends_char:
  assumes "at_pc insts pc (opChar c)" "class_at src c sp \<Longrightarrow> ends_with src insts (pc + 1) (sp + 1) m r"
    "\<not> class_at src c sp \<Longrightarrow> r = Inr (False, sp, m)"
  shows "ends_with src insts pc sp m r"
proof (cases "class_at src c sp")
  case True
  then show ?thesis using assms(1,2)
    by - (rule ends_with_then [where j = 1 and pc' = "pc + 1" and sp' = "sp + 1" and m' = m], simp_all add: vm_steps)
next
  case False
  then show ?thesis using assms(1,3)
    by - (rule ends_now [where n = 1], simp add: vm_steps)
qed

lemma ends_jmp:
  assumes "at_pc insts pc (opJmp a)" "ends_with src insts a sp m r" shows "ends_with src insts pc sp m r"
  using assms by - (rule ends_with_then [where j = 1 and pc' = a and sp' = sp and m' = m], simp_all add: vm_steps)

lemma ends_psave:
  assumes "at_pc insts pc (opPSave n)" "ends_with src insts (pc + 1) sp (addPosCapture n (sp + 1) m) r"
  shows "ends_with src insts pc sp m r"
  using assms by - (rule ends_with_then [where j = 1 and pc' = "pc + 1" and sp' = sp and m' = "addPosCapture n (sp + 1) m"], simp_all add: vm_steps)

lemma ends_split:
  assumes "at_pc insts pc (opSplit a b)" "ends_with src insts a sp m r" "\<And>m'. ends_with src insts b sp m' (f m')"
  shows "ends_with src insts pc sp m (orElse r f)"
proof -
  obtain n where n: "\<And>steps. recursiveVM src insts steps a sp m = Some (steps + n, r)"
    using assms(2) by (auto simp: ends_with_def)
  show ?thesis
  proof (cases "\<exists>nsp m'. r = Inr (False, nsp, m')")
    case True
    then obtain nsp m' where r: "r = Inr (False, nsp, m')" by blast
    have "ends_with src insts pc sp m (f m')"
      using assms(1,3) n r by - (rule ends_with_then [where j = "1 + n" and pc' = b and sp' = sp and m' = m'], simp_all add: vm_steps)
    then show ?thesis by (simp add: r orElse_def)
  next
    case False
    then have "orElse r f = r" by (auto simp: orElse_def split: sum.splits)
    then show ?thesis using assms(1) n False
      by - (rule ends_now [where n = "1 + n"], auto simp: vm_steps split: sum.splits)
  qed
qed

lemma ends_save:
  assumes "at_pc insts pc (opSave s)" "\<And>m'. ends_with src insts (pc + 1) sp m' (k sp m')"
  shows "ends_with src insts pc sp m (saving s k sp m)"
proof -
  obtain v m' where v: "setCapture s sp m = (v, m')" by fastforce
  obtain n where "\<And>steps. recursiveVM src insts steps (pc + 1) sp m' = Some (steps + n, k sp m')"
    using assms(2) [of m'] by (auto simp: ends_with_def)
  then show ?thesis using assms(1) v
    by - (rule ends_now [where n = "1 + n"], auto simp: vm_steps saving_def orElse_def split: sum.splits)
qed

lemma brace_scan_steps:
  "\<exists>n. \<forall>steps. brace_scan b e count sp steps s = (steps + n, snd (brace_scan b e count sp 0 s))"
proof (induction s arbitrary: count sp)
  case Nil
  then show ?case by auto
next
  case (Cons ch s)
  define c1 where "c1 = (if char_code ch = e then count - 1 else count)"
  define c2 where "c2 = (if char_code ch = b then c1 + 1 else c1)"
  have step: "brace_scan b e count sp steps (ch # s) =
      (if c1 = 0 then (steps + 1, Some (sp + 1)) else brace_scan b e c2 (sp + 1) (steps + 1) s)" for steps
    by (simp add: c1_def c2_def Let_def)
  from Cons [of c2 "sp + 1"] obtain n where n: "\<And>steps. brace_scan b e c2 (sp + 1) steps s =
      (steps + n, snd (brace_scan b e c2 (sp + 1) 0 s))" by blast
  show ?case
  proof (cases "c1 = 0")
    case True
    then show ?thesis by (intro exI [of _ 1]) (simp only: step, simp)
  next
    case False
    then have "brace_scan b e count sp steps (ch # s) = (steps + (n + 1), snd (brace_scan b e count sp 0 (ch # s)))" for steps
      using n [of "steps + 1"] n [of 1] by (simp only: step if_False) simp
    then show ?thesis by blast
  qed
qed

lemma ends_brace:
  assumes "at_pc insts pc (opBrace b e)" "\<And>sp'. ends_with src insts (pc + 1) sp' m (k sp' m)"
  shows "ends_with src insts pc sp m (braced src b e k sp m)"
proof (cases "brace_at src b sp")
  case False
  then show ?thesis using assms(1)
    by - (rule ends_now [where n = 1], simp add: vm_steps braced_def)
next
  case True
  obtain n r where n: "\<And>steps. brace_scan b e 1 (sp + 1) steps (drop (sp + 1) src) = (steps + n, r)"
    using brace_scan_steps by blast
  show ?thesis
  proof (cases r)
    case None
    then show ?thesis using assms(1) True n
      by - (rule ends_now [where n = "1 + n"], simp add: vm_steps braced_def)
  next
    case (Some sp')
    have "ends_with src insts pc sp m (k sp' m)"
      using assms True n Some by - (rule ends_with_then [where j = "1 + n" and pc' = "pc + 1" and sp' = sp' and m' = m], simp_all add: vm_steps)
    then show ?thesis using True Some n by (simp add: braced_def)
  qed
qed

lemma ends_number:
  assumes "at_pc insts pc (opNumber i)" "\<And>sp'. ends_with src insts (pc + 1) sp' m (k sp' m)"
  shows "ends_with src insts pc sp m (numbered src i k sp m)"
proof (cases "number_at src i sp m")
  case (Inl p)
  then show ?thesis using assms(1)
    by - (rule ends_now [where n = 1], simp add: vm_steps numbered_def)
next
  case (Inr r)
  show ?thesis
  proof (cases r)
    case None
    then show ?thesis using assms(1) Inr
      by - (rule ends_now [where n = 1], simp add: vm_steps numbered_def)
  next
    case (Some sp')
    have "ends_with src insts pc sp m (k sp' m)"
      using assms Inr Some by - (rule ends_with_then [where j = 1 and pc' = "pc + 1" and sp' = sp' and m' = m], simp_all add: vm_steps)
    then show ?thesis using Inr Some by (simp add: numbered_def)
  qed
qed

text \<open>A loop of a class: \<open>body\<close> takes one character and comes back to the split at \<open>pc\<close>.\<close>

definition loop_body :: "string \<Rightarrow> inst list \<Rightarrow> nat \<Rightarrow> nat \<Rightarrow> cls \<Rightarrow> bool" where
  "loop_body src insts body pc c \<longleftrightarrow> (\<forall>sp m r. (class_at src c sp \<longrightarrow> ends_with src insts pc (sp + 1) m r) \<longrightarrow>
     (\<not> class_at src c sp \<longrightarrow> r = Inr (False, sp, m)) \<longrightarrow> ends_with src insts body sp m r)"

lemma greedy_runs:
  assumes "at_pc insts pc (opSplit body out)" "loop_body src insts body pc c" "runs_as src insts out k"
  shows "ends_with src insts pc sp m (greedy src c k sp m)"
proof (induction "length src - sp" arbitrary: sp m rule: less_induct)
  case less
  have "ends_with src insts body sp m (if class_at src c sp then greedy src c k (sp + 1) m else Inr (False, sp, m))"
    using assms(2) less [of "sp + 1"] by (auto simp: loop_body_def class_at_def)
  then show ?case
    using assms(1,3) by (subst greedy.simps) (auto intro!: ends_split simp: runs_as_def)
qed

lemma lazily_runs:
  assumes "at_pc insts pc (opSplit out body)" "loop_body src insts body pc c" "runs_as src insts out k"
  shows "ends_with src insts pc sp m (lazily src c k sp m)"
proof (induction "length src - sp" arbitrary: sp m rule: less_induct)
  case less
  have "ends_with src insts body sp m (if class_at src c sp then lazily src c k (sp + 1) m else Inr (False, sp, m))" for m
    using assms(2) less [of "sp + 1"] by (auto simp: loop_body_def class_at_def)
  then show ?case
    using assms(1,3) by (subst lazily.simps) (auto intro!: ends_split simp: runs_as_def)
qed

lemma body_jmp: "at_pc insts b (opChar c) \<Longrightarrow> at_pc insts (b + 1) (opJmp pc) \<Longrightarrow> loop_body src insts b pc c"
  unfolding loop_body_def by (blast intro: ends_char ends_jmp)

lemma body_next: "at_pc insts b (opChar c) \<Longrightarrow> loop_body src insts b (b + 1) c"
  unfolding loop_body_def by (blast intro: ends_char)

lemma one_runs: "at_pc insts pc (opChar c) \<Longrightarrow> runs_as src insts (pc + 1) k \<Longrightarrow> runs_as src insts pc (one src c k)"
  unfolding runs_as_def one_def by (auto intro: ends_char)

definition placed :: "inst list \<Rightarrow> nat \<Rightarrow> inst list \<Rightarrow> bool" where
  "placed insts pc is \<longleftrightarrow> (\<forall>j < length is. at_pc insts (pc + j) (is ! j))"

lemma placed_simps [simp]:
  "placed insts pc []"
  "placed insts pc (i # is) \<longleftrightarrow> at_pc insts pc i \<and> placed insts (pc + 1) is"
  "placed insts pc (is @ js) \<longleftrightarrow> placed insts pc is \<and> placed insts (pc + length is) js"
proof -
  show c: "placed insts pc (i # is) \<longleftrightarrow> at_pc insts pc i \<and> placed insts (pc + 1) is" for i "is" pc
    by (auto simp: placed_def less_Suc_eq_0_disj)
  show "placed insts pc (is @ js) \<longleftrightarrow> placed insts pc is \<and> placed insts (pc + length is) js"
    by (induction "is" arbitrary: pc) (simp_all add: c placed_def [of _ _ "[]"])
qed (simp add: placed_def)

lemma rep_runs:
  assumes "placed insts pc (repeat_code ty c pc)" "runs_as src insts (pc + length (repeat_code ty c pc)) k"
  shows "runs_as src insts pc (rep src ty c k)"
proof -
  consider "ty = char_code (CHR ''*'')" | "ty = char_code (CHR ''+'')" | "ty = char_code (CHR ''-'')"
    | "ty = char_code (CHR ''?'')" | "ty \<notin> char_code ` {CHR ''*'', CHR ''+'', CHR ''-'', CHR ''?''}" by blast
  then show ?thesis
  proof cases
    case 1
    then have l: "loop_body src insts (pc + 1) pc c"
      using assms(1) by (intro body_jmp) (simp_all add: repeat_code_def char_code_def)
    have "ends_with src insts pc sp m (greedy src c k sp m)" for sp m
      using 1 assms by (intro greedy_runs [OF _ l, of "pc + 3"]) (simp_all add: repeat_code_def char_code_def numeral_3_eq_3)
    then show ?thesis using 1 by (simp add: rep_def char_code_def runs_as_def)
  next
    case 2
    then have "ends_with src insts (pc + 1) sp m (greedy src c k sp m)" for sp m
      using assms by (intro greedy_runs [where body = pc and out = "pc + 2"] body_next) (simp_all add: repeat_code_def char_code_def)
    then have "runs_as src insts (pc + 1) (greedy src c k)" by (simp add: runs_as_def)
    with 2 show ?thesis using assms one_runs by (simp add: repeat_code_def rep_def char_code_def)
  next
    case 3
    then have l: "loop_body src insts (pc + 1) pc c"
      using assms(1) by (intro body_jmp) (simp_all add: repeat_code_def char_code_def)
    have "ends_with src insts pc sp m (lazily src c k sp m)" for sp m
      using 3 assms by (intro lazily_runs [OF _ l, of "pc + 3"]) (simp_all add: repeat_code_def char_code_def numeral_3_eq_3)
    then show ?thesis using 3 by (simp add: rep_def char_code_def runs_as_def)
  next
    case 4
    have "ends_with src insts pc sp m (orElse (one src c k sp m) (k sp))" for sp m
    proof (rule ends_split)
      show "at_pc insts pc (opSplit (pc + 1) (pc + 2))" using 4 assms(1) by (simp add: repeat_code_def char_code_def)
      have "runs_as src insts (pc + 1) (one src c k)"
        using 4 assms one_runs [of insts "pc + 1"] by (simp add: repeat_code_def char_code_def)
      then show "ends_with src insts (pc + 1) sp m (one src c k sp m)" by (simp add: runs_as_def)
      show "ends_with src insts (pc + 2) sp m' (k sp m')" for m'
        using 4 assms(2) by (simp add: repeat_code_def char_code_def runs_as_def)
    qed
    with 4 show ?thesis by (simp add: rep_def char_code_def runs_as_def)
  next
    case 5
    then show ?thesis using assms(2) by (simp add: repeat_code_def rep_def)
  qed
qed

lemma saving_runs: "at_pc insts pc (opSave n) \<Longrightarrow> runs_as src insts (pc + 1) k \<Longrightarrow> runs_as src insts pc (saving n k)"
  unfolding runs_as_def by (blast intro: ends_save)

lemma sem_runs:
  "placed insts pc (code p pc n) \<Longrightarrow> runs_as src insts (pc + length (code p pc n)) k \<Longrightarrow>
     runs_as src insts pc (sem src p n k)"
  "placed insts pc (code_all ps pc n) \<Longrightarrow> runs_as src insts (pc + length (code_all ps pc n)) k \<Longrightarrow>
     runs_as src insts pc (sem_all src ps n k)"
proof (induction p pc n and ps pc n arbitrary: k and k rule: code_code_all.induct)
  case (1 c i n)
  then show ?case by (simp add: one_runs)
next
  case (3 ty c i n)
  then show ?case by (simp add: rep_runs)
next
  case (4 i n)
  then show ?case by (auto simp: runs_as_def intro: ends_psave)
next
  case (5 p i n)
  have "runs_as src insts (i + 1 + length (code p (i + 1) (n + 2))) (saving (n + 1) k)"
    using 5(2,3) by (intro saving_runs) (simp_all add: add.assoc)
  then have "runs_as src insts (i + 1) (sem src p (n + 2) (saving (n + 1) k))" using 5 by simp
  then show ?case using 5(2) by (simp add: saving_runs)
next
  case (6 b e i n)
  then show ?case by (auto simp: runs_as_def intro: ends_brace)
next
  case (7 k' i n)
  then show ?case by (auto simp: runs_as_def intro: ends_number)
next
  case (9 p ps i n)
  then show ?case by (simp add: add.assoc)
qed simp_all

lemma machine_runs:
  "\<exists>n. recursiveVM src (compilePattern mustTail ps) steps 0 sp [] = Some (steps + n, sem_pattern src mustTail ps sp)"
proof -
  define body where "body = code_all ps 1 2"
  define insts where "insts = compilePattern mustTail ps"
  define e where "e = 1 + length body"
  have i: "insts = opSave 0 # body @ (if mustTail then [opSave 1, opTailMatch] else []) @ [opSave 1, opMatch]"
    by (simp add: insts_def compilePattern_def compile_code body_def)
  have p: "placed insts 0 insts" by (simp add: placed_def at_pc_def)
  then have q: "at_pc insts 0 (opSave 0)" "placed insts 1 body"
    "placed insts e ((if mustTail then [opSave 1, opTailMatch] else []) @ [opSave 1, opMatch])"
    unfolding e_def by (subst (asm) (2) i, simp)+
  define fin where "fin = (if mustTail then at_end src else (\<lambda>sp m. Inr (True, sp, m)))"
  have "runs_as src insts (e + 1) fin"
    using q(3) by (auto simp: runs_as_def fin_def at_end_def intro: ends_now [where n = 1] simp: vm_steps)
  then have "runs_as src insts e (saving 1 fin)" using q(3) by (intro saving_runs) (auto split: if_splits)
  then have "runs_as src insts 1 (sem_all src ps 2 (saving 1 fin))"
    using q(2) by (intro sem_runs(2)) (simp_all add: body_def e_def)
  then have "runs_as src insts 0 (saving 0 (sem_all src ps 2 (saving 1 fin)))" using q(1) by (intro saving_runs) simp_all
  then have "ends_with src insts 0 sp [] (saving 0 (sem_all src ps 2 (saving 1 fin)) sp [])" unfolding runs_as_def by blast
  then show ?thesis unfolding ends_with_def sem_pattern_def insts_def fin_def by blast
qed

section \<open>The parser ends\<close>

text \<open>The characters a scanner has not read yet.\<close>

definition sc_wf :: "scanner \<Rightarrow> bool" where
  "sc_wf sc \<longleftrightarrow> (if sc_started sc then sc_Pos sc = EOS \<or> 0 \<le> sc_Pos sc \<and> sc_Pos sc < int (length (sc_src sc)) else sc_Pos sc = 0)"

definition unread :: "scanner \<Rightarrow> nat" where
  "unread sc = (if \<not> sc_started sc then length (sc_src sc)
     else if sc_Pos sc = EOS then 0 else nat (int (length (sc_src sc)) - 1 - sc_Pos sc))"

definition behind :: "nat \<Rightarrow> scanner \<Rightarrow> scanner \<Rightarrow> bool" where
  "behind d sc sc' \<longleftrightarrow> sc_wf sc' \<and> sc_src sc' = sc_src sc \<and> unread sc' + d \<le> unread sc"

lemma behind_trans: "behind d a b \<Longrightarrow> behind e b c \<Longrightarrow> behind (d + e) a c"
  by (auto simp: behind_def)

lemma behind_le: "behind d a b \<Longrightarrow> e \<le> d \<Longrightarrow> behind e a b"
  by (auto simp: behind_def)

lemma behind_wf: "behind d a b \<Longrightarrow> sc_wf b"
  by (simp add: behind_def)

lemma char_code_ge [simp]: "0 \<le> char_code c" "char_code c \<noteq> EOS" "char_code c \<noteq> -1" "EOS \<noteq> char_code c"
  by (simp_all add: char_code_def EOS_def)

lemma Next_cases:
  "sc_Next \<lparr>sc_src = s, sc_Pos = p, sc_started = False\<rparr> =
     (if s = [] then (EOS, \<lparr>sc_src = s, sc_Pos = EOS, sc_started = True\<rparr>)
      else if p = EOS then (EOS, \<lparr>sc_src = s, sc_Pos = EOS, sc_started = True\<rparr>)
      else (char_code (s ! nat p), \<lparr>sc_src = s, sc_Pos = p, sc_started = True\<rparr>))"
  "sc_Next \<lparr>sc_src = s, sc_Pos = p, sc_started = True\<rparr> =
     (if p = EOS \<or> p \<ge> int (length s) - 1 then (EOS, \<lparr>sc_src = s, sc_Pos = EOS, sc_started = True\<rparr>)
      else if p + 1 = EOS then (EOS, \<lparr>sc_src = s, sc_Pos = EOS, sc_started = True\<rparr>)
      else (char_code (s ! nat (p + 1)), \<lparr>sc_src = s, sc_Pos = p + 1, sc_started = True\<rparr>))"
  by (simp_all add: sc_Next_def sc_NextPos_def Let_def)

lemma Next_wf:
  assumes "sc_wf sc" "sc_Next sc = (ch, sc')"
  shows "behind 0 sc sc' \<and> (ch = EOS \<longrightarrow> unread sc = 0) \<and> (ch \<noteq> EOS \<longrightarrow> behind 1 sc sc')"
proof -
  obtain s p st where sc: "sc = \<lparr>sc_src = s, sc_Pos = p, sc_started = st\<rparr>" by (cases sc) simp
  show ?thesis
    using assms unfolding sc
    by (cases st; cases s) (auto simp: Next_cases sc_wf_def behind_def unread_def EOS_def Suc_le_eq split: if_splits)
qed

lemma Peek_wf:
  assumes "sc_wf sc" "sc_Peek sc = (ch, sc')"
  shows "behind 0 sc sc' \<and> unread sc' = unread sc \<and> (ch = EOS \<longleftrightarrow> unread sc = 0)"
proof -
  obtain s p st where sc: "sc = \<lparr>sc_src = s, sc_Pos = p, sc_started = st\<rparr>" by (cases sc) simp
  show ?thesis
    using assms unfolding sc sc_Peek_def
    by (cases st) (auto simp: Next_cases sc_wf_def behind_def unread_def EOS_def Suc_le_eq split: if_splits)
qed

lemma Next_behind: "sc_wf sc \<Longrightarrow> behind 0 sc (snd (sc_Next sc)) \<and> (unread sc \<noteq> 0 \<longrightarrow> behind 1 sc (snd (sc_Next sc)))"
  using Next_wf [of sc "fst (sc_Next sc)" "snd (sc_Next sc)"] by auto

definition no_fuel :: pm_panic where
  "no_fuel = PmPanic (PMessage ''fuel'')"

definition parsed :: "nat \<Rightarrow> scanner \<Rightarrow> 'a parse \<Rightarrow> bool" where
  "parsed d sc r \<longleftrightarrow> (case r of Inl e \<Rightarrow> e \<noteq> no_fuel | Inr (x, sc') \<Rightarrow> behind d sc sc')"

lemma parsed_basic [simp]:
  "parsed d sc (Inl (PmError i m))" "parsed d sc (Inr (x, sc')) \<longleftrightarrow> behind d sc sc'"
  by (simp_all add: parsed_def no_fuel_def)

lemma parsed_bindr:
  assumes "parsed d sc r" "\<And>x sc'. behind d sc sc' \<Longrightarrow> parsed e sc (f (x, sc'))" shows "parsed e sc (bindr r f)"
  using assms by (cases r) (auto simp: parsed_def)

lemma parsed_later: "behind d sc sc' \<Longrightarrow> parsed e sc' r \<Longrightarrow> parsed (d + e) sc r"
  by (auto simp: parsed_def behind_def split: sum.splits)

lemma parsed_le: "parsed d sc r \<Longrightarrow> e \<le> d \<Longrightarrow> parsed e sc r"
  by (auto simp: parsed_def behind_def split: sum.splits)

lemma behind_Next: "behind d sc sc1 \<Longrightarrow> behind d sc (snd (sc_Next sc1))"
  using Next_behind [of sc1] behind_trans [of d sc sc1 0] by (auto dest: behind_wf)

lemma behind_Next_pair: "behind d sc sc1 \<Longrightarrow> sc_Next sc1 = (ch, sc2) \<Longrightarrow> behind d sc sc2"
  using behind_Next [of d sc sc1] by simp

lemma behind_Peek_pair: "behind d sc sc1 \<Longrightarrow> sc_Peek sc1 = (ch, sc2) \<Longrightarrow> behind d sc sc2"
  using Peek_wf [of sc1 ch sc2] behind_trans [of d sc sc1 0 sc2] by (auto dest: behind_wf)

text \<open>After a look at a character, the next one is that one.\<close>

lemma behind_Peek_Next:
  assumes "behind d sc sc1" "sc_Peek sc1 = (ch, sc2)" "ch \<noteq> EOS" shows "behind (d + 1) sc (snd (sc_Next sc2))"
proof -
  have p: "behind 0 sc1 sc2" "unread sc2 \<noteq> 0" using Peek_wf [of sc1 ch sc2] assms by (auto dest: behind_wf)
  then have "behind 1 sc2 (snd (sc_Next sc2))" using Next_behind [of sc2] by (auto dest: behind_wf)
  then show ?thesis using behind_trans [OF behind_trans [OF assms(1) p(1)], of 1] by simp
qed

lemma set_class_parsed: "sc_wf sc \<Longrightarrow> parsed 1 sc (parse_set_class sc)"
  unfolding parse_set_class_def Let_def
  by (auto dest!: Next_wf [of sc] intro: behind_Next_pair split: prod.splits)

lemma parse_set_parsed:
  "sc_wf sc \<Longrightarrow> unread sc < n \<Longrightarrow> parsed 0 sc (parse_set n cs r sc)"
proof (induction n arbitrary: cs r sc)
  case (Suc n)
  obtain ch sc1 where p: "sc_Peek sc = (ch, sc1)" by fastforce
  have b0: "behind 0 sc sc" using Suc.prems(1) by (simp add: behind_def)
  have b1: "behind 0 sc sc1" using behind_Peek_pair [OF b0 p] .
  show ?case
  proof (cases "ch = EOS")
    case True
    with p show ?thesis by simp
  next
    case False
    have b2: "behind 1 sc (snd (sc_Next sc1))" using behind_Peek_Next [OF b0 p False] by simp
    have rec: "parsed 0 sc (parse_set n cs r sc')" if "behind 1 sc sc'" for cs r sc'
      using Suc.IH [of sc' cs r] Suc.prems that parsed_later [of 1 sc sc' 0] by (auto simp: behind_def intro: parsed_le)
    have "parsed 1 sc (parse_set_class sc1)"
      using set_class_parsed [of sc1] parsed_later [OF b1] b1 by (auto dest: behind_wf)
    then have "parsed 0 sc (bindr (parse_set_class sc1) (\<lambda>(c, sc). parse_set n (add_class r c cs) False sc))"
      by (rule parsed_bindr) (auto intro: rec)
    then show ?thesis using False p rec [OF b2] behind_le [OF b2, of 0] by simp
  qed
qed simp

lemma unread_bound: "sc_wf sc \<Longrightarrow> unread sc \<le> length (sc_src sc)"
  by (auto simp: sc_wf_def unread_def split: if_splits)

lemma class_set_parsed:
  assumes "sc_wf sc" shows "parsed 0 sc (parseClassSet sc)"
proof -
  have b0: "behind 0 sc sc" using assms by (simp add: behind_def)
  obtain ch sc1 where p: "sc_Peek sc = (ch, sc1)" by fastforce
  define sc2 where "sc2 = (if ch = char_code (CHR ''^'') then snd (sc_Next sc1) else sc1)"
  have b: "behind 0 sc sc2" unfolding sc2_def using behind_Peek_pair [OF b0 p] behind_Next by auto
  have "parsed 0 sc2 (parse_set (set_fuel sc2) [] False sc2)"
    using unread_bound [of sc2] b by (intro parse_set_parsed) (auto simp: set_fuel_def dest: behind_wf)
  then have "parsed 0 sc (parse_set (set_fuel sc2) [] False sc2)" using parsed_later [OF b] by fastforce
  then show ?thesis
    by (auto simp: parseClassSet_def p Let_def sc2_def [symmetric] intro!: parsed_bindr)
qed

lemma class_parsed:
  assumes "sc_wf sc" shows "parsed 1 sc (parseClass sc)"
proof -
  obtain ch sc1 where n: "sc_Next sc = (ch, sc1)" by fastforce
  have "parsed 1 sc (parseClassSet sc1)" if "ch \<noteq> EOS"
    using Next_wf [OF assms n] that class_set_parsed [of sc1] parsed_later [of 1 sc sc1 0] by (auto dest: behind_wf)
  then show ?thesis
    using Next_wf [OF assms n] set_class_parsed [OF assms] by (auto simp: parseClass_def n)
qed

lemma escape_parsed:
  assumes "sc_wf sc" "unread sc \<noteq> 0" shows "parsed 1 sc (parse_escape sc)"
proof -
  obtain c0 sc1 where n: "sc_Next sc = (c0, sc1)" by fastforce
  obtain ch sc2 where p: "sc_Peek sc1 = (ch, sc2)" by fastforce
  have b1: "behind 1 sc sc1" using Next_behind [OF assms(1)] assms(2) n by simp
  have b2: "behind 1 sc sc2" using behind_Peek_pair [OF b1 p] .
  have "parsed 1 sc (bindr (parseClass sc) (\<lambda>(c, sc). Inr (singlePattern c, sc)))"
    using class_parsed [OF assms(1)] by (rule parsed_bindr) simp
  then show ?thesis using b2
    by (simp add: parse_escape_def n p Let_def prod.case_eq_if) (auto intro!: behind_Next)
qed

lemma parse_seq_parsed:
  "sc_wf sc \<Longrightarrow> unread sc < n \<Longrightarrow> parsed 0 sc (parse_seq n lvl tail ps sc)"
proof (induction n arbitrary: lvl tail ps sc)
  case (Suc n)
  obtain ch sc1 where p: "sc_Peek sc = (ch, sc1)" by fastforce
  have b0: "behind 0 sc sc" using Suc.prems(1) by (simp add: behind_def)
  have b1: "behind 0 sc sc1" using behind_Peek_pair [OF b0 p] .
  have rec: "parsed 0 sc (parse_seq n lvl tail ps sc')" if "behind 1 sc sc'" for lvl tail ps sc'
    using Suc.IH [of sc' lvl tail ps] Suc.prems that parsed_later [of 1 sc sc' 0]
    by (auto simp: behind_def intro: parsed_le)
  have after: "parsed 0 sc (bindr r f)"
    if "parsed 1 sc1 r" "\<And>x sc'. behind 1 sc sc' \<Longrightarrow> parsed 0 sc (f (x, sc'))" for r :: "'x parse" and f :: "'x \<times> scanner \<Rightarrow> 'y parse"
    using parsed_later [OF b1 that(1)] that(2) by (intro parsed_bindr [of 1]) simp_all
  show ?case
  proof (cases "ch = EOS")
    case True
    then show ?thesis using p behind_Next [OF b1]
      by (simp add: is_repeat_def image_iff EOS_def char_code_def)
  next
    case False
    have b2: "behind 1 sc (snd (sc_Next sc1))" using behind_Peek_Next [OF b0 p False] by simp
    have u: "sc_wf sc1" "unread sc1 \<noteq> 0" using Peek_wf [OF Suc.prems(1) p] False by (auto dest: behind_wf)
    define sc2 where "sc2 = snd (sc_Next sc1)"
    obtain ch2 sc3 where p2: "sc_Peek sc2 = (ch2, sc3)" by fastforce
    have b3: "behind 1 sc sc3" using behind_Peek_pair [OF _ p2] b2 by (simp add: sc2_def)
    define close where "close = (\<lambda>((t, qs), sc). let (ch, sc) = sc_Peek sc
        in if ch \<noteq> char_code (CHR '')'') then Inl (PmError (sc_Pos sc) ''unfinished capture'')
           else parse_seq n lvl tail (ps @ [capPattern (seqPattern False t qs)]) (snd (sc_Next sc)))"
    have "parsed 0 sc (close (x, sc'))" if "behind 1 sc sc'" for x sc'
      using behind_Next [OF behind_Peek_pair [OF that]]
      by (cases x; cases "sc_Peek sc'") (auto simp: close_def intro!: rec)
    moreover have "parsed 1 sc (parse_seq n False False [] sc3)"
      using Suc.IH [of sc3 False False "[]"] Suc.prems b3 parsed_later [OF b3, of 0] by (auto simp: behind_def)
    ultimately have nested: "parsed 0 sc (bindr (parse_seq n False False [] sc3) close)" by (intro parsed_bindr [of 1]) auto
    have "parsed 0 sc (parse_seq n lvl tail ps' (snd (sc_Next sc3)))" for ps'
      using behind_Next [OF b3] by (rule rec)
    moreover have "parsed 0 sc (bindr (parse_escape sc1) (\<lambda>(p, sc). parse_seq n lvl tail (ps @ [p]) sc))"
      by (rule after [OF escape_parsed [OF u]]) (simp add: rec)
    moreover have "parsed 0 sc (bindr (parseClass sc1) (\<lambda>(c, sc). parse_seq n lvl tail (ps @ [singlePattern c]) sc))"
      by (rule after [OF class_parsed [OF u(1)]]) (simp add: rec)
    ultimately show ?thesis
      using b1 False nested [unfolded close_def Let_def] rec [OF b2] by (simp add: p Let_def sc2_def [symmetric] p2)
  qed
qed simp

lemma parsePattern_no_fuel: "parsePattern p \<noteq> Inl no_fuel"
proof -
  have w: "sc_wf (newScanner p)" "unread (newScanner p) = length p" by (simp_all add: newScanner_def sc_wf_def unread_def)
  then have b0: "behind 0 (newScanner p) (newScanner p)" by (simp add: behind_def)
  obtain ch sc1 where q: "sc_Peek (newScanner p) = (ch, sc1)" by fastforce
  define sc2 where "sc2 = (if ch = char_code (CHR ''^'') then snd (sc_Next sc1) else sc1)"
  have "behind 0 (newScanner p) sc2" unfolding sc2_def using behind_Peek_pair [OF b0 q] behind_Next by auto
  then have "parsed 0 sc2 (parse_seq (length p + 2) True False [] sc2)"
    using w(2) by - (rule parse_seq_parsed, auto simp: behind_def)
  then show ?thesis
    by (auto simp: parsePattern_def q Let_def sc2_def [symmetric] parsed_def bindr_Inl_iff)
qed

section \<open>Searching\<close>

text \<open>The matches from a position on, at most \<open>limit\<close>: each search starts behind the last match.\<close>

function find_spec :: "string \<Rightarrow> bool \<Rightarrow> pat list \<Rightarrow> bool \<Rightarrow> int \<Rightarrow> nat \<Rightarrow> captures list \<Rightarrow> pm_panic + captures list" where
  "find_spec src mustTail ps mustHead limit sp ms =
     (if sp > length src then Inr ms
      else case sem_pattern src mustTail ps sp of
             Inl e \<Rightarrow> Inl e
           | Inr (ok, nsp, m) \<Rightarrow>
               let ms' = (if ok then ms @ [m] else ms); sp' = (if ok then max (sp + 1) nsp else sp + 1)
               in if int (length ms') = limit \<or> mustHead then Inr ms'
                  else find_spec src mustTail ps mustHead limit sp' ms')"
  by pat_completeness auto
termination by (relation "measure (\<lambda>(src, _, _, _, _, sp, _). length src + 1 - sp)") (auto simp: max_def)

declare find_spec.simps [simp del]

lemma find_from_spec:
  "\<exists>n. find_from src (compilePattern mustTail ps) mustHead limit sp steps ms =
     Some (n, find_spec src mustTail ps mustHead limit sp ms)"
proof (induction "length src + 1 - sp" arbitrary: sp steps ms rule: less_induct)
  case less
  obtain n where n: "recursiveVM src (compilePattern mustTail ps) steps 0 sp [] = Some (steps + n, sem_pattern src mustTail ps sp)"
    using machine_runs by blast
  show ?case
  proof (cases "sp \<le> length src")
    case True
    then have "\<exists>n. find_from src (compilePattern mustTail ps) mustHead limit sp' steps' ms' =
        Some (n, find_spec src mustTail ps mustHead limit sp' ms')" if "sp < sp'" for sp' steps' ms'
      using less [of sp'] that by simp
    then show ?thesis using n True
      by (subst find_from.simps, subst find_spec.simps) (auto simp: Let_def max_def split: sum.splits)
  qed (simp add: find_from.simps find_spec.simps)
qed

lemma FindWithStep_total: "\<exists>n r. FindWithStep p src offset limit = Some (n, r)"
  using find_from_spec by (fastforce simp: FindWithStep_def split: sum.splits pat.splits)

text \<open>C9: The pattern machine on a compiled pattern finds the matches of the backtracking semantics of the pattern,
  from left to right without overlaps, or fails where that semantics fails.\<close>

theorem pattern_search_correct:
  assumes "parsePattern p = Inr (seqPattern mustHead mustTail ps)"
  shows "\<exists>n. FindWithStep p src offset limit = Some (n, find_spec src mustTail ps mustHead limit offset [])"
  using find_from_spec assms by (simp add: FindWithStep_def)

text \<open>C15: Matching a pattern against any string ends with a list of matches or an error, and reading any pattern ends
  within a fuel of two more than its length.\<close>

theorem pattern_matching_total:
  "(\<exists>n r. FindWithStep p src offset limit = Some (n, r)) \<and> parsePattern p \<noteq> Inl no_fuel"
  using FindWithStep_total parsePattern_no_fuel by blast

theorem pattern_search_correct_witness:
  "\<exists>n. FindWithStep ''a+'' ''caab'' 0 (-1) =
     Some (n, find_spec ''caab'' False [repeatPattern 43 (charClass 97)] False (-1) 0 [])"
proof (rule pattern_search_correct)
  show "parsePattern ''a+'' = Inr (seqPattern False False [repeatPattern 43 (charClass 97)])"
    by (simp add: parsePattern_def newScanner_def sc_Peek_def sc_Next_def sc_NextPos_def Let_def char_code_def EOS_def numeral_eq_Suc
        is_repeat_def add_repeat_def set_fuel_def)
qed

end
