(* ===== verification/StringLib.thy ===== *)
theory StringLib
  imports BaseLib Patterns
begin

text \<open>
  The string library (\<^verbatim>\<open>stringlib.go\<close>): positions, parts, repetition, and searching and
  replacing with the patterns of theory \<open>Patterns\<close>, each step of the machine paid for in gas.
  \<^verbatim>\<open>string.format\<close> is modelled up to the formatting itself, which is Go's \<^verbatim>\<open>fmt\<close>;
  \<^verbatim>\<open>string.gmatch\<close> is not. The results are in theory \<open>StringFacts\<close>: \<^verbatim>\<open>string.sub\<close> is Lua's;
  quoting can be read back; where a plain search and a repetition leave the language with a Go
  panic.
\<close>

section \<open>Positions\<close>

definition maxInt64 :: int where "maxInt64 = 9223372036854775807"

definition luaIdxFromU256 :: "LUint256 \<Rightarrow> int" where
  "luaIdxFromU256 v =
     (if lu256IsNeg v then sint (lo v)
      else if hi v \<noteq> 0 \<or> mh v \<noteq> 0 \<or> ml v \<noteq> 0 \<or> uint (lo v) > maxInt64 then maxInt64
      else sint (lo v))"

definition luaPosrelat :: "int \<Rightarrow> int \<Rightarrow> int" where
  "luaPosrelat pos l = (if pos \<ge> 0 then pos else if wrap64 (- pos) > l then 0 else l + pos + 1)"

definition luaIndex2StringIndex :: "string \<Rightarrow> int \<Rightarrow> bool \<Rightarrow> int" where
  "luaIndex2StringIndex str i start =
     (let i = (if start \<and> i \<noteq> 0 then wrap64 (i - 1) else i);
          l = int (length str);
          i = (if i < 0 then l + i + 1 else i);
          i = max 0 i
      in if \<not> start \<and> i > l then l else i)"

definition luaU256ToStringPos :: "LUint256 \<Rightarrow> int \<times> bool" where
  "luaU256ToStringPos v =
     (if drop_bit 63 (hi v) = 0 then lu256ToInt v
      else if hi v \<noteq> NOT 0 \<or> mh v \<noteq> NOT 0 \<or> ml v \<noteq> NOT 0 then (0, False)
      else (sint (lo v), True))"

definition luaU256Index2StringIndex :: "string \<Rightarrow> LUint256 \<Rightarrow> bool \<Rightarrow> int" where
  "luaU256Index2StringIndex str v start =
     (let (i, ok) = luaU256ToStringPos v
      in if \<not> ok then (if drop_bit 63 (hi v) = 0 then int (length str) else 0)
         else luaIndex2StringIndex str i start)"

text \<open>An optional position argument.\<close>

definition position_arg :: "int \<Rightarrow> LUint256 \<Rightarrow> LUint256 vmM" where
  "position_arg n d = bnd GetTop (\<lambda>top. bnd (ls_Get n) (\<lambda>v.
     if top \<ge> n \<and> v \<noteq> Some LNil then CheckUint256 n else ret d))"

section \<open>Parts of strings\<close>

definition byte_positions :: "int \<Rightarrow> (int \<times> int) vmM" where
  "byte_positions l = bnd GetTop (\<lambda>top. bnd (ls_Get 2) (\<lambda>v2. bnd (ls_Get 3) (\<lambda>v3.
     bnd (if top \<ge> 2 \<and> v2 \<noteq> Some LNil then bnd (CheckUint256 2) (\<lambda>v. ret (luaIdxFromU256 v)) else ret 1) (\<lambda>rawI.
       let posi = luaPosrelat rawI l
       in bnd (if top \<ge> 3 \<and> v3 \<noteq> Some LNil then bnd (CheckUint256 3) (\<lambda>v. ret (luaIdxFromU256 v)) else ret posi) (\<lambda>rawJ.
            let pose = luaPosrelat rawJ l in ret (max 1 posi, min l pose))))))"

definition strByte :: "int vmM" where
  "strByte = bnd (CheckString 1) (\<lambda>str. bnd (byte_positions (int (length str))) (\<lambda>(posi, pose).
     if posi > pose then ret 0
     else and_then (forM [posi - 1..pose - 1] (\<lambda>i. and_then (chargeGas 1)
              (bnd (at_index str i) (\<lambda>c. ls_Push (LNum (lu256FromInt (char_code c)))))))
            (ret (pose - posi + 1))))"

definition strChar :: "int vmM" where
  "strChar = bnd GetTop (\<lambda>top.
     bnd (foldM (\<lambda>i out. and_then (chargeGas 1) (bnd (CheckInt i) (\<lambda>v.
            and_then (whenM (v < 0 \<or> v > 255) (ArgError i ''value out of range''))
              (ret (out @ [char_of (nat v)]))))) [1..top] [])
       (\<lambda>bytes. push1 (LString bytes)))"

definition strLen :: "int vmM" where
  "strLen = bnd (CheckString 1) (\<lambda>str. push_int (int (length str)))"

definition ascii_upper :: "char \<Rightarrow> char" where
  "ascii_upper c = (if char_between (CHR ''a'') (CHR ''z'') c then char_of (of_char c - 32 :: nat) else c)"

text \<open>Changing case is modelled on ASCII letters.\<close>

definition strings_ToUpper :: "string \<Rightarrow> string" where
  "strings_ToUpper = map ascii_upper"

definition push_changed :: "(string \<Rightarrow> string) \<Rightarrow> int vmM" where
  "push_changed f = bnd (CheckString 1) (\<lambda>str.
     and_then (chargeChunkedWorkGas (int (length str)) cryptoLinearWorkGasChunkBytes) (push1 (LString (f str))))"

definition strLower :: "int vmM" where "strLower = push_changed strings_ToLower"
definition strUpper :: "int vmM" where "strUpper = push_changed strings_ToUpper"
definition strReverse :: "int vmM" where "strReverse = push_changed rev"

text \<open>\<^verbatim>\<open>strings.Repeat\<close> panics when the length of the result is no machine integer.\<close>

definition strings_Repeat :: "string \<Rightarrow> int \<Rightarrow> string vmM" where
  "strings_Repeat s n =
     (if int (length s) * n \<ge> 2 ^ 63 then vpanic (PMessage ''strings: Repeat output length overflow'')
      else ret (concat (replicate (nat n) s)))"

definition rep_length :: "string \<Rightarrow> string \<Rightarrow> int \<Rightarrow> int" where
  "rep_length str sep n = wrap64 (int (length str) * n + int (length sep) * max 0 (n - 1))"

definition strRep :: "int vmM" where
  "strRep = bnd (CheckString 1) (\<lambda>str. bnd (CheckInt 2) (\<lambda>n. bnd (OptString 3 '''') (\<lambda>sep.
     if n \<le> 0 then push1 (LString '''')
     else let outputLen = rep_length str sep n
          in and_then (whenM (outputLen > maxStringResultBytes) (RaiseError (''string.rep: output too large ('' @ itoa outputLen @
                '' bytes, limit '' @ itoa maxStringResultBytes @ '')'')))
             (if sep = '''' then bnd (strings_Repeat str n) (\<lambda>s. push1 (LString s))
              else push1 (LString (strings_Join (replicate (nat n) str) sep))))))"

definition strSub :: "int vmM" where
  "strSub = bnd (CheckString 1) (\<lambda>str. bnd (CheckUint256 2) (\<lambda>v.
     let start = luaU256Index2StringIndex str v True
     in bnd (position_arg 3 all_ones) (\<lambda>endV.
          let fin = luaU256Index2StringIndex str endV False
          in if start \<ge> int (length str) \<or> fin < start then push1 (LString '''')
             else bnd (go_slice str start fin) (\<lambda>s. push1 (LString s)))))"

section \<open>Searching\<close>

definition findPatternMatches :: "string \<Rightarrow> string \<Rightarrow> nat \<Rightarrow> int \<Rightarrow> captures list vmM" where
  "findPatternMatches pattern src offset limit =
     (case FindWithStep pattern src offset limit of
        None \<Rightarrow> (\<lambda>s. Inl VFuel)
      | Some (steps, r) \<Rightarrow>
          and_then (forM [0..<steps] (\<lambda>_. chargeGas 1))
            (case r of
               Inl (PmError pos msg) \<Rightarrow> RaiseError (pm_Error pos msg)
             | Inl (PmPanic p) \<Rightarrow> vpanic p
             | Inr ms \<Rightarrow> ret ms))"

definition capture_text :: "string \<Rightarrow> captures \<Rightarrow> nat \<Rightarrow> string vmM" where
  "capture_text str m i =
     (if i + 1 < length m then go_slice str (int (Capture m i)) (int (Capture m (i + 1))) else vpanic PIndexOutOfRange)"

definition push_capture :: "string \<Rightarrow> captures \<Rightarrow> nat \<Rightarrow> unit vmM" where
  "push_capture str m i =
     (if IsPosCapture m i then ls_Push (LNum (lu256FromInt (int (Capture m i))))
      else bnd (capture_text str m i) (\<lambda>t. ls_Push (LString t)))"

text \<open>The numbers of the captures behind the whole match.\<close>

definition capture_numbers :: "captures \<Rightarrow> nat list" where
  "capture_numbers m = map (\<lambda>i. 2 * i) [1..<(length m + 1) div 2]"

fun strings_Index :: "string \<Rightarrow> string \<Rightarrow> nat option" where
  "strings_Index s sub =
     (if strings_HasPrefix s sub then Some 0
      else case s of [] \<Rightarrow> None | c # s' \<Rightarrow> map_option Suc (strings_Index s' sub))"

declare strings_Index.simps [simp del]

definition find_plain :: "string \<Rightarrow> string \<Rightarrow> int \<Rightarrow> int vmM" where
  "find_plain str pattern init = bnd (go_slice str init (int (length str))) (\<lambda>rest.
     case strings_Index rest pattern of
       None \<Rightarrow> push1 LNil
     | Some pos \<Rightarrow>
         and_then (ls_Push (LNum (lu256FromInt (init + int pos + 1))))
           (and_then (ls_Push (LNum (lu256FromInt (init + int pos + int (length pattern))))) (ret 2)))"

definition find_pattern :: "string \<Rightarrow> string \<Rightarrow> int \<Rightarrow> int vmM" where
  "find_pattern str pattern init = bnd (findPatternMatches pattern str (nat init) 1) (\<lambda>mds.
     case mds of
       [] \<Rightarrow> push1 LNil
     | md # _ \<Rightarrow>
         and_then (ls_Push (LNum (lu256FromInt (int (Capture md 0) + 1))))
           (and_then (ls_Push (LNum (lu256FromInt (int (Capture md 1)))))
             (and_then (forM (capture_numbers md) (push_capture str md)) (ret (int (length md div 2) + 1)))))"

definition strFind :: "int vmM" where
  "strFind = bnd (CheckString 1) (\<lambda>str. bnd (CheckString 2) (\<lambda>pattern. bnd (position_arg 3 LUint256One) (\<lambda>initV.
     let init = luaU256Index2StringIndex str initV True
     in if pattern = ''''
        then (if init > int (length str) then push1 LNil
              else and_then (ls_Push (LNum (lu256FromInt (init + 1)))) (and_then (ls_Push (LNum (lu256FromInt init))) (ret 2)))
        else bnd GetTop (\<lambda>top. bnd (if top \<ge> 4 then ls_ToBool 4 else ret False) (\<lambda>plain.
               if plain then find_plain str pattern init else find_pattern str pattern init)))))"

definition strMatch :: "int vmM" where
  "strMatch = bnd (CheckString 1) (\<lambda>str. bnd (CheckString 2) (\<lambda>pattern. bnd (OptInt 3 1) (\<lambda>offset.
     let offset = (if offset < 0 then int (length str) + offset + 1 else offset);
         offset = max 0 (offset - 1)
     in bnd (findPatternMatches pattern str (nat offset) 1) (\<lambda>mds.
          case mds of
            [] \<Rightarrow> and_then (ls_Push LNil) (ret 0)
          | md # _ \<Rightarrow>
              if length md div 2 = 1 then bnd (capture_text str md 0) (\<lambda>t. push1 (LString t))
              else and_then (forM (capture_numbers md) (push_capture str md)) (ret (int (length md div 2) - 1))))))"

section \<open>Replacing\<close>

definition capturedString :: "captures \<Rightarrow> string \<Rightarrow> nat \<Rightarrow> string vmM" where
  "capturedString m str idx =
     and_then (whenM (idx > 2 \<and> idx \<ge> length m) (RaiseError ''invalid capture index''))
       (let idx = (if idx \<ge> length m \<and> idx = 2 then 0 else idx)
        in if IsPosCapture m idx then ret (itoa (int (Capture m idx))) else capture_text str m idx)"

text \<open>
  A replacement: the range of the match and the new text. The replacements are applied from
  left to right, \<open>offset\<close> is by how much the text has grown.
\<close>

type_synonym replaceInfo = "nat \<times> nat \<times> string"

fun strGsubDoReplace :: "int \<Rightarrow> string \<Rightarrow> replaceInfo list \<Rightarrow> string" where
  "strGsubDoReplace offset buf [] = buf"
| "strGsubDoReplace offset buf ((a, b, t) # infos) =
     (let i = nat (offset + int a); j = nat (offset + int b);
          buf' = take i buf @ t @ drop j buf
      in strGsubDoReplace (offset + int (length buf') - int (length buf)) buf' infos)"

text \<open>The replacement string; \<open>flag\<close> is that a percent sign came before.\<close>

fun expand_repl :: "captures \<Rightarrow> string \<Rightarrow> bool \<Rightarrow> string \<Rightarrow> string \<Rightarrow> string vmM" where
  "expand_repl m str flag buf [] = ret buf"
| "expand_repl m str flag buf (c # rest) =
     (if c = CHR 37
      then (case rest of
              [] \<Rightarrow> ret (buf @ (if flag then [CHR 37] else []) @ [c])
            | d # rest' \<Rightarrow> if d = CHR 37 then expand_repl m str False (buf @ [CHR 37]) rest' else expand_repl m str True buf rest)
      else if flag
      then (if is_dec_digit c
            then bnd (capturedString m str (2 * (of_char c - 48))) (\<lambda>t. expand_repl m str False (buf @ t) rest)
            else expand_repl m str False (buf @ [CHR 37, c]) rest)
      else expand_repl m str False (buf @ [c]) rest)"

definition strGsubStr :: "string \<Rightarrow> string \<Rightarrow> captures list \<Rightarrow> string vmM" where
  "strGsubStr str repl ms = bnd
     (foldM (\<lambda>m infos. bnd (expand_repl m str False '''' repl) (\<lambda>t. ret (infos @ [(Capture m 0, Capture m 1, t)]))) ms [])
     (\<lambda>infos. ret (strGsubDoReplace 0 str infos))"

text \<open>The replacement for a match, unless it is nil or false.\<close>

definition replace_value :: "captures \<Rightarrow> replaceInfo list \<Rightarrow> slot \<Rightarrow> replaceInfo list vmM" where
  "replace_value m infos v =
     (if slot_IsFalse v then ret infos
      else bnd (slot_AsString v) (\<lambda>t. ret (infos @ [(Capture m 0, Capture m 1, t)])))"

definition strGsubTable :: "callback \<Rightarrow> string \<Rightarrow> nat \<Rightarrow> captures list \<Rightarrow> string vmM" where
  "strGsubTable call str repl ms = bnd
     (foldM (\<lambda>m infos.
        let idx = (if length m > 2 then 2 else 0)
        in bnd (if IsPosCapture m idx then getField call (Some (LTable repl)) (Some (LNum (lu256FromInt (int (Capture m idx)))))
                else bnd (capture_text str m idx) (\<lambda>k. getFieldString call (Some (LTable repl)) k))
             (replace_value m infos)) ms [])
     (\<lambda>infos. ret (strGsubDoReplace 0 str infos))"

definition push_call_arg :: "string \<Rightarrow> captures \<Rightarrow> nat \<Rightarrow> unit vmM" where
  "push_call_arg str m i =
     (if IsPosCapture m i then ls_Push (LNum (lu256FromInt (int (Capture m i))))
      else bnd (capturedString m str i) (\<lambda>t. ls_Push (LString t)))"

definition strGsubFunc :: "callback \<Rightarrow> string \<Rightarrow> nat \<Rightarrow> captures list \<Rightarrow> string vmM" where
  "strGsubFunc call str repl ms = bnd
     (foldM (\<lambda>m infos. and_then (ls_Push (LFunction repl))
        (and_then (if length m > 2 then forM (capture_numbers m) (push_call_arg str m)
                   else bnd (capturedString m str 0) (\<lambda>t. ls_Push (LString t)))
        (and_then (call (if length m > 2 then int (length (capture_numbers m)) else 1) 1 (-1))
           (bnd pop_reg (replace_value m infos))))) ms [])
     (\<lambda>infos. ret (strGsubDoReplace 0 str infos))"

definition gsub_result :: "callback \<Rightarrow> string \<Rightarrow> slot \<Rightarrow> captures list \<Rightarrow> string vmM" where
  "gsub_result call str repl mds =
     (case repl of
        Some (LString r) \<Rightarrow> strGsubStr str r mds
      | Some (LTable t) \<Rightarrow> strGsubTable call str t mds
      | Some (LFunction f) \<Rightarrow> strGsubFunc call str f mds
      | _ \<Rightarrow> ret '''')"

definition strGsub :: "callback \<Rightarrow> int vmM" where
  "strGsub call = bnd (CheckString 1) (\<lambda>str. bnd (CheckString 2) (\<lambda>p.
     and_then (CheckTypes 3 [LTString, LTTable, LTFunction]) (bnd (CheckAny 3) (\<lambda>repl. bnd (OptInt 4 (-1)) (\<lambda>limit.
     bnd (findPatternMatches p str 0 limit) (\<lambda>mds.
       if mds = [] then and_then (ls_SetTop 1) (and_then (ls_Push (LNum LUint256Zero)) (ret 2))
       else bnd (gsub_result call str repl mds) (\<lambda>out.
         and_then (whenM (int (length out) > maxStringResultBytes) (RaiseError (''string.gsub: output too large ('' @
              itoa (int (length out)) @ '' bytes, limit '' @ itoa maxStringResultBytes @ '')'')))
           (and_then (ls_Push (LString out)) (and_then (ls_Push (LNum (lu256FromInt (int (length mds))))) (ret 2)))))))))) "

section \<open>Formatting\<close>

fun hasUnsupportedFloatFormatVerb :: "bool \<Rightarrow> string \<Rightarrow> bool" where
  "hasUnsupportedFloatFormatVerb inVerb [] = False"
| "hasUnsupportedFloatFormatVerb inVerb (ch # s) =
     (if \<not> inVerb
      then (if ch = CHR 37
            then (case s of
                    [] \<Rightarrow> False
                  | d # s' \<Rightarrow> if d = CHR 37 then hasUnsupportedFloatFormatVerb False s' else hasUnsupportedFloatFormatVerb True s)
            else hasUnsupportedFloatFormatVerb False s)
      else if ch \<in> set ''eEfFgG'' then True
      else if ch \<in> set ''diouxXcqs'' then hasUnsupportedFloatFormatVerb False s
      else hasUnsupportedFloatFormatVerb True s)"

definition is_control :: "char \<Rightarrow> bool" where
  "is_control c \<longleftrightarrow> (of_char c :: nat) < 0x20 \<or> (of_char c :: nat) = 0x7f"

definition is_escaped :: "char \<Rightarrow> bool" where
  "is_escaped c \<longleftrightarrow> c = CHR 34 \<or> c = CHR 92 \<or> c = CHR 10"

definition digit_next :: "string \<Rightarrow> bool" where
  "digit_next s \<longleftrightarrow> (case s of [] \<Rightarrow> False | d # _ \<Rightarrow> is_dec_digit d)"

definition fmt_03d :: "nat \<Rightarrow> string" where
  "fmt_03d n = replicate (3 - length (decimal n)) (CHR ''0'') @ decimal n"

fun quote_body :: "string \<Rightarrow> string" where
  "quote_body [] = []"
| "quote_body (c # s) =
     (if is_escaped c then [CHR 92, c]
      else if is_control c then CHR 92 # (if digit_next s then fmt_03d (of_char c) else decimal (of_char c))
      else [c]) @ quote_body s"

definition luaQuoteString :: "string \<Rightarrow> string" where
  "luaQuoteString s = CHR 34 # quote_body s @ [CHR 34]"

fun quoted_body_len :: "string \<Rightarrow> int" where
  "quoted_body_len [] = 0"
| "quoted_body_len (c # s) =
     (if is_escaped c then 2
      else if is_control c
      then (if digit_next s then 4 else if (of_char c :: nat) \<ge> 100 then 4 else if (of_char c :: nat) \<ge> 10 then 3 else 2)
      else 1) + quoted_body_len s"

definition luaQuotedLen :: "string \<Rightarrow> int" where
  "luaQuotedLen s = 2 + quoted_body_len s"

definition fmtGetUint256 :: "slot \<Rightarrow> int \<Rightarrow> LUint256 vmM" where
  "fmtGetUint256 arg argN =
     (let bad = bnd (type_of arg) (\<lambda>t. ArgError argN (''number expected, got '' @ LValueType_String t))
      in case arg of
           Some (LNum v) \<Rightarrow> ret v
         | Some (LString t) \<Rightarrow> (case parseUint256 t of Inr v \<Rightarrow> ret v | Inl _ \<Rightarrow> bad)
         | _ \<Rightarrow> bad)"

end
