(* ===== verification/Library.thy ===== *)
theory Library
  imports StringLib Interpreter
begin

text \<open>
  The host functions of the language together, as the argument \<open>G\<close> of the interpreter, and the
  proof that each of them but \<^verbatim>\<open>pcall\<close> and \<^verbatim>\<open>xpcall\<close> keeps what the interpreter asks of a host
  function: it returns, lets its callbacks run, and leaves the call stack alone. So a metered
  program that uses these functions always ends.

  \<^verbatim>\<open>pcall\<close> and \<^verbatim>\<open>xpcall\<close> go on from the state an error left, and that state need not be one the
  interpreter may start in: a charge that exceeds the counter leaves it at its largest value
  (\<open>caught_charge_resets_gas\<close>), and the next instruction makes it wrap to 0.

  Not in the list is what is not modelled: \<^verbatim>\<open>table.sort\<close>, \<^verbatim>\<open>string.format\<close>, \<^verbatim>\<open>string.gmatch\<close>.
\<close>

section \<open>What host functions leave alone\<close>

lemma keeps_any_frame [keeping]: "(\<And>c cf. keeps K fo (f c cf)) \<Longrightarrow> keeps K fo (with_frame f)"
  unfolding with_frame_def by (intro keeping)

lemma keeps_foldM [keeping]: "(\<And>i x. i \<in> set is \<Longrightarrow> keeps K fo (f i x)) \<Longrightarrow> keeps K fo (foldM f is x)"
  by (induction "is" arbitrary: x) (auto intro: keeping)

lemma keeps_host_value [keeping]:
  "(\<And>m. keeps K fo (f m)) \<Longrightarrow> keeps K fo g \<Longrightarrow> keeps K fo (case v of MappingValue m \<Rightarrow> f m | OtherValue \<Rightarrow> g)"
  by (cases v) auto

lemma keeps_list [keeping]:
  "keeps K fo f \<Longrightarrow> (\<And>x xs. keeps K fo (g x xs)) \<Longrightarrow> keeps K fo (case l of [] \<Rightarrow> f | x # xs \<Rightarrow> g x xs)"
  by (cases l) auto

lemma keeps_pm_panic [keeping]:
  "(\<And>p m. keeps K fo (f p m)) \<Longrightarrow> (\<And>p. keeps K fo (g p)) \<Longrightarrow> keeps K fo (case e of PmError p m \<Rightarrow> f p m | PmPanic p \<Rightarrow> g p)"
  by (cases e) auto

locale host_frame = calling_frame +
  assumes K_userdata: "K s \<Longrightarrow> K (s\<lparr>vuserdata := us\<rparr>)"
    and K_builtins: "K s \<Longrightarrow> K (s\<lparr>builtinMts := mts\<rparr>)"
begin

lemma keeps_frame_registers [keeping]:
  "keeps K fo GetTop" "keeps K fo frame_upvalues" "keeps K fo (ls_Get i)" "keeps K fo (ls_Push v)" "keeps K fo (ls_SetTop i)"
  "keeps K fo (move_reg a b)"
  unfolding GetTop_def frame_upvalues_def ls_Get_def ls_Push_def ls_SetTop_def move_reg_def Let_def by (intro keeping)+

lemma keeps_Pop [keeping]: "keeps K fo (ls_Pop n)"
  by (induction n) (auto intro!: keeping)

lemma keeps_names [keeping]: "keeps K fo (frameFuncName c)" "keeps K fo rawFrameFuncName"
  unfolding rawFrameFuncName_def frameFuncName_def unnamed_def call_name_def function_place_def
  by (intro keeping)+

lemma keeps_argument_errors [keeping]:
  "keeps K fo (ArgError n m)" "keeps K fo (TypeError n t)" "keeps K fo throw_value" "keeps K fo (ls_Error v l)"
  unfolding ArgError_def TypeError_def ls_Error_def throw_value_def by (intro keeping | simp add: keeps_def)+

lemma keeps_conversions [keeping]: "keeps K fo (ls_ToBool n)" "keeps K fo (ls_ToString n)"
  unfolding ls_ToBool_def ls_ToString_def by (intro keeping)+

lemma keeps_checks [keeping]:
  "keeps K fo (CheckAny n)" "keeps K fo (checked_int n r)" "keeps K fo (CheckInt n)" "keeps K fo (CheckUint256 n)"
  "keeps K fo (CheckString n)" "keeps K fo (CheckTable n)" "keeps K fo (CheckUserData n)" "keeps K fo (CheckTypes n ts)"
  "keeps K fo (OptInt n d)" "keeps K fo (OptString n t)"
  unfolding CheckAny_def checked_int_def CheckInt_def CheckUint256_def CheckString_def CheckTable_def CheckUserData_def
    CheckTypes_def OptInt_def OptString_def opt_arg_def checked_int_def
  by (intro keeping)+

lemma keeps_userdata [keeping]:
  "keeps K fo (new_userdata ud)" "keeps K fo (put_userdata u ud)" "keeps K fo (the_userdata u)" "keeps K fo NewUserData"
  unfolding new_userdata_def put_userdata_def the_userdata_def NewUserData_def new_userdata_def
  by (intro keeping keeps_upd K_userdata | assumption)+

lemma keeps_SetMetatable [keeping]: "keeps K fo (SetMetatable v m)"
  unfolding SetMetatable_def by (intro keeping keeps_upd K_builtins)

lemma keeps_tables [keeping]:
  "keeps K fo (ls_RawGetInt t i)" "keeps K fo (ls_Next t k)" "keeps K fo (table_length t)" "keeps K fo (GetMetatable v)"
  "keeps K fo (ToStringMeta call v)" "keeps K fo (GetTypeMetatable call s)"
  unfolding ls_RawGetInt_def ls_Next_def table_length_def GetMetatable_def metatable_def metatable_raw_def ToStringMeta_def
    GetTypeMetatable_def
  by (intro keeping)+

section \<open>The built-in functions\<close>

lemma keeps_results [keeping]:
  "keeps K fo (push1 v)" "keeps K fo (push_number u)" "keeps K fo (push_int n)" "keeps K fo (push_hex b)"
  "keeps K fo (go_slice t i j)" "keeps K fo (raise_text m)" "keeps K fo (chargeChunkedWorkGas w k2)" "keeps K fo panicOverflow"
  unfolding push1_def push_number_def push_int_def push_hex_def push1_def go_slice_def raise_text_def chargeChunkedWorkGas_def
    panicOverflow_def
  by (intro keeping)+

lemma keeps_width [keeping]: "keeps K fo (signedBitWidth i)"
  unfolding signedBitWidth_def by (intro keeping)

lemma keeps_signed_args [keeping]: "(\<And>a b n. keeps K fo (f a b n)) \<Longrightarrow> keeps K fo (signed_args f)"
  unfolding signed_args_def by (rule keeps_bnd, intro keeping)+

lemma keeps_signed_unary [keeping]: "(\<And>a n. keeps K fo (f a n)) \<Longrightarrow> keeps K fo (signed_unary f)"
  unfolding signed_unary_def by (rule keeps_bnd, intro keeping)+

lemma keeps_checked_args [keeping]: "(\<And>a b n. keeps K fo (f a b n)) \<Longrightarrow> keeps K fo (checked_args f)"
  unfolding checked_args_def by (rule keeps_bnd, intro keeping)+

lemma keeps_signed: "keeps K fo cryptoSignedAdd" "keeps K fo cryptoSignedSub" "keeps K fo cryptoSignedMul"
  "keeps K fo cryptoSignedDiv" "keeps K fo cryptoSignedMod" "keeps K fo cryptoSignedNeg" "keeps K fo cryptoSignedLt"
  "keeps K fo cryptoSignedGt" "keeps K fo cryptoSignedLe" "keeps K fo cryptoSignedGe" "keeps K fo cryptoSignedTrunc"
  "keeps K fo cryptoSignedFromU256" "keeps K fo cryptoSignedToU256" "keeps K fo cryptoSignedSar"
  unfolding cryptoSignedAdd_def cryptoSignedSub_def cryptoSignedMul_def cryptoSignedDiv_def cryptoSignedMod_def cryptoSignedNeg_def
    cryptoSignedLt_def cryptoSignedGt_def cryptoSignedLe_def cryptoSignedGe_def cryptoSignedTrunc_def cryptoSignedFromU256_def
    cryptoSignedToU256_def cryptoSignedSar_def signed_compare_def
  by (intro keeping)+

lemma keeps_checked: "keeps K fo cryptoUintCheckedAdd" "keeps K fo cryptoUintCheckedSub" "keeps K fo cryptoUintCheckedMul"
  "keeps K fo cryptoSignedCheckedAdd" "keeps K fo cryptoSignedCheckedSub" "keeps K fo cryptoSignedCheckedMul"
  unfolding cryptoUintCheckedAdd_def cryptoUintCheckedSub_def cryptoUintCheckedMul_def cryptoSignedCheckedAdd_def
    cryptoSignedCheckedSub_def cryptoSignedCheckedMul_def signed_overflow_check_def
  by (intro keeping)+

lemma keeps_hashes: "keeps K fo (cryptoKeccak256 h)" "keeps K fo cryptoSHA256" "keeps K fo (cryptoRIPEMD160 h)" "keeps K fo cryptoGasLeft"
  unfolding cryptoKeccak256_def cryptoSHA256_def cryptoRIPEMD160_def cryptoGasLeft_def hash_input_def
  by (intro keeping)+

lemma keeps_encoding: "keeps K fo cryptoTolEnc" "keeps K fo cryptoUint256AddHex" "keeps K fo cryptoABIDecodeParams"
  unfolding cryptoTolEnc_def cryptoUint256AddHex_def add_hex_offset_def cryptoABIDecodeParams_def call_data_def decode_param_def
  by (intro keeping)+

lemma keeps_bytes: "keeps K fo cryptoBytesConcat" "keeps K fo cryptoStrConcat" "keeps K fo cryptoBytesLength"
  "keeps K fo cryptoStrLength" "keeps K fo cryptoDynLength" "keeps K fo cryptoBytesSlice" "keeps K fo cryptoBytesIndex"
  unfolding cryptoBytesConcat_def cryptoStrConcat_def join_args_def cryptoBytesLength_def cryptoStrLength_def cryptoDynLength_def
    cryptoBytesSlice_def cryptoBytesIndex_def
  by (intro keeping)+

section \<open>Numbers, tables and mappings\<close>

lemma keeps_math: "keeps K fo mathAbs" "keeps K fo mathCeil" "keeps K fo mathFloor" "keeps K fo mathFmod" "keeps K fo mathMod"
  "keeps K fo mathPow" "keeps K fo mathMax" "keeps K fo mathMin"
  unfolding mathAbs_def mathCeil_def mathFloor_def mathFmod_def mathMod_def mathPow_def mathMax_def mathMin_def
    push_arg_number_def number_mod_def extremum_def tableExtremum_def table_number_def
  by (intro keeping)+

lemma keeps_table: "keeps K fo tableGetN" "keeps K fo tableMaxN" "keeps K fo tableRemove" "keeps K fo (tableConcat call)"
  "keeps K fo tableInsert"
  unfolding tableGetN_def tableMaxN_def tableRemove_def remove_at_def tableConcat_def concat_value_def tableInsert_def
  by (intro keeping)+

lemma keeps_mapping: "keeps K fo (mappingNew call)" "keeps K fo mappingGet" "keeps K fo mappingSet" "keeps K fo mappingDelete"
  "keeps K fo mappingHas" "keeps K fo mappingKeyType" "keeps K fo mappingValType" "keeps K fo mappingMetaIndex"
  "keeps K fo mappingMetaNewIndex" "keeps K fo mappingMetaToString"
  unfolding mappingNew_def kind_arg_def mappingGet_def mappingSet_def mappingDelete_def mappingHas_def mappingKeyType_def
    mappingValType_def mappingMetaIndex_def mappingMetaNewIndex_def mappingMetaToString_def mapping_read_def mapping_write_def
    with_key_def normal_arg_def checkMapping_def put_mapping_def
  by (intro keeping)+

section \<open>The base library\<close>

lemma keeps_next [keeping]: "keeps K fo (push_pair k v)" "keeps K fo (checked_next at w)" "keeps K fo (push_iterator f)"
  unfolding push_pair_def checked_next_def push_iterator_def by (intro keeping)+

lemma keeps_base: "keeps K fo baseAssert" "keeps K fo baseError" "keeps K fo baseGetMetatable" "keeps K fo ipairsaux"
  "keeps K fo baseIpairs" "keeps K fo baseNext" "keeps K fo pairsaux" "keeps K fo basePairs" "keeps K fo baseRawEqual"
  "keeps K fo baseRawGet" "keeps K fo baseRawSet" "keeps K fo baseSelect" "keeps K fo baseSetMetatable" "keeps K fo baseToNumber"
  "keeps K fo baseAgent" "keeps K fo (baseToString call)" "keeps K fo baseType" "keeps K fo baseUnpack"
  unfolding baseAssert_def baseError_def baseGetMetatable_def ipairsaux_def baseIpairs_def baseNext_def pairsaux_def basePairs_def
    baseRawEqual_def baseRawGet_def baseRawSet_def baseSelect_def select_index_def baseSetMetatable_def metatable_def metatable_raw_def
    baseToNumber_def number_or_nil_def baseAgent_def baseToString_def push_slot1_def baseType_def baseUnpack_def
  by (intro keeping)+

section \<open>Strings\<close>

lemma keeps_find [keeping]: "keeps K fo (findPatternMatches p s i l)"
proof -
  obtain n r where "FindWithStep p s i l = Some (n, r)" using FindWithStep_total by blast
  then show ?thesis unfolding findPatternMatches_def by simp (intro keeping)
qed

lemma keeps_captures [keeping]:
  "keeps K fo (push_capture s m i)" "keeps K fo (capturedString m s i)" "keeps K fo (capture_text s m i)"
  "keeps K fo (push_call_arg s m i)" "keeps K fo (replace_value m ri v)"
  unfolding push_capture_def capturedString_def capture_text_def push_call_arg_def replace_value_def capturedString_def capture_text_def
  by (intro keeping)+

lemma keeps_expand [keeping]: "keeps K fo (expand_repl m str flag buf r)"
proof (induction m str flag buf r rule: expand_repl.induct)
  case (2 m str flag buf c rest)
  then show ?case
    by (subst expand_repl.simps(2), cases rest) (auto simp del: expand_repl.simps intro!: keeping)
qed (simp add: keeps_ret)

lemma keeps_string: "keeps K fo strByte" "keeps K fo strChar" "keeps K fo strLen" "keeps K fo strLower" "keeps K fo strUpper"
  "keeps K fo strReverse" "keeps K fo strRep" "keeps K fo strSub" "keeps K fo strFind" "keeps K fo strMatch" "keeps K fo (strGsub call)"
  unfolding strByte_def byte_positions_def strChar_def strLen_def strLower_def strUpper_def strReverse_def push_changed_def
    strRep_def strings_Repeat_def strSub_def position_arg_def strFind_def find_plain_def find_pattern_def strMatch_def
    strGsub_def gsub_result_def strGsubStr_def strGsubTable_def strGsubFunc_def
  by (intro keeping)+

end

section \<open>The library as it is registered\<close>

type_synonym library_function = "callback \<Rightarrow> int vmM"

text \<open>Functions that call nothing back.\<close>

definition plain :: "(string \<times> int vmM) list \<Rightarrow> (string \<times> library_function) list" where
  "plain fs = map (\<lambda>(n, f). (n, \<lambda>call. f)) fs"

text \<open>\<^verbatim>\<open>openCrypto\<close>\<close>

definition cryptoFuncs :: "(string \<Rightarrow> string) \<Rightarrow> (string \<Rightarrow> string) \<Rightarrow> (string \<times> library_function) list" where
  "cryptoFuncs keccak ripemd = plain
     [(''keccak256'', cryptoKeccak256 keccak), (''sha256'', cryptoSHA256), (''ripemd160'', cryptoRIPEMD160 ripemd),
      (''gas_left'', cryptoGasLeft), (''__tol_enc'', cryptoTolEnc), (''uint256_add_hex'', cryptoUint256AddHex),
      (''__tol_abi_decode_params'', cryptoABIDecodeParams),
      (''__tol_bytes_concat'', cryptoBytesConcat), (''__tol_str_concat'', cryptoStrConcat),
      (''__tol_bytes_length'', cryptoBytesLength), (''__tol_str_length'', cryptoStrLength),
      (''__tol_dyn_length'', cryptoDynLength), (''__tol_bytes_slice'', cryptoBytesSlice),
      (''__tol_uint_checked_add'', cryptoUintCheckedAdd), (''__tol_uint_checked_sub'', cryptoUintCheckedSub),
      (''__tol_uint_checked_mul'', cryptoUintCheckedMul),
      (''__tol_signed_checked_add'', cryptoSignedCheckedAdd), (''__tol_signed_checked_sub'', cryptoSignedCheckedSub),
      (''__tol_signed_checked_mul'', cryptoSignedCheckedMul),
      (''__tol_bytes_index'', cryptoBytesIndex),
      (''__tol_signed_add'', cryptoSignedAdd), (''__tol_signed_sub'', cryptoSignedSub), (''__tol_signed_mul'', cryptoSignedMul),
      (''__tol_signed_div'', cryptoSignedDiv), (''__tol_signed_mod'', cryptoSignedMod), (''__tol_signed_neg'', cryptoSignedNeg),
      (''__tol_signed_lt'', cryptoSignedLt), (''__tol_signed_gt'', cryptoSignedGt), (''__tol_signed_le'', cryptoSignedLe),
      (''__tol_signed_ge'', cryptoSignedGe), (''__tol_signed_trunc'', cryptoSignedTrunc),
      (''__tol_signed_from_u256'', cryptoSignedFromU256), (''__tol_signed_to_u256'', cryptoSignedToU256),
      (''__tol_signed_sar'', cryptoSignedSar)]"

definition mathFuncs :: "(string \<times> library_function) list" where
  "mathFuncs = plain [(''abs'', mathAbs), (''ceil'', mathCeil), (''floor'', mathFloor), (''fmod'', mathFmod), (''max'', mathMax),
     (''min'', mathMin), (''mod'', mathMod), (''pow'', mathPow)]"

text \<open>Without \<^verbatim>\<open>sort\<close>.\<close>

definition tableFuncs :: "(string \<times> library_function) list" where
  "tableFuncs = plain [(''getn'', tableGetN), (''insert'', tableInsert), (''maxn'', tableMaxN), (''remove'', tableRemove)] @
     [(''concat'', tableConcat)]"

text \<open>The functions of \<^verbatim>\<open>mapping\<close> and of its metatable.\<close>

definition mappingFuncs :: "(string \<times> library_function) list" where
  "mappingFuncs = (''new'', mappingNew) # plain
     [(''get'', mappingGet), (''set'', mappingSet), (''delete'', mappingDelete), (''has'', mappingHas),
      (''key_type'', mappingKeyType), (''val_type'', mappingValType)]"

definition mappingMetaFuncs :: "(string \<times> library_function) list" where
  "mappingMetaFuncs = plain [(''__index'', mappingMetaIndex), (''__newindex'', mappingMetaNewIndex), (''__tostring'', mappingMetaToString)]"

text \<open>With the functions that \<^verbatim>\<open>OpenBase\<close> adds.\<close>

definition baseFuncs :: "(string \<times> library_function) list" where
  "baseFuncs = plain
     [(''agent'', baseAgent), (''assert'', baseAssert), (''error'', baseError), (''getmetatable'', baseGetMetatable),
      (''next'', baseNext), (''rawequal'', baseRawEqual), (''rawget'', baseRawGet), (''rawset'', baseRawSet),
      (''select'', baseSelect), (''setmetatable'', baseSetMetatable), (''tonumber'', baseToNumber), (''type'', baseType),
      (''unpack'', baseUnpack), (''ipairs'', baseIpairs), (''ipairsaux'', ipairsaux), (''pairs'', basePairs), (''pairsaux'', pairsaux)] @
     [(''pcall'', basePCall), (''tostring'', baseToString), (''xpcall'', baseXPCall)]"

text \<open>Without \<^verbatim>\<open>format\<close>.\<close>

definition strFuncs :: "(string \<times> library_function) list" where
  "strFuncs = plain
     [(''byte'', strByte), (''char'', strChar), (''find'', strFind), (''len'', strLen), (''lower'', strLower), (''match'', strMatch),
      (''rep'', strRep), (''reverse'', strReverse), (''sub'', strSub), (''upper'', strUpper)] @ [(''gsub'', strGsub)]"

definition library_functions :: "(string \<Rightarrow> string) \<Rightarrow> (string \<Rightarrow> string) \<Rightarrow> (string \<times> library_function) list" where
  "library_functions keccak ripemd =
     baseFuncs @ mappingFuncs @ mappingMetaFuncs @ cryptoFuncs keccak ripemd @ tableFuncs @ strFuncs @ mathFuncs"

text \<open>A table of host functions as the interpreter's argument: they are numbered in its order.\<close>

definition host_table :: "(string \<times> library_function) list \<Rightarrow> nat \<Rightarrow> callback \<Rightarrow> int vmM" where
  "host_table fs i call = (if i < length fs then snd (fs ! i) call else (\<lambda>s. Inl VUnmodelled))"

definition library :: "(string \<Rightarrow> string) \<Rightarrow> (string \<Rightarrow> string) \<Rightarrow> nat \<Rightarrow> callback \<Rightarrow> int vmM" where
  "library keccak ripemd = host_table (library_functions keccak ripemd)"

text \<open>The functions that go on after an error, and the library without them.\<close>

definition resuming :: "string set" where
  "resuming = {''pcall'', ''xpcall''}"

definition unprotected_functions :: "(string \<Rightarrow> string) \<Rightarrow> (string \<Rightarrow> string) \<Rightarrow> (string \<times> library_function) list" where
  "unprotected_functions keccak ripemd = filter (\<lambda>(n, f). n \<notin> resuming) (library_functions keccak ripemd)"

section \<open>The library leaves the call stack alone\<close>

text \<open>A state in which a host function starts: whatever it calls back runs.\<close>

definition hosting :: "bool \<Rightarrow> callback \<Rightarrow> vm \<Rightarrow> bool" where
  "hosting fo call s \<longleftrightarrow> ready s \<and> gas_ok s \<and> (\<forall>a b r s'. within s (nat (fsp (cstack s))) s' \<longrightarrow> runs fo (call a b r) s')"

lemma within_hosts [simp]:
  "within s0 d (s\<lparr>vuserdata := us\<rparr>) = within s0 d s" "within s0 d (s\<lparr>builtinMts := mts\<rparr>) = within s0 d s"
  by (auto simp: within_def drift_def funcs_kept_def parents_below_def gas_ok_def)

interpretation hosted: host_frame "\<lambda>s. hosting fo call s0 \<and> within s0 (nat (fsp (cstack s0))) s" fo "nat (fsp (cstack s0))" call
  for fo call s0
proof unfold_locales
  show "keeps (\<lambda>s. hosting fo call s0 \<and> within s0 (nat (fsp (cstack s0))) s) fo (call a b r)" for a b r
  proof -
    have "spec fo (call a b r) s (\<lambda>x. within s0 (nat (fsp (cstack s0))))"
      if h: "hosting fo call s0" and w: "within s0 (nat (fsp (cstack s0))) s" for s
    proof -
      have "runs fo (call a b r) s" using h w by (simp add: hosting_def)
      moreover have "fsp (cstack s) = fsp (cstack s0)" using w by (simp add: within_def)
      ultimately have "spec fo (call a b r) s (\<lambda>x. within s (nat (fsp (cstack s0))))" by (simp add: runs_def)
      then show ?thesis by (rule spec_mono) (rule within_trans [OF w])
    qed
    then show ?thesis by (cases "hosting fo call s0") (simp_all add: keeps_def spec_def)
  qed
qed (use frame.K_reg frame.K_tables frame.K_cache frame.K_upvals frame.K_funcs frame.K_gas frame.K_frame in auto)

lemmas hosted_keeps = hosted.keeps_signed hosted.keeps_checked hosted.keeps_hashes hosted.keeps_encoding hosted.keeps_bytes
  hosted.keeps_math hosted.keeps_table hosted.keeps_mapping hosted.keeps_base hosted.keeps_string

lemma library_keeps:
  assumes "f \<in> set (library_functions keccak ripemd)" "fst f \<notin> resuming"
  shows "keeps (\<lambda>s. hosting fo call s0 \<and> within s0 (nat (fsp (cstack s0))) s) fo (snd f call)"
proof -
  have "list_all (\<lambda>f. fst f \<notin> resuming \<longrightarrow> keeps (\<lambda>s. hosting fo call s0 \<and> within s0 (nat (fsp (cstack s0))) s) fo (snd f call))
      (library_functions keccak ripemd)"
    by (simp add: library_functions_def baseFuncs_def mappingFuncs_def mappingMetaFuncs_def cryptoFuncs_def tableFuncs_def
        strFuncs_def mathFuncs_def plain_def hosted_keeps resuming_def)
  then show ?thesis using assms by (auto simp: list_all_iff)
qed

text \<open>What keeps the frame of its call is a host function the interpreter can rely on.\<close>

lemma hosting_runs:
  assumes "hosting fo call s" "keeps (\<lambda>s'. hosting fo call s \<and> within s (nat (fsp (cstack s))) s') fo m"
  shows "runs fo m s"
proof -
  have "within s (nat (fsp (cstack s))) s"
    using assms(1) by (intro within_refl) (auto simp: hosting_def ready_def stack_ok_def)
  then show ?thesis using assms by (fastforce simp: keeps_def runs_def spec_def split: sum.splits)
qed

lemma unprotected_host_ok: "host_ok (host_table (unprotected_functions keccak ripemd))"
proof -
  have "runs fo (host_table (unprotected_functions keccak ripemd) i call) s" if "ready s" "gas_ok s"
    and c: "\<forall>a b r s'. within s (nat (fsp (cstack s))) s' \<longrightarrow> runs fo (call a b r) s'" for fo i call s
  proof (rule hosting_runs)
    show "hosting fo call s" using that by (simp add: hosting_def)
    have "f \<in> set (library_functions keccak ripemd) \<and> fst f \<notin> resuming"
      if "f \<in> set (unprotected_functions keccak ripemd)" for f
      using that by (auto simp: unprotected_functions_def)
    then show "keeps (\<lambda>s'. hosting fo call s \<and> within s (nat (fsp (cstack s))) s') fo
        (host_table (unprotected_functions keccak ripemd) i call)"
      unfolding host_table_def by (intro keeping) (use library_keeps nth_mem in blast)
  qed
  then show ?thesis by (simp add: host_ok_def)
qed

text \<open>A metered program that uses the library without \<^verbatim>\<open>pcall\<close> and \<^verbatim>\<open>xpcall\<close> ends within the fuel its
  gas pays for: a result, a Lua error or a Go panic, never an unending run.\<close>

theorem unprotected_programs_end:
  assumes "ready s" "gasLimit s \<noteq> 0" "gasLimit s < -1" "gasUsed s < -1" "call_need s \<le> n"
  shows "callR (mainLoop (host_table (unprotected_functions keccak ripemd)) n) nargs nret rbase s \<noteq> Inl VFuel"
proof -
  have "runs True (callR (mainLoop (host_table (unprotected_functions keccak ripemd)) n) nargs nret rbase) s"
    using calls_runs [OF unprotected_host_ok, of True n keccak ripemd] assms by (simp add: calls_run_def callable_with_def gas_ok_def)
  then show ?thesis by (auto simp: runs_def spec_def split: sum.splits)
qed

text \<open>A charge beyond the counter that \<^verbatim>\<open>xpcall\<close> catches gives the program its gas back: the error leaves
  the counter at its largest value, and the next instruction, which adds 1, makes it 0.\<close>

theorem caught_charge_resets_gas:
  assumes "hasErrorFunc s" "gasLimit s \<noteq> 0" "gasLimit s < -1" "not 0 - cost < gasUsed s" "cost \<noteq> 0"
    and "protected (chargeGas cost) s = Inr (r, s')"
  shows "gasUsed s' = -1 \<and> gasUsed s' + 1 = 0"
proof -
  let ?s = "s\<lparr>gasUsed := - 1\<rparr>"
  have "chargeGas cost s = RaiseError ''lua: gas limit exceeded'' ?s"
    using assms by (simp add: chargeGas_def bnd_def rd_def and_then_def upd_def whenM_def)
  then show ?thesis
    using assms(1,6)
    by (auto simp: RaiseError_def raiseError_def throw_message_def protected_def bnd_def rd_def and_then_def ret_def whenM_def Let_def
        split: sum.splits vm_exn.splits)
qed

text \<open>C5: every function of the library but \<^verbatim>\<open>pcall\<close> and \<^verbatim>\<open>xpcall\<close>, started on a consistent call stack with a
  callback that runs, does not run out of fuel (\<open>fo\<close>), and when it returns, its frame is the current one
  again, the frames below are as they were, the host functions are kept and the gas counter has not gone
  down. The two that resume after an error are excluded: see \<open>caught_charge_resets_gas\<close>.\<close>

theorem library_functions_run:
  assumes "(name, f) \<in> set (library_functions keccak ripemd)" "name \<noteq> ''pcall''" "name \<noteq> ''xpcall''"
    and "ready s" "gas_ok s" "\<forall>a b r s'. within s (nat (fsp (cstack s))) s' \<longrightarrow> runs fo (call a b r) s'"
  shows "runs fo (f call) s"
proof -
  have h: "hosting fo call s" using assms(4-6) by (simp add: hosting_def)
  show ?thesis
    using hosting_runs [OF h] library_keeps [OF assms(1), of fo call s] assms(2,3) by (simp add: resuming_def)
qed

theorem library_functions_run_witness:
  "runs True (tableConcat (callR (mainLoop (host_table (unprotected_functions id id)) 131))) (demo_state 20 [0x6401fffe])"
proof (rule library_functions_run)
  let ?call = "callR (mainLoop (host_table (unprotected_functions id id)) 131)"
  let ?s = "demo_state 20 [0x6401fffe]"
  show "(''concat'', tableConcat) \<in> set (library_functions id id)"
    by (simp add: library_functions_def tableFuncs_def)
  have "call_need ?s \<le> 131"
    by (simp add: call_need_def gas_left_def demo_gas frames_cap_def demo_state_def newLState_def SetGasLimit_def newFixedCallFrameStack_def)
  then have c: "callable_with True 131 ?s" using demo_ready by (simp add: callable_with_def gas_ok_def demo_gas word_gt_0)
  then show "ready ?s" "gas_ok ?s" by (simp_all add: callable_with_def)
  show "\<forall>a b r s'. within ?s (nat (fsp (cstack ?s))) s' \<longrightarrow> runs True (?call a b r) s'"
    using calls_runs [OF unprotected_host_ok, of True 131 id id] callable_within [OF c] by (simp add: calls_run_def)
qed simp_all

end
