(* ===== verification/KeyFacts.thy ===== *)
theory KeyFacts
  imports CryptoLib
begin

text \<open>
  Storage keys and call data: a number is encoded as 64 hexadecimal digits, which a slot of
  call data, and the key encoding itself, read as the same number.
\<close>

lemma hex_lower_values:
  assumes "d < 16"
  shows "digit_of (hex_lower d) = Some d" "hex_value (hex_lower d) = Some d" "is_lower_hex (hex_lower d)"
proof -
  have "\<forall>d \<in> {..< 16::nat}. digit_of (hex_lower d) = Some d \<and> hex_value (hex_lower d) = Some d \<and> is_lower_hex (hex_lower d)"
    by (simp add: lessThan_Suc numeral_eq_Suc) (simp add: digit_of_def hex_value_def hex_lower_def char_between_def is_lower_hex_def is_dec_digit_def)
  then show "digit_of (hex_lower d) = Some d" "hex_value (hex_lower d) = Some d" "is_lower_hex (hex_lower d)" using assms by auto
qed

lemma char_digits: "(of_char c :: nat) div 16 < 16" "(of_char c :: nat) mod 16 < 16"
  by (simp_all add: less_mult_imp_div_less)

lemma hex_Encode_Cons: "hex_EncodeToString (c # bs) = hex_lower (of_char c div 16) # hex_lower (of_char c mod 16) # hex_EncodeToString bs"
  by (simp add: hex_EncodeToString_def fmt_02x_def)

lemma hex_round [simp]: "hex_DecodeString (hex_EncodeToString s) = Inr s"
proof (induction s)
  case (Cons c s)
  then show ?case by (simp add: hex_Encode_Cons hex_lower_values char_digits mult.commute [of _ 16])
qed (simp add: hex_EncodeToString_def)

lemma length_hex [simp]: "length (hex_EncodeToString s) = 2 * length s"
  by (induction s) (simp_all add: hex_EncodeToString_def fmt_02x_def)

lemma hex_append: "hex_EncodeToString (s @ t) = hex_EncodeToString s @ hex_EncodeToString t"
  by (simp add: hex_EncodeToString_def)

lemma hex_chars: "list_all is_lower_hex (hex_EncodeToString s)"
proof (induction s)
  case (Cons c s)
  then show ?case by (simp add: hex_Encode_Cons hex_lower_values char_digits)
qed (simp add: hex_EncodeToString_def)

lemma hex_value_of_bytes:
  "digits_value 16 acc (hex_EncodeToString (Codecs.string_of bs)) = Some (acc * 256 ^ length bs + wval (rev bs))"
proof (induction bs arbitrary: acc)
  case (Cons b bs)
  have n: "unat b < 256" using unsigned_less [of b] by simp
  then have "of_char (char_of (unat b) :: char) = unat b" by simp
  moreover have "unat b div 16 < 16" "unat b mod 16 < 16" using n by auto
  moreover have "(256::nat) ^ length bs = 2 ^ (8 * length bs)" by (simp add: power_mult)
  ultimately show ?case
    using Cons.IH [of "acc * 256 + unat b"]
    by (simp add: Codecs.string_of_def hex_Encode_Cons hex_lower_values algebra_simps wval_append)
qed (simp add: Codecs.string_of_def hex_EncodeToString_def)

lemma hex_of_be64:
  "strconv_ParseUint 16 (hex_EncodeToString (Codecs.string_of (put_be64 w))) = Some (unat w)"
proof -
  have "wval (rev (put_be64 w)) = unat w mod 2 ^ 64" by (simp add: put_be64_def wval_wdigits)
  then have "wval (rev (put_be64 w)) = unat w" using unat_u64_less [of w] by simp
  moreover have "hex_EncodeToString (Codecs.string_of (put_be64 w)) \<noteq> []"
    using length_hex [of "Codecs.string_of (put_be64 w)"] by (auto simp: put_be64_def Codecs.string_of_def simp del: length_hex)
  ultimately show ?thesis
    using hex_value_of_bytes [of 0 "put_be64 w"] unat_u64_less [of w] by (simp add: strconv_ParseUint_def)
qed

definition key_text :: "LUint256 \<Rightarrow> string" where
  "key_text n = hex_EncodeToString (number_bytes n)"

lemma key_text_parts:
  "key_text n = concat (map (\<lambda>w. hex_EncodeToString (Codecs.string_of (put_be64 w))) [hi n, mh n, ml n, lo n])"
  by (simp add: key_text_def number_bytes_def lu256ToBytes32BE_def Codecs.string_of_def hex_append)

lemma length_be64_hex [simp]: "length (hex_EncodeToString (Codecs.string_of (put_be64 w))) = 16"
  by (simp add: Codecs.string_of_def put_be64_def)

declare length_hex [simp del]

lemma length_key_text [simp]: "length (key_text n) = 64"
  by (simp add: key_text_parts length_be64_hex)

lemma key_text_number: "lu256FromHex64 (key_text n) = Inr n"
proof -
  have p: "take 16 (key_text n) = hex_EncodeToString (Codecs.string_of (put_be64 (hi n)))"
    "take 16 (drop 16 (key_text n)) = hex_EncodeToString (Codecs.string_of (put_be64 (mh n)))"
    "take 16 (drop 32 (key_text n)) = hex_EncodeToString (Codecs.string_of (put_be64 (ml n)))"
    "take 16 (drop 48 (key_text n)) = hex_EncodeToString (Codecs.string_of (put_be64 (lo n)))"
    by (simp_all add: key_text_parts length_be64_hex)
  have "lu256FromHex64 (key_text n) = Inr (LU256 (lo n) (ml n) (mh n) (hi n))"
    unfolding lu256FromHex64_def p hex_of_be64 by simp
  then show ?thesis by simp
qed

text \<open>C26: A number, its decimal text and its encoding with a prefix are encoded as the same 64 digits, a slot of call
  data with these digits is decoded as the number, and different numbers have different encodings.\<close>

theorem storage_key_roundtrip:
  "\<exists>h. tolEncodeKey (LNum n) = Inr h \<and> length h = 64 \<and> abiDecodeSlot h ''u256'' = Inr (LNum n) \<and>
     tolEncodeKey (LString (decimal (val n))) = Inr h \<and> tolEncodeKey (LString (''0x'' @ h)) = Inr h"
proof (intro exI conjI)
  obtain r where r: "parseUint256 (decimal (val n)) = Inr r" "val r = val n mod 2 ^ 256"
    using parseUint256_decimal by blast
  have rn: "r = n" using r(2) val_less [of n] by (metis mod_less val_inject)
  have d: "encodeDecimalTo32 (decimal (val n)) = Inr (key_text n)"
    by (simp add: encodeDecimalTo32_def TrimSpace_decimal r(1) rn key_text_def)
  show "tolEncodeKey (LNum n) = Inr (key_text n)" by (simp add: tolEncodeKey_def LUint256_String_decimal d)
  show "tolEncodeKey (LString (decimal (val n))) = Inr (key_text n)"
    by (simp add: tolEncodeKey_def TrimSpace_decimal has_0x_def decimal_not_prefixed d)
  show "length (key_text n) = 64" by simp
  show "abiDecodeSlot (key_text n) ''u256'' = Inr (LNum n)"
  proof -
    have t: "strings_TrimSpace ''u256'' = ''u256''" by (rule TrimSpace_visible) simp_all
    have p: "strconv_ParseInt10 ''256'' = Some 256" by (simp add: strconv_ParseInt10_def strconv_ParseUint_def digit_of_def char_between_def)
    show ?thesis by (simp add: abiDecodeSlot_def t Let_def strings_HasPrefix_def abiDecodeInteger_def p key_text_number)
  qed
  show "tolEncodeKey (LString (''0x'' @ key_text n)) = Inr (key_text n)"
  proof -
    have lower: "last (''0x'' @ key_text n) \<in> set (key_text n)"
      using length_key_text [of n] by (metis append_is_Nil_conv last_appendR last_in_set length_0_conv zero_neq_numeral)
    then have "is_lower_hex (last (''0x'' @ key_text n))"
      using hex_chars [of "number_bytes n"] by (simp add: key_text_def list_all_iff)
    then have t: "strings_TrimSpace (''0x'' @ key_text n) = ''0x'' @ key_text n"
      by (intro TrimSpace_visible) (use is_lower_hex_bounds in auto)
    have "left_pad32 (number_bytes n) = number_bytes n" "length (number_bytes n) = 32"
      by (simp_all add: left_pad32_def number_bytes_def lu256ToBytes32BE_def put_be64_def Codecs.string_of_def)
    then show ?thesis
      using t by (simp add: tolEncodeKey_def has_0x_def strings_HasPrefix_def encodeHexTo32_def hex_part_def key_text_def)
  qed
qed

end
