(* ===== verification/HostFrame.thy ===== *)
theory HostFrame
  imports Api
begin

text \<open>
  What a host function finds: its arguments in the registers of its frame. The argument checks
  of theory \<open>Api\<close> on arguments of the right type return them and change nothing, so that a
  host function is a function of its arguments.
\<close>

definition host_args :: "vm \<Rightarrow> LValue list \<Rightarrow> bool" where
  "host_args s vs \<longleftrightarrow> 0 \<le> currentLocalBase s \<and> rtop (reg s) = currentLocalBase s + int (length vs) \<and>
     rtop (reg s) \<le> int (length (rarray (reg s))) \<and>
     (\<forall>i < length vs. rarray (reg s) ! (nat (currentLocalBase s) + i) = Some (vs ! i))"

lemma mod_of: "0 \<le> w \<Longrightarrow> w < q \<Longrightarrow> z = w + k * q \<Longrightarrow> z mod q = (w::int)"
  by simp

lemma GetTop_args: "host_args s vs \<Longrightarrow> GetTop s = Inr (int (length vs), s)"
  by (simp add: GetTop_def host_args_def rd_def)

lemma Get_args:
  assumes "host_args s vs" "1 \<le> i" "i \<le> int (length vs)"
  shows "ls_Get i s = Inr (Some (vs ! nat (i - 1)), s)"
proof -
  have n: "nat (currentLocalBase s + i - 1) = nat (currentLocalBase s) + nat (i - 1)" "nat (i - 1) < length vs"
    using assms by (auto simp: host_args_def nat_add_distrib [symmetric])
  then have "rarray (reg s) ! nat (currentLocalBase s + i - 1) = Some (vs ! nat (i - 1))"
    using assms(1) by (simp add: host_args_def)
  then show ?thesis
    using assms n(2) by (simp add: ls_Get_def host_args_def bnd_def rd_def top_reg_def reg_get_def at_index_def ret_def)
qed

lemma Get_beyond:
  assumes "host_args s vs" "int (length vs) < i"
  shows "ls_Get i s = Inr (Some LNil, s)"
  using assms by (simp add: ls_Get_def host_args_def bnd_def rd_def top_reg_def ret_def)


lemma host_args_userdata: "host_args (s\<lparr>vuserdata := us\<rparr>) vs = host_args s vs"
  by (simp add: host_args_def currentLocalBase_def cong: option.case_cong)

text \<open>A thread whose registers hold the arguments.\<close>

definition demo_frame :: "LValue list \<Rightarrow> vm" where
  "demo_frame vs = (newLState 4 8 8 64)\<lparr>
     reg := \<lparr>rarray = map Some vs @ replicate 8 None, rtop = int (length vs), growBy = 8, maxSize = 64\<rparr>\<rparr>"

lemma demo_frame_args: "host_args (demo_frame vs) vs"
  by (simp add: host_args_def demo_frame_def newLState_def currentLocalBase_def nth_append)

end
