(* ===== verification/CryptoFacts.thy ===== *)
theory CryptoFacts
  imports HostFrame CryptoLib
begin

text \<open>
  The checked arithmetic of the built-in functions (\<^verbatim>\<open>cryptolib.go\<close>): sums and differences of
  unsigned and signed numbers of a width are exact or raise the overflow panic; the products
  for which the check is exact, and products that overflow and pass.
\<close>

lemma CheckUint256_args:
  assumes "host_args s vs" "1 \<le> i" "i \<le> int (length vs)" "vs ! nat (i - 1) = LNum a"
  shows "CheckUint256 i s = Inr (a, s)"
  using Get_args [OF assms(1-3)] assms(4) by (simp add: CheckUint256_def bnd_def number_of_def ret_def)

lemma checked_args_eq:
  assumes "host_args s [LNum a, LNum b, LNum k]"
  shows "checked_args f s = f a b (sint (lo k)) s"
  using CheckUint256_args [OF assms, of 1] CheckUint256_args [OF assms, of 2] CheckUint256_args [OF assms, of 3]
  by (simp add: checked_args_def bnd_def)

lemma and_then_Raise: "and_then (RaiseError m) n s = (RaiseError m :: 'b vmM) s"
  by (auto simp: RaiseError_def raiseError_def bnd_def rd_def and_then_def throw_message_def Let_def split: sum.splits prod.splits)

lemma and_then_when_raise: "and_then (whenM x (RaiseError m)) f s = (if x then RaiseError m s else f s)"
proof (cases x)
  case True
  then show ?thesis using and_then_Raise by (simp add: whenM_def)
qed (simp add: whenM_def and_then_def bnd_def ret_def)

lemma checked_add_aux:
  assumes "0 \<le> n" "n \<le> 256" "val a < 2 ^ nat n" "val b < 2 ^ nat n"
  shows "(if n = 256 then lu256Cmp (lu256Add a b) a < 0 else lu256MaskN (lu256Add a b) n \<noteq> lu256Add a b) \<longleftrightarrow>
    2 ^ nat n \<le> val a + val b"
  and "val a + val b < 2 ^ nat n \<Longrightarrow> lu256Add a b = of_val (val a + val b)"
proof -
  show "(if n = 256 then lu256Cmp (lu256Add a b) a < 0 else lu256MaskN (lu256Add a b) n \<noteq> lu256Add a b) \<longleftrightarrow>
    2 ^ nat n \<le> val a + val b"
  proof (cases "n = 256")
    case True
    have "(val a + val b) mod 2 ^ 256 < val a \<longleftrightarrow> 2 ^ 256 \<le> val a + val b"
      using val_less [of a] val_less [of b] by (auto simp: mod_if)
    then show ?thesis using True by (simp add: lu256Cmp_val val_lu256Add)
  next
    case False
    define k where "k = nat n"
    have "k < 256" using False assms(1,2) by (simp add: k_def)
    then have le: "(2::nat) * 2 ^ k \<le> 2 ^ 256" by (metis Suc_leI power_Suc power_increasing one_le_numeral)
    then have "val (lu256Add a b) = val a + val b"
      using assms(3,4) unfolding k_def [symmetric] val_lu256Add by (intro mod_less) linarith
    then show ?thesis
      using False assms(3,4) by (simp add: val_inject [symmetric] val_MaskN k_def [symmetric] mod_if)
  qed
  have "(2::nat) ^ nat n \<le> 2 ^ 256" using assms(2) by (intro power_increasing) auto
  then show "lu256Add a b = of_val (val a + val b)" if "val a + val b < 2 ^ nat n"
    using that by (simp add: val_inject [symmetric] val_lu256Add val_of_val)
qed

lemma checked_sub_aux:
  assumes "0 \<le> n" "n \<le> 256" "val a < 2 ^ nat n" "val b < 2 ^ nat n"
  shows "lu256Cmp (if n < 256 then lu256MaskN b n else b) (if n < 256 then lu256MaskN a n else a) > 0 \<longleftrightarrow> val a < val b"
  and "val b \<le> val a \<Longrightarrow> lu256Sub a b = of_val (val a - val b)"
proof -
  have "lu256MaskN a n = a" "lu256MaskN b n = b" using assms(3,4) by (simp_all add: val_inject [symmetric] val_MaskN)
  then show "lu256Cmp (if n < 256 then lu256MaskN b n else b) (if n < 256 then lu256MaskN a n else a) > 0 \<longleftrightarrow> val a < val b"
    by (simp add: lu256Cmp_val)
  show "lu256Sub a b = of_val (val a - val b)" if "val b \<le> val a"
  proof -
    have "val a + (2 ^ 256 - val b) = (val a - val b) + 2 ^ 256" using that val_less [of b] by linarith
    then show ?thesis by (simp add: val_inject [symmetric] val_lu256Sub val_of_val)
  qed
qed

text \<open>C10: The checked addition and subtraction of unsigned numbers of a width return the exact result when it
  is a number of that width, and raise the overflow panic otherwise.\<close>

theorem checked_unsigned:
  assumes "host_args s [LNum a, LNum b, LNum k]" "sint (lo k) = int n" "n \<le> 256" "val a < 2 ^ n" "val b < 2 ^ n"
  shows "cryptoUintCheckedAdd s =
      (if val a + val b < 2 ^ n then push_number (of_val (val a + val b)) s else RaiseError ''Panic(0x11)'' s) \<and>
    cryptoUintCheckedSub s =
      (if val b \<le> val a then push_number (of_val (val a - val b)) s else RaiseError ''Panic(0x11)'' s)"
proof
  have n: "0 \<le> int n" "int n \<le> 256" "val a < 2 ^ nat (int n)" "val b < 2 ^ nat (int n)" using assms by simp_all
  have pass: "and_then (if n = 256 then whenM x p else whenM y p) m = (if (if n = 256 then x else y) then and_then p m else m)"
    for x y p and m :: "int vmM"
    by (auto simp: whenM_def and_then_def bnd_def ret_def)
  have pass': "and_then (whenM x p) m = (if x then and_then p m else m)" for x p and m :: "int vmM"
    by (auto simp: whenM_def and_then_def bnd_def ret_def)
  have "(if n = 256 then lu256Cmp (lu256Add a b) a < 0 else lu256MaskN (lu256Add a b) (int n) \<noteq> lu256Add a b) \<longleftrightarrow>
      \<not> val a + val b < 2 ^ n"
    using checked_add_aux(1) [OF n] by (simp add: not_less)
  then show "cryptoUintCheckedAdd s =
      (if val a + val b < 2 ^ n then push_number (of_val (val a + val b)) s else RaiseError ''Panic(0x11)'' s)"
    using checked_add_aux(2) [OF n]
    by (simp add: cryptoUintCheckedAdd_def checked_args_eq [OF assms(1)] assms(2) pass panicOverflow_def and_then_Raise)
  show "cryptoUintCheckedSub s =
      (if val b \<le> val a then push_number (of_val (val a - val b)) s else RaiseError ''Panic(0x11)'' s)"
    using checked_sub_aux [OF n]
    by (simp add: cryptoUintCheckedSub_def checked_args_eq [OF assms(1)] assms(2) pass' panicOverflow_def and_then_Raise not_less)
qed


section \<open>Signed\<close>

lemma lu256Bit_sign: "0 < n \<Longrightarrow> n \<le> 256 \<Longrightarrow> fitsN n a \<Longrightarrow> lu256Bit a (n - 1) \<longleftrightarrow> sval n a < 0"
  using lu256BitN_top [of n a] lu256Bit_bit [of "n - 1" a] lu256BitN_bit [of "int n - 1" a]
  by (simp add: nat_diff_distrib)

lemma sval_as_mod:
  assumes "0 < n" "fitsN n r" "int (val r) = x mod 2 ^ n"
  shows "sval n r = (x + 2 ^ (n - 1)) mod 2 ^ n - 2 ^ (n - 1)"
proof -
  have t: "(2::int) ^ n = 2 * 2 ^ (n - 1)" by (rule two_pow_pred [OF assms(1)])
  have r: "sval n r = (if x mod 2 ^ n < 2 ^ (n - 1) then x mod 2 ^ n else x mod 2 ^ n - 2 ^ n)"
    using sval_fits [OF assms(2)] assms(3) by (metis of_nat_less_iff of_nat_numeral of_nat_power)
  define p where "p = (2::int) ^ (n - 1)"
  have p: "0 < p" by (simp add: p_def)
  have m: "0 \<le> x mod (2 * p)" "x mod (2 * p) < 2 * p" using p by auto
  have "(x + p) mod (2 * p) = (x mod (2 * p) + p) mod (2 * p)" by (simp add: mod_add_left_eq)
  also have "\<dots> = (if x mod (2 * p) < p then x mod (2 * p) + p else x mod (2 * p) - p)"
  proof (cases "x mod (2 * p) < p")
    case True
    then show ?thesis using m p mod_of [of "x mod (2 * p) + p" "2 * p" "x mod (2 * p) + p" 0] by simp
  next
    case False
    then have "(x mod (2 * p) + p) mod (2 * p) = x mod (2 * p) - p" using m p by (intro mod_of [where k = 1]) linarith+
    then show ?thesis using False by simp
  qed
  finally show ?thesis unfolding r t p_def [symmetric] by auto
qed

text \<open>A sum leaves the range exactly when its sign is not that of two summands of the same sign.\<close>

lemma signed_sum_sign:
  assumes "- p \<le> x" "x < p" "- p \<le> y" "y < p" "0 < (p::int)" and r: "r = (x + y + p) mod (2 * p) - p"
  shows "(x < 0) = (y < 0) \<and> (r < 0) \<noteq> (x < 0) \<longleftrightarrow> \<not> (- p \<le> x + y \<and> x + y < p)"
proof -
  have "(x + y + p) mod (2 * p) = (if x + y < - p then x + y + 3 * p else if x + y < p then x + y + p else x + y - p)"
    using assms(1-5) mod_of [of "x + y + 3 * p" "2 * p" "x + y + p" "-1"] mod_of [of "x + y + p" "2 * p" "x + y + p" 0]
      mod_of [of "x + y - p" "2 * p" "x + y + p" 1] by auto
  then show ?thesis using assms by auto
qed


lemma signed_difference_sign:
  assumes "- p \<le> x" "x < p" "- p \<le> y" "y < p" "0 < (p::int)" and r: "r = (x - y + p) mod (2 * p) - p"
  shows "(x < 0) \<noteq> (y < 0) \<and> (r < 0) \<noteq> (x < 0) \<longleftrightarrow> \<not> (- p \<le> x - y \<and> x - y < p)"
proof -
  have "(x - y + p) mod (2 * p) = (if x - y < - p then x - y + 3 * p else if x - y < p then x - y + p else x - y - p)"
    using assms(1-5) mod_of [of "x - y + 3 * p" "2 * p" "x - y + p" "-1"] mod_of [of "x - y + p" "2 * p" "x - y + p" 0]
      mod_of [of "x - y - p" "2 * p" "x - y + p" 1] by auto
  then show ?thesis using assms by auto
qed

lemma signed_args_eq:
  assumes "host_args s [LNum a, LNum b, LNum k]" "val k = n" "8 \<le> n" "n \<le> 256" "8 dvd n"
  shows "signed_args f s = f a b (int n) s"
proof -
  have "lu256ToInt k = (int n, True)" using assms(2,4) by (simp add: lu256ToInt_val)
  moreover have "int n smod 8 = 0" using assms(5) by (auto simp: signed_modulo_int_def sgn_if)
  ultimately have "signedBitWidth 3 s = Inr (int n, s)"
    using assms(3,4) CheckUint256_args [OF assms(1), of 3] by (simp add: signedBitWidth_def bnd_def ret_def)
  then show ?thesis
    using CheckUint256_args [OF assms(1), of 1] CheckUint256_args [OF assms(1), of 2] by (simp add: signed_args_def bnd_def)
qed

text \<open>The number of a width with a signed value.\<close>

definition number_of_signed :: "nat \<Rightarrow> int \<Rightarrow> LUint256" where
  "number_of_signed n x = of_val (nat (x mod 2 ^ n))"

lemma number_of_signed:
  assumes "n \<le> 256" shows "fitsN n (number_of_signed n x)" "int (val (number_of_signed n x)) = x mod 2 ^ n"
proof -
  have "nat (x mod 2 ^ n) < 2 ^ n" by (simp add: nat_less_iff)
  moreover have "(2::nat) ^ n \<le> 2 ^ 256" using assms by (intro power_increasing) auto
  ultimately have "val (number_of_signed n x) = nat (x mod 2 ^ n)"
    unfolding number_of_signed_def val_of_val by (intro mod_less) linarith
  then show "fitsN n (number_of_signed n x)" "int (val (number_of_signed n x)) = x mod 2 ^ n"
    using \<open>nat (x mod 2 ^ n) < 2 ^ n\<close> by (simp_all add: fitsN_def)
qed


lemma number_of_signed_eq: "n \<le> 256 \<Longrightarrow> int (val r) = x mod 2 ^ n \<Longrightarrow> r = number_of_signed n x"
  using number_of_signed(2) [of n x] by (metis of_nat_eq_iff val_inject)

lemma sval_number_of_signed:
  assumes "0 < n" "n \<le> 256" shows "sval n (number_of_signed n x) = (x + 2 ^ (n - 1)) mod 2 ^ n - 2 ^ (n - 1)"
  using sval_as_mod number_of_signed assms by blast

lemma sval_cong: "fitsN n a \<Longrightarrow> sval n a mod 2 ^ n = int (val a) mod 2 ^ n"
  by (simp add: sval_fits)

lemma of_nat_mod_pow: "n \<le> 256 \<Longrightarrow> int (x mod 2 ^ 256 mod 2 ^ n) = int x mod 2 ^ n"
  unfolding zmod_int of_nat_power of_nat_numeral by (intro mod_mod_cancel le_imp_power_dvd)

lemma masked_sum:
  assumes "n \<le> 256" "fitsN n a" "fitsN n b"
  shows "lu256MaskN (lu256Add a b) (int n) = number_of_signed n (sval n a + sval n b)"
    and "lu256MaskN (lu256Sub a b) (int n) = number_of_signed n (sval n a - sval n b)"
proof -
  have "int (val (lu256MaskN (lu256Add a b) (int n))) = (int (val a) + int (val b)) mod 2 ^ n"
    using of_nat_mod_pow [OF assms(1)] by (simp only: val_MaskN val_lu256Add nat_int of_nat_add)
  also have "\<dots> = (sval n a + sval n b) mod 2 ^ n"
    using sval_cong [OF assms(2)] sval_cong [OF assms(3)] by (metis mod_add_eq)
  finally show "lu256MaskN (lu256Add a b) (int n) = number_of_signed n (sval n a + sval n b)"
    by (rule number_of_signed_eq [OF assms(1)])
  have d: "(2::int) ^ n dvd 2 ^ 256" using assms(1) by (rule le_imp_power_dvd)
  have "int (val a + (2 ^ 256 - val b)) = int (val a) - int (val b) + 2 ^ 256"
    using val_less [of b] by (simp add: of_nat_diff)
  then have "int (val (lu256MaskN (lu256Sub a b) (int n))) = (int (val a) - int (val b) + 2 ^ 256) mod 2 ^ n"
    using of_nat_mod_pow [OF assms(1)] by (simp only: val_MaskN val_lu256Sub nat_int)
  also have "\<dots> = (int (val a) - int (val b)) mod 2 ^ n"
    using d by (metis add.right_neutral dvd_imp_mod_0 mod_add_right_eq)
  also have "\<dots> = (sval n a - sval n b) mod 2 ^ n"
    using sval_cong [OF assms(2)] sval_cong [OF assms(3)] by (metis mod_diff_eq)
  finally show "lu256MaskN (lu256Sub a b) (int n) = number_of_signed n (sval n a - sval n b)"
    by (rule number_of_signed_eq [OF assms(1)])
qed

definition signed_range :: "nat \<Rightarrow> int \<Rightarrow> bool" where
  "signed_range n x \<longleftrightarrow> - (2 ^ (n - 1)) \<le> x \<and> x < 2 ^ (n - 1)"

lemma signed_check:
  assumes n: "0 < n" "n \<le> 256" and f: "fitsN n a" "fitsN n b"
  shows "signed_overflow_check (\<lambda>x y. x = y) a b (number_of_signed n (sval n a + sval n b)) (int n) =
      whenM (\<not> signed_range n (sval n a + sval n b)) panicOverflow"
    and "signed_overflow_check (\<lambda>x y. x \<noteq> y) a b (number_of_signed n (sval n a - sval n b)) (int n) =
      whenM (\<not> signed_range n (sval n a - sval n b)) panicOverflow"
proof -
  define p where "p = (2::int) ^ (n - 1)"
  have p: "0 < p" "(2::int) ^ n = 2 * p" using two_pow_pred [OF n(1), where 'a = int] by (simp_all add: p_def)
  have i: "nat (int n - 1) = n - 1" by simp
  have ab: "- p \<le> sval n a" "sval n a < p" "- p \<le> sval n b" "sval n b < p"
    using sval_bounds [OF n(1)] by (simp_all add: p_def)
  have sg: "sval n (number_of_signed n x) = (x + p) mod (2 * p) - p" for x
    using sval_number_of_signed [OF n] unfolding p_def [symmetric] p(2) .
  have bits: "lu256Bit a (n - 1) = (sval n a < 0)" "lu256Bit b (n - 1) = (sval n b < 0)"
    "lu256Bit (number_of_signed n x) (n - 1) = ((x + p) mod (2 * p) - p < 0)" for x
    using lu256Bit_sign [OF n] f number_of_signed(1) [OF n(2)] sg by auto
  show "signed_overflow_check (\<lambda>x y. x = y) a b (number_of_signed n (sval n a + sval n b)) (int n) =
      whenM (\<not> signed_range n (sval n a + sval n b)) panicOverflow"
    unfolding signed_overflow_check_def Let_def i bits signed_range_def p_def [symmetric] signed_sum_sign [OF ab p(1) refl] ..
  show "signed_overflow_check (\<lambda>x y. x \<noteq> y) a b (number_of_signed n (sval n a - sval n b)) (int n) =
      whenM (\<not> signed_range n (sval n a - sval n b)) panicOverflow"
    unfolding signed_overflow_check_def Let_def i bits signed_range_def p_def [symmetric] signed_difference_sign [OF ab p(1) refl] ..
qed


text \<open>C11: The checked addition and subtraction of signed numbers of a width return the number with the exact
  value when the range of the width has it, and raise the overflow panic otherwise.\<close>

theorem checked_signed:
  assumes "host_args s [LNum a, LNum b, LNum k]" "val k = n" "8 \<le> n" "n \<le> 256" "8 dvd n" "fitsN n a" "fitsN n b"
  shows "cryptoSignedCheckedAdd s =
      (if signed_range n (sval n a + sval n b) then push_number (number_of_signed n (sval n a + sval n b)) s
       else RaiseError ''Panic(0x11)'' s) \<and>
    cryptoSignedCheckedSub s =
      (if signed_range n (sval n a - sval n b) then push_number (number_of_signed n (sval n a - sval n b)) s
       else RaiseError ''Panic(0x11)'' s)"
proof -
  have n: "0 < n" "n \<le> 256" using assms(3,4) by auto
  show ?thesis
    unfolding cryptoSignedCheckedAdd_def cryptoSignedCheckedSub_def signed_args_eq [OF assms(1-5)] Let_def
      masked_sum [OF n(2) assms(6,7)] signed_check [OF n assms(6,7)] panicOverflow_def and_then_when_raise
    by simp
qed


section \<open>Products\<close>

lemma checked_mul_aux:
  assumes "n \<le> 128" "val a < 2 ^ n" "val b < 2 ^ n" "mul_carry_free a b"
  shows "val (lu256Mul a b) = val a * val b"
proof -
  have "val a * val b < 2 ^ n * 2 ^ n" using assms(2,3) by (intro mult_strict_mono) auto
  also have "\<dots> \<le> (2::nat) ^ 256" unfolding power_add [symmetric] using assms(1) by (intro power_increasing) auto
  finally show ?thesis using lu256Mul_exact_iff assms(4) by (metis mod_less)
qed

lemma when_raise_with: "and_then (whenM x p) f = (if x then and_then p f else f)"
  by (auto simp: whenM_def and_then_def bnd_def ret_def)

text \<open>The checked product of unsigned numbers of at most 128 bits is exact or raises the overflow panic,
  when the multiplication drops no carry.\<close>

theorem checked_product:
  assumes "host_args s [LNum a, LNum b, LNum k]" "sint (lo k) = int n" "n \<le> 128" "val a < 2 ^ n" "val b < 2 ^ n"
    and "mul_carry_free a b"
  shows "cryptoUintCheckedMul s =
    (if val a * val b < 2 ^ n then push_number (of_val (val a * val b)) s else RaiseError ''Panic(0x11)'' s)"
proof -
  have v: "val (lu256Mul a b) = val a * val b" using checked_mul_aux assms(3-6) by blast
  then have r: "lu256Mul a b = of_val (val a * val b)"
    using val_less [of "lu256Mul a b"] by (metis mod_less val_inject val_of_val)
  have c: "lu256MaskN (lu256Mul a b) (int n) \<noteq> lu256Mul a b \<longleftrightarrow> \<not> val a * val b < 2 ^ n"
  proof -
    have "x mod 2 ^ n \<noteq> x \<longleftrightarrow> \<not> x < 2 ^ n" for x :: nat
      using mod_less_divisor [of "2 ^ n" x] by (metis mod_less zero_less_numeral zero_less_power)
    then show ?thesis by (simp only: val_inject [symmetric] val_MaskN v nat_int)
  qed
  have n: "int n < 256" using assms(3) by simp
  show ?thesis
    unfolding cryptoUintCheckedMul_def checked_args_eq [OF assms(1)] Let_def assms(2) c [unfolded r] if_P [OF n] panicOverflow_def
      and_then_when_raise r c [unfolded r]
    by simp
qed

text \<open>Products outside the range that pass the check: the remainder modulo \<open>2 ^ 256\<close> is tested, not the product.\<close>

definition two_128 :: LUint256 where "two_128 = LU256 0 0 1 0"

lemma two_128_square: "lu256Mul two_128 two_128 = LUint256Zero"
  by (simp add: two_128_def lu256Mul_def LUint256Zero_def bits_Mul64_def bits_Add64_def Let_def)

lemma minimum_by_minus_one: "lu256SignedDivN (LU256 128 0 0 0) (LU256 255 0 0 0) 8 = Inr (LU256 128 0 0 0)"
proof -
  have "val (magnitudeN 8 (LU256 255 0 0 0)) = 1"
    using val_magnitudeN [of 8 "LU256 255 0 0 0"] by (simp add: fitsN_def val_LU256 sval_def)
  then obtain q where q: "lu256SignedDivN (LU256 128 0 0 0) (LU256 255 0 0 0) 8 = Inr q"
    and v: "int (val q) = (sval 8 (LU256 128 0 0 0) sdiv sval 8 (LU256 255 0 0 0)) mod 2 ^ 8"
    using lu256SignedDivN_sdiv [of 8 "LU256 128 0 0 0" "LU256 255 0 0 0"]
    by (auto simp: fitsN_def val_LU256 lu256_div_exact_def)
  have "val q = val (LU256 128 0 0 0)" using v by (simp add: sval_def val_LU256 signed_divide_int_def sgn_if)
  then show ?thesis using q by (simp add: val_inject)
qed

text \<open>C17: The check of a product looks at its remainder modulo \<open>2 ^ 256\<close>: the square of \<open>2 ^ 128\<close> passes as 0 at width
  248, and the product of minus one and the smallest number passes as the smallest number.\<close>

theorem checked_product_misses:
  assumes "host_args s [LNum two_128, LNum two_128, LNum (LU256 248 0 0 0)]"
    and "host_args t [LNum (LU256 255 0 0 0), LNum (LU256 128 0 0 0), LNum (LU256 8 0 0 0)]"
  shows "cryptoUintCheckedMul s = push_number LUint256Zero s \<and> \<not> val two_128 * val two_128 < 2 ^ 248 \<and>
    cryptoSignedCheckedMul t = push_number (LU256 128 0 0 0) t \<and>
    \<not> signed_range 8 (sval 8 (LU256 255 0 0 0) * sval 8 (LU256 128 0 0 0))"
proof (intro conjI)
  have z: "lu256MaskN LUint256Zero 248 = LUint256Zero" by (simp add: val_inject [symmetric] val_MaskN)
  show "cryptoUintCheckedMul s = push_number LUint256Zero s"
    by (simp add: cryptoUintCheckedMul_def checked_args_eq [OF assms(1)] two_128_square z whenM_def and_then_def bnd_def ret_def)
  show "\<not> val two_128 * val two_128 < 2 ^ 248" by (simp add: two_128_def val_LU256)
  have m: "lu256MaskN (lu256Mul (LU256 255 0 0 0) (LU256 128 0 0 0)) 8 = LU256 128 0 0 0"
    by (simp add: val_inject [symmetric] val_MaskN val_lu256Mul_small val_LU256)
  have f: "lu256MaskN (LU256 255 0 0 0) 8 = LU256 255 0 0 0" "lu256MaskN (LU256 128 0 0 0) 8 = LU256 128 0 0 0"
    by (simp_all add: val_inject [symmetric] val_MaskN val_LU256)
  have w: "signed_args g t = g (LU256 255 0 0 0) (LU256 128 0 0 0) 8 t" for g :: "LUint256 \<Rightarrow> LUint256 \<Rightarrow> int \<Rightarrow> int vmM"
    using signed_args_eq [OF assms(2), of 8 g] by (simp add: val_LU256)
  show "cryptoSignedCheckedMul t = push_number (LU256 128 0 0 0) t"
    by (simp add: cryptoSignedCheckedMul_def w Let_def m f minimum_by_minus_one or_panic_def whenM_def and_then_def bnd_def ret_def)
  show "\<not> signed_range 8 (sval 8 (LU256 255 0 0 0) * sval 8 (LU256 128 0 0 0))"
    by (simp add: signed_range_def sval_def val_LU256)
qed


section \<open>Witnesses\<close>

theorem checked_unsigned_witness:
  "cryptoUintCheckedAdd (demo_frame [LNum (LU256 200 0 0 0), LNum (LU256 100 0 0 0), LNum (LU256 8 0 0 0)]) =
     RaiseError ''Panic(0x11)'' (demo_frame [LNum (LU256 200 0 0 0), LNum (LU256 100 0 0 0), LNum (LU256 8 0 0 0)])"
  using checked_unsigned [OF demo_frame_args, of "LU256 8 0 0 0" 8 "LU256 200 0 0 0" "LU256 100 0 0 0"] by (simp add: val_LU256)

theorem checked_signed_witness:
  "cryptoSignedCheckedSub (demo_frame [LNum (LU256 128 0 0 0), LNum (LU256 1 0 0 0), LNum (LU256 8 0 0 0)]) =
     RaiseError ''Panic(0x11)'' (demo_frame [LNum (LU256 128 0 0 0), LNum (LU256 1 0 0 0), LNum (LU256 8 0 0 0)])"
  using checked_signed [OF demo_frame_args, of "LU256 8 0 0 0" 8 "LU256 128 0 0 0" "LU256 1 0 0 0"]
  by (simp add: val_LU256 fitsN_def sval_def signed_range_def)

theorem checked_product_witness:
  "cryptoUintCheckedMul (demo_frame [LNum (LU256 20 0 0 0), LNum (LU256 20 0 0 0), LNum (LU256 8 0 0 0)]) =
     RaiseError ''Panic(0x11)'' (demo_frame [LNum (LU256 20 0 0 0), LNum (LU256 20 0 0 0), LNum (LU256 8 0 0 0)])"
  using checked_product [OF demo_frame_args, of "LU256 8 0 0 0" 8 "LU256 20 0 0 0" "LU256 20 0 0 0"]
  by (simp add: val_LU256 mul_carry_free_small)

theorem checked_product_misses_witness:
  "cryptoUintCheckedMul (demo_frame [LNum two_128, LNum two_128, LNum (LU256 248 0 0 0)]) =
     push_number LUint256Zero (demo_frame [LNum two_128, LNum two_128, LNum (LU256 248 0 0 0)])"
  using checked_product_misses [OF demo_frame_args demo_frame_args] by blast

end
