(* ===== verification/MappingFacts.thy ===== *)
theory MappingFacts
  imports HostFrame HostLibs
begin

text \<open>
  Mappings: the functions of the library read and write a map from normal keys to normal
  values, and normal forms are fixed points of the normalisation.
\<close>

section \<open>Normal forms\<close>

lemma number_text_decimal: "number_text n = Inr (decimal (val n))"
  by (simp add: number_text_def LUint256_String_decimal)

lemma parse_number_text: "parseUint256 (decimal (val n)) = Inr n"
proof -
  obtain r where "parseUint256 (decimal (val n)) = Inr r" "val r = val n mod 2 ^ 256" using parseUint256_decimal by blast
  then show ?thesis using val_less [of n] by (metis mod_less val_inject)
qed

lemma normalize_number: "normalizeMappingValue (LNum n) mappingKindU256 = Inr (LNum n)"
  by (simp add: normalizeMappingValue_def normalizeU256_def number_text_decimal parse_number_text)

lemma normalizeU256_values:
  "normalizeU256 v = Inr t \<Longrightarrow> \<exists>n. t = decimal (val n) \<and> (v = LNum n \<or> (\<exists>s. v = LString s \<and> parseUint256 s = Inr n))"
  by (auto simp: normalizeU256_def number_text_decimal split: LValue.splits sum.splits)

lemma hex_normal:
  assumes "normalizeHexString v 32 name = Inr t"
  shows "\<exists>h. t = ''0x'' @ h \<and> length h = 64 \<and> list_all is_lower_hex h"
proof -
  have [simp]: "is_lower_hex c \<longleftrightarrow> is_dec_digit c \<or> char_between (CHR ''a'') (CHR ''f'') c" for c
    by (simp add: is_lower_hex_def)
  show ?thesis
    using assms by (auto simp: normalizeHexString_def Let_def list_ex_iff list_all_iff split: LValue.splits if_splits)
qed

lemma hex_fixed:
  assumes "length h = 64" "list_all is_lower_hex h"
  shows "normalizeHexString (LString (''0x'' @ h)) 32 name = Inr (''0x'' @ h)"
proof -
  have ne: "h \<noteq> []" using assms(1) by auto
  have l: "is_lower_hex c" if "c \<in> set h" for c using assms(2) that by (simp add: list_all_iff)
  have "last h \<in> set h" using ne by simp
  then have "strings_TrimSpace (''0x'' @ h) = ''0x'' @ h"
    using l is_lower_hex_bounds(1,2) ne by (intro TrimSpace_visible) auto
  moreover have "strings_ToLower (''0x'' @ h) = ''0x'' @ h"
    using l is_lower_hex_bounds(3) by (intro ToLower_fixed) (auto simp: char_between_def)
  ultimately show ?thesis
    using assms(1) l by (auto simp: normalizeHexString_def Let_def strings_HasPrefix_def list_ex_iff is_lower_hex_def)
qed


lemma agent_normal: "agent_text v = Inr a \<Longrightarrow> agent_text (LAgent a) = Inr a \<and> agent_text (LString a) = Inr a"
proof -
  assume "agent_text v = Inr a"
  then have "\<exists>raw. parseAgentString raw = Inr a"
    by (cases v) (auto simp: agent_text_def split: sum.splits)
  then obtain raw where raw: "parseAgentString raw = Inr a" by blast
  show ?thesis using agent_parse_canonical [of raw a] by (simp add: agent_text_def raw)
qed

lemma value_normal: "normalizeMappingValue v k = Inr w \<Longrightarrow> normalizeMappingValue w k = Inr w"
proof (cases k)
  case mappingKindU256
  assume "normalizeMappingValue v k = Inr w"
  then obtain a where "(case parseUint256 a of Inl _ \<Rightarrow> Inl ''expected u256 value'' | Inr n \<Rightarrow> Inr (LNum n)) = Inr w"
    using mappingKindU256 by (auto simp: normalizeMappingValue_def)
  then obtain n where "w = LNum n" by (cases "parseUint256 a") auto
  then show ?thesis using mappingKindU256 normalize_number by simp
next
  case mappingKindAgent
  assume "normalizeMappingValue v k = Inr w"
  then obtain a where "w = LAgent a" "agent_text v = Inr a" using mappingKindAgent
    by (auto simp: normalizeMappingValue_def split: sum.splits)
  then show ?thesis using mappingKindAgent agent_normal by (simp add: normalizeMappingValue_def)
next
  case mappingKindBytes32
  assume "normalizeMappingValue v k = Inr w"
  then obtain t where t: "w = LString t" "normalizeHexString v 32 ''bytes32'' = Inr t" using mappingKindBytes32
    by (auto simp: normalizeMappingValue_def split: sum.splits)
  then obtain h where "t = ''0x'' @ h" "length h = 64" "list_all is_lower_hex h" using hex_normal by blast
  then show ?thesis using mappingKindBytes32 t(1) hex_fixed by (simp add: normalizeMappingValue_def)
qed (auto simp: normalizeMappingValue_def split: LValue.splits)

lemma default_normal: "normalizeMappingValue (defaultMappingValue k) k = Inr (defaultMappingValue k)"
proof -
  have z: "list_all is_lower_hex (replicate 64 (CHR ''0''))"
    by (simp add: list_all_iff is_lower_hex_def is_dec_digit_def char_between_def)
  have h: "normalizeHexString (LString zeroBytes32) 32 ''bytes32'' = Inr zeroBytes32"
    unfolding zeroBytes32_def by (rule hex_fixed) (use z in simp_all)
  have "canonical_agent zeroAgent" using z by (simp add: canonical_agent_def zeroAgent_def)
  then have "parseAgentString zeroAgent = Inr zeroAgent" using parseAgentString_canonical by blast
  then show ?thesis
    using h normalize_number [of LUint256Zero]
    by (cases k) (simp_all add: normalizeMappingValue_def agent_text_def)
qed

section \<open>The functions of the library\<close>

text \<open>The mapping behind a user datum.\<close>

definition mapping_at :: "vm \<Rightarrow> nat \<Rightarrow> solidityMapping \<Rightarrow> bool" where
  "mapping_at s u m \<longleftrightarrow> u < length (vuserdata s) \<and> udHostValue (vuserdata s ! u) = MappingValue m"

lemma checkMapping_args:
  assumes "host_args s (LUserData u # vs)" "mapping_at s u m"
  shows "checkMapping 1 s = Inr ((u, m), s)"
  using Get_args [OF assms(1), of 1] assms(2)
  by (simp add: checkMapping_def CheckUserData_def the_userdata_def bnd_def rd_def heap_at_def ret_def mapping_at_def)

lemma normal_arg_args:
  assumes "host_args s vs" "1 \<le> i" "i \<le> int (length vs)" "norm (vs ! nat (i - 1)) = Inr k"
  shows "normal_arg err norm i s = Inr (k, s)"
  using Get_args [OF assms(1-3)] GetTop_args [OF assms(1)] assms(3,4)
  by (simp add: normal_arg_def CheckAny_def bnd_def whenM_def and_then_def ret_def deref_def)

lemma with_key_args:
  assumes "host_args s (LUserData u # v # vs)" "mapping_at s u m" "normalizeMappingKey v (keyKind m) = Inr key"
  shows "with_key err f s = f u m key s"
  using checkMapping_args [OF assms(1,2)] normal_arg_args [OF assms(1), of 2 "\<lambda>v. normalizeMappingKey v (keyKind m)"] assms(3)
  by (simp add: with_key_def bnd_def)

lemma put_mapping_at:
  assumes "mapping_at s u m"
  shows "put_mapping u m' s = Inr ((), s\<lparr>vuserdata := (vuserdata s)[u := (vuserdata s ! u)\<lparr>udHostValue := MappingValue m'\<rparr>]\<rparr>)"
  using assms by (simp add: put_mapping_def put_userdata_def the_userdata_def bnd_def rd_def heap_at_def ret_def upd_def mapping_at_def)

text \<open>What an assignment leaves: the user datum has the new mapping, and nothing else changed.\<close>

definition with_mapping :: "nat \<Rightarrow> solidityMapping \<Rightarrow> vm \<Rightarrow> vm" where
  "with_mapping u m s = s\<lparr>vuserdata := (vuserdata s)[u := (vuserdata s ! u)\<lparr>udHostValue := MappingValue m\<rparr>]\<rparr>"

lemma with_mapping_at: "mapping_at s u m \<Longrightarrow> mapping_at (with_mapping u m' s) u m'"
  by (simp add: mapping_at_def with_mapping_def)

text \<open>C16: Assigning a value to a key of a mapping and reading any key afterwards, in whatever spelling: the same key gives
  the assigned value in its normal form, another key what it had before, and a deleted key the default value.\<close>

theorem mapping_set_get:
  assumes s: "host_args s [LUserData u, k, v]" "mapping_at s u m"
    and k: "normalizeMappingKey k (keyKind m) = Inr key" and v: "normalizeMappingValue v (valueKind m) = Inr w"
    and t: "host_args t [LUserData u, k']" "mapping_at t u (mapping_store m key (Some w))"
      "normalizeMappingKey k' (keyKind m) = Inr key'"
  shows "mappingSet s = Inr (0, with_mapping u (mapping_store m key (Some w)) s) \<and>
    mappingGet t = push1 (if key' = key then w else mapping_lookup m key') t \<and>
    mappingHas t = push1 (LBool (key' = key \<or> entries m key' \<noteq> None)) t \<and>
    (\<exists>m'. mappingDelete t = Inr (0, with_mapping u m' t) \<and> mapping_lookup m' key' = defaultMappingValue (valueKind m))"
proof (intro exI conjI)
  define m1 where "m1 = mapping_store m key (Some w)"
  show "mappingSet s = Inr (0, with_mapping u (mapping_store m key (Some w)) s)"
    using with_key_args [OF s k] normal_arg_args [OF s(1), of 3 "\<lambda>v. normalizeMappingValue v (valueKind m)"] v put_mapping_at [OF s(2)]
    by (simp add: mappingSet_def mapping_write_def bnd_def and_then_def ret_def with_mapping_def)
  have t1: "mapping_at t u m1" using t(2) by (simp add: m1_def)
  have kk: "keyKind m1 = keyKind m" "valueKind m1 = valueKind m" by (simp_all add: m1_def mapping_store_def)
  have l: "mapping_lookup m1 key' = (if key' = key then w else mapping_lookup m key')"
    by (simp add: m1_def mapping_store_def mapping_lookup_def split: option.split)
  have w: "with_key err f t = f u m1 key' t" for err f using with_key_args [OF t(1) t1] t(3) kk by simp
  show "mappingGet t = push1 (if key' = key then w else mapping_lookup m key') t"
    by (simp add: mappingGet_def mapping_read_def w l)
  show "mappingHas t = push1 (LBool (key' = key \<or> entries m key' \<noteq> None)) t"
    by (auto simp: mappingHas_def w m1_def mapping_store_def)
  show "mappingDelete t = Inr (0, with_mapping u (mapping_store m1 key' None) t)"
    using put_mapping_at [OF t1] by (simp add: mappingDelete_def w and_then_def bnd_def ret_def with_mapping_def)
  show "mapping_lookup (mapping_store m1 key' None) key' = defaultMappingValue (valueKind m)"
    by (simp add: mapping_lookup_def mapping_store_def kk)
qed

definition mapping_normal :: "solidityMapping \<Rightarrow> bool" where
  "mapping_normal m \<longleftrightarrow> (\<forall>k v. entries m k = Some v \<longrightarrow> normalizeMappingValue v (valueKind m) = Inr v)"

text \<open>Mappings hold values in normal form only: a new mapping does, an assignment of a normalised value and a deletion
  keep it, and every key, also an absent one, reads as a value that normalisation leaves as it is.\<close>

theorem mappings_stay_normal:
  "mapping_normal (new_mapping kk vk) \<and>
   (mapping_normal m \<longrightarrow> mapping_normal (mapping_store m key None)) \<and>
   (mapping_normal m \<and> normalizeMappingValue v (valueKind m) = Inr w \<longrightarrow> mapping_normal (mapping_store m key (Some w))) \<and>
   (mapping_normal m \<longrightarrow> normalizeMappingValue (mapping_lookup m key) (valueKind m) = Inr (mapping_lookup m key))"
proof (intro conjI impI)
  show "mapping_normal (new_mapping kk vk)" by (simp add: mapping_normal_def new_mapping_def)
  show "mapping_normal (mapping_store m key None)" if "mapping_normal m"
    using that by (auto simp: mapping_normal_def mapping_store_def)
  show "mapping_normal (mapping_store m key (Some w))"
    if "mapping_normal m \<and> normalizeMappingValue v (valueKind m) = Inr w"
    using that value_normal by (auto simp: mapping_normal_def mapping_store_def)
  show "normalizeMappingValue (mapping_lookup m key) (valueKind m) = Inr (mapping_lookup m key)" if "mapping_normal m"
    using that default_normal by (auto simp: mapping_normal_def mapping_lookup_def split: option.split)
qed


text \<open>A thread with one mapping from strings to numbers.\<close>

definition demo_mapping :: "LValue list \<Rightarrow> solidityMapping \<Rightarrow> vm" where
  "demo_mapping vs m = (demo_frame vs)\<lparr>vuserdata := [\<lparr>udHostValue = MappingValue m, udEnv = None, udMetatable = LNil\<rparr>]\<rparr>"

lemma demo_mapping: "host_args (demo_mapping vs m) vs" "mapping_at (demo_mapping vs m) 0 m"
  by (simp_all only: demo_mapping_def host_args_userdata demo_frame_args) (simp add: mapping_at_def)

theorem mapping_set_get_witness:
  "\<exists>m. mappingGet (demo_mapping [LUserData 0, LString ''0x10''] m) = push1 (LNum LUint256One) (demo_mapping [LUserData 0, LString ''0x10''] m) \<and>
     (\<exists>s s'. mappingSet s = Inr (0, s') \<and> mapping_at s' 0 m)"
proof -
  define m0 where "m0 = new_mapping mappingKindString mappingKindU256"
  have k: "normalizeMappingKey (LString t) (keyKind m0) = Inr t" "normalizeMappingValue (LNum n) (valueKind m0) = Inr (LNum n)" for t n
    using normalize_number by (simp_all add: m0_def new_mapping_def normalizeMappingKey_def)
  show ?thesis
    using mapping_set_get [OF demo_mapping [of _ m0] k(1) k(2) demo_mapping k(1), of "''0x10''" LUint256One "''0x10''"]
      with_mapping_at [OF demo_mapping(2)] by force
qed

theorem mappings_stay_normal_witness:
  "mapping_normal (mapping_store (new_mapping mappingKindString mappingKindU256) ''a'' (Some (LNum LUint256One)))"
  using mappings_stay_normal [of mappingKindString mappingKindU256 "new_mapping mappingKindString mappingKindU256" "''a''"
      "LNum LUint256One" "LNum LUint256One"] normalize_number
  by (simp add: new_mapping_def)

end
