(* ===== verification/ProtectedFacts.thy ===== *)
theory ProtectedFacts
  imports HostFrame BaseLib
begin

text \<open>
  Protected calls: what a call that raised an error leaves behind. The stack pointer and the
  current frame are those of the caller, its registers below the called function are kept, and
  the flag of error handlers is cleared, also one that an enclosing call had set.
\<close>

lemma SetTop_down:
  assumes "0 \<le> base" "base \<le> rtop rg" "rtop rg \<le> int (length (rarray rg))"
  shows "\<exists>rg'. reg_SetTop base rg = Inr rg' \<and> rtop rg' = base \<and> take (nat base) (rarray rg') = take (nat base) (rarray rg)"
proof -
  have "reg_SetTop base rg = clear_above (rtop rg) (rg\<lparr>rtop := base\<rparr>)"
    using assms by (simp add: reg_SetTop_def checkSize_def Let_def)
  moreover have "take (nat base) (map (\<lambda>i. if base \<le> int i \<and> int i < rtop rg then None else rarray rg ! i) [0..<length (rarray rg)]) =
      take (nat base) (rarray rg)"
    by (rule nth_equalityI) auto
  ultimately show ?thesis using assms by (auto simp: clear_above_def cong: if_cong)
qed

text \<open>C18: A protected call of a function that raises an error returns the error, with the stack pointer and the top of the
  registers back where the call started, the frame there current, and the registers below it untouched.\<close>

theorem protected_call_unwinds:
  assumes err: "call nargs nret (-1) s = Inl (VError v s1)"
    and base: "base = rtop (reg s) - nargs - 1" "0 \<le> base" "base \<le> rtop (reg s1)" "rtop (reg s1) \<le> int (length (rarray (reg s1)))"
  shows "\<exists>s2. ls_PCall call nargs nret None s = Inr (Some v, s2) \<and> fsp (cstack s2) = fsp (cstack s) \<and>
    farray (cstack s2) = farray (cstack s1) \<and> currentFrame s2 = last_slot s2 \<and> rtop (reg s2) = base \<and>
    take (nat base) (rarray (reg s2)) = take (nat base) (rarray (reg s1)) \<and> \<not> hasErrorFunc s2 \<and>
    vtables s2 = vtables s1 \<and> gasUsed s2 = gasUsed s1"
proof -
  obtain rg where rg: "reg_SetTop base (reg s1) = Inr rg" "rtop rg = base"
      "take (nat base) (rarray rg) = take (nat base) (rarray (reg s1))"
    using SetTop_down [OF base(2-4)] by blast
  have b: "rtop (reg s) - nargs - 1 = base" using base(1) by simp
  show ?thesis
    by (simp add: ls_PCall_def bnd_def rd_def top_reg_def b Let_def whenM_def and_then_def ret_def protected_def err upd_def
        handle_error_def unwind_def fixed_SetSp_def set_top_def reg_do_def rg last_slot_def)
qed


theorem protected_call_unwinds_witness:
  "\<exists>s2. ls_PCall (\<lambda>a r b. throw_value) 0 0 None (demo_frame [LBool True, LString ''e'']) = Inr (Some (Some (LString ''e'')), s2) \<and>
     rtop (reg s2) = 1 \<and> currentFrame s2 = None"
proof -
  have "(throw_value :: unit vmM) (demo_frame [LBool True, LString ''e'']) =
      Inl (VError (Some (LString ''e'')) (demo_frame [LBool True, LString ''e'']))"
    by (simp add: throw_value_def get_top_value_def demo_frame_def newLState_def currentLocalBase_def)
  from protected_call_unwinds [of "\<lambda>a r b. throw_value" 0 0 "demo_frame [LBool True, LString ''e'']", OF this, of 1]
  show ?thesis by (auto simp: demo_frame_def newLState_def last_slot_def newFixedCallFrameStack_def)
qed

end
