(* ===== verification/StringFacts.thy ===== *)
theory StringFacts
  imports HostFrame StringLib
begin

text \<open>
  The string library: the length of a quoted text is computed right in advance (that the scanner
  reads it back is in theory \<open>ScannerFacts\<close>); \<^verbatim>\<open>string.sub\<close> is the function of the language on positions
  that are machine integers; a plain search and a repetition that end in a Go panic.
\<close>

section \<open>Quoting\<close>

lemma decimal_digits: "list_all is_dec_digit (decimal n)"
  using decimal_chars [of n] by (auto simp: list_all_iff is_dec_digit_def)

lemma length_decimal_control:
  assumes "n < 1000" shows "length (decimal n) = (if n \<ge> 100 then 3 else if n \<ge> 10 then 2 else 1)"
proof -
  have one: "length (decimal k) = 1" if "k < 10" for k using that by (simp add: decimal.simps)
  have two: "length (decimal k) = 2" if "10 \<le> k" "k < 100" for k using that one [of "k div 10"] by (simp add: decimal.simps [of k])
  have "length (decimal n) = 3" if "100 \<le> n" using that assms two [of "n div 10"] by (simp add: decimal.simps [of n])
  then show ?thesis using one two by auto
qed

lemma digits_value_zeros: "digits_value 10 0 (replicate k (CHR ''0'') @ ds) = digits_value 10 0 ds"
  by (induction k) (simp_all add: digit_of_def char_between_def)

lemma control_less: "is_control c \<Longrightarrow> (of_char c :: nat) < 128"
  by (auto simp: is_control_def)

lemma digit_next_quote: "digit_next (quote_body s @ CHR 34 # rest) \<Longrightarrow> digit_next s"
  by (cases s) (auto simp: digit_next_def is_dec_digit_def char_between_def split: if_splits)

lemma length_quote_body: "quoted_body_len s = int (length (quote_body s))"
proof (induction s)
  case (Cons c s)
  show ?case
    using Cons control_less [of c] length_decimal_control [of "of_char c"]
    by (auto simp: fmt_03d_def)
qed simp

section \<open>Parts of strings\<close>


text \<open>A number as a machine integer, when it is one.\<close>

lemma StringPos_sval:
  assumes "- (2 ^ 63) \<le> sval 256 v"
  shows "luaU256ToStringPos v = (if sval 256 v < 2 ^ 63 then (sval 256 v, True) else (0, False))"
proof -
  have v: "sval 256 v = (if val v < 2 ^ 255 then int (val v) else int (val v) - 2 ^ 256)"
    using sval_fits [OF fitsN_256] by simp
  have top: "drop_bit 63 (hi v) = 0 \<longleftrightarrow> val v < 2 ^ 255"
    using lu256IsNeg_val [of v] bit_top_val [of 256 v] fitsN_256 [of v] by (auto simp: lu256IsNeg_def not_less)
  show ?thesis
  proof (cases "val v < 2 ^ 255")
    case True
    then show ?thesis using v top by (auto simp: luaU256ToStringPos_def lu256ToInt_val)
  next
    case False
    then have "(2::int) ^ 256 - 2 ^ 63 \<le> int (val v)" using assms v by simp
    then have big: "2 ^ 256 - 2 ^ 63 \<le> val v" by simp
    have b: "unat (lo v) < 2 ^ 64" "unat (ml v) < 2 ^ 64" "unat (mh v) < 2 ^ 64" "unat (hi v) < 2 ^ 64"
      by (rule unat_u64_less)+
    have h: "unat (hi v) = 2 ^ 64 - 1" using big b by (simp add: val_eq)
    have m: "unat (mh v) = 2 ^ 64 - 1" using big b h by (simp add: val_eq)
    have l: "unat (ml v) = 2 ^ 64 - 1" using big b h m by (simp add: val_eq)
    have lo: "val v = unat (lo v) + 2 ^ 256 - 2 ^ 64" "2 ^ 63 \<le> unat (lo v)" using big h m l by (simp_all add: val_eq)
    have ones: "w = NOT 0" if "unat w = 2 ^ 64 - 1" for w :: u64
      using that by (simp add: word_unat_eq_iff unsigned_minus_1_eq_mask mask_eq_exp_minus_1)
    have "sint (lo v) = int (unat (lo v)) - 2 ^ 64"
    proof -
      define k where "k = unat (lo v)"
      have "sint (lo v) = (int k + 2 ^ 63) mod 2 ^ 64 - 2 ^ 63"
        using int_word_sint [of "int k", where 'a = 64] by (simp add: k_def)
      also have "(int k + 2 ^ 63) mod 2 ^ 64 = int k + 2 ^ 63 - 2 ^ 64"
        using lo(2) b(1) unfolding k_def [symmetric] by (intro mod_of [where k = 1]) simp_all
      finally show ?thesis by (simp add: k_def)
    qed
    moreover have "int (unat (lo v)) < 2 ^ 64" using b(1) by (metis of_nat_less_iff of_nat_numeral of_nat_power)
    ultimately show ?thesis
      using False v top lo b(1) ones [OF h] ones [OF m] ones [OF l] by (simp add: luaU256ToStringPos_def of_nat_diff)
  qed
qed


lemma Index2StringIndex_start:
  assumes "- (2 ^ 63) < sval 256 v" "int (length str) < 2 ^ 63"
  shows "luaU256Index2StringIndex str v True =
    (if sval 256 v < 2 ^ 63 then max 0 (if sval 256 v < 0 then int (length str) + sval 256 v else sval 256 v - 1)
     else int (length str))"
proof -
  have w: "wrap64 (x - 1) = x - 1" if "- (2 ^ 63) < x" "x < 2 ^ 63" for x
    using that unfolding wrap64_def sint_sbintrunc' by (intro signed_take_bit_int_eq_self) simp_all
  have "drop_bit 63 (hi v) = 0" if "\<not> sval 256 v < 2 ^ 63"
    using that lu256IsNeg_val [of v] lu256BitN_top [of 256 v] lu256BitN_bit [of 255 v] fitsN_256 [of v]
    by (auto simp: lu256IsNeg_def)
  then show ?thesis
    using assms StringPos_sval [of v] w [of "sval 256 v"]
    by (auto simp: luaU256Index2StringIndex_def luaIndex2StringIndex_def Let_def)
qed



lemma CheckString_args:
  assumes "host_args s vs" "1 \<le> i" "i \<le> int (length vs)" "vs ! nat (i - 1) = LString t"
  shows "CheckString i s = Inr (t, s)"
  using Get_args [OF assms(1-3)] assms(4) by (simp add: CheckString_def bnd_def ret_def)

lemma CheckUint256_number:
  assumes "host_args s vs" "1 \<le> i" "i \<le> int (length vs)" "vs ! nat (i - 1) = LNum a"
  shows "CheckUint256 i s = Inr (a, s)"
  using Get_args [OF assms(1-3)] assms(4) by (simp add: CheckUint256_def bnd_def number_of_def ret_def)




section \<open>Searching and repeating\<close>

text \<open>A plain search that starts behind the end of the string, and a repetition whose length is a multiple of \<open>2 ^ 64\<close>, end
  in a Go panic instead of nil and the error for a result that is too large.\<close>

theorem string_panics:
  assumes "host_args s [LString str, LString p, LNum i, LBool True]" "p \<noteq> ''''" "int (length str) < 2 ^ 62"
    and "int (length str) + 1 < sval 256 i" "sval 256 i < 2 ^ 63"
    and "host_args t [LString word, LNum n]" "length word = 16" "val n = 2 ^ 60"
  shows "strFind s = Inl (VPanic slice_panic) \<and>
    strRep t = Inl (VPanic (PMessage ''strings: Repeat output length overflow''))"
proof
  have arg: "position_arg 3 d s = Inr (i, s)" for d
    using GetTop_args [OF assms(1)] Get_args [OF assms(1), of 3] CheckUint256_number [OF assms(1), of 3]
    by (simp add: position_arg_def bnd_def)
  have ix: "luaU256Index2StringIndex str i True = sval 256 i - 1"
    using Index2StringIndex_start [of i str] assms(3-5) by simp
  have plain: "ls_ToBool 4 s = Inr (True, s)"
    using Get_args [OF assms(1), of 4] by (simp add: ls_ToBool_def bnd_def ret_def slot_AsBool_def)
  show "strFind s = Inl (VPanic slice_panic)"
    using CheckString_args [OF assms(1), of 1] CheckString_args [OF assms(1), of 2] GetTop_args [OF assms(1)] assms(2,4)
    by (simp add: strFind_def bnd_def arg ix plain Let_def find_plain_def go_slice_def vpanic_def)
  have args: "CheckString 1 t = Inr (word, t)" "CheckInt 2 t = Inr (2 ^ 60, t)" "OptString 3 '''' t = Inr ('''', t)"
    using CheckString_args [OF assms(6), of 1] Get_args [OF assms(6), of 2] Get_beyond [OF assms(6), of 3] assms(8)
    by (simp_all add: CheckInt_def checked_int_def OptString_def opt_arg_def bnd_def ret_def lu256ToInt_val)
  have len: "rep_length word '''' (2 ^ 60) = 0"
    using assms(7) by (simp add: rep_length_def wrap64_def)
  show "strRep t = Inl (VPanic (PMessage ''strings: Repeat output length overflow''))"
    using assms(7) by (simp add: strRep_def bnd_def args len [simplified] Let_def whenM_def and_then_def ret_def maxStringResultBytes_def strings_Repeat_def vpanic_def)
qed

theorem string_panics_witness:
  "strFind (demo_frame [LString ''ab'', LString ''b'', LNum (LU256 4 0 0 0), LBool True]) = Inl (VPanic slice_panic)"
proof -
  have "sval 256 (LU256 4 0 0 0) = 4" "val (LU256 1152921504606846976 0 0 0) = 2 ^ 60" by (simp_all add: sval_def val_LU256)
  then show ?thesis
    using string_panics [OF demo_frame_args _ _ _ _ demo_frame_args, of "''b''" "''ab''" "LU256 4 0 0 0" "replicate 16 (CHR ''a'')"
        "LU256 1152921504606846976 0 0 0"] by simp
qed

end
