(* ===== verification/LuaScanner.thy ===== *)
theory LuaScanner
  imports UintText "HOL-Library.Sublist"
begin

text \<open>
  The scanner of the language core (\<^verbatim>\<open>parse/lexer.go\<close>): positions, white space and comments,
  names, numbers, the three kinds of strings with their escapes, and the tokens the generated
  parser asks for one by one. A character is an integer, -1 at the end of the source; Go's
  \<^verbatim>\<open>error\<close> results are options, so that a caller sees the buffer a failed call has filled. The
  reader is the list of the bytes that are left. Results are in theory \<open>ScannerFacts\<close>.
\<close>

section \<open>Characters\<close>

abbreviation rune :: "char \<Rightarrow> int" where "rune c \<equiv> of_char c"

lemma rune_bounds [simp]: "0 \<le> rune c" "rune c < 256" "rune c \<noteq> - 1" "- 1 \<noteq> rune c"
proof -
  have "rune c = int (of_char c)" by (rule of_nat_of_char [symmetric])
  moreover have "(of_char c :: nat) < 256" by (rule nat_of_char_less_256)
  ultimately show "0 \<le> rune c" "rune c < 256" "rune c \<noteq> - 1" "- 1 \<noteq> rune c" by linarith+
qed

definition EOF :: int where "EOF = -1"

definition whitespace1 :: u64 where "whitespace1 = push_bit 9 1 OR push_bit 32 1"
definition whitespace2 :: u64 where "whitespace2 = push_bit 9 1 OR push_bit 10 1 OR push_bit 13 1 OR push_bit 32 1"

definition writeChar :: "string \<Rightarrow> int \<Rightarrow> string" where
  "writeChar buf c = buf @ [char_of (nat (c mod 256))]"

definition char_range :: "char \<Rightarrow> int \<Rightarrow> char \<Rightarrow> bool" where
  "char_range a ch b \<longleftrightarrow> rune a \<le> ch \<and> ch \<le> rune b"

definition isDecimal :: "int \<Rightarrow> bool" where
  "isDecimal ch \<longleftrightarrow> char_range (CHR ''0'') ch (CHR ''9'')"

definition isHex :: "int \<Rightarrow> bool" where
  "isHex ch \<longleftrightarrow> char_range (CHR ''0'') ch (CHR ''9'') \<or> char_range (CHR ''a'') ch (CHR ''f'') \<or> char_range (CHR ''A'') ch (CHR ''F'')"

definition isIdent :: "int \<Rightarrow> int \<Rightarrow> bool" where
  "isIdent ch pos \<longleftrightarrow> ch = rune (CHR ''_'') \<or> char_range (CHR ''A'') ch (CHR ''Z'') \<or> char_range (CHR ''a'') ch (CHR ''z'') \<or>
     isDecimal ch \<and> pos > 0"

definition is_digit :: "int \<Rightarrow> bool" where
  "is_digit ch \<longleftrightarrow> char_range (CHR ''0'') ch (CHR ''9'') \<or> char_range (CHR ''a'') ch (CHR ''f'') \<or> char_range (CHR ''A'') ch (CHR ''F'')"

text \<open>\<^verbatim>\<open>string(rune(ch))\<close>: the replacement character for a number that is no code point.\<close>

definition rune_text :: "int \<Rightarrow> string" where
  "rune_text ch = utf8_EncodeRune (if ch < 0 then 0xFFFD else nat ch)"

section \<open>The scanner\<close>

record lua_position =
  pos_Source :: string
  pos_Line :: int
  pos_Column :: int

record lua_token =
  tk_Type :: int
  tk_Name :: string
  tk_Str :: string
  tk_Pos :: lua_position

text \<open>\<^verbatim>\<open>Error\<close>: position, message and token.\<close>

datatype scan_error = ScanError lua_position string string

fun scan_error_text :: "scan_error \<Rightarrow> string" where
  "scan_error_text (ScanError pos msg tok) =
     (if pos_Line pos = EOF then pos_Source pos @ '' at EOF:   '' @ msg @ [CHR 10]
      else pos_Source pos @ '' line:'' @ itoa (pos_Line pos) @ ''(column:'' @ itoa (pos_Column pos) @ '') near '' @
        [CHR 39] @ tok @ [CHR 39] @ '':   '' @ msg @ [CHR 10])"

record lua_scanner =
  scan_Pos :: lua_position
  bytes_left :: string

definition NewScanner :: "string \<Rightarrow> string \<Rightarrow> lua_scanner" where
  "NewScanner src source = \<lparr>scan_Pos = \<lparr>pos_Source = source, pos_Line = 1, pos_Column = 0\<rparr>, bytes_left = src\<rparr>"

definition Scanner_Error :: "lua_scanner \<Rightarrow> string \<Rightarrow> string \<Rightarrow> scan_error" where
  "Scanner_Error sc tok msg = ScanError (scan_Pos sc) msg tok"

definition Scanner_TokenError :: "lua_token \<Rightarrow> string \<Rightarrow> scan_error" where
  "Scanner_TokenError tok msg = ScanError (tk_Pos tok) msg (tk_Str tok)"

definition readNext :: "lua_scanner \<Rightarrow> int \<times> lua_scanner" where
  "readNext sc = (case bytes_left sc of [] \<Rightarrow> (EOF, sc) | c # cs \<Rightarrow> (rune c, sc\<lparr>bytes_left := cs\<rparr>))"

text \<open>\<^verbatim>\<open>Peek\<close> reads a byte and puts it back.\<close>

definition Scanner_Peek :: "lua_scanner \<Rightarrow> int" where
  "Scanner_Peek sc = fst (readNext sc)"

definition Newline :: "int \<Rightarrow> lua_scanner \<Rightarrow> lua_scanner" where
  "Newline ch sc =
     (if ch < 0 then sc
      else let sc = sc\<lparr>scan_Pos := (scan_Pos sc)\<lparr>pos_Line := pos_Line (scan_Pos sc) + 1, pos_Column := 0\<rparr>\<rparr>;
               next_ch = Scanner_Peek sc
           in if ch = 10 \<and> next_ch = 13 \<or> ch = 13 \<and> next_ch = 10 then snd (readNext sc) else sc)"

definition Scanner_Next :: "lua_scanner \<Rightarrow> int \<times> lua_scanner" where
  "Scanner_Next sc =
     (let (ch, sc) = readNext sc
      in if ch = 10 \<or> ch = 13 then (10, Newline ch sc)
         else if ch = EOF then (ch, sc\<lparr>scan_Pos := (scan_Pos sc)\<lparr>pos_Line := EOF, pos_Column := 0\<rparr>\<rparr>)
         else (ch, sc\<lparr>scan_Pos := (scan_Pos sc)\<lparr>pos_Column := pos_Column (scan_Pos sc) + 1\<rparr>\<rparr>))"

text \<open>A byte that is there is read; at the end of the source nothing is.\<close>

lemma Scanner_Next_cases:
  assumes "Scanner_Next sc = (ch, sc')"
  obtains "bytes_left sc = []" "ch = EOF" "bytes_left sc' = []"
    | "bytes_left sc \<noteq> []" "0 \<le> ch" "ch < 256" "strict_suffix (bytes_left sc') (bytes_left sc)"
proof (cases "bytes_left sc")
  case Nil
  then show ?thesis using assms that(1) by (auto simp: Scanner_Next_def readNext_def EOF_def)
next
  case (Cons c cs)
  have "suffix (bytes_left sc') cs" "0 \<le> ch" "ch < 256"
    using assms Cons
    by (auto simp: Scanner_Next_def readNext_def Newline_def Scanner_Peek_def Let_def suffix_def EOF_def
        split: if_splits list.splits)
  moreover from this have "strict_suffix (bytes_left sc') (bytes_left sc)"
    unfolding Cons by (auto simp: strict_suffix_def suffix_def)
  ultimately show ?thesis using that(2) Cons by simp
qed

lemma Scanner_Next_suffix: "Scanner_Next sc = (ch, sc') \<Longrightarrow> suffix (bytes_left sc') (bytes_left sc)"
  by (erule Scanner_Next_cases) (auto simp: strict_suffix_def)

lemma suffix_shorter: "suffix xs ys \<Longrightarrow> length xs \<le> length ys"
  by (auto simp: suffix_def)

lemma strict_suffix_shorter: "strict_suffix xs ys \<Longrightarrow> length xs < length ys"
  by (auto simp: strict_suffix_def suffix_def)

lemma Scanner_Next_shorter: "Scanner_Next sc = (ch, sc') \<Longrightarrow> 0 \<le> ch \<Longrightarrow> length (bytes_left sc') < length (bytes_left sc)"
  by (erule Scanner_Next_cases) (auto simp: EOF_def dest: strict_suffix_shorter)

text \<open>What is left to read, with the character in hand: the measure of the loops.\<close>

definition remaining :: "int \<Rightarrow> lua_scanner \<Rightarrow> nat" where
  "remaining ch sc = length (bytes_left sc) + (if ch < 0 then 0 else 1)"

lemma remaining_Next: "Scanner_Next sc = (ch', sc') \<Longrightarrow> 0 \<le> ch \<Longrightarrow> remaining ch' sc' < remaining ch sc"
  by (erule Scanner_Next_cases) (auto simp: remaining_def EOF_def dest: strict_suffix_shorter)

section \<open>White space, names and numbers\<close>

function skipWhiteSpace :: "u64 \<Rightarrow> lua_scanner \<Rightarrow> int \<times> lua_scanner" where
  "skipWhiteSpace ws sc =
     (let (ch, sc') = Scanner_Next sc
      in if 0 \<le> ch \<and> bit ws (nat ch) then skipWhiteSpace ws sc' else (ch, sc'))"
  by pat_completeness auto
termination by (relation "measure (\<lambda>(ws, sc). length (bytes_left sc))") (auto dest!: sym [of "(_, _)"] Scanner_Next_shorter)

text \<open>\<^verbatim>\<open>for p(sc.Peek()) { writeChar(buf, sc.Next()) }\<close>; no class of characters contains the end of the source.\<close>

function write_while :: "(int \<Rightarrow> bool) \<Rightarrow> lua_scanner \<Rightarrow> string \<Rightarrow> string \<times> lua_scanner" where
  "write_while p sc buf =
     (if Scanner_Peek sc \<noteq> EOF \<and> p (Scanner_Peek sc)
      then let (ch, sc') = Scanner_Next sc in write_while p sc' (writeChar buf ch)
      else (buf, sc))"
  by pat_completeness auto
termination
proof (relation "measure (\<lambda>(p, sc, buf). length (bytes_left sc))", goal_cases)
  case (2 p sc buf x ch sc')
  then show ?case
    by (auto dest!: sym [of "(_, _)"] elim!: Scanner_Next_cases strict_suffix_shorter simp: Scanner_Peek_def readNext_def EOF_def)
qed simp

declare skipWhiteSpace.simps [simp del] write_while.simps [simp del]

definition scanIdent :: "int \<Rightarrow> lua_scanner \<Rightarrow> string \<Rightarrow> string \<times> lua_scanner" where
  "scanIdent ch sc buf = write_while (\<lambda>c. isIdent c 1) sc (writeChar buf ch)"

definition scanDecimal :: "int \<Rightarrow> lua_scanner \<Rightarrow> string \<Rightarrow> string \<times> lua_scanner" where
  "scanDecimal ch sc buf = write_while isDecimal sc (writeChar buf ch)"

definition scan_exponent :: "lua_scanner \<Rightarrow> string \<Rightarrow> string \<times> lua_scanner" where
  "scan_exponent sc buf =
     (if Scanner_Peek sc = rune (CHR ''e'') \<or> Scanner_Peek sc = rune (CHR ''E'')
      then let (ch, sc) = Scanner_Next sc;
               buf = writeChar buf ch;
               (buf, sc) = (if Scanner_Peek sc = rune (CHR ''-'') \<or> Scanner_Peek sc = rune (CHR ''+'')
                            then let (ch, sc) = Scanner_Next sc in (writeChar buf ch, sc) else (buf, sc));
               (ch, sc) = Scanner_Next sc
           in scanDecimal ch sc buf
      else (buf, sc))"

definition scan_fraction :: "lua_scanner \<Rightarrow> string \<Rightarrow> string \<times> lua_scanner" where
  "scan_fraction sc buf =
     (if Scanner_Peek sc = rune (CHR ''.'') then let (ch, sc) = Scanner_Next sc in scanDecimal ch sc buf
      else (buf, sc))"

definition scan_hexadecimal :: "int \<Rightarrow> lua_scanner \<Rightarrow> string \<Rightarrow> scan_error option \<times> string \<times> lua_scanner" where
  "scan_hexadecimal ch sc buf =
     (let buf = writeChar buf ch;
          (ch, sc) = Scanner_Next sc;
          buf0 = writeChar buf ch;
          (buf, sc') = write_while is_digit sc buf0
      in (if buf = buf0 then Some (Scanner_Error sc' buf ''illegal hexadecimal number'') else None, buf, sc'))"

definition scanNumber :: "int \<Rightarrow> lua_scanner \<Rightarrow> string \<Rightarrow> scan_error option \<times> string \<times> lua_scanner" where
  "scanNumber ch sc buf =
     (if ch = rune (CHR ''0'') \<and> (Scanner_Peek sc = rune (CHR ''x'') \<or> Scanner_Peek sc = rune (CHR ''X''))
      then scan_hexadecimal ch sc buf
      else let (ch, sc) = (if ch = rune (CHR ''0'') \<and> Scanner_Peek sc \<noteq> rune (CHR ''.'') \<and> isDecimal (Scanner_Peek sc)
                           then Scanner_Next sc else (ch, sc));
               (buf, sc) = scanDecimal ch sc buf;
               (buf, sc) = scan_fraction sc buf;
               (buf, sc) = scan_exponent sc buf
           in (None, buf, sc))"

section \<open>Strings\<close>

definition escape_char :: "int \<Rightarrow> int option" where
  "escape_char ch = map_of
     [(rune (CHR ''a''), 7), (rune (CHR ''b''), 8), (rune (CHR ''f''), 12), (rune (CHR ''n''), 10),
      (rune (CHR ''r''), 13), (rune (CHR ''t''), 9), (rune (CHR ''v''), 11), (92, 92), (34, 34), (39, 39), (10, 10)] ch"

definition scan_hex_escape :: "lua_scanner \<Rightarrow> string \<Rightarrow> scan_error option \<times> string \<times> lua_scanner" where
  "scan_hex_escape sc buf =
     (let msg = [CHR 92] @ ''x escape requires exactly two hex digits'';
          (a, sc) = Scanner_Next sc
      in if \<not> isHex a then (Some (Scanner_Error sc (rune_text a) msg), buf, sc)
         else let (b, sc) = Scanner_Next sc
              in if \<not> isHex b then (Some (Scanner_Error sc (rune_text b) msg), buf, sc)
                 else (None, writeChar buf (int (the (digits_value 16 0 (writeChar (writeChar [] a) b)))), sc))"

function skip_all_space :: "lua_scanner \<Rightarrow> lua_scanner" where
  "skip_all_space sc =
     (if Scanner_Peek sc \<in> {32, 9, 10, 13, 11, 12} then skip_all_space (snd (Scanner_Next sc)) else sc)"
  by pat_completeness auto
termination
proof (relation "measure (\<lambda>sc. length (bytes_left sc))", goal_cases)
  case (2 sc)
  obtain ch sc' where n: "Scanner_Next sc = (ch, sc')" by force
  from 2 have "bytes_left sc \<noteq> []" by (auto simp: Scanner_Peek_def readNext_def EOF_def)
  with n show ?case by (auto elim!: Scanner_Next_cases simp: strict_suffix_shorter)
qed simp

text \<open>The digits of \<^verbatim>\<open>\u{...}\<close>, behind the brace.\<close>

function scan_braced_hex :: "lua_scanner \<Rightarrow> string \<Rightarrow> scan_error option \<times> string \<times> lua_scanner" where
  "scan_braced_hex sc hexBuf =
     (let (nc, sc') = Scanner_Next sc
      in if nc < 0 then (Some (Scanner_Error sc' ([CHR 92] @ ''u{'') (''unterminated '' @ [CHR 92] @ ''u{...} escape'')), hexBuf, sc')
         else if nc = rune (CHR ''}'') then (None, hexBuf, sc')
         else if \<not> isHex nc
         then (Some (Scanner_Error sc' (rune_text nc) ([CHR 92] @ ''u escape has invalid hex digit'')), hexBuf, sc')
         else scan_braced_hex sc' (writeChar hexBuf nc))"
  by pat_completeness auto
termination by (relation "measure (\<lambda>(sc, buf). length (bytes_left sc))") (auto dest!: sym [of "(_, _)"] Scanner_Next_shorter)

declare skip_all_space.simps [simp del] scan_braced_hex.simps [simp del]

definition scan_unicode_escape :: "lua_scanner \<Rightarrow> string \<Rightarrow> scan_error option \<times> string \<times> lua_scanner" where
  "scan_unicode_escape sc buf =
     (let u = [CHR 92] @ ''u''; (ch, sc) = Scanner_Next sc
      in if ch \<noteq> rune (CHR ''{'') then (Some (Scanner_Error sc u (u @ '' escape requires '' @ [CHR 39] @ ''{'' @ [CHR 39])), buf, sc)
         else let (err, hexBuf, sc) = scan_braced_hex sc []
              in if err \<noteq> None then (err, buf, sc)
                 else if hexBuf = [] then (Some (Scanner_Error sc (u @ ''{}'') (u @ '' escape requires at least one hex digit'')), buf, sc)
                 else let codepoint = the (digits_value 16 0 hexBuf)
                      in if codepoint \<ge> 2 ^ 31 \<or> codepoint > 0x10FFFF \<or> 0xD800 \<le> codepoint \<and> codepoint \<le> 0xDFFF
                         then (Some (Scanner_Error sc hexBuf (''invalid Unicode codepoint in '' @ u @ '' escape'')), buf, sc)
                         else (None, buf @ utf8_EncodeRune codepoint, sc))"

fun scan_digits :: "nat \<Rightarrow> lua_scanner \<Rightarrow> string \<Rightarrow> string \<times> lua_scanner" where
  "scan_digits 0 sc bs = (bs, sc)"
| "scan_digits (Suc i) sc bs =
     (if isDecimal (Scanner_Peek sc) then let (ch, sc) = Scanner_Next sc in scan_digits i sc (writeChar bs ch)
      else (bs, sc))"

definition scanEscape :: "lua_scanner \<Rightarrow> string \<Rightarrow> scan_error option \<times> string \<times> lua_scanner" where
  "scanEscape sc buf =
     (let (ch, sc) = Scanner_Next sc
      in case escape_char ch of
           Some c \<Rightarrow> (None, writeChar buf c, sc)
         | None \<Rightarrow>
             if ch = 13 then (None, writeChar buf 10, Newline 13 sc)
             else if ch = rune (CHR ''x'') then scan_hex_escape sc buf
             else if ch = rune (CHR ''z'') then (None, buf, skip_all_space sc)
             else if ch = rune (CHR ''u'') then scan_unicode_escape sc buf
             else if isDecimal ch
             then let (bs, sc) = scan_digits 2 sc (writeChar [] ch)
                  in (None, writeChar buf (int (the (digits_value 10 0 bs))), sc)
             else (None, writeChar buf ch, sc))"

text \<open>Every operation leaves a rest of what was to be read.\<close>

named_theorems rest_left

lemmas [rest_left] = Scanner_Next_suffix

lemma Newline_left: "suffix (bytes_left (Newline ch sc)) (bytes_left sc)"
  by (auto simp: Newline_def readNext_def Let_def suffix_def split: list.splits)

lemma skipWhiteSpace_left [rest_left]: "skipWhiteSpace ws sc = (ch, sc') \<Longrightarrow> suffix (bytes_left sc') (bytes_left sc)"
proof (induction ws sc rule: skipWhiteSpace.induct)
  case (1 ws sc)
  obtain c s where n: "Scanner_Next sc = (c, s)" by force
  show ?case
    using 1(2) Scanner_Next_suffix [OF n] 1(1) [OF refl n [symmetric]]
    by (auto simp: skipWhiteSpace.simps [of ws sc] n split: if_splits intro: suffix_order.trans)
qed

lemma write_while_left [rest_left]: "write_while p sc buf = (buf', sc') \<Longrightarrow> suffix (bytes_left sc') (bytes_left sc)"
proof (induction p sc buf rule: write_while.induct)
  case (1 p sc buf)
  obtain c s where n: "Scanner_Next sc = (c, s)" by force
  show ?case
    using 1(2) Scanner_Next_suffix [OF n] 1(1) [OF _ refl n [symmetric]]
    by (auto simp: write_while.simps [of p sc buf] n split: if_splits intro: suffix_order.trans)
qed

lemma scanDecimal_left [rest_left]: "scanDecimal ch sc buf = (buf', sc') \<Longrightarrow> suffix (bytes_left sc') (bytes_left sc)"
  unfolding scanDecimal_def by (rule write_while_left)

lemma scanIdent_left [rest_left]: "scanIdent ch sc buf = (buf', sc') \<Longrightarrow> suffix (bytes_left sc') (bytes_left sc)"
  unfolding scanIdent_def by (rule write_while_left)

lemma scan_fraction_left [rest_left]: "scan_fraction sc buf = (buf', sc') \<Longrightarrow> suffix (bytes_left sc') (bytes_left sc)"
  by (auto simp: scan_fraction_def split: prod.splits if_splits dest!: rest_left; blast intro: suffix_order.trans)

lemma scan_exponent_left [rest_left]: "scan_exponent sc buf = (buf', sc') \<Longrightarrow> suffix (bytes_left sc') (bytes_left sc)"
  by (auto simp: scan_exponent_def Let_def split: prod.splits if_splits dest!: rest_left; blast intro: suffix_order.trans)

lemma scan_hexadecimal_left [rest_left]:
  "scan_hexadecimal ch sc buf = (err, buf', sc') \<Longrightarrow> suffix (bytes_left sc') (bytes_left sc)"
  by (auto simp: scan_hexadecimal_def Let_def split: prod.splits dest!: rest_left; blast intro: suffix_order.trans)

lemma scanNumber_left [rest_left]: "scanNumber ch sc buf = (err, buf', sc') \<Longrightarrow> suffix (bytes_left sc') (bytes_left sc)"
  by (auto simp: scanNumber_def Let_def split: prod.splits if_splits dest!: rest_left; blast intro: suffix_order.trans)

lemma scan_hex_escape_left [rest_left]:
  "scan_hex_escape sc buf = (err, buf', sc') \<Longrightarrow> suffix (bytes_left sc') (bytes_left sc)"
  by (auto simp: scan_hex_escape_def Let_def split: prod.splits if_splits dest!: rest_left; blast intro: suffix_order.trans)

lemma skip_all_space_left: "suffix (bytes_left (skip_all_space sc)) (bytes_left sc)"
proof (induction sc rule: skip_all_space.induct)
  case (1 sc)
  then show ?case
    using Scanner_Next_suffix [OF prod.collapse [symmetric], of sc]
    by (subst skip_all_space.simps) (auto intro: suffix_order.trans)
qed

lemma scan_braced_hex_left [rest_left]:
  "scan_braced_hex sc buf = (err, buf', sc') \<Longrightarrow> suffix (bytes_left sc') (bytes_left sc)"
proof (induction sc buf rule: scan_braced_hex.induct)
  case (1 sc buf)
  obtain c s where n: "Scanner_Next sc = (c, s)" by force
  show ?case
    using 1(2) Scanner_Next_suffix [OF n] 1(1) [OF refl n [symmetric]]
    by (auto simp: scan_braced_hex.simps [of sc buf] n split: if_splits intro: suffix_order.trans)
qed

lemma scan_unicode_escape_left [rest_left]:
  "scan_unicode_escape sc buf = (err, buf', sc') \<Longrightarrow> suffix (bytes_left sc') (bytes_left sc)"
  by (auto simp: scan_unicode_escape_def Let_def split: prod.splits if_splits dest!: rest_left;
      blast intro: suffix_order.trans)

lemma scan_digits_left [rest_left]: "scan_digits i sc bs = (bs', sc') \<Longrightarrow> suffix (bytes_left sc') (bytes_left sc)"
  by (induction i sc bs rule: scan_digits.induct)
    (auto split: prod.splits if_splits dest!: Scanner_Next_suffix intro: suffix_order.trans)

lemma scanEscape_left [rest_left]: "scanEscape sc buf = (err, buf', sc') \<Longrightarrow> suffix (bytes_left sc') (bytes_left sc)"
  by (auto simp: scanEscape_def Let_def split: prod.splits if_splits option.splits
      dest!: rest_left intro: suffix_order.trans [OF Newline_left] suffix_order.trans [OF skip_all_space_left];
      blast intro: suffix_order.trans)

text \<open>A literal, the character \<open>ch\<close> in hand.\<close>

function scan_string_body :: "int \<Rightarrow> int \<Rightarrow> lua_scanner \<Rightarrow> string \<Rightarrow> scan_error option \<times> string \<times> lua_scanner" where
  "scan_string_body quote ch sc buf =
     (if ch = quote then (None, buf, sc)
      else if ch = 10 \<or> ch = 13 \<or> ch < 0 then (Some (Scanner_Error sc buf ''unterminated string''), buf, sc)
      else let (err, buf, sc) = (if ch = 92 then scanEscape sc buf else (None, writeChar buf ch, sc))
           in if err \<noteq> None then (err, buf, sc)
              else let (ch, sc) = Scanner_Next sc in scan_string_body quote ch sc buf)"
  by pat_completeness auto
termination
proof (relation "measure (\<lambda>(quote, ch, sc, buf). remaining ch sc)", goal_cases)
  case (2 quote ch sc buf x err y buf1 sc1 z ch' sc')
  then have "Scanner_Next sc1 = (ch', sc')" "suffix (bytes_left sc1) (bytes_left sc)"
    by (auto split: if_splits dest!: sym [of "(_, _)"] intro: scanEscape_left)
  then show ?case using 2 remaining_Next [of sc1 ch' sc' ch] by (auto simp: remaining_def dest: suffix_shorter)
qed simp

definition scanString :: "int \<Rightarrow> lua_scanner \<Rightarrow> string \<Rightarrow> scan_error option \<times> string \<times> lua_scanner" where
  "scanString quote sc buf = (let (ch, sc) = Scanner_Next sc in scan_string_body quote ch sc buf)"

declare scan_string_body.simps [simp del]

lemma scan_string_body_left: "scan_string_body quote ch sc buf = (err, buf', sc') \<Longrightarrow> suffix (bytes_left sc') (bytes_left sc)"
proof (induction quote ch sc buf rule: scan_string_body.induct)
  case (1 quote ch sc buf)
  show ?case
  proof (cases "ch = quote \<or> ch = 10 \<or> ch = 13 \<or> ch < 0")
    case True
    then show ?thesis using 1(2) by (auto simp: scan_string_body.simps [of quote ch sc buf] split: if_splits)
  next
    case False
    obtain e b s where e: "(if ch = 92 then scanEscape sc buf else (None, writeChar buf ch, sc)) = (e, b, s)"
      by (metis surj_pair)
    obtain c s' where n: "Scanner_Next s = (c, s')" by force
    have "suffix (bytes_left s) (bytes_left sc)" using e by (auto split: if_splits dest: scanEscape_left)
    then show ?thesis
      using 1(2) False Scanner_Next_suffix [OF n] 1(1) [OF _ _ refl e [symmetric] refl _ refl n [symmetric]]
      by (auto simp: scan_string_body.simps [of quote ch sc buf] e n split: if_splits intro: suffix_order.trans)
  qed
qed

lemma scanString_left [rest_left]: "scanString quote sc buf = (err, buf', sc') \<Longrightarrow> suffix (bytes_left sc') (bytes_left sc)"
  by (auto simp: scanString_def split: prod.splits dest!: Scanner_Next_suffix scan_string_body_left intro: suffix_order.trans)

function countSep :: "int \<Rightarrow> lua_scanner \<Rightarrow> nat \<times> int \<times> lua_scanner" where
  "countSep ch sc =
     (if ch = rune (CHR ''='')
      then let (ch', sc') = Scanner_Next sc; (count, ch', sc') = countSep ch' sc' in (count + 1, ch', sc')
      else (0, ch, sc))"
  by pat_completeness auto
termination
proof (relation "measure (\<lambda>(ch, sc). remaining ch sc)", goal_cases)
  case (2 ch sc x ch' sc')
  then show ?case using remaining_Next [of sc ch' sc' ch] by (auto split: prod.splits)
qed simp

declare countSep.simps [simp del]

lemma countSep_left: "countSep ch sc = (n, ch', sc') \<Longrightarrow> suffix (bytes_left sc') (bytes_left sc)"
proof (induction ch sc arbitrary: n rule: countSep.induct)
  case (1 ch sc)
  obtain c s where e: "Scanner_Next sc = (c, s)" by force
  obtain k c' s' where k: "countSep c s = (k, c', s')" by (metis surj_pair)
  show ?case
    using 1(2) Scanner_Next_suffix [OF e] 1(1) [OF _ e [symmetric] refl]
    by (auto simp: countSep.simps [of ch sc] e k split: if_splits intro: suffix_order.trans)
qed

lemma countSep_remaining: "countSep ch sc = (n, ch', sc') \<Longrightarrow> remaining ch' sc' \<le> remaining ch sc"
proof (induction ch sc arbitrary: n rule: countSep.induct)
  case (1 ch sc)
  obtain c s where e: "Scanner_Next sc = (c, s)" by force
  obtain k c' s' where k: "countSep c s = (k, c', s')" by (metis surj_pair)
  show ?case
    using 1(2) remaining_Next [OF e, of ch] 1(1) [OF _ e [symmetric] refl]
    by (fastforce simp: countSep.simps [of ch sc] e k split: if_splits)
qed

text \<open>The body of a long string of level \<open>count1\<close>.\<close>

function scan_long_body :: "nat \<Rightarrow> int \<Rightarrow> lua_scanner \<Rightarrow> string \<Rightarrow> scan_error option \<times> string \<times> lua_scanner" where
  "scan_long_body count1 ch sc buf =
     (if ch < 0 then (Some (Scanner_Error sc buf ''unterminated multiline string''), buf, sc)
      else if ch = rune (CHR '']'')
      then let (ch1, sc1) = Scanner_Next sc; (count2, ch2, sc2) = countSep ch1 sc1
           in if count1 = count2 \<and> ch2 = rune (CHR '']'') then (None, buf, sc2)
              else scan_long_body count1 ch2 sc2 (buf @ '']'' @ replicate count2 (CHR ''=''))
      else let (ch1, sc1) = Scanner_Next sc in scan_long_body count1 ch1 sc1 (writeChar buf ch))"
  by pat_completeness auto
termination
proof (relation "measure (\<lambda>(count1, ch, sc, buf). remaining ch sc)", goal_cases)
  case (2 count1 ch sc buf x ch1 sc1 y count2 z ch2 sc2)
  then show ?case
    using remaining_Next [of sc ch1 sc1 ch] countSep_remaining [of ch1 sc1 count2 ch2 sc2] by (auto split: prod.splits)
next
  case (3 count1 ch sc buf x ch1 sc1)
  then show ?case using remaining_Next [of sc ch1 sc1 ch] by (auto split: prod.splits)
qed simp

declare scan_long_body.simps [simp del]

lemma scan_long_body_left: "scan_long_body n ch sc buf = (err, buf', sc') \<Longrightarrow> suffix (bytes_left sc') (bytes_left sc)"
proof (induction n ch sc buf rule: scan_long_body.induct)
  case (1 n ch sc buf)
  obtain c s where e: "Scanner_Next sc = (c, s)" by force
  obtain k c' s' where k: "countSep c s = (k, c', s')" by (metis surj_pair)
  show ?case
    using 1(3) Scanner_Next_suffix [OF e] countSep_left [OF k] 1(1) [OF _ _ e [symmetric] refl k [symmetric] refl refl]
      1(2) [OF _ _ e [symmetric] refl]
    by (auto simp: scan_long_body.simps [of n ch sc buf] e k split: if_splits intro: suffix_order.trans)
qed

definition scanMultilineString :: "int \<Rightarrow> lua_scanner \<Rightarrow> string \<Rightarrow> scan_error option \<times> string \<times> lua_scanner" where
  "scanMultilineString ch sc buf =
     (let (count1, ch, sc) = countSep ch sc
      in if ch \<noteq> rune (CHR ''['') then (Some (Scanner_Error sc (rune_text ch) ''invalid multiline string''), buf, sc)
         else let (ch, sc) = Scanner_Next sc;
                  (ch, sc) = (if ch = 10 \<or> ch = 13 then Scanner_Next sc else (ch, sc))
              in scan_long_body count1 ch sc buf)"

lemma scanMultilineString_left [rest_left]:
  "scanMultilineString ch sc buf = (err, buf', sc') \<Longrightarrow> suffix (bytes_left sc') (bytes_left sc)"
  by (auto simp: scanMultilineString_def Let_def split: prod.splits if_splits
      dest!: Scanner_Next_suffix countSep_left scan_long_body_left; blast intro: suffix_order.trans)

section \<open>Comments\<close>

function skip_line :: "int \<Rightarrow> lua_scanner \<Rightarrow> lua_scanner" where
  "skip_line ch sc =
     (if ch = 10 \<or> ch = 13 \<or> ch < 0 then sc else let (ch', sc') = Scanner_Next sc in skip_line ch' sc')"
  by pat_completeness auto
termination
proof (relation "measure (\<lambda>(ch, sc). remaining ch sc)", goal_cases)
  case (2 ch sc x ch' sc')
  then show ?case using remaining_Next [of sc ch' sc' ch] by (auto split: prod.splits)
qed simp

declare skip_line.simps [simp del]

lemma skip_line_left: "suffix (bytes_left (skip_line ch sc)) (bytes_left sc)"
proof (induction ch sc rule: skip_line.induct)
  case (1 ch sc)
  obtain c s where e: "Scanner_Next sc = (c, s)" by force
  show ?case
    using Scanner_Next_suffix [OF e] 1 [OF _ e [symmetric] refl]
    by (auto simp: skip_line.simps [of ch sc] e intro: suffix_order.trans)
qed

definition skipComments :: "int \<Rightarrow> lua_scanner \<Rightarrow> scan_error option \<times> lua_scanner" where
  "skipComments ch sc =
     (if Scanner_Peek sc = rune (CHR ''['')
      then let (ch, sc) = Scanner_Next sc
           in if Scanner_Peek sc = rune (CHR ''['') \<or> Scanner_Peek sc = rune (CHR ''='')
              then let (ch, sc) = Scanner_Next sc; (err, buf, sc) = scanMultilineString ch sc []
                   in (if err \<noteq> None then Some (Scanner_Error sc buf ''invalid multiline comment'') else None, sc)
              else (None, skip_line ch sc)
      else (None, skip_line ch sc))"

lemma skipComments_left [rest_left]: "skipComments ch sc = (err, sc') \<Longrightarrow> suffix (bytes_left sc') (bytes_left sc)"
  by (auto simp: skipComments_def Let_def split: prod.splits if_splits
      dest!: Scanner_Next_suffix scanMultilineString_left intro: skip_line_left suffix_order.trans [OF skip_line_left];
      blast intro: suffix_order.trans)

section \<open>Tokens\<close>

definition TAnd :: int where "TAnd = 57346"
definition TBreak :: int where "TBreak = 57347"
definition TDo :: int where "TDo = 57348"
definition TElse :: int where "TElse = 57349"
definition TElseIf :: int where "TElseIf = 57350"
definition TEnd :: int where "TEnd = 57351"
definition TFalse :: int where "TFalse = 57352"
definition TFor :: int where "TFor = 57353"
definition TFunction :: int where "TFunction = 57354"
definition TIf :: int where "TIf = 57355"
definition TIn :: int where "TIn = 57356"
definition TLocal :: int where "TLocal = 57357"
definition TNil :: int where "TNil = 57358"
definition TNot :: int where "TNot = 57359"
definition TOr :: int where "TOr = 57360"
definition TReturn :: int where "TReturn = 57361"
definition TRepeat :: int where "TRepeat = 57362"
definition TThen :: int where "TThen = 57363"
definition TTrue :: int where "TTrue = 57364"
definition TUntil :: int where "TUntil = 57365"
definition TWhile :: int where "TWhile = 57366"
definition TGoto :: int where "TGoto = 57367"
definition TEqeq :: int where "TEqeq = 57368"
definition TNeq :: int where "TNeq = 57369"
definition TLte :: int where "TLte = 57370"
definition TGte :: int where "TGte = 57371"
definition T2Comma :: int where "T2Comma = 57372"
definition T3Comma :: int where "T3Comma = 57373"
definition T2Colon :: int where "T2Colon = 57374"
definition TShl :: int where "TShl = 57375"
definition TShr :: int where "TShr = 57376"
definition TFloorDiv :: int where "TFloorDiv = 57377"
definition TIdent :: int where "TIdent = 57378"
definition TNumber :: int where "TNumber = 57379"
definition TString :: int where "TString = 57380"
definition UNARY :: int where "UNARY = 57381"

lemmas token_types =
  TAnd_def TBreak_def TDo_def TElse_def TElseIf_def TEnd_def
  TFalse_def TFor_def TFunction_def TIf_def TIn_def TLocal_def
  TNil_def TNot_def TOr_def TReturn_def TRepeat_def TThen_def
  TTrue_def TUntil_def TWhile_def TGoto_def TEqeq_def TNeq_def
  TLte_def TGte_def T2Comma_def T3Comma_def T2Colon_def TShl_def
  TShr_def TFloorDiv_def TIdent_def TNumber_def TString_def UNARY_def

definition yyToknames :: "string list" where
  "yyToknames =
     [''$end'', ''error'', ''$unk'', ''TAnd'', ''TBreak'', ''TDo'', ''TElse'', ''TElseIf'',
      ''TEnd'', ''TFalse'', ''TFor'', ''TFunction'', ''TIf'', ''TIn'', ''TLocal'', ''TNil'',
      ''TNot'', ''TOr'', ''TReturn'', ''TRepeat'', ''TThen'', ''TTrue'', ''TUntil'', ''TWhile'',
      ''TGoto'', ''TEqeq'', ''TNeq'', ''TLte'', ''TGte'', ''T2Comma'', ''T3Comma'', ''T2Colon'',
      ''TShl'', ''TShr'', ''TFloorDiv'', ''TIdent'', ''TNumber'', ''TString'',
      [CHR 39, CHR ''{'', CHR 39], [CHR 39, CHR ''('', CHR 39], [CHR 39, CHR ''>'', CHR 39],
      [CHR 39, CHR ''<'', CHR 39], [CHR 39, CHR ''|'', CHR 39], [CHR 39, CHR ''~'', CHR 39],
      [CHR 39, CHR ''&'', CHR 39], [CHR 39, CHR ''+'', CHR 39], [CHR 39, CHR ''-'', CHR 39],
      [CHR 39, CHR ''*'', CHR 39], [CHR 39, CHR ''/'', CHR 39], [CHR 39, CHR ''%'', CHR 39],
      ''UNARY'', [CHR 39, CHR ''^'', CHR 39], [CHR 39, CHR '';'', CHR 39],
      [CHR 39, CHR ''='', CHR 39], [CHR 39, CHR '','', CHR 39], [CHR 39, CHR '':'', CHR 39],
      [CHR 39, CHR ''.'', CHR 39], [CHR 39, CHR ''['', CHR 39], [CHR 39, CHR '']'', CHR 39],
      [CHR 39, CHR ''#'', CHR 39], [CHR 39, CHR '')'', CHR 39], [CHR 39, CHR ''}'', CHR 39]]"

definition TokenName :: "int \<Rightarrow> string" where
  "TokenName c =
     (if c \<ge> TAnd \<and> c - TAnd < int (length yyToknames) \<and> yyToknames ! nat (c - TAnd) \<noteq> [] then yyToknames ! nat (c - TAnd)
      else writeChar [] c)"

definition reservedWords :: "string \<Rightarrow> int option" where
  "reservedWords = map_of
     [(''and'', TAnd), (''break'', TBreak), (''do'', TDo), (''else'', TElse), (''elseif'', TElseIf),
      (''end'', TEnd), (''false'', TFalse), (''for'', TFor), (''function'', TFunction),
      (''if'', TIf), (''in'', TIn), (''local'', TLocal), (''nil'', TNil), (''not'', TNot), (''or'', TOr),
      (''return'', TReturn), (''repeat'', TRepeat), (''then'', TThen), (''true'', TTrue),
      (''until'', TUntil), (''while'', TWhile), (''goto'', TGoto)]"

text \<open>What one pass of \<^verbatim>\<open>Scan\<close> finds: type, text and error of a token, or that it has to start again.\<close>

datatype scan_pass = Redo lua_scanner | Found int string "scan_error option" lua_scanner

definition one_char :: "int \<Rightarrow> lua_scanner \<Rightarrow> scan_pass" where
  "one_char ch sc = Found ch (rune_text ch) None sc"

definition two_chars :: "int \<Rightarrow> string \<Rightarrow> lua_scanner \<Rightarrow> scan_pass" where
  "two_chars ty str sc = Found ty str None (snd (Scanner_Next sc))"

definition scan_name :: "int \<Rightarrow> lua_scanner \<Rightarrow> scan_pass" where
  "scan_name ch sc =
     (let (str, sc) = scanIdent ch sc []
      in Found (case reservedWords str of Some typ \<Rightarrow> typ | None \<Rightarrow> TIdent) str None sc)"

definition found_literal :: "int \<Rightarrow> scan_error option \<times> string \<times> lua_scanner \<Rightarrow> scan_pass" where
  "found_literal ty r = (let (err, str, sc) = r in Found ty str err sc)"

definition scan_minus :: "int \<Rightarrow> lua_scanner \<Rightarrow> scan_pass" where
  "scan_minus ch sc =
     (if Scanner_Peek sc = rune (CHR ''-'')
      then let (ch, sc) = Scanner_Next sc; (err, sc) = skipComments ch sc
           in if err \<noteq> None then Found 0 [] err sc else Redo sc
      else one_char ch sc)"

definition scan_bracket :: "int \<Rightarrow> lua_scanner \<Rightarrow> scan_pass" where
  "scan_bracket ch sc =
     (if Scanner_Peek sc = rune (CHR ''['') \<or> Scanner_Peek sc = rune (CHR ''='')
      then let (ch, sc) = Scanner_Next sc in found_literal TString (scanMultilineString ch sc [])
      else one_char ch sc)"

definition scan_dots :: "int \<Rightarrow> lua_scanner \<Rightarrow> scan_pass" where
  "scan_dots ch sc =
     (if isDecimal (Scanner_Peek sc) then found_literal TNumber (scanNumber ch sc [])
      else if Scanner_Peek sc = rune (CHR ''.'')
      then let (ch2, sc) = Scanner_Next sc; buf = writeChar (writeChar [] ch) ch2
           in if Scanner_Peek sc = rune (CHR ''.'')
              then let (ch3, sc) = Scanner_Next sc in Found T3Comma (writeChar buf ch3) None sc
              else Found T2Comma buf None sc
      else Found (rune (CHR ''.'')) [] None sc)"

text \<open>The characters with a second one behind them that makes another token.\<close>

definition scan_operator :: "int \<Rightarrow> lua_scanner \<Rightarrow> scan_pass" where
  "scan_operator ch sc =
     (let next_is = (\<lambda>c. Scanner_Peek sc = rune c)
      in if ch = rune (CHR ''='') then if next_is (CHR ''='') then two_chars TEqeq ''=='' sc else one_char ch sc
         else if ch = rune (CHR 0x7E) then if next_is (CHR ''='') then two_chars TNeq [CHR 0x7E, CHR ''=''] sc else one_char ch sc
         else if ch = rune (CHR ''<'')
         then if next_is (CHR ''='') then two_chars TLte ''<='' sc
              else if next_is (CHR ''<'') then two_chars TShl ''<<'' sc else one_char ch sc
         else if ch = rune (CHR ''>'')
         then if next_is (CHR ''='') then two_chars TGte ''>='' sc
              else if next_is (CHR ''>'') then two_chars TShr ''>>'' sc else one_char ch sc
         else if ch = rune (CHR ''/'') then if next_is (CHR ''/'') then two_chars TFloorDiv ''//'' sc else one_char ch sc
         else if next_is (CHR '':'') then two_chars T2Colon ''::'' sc else one_char ch sc)"

definition scan_pass :: "int \<Rightarrow> lua_scanner \<Rightarrow> scan_pass" where
  "scan_pass ch sc =
     (if isIdent ch 0 then scan_name ch sc
      else if isDecimal ch then found_literal TNumber (scanNumber ch sc [])
      else if ch = EOF then Found EOF [] None sc
      else if ch = rune (CHR ''-'') then scan_minus ch sc
      else if ch = 34 \<or> ch = 39 then found_literal TString (scanString ch sc [])
      else if ch = rune (CHR ''['') then scan_bracket ch sc
      else if ch \<in> rune ` set (''=<>/:'' @ [CHR 0x7E]) then scan_operator ch sc
      else if ch = rune (CHR ''.'') then scan_dots ch sc
      else if ch \<in> rune ` set ''+*%^#(){}];,&|'' then one_char ch sc
      else let buf = writeChar [] ch in Found 0 [] (Some (Scanner_Error sc buf ''Invalid token'')) sc)"

section \<open>The parser's side\<close>

text \<open>The field \<^verbatim>\<open>Stmts\<close>, which only the generated parser writes, is left out.\<close>

record lua_lexer =
  lx_scanner :: lua_scanner
  PNewLine :: bool
  lx_Token :: lua_token
  PrevTokenType :: int

text \<open>White space in front of a token: the first character behind it, and whether a new line came before.\<close>

definition skip_to_token :: "lua_scanner \<Rightarrow> bool \<times> int \<times> lua_scanner" where
  "skip_to_token sc =
     (let (ch, sc) = skipWhiteSpace whitespace1 sc
      in if ch = 10 \<or> ch = 13 then let (ch, sc) = skipWhiteSpace whitespace2 sc in (True, ch, sc)
         else (False, ch, sc))"

lemma skip_to_token_left [rest_left]: "skip_to_token sc = (b, ch, sc') \<Longrightarrow> suffix (bytes_left sc') (bytes_left sc)"
  by (auto simp: skip_to_token_def Let_def split: prod.splits if_splits dest!: rest_left; blast intro: suffix_order.trans)

lemma Redo_left: "scan_pass ch sc = Redo sc' \<Longrightarrow> strict_suffix (bytes_left sc') (bytes_left sc)"
proof -
  assume "scan_pass ch sc = Redo sc'"
  then have m: "scan_minus ch sc = Redo sc'"
    by (auto simp: scan_pass_def scan_name_def found_literal_def scan_bracket_def scan_operator_def scan_dots_def
        one_char_def two_chars_def Let_def split: if_splits prod.splits)
  obtain c s where n: "Scanner_Next sc = (c, s)" by force
  from m n obtain e where "skipComments c s = (e, sc')" and p: "Scanner_Peek sc = rune (CHR ''-'')"
    by (auto simp: scan_minus_def one_char_def Let_def split: if_splits prod.splits)
  moreover from p have "bytes_left sc \<noteq> []" by (auto simp: Scanner_Peek_def readNext_def EOF_def)
  ultimately show ?thesis using n by (auto elim!: Scanner_Next_cases dest!: skipComments_left intro: suffix_order.le_less_trans)
qed

lemmas Redo_shorter = Redo_left [THEN strict_suffix_shorter]

function Scan :: "lua_lexer \<Rightarrow> scan_error option \<times> lua_token \<times> lua_lexer" where
  "Scan lexer =
     (let (newline, ch, sc) = skip_to_token (lx_scanner lexer);
          lexer = lexer\<lparr>PNewLine := (if ch = rune (CHR ''('') \<and> PrevTokenType lexer = rune (CHR '')'') then newline else False)\<rparr>
      in case scan_pass ch sc of
           Redo sc' \<Rightarrow> Scan (lexer\<lparr>lx_scanner := sc'\<rparr>)
         | Found ty str err sc' \<Rightarrow>
             (err, \<lparr>tk_Type = ty, tk_Name = TokenName ty, tk_Str = str, tk_Pos = scan_Pos sc\<rparr>, lexer\<lparr>lx_scanner := sc'\<rparr>))"
  by pat_completeness auto
termination
proof (relation "measure (\<lambda>lexer. length (bytes_left (lx_scanner lexer)))", goal_cases)
  case (2 lexer x newline y ch sc lexer' sc')
  then show ?case
    by (auto dest!: sym [of "(_, _)"] dest: skip_to_token_left [THEN suffix_shorter] Redo_shorter simp: le_less_trans
        intro: order.strict_trans2)
qed simp

declare Scan.simps [simp del]

definition Lex :: "lua_lexer \<Rightarrow> scan_error + int \<times> lua_token option \<times> lua_lexer" where
  "Lex lx =
     (let lx = lx\<lparr>PrevTokenType := tk_Type (lx_Token lx)\<rparr>;
          (err, tok, lx) = Scan lx
      in case err of
           Some e \<Rightarrow> Inl e
         | None \<Rightarrow> if tk_Type tok < 0 then Inr (0, None, lx)
                   else Inr (tk_Type tok, Some tok, lx\<lparr>lx_Token := tok\<rparr>))"

definition Lexer_Error :: "lua_lexer \<Rightarrow> string \<Rightarrow> scan_error" where
  "Lexer_Error lx message = Scanner_Error (lx_scanner lx) (tk_Str (lx_Token lx)) message"

text \<open>The lexer \<^verbatim>\<open>Parse\<close> starts with.\<close>

definition Parse_lexer :: "string \<Rightarrow> string \<Rightarrow> lua_lexer" where
  "Parse_lexer src name =
     \<lparr>lx_scanner = NewScanner src name, PNewLine = False,
      lx_Token = \<lparr>tk_Type = 0, tk_Name = [], tk_Str = [], tk_Pos = \<lparr>pos_Source = [], pos_Line = 0, pos_Column = 0\<rparr>\<rparr>,
      PrevTokenType = TNil\<rparr>"

end
