(* ===== verification/ScannerFacts.thy ===== *)
theory ScannerFacts
  imports LuaScanner StringFacts
begin

text \<open>
  The scanner of the language core: every token takes a piece of the source away, so that the
  parser sees finitely many; what the library quotes and prints, the scanner reads back; and
  sources on which it differs from the language reference.
\<close>

section \<open>Progress\<close>

lemma skipWhiteSpace_end:
  "skipWhiteSpace ws sc = (ch, sc') \<Longrightarrow>
   ch = EOF \<and> bytes_left sc' = [] \<or> 0 \<le> ch \<and> strict_suffix (bytes_left sc') (bytes_left sc)"
proof (induction ws sc rule: skipWhiteSpace.induct)
  case (1 ws sc)
  obtain c s where n: "Scanner_Next sc = (c, s)" by force
  show ?case using n
  proof (cases rule: Scanner_Next_cases)
    case 1
    then show ?thesis using "1.prems" n by (auto simp: skipWhiteSpace.simps [of ws sc] EOF_def)
  next
    case 2
    then show ?thesis
      using "1.prems" "1.IH" [OF refl n [symmetric]]
      by (auto simp: skipWhiteSpace.simps [of ws sc] n split: if_splits intro: suffix_order.less_trans)
  qed
qed

lemma skip_to_token_end:
  "skip_to_token sc = (b, ch, sc') \<Longrightarrow>
   ch = EOF \<and> bytes_left sc' = [] \<or> 0 \<le> ch \<and> strict_suffix (bytes_left sc') (bytes_left sc)"
  by (auto simp: skip_to_token_def Let_def split: prod.splits if_splits
      dest!: skipWhiteSpace_end intro: suffix_order.less_trans)

lemma reserved_positive: "reservedWords w = Some ty \<Longrightarrow> 0 < ty"
  by (auto simp: reservedWords_def token_types split: if_splits)

lemma token_types_positive: "0 < TIdent" "0 < TNumber" "0 < TString"
  by (simp_all add: token_types)

lemma scan_pass_found:
  assumes "scan_pass ch sc = Found ty str None sc'"
  shows "suffix (bytes_left sc') (bytes_left sc) \<and> (if ch = EOF then ty = EOF \<and> sc' = sc else 0 < ty)"
proof -
  obtain c s where n: "Scanner_Next sc = (c, s)" by force
  note [simp] = token_types_positive
  consider "isIdent ch 0" | "isDecimal ch" "\<not> isIdent ch 0" | "ch = EOF" | "\<not> isIdent ch 0" "\<not> isDecimal ch" "ch \<noteq> EOF" by blast
  then show ?thesis
  proof cases
    case 1
    then have "ch \<noteq> EOF" by (auto simp: EOF_def isIdent_def char_range_def isDecimal_def)
    then show ?thesis
      using assms 1 by (auto simp: scan_pass_def scan_name_def split: prod.splits option.splits
          dest: scanIdent_left reserved_positive)
  next
    case 2
    then have "ch \<noteq> EOF" by (auto simp: EOF_def char_range_def isDecimal_def)
    then show ?thesis
      using assms 2 by (auto simp: scan_pass_def found_literal_def split: prod.splits dest: scanNumber_left)
  next
    case 3
    then show ?thesis
      using assms by (auto simp: scan_pass_def EOF_def isIdent_def isDecimal_def char_range_def)
  next
    case 4
    then show ?thesis
      using assms n Scanner_Next_suffix [OF n]
      by (auto simp: scan_pass_def found_literal_def scan_bracket_def scan_operator_def scan_dots_def scan_minus_def
          one_char_def two_chars_def token_types Let_def split: if_splits prod.splits
          dest!: Scanner_Next_suffix scanNumber_left scanString_left scanMultilineString_left intro: suffix_order.trans)
  qed
qed

lemma Scan_end:
  "Scan lx = (None, tok, lx') \<Longrightarrow>
   tk_Type tok = EOF \<and> bytes_left (lx_scanner lx') = [] \<or>
   0 < tk_Type tok \<and> strict_suffix (bytes_left (lx_scanner lx')) (bytes_left (lx_scanner lx))"
proof (induction lx rule: Scan.induct)
  case (1 lx)
  obtain newline ch sc where s: "skip_to_token (lx_scanner lx) = (newline, ch, sc)" by (metis surj_pair)
  note e = skip_to_token_end [OF s]
  let ?lx = "lx\<lparr>PNewLine := (if ch = rune (CHR ''('') \<and> PrevTokenType lx = rune (CHR '')'') then newline else False)\<rparr>"
  show ?case
  proof (cases "scan_pass ch sc")
    case (Redo sc')
    have "Scan (?lx\<lparr>lx_scanner := sc'\<rparr>) = (None, tok, lx')"
      using 1(2) by (simp add: Scan.simps [of lx] s Redo Let_def)
    from 1(1) [OF s [symmetric] refl refl refl Redo this] Redo_left [OF Redo] show ?thesis
      using skip_to_token_left [OF s]
      by (auto intro: suffix_order.less_le_trans suffix_order.less_trans)
  next
    case (Found ty str err sc')
    have "err = None" "tok = \<lparr>tk_Type = ty, tk_Name = TokenName ty, tk_Str = str, tk_Pos = scan_Pos sc\<rparr>"
      "lx_scanner lx' = sc'"
      using 1(2) by (auto simp: Scan.simps [of lx] s Found Let_def)
    then show ?thesis using scan_pass_found [of ch sc ty str sc'] Found e
      by (auto simp: EOF_def intro: suffix_order.le_less_trans split: if_splits)
  qed
qed

lemma Lex_step:
  "case Lex lx of Inl e \<Rightarrow> True
   | Inr (ty, tok, lx') \<Rightarrow>
       if ty = 0 then tok = None \<and> bytes_left (lx_scanner lx') = []
       else tok \<noteq> None \<and> strict_suffix (bytes_left (lx_scanner lx')) (bytes_left (lx_scanner lx))"
proof -
  obtain err tok lx' where s: "Scan (lx\<lparr>PrevTokenType := tk_Type (lx_Token lx)\<rparr>) = (err, tok, lx')" by (metis surj_pair)
  show ?thesis
    using Scan_end [of "lx\<lparr>PrevTokenType := tk_Type (lx_Token lx)\<rparr>" tok lx'] s
    by (cases err) (auto simp: Lex_def EOF_def)
qed

text \<open>The tokens a parser gets that asks until the end of the source; the number of calls is bounded.\<close>

fun lexes :: "nat \<Rightarrow> lua_lexer \<Rightarrow> (scan_error + lua_token list) option" where
  "lexes 0 lx = None"
| "lexes (Suc n) lx =
     (case Lex lx of
        Inl e \<Rightarrow> Some (Inl e)
      | Inr (ty, None, lx') \<Rightarrow> Some (Inr [])
      | Inr (ty, Some tok, lx') \<Rightarrow> map_option (map_sum id ((#) tok)) (lexes n lx'))"

lemma lexes_end: "length (bytes_left (lx_scanner lx)) < n \<Longrightarrow> lexes n lx \<noteq> None"
proof (induction n arbitrary: lx)
  case (Suc n)
  show ?case
  proof (cases "Lex lx")
    case (Inr r)
    obtain ty tok lx' where r: "r = (ty, tok, lx')" by (metis surj_pair)
    show ?thesis
    proof (cases tok)
      case (Some t)
      then have "strict_suffix (bytes_left (lx_scanner lx')) (bytes_left (lx_scanner lx))"
        using Lex_step [of lx] Inr r by (auto split: if_splits)
      then have "lexes n lx' \<noteq> None" using Suc strict_suffix_shorter by fastforce
      then show ?thesis using Inr r Some by auto
    qed (use Inr r in simp)
  qed simp
qed simp

section \<open>Quoted strings\<close>

lemma read_byte:
  assumes "bytes_left sc = c # cs" "c \<noteq> CHR 10" "c \<noteq> CHR 13"
  shows "fst (Scanner_Next sc) = rune c" "bytes_left (snd (Scanner_Next sc)) = cs"
proof -
  have "rune c \<noteq> 10" "rune c \<noteq> 13" using assms(2,3) of_char_eq_iff [of c "CHR 10", where 'a = int]
    of_char_eq_iff [of c "CHR 13", where 'a = int] by simp_all
  then show "fst (Scanner_Next sc) = rune c" "bytes_left (snd (Scanner_Next sc)) = cs"
    using assms(1) by (simp_all add: Scanner_Next_def readNext_def EOF_def)
qed

lemma read_newline:
  assumes "bytes_left sc = CHR 10 # cs" "cs = [] \<or> hd cs \<noteq> CHR 13"
  shows "fst (Scanner_Next sc) = 10" "bytes_left (snd (Scanner_Next sc)) = cs"
proof -
  have "case cs of [] \<Rightarrow> True | c # _ \<Rightarrow> rune c \<noteq> 13"
    using assms(2) of_char_eq_iff [of "hd cs" "CHR 13", where 'a = int] by (auto split: list.split)
  then show "fst (Scanner_Next sc) = 10" "bytes_left (snd (Scanner_Next sc)) = cs"
    using assms(1)
    by (auto simp: Scanner_Next_def readNext_def Newline_def Scanner_Peek_def EOF_def Let_def split: list.splits)
qed

lemma Peek_byte: "Scanner_Peek sc = (case bytes_left sc of [] \<Rightarrow> EOF | c # _ \<Rightarrow> rune c)"
  by (simp add: Scanner_Peek_def readNext_def split: list.split)

lemma writeChar_byte: "writeChar buf (rune c) = buf @ [c]"
proof -
  have "nat (rune c) = of_char c" using of_nat_of_char [of c, where 'a = int] by (metis nat_int)
  then show ?thesis using rune_bounds [of c] by (simp add: writeChar_def)
qed

lemma isDecimal_rune: "isDecimal (rune c) \<longleftrightarrow> is_dec_digit c"
proof -
  have "rune d = int (of_char d)" for d by (rule of_nat_of_char [symmetric])
  then show ?thesis by (simp only: isDecimal_def char_range_def is_dec_digit_def char_between_def of_nat_le_iff)
qed

lemma scan_digits_read:
  assumes "bytes_left sc = ds @ cs" "list_all is_dec_digit ds" "length ds \<le> i"
    and "length ds = i \<or> \<not> digit_next cs"
  shows "\<exists>sc'. scan_digits i sc bs = (bs @ ds, sc') \<and> bytes_left sc' = cs"
  using assms
proof (induction i arbitrary: ds sc bs)
  case (Suc i)
  show ?case
  proof (cases ds)
    case Nil
    then have "\<not> isDecimal (Scanner_Peek sc)"
      using Suc.prems by (auto simp: Peek_byte isDecimal_rune digit_next_def EOF_def isDecimal_def char_range_def
          simp flip: isDecimal_rune split: list.splits)
    then show ?thesis using Nil Suc.prems(1) by simp
  next
    case (Cons d ds')
    then have d: "is_dec_digit d" "bytes_left sc = d # ds' @ cs" using Suc.prems by auto
    then have "d \<noteq> CHR 10" "d \<noteq> CHR 13" by (auto simp: is_dec_digit_def char_between_def)
    note n = read_byte [OF d(2) this]
    obtain s where s: "Scanner_Next sc = (rune d, s)" "bytes_left s = ds' @ cs" using n by (metis prod.collapse)
    have "isDecimal (Scanner_Peek sc)" using d by (simp add: Peek_byte isDecimal_rune)
    moreover obtain sc' where "scan_digits i s (bs @ [d]) = ((bs @ [d]) @ ds', sc')" "bytes_left sc' = cs"
      using Suc.IH [OF s(2), of "bs @ [d]"] Suc.prems Cons by auto
    ultimately show ?thesis using s Cons by (simp add: writeChar_byte)
  qed
qed simp

lemma rune_is:
  "rune c = 97 \<longleftrightarrow> c = CHR ''a''" "rune c = 98 \<longleftrightarrow> c = CHR ''b''" "rune c = 102 \<longleftrightarrow> c = CHR ''f''"
  "rune c = 110 \<longleftrightarrow> c = CHR ''n''" "rune c = 114 \<longleftrightarrow> c = CHR ''r''" "rune c = 116 \<longleftrightarrow> c = CHR ''t''"
  "rune c = 118 \<longleftrightarrow> c = CHR ''v''" "rune c = 92 \<longleftrightarrow> c = CHR 0x5C" "rune c = 34 \<longleftrightarrow> c = CHR 0x22"
  "rune c = 39 \<longleftrightarrow> c = CHR 0x27" "rune c = 10 \<longleftrightarrow> c = CHR 0x0A" "rune c = 13 \<longleftrightarrow> c = CHR 0x0D"
  "rune c = 120 \<longleftrightarrow> c = CHR ''x''" "rune c = 122 \<longleftrightarrow> c = CHR ''z''" "rune c = 117 \<longleftrightarrow> c = CHR ''u''"
  "rune c = 48 \<longleftrightarrow> c = CHR ''0''" "rune c = 46 \<longleftrightarrow> c = CHR ''.''" "rune c = 101 \<longleftrightarrow> c = CHR ''e''"
  "rune c = 69 \<longleftrightarrow> c = CHR ''E''" "rune c = 88 \<longleftrightarrow> c = CHR ''X''" "rune c = 40 \<longleftrightarrow> c = CHR ''(''"
  "rune c = 45 \<longleftrightarrow> c = CHR ''-''" "rune c = 91 \<longleftrightarrow> c = CHR ''[''" "rune c = 61 \<longleftrightarrow> c = CHR ''=''"
  "rune c = 9 \<longleftrightarrow> c = CHR 0x09" "rune c = 32 \<longleftrightarrow> c = CHR 0x20"
  using of_char_eq_iff [of c "CHR ''a''", where 'a = int] of_char_eq_iff [of c "CHR ''b''", where 'a = int]
    of_char_eq_iff [of c "CHR ''f''", where 'a = int] of_char_eq_iff [of c "CHR ''n''", where 'a = int]
    of_char_eq_iff [of c "CHR ''r''", where 'a = int] of_char_eq_iff [of c "CHR ''t''", where 'a = int]
    of_char_eq_iff [of c "CHR ''v''", where 'a = int] of_char_eq_iff [of c "CHR 0x5C", where 'a = int]
    of_char_eq_iff [of c "CHR 0x22", where 'a = int] of_char_eq_iff [of c "CHR 0x27", where 'a = int]
    of_char_eq_iff [of c "CHR 0x0A", where 'a = int] of_char_eq_iff [of c "CHR 0x0D", where 'a = int]
    of_char_eq_iff [of c "CHR ''x''", where 'a = int] of_char_eq_iff [of c "CHR ''z''", where 'a = int]
    of_char_eq_iff [of c "CHR ''u''", where 'a = int] of_char_eq_iff [of c "CHR ''0''", where 'a = int]
    of_char_eq_iff [of c "CHR ''.''", where 'a = int] of_char_eq_iff [of c "CHR ''e''", where 'a = int]
    of_char_eq_iff [of c "CHR ''E''", where 'a = int] of_char_eq_iff [of c "CHR ''X''", where 'a = int]
    of_char_eq_iff [of c "CHR ''(''", where 'a = int] of_char_eq_iff [of c "CHR ''-''", where 'a = int]
    of_char_eq_iff [of c "CHR ''[''", where 'a = int] of_char_eq_iff [of c "CHR ''=''", where 'a = int]
    of_char_eq_iff [of c "CHR 0x09", where 'a = int] of_char_eq_iff [of c "CHR 0x20", where 'a = int]
  by simp_all

lemma escape_char_rune:
  "escape_char (rune c) = map_of
     [(CHR ''a'', 7), (CHR ''b'', 8), (CHR ''f'', 12), (CHR ''n'', 10), (CHR ''r'', 13), (CHR ''t'', 9),
      (CHR ''v'', 11), (CHR 92, 92), (CHR 34, 34), (CHR 39, 39), (CHR 10, 10)] c"
  by (simp add: escape_char_def rune_is)

lemma scan_escaped:
  assumes "bytes_left sc = c # cs" "is_escaped c" "c = CHR 10 \<longrightarrow> cs = [] \<or> hd cs \<noteq> CHR 13"
  shows "\<exists>sc'. scanEscape sc buf = (None, buf @ [c], sc') \<and> bytes_left sc' = cs"
proof -
  have "fst (Scanner_Next sc) = rune c \<and> bytes_left (snd (Scanner_Next sc)) = cs"
    using read_byte [OF assms(1)] read_newline [of sc cs] assms by (cases "c = CHR 10") (auto simp: is_escaped_def)
  then obtain s where "Scanner_Next sc = (rune c, s)" "bytes_left s = cs" by (metis prod.collapse)
  moreover have "\<exists>k. escape_char (rune c) = Some k \<and> writeChar buf k = buf @ [c]"
    using assms(2) writeChar_byte [of buf c] by (auto simp: is_escaped_def escape_char_rune)
  ultimately show ?thesis by (auto simp: scanEscape_def)
qed

lemma scan_code:
  assumes "bytes_left sc = ds @ cs" "list_all is_dec_digit ds" "ds \<noteq> []" "length ds \<le> 3" "length ds = 3 \<or> \<not> digit_next cs"
    and "digits_value 10 0 ds = Some (of_char c)"
  shows "\<exists>sc'. scanEscape sc buf = (None, buf @ [c], sc') \<and> bytes_left sc' = cs"
proof -
  obtain d ds' where ds: "ds = d # ds'" using assms(3) by (cases ds) auto
  then have d: "is_dec_digit d" "bytes_left sc = d # ds' @ cs" using assms(1,2) by auto
  then have "d \<noteq> CHR 10" "d \<noteq> CHR 13" by (auto simp: is_dec_digit_def char_between_def)
  from read_byte [OF d(2) this] obtain s where s: "Scanner_Next sc = (rune d, s)" "bytes_left s = ds' @ cs"
    by (metis prod.collapse)
  have "\<exists>sc'. scan_digits 2 s [d] = ([d] @ ds', sc') \<and> bytes_left sc' = cs"
    by (rule scan_digits_read) (use s assms ds in auto)
  then obtain sc' where r: "scan_digits 2 s [d] = (ds, sc')" "bytes_left sc' = cs" using ds by auto
  have e: "escape_char (rune d) = None" "rune d \<noteq> 13" "rune d \<noteq> rune (CHR ''x'')" "rune d \<noteq> rune (CHR ''z'')" "rune d \<noteq> rune (CHR ''u'')"
  proof -
    have "48 \<le> rune d" "rune d \<le> 57"
      using d(1) isDecimal_rune [of d] by (simp_all add: isDecimal_def char_range_def)
    then show "escape_char (rune d) = None" "rune d \<noteq> 13" "rune d \<noteq> rune (CHR ''x'')" "rune d \<noteq> rune (CHR ''z'')" "rune d \<noteq> rune (CHR ''u'')"
      by (simp_all add: escape_char_def)
  qed
  have "scanEscape sc buf =
      (let (bs, sc) = scan_digits 2 s (writeChar [] (rune d)) in (None, writeChar buf (int (the (digits_value 10 0 bs))), sc))"
    using e d(1) isDecimal_rune [of d] by (simp only: scanEscape_def s(1) Let_def prod.case option.case if_False if_True)
  moreover have "writeChar buf (int (of_char c)) = buf @ [c]"
    using writeChar_byte [of buf c] by (simp only: of_nat_of_char)
  ultimately show ?thesis
    by (simp only: writeChar_byte append_Nil r(1) Let_def prod.case assms(6) option.sel) (use r(2) in blast)
qed

lemma scanString_step:
  assumes "Scanner_Next sc = (ch, s)" "ch \<noteq> 34" "ch \<noteq> 10" "ch \<noteq> 13" "0 \<le> ch"
    and "(if ch = 92 then scanEscape s buf else (None, writeChar buf ch, s)) = (None, b, s')"
  shows "scanString 34 sc buf = scanString 34 s' b"
  using assms by (simp add: scanString_def scan_string_body.simps [of 34 ch s buf])

lemma scanString_escape:
  assumes "bytes_left sc = CHR 92 # w" "\<And>s. bytes_left s = w \<Longrightarrow> \<exists>sc'. scanEscape s buf = (None, b, sc') \<and> bytes_left sc' = cs"
  obtains sc' where "scanString 34 sc buf = scanString 34 sc' b" "bytes_left sc' = cs"
proof -
  obtain s where s: "Scanner_Next sc = (92, s)" "bytes_left s = w"
    using read_byte [OF assms(1)] by (cases "Scanner_Next sc") simp
  obtain sc' where "scanEscape s buf = (None, b, sc')" "bytes_left sc' = cs" using assms(2) [OF s(2)] by blast
  then show ?thesis using that scanString_step [OF s(1)] by simp
qed

lemma quote_body_hd: "hd (quote_body s @ CHR 34 # rest) \<noteq> CHR 13"
  by (cases s) (auto simp: is_control_def)

lemma scan_control:
  assumes "is_control c"
    and "bytes_left sc = (if digit_next s then fmt_03d (of_char c) else decimal (of_char c)) @ quote_body s @ CHR 34 # rest"
  shows "\<exists>sc'. scanEscape sc buf = (None, buf @ [c], sc') \<and> bytes_left sc' = quote_body s @ CHR 34 # rest"
proof -
  define n where "n = (of_char c :: nat)"
  have n: "n < 1000" using control_less [OF assms(1)] by (simp add: n_def)
  have z: "list_all is_dec_digit (replicate k (CHR ''0''))" for k
    by (simp add: list_all_iff is_dec_digit_def char_between_def)
  have l: "length (decimal n) \<le> 3" "0 < length (decimal n)" using length_decimal_control [OF n] by simp_all
  show ?thesis
    by (rule scan_code [OF assms(2)])
      (use l z decimal_digits digit_next_quote in
        \<open>auto simp: fmt_03d_def digits_value_zeros digits_value_decimal simp flip: n_def split: if_splits\<close>)
qed

lemma scanString_quoted:
  "bytes_left sc = quote_body s @ CHR 34 # rest \<Longrightarrow>
   \<exists>sc'. scanString 34 sc buf = (None, buf @ s, sc') \<and> bytes_left sc' = rest"
proof (induction s arbitrary: sc buf)
  case Nil
  then obtain s where "Scanner_Next sc = (34, s)" "bytes_left s = rest"
    using read_byte [of sc "CHR 34" rest] by (cases "Scanner_Next sc") simp
  then show ?case by (simp add: scanString_def scan_string_body.simps)
next
  case (Cons c s)
  let ?cs = "quote_body s @ CHR 34 # rest"
  consider (esc) "is_escaped c" | (ctl) "\<not> is_escaped c" "is_control c" | (plain) "\<not> is_escaped c" "\<not> is_control c" by blast
  then obtain sc' where "scanString 34 sc buf = scanString 34 sc' (buf @ [c])" "bytes_left sc' = ?cs"
  proof cases
    case esc
    then have "bytes_left sc = CHR 92 # (c # ?cs)" using Cons.prems by simp
    moreover have "\<And>s1. bytes_left s1 = c # ?cs \<Longrightarrow> \<exists>sc'. scanEscape s1 buf = (None, buf @ [c], sc') \<and> bytes_left sc' = ?cs"
      using scan_escaped [OF _ esc] quote_body_hd by blast
    ultimately show ?thesis by (rule scanString_escape [OF _ _ that])
  next
    case ctl
    let ?ds = "if digit_next s then fmt_03d (of_char c) else decimal (of_char c)"
    have "bytes_left sc = CHR 92 # (?ds @ ?cs)" using ctl Cons.prems by simp
    then show ?thesis by (rule scanString_escape [OF _ scan_control [OF ctl(2)] that])
  next
    case plain
    then have c: "c \<noteq> CHR 10" "c \<noteq> CHR 13" "c \<noteq> CHR 34" "c \<noteq> CHR 92" "bytes_left sc = c # ?cs"
      using Cons.prems by (auto simp: is_escaped_def is_control_def)
    obtain s1 where s1: "Scanner_Next sc = (rune c, s1)" "bytes_left s1 = ?cs"
      using read_byte [OF c(5,1,2)] by (metis prod.collapse)
    have "scanString 34 sc buf = scanString 34 s1 (buf @ [c])"
      by (rule scanString_step [OF s1(1)]) (use c in \<open>simp_all add: rune_is writeChar_byte\<close>)
    then show ?thesis using that s1(2) by blast
  qed
  then show ?case using Cons.IH [of sc' "buf @ [c]"] by simp
qed

section \<open>The first character of a token\<close>

lemma bit_whitespace1: "bit whitespace1 n \<longleftrightarrow> n = 9 \<or> n = 32"
  unfolding whitespace1_def
  by (simp only: bit_or_iff bit_push_bit_iff bit_1_iff possible_bit_word) auto

lemma skip_to_first:
  assumes "bytes_left sc = c # cs" "c \<noteq> CHR 9" "c \<noteq> CHR 10" "c \<noteq> CHR 13" "c \<noteq> CHR 32"
  obtains s where "skip_to_token sc = (False, rune c, s)" "bytes_left s = cs"
proof -
  obtain s where s: "Scanner_Next sc = (rune c, s)" "bytes_left s = cs"
    using read_byte [OF assms(1,3,4)] by (metis prod.collapse)
  have "rune c \<noteq> 9" "rune c \<noteq> 32" using assms(2,5) by (simp_all add: rune_is)
  then have "\<not> bit whitespace1 (nat (rune c))" by (auto simp: bit_whitespace1 simp flip: of_nat_of_char [where 'a = int])
  then have "skipWhiteSpace whitespace1 sc = (rune c, s)"
    using s(1) by (simp add: skipWhiteSpace.simps [of _ sc])
  then show ?thesis using that s(2) assms(3,4) by (simp add: skip_to_token_def rune_is)
qed

lemma Scan_found:
  assumes "skip_to_token (lx_scanner lx) = (b, ch, s)" "scan_pass ch s = Found ty str err s'"
  obtains tok lx' where "Scan lx = (err, tok, lx')" "tk_Type tok = ty" "tk_Str tok = str" "lx_scanner lx' = s'"
  using that assms by (simp add: Scan.simps [of lx] Let_def)

text \<open>C23: What the library quotes, the scanner of the language reads back as one string token with that value,
  whatever follows; and the length computed without building the quoted text is its length.\<close>

theorem quoted_strings_scan:
  "(\<exists>tok lx'. Scan (lx\<lparr>lx_scanner := (lx_scanner lx)\<lparr>bytes_left := luaQuoteString s @ rest\<rparr>\<rparr>) = (None, tok, lx') \<and>
      tk_Type tok = TString \<and> tk_Str tok = s \<and> bytes_left (lx_scanner lx') = rest) \<and>
   luaQuotedLen s = int (length (luaQuoteString s))"
proof
  let ?lx = "lx\<lparr>lx_scanner := (lx_scanner lx)\<lparr>bytes_left := luaQuoteString s @ rest\<rparr>\<rparr>"
  have "bytes_left (lx_scanner ?lx) = CHR 34 # quote_body s @ CHR 34 # rest" by (simp add: luaQuoteString_def)
  then obtain s1 where s1: "skip_to_token (lx_scanner ?lx) = (False, rune (CHR 34), s1)"
    "bytes_left s1 = quote_body s @ CHR 34 # rest" by (rule skip_to_first) auto
  from scanString_quoted [OF s1(2), of "[]"] obtain s2 where
    s2: "scanString 34 s1 [] = (None, s, s2)" "bytes_left s2 = rest" by auto
  have "scan_pass (rune (CHR 34)) s1 = Found TString s None s2"
    using s2(1) by (simp add: scan_pass_def found_literal_def isIdent_def isDecimal_def char_range_def EOF_def)
  from Scan_found [OF s1(1) this] s2(2)
  show "\<exists>tok lx'. Scan ?lx = (None, tok, lx') \<and> tk_Type tok = TString \<and> tk_Str tok = s \<and> bytes_left (lx_scanner lx') = rest"
    by metis
  show "luaQuotedLen s = int (length (luaQuoteString s))"
    by (simp add: luaQuoteString_def luaQuotedLen_def length_quote_body)
qed

section \<open>Numbers\<close>

lemma write_while_read:
  assumes "bytes_left sc = ds @ cs" "\<And>d. d \<in> set ds \<Longrightarrow> p (rune d) \<and> d \<noteq> CHR 10 \<and> d \<noteq> CHR 13"
    and "case cs of [] \<Rightarrow> True | c # _ \<Rightarrow> \<not> p (rune c)"
  shows "\<exists>sc'. write_while p sc buf = (buf @ ds, sc') \<and> bytes_left sc' = cs"
  using assms
proof (induction ds arbitrary: sc buf)
  case Nil
  then have "\<not> (Scanner_Peek sc \<noteq> EOF \<and> p (Scanner_Peek sc))" by (auto simp: Peek_byte split: list.splits)
  then show ?case using Nil(1) by (auto simp: write_while.simps [of p sc buf])
next
  case (Cons d ds)
  then have d: "bytes_left sc = d # ds @ cs" "d \<noteq> CHR 10" "d \<noteq> CHR 13" "p (rune d)" by auto
  obtain s where s: "Scanner_Next sc = (rune d, s)" "bytes_left s = ds @ cs"
    using read_byte [OF d(1-3)] by (metis prod.collapse)
  have "Scanner_Peek sc = rune d" using d(1) by (simp add: Peek_byte)
  then have "write_while p sc buf = write_while p s (buf @ [d])"
    using d(4) s(1) by (simp add: write_while.simps [of p sc buf] writeChar_byte EOF_def)
  then show ?case using Cons.IH [OF s(2), of "buf @ [d]"] Cons.prems by auto
qed

text \<open>What may follow a decimal number so that the scanner ends it there.\<close>

definition ends_number :: "string \<Rightarrow> bool" where
  "ends_number s \<longleftrightarrow> (case s of [] \<Rightarrow> True | c # _ \<Rightarrow> \<not> is_dec_digit c \<and> c \<notin> set ''.eExX'')"

lemma decimal_zero: "hd (decimal n) = CHR ''0'' \<Longrightarrow> decimal n = ''0''"
proof (induction n rule: decimal.induct)
  case (1 n)
  show ?case
  proof (cases "n < 10")
    case True
    then show ?thesis using "1.prems" by (auto simp: decimal.simps [of n])
  next
    case False
    have "decimal (n div 10) \<noteq> []" using length_decimal_pos [of "n div 10"] by auto
    then have "hd (decimal (n div 10)) = CHR ''0''"
      using False "1.prems" by (simp add: decimal.simps [of n])
    moreover have "\<not> decimal k = ''0''" if "0 < k" for k
    proof
      assume "decimal k = ''0''"
      then have "digits_value 10 0 (decimal k) = Some 0" by (simp add: digit_of_def char_between_def)
      then show False using digits_value_decimal [of k] that by simp
    qed
    ultimately show ?thesis using False "1.IH" by auto
  qed
qed

lemma scanNumber_decimal:
  assumes "bytes_left sc = ds @ cs" "decimal n = d # ds" "ends_number cs"
  shows "\<exists>sc'. scanNumber (rune d) sc [] = (None, decimal n, sc') \<and> bytes_left sc' = cs"
proof -
  have digits: "is_dec_digit x" if "x \<in> set (d # ds)" for x
    using decimal_digits [of n] assms(2) that by (auto simp: list_all_iff)
  have plain: "isDecimal (rune x) \<and> x \<noteq> CHR 10 \<and> x \<noteq> CHR 13" if "x \<in> set ds" for x
    using digits [of x] that by (auto simp: isDecimal_rune is_dec_digit_def char_between_def)
  have stop: "case cs of [] \<Rightarrow> True | c # _ \<Rightarrow> \<not> isDecimal (rune c)"
    using assms(3) by (auto simp: ends_number_def isDecimal_rune split: list.split)
  obtain s where s: "write_while isDecimal sc [d] = ([d] @ ds, s)" "bytes_left s = cs"
    using write_while_read [OF assms(1), of isDecimal "[d]"] plain stop by auto
  have zero: "ds = []" if "d = CHR ''0''" using decimal_zero [of n] assms(2) that by simp
  have peek: "Scanner_Peek sc \<noteq> rune (CHR ''x'')" "Scanner_Peek sc \<noteq> rune (CHR ''X'')" "\<not> isDecimal (Scanner_Peek sc)"
    if "d = CHR ''0''"
    using zero [OF that] assms(1,3) stop
    by (auto simp: Peek_byte ends_number_def EOF_def isDecimal_def char_range_def rune_is split: list.splits)
  have stops: "\<not> Scanner_Peek s = rune (CHR ''.'')" "\<not> (Scanner_Peek s = rune (CHR ''e'') \<or> Scanner_Peek s = rune (CHR ''E''))"
    using s(2) assms(3) by (auto simp: Peek_byte ends_number_def EOF_def rune_is split: list.splits)
  have "scanDecimal (rune d) sc [] = (d # ds, s)"
    using s(1) by (simp add: scanDecimal_def writeChar_byte)
  moreover have "\<not> (rune d = rune (CHR ''0'') \<and> (Scanner_Peek sc = rune (CHR ''x'') \<or> Scanner_Peek sc = rune (CHR ''X'')))"
    "\<not> (rune d = rune (CHR ''0'') \<and> Scanner_Peek sc \<noteq> rune (CHR ''.'') \<and> isDecimal (Scanner_Peek sc))"
    using peek by (auto simp: rune_is)
  ultimately have "scanNumber (rune d) sc [] = (None, d # ds, s)"
    by (simp only: scanNumber_def scan_fraction_def scan_exponent_def stops Let_def prod.case if_False)
  then show ?thesis using s(2) assms(2) by auto
qed

text \<open>C24: A number that is printed and scanned, with anything behind it that cannot continue a number, is one number
  token, whose text the compiler reads as the number.\<close>

theorem numbers_scan:
  assumes "ends_number rest"
  shows "\<exists>text tok lx'. LUint256_String v = Inr text \<and>
    Scan (lx\<lparr>lx_scanner := (lx_scanner lx)\<lparr>bytes_left := text @ rest\<rparr>\<rparr>) = (None, tok, lx') \<and>
    tk_Type tok = TNumber \<and> parseNumber (tk_Str tok) = Inr v \<and> bytes_left (lx_scanner lx') = rest"
proof -
  let ?text = "decimal (val v)"
  let ?lx = "lx\<lparr>lx_scanner := (lx_scanner lx)\<lparr>bytes_left := ?text @ rest\<rparr>\<rparr>"
  obtain d ds where d: "?text = d # ds" using length_decimal_pos [of "val v"] by (cases ?text) auto
  then have digit: "is_dec_digit d" using decimal_digits [of "val v"] by (simp add: list_all_iff)
  then have "d \<noteq> CHR 9" "d \<noteq> CHR 10" "d \<noteq> CHR 13" "d \<noteq> CHR 32" by (auto simp: is_dec_digit_def char_between_def)
  moreover have "bytes_left (lx_scanner ?lx) = d # ds @ rest" using d by simp
  ultimately obtain s where s: "skip_to_token (lx_scanner ?lx) = (False, rune d, s)" "bytes_left s = ds @ rest"
    by (metis skip_to_first)
  obtain s' where s': "scanNumber (rune d) s [] = (None, ?text, s')" "bytes_left s' = rest"
    using scanNumber_decimal [OF s(2) d assms] by blast
  have "48 \<le> rune d" "rune d \<le> 57" using digit isDecimal_rune [of d] by (simp_all add: isDecimal_def char_range_def)
  then have "scan_pass (rune d) s = Found TNumber ?text None s'"
    using s'(1) by (simp add: scan_pass_def found_literal_def isIdent_def isDecimal_def char_range_def)
  from Scan_found [OF s(1) this] s'(2) obtain tok lx' where t: "Scan ?lx = (None, tok, lx')" "tk_Type tok = TNumber"
    "tk_Str tok = ?text" "bytes_left (lx_scanner lx') = rest" by metis
  obtain r where "parseUint256 ?text = Inr r" "val r = val v"
    using parseUint256_decimal [of "val v"] val_less [of v] by auto
  then have "parseNumber ?text = Inr v" by (simp add: parseNumber_def parseNumberTonumber_def val_inject)
  with t show ?thesis using LUint256_String_decimal by metis
qed

theorem numbers_scan_witness:
  "\<exists>text tok lx'. LUint256_String LUint256One = Inr text \<and>
    Scan ((Parse_lexer [] [])\<lparr>lx_scanner := (lx_scanner (Parse_lexer [] []))\<lparr>bytes_left := text @ '')''\<rparr>\<rparr>) = (None, tok, lx') \<and>
    tk_Type tok = TNumber \<and> parseNumber (tk_Str tok) = Inr LUint256One \<and> bytes_left (lx_scanner lx') = '')''"
  by (rule numbers_scan) (simp add: ends_number_def is_dec_digit_def char_between_def)

section \<open>Properties of every source\<close>

text \<open>C25: The scanner ends on every source: each token is a piece of the source in front of what is left, the end is
  only reported when nothing is left, and a parser that asks for one token more than there are bytes has seen the end or
  an error.\<close>

theorem scanning_ends:
  "(case Lex lx of Inl e \<Rightarrow> True
    | Inr (ty, tok, lx') \<Rightarrow>
        if ty = 0 then tok = None \<and> bytes_left (lx_scanner lx') = []
        else tok \<noteq> None \<and> strict_suffix (bytes_left (lx_scanner lx')) (bytes_left (lx_scanner lx))) \<and>
   lexes (length src + 1) (Parse_lexer src name) \<noteq> None"
  using Lex_step [of lx] lexes_end [of "Parse_lexer src name" "length src + 1"]
  by (simp add: Parse_lexer_def NewScanner_def del: lexes.simps)

section \<open>Where the scanner is not the language's\<close>

text \<open>What running the scanner on a given source unfolds.\<close>

lemmas scanner_run =
  Scan.simps skip_to_token_def skipWhiteSpace.simps write_while.simps scan_string_body.simps countSep.simps
  scan_long_body.simps skip_line.simps scan_pass_def scan_minus_def found_literal_def one_char_def
  scanNumber_def scanDecimal_def scan_fraction_def scan_exponent_def scanString_def scanEscape_def escape_char_def
  scanMultilineString_def skipComments_def Scanner_Next_def Scanner_Peek_def readNext_def Newline_def
  isIdent_def isDecimal_def char_range_def writeChar_def rune_text_def EOF_def Parse_lexer_def NewScanner_def Scanner_Error_def
  bit_whitespace1 Let_def char_of_def bit_0

lemma scan_digits_two: "scan_digits 2 = scan_digits (Suc (Suc 0))"
  by (simp only: numeral_2_eq_2)

text \<open>Where the scanner is not that of the language: the exponent of a number takes the next character whatever it is;
  a decimal escape above 255 wraps around; a comment that ends in a new line hides it from the test for an ambiguous
  call; and a line comment that starts like a long one is refused.\<close>

lemma scanner_departs:
  "(\<exists>tok lx'. Scan (Parse_lexer ''1e)'' []) = (None, tok, lx') \<and> tk_Type tok = TNumber \<and> tk_Str tok = ''1e)'') \<and>
   (\<exists>tok lx'. Scan (Parse_lexer ([CHR 34, CHR 92] @ ''300'' @ [CHR 34]) []) = (None, tok, lx') \<and> tk_Str tok = '','') \<and>
   PNewLine (snd (snd (Scan ((Parse_lexer (CHR 10 # ''('') [])\<lparr>PrevTokenType := rune (CHR '')'')\<rparr>)))) \<and>
   \<not> PNewLine (snd (snd (Scan ((Parse_lexer (''--'' @ CHR 10 # ''('') [])\<lparr>PrevTokenType := rune (CHR '')'')\<rparr>)))) \<and>
   fst (Scan (Parse_lexer (''--[= x'' @ [CHR 10]) [])) \<noteq> None"
proof (intro conjI)
  show "\<exists>tok lx'. Scan (Parse_lexer ''1e)'' []) = (None, tok, lx') \<and> tk_Type tok = TNumber \<and> tk_Str tok = ''1e)''"
    by (simp add: scanner_run)
  show "\<exists>tok lx'. Scan (Parse_lexer ([CHR 34, CHR 92] @ ''300'' @ [CHR 34]) []) = (None, tok, lx') \<and> tk_Str tok = '',''"
    by (simp add: scanner_run digit_of_def char_between_def scan_digits_two)
qed (simp_all add: scanner_run whitespace2_def)

lemma token_names_shifted: "TokenName TAnd = ''$end'' \<and> TokenName TIdent = ''TShl''"
  by (simp add: TokenName_def token_types yyToknames_def)

end
