(* ===== verification/Spec2Isabelle.thy ===== *)
theory Spec2Isabelle
  imports UintText Container IRCode Tables Lexer FrameStack Registry Upvalues Instructions CompRuns
    Library KeyFacts CryptoFacts MappingFacts ProtectedFacts StringFacts ScannerFacts
begin

text \<open>
  A verification development for tolang, the virtual machine and tool chain of a
  Lua-derived contract language with 256-bit integers (package \<^verbatim>\<open>lua\<close> and
  packages \<^verbatim>\<open>ast\<close>, \<^verbatim>\<open>parse\<close>, \<^verbatim>\<open>pm\<close>, \<^verbatim>\<open>tol/lexer\<close>). A contract is compiled from
  a syntax tree to prototypes, encoded as a bytecode blob, decoded and validated, and run by a
  register machine that pays for each instruction with gas and calls host functions.

  \<^bold>\<open>Conventions.\<close> Definitions carry the name of the Go function or type they model. Machine
  integers are words, Go's \<^verbatim>\<open>int\<close> is \<open>int\<close> where the code keeps it in range (and is wrapped
  where it does not). A Go panic, an error and a Lua error are values of a sum type; a Go string
  is a list of bytes. Computations that thread a state are functions to an error or a result
  with the next state (\<open>Monads\<close>). Objects with identity (tables, functions, upvalues, user data)
  are indices into heaps of the state.

  \<^bold>\<open>Theories and what they model.\<close>
  \<^item> \<open>Prelude\<close>, \<open>GoStrings\<close>, \<open>Monads\<close>: shared vocabulary, generic lemmas, the parts of Go's
    \<^verbatim>\<open>strings\<close> that the code uses.
  \<^item> \<open>Uint256\<close>, \<open>UintDiv\<close>, \<open>UintText\<close>: \<^verbatim>\<open>uint256.go\<close> and the number parsers of \<^verbatim>\<open>utils.go\<close>, on
    four 64-bit limbs; \<open>Values\<close>: \<^verbatim>\<open>value.go\<close>, \<^verbatim>\<open>agent.go\<close>.
  \<^item> \<open>Tables\<close>: \<^verbatim>\<open>table.go\<close>, the array part, the hash parts and the order of keys.
  \<^item> \<open>Tokens\<close>, \<open>Lexer\<close>: \<^verbatim>\<open>tol/lexer\<close>.
  \<^item> \<open>Opcodes\<close>, \<open>Protos\<close>, \<open>Codecs\<close>, \<open>Sha256\<close>, \<open>Bytecode\<close>, \<open>Validate\<close>, \<open>Container\<close>, \<open>IRCode\<close>:
    \<^verbatim>\<open>opcode.go\<close>, \<^verbatim>\<open>function.go\<close>, \<^verbatim>\<open>bytecode.go\<close>, \<^verbatim>\<open>ir.go\<close>.
  \<^item> \<open>Ast\<close>, \<open>CompilerState\<close>, \<open>Compiler\<close>, \<open>CompStmt\<close>: \<^verbatim>\<open>ast\<close> and \<^verbatim>\<open>compile.go\<close>; results in
    \<open>CompRules\<close>, whole programs in \<open>CompRuns\<close>.
  \<^item> \<open>LuaScanner\<close>: \<^verbatim>\<open>parse/lexer.go\<close>, with the token types of \<^verbatim>\<open>parse/parser.go\<close>; results in
    \<open>ScannerFacts\<close>.
  \<^item> \<open>FrameStack\<close>, \<open>Registry\<close>: the call stacks and the register file of \<^verbatim>\<open>state.go\<close>.
  \<^item> \<open>VMState\<close>, \<open>VM\<close>: the state \<^verbatim>\<open>LState\<close> and the instructions of \<^verbatim>\<open>vm.go\<close>, one definition
    \<open>vm_X\<close> per opcode, with \<open>mainLoop\<close>, \<open>callR\<close> and the metering; results in \<open>Upvalues\<close>,
    \<open>Instructions\<close>, \<open>Keeping\<close>, \<open>Metering\<close>, \<open>Interpreter\<close>.
  \<^item> \<open>Api\<close>: what host functions see of the machine (\<^verbatim>\<open>state.go\<close>, \<^verbatim>\<open>auxlib.go\<close>); \<open>CryptoLib\<close>,
    \<open>Mappings\<close>, \<open>HostLibs\<close>, \<open>BaseLib\<close>, \<open>Patterns\<close>, \<open>StringLib\<close>: \<^verbatim>\<open>cryptolib.go\<close>,
    \<^verbatim>\<open>mappinglib.go\<close>, \<^verbatim>\<open>mathlib.go\<close>, \<^verbatim>\<open>tablelib.go\<close>, \<^verbatim>\<open>baselib.go\<close>, \<^verbatim>\<open>pm/pm.go\<close>,
    \<^verbatim>\<open>stringlib.go\<close>; the tables of host functions and the library as a whole in \<open>Library\<close>;
    results in \<open>HostFrame\<close>, \<open>CryptoFacts\<close>, \<open>KeyFacts\<close>, \<open>MappingFacts\<close>, \<open>ProtectedFacts\<close>,
    \<open>StringFacts\<close>.

  \<^bold>\<open>What the lemmas show.\<close> Arithmetic: the operations that are those of the 256-bit word, and
  exactly when multiplication and division are not. Tables: after any assignments reading gives
  the last value, and traversal ends as long as no key is in both parts of the table; with such
  a key, which \<^verbatim>\<open>table.insert\<close> can produce, it need not. Bytecode: round trips, the form of what is
  accepted, the safety of what validates (but for the registers \<open>TFORLOOP\<close> calls its iterator in),
  also as intermediate representation (this theory). Registers: the top stays inside the array,
  which outgrows its limit only by the errors raised on full registers. Compiler: it
  ends, and its code names no register beyond the declared ones. Machine: a call gives the call
  stack back as it found it, a metered call ends, upvalues stay a sorted chain. Library: each
  host function but \<^verbatim>\<open>pcall\<close> and \<^verbatim>\<open>xpcall\<close> keeps what the interpreter asks of one, so programs that
  use only those end too; the two resume after an error, which can leave the gas counter at its
  largest value, and their unwinding is shown by itself; checked arithmetic, keys, mappings, protected calls, quoting, substrings; the pattern
  machine against a backtracking semantics. Scanner: it
  ends, and reads back what the library prints and quotes. Where the code leaves its documented
  behaviour, the theorem states what it does instead.

  \<^bold>\<open>Interfaces.\<close> The locale \<open>frame_stack\<close> is Go's interface \<^verbatim>\<open>callFrameStack\<close>, with both
  implementations interpreted; \<open>kv_store\<close> is what a table promises, \<open>codec\<close> a reader that undoes its
  writer (one interpretation for each piece of the bytecode format), \<open>word_group\<close> the limbs as a
  word; what a run of a frame leaves alone is the chain of locales \<open>frame_invariant\<close>,
  \<open>calling_frame\<close>, \<open>running_frame\<close> and \<open>host_frame\<close>, interpreted on the invariant of the machine's
  call stack.

  \<^bold>\<open>Bounds and fuel.\<close> The interpreter runs with fuel; \<open>call_need\<close>, computed from the gas left,
  the slots of the call stack and its height, is enough, because each instruction costs one unit
  of gas and a nested run starts on a higher frame. The compiler's fuel is the size of the chunk,
  the pattern reader's two more than the length of the pattern; both are shown to suffice. The
  pattern machine is a partial function, shown total. Theorems with a gas limit assume that it
  is set and is not the largest machine number (the counter would wrap).

  \<^bold>\<open>Not modelled.\<close> The Lua parser goyacc generates (the compiler model starts from the syntax
  tree, the scanner model ends with the tokens); the TOL front end
  behind the lexer (\<^verbatim>\<open>tol/parser\<close>, \<^verbatim>\<open>tol/sema\<close>, \<^verbatim>\<open>tol/lower\<close>,
  \<^verbatim>\<open>tol_ir_direct_lowering.go\<close>), formatter and test runner; artifacts, packages, metadata,
  verifier and commands, which are JSON, archives and files; \<^verbatim>\<open>_vm.go\<close> and \<^verbatim>\<open>_state.go\<close>, the
  inputs of the generator. In the machine: line hooks and debug information, stack traces, the
  segmented call stack as the machine's stack (it is modelled by itself), and the conversion of
  a Go panic into an error by a protected call (the outcome \<open>VUnmodelled\<close>). In the library:
  \<^verbatim>\<open>table.sort\<close>, \<^verbatim>\<open>string.format\<close>, \<^verbatim>\<open>string.gmatch\<close>. Legacy Keccak-256 and RIPEMD-160 are
  third-party code and parameters of the definitions that use them. Host functions outside the
  library are the parameter \<open>G\<close> of the interpreter with the hypothesis \<open>host_ok\<close>: they return, let
  callbacks run, and leave the call stack alone.
\<close>

section \<open>Validated prototypes translate to the intermediate representation\<close>

lemma ir_code_op:
  assumes "op_at (opGetOpCode w) = Some p" "p \<noteq> OP_SETLIST"
  shows "ir_code (w # ws) = bindr (ir_code ws) (\<lambda>is. Inr (ir_instruction p w # is))"
  using assms by (simp add: Let_def)

lemma ir_code_plain_words:
  "\<forall>w \<in> set ws. \<exists>p. op_at (opGetOpCode w) = Some p \<and> p \<noteq> OP_SETLIST \<Longrightarrow> ir_code rest = Inr is \<Longrightarrow>
   \<exists>is'. ir_code (ws @ rest) = Inr is'"
proof (induction ws)
  case (Cons w ws)
  then obtain p is' where "op_at (opGetOpCode w) = Some p" "p \<noteq> OP_SETLIST" "ir_code (ws @ rest) = Inr is'"
    by auto
  then show ?case using ir_code_op [of w p "ws @ rest"] by auto
qed simp

text \<open>The words an instruction consumes are plain instructions, except the data word of a \<open>SETLIST\<close>.\<close>

lemma op_at_code: "op_at (op_code p) = Some p"
  by (simp add: op_code_at op_code_range)

lemma extra_words_plain:
  assumes v: "validateDecodedInstruction f kids pc = Inr n" and pc: "pc < length (Code f)"
    and p: "op_at (opGetOpCode (Code f ! pc)) = Some p" "p \<noteq> OP_SETLIST" and j: "j < n"
  shows "\<exists>q. op_at (opGetOpCode (Code f ! (pc + 1 + j))) = Some q \<and> q \<noteq> OP_SETLIST"
proof -
  have "opGetOpCode (Code f ! (pc + 1 + j)) \<in> {op_code OP_MOVE, op_code OP_GETUPVAL, op_code OP_JMP}"
  proof (cases "p \<in> {OP_MOVEN, OP_TFORLOOP, OP_CLOSURE}")
    case False
    then have "n = 0" using v p by (auto simp: validateDecodedInstruction_def Let_def)
    with j show ?thesis by simp
  next
    case True
    then consider "p = OP_MOVEN" | "p = OP_TFORLOOP" | "p = OP_CLOSURE" by auto
    then show ?thesis
    proof cases
      case 1
      then have "validate_MOVEN f pc (Code f ! pc) = Inr n"
        using v p by (simp add: validateDecodedInstruction_def Let_def)
      then show ?thesis using j by (fastforce simp: validate_MOVEN_def Let_def)
    next
      case 2
      then have "validate_TFORLOOP f pc (Code f ! pc) = Inr n"
        using v p by (simp add: validateDecodedInstruction_def Let_def)
      then show ?thesis using j by (auto simp: validate_TFORLOOP_def Let_def)
    next
      case 3
      then have "validate_CLOSURE f kids pc (Code f ! pc) = Inr n"
        using v p by (simp add: validateDecodedInstruction_def Let_def)
      then have "validate_binding f pc j = Inr ()"
        using j by (auto simp: validate_CLOSURE_def Let_def split: option.splits if_splits)
      then show ?thesis by (auto simp: validate_binding_def Let_def split: if_splits)
    qed
  qed
  then consider "opGetOpCode (Code f ! (pc + 1 + j)) = op_code OP_MOVE"
    | "opGetOpCode (Code f ! (pc + 1 + j)) = op_code OP_GETUPVAL"
    | "opGetOpCode (Code f ! (pc + 1 + j)) = op_code OP_JMP" by blast
  then show ?thesis by cases (simp_all only: op_at_code, simp_all)
qed

lemma drop_words: "pc + n < length ws \<Longrightarrow>
  drop pc ws = ws ! pc # map (\<lambda>j. ws ! (pc + 1 + j)) [0..<n] @ drop (pc + n + 1) ws"
proof -
  assume l: "pc + n < length ws"
  have "drop pc ws = ws ! pc # drop (pc + 1) ws" using l by (simp add: Cons_nth_drop_Suc)
  also have "drop (pc + 1) ws = take n (drop (pc + 1) ws) @ drop n (drop (pc + 1) ws)"
    by (rule append_take_drop_id [symmetric])
  also have "take n (drop (pc + 1) ws) = map (\<lambda>j. ws ! (pc + 1 + j)) [0..<n]"
    using l by (intro nth_equalityI) auto
  finally show ?thesis by (simp add: add.commute)
qed

lemma validate_code_ir:
  "validate_code f kids pc = Inr () \<Longrightarrow> \<exists>is. ir_code (drop pc (Code f)) = Inr is"
proof (induction f kids pc rule: validate_code.induct)
  case (1 f kids pc)
  show ?case
  proof (cases "length (Code f) \<le> pc")
    case True
    then show ?thesis by simp
  next
    case False
    then obtain n where v: "validateDecodedInstruction f kids pc = Inr n"
      and rest: "validate_code f kids (pc + n + 1) = Inr ()"
      using "1.prems" by (subst (asm) validate_code.simps) auto
    from validateDecodedInstruction_sound [OF v] False obtain p where
      p: "op_at (opGetOpCode (Code f ! pc)) = Some p" and l: "pc + n < length (Code f)" by auto
    obtain "is" where tl: "ir_code (drop (pc + n + 1) (Code f)) = Inr is"
      using "1.IH" [OF False] v rest by auto
    note d = drop_words [OF l]
    show ?thesis
    proof (cases "p = OP_SETLIST")
      case False
      have "\<exists>is'. ir_code (map (\<lambda>j. Code f ! (pc + 1 + j)) [0..<n] @ drop (pc + n + 1) (Code f)) = Inr is'"
        by (rule ir_code_plain_words [OF _ tl])
          (use extra_words_plain [OF v _ p False] l in auto)
      then show ?thesis unfolding d using ir_code_op [OF p False] by auto
    next
      case True
      then have "validate_SETLIST f pc (Code f ! pc) = Inr n"
        using v p by (simp add: validateDecodedInstruction_def Let_def)
      then have n: "n = (if opGetArgC (Code f ! pc) = 0 then 1 else 0)"
        by (auto simp: validate_SETLIST_def Let_def split: if_splits)
      have c: "ir_C (ir_instruction OP_SETLIST (Code f ! pc)) = opGetArgC (Code f ! pc)"
        by (simp add: ir_instruction_def opProps_def mkProp_def Let_def)
      show ?thesis unfolding d using n p True c tl by (auto simp: Let_def)
    qed
  qed
qed

lemma validated_ir:
  "validateDecodedProto p = Inr () \<Longrightarrow> \<exists>f. irFromProto p = Inr f"
  and validated_irs:
  "validate_children i ks = Inr () \<Longrightarrow> \<exists>fs. irFromProtos ks = Inr fs"
proof (induction p and i ks rule: validateDecodedProto_validate_children.induct)
  case (1 f kids)
  then have n: "validate_node f kids = Inr ()" and k: "validate_children 0 kids = Inr ()" by auto
  from n have "validate_code f kids 0 = Inr ()" by (simp add: validate_node_def)
  from validate_code_ir [OF this] obtain "is" where "ir_code (Code f) = Inr is" by auto
  moreover from "1.IH" n k obtain fs where "irFromProtos kids = Inr fs" by auto
  ultimately show ?case by auto
next
  case (4 i child kids)
  then show ?case by (auto simp del: irFromProto.simps validateDecodedProto.simps)
qed auto

section \<open>Properties\<close>

text \<open>C29: a prototype accepted from a bytecode blob always translates to the intermediate
representation without a panic, and compiling that representation gives back the decoded
prototype itself.\<close>

theorem decoded_recompiles:
  assumes "DecodeFunctionProto blob = Inr p"
  shows "\<exists>program. BuildIRFromProto (Some p) [] = Inr program \<and> CompileIR (Some program) = Inr p"
proof -
  from Decode_form [OF assms] obtain q where p: "p = hydrateStringConstants q" "validateDecodedProto p = Inr ()"
    by blast
  from validated_ir [OF p(2)] obtain root where r: "irFromProto p = Inr root" by blast
  let ?program = "\<lparr>irp_Name = SourceName (proto_info p), irp_Root = Some root\<rparr>"
  have b: "BuildIRFromProto (Some p) [] = Inr ?program" using r by (simp add: BuildIRFromProto_def)
  have "set_source (SourceName (proto_info p)) p = p" by (cases p) simp
  then have "CompileIR (Some ?program) = Inr (hydrateStringConstants p)"
    using protoFromIR_irFromProto [OF r] by (simp add: CompileIR_def Let_def set_source_forget)
  with b p(1) show ?thesis by auto
qed

theorem decoded_recompiles_witness:
  "\<exists>blob program. DecodeFunctionProto blob = Inr sample_proto \<and>
     BuildIRFromProto (Some sample_proto) [] = Inr program \<and> CompileIR (Some program) = Inr sample_proto"
proof -
  from sample_encodes obtain blob where b: "EncodeFunctionProto (Some sample_proto) = Inr blob" "length blob < 2 ^ 32"
    by blast
  have d: "DecodeFunctionProto blob = Inr sample_proto"
    using Decode_Encode [OF sample_encodable(1) b]
    by (simp add: sample_encodable(2) sample_validated del: bindr_Inr_iff)
  from decoded_recompiles [OF d] d show ?thesis by blast
qed

end
